(* ===== verification/Seam_Prelude.thy ===== *)
theory Seam_Prelude
  imports Main "HOL-Library.Word" "HOL-Library.AList"
begin

text \<open>
  What every component of the development shares: names for the machine types of the Rust
  source, the little- and big-endian byte encodings of its integers, saturating arithmetic, the
  in-memory byte copies (\<^verbatim>\<open>copy_from_slice\<close>), ordered association lists for
  \<^verbatim>\<open>BTreeMap\<close>, the two kinds of failure (an \<^verbatim>\<open>Err\<close> value and a panic), and the
  interface \<open>byte_codec\<close> of a fixed-width wire format.
\<close>

unbundle bit_operations_syntax

section \<open>Machine types\<close>

text \<open>
  Unsigned integers keep their width; their \<open>+\<close>, \<open>-\<close> and \<open>*\<close> wrap, as in a release build.
  \<^verbatim>\<open>usize\<close> is \<open>nat\<close>: every such value of the source is the length of an in-memory object.
  A point in time is the nanoseconds since an arbitrary start of the monotonic clock and a
  duration is a number of nanoseconds; \<open>nat\<close> subtraction is exactly the saturating
  \<^verbatim>\<open>Instant::duration_since\<close>.
\<close>

type_synonym u8 = "8 word"
type_synonym u16 = "16 word"
type_synonym u32 = "32 word"
type_synonym u64 = "64 word"
type_synonym bytes = "u8 list"
type_synonym duration = nat
type_synonym instant = nat

named_theorems model_defs \<open>unfoldings of the constructors and plain accessors of the model\<close>
named_theorems codec_simps \<open>round trips and widths of the byte encodings\<close>

definition sat_sub :: "'a::len word \<Rightarrow> 'a word \<Rightarrow> 'a word" where
  "sat_sub a b = (if b \<le> a then a - b else 0)"

definition sat_add :: "'a::len word \<Rightarrow> 'a word \<Rightarrow> 'a word" where
  "sat_add a b = (if unat a + unat b < 2 ^ LENGTH('a) then a + b else - 1)"

definition sat_mul :: "'a::len word \<Rightarrow> 'a word \<Rightarrow> 'a word" where
  "sat_mul a b = (if unat a * unat b < 2 ^ LENGTH('a) then a * b else - 1)"

definition checked_sub :: "'a::len word \<Rightarrow> 'a word \<Rightarrow> 'a word option" where
  "checked_sub a b = (if b \<le> a then Some (a - b) else None)"

definition abs_diff :: "'a::len word \<Rightarrow> 'a word \<Rightarrow> 'a word" where
  "abs_diff a b = (if a \<le> b then b - a else a - b)"

lemma unat_sat_sub: "unat (sat_sub a b) = unat a - unat b"
  by (auto simp: sat_sub_def unat_sub word_le_nat_alt)

lemma unat_sat_add: "unat (sat_add a (b :: 'a::len word)) = min (unat a + unat b) (2 ^ LENGTH('a) - 1)"
proof (cases "unat a + unat b < 2 ^ LENGTH('a)")
  case True
  then show ?thesis by (simp add: sat_add_def unat_word_ariths)
next
  case False
  have "unat (- 1 :: 'a word) = 2 ^ LENGTH('a) - 1"
    by (simp add: unsigned_minus_1_eq_mask mask_eq_exp_minus_1)
  with False show ?thesis by (simp add: sat_add_def)
qed

lemma checked_sub_Some: "checked_sub a b = Some c \<longleftrightarrow> b \<le> a \<and> c = a - b"
  by (auto simp: checked_sub_def)

lemma unat_of_nat_id: "n < 2 ^ LENGTH('a) \<Longrightarrow> unat (of_nat n :: 'a::len word) = n"
  by (simp add: unat_of_nat take_bit_nat_eq_self)

text \<open>\<^verbatim>\<open>Duration::from_secs\<close>, \<^verbatim>\<open>from_millis\<close> and \<^verbatim>\<open>from_micros\<close>.\<close>

definition secs :: "nat \<Rightarrow> duration" where "secs n = n * 1000000000"
definition millis :: "nat \<Rightarrow> duration" where "millis n = n * 1000000"
definition micros :: "nat \<Rightarrow> duration" where "micros n = n * 1000"

text \<open>\<^verbatim>\<open>str::parse::<u64>\<close>: an optional plus sign, then at least one decimal digit, without overflow.\<close>

definition digit_value :: "char \<Rightarrow> nat" where
  "digit_value c = of_char c - 48"

definition is_digit :: "char \<Rightarrow> bool" where
  "is_digit c \<longleftrightarrow> 48 \<le> (of_char c :: nat) \<and> (of_char c :: nat) \<le> 57"

definition parse_u64 :: "string \<Rightarrow> u64 option" where
  "parse_u64 s =
     (let ds = (if s \<noteq> [] \<and> hd s = CHR ''+'' then tl s else s);
          n = foldl (\<lambda>acc c. acc * 10 + digit_value c) 0 ds
      in if ds \<noteq> [] \<and> list_all is_digit ds \<and> n < 2 ^ 64 then Some (of_nat n) else None)"

text \<open>An unsigned integer formatted with \<^verbatim>\<open>{}\<close>.\<close>

fun show_nat :: "nat \<Rightarrow> string" where
  "show_nat n = (if n < 10 then [char_of (48 + n)] else show_nat (n div 10) @ [char_of (48 + n mod 10)])"

declare show_nat.simps [simp del]

lemma div_mod_block:
  assumes "n = b * q + r" and "r < (b :: nat)"
  shows "n div b = q" and "n mod b = r"
  using assms by simp_all

section \<open>Failure\<close>

text \<open>
  An operation that returns \<^verbatim>\<open>Result\<close> gives a sum, with \<open>Inl\<close> the error. An operation that can
  panic (an index out of range, an \<^verbatim>\<open>unwrap\<close> or \<^verbatim>\<open>expect\<close> of nothing) gives an
  \<open>'a outcome\<close>.
\<close>

datatype 'a outcome = Panic | Return 'a

definition obind :: "'a outcome \<Rightarrow> ('a \<Rightarrow> 'b outcome) \<Rightarrow> 'b outcome" where
  "obind m f = (case m of Panic \<Rightarrow> Panic | Return x \<Rightarrow> f x)"

lemma obind_simps [simp]: "obind Panic f = Panic" "obind (Return x) f = f x"
  by (simp_all add: obind_def)

lemma obind_Return: "obind m f = Return y \<longleftrightarrow> (\<exists>x. m = Return x \<and> f x = Return y)"
  by (cases m) auto

text \<open>A \<^verbatim>\<open>for\<close> loop whose body can panic.\<close>

fun ofold :: "('a \<Rightarrow> 's \<Rightarrow> 's outcome) \<Rightarrow> 'a list \<Rightarrow> 's \<Rightarrow> 's outcome" where
  "ofold f [] s = Return s"
| "ofold f (x # xs) s = obind (f x s) (ofold f xs)"

lemma ofold_append: "ofold f (xs @ ys) s = obind (ofold f xs s) (ofold f ys)"
  by (induction xs arbitrary: s) (simp_all add: obind_def split: outcome.split)

fun omap :: "('a \<Rightarrow> 'b outcome) \<Rightarrow> 'a list \<Rightarrow> 'b list outcome" where
  "omap f [] = Return []"
| "omap f (x # xs) = obind (f x) (\<lambda>y. obind (omap f xs) (\<lambda>ys. Return (y # ys)))"

lemma omap_Return: "(\<And>x. x \<in> set xs \<Longrightarrow> f x = Return (g x)) \<Longrightarrow> omap f xs = Return (map g xs)"
  by (induction xs) simp_all

text \<open>\<^verbatim>\<open>SeamError\<close> of \<^verbatim>\<open>src/error.rs\<close>.\<close>

datatype seam_error =
    AuthFailed
  | Replay u64
  | TooOld u64
  | BufferTooSmall nat nat
  | InvalidPktType u8
  | HandshakeFailed string
  | FlowControlBlocked u64 u64
  | UnknownStream u32
  | StreamFinished u32
  | ProtocolViolation string
  | PacketTooLarge nat nat

section \<open>Integers as bytes\<close>

definition le_bytes :: "nat \<Rightarrow> 'a::len word \<Rightarrow> bytes" where
  "le_bytes n w = map (\<lambda>i. ucast (drop_bit (8 * i) w)) [0..<n]"

primrec of_le :: "bytes \<Rightarrow> 'a::len word" where
  "of_le [] = 0"
| "of_le (b # bs) = ucast b OR push_bit 8 (of_le bs)"

lemma length_le_bytes [simp]: "length (le_bytes n w) = n"
  by (simp add: le_bytes_def)

lemma bit_of_le:
  "bit (of_le bs :: 'a::len word) i \<longleftrightarrow>
     i < LENGTH('a) \<and> i div 8 < length bs \<and> bit (bs ! (i div 8)) (i mod 8)"
proof (induction bs arbitrary: i)
  case Nil
  then show ?case by simp
next
  case (Cons b bs)
  show ?case
  proof (cases "i < 8")
    case True
    then show ?thesis by (auto simp: bit_simps)
  next
    case False
    then have "i div 8 = Suc ((i - 8) div 8)" and "i mod 8 = (i - 8) mod 8"
      by (simp_all add: le_div_geq le_mod_geq)
    moreover have "\<not> bit b i"
      using False bit_imp_le_length [of b i] by auto
    moreover have "i < LENGTH('a) \<Longrightarrow> i - 8 < LENGTH('a)" by simp
    ultimately show ?thesis
      using False Cons.IH [of "i - 8"] by (auto simp: bit_simps)
  qed
qed

lemma bit_le_bytes_nth:
  "k < n \<Longrightarrow> bit (le_bytes n w ! k) j \<longleftrightarrow> j < 8 \<and> bit w (8 * k + j)"
  by (auto simp: le_bytes_def bit_simps ac_simps dest: bit_imp_le_length)

lemma of_le_le_bytes: "LENGTH('a) \<le> 8 * n \<Longrightarrow> of_le (le_bytes n (w :: 'a::len word)) = w"
  by (rule bit_word_eqI) (auto simp: bit_of_le bit_le_bytes_nth less_mult_imp_div_less mult.commute)

lemma le_bytes_of_le:
  assumes "length bs = n" and "8 * n \<le> LENGTH('a)"
  shows "le_bytes n (of_le bs :: 'a::len word) = bs"
proof (rule nth_equalityI)
  show "length (le_bytes n (of_le bs :: 'a word)) = length bs" using assms by simp
next
  fix k assume "k < length (le_bytes n (of_le bs :: 'a word))"
  then have k: "k < n" by simp
  show "le_bytes n (of_le bs :: 'a word) ! k = bs ! k"
  proof (rule bit_word_eqI)
    fix j assume "j < LENGTH(8)"
    then have "j < 8" by simp
    moreover have "8 * k + j < LENGTH('a)" using k \<open>j < 8\<close> assms(2) by linarith
    ultimately show "bit (le_bytes n (of_le bs :: 'a word) ! k) j = bit (bs ! k) j"
      using k assms(1) by (simp add: bit_le_bytes_nth bit_of_le)
  qed
qed

abbreviation u16_to_le :: "u16 \<Rightarrow> bytes" where "u16_to_le \<equiv> le_bytes 2"
abbreviation u32_to_le :: "u32 \<Rightarrow> bytes" where "u32_to_le \<equiv> le_bytes 4"
abbreviation u64_to_le :: "u64 \<Rightarrow> bytes" where "u64_to_le \<equiv> le_bytes 8"

definition u64_to_be :: "u64 \<Rightarrow> bytes" where "u64_to_be w = rev (le_bytes 8 w)"
definition u32_to_be :: "u32 \<Rightarrow> bytes" where "u32_to_be w = rev (le_bytes 4 w)"
definition of_be :: "bytes \<Rightarrow> 'a::len word" where "of_be bs = of_le (rev bs)"

lemma codec_words [codec_simps]:
  "of_le (le_bytes 2 (a :: u16)) = a"
  "of_le (le_bytes 4 (b :: u32)) = b"
  "of_le (le_bytes 8 (c :: u64)) = c"
  "of_be (u64_to_be d) = d"
  "of_be (u32_to_be e) = e"
  by (simp_all add: of_le_le_bytes of_be_def u64_to_be_def u32_to_be_def)

lemma length_to_be [simp]: "length (u64_to_be w) = 8" "length (u32_to_be v) = 4"
  by (simp_all add: u64_to_be_def u32_to_be_def)

definition u16_to_be :: "u16 \<Rightarrow> bytes" where "u16_to_be w = rev (le_bytes 2 w)"

lemma u16_to_be_codec [simp]: "length (u16_to_be w) = 2" "of_be (u16_to_be w) = w"
  by (simp_all add: u16_to_be_def of_be_def of_le_le_bytes)

lemma le_bytes_inj:
  assumes "le_bytes n (a :: 'a::len word) = le_bytes n b" and "LENGTH('a) \<le> 8 * n"
  shows "a = b"
proof -
  have "of_le (le_bytes n a) = (of_le (le_bytes n b) :: 'a word)" using assms(1) by simp
  then show ?thesis using assms(2) by (simp add: of_le_le_bytes)
qed

section \<open>Byte buffers\<close>

text \<open>\<open>slice xs i j\<close> is \<^verbatim>\<open>xs[i..j]\<close>; callers keep \<open>i \<le> j \<le> length xs\<close>, which the source checks
  or knows before each such expression. \<open>overwrite xs i ys\<close> is
  \<^verbatim>\<open>xs[i..i + ys.len()].copy_from_slice(ys)\<close>.\<close>

definition slice :: "'a list \<Rightarrow> nat \<Rightarrow> nat \<Rightarrow> 'a list" where
  "slice xs i j = take (j - i) (drop i xs)"

definition overwrite :: "'a list \<Rightarrow> nat \<Rightarrow> 'a list \<Rightarrow> 'a list" where
  "overwrite xs i ys = take i xs @ ys @ drop (i + length ys) xs"

definition resize :: "'a list \<Rightarrow> nat \<Rightarrow> 'a \<Rightarrow> 'a list" where
  "resize xs n d = take n xs @ replicate (n - length xs) d"

lemma length_slice [simp]: "length (slice xs i j) = min (j - i) (length xs - i)"
  by (simp add: slice_def min.commute)

lemma length_overwrite [simp]:
  "i + length ys \<le> length xs \<Longrightarrow> length (overwrite xs i ys) = length xs"
  by (simp add: overwrite_def)

lemma length_resize [simp]: "length (resize xs n d) = n"
  by (simp add: resize_def)

lemma nth_resize: "i < n \<Longrightarrow> resize xs n d ! i = (if i < length xs then xs ! i else d)"
  by (simp add: resize_def nth_append)

lemma resize_same [simp]: "length xs = n \<Longrightarrow> resize xs n d = xs"
  by (simp add: resize_def)

lemma nth_overwrite:
  "i + length ys \<le> length xs \<Longrightarrow> k < length xs \<Longrightarrow>
     overwrite xs i ys ! k = (if i \<le> k \<and> k < i + length ys then ys ! (k - i) else xs ! k)"
  by (auto simp: overwrite_def nth_append min_def)

lemma slice_append_l: "j \<le> length xs \<Longrightarrow> slice (xs @ ys) i j = slice xs i j"
  by (simp add: slice_def)

lemma slice_append_r: "length xs \<le> i \<Longrightarrow> slice (xs @ ys) i j = slice ys (i - length xs) (j - length xs)"
  by (simp add: slice_def diff_diff_eq)

lemma slice_mid: "slice (a @ b @ c) (length a) (length a + length b) = b"
  by (simp add: slice_def)

lemma slice_full: "length xs = j \<Longrightarrow> slice xs 0 j = xs"
  by (simp add: slice_def)

definition xor_bytes :: "bytes \<Rightarrow> bytes \<Rightarrow> bytes" where
  "xor_bytes xs ys = map2 (XOR) xs ys @ drop (length ys) xs"

text \<open>\<open>xor_bytes xs ys\<close> is the loop \<^verbatim>\<open>for (x, y) in xs.iter_mut().zip(ys) { *x ^= y }\<close>: bytes of \<open>xs\<close>
  beyond the end of \<open>ys\<close> stay.\<close>

lemma length_xor_bytes [simp]: "length (xor_bytes xs ys) = length xs"
  by (simp add: xor_bytes_def)

lemma nth_xor_bytes:
  "i < length xs \<Longrightarrow> xor_bytes xs ys ! i = (if i < length ys then xs ! i XOR ys ! i else xs ! i)"
  by (auto simp: xor_bytes_def nth_append)

lemma xor_bytes_involution [simp]: "xor_bytes (xor_bytes xs ys) ys = xs"
  by (rule nth_equalityI) (simp_all add: nth_xor_bytes xor.assoc)

lemma xor_bytes_cancel_left:
  assumes "xor_bytes xs ys = xor_bytes xs zs" and "length ys \<le> length xs" and "length zs = length ys"
  shows "ys = zs"
proof (rule nth_equalityI)
  show "length ys = length zs" using assms(3) by simp
next
  fix i assume "i < length ys"
  then have "xor_bytes xs ys ! i = xs ! i XOR ys ! i" and "xor_bytes xs zs ! i = xs ! i XOR zs ! i"
    using assms(2,3) by (simp_all add: nth_xor_bytes)
  with assms(1) have "xs ! i XOR ys ! i = xs ! i XOR zs ! i" by simp
  then have "xs ! i XOR (xs ! i XOR ys ! i) = xs ! i XOR (xs ! i XOR zs ! i)" by simp
  then show "ys ! i = zs ! i" by (simp flip: xor.assoc)
qed

section \<open>Hash maps\<close>

text \<open>A \<^verbatim>\<open>HashMap\<close> is an association list with distinct keys, updated by \<open>AList.update\<close> and
  \<open>AList.delete\<close>; where the source iterates over one, the order is the list's.\<close>

lemma alist_update_fresh: "k \<notin> fst ` set m \<Longrightarrow> AList.update k v m = m @ [(k, v)]"
  by (induction m) auto

lemma length_alist_update:
  "length (AList.update k v m) = (if k \<in> fst ` set m then length m else Suc (length m))"
  by (induction m) auto

lemma set_alist_update: "set (AList.update k v m) \<subseteq> insert (k, v) (set m)"
  by (induction m) auto

lemma set_alist_delete: "set (AList.delete k m) = {e \<in> set m. fst e \<noteq> k}"
  by (auto simp: AList.delete_eq)

lemma distinct_delete: "distinct (map fst m) \<Longrightarrow> distinct (map fst (AList.delete k m))"
  by (simp add: AList.delete_eq distinct_map_filter)

lemma map_of_filter_pair:
  "distinct (map fst m) \<Longrightarrow>
     map_of (filter P m) i = (case map_of m i of Some v \<Rightarrow> if P (i, v) then Some v else None | None \<Rightarrow> None)"
  by (induction m) (auto split: option.splits dest: map_of_SomeD, (force dest: map_of_SomeD)+)

lemma fold_delete:
  "distinct (map fst m) \<Longrightarrow>
     distinct (map fst (fold AList.delete ks m)) \<and> fold AList.delete ks m = filter (\<lambda>e. fst e \<notin> set ks) m"
proof (induction ks arbitrary: m)
  case (Cons k ks)
  have "fold AList.delete (k # ks) m = filter (\<lambda>e. fst e \<notin> set ks) (AList.delete k m)"
    using Cons.IH [OF distinct_delete [OF Cons.prems]] by simp
  also have "\<dots> = filter (\<lambda>e. fst e \<notin> set (k # ks)) m" by (simp add: AList.delete_eq) (rule filter_cong; auto)
  finally show ?case using Cons.prems by (simp add: distinct_map_filter)
qed simp

section \<open>Ordered maps\<close>

text \<open>A \<^verbatim>\<open>BTreeMap\<close> is the list of its entries in key order; \<open>map_of\<close> looks a key up.\<close>

type_synonym ('k, 'v) btree = "('k \<times> 'v) list"

definition bt_ok :: "('k::linorder, 'v) btree \<Rightarrow> bool" where
  "bt_ok m \<longleftrightarrow> sorted_wrt (<) (map fst m)"

fun bt_insert :: "'k::linorder \<Rightarrow> 'v \<Rightarrow> ('k, 'v) btree \<Rightarrow> ('k, 'v) btree" where
  "bt_insert k v [] = [(k, v)]"
| "bt_insert k v (e # m) =
     (if k < fst e then (k, v) # e # m
      else if k = fst e then (k, v) # m
      else e # bt_insert k v m)"

definition bt_remove :: "'k \<Rightarrow> ('k, 'v) btree \<Rightarrow> ('k, 'v) btree" where
  "bt_remove k m = filter (\<lambda>e. fst e \<noteq> k) m"

lemma bt_ok_Nil [simp]: "bt_ok []"
  by (simp add: bt_ok_def)

lemma bt_ok_Cons: "bt_ok (e # m) \<longleftrightarrow> (\<forall>f \<in> set m. fst e < fst f) \<and> bt_ok m"
  by (auto simp: bt_ok_def)

lemma set_fst_bt_insert: "fst ` set (bt_insert k v m) = insert k (fst ` set m)"
  by (induction m) auto

lemma set_bt_insert:
  "set (bt_insert k v m) \<subseteq> insert (k, v) (set m)"
  by (induction m) auto

lemma bt_ok_insert [simp]: "bt_ok m \<Longrightarrow> bt_ok (bt_insert k v m)"
proof (induction m)
  case Nil
  then show ?case by (simp add: bt_ok_def)
next
  case (Cons e m)
  then show ?case
    using set_bt_insert [of k v m] by (force simp: bt_ok_Cons)
qed

lemma bt_ok_filter [simp]: "bt_ok m \<Longrightarrow> bt_ok (filter P m)"
  by (induction m) (auto simp: bt_ok_Cons)

lemma bt_ok_remove [simp]: "bt_ok m \<Longrightarrow> bt_ok (bt_remove k m)"
  by (simp add: bt_remove_def)

lemma map_of_bt_insert [simp]: "map_of (bt_insert k v m) = (map_of m)(k \<mapsto> v)"
  by (induction m) (auto simp: fun_eq_iff)

lemma map_of_bt_remove [simp]: "map_of (bt_remove k m) = (map_of m)(k := None)"
  by (induction m) (auto simp: bt_remove_def fun_eq_iff)

lemma bt_ok_distinct: "bt_ok m \<Longrightarrow> distinct (map fst m)"
  by (induction m) (auto simp: bt_ok_Cons)

lemma fst_bt_remove: "fst ` set (bt_remove k m) = fst ` set m - {k}"
  by (auto simp: bt_remove_def)

section \<open>Fixed-width wire formats\<close>

text \<open>
  The contract of a wire format: every well-formed value has \<open>width\<close> bytes and decodes from
  them. What a client needs follows once: two values never share an encoding, and a field of such
  a format can be followed by others without ambiguity.
\<close>

locale byte_codec =
  fixes enc :: "'a \<Rightarrow> bytes" and dec :: "bytes \<Rightarrow> 'a option" and wf :: "'a \<Rightarrow> bool" and width :: nat
  assumes enc_width: "wf x \<Longrightarrow> length (enc x) = width"
    and dec_enc: "wf x \<Longrightarrow> dec (enc x) = Some x"
begin

lemma enc_inj: "wf x \<Longrightarrow> wf y \<Longrightarrow> enc x = enc y \<Longrightarrow> x = y"
  by (metis dec_enc option.inject)

lemma enc_append_inj:
  assumes "wf x" and "wf y" and "enc x @ r = enc y @ s"
  shows "x = y \<and> r = s"
proof -
  have "length (enc x) = length (enc y)" using assms by (simp add: enc_width)
  with assms(3) have "enc x = enc y \<and> r = s" by simp
  with assms enc_inj show ?thesis by blast
qed

lemma dec_enc_take: "wf x \<Longrightarrow> dec (take width (enc x @ r)) = Some x"
  by (simp add: enc_width dec_enc)

end

interpretation u64_le: byte_codec u64_to_le "\<lambda>bs. if length bs = 8 then Some (of_le bs) else None" "\<lambda>_. True" 8
  by unfold_locales (simp_all add: codec_simps)

end
