(* ===== verification/Crypto_Prims.thy ===== *)
theory Crypto_Prims
  imports Seam_Prelude
begin

text \<open>
  \<^verbatim>\<open>src/crypto/mod.rs\<close> and \<^verbatim>\<open>src/crypto/keys.rs\<close>: the cipher suites, the AEAD dispatch over them, and
  the packet keys. The ciphers and hash functions themselves come from other crates: they are
  the fields of the record \<open>prims\<close>, an argument of every definition that calls them, and the
  documented behaviour the code relies on is stated by the predicates \<open>aead_lawful\<close>,
  \<open>keystream_lawful\<close> and \<open>kdf_lawful\<close>.
\<close>

section \<open>Third-party primitives\<close>

type_synonym aead_fn = "bytes \<Rightarrow> bytes \<Rightarrow> bytes \<Rightarrow> bytes \<Rightarrow> bytes option"

text \<open>An AEAD function takes key, nonce, associated data and buffer; \<open>None\<close> is the crate's error.
  \<open>chacha20_keystream key nonce pos n\<close> is \<open>n\<close> bytes of key stream from byte position \<open>pos\<close>.\<close>

record prims =
  chacha20poly1305_seal :: aead_fn
  chacha20poly1305_open :: aead_fn
  aes256gcm_seal :: aead_fn
  aes256gcm_open :: aead_fn
  chacha20_keystream :: "bytes \<Rightarrow> bytes \<Rightarrow> nat \<Rightarrow> nat \<Rightarrow> bytes"
  blake3_derive_key :: "string \<Rightarrow> bytes \<Rightarrow> bytes"
  blake3_keyed_hash :: "bytes \<Rightarrow> bytes \<Rightarrow> bytes"
  blake3_hash :: "bytes \<Rightarrow> bytes"
  x25519_public :: "bytes \<Rightarrow> bytes"
  x25519_dh :: "bytes \<Rightarrow> bytes \<Rightarrow> bytes"

text \<open>A lawful AEAD pair seals every message below its size limit into that message's length and a
  16-byte tag, and opens what it sealed.\<close>

definition aead_ok :: "aead_fn \<Rightarrow> aead_fn \<Rightarrow> bool" where
  "aead_ok seal opn \<longleftrightarrow>
     (\<forall>k n a p. length k = 32 \<and> length n = 12 \<and> length p < 2 ^ 32 \<longrightarrow>
        (\<exists>c. seal k n a p = Some c \<and> length c = length p + 16 \<and> opn k n a c = Some p))"

definition aead_lawful :: "prims \<Rightarrow> bool" where
  "aead_lawful P \<longleftrightarrow>
     aead_ok (chacha20poly1305_seal P) (chacha20poly1305_open P) \<and>
     aead_ok (aes256gcm_seal P) (aes256gcm_open P)"

definition keystream_lawful :: "prims \<Rightarrow> bool" where
  "keystream_lawful P \<longleftrightarrow> (\<forall>k n p l. length (chacha20_keystream P k n p l) = l)"

definition kdf_lawful :: "prims \<Rightarrow> bool" where
  "kdf_lawful P \<longleftrightarrow> (\<forall>c m. length (blake3_derive_key P c m) = 32) \<and> (\<forall>k m. length (blake3_keyed_hash P k m) = 32)"

section \<open>Cipher suites\<close>

datatype cipher_suite = ChaCha20Poly1305 | Aes256Gcm

definition cipher_suite_default :: cipher_suite where
  "cipher_suite_default = ChaCha20Poly1305"

definition cipher_suite_parse :: "string \<Rightarrow> cipher_suite option" where
  "cipher_suite_parse s =
     (if s = ''chacha20poly1305'' \<or> s = ''chacha20-poly1305'' then Some ChaCha20Poly1305
      else if s = ''aes256gcm'' \<or> s = ''aes-256-gcm'' then Some Aes256Gcm
      else None)"

fun cipher_suite_as_str :: "cipher_suite \<Rightarrow> string" where
  "cipher_suite_as_str ChaCha20Poly1305 = ''chacha20poly1305''"
| "cipher_suite_as_str Aes256Gcm = ''aes256gcm''"

lemma cipher_suite_parse_as_str [simp]: "cipher_suite_parse (cipher_suite_as_str c) = Some c"
  by (cases c) (simp_all add: cipher_suite_parse_def)

text \<open>The trait object \<^verbatim>\<open>Box<dyn AeadCipher>\<close>: one of the two implementations with its key.\<close>

datatype aead_cipher = ChaCha20Poly1305Cipher bytes | Aes256GcmCipher bytes

fun make_cipher :: "cipher_suite \<Rightarrow> bytes \<Rightarrow> aead_cipher" where
  "make_cipher ChaCha20Poly1305 key = ChaCha20Poly1305Cipher key"
| "make_cipher Aes256Gcm key = Aes256GcmCipher key"

definition checked_aead :: "aead_fn \<Rightarrow> bytes \<Rightarrow> bytes \<Rightarrow> bytes \<Rightarrow> bytes \<Rightarrow> seam_error + bytes" where
  "checked_aead f key nonce aad buf =
     (if length nonce \<noteq> 12 then Inl AuthFailed
      else case f key nonce aad buf of None \<Rightarrow> Inl AuthFailed | Some out \<Rightarrow> Inr out)"

fun encrypt_in_place :: "prims \<Rightarrow> aead_cipher \<Rightarrow> bytes \<Rightarrow> bytes \<Rightarrow> bytes \<Rightarrow> seam_error + bytes" where
  "encrypt_in_place P (ChaCha20Poly1305Cipher key) nonce aad buf =
     checked_aead (chacha20poly1305_seal P) key nonce aad buf"
| "encrypt_in_place P (Aes256GcmCipher key) nonce aad buf =
     checked_aead (aes256gcm_seal P) key nonce aad buf"

fun decrypt_in_place :: "prims \<Rightarrow> aead_cipher \<Rightarrow> bytes \<Rightarrow> bytes \<Rightarrow> bytes \<Rightarrow> seam_error + bytes" where
  "decrypt_in_place P (ChaCha20Poly1305Cipher key) nonce aad buf =
     checked_aead (chacha20poly1305_open P) key nonce aad buf"
| "decrypt_in_place P (Aes256GcmCipher key) nonce aad buf =
     checked_aead (aes256gcm_open P) key nonce aad buf"

lemma decrypt_error: "decrypt_in_place P c nonce aad buf = Inl e \<Longrightarrow> e = AuthFailed"
  by (cases c) (auto simp: checked_aead_def split: if_splits option.splits)

lemma seal_then_open:
  assumes "aead_lawful P" and "length key = 32" and "length nonce = 12" and "length p < 2 ^ 32"
  obtains c where "encrypt_in_place P (make_cipher suite key) nonce aad p = Inr c"
    and "length c = length p + 16"
    and "decrypt_in_place P (make_cipher suite key) nonce aad c = Inr p"
proof (cases suite)
  case ChaCha20Poly1305
  from assms obtain c where "chacha20poly1305_seal P key nonce aad p = Some c"
    "length c = length p + 16" "chacha20poly1305_open P key nonce aad c = Some p"
    unfolding aead_lawful_def aead_ok_def by blast
  with ChaCha20Poly1305 assms(3) that show ?thesis by (simp add: checked_aead_def)
next
  case Aes256Gcm
  from assms obtain c where "aes256gcm_seal P key nonce aad p = Some c"
    "length c = length p + 16" "aes256gcm_open P key nonce aad c = Some p"
    unfolding aead_lawful_def aead_ok_def by blast
  with Aes256Gcm assms(3) that show ?thesis by (simp add: checked_aead_def)
qed

section \<open>Packet keys\<close>

record packet_keys =
  enc_key :: bytes
  hp_key :: bytes
  nonce_base :: bytes
  keys_cipher_suite :: cipher_suite

definition keys_ok :: "packet_keys \<Rightarrow> bool" where
  "keys_ok k \<longleftrightarrow> length (enc_key k) = 32 \<and> length (hp_key k) = 32 \<and> length (nonce_base k) = 12"

definition packet_keys_new_with_cipher :: "bytes \<Rightarrow> bytes \<Rightarrow> bytes \<Rightarrow> cipher_suite \<Rightarrow> packet_keys" where
  "packet_keys_new_with_cipher ek hk nb suite =
     \<lparr>enc_key = ek, hp_key = hk, nonce_base = nb, keys_cipher_suite = suite\<rparr>"

definition packet_keys_new :: "bytes \<Rightarrow> bytes \<Rightarrow> bytes \<Rightarrow> packet_keys" where
  "packet_keys_new ek hk nb =
     \<lparr>enc_key = ek, hp_key = hk, nonce_base = nb, keys_cipher_suite = cipher_suite_default\<rparr>"

definition derive_from_secret_with_cipher :: "prims \<Rightarrow> bytes \<Rightarrow> cipher_suite \<Rightarrow> packet_keys" where
  "derive_from_secret_with_cipher P secret suite =
     (let ek = blake3_derive_key P ''apex/payload-encryption/v1'' secret;
          hk = blake3_derive_key P ''apex/header-protection/v1'' secret;
          nb_full = blake3_derive_key P ''apex/nonce-base/v1'' secret;
          nb = take 12 nb_full
      in \<lparr>enc_key = ek, hp_key = hk, nonce_base = nb, keys_cipher_suite = suite\<rparr>)"

definition derive_from_secret :: "prims \<Rightarrow> bytes \<Rightarrow> packet_keys" where
  "derive_from_secret P secret = derive_from_secret_with_cipher P secret cipher_suite_default"

definition packet_keys_to_bytes :: "packet_keys \<Rightarrow> bytes" where
  "packet_keys_to_bytes k = enc_key k @ hp_key k @ nonce_base k"

definition packet_keys_from_bytes :: "bytes \<Rightarrow> packet_keys option" where
  "packet_keys_from_bytes b =
     (if length b \<noteq> 76 then None
      else Some \<lparr>enc_key = slice b 0 32, hp_key = slice b 32 64, nonce_base = slice b 64 76,
                 keys_cipher_suite = cipher_suite_default\<rparr>)"

lemma keys_ok_derive [simp]: "kdf_lawful P \<Longrightarrow> keys_ok (derive_from_secret_with_cipher P s c)"
  by (simp add: keys_ok_def derive_from_secret_with_cipher_def Let_def kdf_lawful_def)

lemma packet_keys_bytes_roundtrip:
  "keys_ok k \<Longrightarrow>
     packet_keys_from_bytes (packet_keys_to_bytes k) = Some (k\<lparr>keys_cipher_suite := ChaCha20Poly1305\<rparr>)"
  by (cases k) (simp add: keys_ok_def packet_keys_from_bytes_def packet_keys_to_bytes_def slice_def
      cipher_suite_default_def)

lemma length_packet_keys_to_bytes [simp]: "keys_ok k \<Longrightarrow> length (packet_keys_to_bytes k) = 76"
  by (simp add: keys_ok_def packet_keys_to_bytes_def)

text \<open>The 76-byte key format is a wire format for the keys of the default suite.\<close>

interpretation keys_codec: byte_codec packet_keys_to_bytes packet_keys_from_bytes
  "\<lambda>k. keys_ok k \<and> keys_cipher_suite k = ChaCha20Poly1305" 76
  by unfold_locales (auto simp: packet_keys_bytes_roundtrip)

section \<open>Primitives for examples\<close>

text \<open>Concrete primitives: a cipher that appends its key's and nonce's first bytes as tag, and a key
  stream of ones.\<close>

definition demo_seal :: aead_fn where
  "demo_seal k n a p = Some (p @ take 16 (k @ n))"

definition demo_open :: aead_fn where
  "demo_open k n a c =
     (if length c < 16 \<or> drop (length c - 16) c \<noteq> take 16 (k @ n) then None else Some (take (length c - 16) c))"

definition demo_prims :: prims where
  "demo_prims =
     \<lparr>chacha20poly1305_seal = demo_seal, chacha20poly1305_open = demo_open,
      aes256gcm_seal = demo_seal, aes256gcm_open = demo_open,
      chacha20_keystream = (\<lambda>k n p l. replicate l 1),
      blake3_derive_key = (\<lambda>c m. take 32 (m @ replicate 32 0)),
      blake3_keyed_hash = (\<lambda>k m. take 32 (xor_bytes (m @ replicate 32 0) k)),
      blake3_hash = (\<lambda>m. take 32 (m @ replicate 32 0)),
      x25519_public = (\<lambda>s. s), x25519_dh = (\<lambda>s p. xor_bytes s p)\<rparr>"

lemma demo_prims_lawful: "aead_lawful demo_prims" "keystream_lawful demo_prims" "kdf_lawful demo_prims"
proof -
  have "aead_ok demo_seal demo_open" by (auto simp: aead_ok_def demo_seal_def demo_open_def)
  then show "aead_lawful demo_prims" by (simp add: aead_lawful_def demo_prims_def)
  show "keystream_lawful demo_prims" by (simp add: keystream_lawful_def demo_prims_def)
  show "kdf_lawful demo_prims" by (auto simp: kdf_lawful_def demo_prims_def min_def)
qed

definition demo_keys :: packet_keys where
  "demo_keys = packet_keys_new_with_cipher (replicate 32 3) (replicate 32 4) (replicate 12 5) Aes256Gcm"

lemma demo_keys_ok: "keys_ok demo_keys"
  by (simp add: keys_ok_def demo_keys_def packet_keys_new_with_cipher_def)

end
