(* ===== verification/Key_Schedule.thy ===== *)
theory Key_Schedule
  imports Crypto_Prims
begin

text \<open>
  \<^verbatim>\<open>src/crypto/rekey.rs\<close>: traffic-key rotation. A schedule holds the secret of the current epoch, the
  keys derived from it and, when prepared, the keys of the next epoch. Its specification is the
  one-way chain of secrets \<open>epoch_secret\<close>.
\<close>

record key_schedule =
  current_secret :: bytes
  ks_cipher_suite :: cipher_suite
  ks_current :: packet_keys
  ks_next :: "packet_keys option"
  epoch :: u64

definition key_schedule_new_with_cipher :: "prims \<Rightarrow> bytes \<Rightarrow> cipher_suite \<Rightarrow> key_schedule" where
  "key_schedule_new_with_cipher P initial_secret suite =
     \<lparr>current_secret = initial_secret, ks_cipher_suite = suite,
      ks_current = derive_from_secret_with_cipher P initial_secret suite, ks_next = None, epoch = 0\<rparr>"

definition key_schedule_new :: "prims \<Rightarrow> bytes \<Rightarrow> key_schedule" where
  "key_schedule_new P initial_secret = key_schedule_new_with_cipher P initial_secret cipher_suite_default"

definition key_phase :: "key_schedule \<Rightarrow> bool" where
  "key_phase s \<longleftrightarrow> epoch s AND 1 = 1"

definition prepare_next :: "prims \<Rightarrow> key_schedule \<Rightarrow> key_schedule" where
  "prepare_next P s =
     (if ks_next s \<noteq> None then s
      else
        let next_secret = blake3_derive_key P ''apex/key-update/v1'' (current_secret s)
        in s\<lparr>ks_next := Some (derive_from_secret_with_cipher P next_secret (ks_cipher_suite s))\<rparr>)"

definition key_rotate :: "prims \<Rightarrow> key_schedule \<Rightarrow> key_schedule" where
  "key_rotate P s =
     (let s1 = prepare_next P s;
          next_secret = blake3_derive_key P ''apex/key-update/v1'' (current_secret s1);
          s2 = s1\<lparr>current_secret := next_secret\<rparr>;
          keys = (case ks_next s2 of
                    Some k \<Rightarrow> k
                  | None \<Rightarrow> derive_from_secret_with_cipher P (current_secret s2) (ks_cipher_suite s2))
      in s2\<lparr>ks_current := keys, ks_next := None, epoch := epoch s2 + 1\<rparr>)"

text \<open>The secret of epoch \<open>n\<close> and the state a schedule has there, prepared or not.\<close>

fun epoch_secret :: "prims \<Rightarrow> bytes \<Rightarrow> nat \<Rightarrow> bytes" where
  "epoch_secret P s 0 = s"
| "epoch_secret P s (Suc n) = blake3_derive_key P ''apex/key-update/v1'' (epoch_secret P s n)"

definition schedule_at :: "prims \<Rightarrow> bytes \<Rightarrow> cipher_suite \<Rightarrow> nat \<Rightarrow> key_schedule \<Rightarrow> bool" where
  "schedule_at P s suite n k \<longleftrightarrow>
     current_secret k = epoch_secret P s n \<and> ks_cipher_suite k = suite \<and>
     ks_current k = derive_from_secret_with_cipher P (epoch_secret P s n) suite \<and>
     (case ks_next k of None \<Rightarrow> True
      | Some x \<Rightarrow> x = derive_from_secret_with_cipher P (epoch_secret P s (Suc n)) suite) \<and>
     epoch k = of_nat n"

lemma schedule_at_new: "schedule_at P s suite 0 (key_schedule_new_with_cipher P s suite)"
  by (simp add: schedule_at_def key_schedule_new_with_cipher_def)

lemma schedule_at_prepare: "schedule_at P s suite n k \<Longrightarrow> schedule_at P s suite n (prepare_next P k)"
  by (auto simp: schedule_at_def prepare_next_def Let_def)

lemma schedule_at_rotate:
  assumes "schedule_at P s suite n k"
  shows "schedule_at P s suite (Suc n) (key_rotate P k)"
  using schedule_at_prepare [OF assms]
  by (auto simp: schedule_at_def key_rotate_def Let_def split: option.splits)

datatype key_op = PrepareNext | Rotate

fun key_step :: "prims \<Rightarrow> key_op \<Rightarrow> key_schedule \<Rightarrow> key_schedule" where
  "key_step P PrepareNext k = prepare_next P k"
| "key_step P Rotate k = key_rotate P k"

lemma schedule_at_fold:
  "schedule_at P s suite n k \<Longrightarrow>
     schedule_at P s suite (n + length (filter (\<lambda>opn. opn = Rotate) ops)) (fold (key_step P) ops k)"
proof (induction ops arbitrary: n k)
  case (Cons opn ops)
  then show ?case
    using Cons.IH [of n "prepare_next P k"] Cons.IH [of "Suc n" "key_rotate P k"]
    by (cases opn) (simp_all add: schedule_at_prepare schedule_at_rotate)
qed simp

text \<open>Two peers that start from the same secret and rotate equally often hold the same keys and
  the same key phase, however either of them interleaves early preparation of the next epoch.\<close>

theorem peers_stay_in_epoch:
  assumes "length (filter (\<lambda>opn. opn = Rotate) ops) = length (filter (\<lambda>opn. opn = Rotate) ops')"
  shows "ks_current (fold (key_step P) ops (key_schedule_new_with_cipher P s suite)) =
      ks_current (fold (key_step P) ops' (key_schedule_new_with_cipher P s suite)) \<and>
    key_phase (fold (key_step P) ops (key_schedule_new_with_cipher P s suite)) =
      key_phase (fold (key_step P) ops' (key_schedule_new_with_cipher P s suite)) \<and>
    ks_current (fold (key_step P) ops (key_schedule_new_with_cipher P s suite)) =
      derive_from_secret_with_cipher P
        (epoch_secret P s (length (filter (\<lambda>opn. opn = Rotate) ops))) suite"
  using schedule_at_fold [OF schedule_at_new, of P s suite ops]
    schedule_at_fold [OF schedule_at_new, of P s suite ops'] assms
  by (simp add: schedule_at_def key_phase_def)

theorem peers_stay_in_epoch_witness:
  "ks_current (fold (key_step demo_prims) [Rotate, PrepareNext, PrepareNext, Rotate]
      (key_schedule_new_with_cipher demo_prims [1] Aes256Gcm)) =
   ks_current (fold (key_step demo_prims) [Rotate, Rotate, PrepareNext]
      (key_schedule_new_with_cipher demo_prims [1] Aes256Gcm))"
  using peers_stay_in_epoch [of "[Rotate, PrepareNext, PrepareNext, Rotate]" "[Rotate, Rotate, PrepareNext]"] by simp

end
