(* ===== verification/Ratchet.thy ===== *)
theory Ratchet
  imports Crypto_Prims
begin

text \<open>
  \<^verbatim>\<open>src/crypto/ratchet.rs\<close> and \<^verbatim>\<open>src/session/ratchet_session.rs\<close>: the double ratchet. The clock and the
  bytes drawn from the system's random source are arguments. \<open>chain_key\<close> and \<open>message_key\<close> specify
  the symmetric chain; the lemmas relate the keys a receiver derives to positions in it.
\<close>

section \<open>Constants and the ratchet frame\<close>

definition MAX_SKIP :: nat where "MAX_SKIP = 50"
definition SKIP_KEY_TTL :: duration where "SKIP_KEY_TTL = secs 30"
definition DEFAULT_EPOCH_PACKET_LIMIT :: u64 where "DEFAULT_EPOCH_PACKET_LIMIT = 1000"
definition DEFAULT_EPOCH_TIME_LIMIT :: duration where "DEFAULT_EPOCH_TIME_LIMIT = secs 30"

record ratchet_step_frame =
  new_ephemeral_public :: bytes
  step_epoch :: u64

definition ratchet_step_encode :: "ratchet_step_frame \<Rightarrow> bytes" where
  "ratchet_step_encode f =
     overwrite (overwrite (replicate 40 0) 0 (new_ephemeral_public f)) 32 (u64_to_le (step_epoch f))"

definition ratchet_step_decode :: "bytes \<Rightarrow> ratchet_step_frame option" where
  "ratchet_step_decode b =
     (if length b < 40 then None
      else Some \<lparr>new_ephemeral_public = slice b 0 32, step_epoch = of_le (slice b 32 40)\<rparr>)"

interpretation ratchet_frame: byte_codec ratchet_step_encode ratchet_step_decode
  "\<lambda>f. length (new_ephemeral_public f) = 32" 40
  by unfold_locales
    (auto simp: ratchet_step_encode_def ratchet_step_decode_def overwrite_def slice_def codec_simps)

section \<open>Key derivation\<close>

definition ratchet_step :: "prims \<Rightarrow> bytes \<Rightarrow> bytes \<times> bytes" where
  "ratchet_step P ck =
     (blake3_derive_key P ''seam ratchet chain 2026'' (ck @ [1]),
      blake3_derive_key P ''seam ratchet message 2026'' (ck @ [2]))"

definition derive_new_root :: "prims \<Rightarrow> bytes \<Rightarrow> bytes \<Rightarrow> bytes" where
  "derive_new_root P old_root dh = blake3_derive_key P ''seam ratchet root 2026'' (old_root @ dh)"

definition generate_ephemeral :: "bytes \<Rightarrow> bytes" where
  "generate_ephemeral rnd = rnd[0 := rnd ! 0 AND 248, 31 := (rnd ! 31 AND 127) OR 64]"

definition ephemeral_public :: "prims \<Rightarrow> bytes \<Rightarrow> bytes" where
  "ephemeral_public P secret = x25519_public P secret"

definition dh_exchange :: "prims \<Rightarrow> bytes \<Rightarrow> bytes \<Rightarrow> bytes" where
  "dh_exchange P our_secret their_public = x25519_dh P our_secret their_public"

section \<open>State\<close>

record skip_entry =
  skip_key :: bytes
  inserted_at :: instant

record double_ratchet =
  root_key :: bytes
  send_chain_key :: bytes
  recv_chain_key :: bytes
  send_epoch :: u64
  recv_epoch :: u64
  packets_in_epoch :: u64
  epoch_packet_limit :: u64
  epoch_time_limit :: duration
  last_ratchet :: instant
  our_ephemeral :: bytes
  their_ephemeral :: bytes
  skipped :: "((u64 \<times> u64) \<times> skip_entry) list"

definition ratchet_new :: "prims \<Rightarrow> instant \<Rightarrow> bytes \<Rightarrow> bytes \<Rightarrow> bool \<Rightarrow> double_ratchet" where
  "ratchet_new P now rnd root_secret is_initiator =
     (let send_ck = (if is_initiator then blake3_derive_key P ''seam ratchet initiator-send 2026'' root_secret
                     else blake3_derive_key P ''seam ratchet responder-send 2026'' root_secret);
          recv_ck = (if is_initiator then blake3_derive_key P ''seam ratchet responder-send 2026'' root_secret
                     else blake3_derive_key P ''seam ratchet initiator-send 2026'' root_secret)
      in \<lparr>root_key = root_secret, send_chain_key = send_ck, recv_chain_key = recv_ck,
          send_epoch = 0, recv_epoch = 0, packets_in_epoch = 0,
          epoch_packet_limit = DEFAULT_EPOCH_PACKET_LIMIT, epoch_time_limit = DEFAULT_EPOCH_TIME_LIMIT,
          last_ratchet = now, our_ephemeral = generate_ephemeral rnd,
          their_ephemeral = replicate 32 0, skipped = []\<rparr>)"

definition ratchet_new_with_limits ::
  "prims \<Rightarrow> instant \<Rightarrow> bytes \<Rightarrow> bytes \<Rightarrow> bool \<Rightarrow> u64 \<Rightarrow> duration \<Rightarrow> double_ratchet" where
  "ratchet_new_with_limits P now rnd root_secret is_initiator packet_limit time_limit =
     (ratchet_new P now rnd root_secret is_initiator)
       \<lparr>epoch_packet_limit := packet_limit, epoch_time_limit := time_limit\<rparr>"

section \<open>Operations\<close>

definition should_ratchet :: "instant \<Rightarrow> double_ratchet \<Rightarrow> bool" where
  "should_ratchet now r \<longleftrightarrow>
     packets_in_epoch r \<ge> epoch_packet_limit r \<or> now - last_ratchet r \<ge> epoch_time_limit r"

definition next_send_key :: "prims \<Rightarrow> double_ratchet \<Rightarrow> bytes \<times> double_ratchet" where
  "next_send_key P r =
     (case ratchet_step P (send_chain_key r) of
        (new_ck, msg_key) \<Rightarrow>
          (msg_key, r\<lparr>send_chain_key := new_ck, packets_in_epoch := packets_in_epoch r + 1\<rparr>))"

definition purge_expired_skip_keys :: "instant \<Rightarrow> double_ratchet \<Rightarrow> double_ratchet" where
  "purge_expired_skip_keys now r =
     r\<lparr>skipped := filter (\<lambda>e. now - inserted_at (snd e) < SKIP_KEY_TTL) (skipped r)\<rparr>"

definition recv_packet_index_in_epoch :: "double_ratchet \<Rightarrow> u64" where
  "recv_packet_index_in_epoch r = 0"

definition skip_one :: "prims \<Rightarrow> instant \<Rightarrow> u64 \<Rightarrow> u64 \<Rightarrow> double_ratchet \<Rightarrow> double_ratchet" where
  "skip_one P now ep i r =
     (case ratchet_step P (recv_chain_key r) of
        (new_ck, msg_key) \<Rightarrow>
          let r' = r\<lparr>recv_chain_key := new_ck\<rparr> in
          if length (skipped r') < MAX_SKIP
          then r'\<lparr>skipped := AList.update (ep, i) \<lparr>skip_key = msg_key, inserted_at = now\<rparr> (skipped r')\<rparr>
          else r')"

definition next_recv_key ::
  "prims \<Rightarrow> instant \<Rightarrow> double_ratchet \<Rightarrow> u64 \<Rightarrow> u64 \<Rightarrow> bytes option \<times> double_ratchet" where
  "next_recv_key P now r ep packet_index =
     (let r1 = purge_expired_skip_keys now r in
      case map_of (skipped r1) (ep, packet_index) of
        Some entry \<Rightarrow>
          (Some (skip_key entry), r1\<lparr>skipped := AList.delete (ep, packet_index) (skipped r1)\<rparr>)
      | None \<Rightarrow>
          if ep \<noteq> recv_epoch r1 then (None, r1)
          else
            let current_pos = recv_packet_index_in_epoch r1 in
            if packet_index < current_pos then (None, r1)
            else
              let skip_count = sat_sub packet_index current_pos in
              if unat skip_count > MAX_SKIP then (None, r1)
              else
                let r2 = fold (\<lambda>i. skip_one P now ep (of_nat i)) [unat current_pos..<unat packet_index] r1;
                    (new_ck, msg_key) = ratchet_step P (recv_chain_key r2)
                in (Some msg_key, r2\<lparr>recv_chain_key := new_ck\<rparr>))"

definition apply_peer_ratchet_step :: "prims \<Rightarrow> double_ratchet \<Rightarrow> ratchet_step_frame \<Rightarrow> double_ratchet" where
  "apply_peer_ratchet_step P r step =
     (let r1 = r\<lparr>their_ephemeral := new_ephemeral_public step\<rparr>;
          dh_out = dh_exchange P (our_ephemeral r1) (their_ephemeral r1);
          r2 = r1\<lparr>root_key := derive_new_root P (root_key r1) dh_out\<rparr>;
          new_recv_ck = blake3_derive_key P ''seam ratchet recv-chain 2026'' (root_key r2)
      in r2\<lparr>recv_chain_key := new_recv_ck, recv_epoch := step_epoch step\<rparr>)"

definition advance_send_ratchet ::
  "prims \<Rightarrow> instant \<Rightarrow> bytes \<Rightarrow> double_ratchet \<Rightarrow> ratchet_step_frame \<times> double_ratchet" where
  "advance_send_ratchet P now rnd r =
     (let new_ephemeral = generate_ephemeral rnd;
          new_pub = ephemeral_public P new_ephemeral;
          dh_out = dh_exchange P new_ephemeral (their_ephemeral r);
          r1 = r\<lparr>root_key := derive_new_root P (root_key r) dh_out\<rparr>;
          new_send_ck = blake3_derive_key P ''seam ratchet send-chain 2026'' (root_key r1);
          r2 = r1\<lparr>send_chain_key := new_send_ck, our_ephemeral := new_ephemeral,
                  send_epoch := send_epoch r1 + 1, packets_in_epoch := 0, last_ratchet := now\<rparr>
      in (\<lparr>new_ephemeral_public = new_pub, step_epoch = send_epoch r2\<rparr>, r2))"

section \<open>Session wrapper\<close>

record ratchet_config =
  cfg_epoch_packet_limit :: u64
  cfg_epoch_time_secs :: u64

definition ratchet_config_default :: ratchet_config where
  "ratchet_config_default = \<lparr>cfg_epoch_packet_limit = 1000, cfg_epoch_time_secs = 30\<rparr>"

datatype config_error = NotAPositiveInteger | MustBeAtLeastOne

definition apply_config_key ::
  "ratchet_config \<Rightarrow> string \<Rightarrow> string \<Rightarrow> (config_error + bool) \<times> ratchet_config" where
  "apply_config_key c key v =
     (if key = ''ratchet_epoch_packets'' then
        (case parse_u64 v of
           None \<Rightarrow> (Inl NotAPositiveInteger, c)
         | Some n \<Rightarrow> if n = 0 then (Inl MustBeAtLeastOne, c)
                     else (Inr True, c\<lparr>cfg_epoch_packet_limit := n\<rparr>))
      else if key = ''ratchet_epoch_seconds'' then
        (case parse_u64 v of
           None \<Rightarrow> (Inl NotAPositiveInteger, c)
         | Some n \<Rightarrow> if n = 0 then (Inl MustBeAtLeastOne, c)
                     else (Inr True, c\<lparr>cfg_epoch_time_secs := n\<rparr>))
      else (Inr False, c))"

definition session_ratchet_new ::
  "prims \<Rightarrow> instant \<Rightarrow> bytes \<Rightarrow> bytes \<Rightarrow> bool \<Rightarrow> ratchet_config \<Rightarrow> double_ratchet" where
  "session_ratchet_new P now rnd handshake_hash is_initiator c =
     ratchet_new_with_limits P now rnd handshake_hash is_initiator
       (cfg_epoch_packet_limit c) (secs (unat (cfg_epoch_time_secs c)))"

definition maybe_advance_send ::
  "prims \<Rightarrow> instant \<Rightarrow> bytes \<Rightarrow> double_ratchet \<Rightarrow> bytes option \<times> double_ratchet" where
  "maybe_advance_send P now rnd r =
     (if \<not> should_ratchet now r then (None, r)
      else case advance_send_ratchet P now rnd r of (step, r') \<Rightarrow> (Some (ratchet_step_encode step), r'))"

definition apply_peer_step_bytes ::
  "prims \<Rightarrow> double_ratchet \<Rightarrow> bytes \<Rightarrow> (seam_error + unit) \<times> double_ratchet" where
  "apply_peer_step_bytes P r frame =
     (case ratchet_step_decode frame of
        None \<Rightarrow> (Inl (ProtocolViolation ''malformed RatchetStep frame''), r)
      | Some step \<Rightarrow> (Inr (), apply_peer_ratchet_step P r step))"

section \<open>The symmetric chain\<close>

fun chain_key :: "prims \<Rightarrow> bytes \<Rightarrow> nat \<Rightarrow> bytes" where
  "chain_key P ck 0 = ck"
| "chain_key P ck (Suc n) = fst (ratchet_step P (chain_key P ck n))"

definition message_key :: "prims \<Rightarrow> bytes \<Rightarrow> nat \<Rightarrow> bytes" where
  "message_key P ck n = snd (ratchet_step P (chain_key P ck n))"

lemma chain_key_add: "chain_key P (chain_key P ck m) n = chain_key P ck (m + n)"
  by (induction n) simp_all

lemma chain_key_shift: "chain_key P (fst (ratchet_step P ck)) n = chain_key P ck (Suc n)"
  using chain_key_add [of P ck 1 n] by simp

text \<open>The keys of \<open>n\<close> sends, and of a list of receive requests (time and packet index) in one epoch.\<close>

fun send_keys :: "prims \<Rightarrow> double_ratchet \<Rightarrow> nat \<Rightarrow> bytes list" where
  "send_keys P r 0 = []"
| "send_keys P r (Suc n) = (case next_send_key P r of (k, r') \<Rightarrow> k # send_keys P r' n)"

fun recv_keys :: "prims \<Rightarrow> u64 \<Rightarrow> double_ratchet \<Rightarrow> (instant \<times> u64) list \<Rightarrow> bytes option list" where
  "recv_keys P ep r [] = []"
| "recv_keys P ep r ((now, i) # rs) =
     (case next_recv_key P now r ep i of (k, r') \<Rightarrow> k # recv_keys P ep r' rs)"

lemma send_keys_chain: "send_keys P r n = map (message_key P (send_chain_key r)) [0..<n]"
proof (induction n arbitrary: r)
  case (Suc n)
  have "map (message_key P (fst (ratchet_step P (send_chain_key r)))) [0..<n] =
      map (\<lambda>i. message_key P (send_chain_key r) (Suc i)) [0..<n]"
    by (simp add: message_key_def chain_key_shift)
  with Suc show ?case
    by (simp add: next_send_key_def case_prod_beta message_key_def upt_conv_Cons del: upt_Suc flip: map_Suc_upt)
qed simp

lemma purge_fresh:
  "\<forall>e \<in> set (skipped r). now - inserted_at (snd e) < SKIP_KEY_TTL \<Longrightarrow> purge_expired_skip_keys now r = r"
  by (simp add: purge_expired_skip_keys_def)

text \<open>Skipping \<open>n\<close> positions moves the chain by \<open>n\<close> and caches the key of each, room permitting.\<close>

lemma skip_fold:
  assumes "skipped r = []" and "n \<le> MAX_SKIP"
  shows "recv_chain_key (fold (\<lambda>i. skip_one P now ep (of_nat i)) [0..<n] r) = chain_key P (recv_chain_key r) n \<and>
    recv_epoch (fold (\<lambda>i. skip_one P now ep (of_nat i)) [0..<n] r) = recv_epoch r \<and>
    skipped (fold (\<lambda>i. skip_one P now ep (of_nat i)) [0..<n] r) =
      map (\<lambda>i. ((ep, of_nat i), \<lparr>skip_key = message_key P (recv_chain_key r) i, inserted_at = now\<rparr>)) [0..<n]"
  using assms(2)
proof (induction n)
  case (Suc n)
  define q where "q = fold (\<lambda>i. skip_one P now ep (of_nat i)) [0..<n] r"
  have q: "recv_chain_key q = chain_key P (recv_chain_key r) n" "recv_epoch q = recv_epoch r"
    "skipped q = map (\<lambda>i. ((ep, of_nat i), \<lparr>skip_key = message_key P (recv_chain_key r) i, inserted_at = now\<rparr>)) [0..<n]"
    using Suc by (simp_all add: q_def)
  have n: "n < 2 ^ LENGTH(64)" using Suc.prems by (simp add: MAX_SKIP_def)
  have "(ep, of_nat n) \<notin> fst ` set (skipped q)"
  proof
    assume "(ep, of_nat n) \<in> fst ` set (skipped q)"
    then obtain i where "i < n" "(of_nat n :: u64) = of_nat i" using q(3) by auto
    with n show False by (metis unat_of_nat_id less_irrefl less_trans)
  qed
  then have upd: "AList.update (ep, of_nat n) v (skipped q) = skipped q @ [((ep, of_nat n), v)]" for v
    by (rule alist_update_fresh)
  have "skip_one P now ep (of_nat n) q =
      q\<lparr>recv_chain_key := chain_key P (recv_chain_key r) (Suc n),
        skipped := skipped q @ [((ep, of_nat n), \<lparr>skip_key = message_key P (recv_chain_key r) n, inserted_at = now\<rparr>)]\<rparr>"
    using Suc.prems q(1) arg_cong [OF q(3), of length] upd
    by (simp add: skip_one_def case_prod_beta message_key_def)
  then show ?case using q by (simp flip: q_def)
qed (use assms(1) in simp)

text \<open>The window after a jump to packet \<open>i\<close> at time \<open>t0\<close>, with the indices in \<open>J\<close> still cached.\<close>

definition caches :: "prims \<Rightarrow> bytes \<Rightarrow> u64 \<Rightarrow> instant \<Rightarrow> u64 set \<Rightarrow> double_ratchet \<Rightarrow> bool" where
  "caches P ck ep t0 J r \<longleftrightarrow>
     distinct (map fst (skipped r)) \<and> recv_epoch r = ep \<and>
     set (skipped r) = (\<lambda>j. ((ep, j), \<lparr>skip_key = message_key P ck (unat j), inserted_at = t0\<rparr>)) ` J"

lemma caches_jump:
  assumes "skipped r = []" and "i \<le> 50" and "recv_epoch r = ep"
  shows "fst (next_recv_key P t0 r ep i) = Some (message_key P (recv_chain_key r) (unat i))"
    and "caches P (recv_chain_key r) ep t0 {..<i} (snd (next_recv_key P t0 r ep i))"
proof -
  have i: "unat i \<le> MAX_SKIP" using assms(2) by (simp add: MAX_SKIP_def word_le_nat_alt)
  have purged: "purge_expired_skip_keys t0 r = r" using assms(1) by (intro purge_fresh) simp
  note f = skip_fold [OF assms(1) i, of P t0 ep]
  have step: "next_recv_key P t0 r ep i =
      (Some (message_key P (recv_chain_key r) (unat i)),
       (fold (\<lambda>i. skip_one P t0 ep (of_nat i)) [0..<unat i] r)\<lparr>recv_chain_key := chain_key P (recv_chain_key r) (Suc (unat i))\<rparr>)"
    using assms i f
    by (simp add: next_recv_key_def purged recv_packet_index_in_epoch_def Let_def sat_sub_def
        case_prod_beta message_key_def)
  then show "fst (next_recv_key P t0 r ep i) = Some (message_key P (recv_chain_key r) (unat i))" by simp
  have small: "n < 2 ^ LENGTH(64)" if "n < unat i" for n using that unsigned_less [of i, where 'a = nat] by linarith
  have "set (map (\<lambda>n. ((ep, of_nat n), \<lparr>skip_key = message_key P (recv_chain_key r) n, inserted_at = t0\<rparr>)) [0..<unat i]) =
      (\<lambda>j. ((ep, j), \<lparr>skip_key = message_key P (recv_chain_key r) (unat j), inserted_at = t0\<rparr>)) ` {..<i}" (is "?L = ?R")
  proof (intro equalityI subsetI)
    fix x assume "x \<in> ?L"
    then obtain n where "n < unat i" "x = ((ep, of_nat n), \<lparr>skip_key = message_key P (recv_chain_key r) n, inserted_at = t0\<rparr>)"
      by auto
    with small [of n] show "x \<in> ?R" by (intro image_eqI [of _ _ "of_nat n"]) (simp_all add: unat_of_nat_id word_less_nat_alt)
  next
    fix x assume "x \<in> ?R"
    then show "x \<in> ?L" by (auto simp: word_less_nat_alt intro!: image_eqI [of _ _ "unat _"])
  qed
  moreover have "inj_on (\<lambda>n. of_nat n :: u64) {0..<unat i}"
    using small by (intro inj_onI) (metis atLeastLessThan_iff unat_of_nat_id)
  ultimately show "caches P (recv_chain_key r) ep t0 {..<i} (snd (next_recv_key P t0 r ep i))"
    using f assms(3) by (auto simp: step caches_def distinct_map inj_on_def)
qed

lemma caches_hit:
  assumes c: "caches P ck ep t0 J r" and "j \<in> J" and "now - t0 < SKIP_KEY_TTL"
  shows "fst (next_recv_key P now r ep j) = Some (message_key P ck (unat j))"
    and "caches P ck ep t0 (J - {j}) (snd (next_recv_key P now r ep j))"
proof -
  have purged: "purge_expired_skip_keys now r = r" using c assms(3) by (intro purge_fresh) (auto simp: caches_def)
  have "map_of (skipped r) (ep, j) = Some \<lparr>skip_key = message_key P ck (unat j), inserted_at = t0\<rparr>"
    using c assms(2) by (intro map_of_is_SomeI) (auto simp: caches_def)
  then have step: "next_recv_key P now r ep j =
      (Some (message_key P ck (unat j)), r\<lparr>skipped := AList.delete (ep, j) (skipped r)\<rparr>)"
    by (simp add: next_recv_key_def purged)
  then show "fst (next_recv_key P now r ep j) = Some (message_key P ck (unat j))" by simp
  show "caches P ck ep t0 (J - {j}) (snd (next_recv_key P now r ep j))"
    using c by (auto simp: step caches_def set_alist_delete distinct_delete)
qed

lemma caches_hits:
  assumes "caches P ck ep t0 J r" and "distinct (map snd rs)" and "snd ` set rs \<subseteq> J"
    and "\<forall>q \<in> set rs. fst q - t0 < SKIP_KEY_TTL"
  shows "recv_keys P ep r rs = map (\<lambda>q. Some (message_key P ck (unat (snd q)))) rs"
  using assms
proof (induction rs arbitrary: r J)
  case (Cons q rs)
  obtain now j where q: "q = (now, j)" by force
  note hit = caches_hit [OF Cons.prems(1), of j now]
  from Cons.prems q have "recv_keys P ep (snd (next_recv_key P now r ep j)) rs =
      map (\<lambda>q. Some (message_key P ck (unat (snd q)))) rs"
    by (intro Cons.IH [OF hit(2)]) auto
  with hit(1) Cons.prems q show ?case by (simp add: case_prod_beta)
qed simp

section \<open>Reachable states\<close>

inductive ratchet_reach :: "prims \<Rightarrow> double_ratchet \<Rightarrow> bool" for P where
  fresh: "ratchet_reach P (session_ratchet_new P now rnd root is_initiator c)"
| send: "ratchet_reach P r \<Longrightarrow> ratchet_reach P (snd (next_send_key P r))"
| recv: "ratchet_reach P r \<Longrightarrow> ratchet_reach P (snd (next_recv_key P now r ep i))"
| peer: "ratchet_reach P r \<Longrightarrow> ratchet_reach P (snd (apply_peer_step_bytes P r frame))"
| advance: "ratchet_reach P r \<Longrightarrow> ratchet_reach P (snd (maybe_advance_send P now rnd r))"

definition skip_window_ok :: "double_ratchet \<Rightarrow> bool" where
  "skip_window_ok r \<longleftrightarrow> distinct (map fst (skipped r)) \<and> length (skipped r) \<le> MAX_SKIP"

lemma skip_window_purge: "skip_window_ok r \<Longrightarrow> skip_window_ok (purge_expired_skip_keys now r)"
  unfolding skip_window_ok_def purge_expired_skip_keys_def
  by (auto intro: distinct_map_filter le_trans [OF length_filter_le])

lemma skip_window_skip: "skip_window_ok r \<Longrightarrow> skip_window_ok (skip_one P now ep i r)"
  by (auto simp: skip_window_ok_def skip_one_def Let_def case_prod_beta length_alist_update distinct_update)

lemma skip_window_fold: "skip_window_ok r \<Longrightarrow> skip_window_ok (fold (\<lambda>i. skip_one P now ep (f i)) is r)"
  by (induction "is" arbitrary: r) (auto intro: skip_window_skip)

lemma skip_window_delete: "skip_window_ok r \<Longrightarrow> skip_window_ok (r\<lparr>skipped := AList.delete k (skipped r)\<rparr>)"
  using length_delete_le [of k "skipped r"] by (auto simp: skip_window_ok_def intro: distinct_delete)

lemma skip_window_chain: "skip_window_ok (r\<lparr>recv_chain_key := ck\<rparr>) = skip_window_ok r"
  by (simp add: skip_window_ok_def)

lemma skip_window_recv:
  assumes "skip_window_ok r"
  shows "skip_window_ok (snd (next_recv_key P now r ep i))"
  using skip_window_purge [OF assms, of now]
  by (auto simp: next_recv_key_def Let_def case_prod_beta skip_window_chain
      intro: skip_window_fold skip_window_delete split: option.split)

text \<open>C20: In every reachable state of a session's ratchet the window of skipped keys holds at most 50
  entries, each under its own index, whatever indices and frames the peer sends.\<close>

theorem skip_window_bounded:
  assumes "ratchet_reach P r"
  shows "length (skipped r) \<le> 50 \<and> distinct (map fst (skipped r))"
proof -
  from assms have "skip_window_ok r"
  proof induction
    case (fresh now rnd root is_initiator c)
    then show ?case
      by (simp add: skip_window_ok_def session_ratchet_new_def ratchet_new_with_limits_def ratchet_new_def Let_def)
  next
    case (send r)
    then show ?case by (simp add: skip_window_ok_def next_send_key_def case_prod_beta)
  next
    case (recv r now ep i)
    then show ?case by (simp add: skip_window_recv)
  next
    case (peer r frame)
    then show ?case
      by (simp add: skip_window_ok_def apply_peer_step_bytes_def apply_peer_ratchet_step_def Let_def split: option.split)
  next
    case (advance r now rnd)
    then show ?case by (simp add: skip_window_ok_def maybe_advance_send_def advance_send_ratchet_def Let_def)
  qed
  then show ?thesis by (simp add: skip_window_ok_def MAX_SKIP_def)
qed

theorem skip_window_bounded_witness:
  "length (skipped (snd (next_recv_key demo_prims 5
     (session_ratchet_new demo_prims 0 (replicate 32 9) (replicate 32 1) True ratchet_config_default) 0 7))) \<le> 50"
  using skip_window_bounded [OF ratchet_reach.recv [OF ratchet_reach.fresh]] by blast

text \<open>C21: A jump ahead followed by any out-of-order arrivals agrees with the sender. When the first
  packet to arrive is number \<open>i\<close> (at most 50) and packets below it follow, each at most once, in any order within 30 seconds,
  the receiver derives for each exactly the key the sender used.\<close>

theorem out_of_order_keys_agree:
  assumes "i \<le> 50" and "distinct (map snd rs)" and "\<forall>q \<in> set rs. snd q < i \<and> fst q - t0 < secs 30"
  shows "recv_keys P 0 (ratchet_new P now rnd root False) ((t0, i) # rs) =
    map (\<lambda>q. Some (send_keys P (ratchet_new P now' rnd' root True) (Suc (unat i)) ! unat (snd q))) ((t0, i) # rs)"
proof -
  define r where "r = ratchet_new P now rnd root False"
  define ck where "ck = recv_chain_key r"
  have r: "skipped r = []" "recv_epoch r = 0" by (simp_all add: r_def ratchet_new_def Let_def)
  have ck: "send_chain_key (ratchet_new P now' rnd' root True) = ck"
    by (simp add: ck_def r_def ratchet_new_def Let_def)
  note jump = caches_jump [OF r(1) assms(1) r(2), of P t0, folded ck_def]
  have "recv_keys P 0 (snd (next_recv_key P t0 r 0 i)) rs = map (\<lambda>q. Some (message_key P ck (unat (snd q)))) rs"
    using assms(2,3) by (intro caches_hits [OF jump(2)]) (auto simp: SKIP_KEY_TTL_def)
  moreover have "send_keys P (ratchet_new P now' rnd' root True) (Suc (unat i)) ! unat j = message_key P ck (unat j)"
    if "j \<le> i" for j
    using that by (simp add: send_keys_chain ck word_le_nat_alt del: upt_Suc)
  ultimately show ?thesis using jump(1) assms(3) by (auto simp: r_def [symmetric] case_prod_beta)
qed

theorem out_of_order_keys_agree_witness:
  "recv_keys demo_prims 0 (ratchet_new demo_prims 0 (replicate 32 1) (replicate 32 2) False) [(10, 3), (20, 1), (30, 2)] =
   map (\<lambda>q. Some (send_keys demo_prims (ratchet_new demo_prims 0 (replicate 32 8) (replicate 32 2) True) 4 ! unat (snd q)))
     [(10 :: nat, 3 :: u64), (20, 1), (30, 2)]"
proof -
  have four: "Suc (unat (3 :: u64)) = 4" by simp
  show ?thesis
    by (rule out_of_order_keys_agree [of 3 "[(20, 1), (30, 2)]" 10, unfolded four]) (simp_all add: secs_def)
qed

text \<open>Packets that arrive in order do not agree. The receiver never counts its position, so after
  packet 0 it derives for packet 1 the key of chain position 2, and a second request for packet 0 is
  answered with the key of position 1 instead of being refused as a duplicate.\<close>

theorem in_order_keys_diverge:
  "let ck = blake3_derive_key P ''seam ratchet initiator-send 2026'' root in
    send_keys P (ratchet_new P now' rnd' root True) 3 = map (message_key P ck) [0, 1, 2] \<and>
    recv_keys P 0 (ratchet_new P now rnd root False) [(t0, 0), (t1, 1)] = map (Some \<circ> message_key P ck) [0, 2] \<and>
    recv_keys P 0 (ratchet_new P now rnd root False) [(t0, 0), (t1, 0)] = map (Some \<circ> message_key P ck) [0, 1]"
  unfolding Let_def
proof (intro conjI)
  define ck where "ck = blake3_derive_key P ''seam ratchet initiator-send 2026'' root"
  show "send_keys P (ratchet_new P now' rnd' root True) 3 =
      map (message_key P (blake3_derive_key P ''seam ratchet initiator-send 2026'' root)) [0, 1, 2]"
    by (simp add: send_keys_chain ratchet_new_def Let_def upt_rec numeral_eq_Suc)
  define r where "r = ratchet_new P now rnd root False"
  have r: "skipped r = []" "recv_epoch r = 0" "recv_chain_key r = ck" by (simp_all add: r_def ck_def ratchet_new_def Let_def)
  define r1 where "r1 = snd (next_recv_key P t0 r 0 0)"
  have r1: "skipped r1 = []" "recv_epoch r1 = 0" "recv_chain_key r1 = chain_key P ck 1"
    using r by (simp_all add: r1_def next_recv_key_def purge_fresh Let_def recv_packet_index_in_epoch_def sat_sub_def
        MAX_SKIP_def case_prod_beta)
  have one: "(1 :: u64) \<le> 50" by (simp add: word_le_nat_alt)
  have key: "message_key P (chain_key P ck 1) n = message_key P ck (Suc n)" for n
    using chain_key_shift [of P ck n] by (simp add: message_key_def)
  show "recv_keys P 0 (ratchet_new P now rnd root False) [(t0, 0), (t1, 1)] =
      map (Some \<circ> message_key P (blake3_derive_key P ''seam ratchet initiator-send 2026'' root)) [0, 2]"
    unfolding ck_def [symmetric]
    using caches_jump(1) [OF r(1) _ r(2), of 0 P t0] caches_jump(1) [OF r1(1) one r1(2), of P t1] r(3) r1(3) key
    by (simp add: r_def [symmetric] r1_def [symmetric] case_prod_beta numeral_2_eq_2)
  show "recv_keys P 0 (ratchet_new P now rnd root False) [(t0, 0), (t1, 0)] =
      map (Some \<circ> message_key P (blake3_derive_key P ''seam ratchet initiator-send 2026'' root)) [0, 1]"
    unfolding ck_def [symmetric]
    using caches_jump(1) [OF r(1) _ r(2), of 0 P t0] caches_jump(1) [OF r1(1) _ r1(2), of 0 P t1] r(3) r1(3) key
    by (simp add: r_def [symmetric] r1_def [symmetric] case_prod_beta)
qed

end
