(* ===== verification/Packet.thy ===== *)
theory Packet
  imports Seam_Prelude
begin

text \<open>
  \<^verbatim>\<open>src/packet.rs\<close>: the sizes of a packet on the wire and the packet types with their type byte.
\<close>

definition HEADER_LEN :: nat where "HEADER_LEN = 32"
definition TAG_LEN :: nat where "TAG_LEN = 16"
definition MIN_PACKET_LEN :: nat where "MIN_PACKET_LEN = HEADER_LEN + TAG_LEN"
definition MAX_PACKET_LEN :: nat where "MAX_PACKET_LEN = 65535"

lemmas packet_sizes = HEADER_LEN_def TAG_LEN_def MIN_PACKET_LEN_def MAX_PACKET_LEN_def

definition encode_buf_len :: "nat \<Rightarrow> nat" where
  "encode_buf_len plaintext_len = HEADER_LEN + plaintext_len + TAG_LEN"

datatype pkt_type =
    Initial
  | Handshake
  | Data
  | Ack
  | FecRepair
  | Chaff
  | PathProbe
  | Close
  | Datagram
  | KeyUpdate
  | MaxData
  | Ping
  | Pong
  | SessionTicket
  | SvcResume
  | SvcResumeOk
  | PathChallenge
  | PathResponse

fun pkt_type_as_u8 :: "pkt_type \<Rightarrow> u8" where
  "pkt_type_as_u8 Initial = 0x00"
| "pkt_type_as_u8 Handshake = 0x01"
| "pkt_type_as_u8 Data = 0x02"
| "pkt_type_as_u8 Ack = 0x03"
| "pkt_type_as_u8 FecRepair = 0x04"
| "pkt_type_as_u8 Chaff = 0x05"
| "pkt_type_as_u8 PathProbe = 0x06"
| "pkt_type_as_u8 Close = 0x07"
| "pkt_type_as_u8 Datagram = 0x08"
| "pkt_type_as_u8 KeyUpdate = 0x09"
| "pkt_type_as_u8 MaxData = 0x0A"
| "pkt_type_as_u8 Ping = 0x0B"
| "pkt_type_as_u8 Pong = 0x0C"
| "pkt_type_as_u8 SessionTicket = 0x0D"
| "pkt_type_as_u8 SvcResume = 0x0E"
| "pkt_type_as_u8 SvcResumeOk = 0x0F"
| "pkt_type_as_u8 PathChallenge = 0x10"
| "pkt_type_as_u8 PathResponse = 0x11"

definition pkt_type_try_from :: "u8 \<Rightarrow> seam_error + pkt_type" where
  "pkt_type_try_from v =
     (if v = 0x00 then Inr Initial
      else if v = 0x01 then Inr Handshake
      else if v = 0x02 then Inr Data
      else if v = 0x03 then Inr Ack
      else if v = 0x04 then Inr FecRepair
      else if v = 0x05 then Inr Chaff
      else if v = 0x06 then Inr PathProbe
      else if v = 0x07 then Inr Close
      else if v = 0x08 then Inr Datagram
      else if v = 0x09 then Inr KeyUpdate
      else if v = 0x0A then Inr MaxData
      else if v = 0x0B then Inr Ping
      else if v = 0x0C then Inr Pong
      else if v = 0x0D then Inr SessionTicket
      else if v = 0x0E then Inr SvcResume
      else if v = 0x0F then Inr SvcResumeOk
      else if v = 0x10 then Inr PathChallenge
      else if v = 0x11 then Inr PathResponse
      else Inl (InvalidPktType v))"

lemma pkt_type_try_from_as_u8 [simp, codec_simps]: "pkt_type_try_from (pkt_type_as_u8 t) = Inr t"
  by (cases t) (simp_all add: pkt_type_try_from_def)

lemma pkt_type_try_from_Inr: "pkt_type_try_from v = Inr t \<Longrightarrow> v = pkt_type_as_u8 t"
  by (auto simp: pkt_type_try_from_def split: if_splits)

lemma pkt_type_try_from_Inl: "pkt_type_try_from v = Inl e \<Longrightarrow> e = InvalidPktType v"
  by (auto simp: pkt_type_try_from_def split: if_splits)

end
