(* ===== verification/Replay_Window.thy ===== *)
theory Replay_Window
  imports Seam_Prelude
begin

text \<open>
  \<^verbatim>\<open>src/crypto/replay.rs\<close>: the 1024-slot sliding anti-replay window. The state is the base sequence
  number and a bitmap of sixteen 64-bit words; the abstract specification is the set of sequence
  numbers accepted so far. The window is shown to refine it exactly: every verdict, the choice
  between \<open>TooOld\<close> and \<open>Replay\<close> included, is a function of that set alone.
\<close>

section \<open>The window\<close>

record replay_window =
  base_seq :: u64
  bitmap :: "u64 list"

definition replay_new :: replay_window where
  "replay_new = \<lparr>base_seq = 0, bitmap = replicate 16 0\<rparr>"

definition replay_check :: "replay_window \<Rightarrow> u64 \<Rightarrow> seam_error + unit" where
  "replay_check w seq =
     (if seq < base_seq w then Inl (TooOld seq)
      else
        let offset = seq - base_seq w in
        if offset < 1024 then
          let bit_pos = unat offset; wd = bit_pos div 64; b = bit_pos mod 64 in
          if bitmap w ! wd AND push_bit b 1 \<noteq> 0 then Inl (Replay seq) else Inr ()
        else Inr ())"

definition replay_shift :: "u64 list \<Rightarrow> nat \<Rightarrow> u64 list" where
  "replay_shift bm slide =
     (let word_shift = slide div 64; bit_shift = slide mod 64 in
      map (\<lambda>i. let src = i + word_shift in
             if src < 16 then
               let slot = drop_bit bit_shift (bm ! src) in
               if bit_shift > 0 \<and> src + 1 < 16
               then slot OR push_bit (64 - bit_shift) (bm ! (src + 1))
               else slot
             else 0) [0..<16])"

definition replay_slide :: "replay_window \<Rightarrow> u64 \<Rightarrow> replay_window" where
  "replay_slide w offset =
     (if offset \<ge> 1024 then
        let slide = offset - 1023;
            bm = (if slide \<ge> 1024 then replicate 16 0 else replay_shift (bitmap w) (unat slide))
        in w\<lparr>bitmap := bm, base_seq := base_seq w + slide\<rparr>
      else w)"

definition replay_commit :: "replay_window \<Rightarrow> u64 \<Rightarrow> (seam_error + unit) \<times> replay_window" where
  "replay_commit w seq =
     (if seq < base_seq w then (Inl (TooOld seq), w)
      else
        let w' = replay_slide w (seq - base_seq w);
            bit_pos = unat (seq - base_seq w'); wd = bit_pos div 64; b = bit_pos mod 64 in
        if bitmap w' ! wd AND push_bit b 1 \<noteq> 0 then (Inl (Replay seq), w')
        else (Inr (), w'\<lparr>bitmap := (bitmap w')[wd := bitmap w' ! wd OR push_bit b 1]\<rparr>))"

definition replay_check_and_insert ::
  "replay_window \<Rightarrow> u64 \<Rightarrow> (seam_error + unit) \<times> replay_window" where
  "replay_check_and_insert w seq =
     (case replay_check w seq of Inl e \<Rightarrow> (Inl e, w) | Inr _ \<Rightarrow> replay_commit w seq)"

section \<open>Specification: the set of accepted numbers\<close>

definition spec_base :: "u64 set \<Rightarrow> nat" where
  "spec_base H = (if H = {} then 0 else Max (unat ` H) - 1023)"

definition spec_verdict :: "u64 set \<Rightarrow> u64 \<Rightarrow> seam_error + unit" where
  "spec_verdict H s =
     (if unat s < spec_base H then Inl (TooOld s) else if s \<in> H then Inl (Replay s) else Inr ())"

fun spec_verdicts :: "u64 set \<Rightarrow> u64 list \<Rightarrow> (seam_error + unit) list" where
  "spec_verdicts H [] = []"
| "spec_verdicts H (s # ss) =
     spec_verdict H s # spec_verdicts (if spec_verdict H s = Inr () then insert s H else H) ss"

fun filter_verdicts ::
  "('w \<Rightarrow> u64 \<Rightarrow> (seam_error + unit) \<times> 'w) \<Rightarrow> 'w \<Rightarrow> u64 list \<Rightarrow> (seam_error + unit) list" where
  "filter_verdicts ins w [] = []"
| "filter_verdicts ins w (s # ss) = fst (ins w s) # filter_verdicts ins (snd (ins w s)) ss"

text \<open>The numbers a run of verdicts accepts.\<close>

definition accepted :: "u64 list \<Rightarrow> (seam_error + unit) list \<Rightarrow> u64 list" where
  "accepted ss vs = map fst (filter (\<lambda>p. snd p = Inr ()) (zip ss vs))"

lemma spec_verdict_Inr: "spec_verdict H s = Inr () \<longleftrightarrow> spec_base H \<le> unat s \<and> s \<notin> H"
  by (auto simp: spec_verdict_def)

lemma spec_accepts_newest: "\<forall>h \<in> H. h < s \<Longrightarrow> spec_verdict H s = Inr ()"
proof -
  assume new: "\<forall>h \<in> H. h < s"
  have "spec_base H \<le> unat s"
  proof (cases "H = {}")
    case False
    have "Max (unat ` H) \<in> unat ` H" by (rule Max_in) (use False in auto)
    then obtain h where "h \<in> H" and "Max (unat ` H) = unat h" by auto
    with new have "Max (unat ` H) < unat s" by (auto simp: word_less_nat_alt)
    then have "Max (unat ` H) - 1023 \<le> unat s" by (rule le_trans [OF diff_le_self less_imp_le])
    with False show ?thesis by (simp add: spec_base_def)
  qed (simp add: spec_base_def)
  with new show ?thesis by (auto simp: spec_verdict_Inr)
qed

lemma spec_accepted_fresh:
  "set (accepted ss (spec_verdicts H ss)) \<inter> H = {} \<and> distinct (accepted ss (spec_verdicts H ss))"
proof (induction ss arbitrary: H)
  case Nil
  then show ?case by (simp add: accepted_def)
next
  case (Cons s ss)
  then show ?case
    using Cons.IH [of "insert s H"] Cons.IH [of H] by (auto simp: accepted_def spec_verdict_Inr)
qed

section \<open>The interface its clients use\<close>

text \<open>
  A replay filter keeps an invariant relating its state to the accepted numbers, decides by the
  specification, and commits exactly the accepted ones.
\<close>

locale replay_filter =
  fixes inv :: "'w \<Rightarrow> u64 set \<Rightarrow> bool"
    and check :: "'w \<Rightarrow> u64 \<Rightarrow> seam_error + unit"
    and commit :: "'w \<Rightarrow> u64 \<Rightarrow> (seam_error + unit) \<times> 'w"
  assumes check_verdict: "inv w H \<Longrightarrow> check w s = spec_verdict H s"
    and commit_accept:
      "inv w H \<Longrightarrow> spec_verdict H s = Inr () \<Longrightarrow> \<exists>w'. commit w s = (Inr (), w') \<and> inv w' (insert s H)"
    and commit_reject: "inv w H \<Longrightarrow> spec_verdict H s = Inl e \<Longrightarrow> commit w s = (Inl e, w)"
begin

lemma check_then_commit:
  assumes "inv w H" and "check w s = Inr ()"
  obtains w' where "commit w s = (Inr (), w')" and "inv w' (insert s H)" and "s \<notin> H"
  using assms commit_accept [of w H s] by (auto simp: check_verdict spec_verdict_Inr)

lemma verdicts_refine:
  assumes "inv w H"
    and ins: "\<And>w s. ins w s = (case check w s of Inl e \<Rightarrow> (Inl e, w) | Inr _ \<Rightarrow> commit w s)"
  shows "filter_verdicts ins w ss = spec_verdicts H ss"
  using assms(1)
proof (induction ss arbitrary: w H)
  case Nil
  then show ?case by simp
next
  case (Cons s ss)
  show ?case
  proof (cases "spec_verdict H s")
    case (Inl e)
    with Cons show ?thesis by (simp add: ins check_verdict)
  next
    case (Inr u)
    then have ok: "spec_verdict H s = Inr ()" by simp
    from commit_accept [OF Cons.prems this] obtain w' where
      "commit w s = (Inr (), w')" and w': "inv w' (insert s H)" by blast
    with ok Cons.prems have "ins w s = (Inr (), w')" by (simp add: ins check_verdict)
    with ok Cons.IH [OF w'] show ?thesis by simp
  qed
qed

lemma accepted_once:
  assumes "inv w {}" and "\<And>w s. ins w s = (case check w s of Inl e \<Rightarrow> (Inl e, w) | Inr _ \<Rightarrow> commit w s)"
  shows "distinct (accepted ss (filter_verdicts ins w ss))"
  using verdicts_refine [OF assms] spec_accepted_fresh [of ss "{}"] by simp

end

section \<open>The window implements it\<close>

definition win_bit :: "u64 list \<Rightarrow> nat \<Rightarrow> bool" where
  "win_bit bm i \<longleftrightarrow> bit (bm ! (i div 64)) (i mod 64)"

definition replay_inv :: "replay_window \<Rightarrow> u64 set \<Rightarrow> bool" where
  "replay_inv w H \<longleftrightarrow>
     length (bitmap w) = 16 \<and> unat (base_seq w) = spec_base H \<and>
     (\<forall>i < 1024. win_bit (bitmap w) i \<longleftrightarrow> (\<exists>s \<in> H. unat s = spec_base H + i))"

lemma and_bit_test: "(x :: u64) AND 2 ^ b = 0 \<longleftrightarrow> \<not> bit x b"
  by (simp add: bit_iff_and_push_bit_not_eq_0 push_bit_of_1)

lemma length_replay_shift [simp]: "length (replay_shift bm s) = 16"
  by (simp add: replay_shift_def Let_def)

lemma win_bit_shift:
  assumes "i < 1024" and "0 < s"
  shows "win_bit (replay_shift bm s) i \<longleftrightarrow> i + s < 1024 \<and> win_bit bm (i + s)"
proof -
  define q j src bs where "q = i div 64" and "j = i mod 64" and "src = q + s div 64" and "bs = s mod 64"
  have small: "q < 16" "j < 64" "bs < 64" using assms by (auto simp: q_def j_def bs_def)
  have sum: "i + s = 64 * src + (j + bs)"
    by (simp add: src_def q_def j_def bs_def algebra_simps)
  have shifted: "win_bit (replay_shift bm s) i \<longleftrightarrow> src < 16 \<and>
      (bit (bm ! src) (bs + j) \<or> bs > 0 \<and> src + 1 < 16 \<and> 64 \<le> bs + j \<and> bit (bm ! (src + 1)) (bs + j - 64))"
    using small
    by (auto simp: win_bit_def replay_shift_def Let_def src_def q_def j_def bs_def bit_simps
        ac_simps dest: bit_imp_le_length)
  show ?thesis
  proof (cases "j + bs < 64")
    case True
    then have "(i + s) div 64 = src" and "(i + s) mod 64 = j + bs" using sum by simp_all
    moreover have "i + s < 1024 \<longleftrightarrow> src < 16" using sum True by auto
    ultimately show ?thesis using shifted True by (auto simp: win_bit_def add.commute)
  next
    case False
    have sum': "i + s = 64 * (src + 1) + (j + bs - 64)" using sum False by simp
    moreover have small': "j + bs - 64 < 64" using small by simp
    ultimately have "(i + s) div 64 = src + 1" and "(i + s) mod 64 = j + bs - 64"
      using div_mod_block by blast+
    moreover have "i + s < 1024 \<longleftrightarrow> src + 1 < 16" using sum' \<open>j + bs - 64 < 64\<close> by auto
    moreover have "\<not> bit (bm ! src) (bs + j)"
      using False bit_imp_le_length [of "bm ! src" "bs + j"] by auto
    moreover have "bs > 0" using False small by auto
    ultimately show ?thesis using shifted False by (auto simp: win_bit_def add.commute)
  qed
qed

lemma win_bit_set:
  assumes "length bm = 16" and "i < 1024" and "k < 1024"
  shows "win_bit (bm[k div 64 := bm ! (k div 64) OR push_bit (k mod 64) 1]) i \<longleftrightarrow> i = k \<or> win_bit bm i"
proof (cases "i div 64 = k div 64")
  case True
  then have "i mod 64 = k mod 64 \<longleftrightarrow> i = k" by (metis div_mod_decomp)
  with True assms show ?thesis by (auto simp: win_bit_def bit_simps nth_list_update)
next
  case False
  with assms show ?thesis by (auto simp: win_bit_def nth_list_update)
qed

lemma win_bit_zero [simp]: "i < 1024 \<Longrightarrow> \<not> win_bit (replicate 16 0) i"
  by (simp add: win_bit_def less_mult_imp_div_less)

lemma replay_inv_new: "replay_inv replay_new {}"
  by (auto simp: replay_inv_def replay_new_def spec_base_def)

lemma spec_base_insert: "spec_base (insert s H) = max (spec_base H) (unat s - 1023)"
  by (cases "H = {}") (auto simp: spec_base_def max_def)

lemma member_below_window:
  assumes "h \<in> H"
  shows "unat h \<le> spec_base H + 1023"
proof -
  have "unat h \<le> Max (unat ` H)" by (rule Max_ge) (use assms in auto)
  moreover have "H \<noteq> {}" using assms by auto
  ultimately show ?thesis by (simp add: spec_base_def)
qed

lemma replay_slide_bits:
  assumes inv: "replay_inv w H" and s: "spec_base H \<le> unat s"
  defines "w' \<equiv> replay_slide w (s - base_seq w)"
  shows "length (bitmap w') = 16" and "unat (base_seq w') = max (spec_base H) (unat s - 1023)"
    and "i < 1024 \<Longrightarrow> win_bit (bitmap w') i \<longleftrightarrow> (\<exists>h \<in> H. unat h = unat (base_seq w') + i)"
proof -
  have base: "unat (base_seq w) = spec_base H" and len: "length (bitmap w) = 16"
    and bits: "\<And>i. i < 1024 \<Longrightarrow> win_bit (bitmap w) i \<longleftrightarrow> (\<exists>h \<in> H. unat h = spec_base H + i)"
    using inv by (auto simp: replay_inv_def)
  define off where "off = s - base_seq w"
  have off: "unat off = unat s - spec_base H"
    using s base by (simp add: off_def unat_sub word_le_nat_alt)
  have below: "unat h \<le> spec_base H + 1023" if "h \<in> H" for h
    using member_below_window that by blast
  show "length (bitmap w') = 16"
    using len by (simp add: w'_def replay_slide_def Let_def)
  have sl: "unat (off - 1023) = unat off - 1023" if "off \<ge> 1024"
    using that by (simp add: unat_sub word_le_nat_alt)
  have newbase: "unat (base_seq w + (off - 1023)) = unat s - 1023" if "off \<ge> 1024"
  proof -
    have eq: "base_seq w + (off - 1023) = s - 1023" by (simp add: off_def)
    have "1023 \<le> s"
      using that off by (simp add: word_le_nat_alt)
    then show ?thesis unfolding eq by (simp add: unat_sub)
  qed
  have big: "off \<ge> 1024 \<longleftrightarrow> 1024 \<le> unat s - spec_base H"
    using off by (simp add: word_le_nat_alt)
  have base': "unat (base_seq w') = max (spec_base H) (unat s - 1023)"
  proof (cases "off \<ge> 1024")
    case True
    then show ?thesis using newbase [OF True] big
      by (simp add: w'_def replay_slide_def Let_def off_def)
  next
    case False
    then have "\<not> 1024 \<le> unat s - spec_base H" using big by simp
    with False show ?thesis using base by (auto simp: w'_def replay_slide_def off_def max_def)
  qed
  then show "unat (base_seq w') = max (spec_base H) (unat s - 1023)" .
  show "win_bit (bitmap w') i \<longleftrightarrow> (\<exists>h \<in> H. unat h = unat (base_seq w') + i)" if "i < 1024"
  proof (cases "off \<ge> 1024")
    case False
    then show ?thesis using bits [OF that] base base' by (simp add: w'_def replay_slide_def off_def)
  next
    case slid: True
    define sl where "sl = unat off - 1023"
    have b': "unat (base_seq w') = spec_base H + sl"
      using base' slid off big by (simp add: sl_def max_def)
    show ?thesis
    proof (cases "off - 1023 \<ge> 1024")
      case True
      then have "sl \<ge> 1024" using \<open>off \<ge> 1024 \<Longrightarrow> unat (off - 1023) = unat off - 1023\<close> slid
        by (simp add: sl_def word_le_nat_alt)
      then have "\<not> (\<exists>h \<in> H. unat h = unat (base_seq w') + i)" using below b' by fastforce
      moreover have "bitmap w' = replicate 16 0"
        using slid True by (simp add: w'_def replay_slide_def Let_def off_def)
      ultimately show ?thesis using that by simp
    next
      case False
      have "bitmap w' = replay_shift (bitmap w) sl"
        using slid False \<open>off \<ge> 1024 \<Longrightarrow> unat (off - 1023) = unat off - 1023\<close>
        by (simp add: w'_def replay_slide_def Let_def off_def [symmetric] sl_def)
      moreover have "0 < sl" using slid by (simp add: sl_def word_le_nat_alt)
      ultimately have "win_bit (bitmap w') i \<longleftrightarrow> i + sl < 1024 \<and> win_bit (bitmap w) (i + sl)"
        using that by (simp add: win_bit_shift)
      also have "\<dots> \<longleftrightarrow> (\<exists>h \<in> H. unat h = spec_base H + (i + sl))"
        using bits [of "i + sl"] below by fastforce
      finally show ?thesis using b' by (simp add: ac_simps)
    qed
  qed
qed

lemma replay_check_spec:
  assumes inv: "replay_inv w H"
  shows "replay_check w s = spec_verdict H s"
proof (cases "s < base_seq w")
  case True
  then show ?thesis using inv by (simp add: replay_check_def spec_verdict_def replay_inv_def word_less_nat_alt)
next
  case False
  have base: "unat (base_seq w) = spec_base H" using inv by (simp add: replay_inv_def)
  have ge: "spec_base H \<le> unat s" using False base by (simp add: word_less_nat_alt)
  have off: "unat (s - base_seq w) = unat s - spec_base H"
    using False base by (simp add: unat_sub)
  have mem: "s \<in> H \<longleftrightarrow> unat s - spec_base H < 1024 \<and> win_bit (bitmap w) (unat s - spec_base H)"
  proof
    assume "s \<in> H"
    with member_below_window [OF this] ge inv show "unat s - spec_base H < 1024 \<and> win_bit (bitmap w) (unat s - spec_base H)"
      by (auto simp: replay_inv_def)
  next
    assume "unat s - spec_base H < 1024 \<and> win_bit (bitmap w) (unat s - spec_base H)"
    then obtain h where "h \<in> H" and "unat h = unat s" using inv ge by (auto simp: replay_inv_def)
    then show "s \<in> H" by (metis word_unat_eq_iff)
  qed
  have "s - base_seq w < 1024 \<longleftrightarrow> unat s - spec_base H < 1024"
    using off by (simp add: word_less_nat_alt)
  then show ?thesis
    using False mem off ge
    by (auto simp: replay_check_def spec_verdict_def Let_def and_bit_test win_bit_def)
qed

lemma replay_commit_spec:
  assumes inv: "replay_inv w H"
  shows "spec_verdict H s = Inr () \<Longrightarrow>
           \<exists>w'. replay_commit w s = (Inr (), w') \<and> replay_inv w' (insert s H)"
    and "spec_verdict H s = Inl e \<Longrightarrow> replay_commit w s = (Inl e, w)"
proof -
  have base: "unat (base_seq w) = spec_base H" and len: "length (bitmap w) = 16"
    using inv by (auto simp: replay_inv_def)
  define w' where "w' = replay_slide w (s - base_seq w)"
  define k where "k = unat (s - base_seq w')"
  have ge_base: "\<not> s < base_seq w" if "spec_base H \<le> unat s"
    using that base by (simp add: word_less_nat_alt)
  have commit: "replay_commit w s =
      (if win_bit (bitmap w') k then (Inl (Replay s), w')
       else (Inr (), w'\<lparr>bitmap := (bitmap w')[k div 64 := bitmap w' ! (k div 64) OR push_bit (k mod 64) 1]\<rparr>))"
    if "spec_base H \<le> unat s"
    using ge_base [OF that] by (simp add: replay_commit_def Let_def and_bit_test win_bit_def w'_def k_def)
  have k: "k = unat s - unat (base_seq w')" "k < 1024" "unat (base_seq w') \<le> unat s"
    if ge: "spec_base H \<le> unat s"
  proof -
    have "unat (base_seq w') = max (spec_base H) (unat s - 1023)"
      using replay_slide_bits(2) [OF inv ge] by (simp add: w'_def)
    then show "unat (base_seq w') \<le> unat s" and "k < 1024" and "k = unat s - unat (base_seq w')"
      using ge by (auto simp: k_def unat_sub word_le_nat_alt)
  qed
  have hit: "win_bit (bitmap w') k \<longleftrightarrow> s \<in> H" if ge: "spec_base H \<le> unat s"
    using replay_slide_bits(3) [OF inv ge, of k] k [OF ge]
    by (auto simp: w'_def word_unat_eq_iff [symmetric])
  show "\<exists>w''. replay_commit w s = (Inr (), w'') \<and> replay_inv w'' (insert s H)"
    if ok: "spec_verdict H s = Inr ()"
  proof -
    have ge: "spec_base H \<le> unat s" and new: "s \<notin> H" using ok by (auto simp: spec_verdict_Inr)
    define bm where "bm = (bitmap w')[k div 64 := bitmap w' ! (k div 64) OR push_bit (k mod 64) 1]"
    have "length (bitmap w') = 16" using replay_slide_bits(1) [OF inv ge] by (simp add: w'_def)
    then have bits: "win_bit bm i \<longleftrightarrow> i = k \<or> win_bit (bitmap w') i" if "i < 1024" for i
      using win_bit_set that k(2) [OF ge] by (simp add: bm_def)
    have b': "unat (base_seq w') = spec_base (insert s H)"
      using replay_slide_bits(2) [OF inv ge] by (simp add: w'_def spec_base_insert)
    have "win_bit bm i \<longleftrightarrow> (\<exists>h \<in> insert s H. unat h = spec_base (insert s H) + i)" if "i < 1024" for i
      using bits [OF that] replay_slide_bits(3) [OF inv ge that] k [OF ge] b'
      by (auto simp: w'_def)
    then have "replay_inv (w'\<lparr>bitmap := bm\<rparr>) (insert s H)"
      using \<open>length (bitmap w') = 16\<close> b' by (simp add: replay_inv_def bm_def)
    with commit [OF ge] hit [OF ge] new show ?thesis by (simp add: bm_def)
  qed
  show "replay_commit w s = (Inl e, w)" if bad: "spec_verdict H s = Inl e"
  proof (cases "unat s < spec_base H")
    case True
    then show ?thesis using bad base by (simp add: replay_commit_def spec_verdict_def word_less_nat_alt)
  next
    case False
    then have ge: "spec_base H \<le> unat s" and "s \<in> H" and e: "e = Replay s"
      using bad by (auto simp: spec_verdict_def split: if_splits)
    have "unat (s - base_seq w) = unat s - spec_base H" using ge_base [OF ge] base by (simp add: unat_sub)
    then have "\<not> s - base_seq w \<ge> 1024"
      using member_below_window [OF \<open>s \<in> H\<close>] ge by (simp add: word_le_nat_alt)
    then have "w' = w" by (simp add: w'_def replay_slide_def)
    with commit [OF ge] hit [OF ge] \<open>s \<in> H\<close> e show ?thesis by simp
  qed
qed

interpretation window: replay_filter replay_inv replay_check replay_commit
  by unfold_locales (auto simp: replay_check_spec replay_commit_spec)

lemma replay_inv_check_and_insert:
  assumes "replay_inv w H"
  shows "fst (replay_check_and_insert w s) = spec_verdict H s"
    and "replay_inv (snd (replay_check_and_insert w s)) (if spec_verdict H s = Inr () then insert s H else H)"
proof -
  have "fst (replay_check_and_insert w s) = spec_verdict H s \<and>
      replay_inv (snd (replay_check_and_insert w s)) (if spec_verdict H s = Inr () then insert s H else H)"
    using replay_commit_spec(1) [OF assms, of s] replay_check_spec [OF assms, of s] assms
    by (cases "spec_verdict H s") (auto simp: replay_check_and_insert_def)
  then show "fst (replay_check_and_insert w s) = spec_verdict H s"
    and "replay_inv (snd (replay_check_and_insert w s)) (if spec_verdict H s = Inr () then insert s H else H)"
    by simp_all
qed

section \<open>What the window guarantees\<close>

text \<open>C14: For every sequence of packet numbers, the verdicts of \<^verbatim>\<open>check_and_insert\<close> on a fresh window
  (accept, \<open>Replay\<close> or \<open>TooOld\<close>) are exactly those of the specification that remembers the whole
  set of accepted numbers: sixteen words of bitmap lose nothing.\<close>

theorem replay_window_refines_spec:
  "filter_verdicts replay_check_and_insert replay_new ss = spec_verdicts {} ss"
  by (rule window.verdicts_refine [OF replay_inv_new]) (simp add: replay_check_and_insert_def)

text \<open>No packet number is accepted twice, whatever numbers arrive in whatever order.\<close>

theorem replay_window_accepts_once:
  "distinct (accepted ss (filter_verdicts replay_check_and_insert replay_new ss))"
  by (rule window.accepted_once [OF replay_inv_new]) (simp add: replay_check_and_insert_def)

text \<open>A number within the 1024 below the newest accepted one is still accepted when it has not
  been seen, so reordering inside the window loses no packet.\<close>

theorem replay_window_tolerates_reordering:
  assumes "replay_inv w H" and "s \<notin> H" and "\<forall>h \<in> H. unat h \<le> unat s + 1023"
  shows "fst (replay_check_and_insert w s) = Inr ()"
proof -
  have "spec_base H \<le> unat s"
  proof (cases "H = {}")
    case False
    then have "Max (unat ` H) \<le> unat s + 1023" using assms(3) by (intro Max.boundedI) auto
    then show ?thesis by (simp add: spec_base_def le_diff_conv)
  qed (simp add: spec_base_def)
  then have ok: "spec_verdict H s = Inr ()" using assms(2) by (simp add: spec_verdict_Inr)
  with replay_inv_check_and_insert(1) [OF assms(1)] show ?thesis by simp
qed

theorem replay_window_tolerates_reordering_witness:
  "fst (replay_check_and_insert (snd (replay_check_and_insert replay_new 1000)) 5) = Inr ()"
proof -
  have "replay_inv (snd (replay_check_and_insert replay_new 1000)) {1000}"
    using replay_inv_check_and_insert [OF replay_inv_new, of 1000]
    by (simp add: spec_verdict_def spec_base_def)
  then show ?thesis using replay_window_tolerates_reordering [of _ "{1000}" 5] by simp
qed

end
