(* ===== verification/Packet_Codec.thy ===== *)
theory Packet_Codec
  imports Packet Crypto_Prims Replay_Window
begin

text \<open>
  \<^verbatim>\<open>src/crypto/header.rs\<close>, \<^verbatim>\<open>src/crypto/encoder.rs\<close> and \<^verbatim>\<open>src/crypto/decoder.rs\<close>: the packet codec.
  \<open>encode\<close> and \<open>decode\<close> return the result, the buffer they leave behind and their new state, also
  on every error path. The last section runs an encoder against a decoder over a network that
  drops, duplicates and reorders packets.
\<close>

section \<open>Header protection\<close>

definition apply_header_protection :: "prims \<Rightarrow> bytes \<Rightarrow> bytes \<Rightarrow> bytes \<Rightarrow> bytes" where
  "apply_header_protection P hpk header ciphertext =
     (let nonce = slice ciphertext 0 12;
          counter = (of_le (slice ciphertext 12 16) :: u32);
          mask = chacha20_keystream P hpk nonce (unat counter * 64) 32
      in xor_bytes header mask)"

lemma length_header_protection [simp]: "length (apply_header_protection P k h s) = length h"
  by (simp add: apply_header_protection_def Let_def)

lemma header_protection_involution [simp]:
  "apply_header_protection P k (apply_header_protection P k h s) s = h"
  by (simp add: apply_header_protection_def Let_def)

section \<open>Encoder\<close>

record packet_encoder =
  encoder_keys :: packet_keys
  session_id :: u64
  next_pkt_num :: u64

definition encoder_new :: "packet_keys \<Rightarrow> u64 \<Rightarrow> packet_encoder" where
  "encoder_new keys sid = \<lparr>encoder_keys = keys, session_id = sid, next_pkt_num = 0\<rparr>"

definition peek_next_pkt_num :: "packet_encoder \<Rightarrow> u64" where
  "peek_next_pkt_num e = next_pkt_num e"

definition packet_nonce :: "packet_keys \<Rightarrow> u64 \<Rightarrow> bytes" where
  "packet_nonce keys pkt_num = xor_bytes (nonce_base keys) (u64_to_le pkt_num)"

definition packet_header :: "u64 \<Rightarrow> pkt_type \<Rightarrow> u64 \<Rightarrow> bytes" where
  "packet_header sid t pkt_num =
     (let header = (replicate HEADER_LEN 0)[0 := 1, 1 := pkt_type_as_u8 t]
      in overwrite (overwrite header 8 (u64_to_le sid)) 16 (u64_to_le pkt_num))"

definition encode ::
  "prims \<Rightarrow> packet_encoder \<Rightarrow> pkt_type \<Rightarrow> bytes \<Rightarrow> bytes \<Rightarrow> (seam_error + nat) \<times> bytes \<times> packet_encoder" where
  "encode P e t plaintext out =
     (let needed = encode_buf_len (length plaintext) in
      if length out < needed then (Inl (BufferTooSmall needed (length out)), out, e)
      else
        let pkt_num = next_pkt_num e;
            e' = e\<lparr>next_pkt_num := pkt_num + 1\<rparr>;
            keys = encoder_keys e;
            header = packet_header (session_id e) t pkt_num;
            out1 = overwrite (overwrite out 0 header) HEADER_LEN plaintext;
            nonce = packet_nonce keys pkt_num;
            cipher = make_cipher (keys_cipher_suite keys) (enc_key keys);
            header_bytes = slice out1 0 HEADER_LEN;
            payload_buf = slice out1 HEADER_LEN (HEADER_LEN + length plaintext)
        in case encrypt_in_place P cipher nonce header_bytes payload_buf of
             Inl err \<Rightarrow> (Inl err, out1, e')
           | Inr sealed \<Rightarrow>
               let cipher_len = length plaintext;
                   out2 = overwrite out1 HEADER_LEN (take cipher_len sealed);
                   out3 = overwrite out2 (HEADER_LEN + cipher_len) (drop cipher_len sealed);
                   sample = slice out3 HEADER_LEN (HEADER_LEN + 16);
                   hdr = apply_header_protection P (hp_key keys) (slice out3 0 HEADER_LEN) sample
               in (Inr needed, overwrite out3 0 hdr, e'))"

section \<open>Decoder\<close>

record packet_decoder =
  decoder_keys :: packet_keys
  replay :: replay_window

definition decoder_new :: "packet_keys \<Rightarrow> packet_decoder" where
  "decoder_new keys = \<lparr>decoder_keys = keys, replay = replay_new\<rparr>"

definition decode ::
  "prims \<Rightarrow> packet_decoder \<Rightarrow> bytes \<Rightarrow>
     (seam_error + pkt_type \<times> u64 \<times> bytes) \<times> bytes \<times> packet_decoder" where
  "decode P d buf =
     (if length buf > MAX_PACKET_LEN then (Inl (PacketTooLarge (length buf) MAX_PACKET_LEN), buf, d)
      else if length buf < MIN_PACKET_LEN then (Inl (BufferTooSmall MIN_PACKET_LEN (length buf)), buf, d)
      else
        let keys = decoder_keys d;
            sample = slice buf HEADER_LEN (HEADER_LEN + 16);
            header = apply_header_protection P (hp_key keys) (slice buf 0 HEADER_LEN) sample;
            buf1 = overwrite buf 0 header
        in case pkt_type_try_from (buf1 ! 1) of
             Inl err \<Rightarrow> (Inl err, buf1, d)
           | Inr t \<Rightarrow>
               let pkt_num = of_le (slice buf1 16 24) in
               case replay_check (replay d) pkt_num of
                 Inl err \<Rightarrow> (Inl err, buf1, d)
               | Inr _ \<Rightarrow>
                   let nonce = packet_nonce keys pkt_num;
                       payload_end = length buf1 - TAG_LEN;
                       header_bytes = slice buf1 0 HEADER_LEN;
                       ct_buf = drop HEADER_LEN buf1;
                       cipher = make_cipher (keys_cipher_suite keys) (enc_key keys)
                   in case decrypt_in_place P cipher nonce header_bytes ct_buf of
                        Inl err \<Rightarrow> (Inl err, buf1, d)
                      | Inr opened \<Rightarrow>
                          (case replay_commit (replay d) pkt_num of
                             (Inl err, r) \<Rightarrow> (Inl err, buf1, d\<lparr>replay := r\<rparr>)
                           | (Inr _, r) \<Rightarrow>
                               let plaintext_len = payload_end - HEADER_LEN;
                                   buf2 = overwrite buf1 HEADER_LEN (take plaintext_len opened)
                               in (Inr (t, pkt_num, slice buf2 HEADER_LEN payload_end), buf2,
                                   d\<lparr>replay := r\<rparr>)))"

section \<open>The packet on the wire\<close>

lemma length_packet_header [simp]: "length (packet_header sid t n) = 32"
  by (simp add: packet_header_def Let_def packet_sizes)

lemma packet_header_eq:
  "packet_header sid t n = [1, pkt_type_as_u8 t] @ replicate 6 0 @ u64_to_le sid @ u64_to_le n @ replicate 8 0"
proof -
  have a: "(replicate HEADER_LEN (0 :: u8))[0 := 1, 1 := pkt_type_as_u8 t] = [1, pkt_type_as_u8 t] @ replicate 6 0 @ replicate 24 0"
    by (simp add: packet_sizes flip: replicate_add) (simp add: numeral_eq_Suc)
  have b: "overwrite (h @ z @ r) 8 x = h @ z @ x @ drop 8 r"
    if "length h = 2" "length z = 6" "length x = 8" for h z x r :: bytes
    using that by (simp add: overwrite_def)
  have c: "overwrite (h @ z @ x @ r) 16 y = h @ z @ x @ y @ drop 8 r"
    if "length h = 2" "length z = 6" "length x = 8" "length y = 8" for h z x y r :: bytes
    using that by (simp add: overwrite_def)
  have "overwrite (overwrite ([1, pkt_type_as_u8 t] @ replicate 6 0 @ replicate 24 0) 8 (u64_to_le sid)) 16 (u64_to_le n)
      = [1, pkt_type_as_u8 t] @ replicate 6 0 @ u64_to_le sid @ u64_to_le n @ drop 8 (drop 8 (replicate 24 0))"
    by (subst b, simp, simp, simp, subst c, simp_all)
  then show ?thesis unfolding packet_header_def Let_def a by simp
qed

lemma packet_header_fields:
  "packet_header sid t n ! Suc 0 = pkt_type_as_u8 t"
  "of_le (slice (packet_header sid t n) 16 24) = n"
  by (simp_all add: packet_header_eq slice_def codec_simps)

lemma length_packet_nonce [simp]: "length (packet_nonce k n) = length (nonce_base k)"
  by (simp add: packet_nonce_def)

lemma packet_nonce_inj:
  assumes "keys_ok k" and "packet_nonce k m = packet_nonce k n"
  shows "m = n"
proof -
  have "u64_to_le m = u64_to_le n"
    using assms(1) by (intro xor_bytes_cancel_left [OF assms(2) [unfolded packet_nonce_def]]) (simp_all add: keys_ok_def)
  then show ?thesis by (rule le_bytes_inj) simp
qed

definition seal_packet :: "prims \<Rightarrow> packet_keys \<Rightarrow> u64 \<Rightarrow> pkt_type \<Rightarrow> u64 \<Rightarrow> bytes \<Rightarrow> seam_error + bytes" where
  "seal_packet P k sid t n p =
     (case encrypt_in_place P (make_cipher (keys_cipher_suite k) (enc_key k)) (packet_nonce k n)
             (packet_header sid t n) p of
        Inl e \<Rightarrow> Inl e
      | Inr c \<Rightarrow> Inr (apply_header_protection P (hp_key k) (packet_header sid t n) (take 16 c) @ c))"

text \<open>The specification of \<open>encode\<close> is \<open>seal_packet\<close>: protected header, ciphertext and tag as one byte
  string, with no buffer in sight. Bytes of the caller's buffer beyond the packet stay.\<close>

lemma seal_packet_lawful:
  assumes "aead_lawful P" and "keys_ok k" and "length p < 2 ^ 32"
  obtains c where
    "encrypt_in_place P (make_cipher (keys_cipher_suite k) (enc_key k)) (packet_nonce k n)
       (packet_header sid t n) p = Inr c"
    "length c = length p + 16"
    "decrypt_in_place P (make_cipher (keys_cipher_suite k) (enc_key k)) (packet_nonce k n)
       (packet_header sid t n) c = Inr p"
    "seal_packet P k sid t n p =
       Inr (apply_header_protection P (hp_key k) (packet_header sid t n) (take 16 c) @ c)"
proof -
  have "length (enc_key k) = 32" "length (packet_nonce k n) = 12"
    using assms(2) by (simp_all add: keys_ok_def)
  then show ?thesis
    by (rule seal_then_open [OF assms(1) _ _ assms(3)]) (rule that, assumption+, simp add: seal_packet_def)
qed

lemma encode_out1:
  assumes "encode_buf_len (length p) \<le> length out" and "length h = 32"
  shows "overwrite (overwrite out 0 h) 32 p = h @ p @ drop (32 + length p) out"
  using assms by (simp add: overwrite_def encode_buf_len_def packet_sizes add.commute)

lemma encode_out_sealed:
  assumes "32 + length p + 16 \<le> length out" and "length h = 32" and "length c = length p + 16"
  defines "out2 \<equiv> overwrite (h @ p @ drop (32 + length p) out) 32 (take (length p) c)"
  shows "overwrite out2 (32 + length p) (drop (length p) c) = h @ c @ drop (48 + length p) out"
proof -
  have "out2 = h @ take (length p) c @ drop (32 + length p) out"
    using assms by (simp add: out2_def overwrite_def)
  then show ?thesis using assms by (simp add: overwrite_def)
qed

lemma encode_sealed:
  assumes room: "encode_buf_len (length p) \<le> length out"
    and sealed: "encrypt_in_place P (make_cipher (keys_cipher_suite (encoder_keys e)) (enc_key (encoder_keys e)))
       (packet_nonce (encoder_keys e) (next_pkt_num e)) (packet_header (session_id e) t (next_pkt_num e)) p = Inr c"
    and len: "length c = length p + 16"
  shows "encode P e t p out =
     (Inr (encode_buf_len (length p)),
      apply_header_protection P (hp_key (encoder_keys e))
        (packet_header (session_id e) t (next_pkt_num e)) (take 16 c) @ c @
        drop (encode_buf_len (length p)) out,
      e\<lparr>next_pkt_num := next_pkt_num e + 1\<rparr>)"
proof -
  define h where "h = packet_header (session_id e) t (next_pkt_num e)"
  have h: "length h = 32" by (simp add: h_def)
  have room': "32 + length p + 16 \<le> length out" using room by (simp add: encode_buf_len_def packet_sizes)
  have slices: "slice (h @ p @ drop (32 + length p) out) 0 32 = h"
    "slice (h @ p @ drop (32 + length p) out) 32 (32 + length p) = p"
    "slice (h @ c @ drop (48 + length p) out) 32 48 = take 16 c"
    "slice (h @ c @ drop (48 + length p) out) 0 32 = h"
    using h len by (simp_all add: slice_def)
  show ?thesis
    using room room' sealed slices h len encode_out_sealed [OF room' h len]
    by (simp add: encode_def Let_def packet_sizes encode_out1 [OF room h] flip: h_def)
       (simp add: overwrite_def encode_buf_len_def packet_sizes add.commute)
qed

lemma decode_sealed:
  assumes len: "length c = length p + 16" "length p + 48 \<le> 65535"
    and opened: "decrypt_in_place P (make_cipher (keys_cipher_suite (decoder_keys d)) (enc_key (decoder_keys d)))
       (packet_nonce (decoder_keys d) n) (packet_header sid t n) c = Inr p"
  defines "pkt \<equiv> apply_header_protection P (hp_key (decoder_keys d)) (packet_header sid t n) (take 16 c) @ c"
  shows "replay_check (replay d) n = Inl e \<Longrightarrow> fst (decode P d pkt) = Inl e \<and> snd (snd (decode P d pkt)) = d"
    and "replay_check (replay d) n = Inr () \<Longrightarrow> replay_commit (replay d) n = (Inr (), r) \<Longrightarrow>
      fst (decode P d pkt) = Inr (t, n, p) \<and> snd (snd (decode P d pkt)) = d\<lparr>replay := r\<rparr>"
proof -
  define h where "h = packet_header sid t n"
  have h: "length h = 32" by (simp add: h_def)
  have pkt: "pkt = apply_header_protection P (hp_key (decoder_keys d)) h (take 16 c) @ c"
    by (simp add: pkt_def h_def)
  have lp: "length pkt = length p + 48" using h len by (simp add: pkt)
  have slices: "slice pkt 32 48 = take 16 c"
    "slice pkt 0 32 = apply_header_protection P (hp_key (decoder_keys d)) h (take 16 c)"
    using h by (simp_all add: pkt slice_def)
  have buf1: "overwrite pkt 0 h = h @ c" using h by (simp add: pkt overwrite_def)
  have fields: "(h @ c) ! Suc 0 = pkt_type_as_u8 t" "of_le (slice (h @ c) 16 24) = n" "slice (h @ c) 0 32 = h"
    "drop 32 (h @ c) = c"
    using h by (simp_all add: nth_append slice_append_l slice_full h_def packet_header_fields)
  show "fst (decode P d pkt) = Inl e \<and> snd (snd (decode P d pkt)) = d"
    if "replay_check (replay d) n = Inl e"
    using that lp len(2) by (simp add: decode_def Let_def packet_sizes slices buf1 fields)
  show "fst (decode P d pkt) = Inr (t, n, p) \<and> snd (snd (decode P d pkt)) = d\<lparr>replay := r\<rparr>"
    if ok: "replay_check (replay d) n = Inr ()" and r: "replay_commit (replay d) n = (Inr (), r)"
    using ok r lp len h opened
    by (simp add: decode_def Let_def packet_sizes slices buf1 fields flip: h_def)
       (simp add: overwrite_def slice_def)
qed

section \<open>Runs\<close>

text \<open>A sender encodes each message into a fresh buffer of the needed size; a receiver decodes the
  datagrams in the order they arrive.\<close>

fun encode_all :: "prims \<Rightarrow> packet_encoder \<Rightarrow> (pkt_type \<times> bytes) list \<Rightarrow> bytes list" where
  "encode_all P e [] = []"
| "encode_all P e ((t, p) # ms) =
     (case encode P e t p (replicate (encode_buf_len (length p)) 0) of
        (_, out, e') \<Rightarrow> out # encode_all P e' ms)"

fun decode_all :: "prims \<Rightarrow> packet_decoder \<Rightarrow> bytes list \<Rightarrow> (seam_error + pkt_type \<times> u64 \<times> bytes) list" where
  "decode_all P d [] = []"
| "decode_all P d (b # bs) =
     (case decode P d b of (r, _, d') \<Rightarrow> r # decode_all P d' bs)"

definition delivered :: "(seam_error + pkt_type \<times> u64 \<times> bytes) list \<Rightarrow> (pkt_type \<times> u64 \<times> bytes) list" where
  "delivered rs = concat (map (\<lambda>r. case r of Inl _ \<Rightarrow> [] | Inr x \<Rightarrow> [x]) rs)"

lemma delivered_simps [simp]:
  "delivered [] = []" "delivered (Inl e # rs) = delivered rs" "delivered (Inr x # rs) = x # delivered rs"
  by (simp_all add: delivered_def)

lemma length_encode_all [simp]: "length (encode_all P e ms) = length ms"
  by (induction P e ms rule: encode_all.induct) (auto split: prod.split)

lemma encode_all_nth:
  assumes "aead_lawful P" and "keys_ok (encoder_keys e)" and "\<forall>m \<in> set ms. length (snd m) < 2 ^ 32"
    and "i < length ms"
  shows "seal_packet P (encoder_keys e) (session_id e) (fst (ms ! i)) (next_pkt_num e + of_nat i) (snd (ms ! i))
       = Inr (encode_all P e ms ! i)"
  using assms
proof (induction ms arbitrary: e i)
  case (Cons m ms)
  obtain t p where m: "m = (t, p)" by force
  have p: "length p < 2 ^ 32" using Cons.prems m by simp
  obtain c where c: "encrypt_in_place P (make_cipher (keys_cipher_suite (encoder_keys e)) (enc_key (encoder_keys e)))
        (packet_nonce (encoder_keys e) (next_pkt_num e)) (packet_header (session_id e) t (next_pkt_num e)) p = Inr c"
      "length c = length p + 16"
      "seal_packet P (encoder_keys e) (session_id e) t (next_pkt_num e) p =
       Inr (apply_header_protection P (hp_key (encoder_keys e)) (packet_header (session_id e) t (next_pkt_num e)) (take 16 c) @ c)"
    by (rule seal_packet_lawful [OF Cons.prems(1,2) p])
  have enc: "encode P e t p (replicate (encode_buf_len (length p)) 0) =
     (Inr (encode_buf_len (length p)), apply_header_protection P (hp_key (encoder_keys e))
        (packet_header (session_id e) t (next_pkt_num e)) (take 16 c) @ c, e\<lparr>next_pkt_num := next_pkt_num e + 1\<rparr>)"
    using encode_sealed [OF _ c(1,2), of "replicate (encode_buf_len (length p)) 0"] by simp
  show ?case
  proof (cases i)
    case 0
    then show ?thesis using enc c(3) m by simp
  next
    case (Suc j)
    then show ?thesis
      using Cons.IH [of "e\<lparr>next_pkt_num := next_pkt_num e + 1\<rparr>" j] Cons.prems enc m by (simp add: ac_simps)
  qed
qed simp

lemma decode_keys [simp]: "decoder_keys (snd (snd (decode P d b))) = decoder_keys d"
  by (auto simp: decode_def Let_def split: sum.split prod.split)

lemma decode_error_keeps_state:
  assumes inv: "replay_inv (replay d) H" and err: "fst (decode P d b) = Inl e"
  shows "snd (snd (decode P d b)) = d"
  using err replay_commit_spec(1) [OF inv] replay_check_spec [OF inv]
  by (auto simp: decode_def Let_def split: if_splits sum.splits prod.splits) (metis Pair_inject sum.distinct(1))

lemma decode_accept:
  assumes inv: "replay_inv (replay d) H" and ok: "fst (decode P d b) = Inr (t, n, p)"
  shows "n \<notin> H" and "replay_inv (replay (snd (snd (decode P d b)))) (insert n H)"
proof -
  have chk: "replay_check (replay d) n = Inr ()" and com: "replay_commit (replay d) n = (Inr (), replay (snd (snd (decode P d b))))"
    using ok by (auto simp: decode_def Let_def split: if_splits sum.splits prod.splits)
  obtain w' where "replay_commit (replay d) n = (Inr (), w')" "replay_inv w' (insert n H)" "n \<notin> H"
    using window.check_then_commit [OF inv chk] .
  with com show "n \<notin> H" and "replay_inv (replay (snd (snd (decode P d b)))) (insert n H)" by simp_all
qed

lemma decode_all_fresh:
  assumes "replay_inv (replay d) H"
  shows "distinct (map (fst \<circ> snd) (delivered (decode_all P d bs))) \<and>
    (fst \<circ> snd) ` set (delivered (decode_all P d bs)) \<inter> H = {}"
  using assms
proof (induction bs arbitrary: d H)
  case (Cons b bs)
  obtain r b' d' where dec: "decode P d b = (r, b', d')" by (cases "decode P d b")
  show ?case
  proof (cases r)
    case (Inl e)
    then have "d' = d" using decode_error_keeps_state [OF Cons.prems, of P b e] dec by simp
    with Inl dec Cons show ?thesis by simp
  next
    case (Inr x)
    obtain t n p where x: "x = (t, n, p)" by (cases x)
    then have "n \<notin> H" and inv: "replay_inv (replay d') (insert n H)"
      using decode_accept [OF Cons.prems, of P b t n p] Inr dec by simp_all
    with Cons.IH [OF inv] Inr x dec show ?thesis by auto
  qed
qed simp

lemma decode_all_sealed:
  assumes "aead_lawful P" and "keys_ok k" and "replay_inv (replay d) H" and "decoder_keys d = k"
    and "\<And>i. i \<in> set is \<Longrightarrow> length (snd (m i)) + 48 \<le> 65535"
    and "\<And>i. i \<in> set is \<Longrightarrow> seal_packet P k sid (fst (m i)) (of_nat i) (snd (m i)) = Inr (pkt i)"
  shows "decode_all P d (map pkt is) =
    map2 (\<lambda>i v. case v of Inl e \<Rightarrow> Inl e | Inr _ \<Rightarrow> Inr (fst (m i), of_nat i, snd (m i)))
      is (spec_verdicts H (map of_nat is))"
  using assms(3-)
proof (induction "is" arbitrary: d H)
  case (Cons i "is")
  define n :: u64 where "n = of_nat i"
  obtain t p where m: "m i = (t, p)" by force
  have p: "length p + 48 \<le> 65535" "length p < 2 ^ 32" using Cons.prems(3) [of i] m by simp_all
  obtain c where c: "length c = length p + 16"
      "decrypt_in_place P (make_cipher (keys_cipher_suite k) (enc_key k)) (packet_nonce k n) (packet_header sid t n) c = Inr p"
      "seal_packet P k sid t n p = Inr (apply_header_protection P (hp_key k) (packet_header sid t n) (take 16 c) @ c)"
    by (rule seal_packet_lawful [OF assms(1,2) p(2)])
  then have pkt: "pkt i = apply_header_protection P (hp_key (decoder_keys d)) (packet_header sid t n) (take 16 c) @ c"
    using Cons.prems(2) Cons.prems(4) [of i] m by (simp add: n_def)
  have opened: "decrypt_in_place P (make_cipher (keys_cipher_suite (decoder_keys d)) (enc_key (decoder_keys d)))
      (packet_nonce (decoder_keys d) n) (packet_header sid t n) c = Inr p"
    using c(2) Cons.prems(2) by simp
  note dec = decode_sealed [OF c(1) p(1) opened, folded pkt]
  have verdict: "replay_check (replay d) n = spec_verdict H n" by (rule replay_check_spec [OF Cons.prems(1)])
  show ?case
  proof (cases "spec_verdict H n")
    case (Inl e)
    with dec(1) [of e] verdict have "fst (decode P d (pkt i)) = Inl e" "snd (snd (decode P d (pkt i))) = d" by simp_all
    with Inl Cons.IH [OF Cons.prems(1,2)] Cons.prems(3,4) show ?thesis by (simp add: n_def case_prod_beta)
  next
    case (Inr u)
    then obtain r where r: "replay_commit (replay d) n = (Inr (), r)" "replay_inv r (insert n H)"
      using replay_commit_spec(1) [OF Cons.prems(1)] by force
    with dec(2) [OF _ r(1)] verdict Inr have "fst (decode P d (pkt i)) = Inr (t, n, p)"
      "snd (snd (decode P d (pkt i))) = d\<lparr>replay := r\<rparr>" by simp_all
    with Inr r(2) m Cons.IH [of "d\<lparr>replay := r\<rparr>" "insert n H"] Cons.prems(2-) show ?thesis
      by (simp add: n_def case_prod_beta)
  qed
qed simp

text \<open>The nonce a call of \<^verbatim>\<open>encode\<close> hands to the cipher is observed by running the call with a cipher that writes the nonce
  it is given into the tag, where it is read from the packet.\<close>

definition recording_seal :: aead_fn where
  "recording_seal key nonce aad buf = Some (buf @ nonce @ replicate 4 0)"

definition recording :: "prims \<Rightarrow> prims" where
  "recording P = P\<lparr>chacha20poly1305_seal := recording_seal, aes256gcm_seal := recording_seal\<rparr>"

definition nonces_given :: "prims \<Rightarrow> packet_encoder \<Rightarrow> pkt_type \<Rightarrow> bytes \<Rightarrow> bytes \<Rightarrow> bytes list" where
  "nonces_given P e t p out =
     (case encode (recording P) e t p out of
        (Inl _, _) \<Rightarrow> []
      | (Inr n, packet, _) \<Rightarrow> [slice packet (n - 16) (n - 4)])"

text \<open>The nonces of a sequence of \<^verbatim>\<open>encode\<close> calls, each with its output buffer.\<close>

fun nonces_used :: "prims \<Rightarrow> packet_encoder \<Rightarrow> (pkt_type \<times> bytes \<times> bytes) list \<Rightarrow> bytes list" where
  "nonces_used P e [] = []"
| "nonces_used P e ((t, p, out) # rs) = nonces_given P e t p out @ nonces_used P (snd (snd (encode P e t p out))) rs"

definition room_for :: "pkt_type \<times> bytes \<times> bytes \<Rightarrow> bool" where
  "room_for r \<longleftrightarrow> encode_buf_len (length (fst (snd r))) \<le> length (snd (snd r))"

lemma nonces_given_eq:
  assumes "keys_ok (encoder_keys e)"
  shows "nonces_given P e t p out = (if room_for (t, p, out) then [packet_nonce (encoder_keys e) (next_pkt_num e)] else [])"
proof (cases "room_for (t, p, out)")
  case True
  let ?n = "packet_nonce (encoder_keys e) (next_pkt_num e)" and ?k = "encoder_keys e"
  let ?h = "packet_header (session_id e) t (next_pkt_num e)" and ?c = "p @ packet_nonce (encoder_keys e) (next_pkt_num e) @ replicate 4 0"
  have n: "length ?n = 12" using assms by (simp add: keys_ok_def)
  have "encrypt_in_place (recording P) (make_cipher (keys_cipher_suite ?k) (enc_key ?k)) ?n ?h p = Inr ?c"
    using n by (cases "keys_cipher_suite ?k") (simp_all add: recording_def recording_seal_def checked_aead_def)
  from encode_sealed [OF _ this] True n obtain rest e' where
    "encode (recording P) e t p out =
       (Inr (encode_buf_len (length p)), apply_header_protection (recording P) (hp_key ?k) ?h (take 16 ?c) @ ?c @ rest, e')"
    by (simp add: room_for_def)
  then show ?thesis using True n by (simp add: nonces_given_def encode_buf_len_def packet_sizes slice_def)
next
  case False
  then show ?thesis by (simp add: nonces_given_def encode_def room_for_def Let_def)
qed

lemma encode_state:
  "snd (snd (encode P e t p out)) =
     (if length out < encode_buf_len (length p) then e else e\<lparr>next_pkt_num := next_pkt_num e + 1\<rparr>)"
  by (simp add: encode_def Let_def split: sum.split)

lemma nonces_used_upt:
  "keys_ok (encoder_keys e) \<Longrightarrow> nonces_used P e rs =
     map (\<lambda>i. packet_nonce (encoder_keys e) (next_pkt_num e + of_nat i)) [0..<length (filter room_for rs)]"
proof (induction P e rs rule: nonces_used.induct)
  case (2 P e t p out rs)
  show ?case
  proof (cases "room_for (t, p, out)")
    case True
    with 2 show ?thesis
      by (simp add: encode_state nonces_given_eq room_for_def upt_conv_Cons ac_simps del: upt_Suc flip: map_Suc_upt)
  next
    case False
    with 2 show ?thesis by (simp add: encode_state nonces_given_eq room_for_def)
  qed
qed simp

section \<open>What the codec guarantees\<close>

text \<open>C10: End to end over a hostile network. A sender encodes any messages that fit a packet; the
  network delivers those packets in any order, any number of times, dropping any of them. The
  decoder then answers each delivery exactly as the replay specification says: a fresh number gives
  back the message's type, packet number and plaintext, a repeated one \<open>Replay\<close>, one that fell out of the
  window \<open>TooOld\<close>.\<close>

theorem decode_over_network:
  assumes "aead_lawful P" and "keys_ok k" and "\<forall>m \<in> set ms. length (snd m) + 48 \<le> 65535"
    and "\<forall>i \<in> set is. i < length ms"
  shows "decode_all P (decoder_new k) (map (nth (encode_all P (encoder_new k sid) ms)) is) =
    map2 (\<lambda>i v. case v of Inl e \<Rightarrow> Inl e | Inr _ \<Rightarrow> Inr (fst (ms ! i), of_nat i, snd (ms ! i)))
      is (spec_verdicts {} (map of_nat is))"
proof (rule decode_all_sealed [OF assms(1,2), where m = "nth ms"])
  show "replay_inv (replay (decoder_new k)) {}" by (simp add: decoder_new_def replay_inv_new)
  show "decoder_keys (decoder_new k) = k" by (simp add: decoder_new_def)
  have small: "length (snd m) < 2 ^ 32" if "m \<in> set ms" for m using assms(3) that by fastforce
  fix i assume "i \<in> set is"
  then have i: "i < length ms" using assms(4) by blast
  then show "length (snd (ms ! i)) + 48 \<le> 65535" using assms(3) by simp
  show "seal_packet P k sid (fst (ms ! i)) (of_nat i) (snd (ms ! i)) = Inr (encode_all P (encoder_new k sid) ms ! i)"
    using encode_all_nth [of P "encoder_new k sid" ms i] assms(1,2) small i by (simp add: encoder_new_def)
qed

theorem decode_over_network_witness:
  "decode_all demo_prims (decoder_new demo_keys)
     (map (nth (encode_all demo_prims (encoder_new demo_keys 7) [(Data, [1, 2]), (Close, []), (Ping, [9])])) [2, 0, 2, 1])
   = [Inr (Ping, 2, [9]), Inr (Data, 0, [1, 2]), Inl (Replay 2), Inr (Close, 1, [])]"
  by (subst decode_over_network [OF demo_prims_lawful(1) demo_keys_ok])
    (simp_all add: spec_verdict_def spec_base_def)

text \<open>C16: Whatever bytes arrive, with whatever cryptography, no packet number is delivered twice.\<close>

theorem decode_delivers_once:
  "distinct (map (fst \<circ> snd) (delivered (decode_all P (decoder_new k) bufs)))"
  using decode_all_fresh [of "decoder_new k" "{}" P bufs] by (simp add: decoder_new_def replay_inv_new)

text \<open>C17: A packet that is rejected for any reason (length, type byte, replay verdict or failed
  authentication) leaves the decoder as it was: forged packet numbers never move the window.\<close>

theorem decode_reject_is_inert:
  assumes "replay_inv (replay d) H" and "fst (decode P d buf) = Inl err"
  shows "snd (snd (decode P d buf)) = d"
  by (rule decode_error_keeps_state [OF assms])

theorem decode_reject_is_inert_witness:
  "snd (snd (decode demo_prims (decoder_new demo_keys) [1, 2, 3])) = decoder_new demo_keys"
proof (rule decode_reject_is_inert)
  show "replay_inv (replay (decoder_new demo_keys)) {}" by (simp add: decoder_new_def replay_inv_new)
  show "fst (decode demo_prims (decoder_new demo_keys) [1, 2, 3]) = Inl (BufferTooSmall 48 3)"
    by (simp add: decode_def packet_sizes)
qed

text \<open>C18: Over any sequence of up to $2^{64}$ calls of \<^verbatim>\<open>encode\<close> on one encoder with keys of the right sizes, including calls
  that fail, the nonces handed to the cipher, as a cipher that writes down its nonce sees them, are pairwise distinct; every call
  whose buffer is large enough hands over one, and a call that is refused for its buffer none.\<close>

theorem encoder_nonces_distinct:
  assumes "keys_ok (encoder_keys e)" and "length rs \<le> 2 ^ 64"
  shows "distinct (nonces_used P e rs) \<and> length (nonces_used P e rs) = length (filter room_for rs)"
proof -
  let ?n = "length (filter room_for rs)"
  note used = nonces_used_upt [OF assms(1), of P rs]
  have "?n \<le> 2 ^ 64" using assms(2) length_filter_le [of room_for rs] by (meson le_trans)
  then have "i = j" if "i < ?n" "j < ?n" "next_pkt_num e + of_nat i = next_pkt_num e + of_nat j" for i j
  proof -
    have "unat (of_nat i :: u64) = unat (of_nat j :: u64)" using that(3) by simp
    moreover have "i < 2 ^ LENGTH(64)" "j < 2 ^ LENGTH(64)" using that(1,2) \<open>?n \<le> 2 ^ 64\<close> by simp_all
    ultimately show ?thesis by (simp only: unat_of_nat_id)
  qed
  then show ?thesis
    unfolding used using packet_nonce_inj [OF assms(1)] by (fastforce simp: distinct_map inj_on_def)
qed

theorem encoder_nonces_distinct_witness:
  "distinct (nonces_used demo_prims (encoder_new demo_keys 1)
     [(Data, [1], replicate 60 0), (Data, [1], []), (Ping, [2], replicate 50 0)]) \<and>
   length (nonces_used demo_prims (encoder_new demo_keys 1)
     [(Data, [1], replicate 60 0), (Data, [1], []), (Ping, [2], replicate 50 0)]) = 2"
  using encoder_nonces_distinct [of "encoder_new demo_keys 1" "[(Data, [1], replicate 60 0), (Data, [1], []), (Ping, [2], replicate 50 0)]" demo_prims]
  by (simp add: encoder_new_def demo_keys_ok room_for_def encode_buf_len_def packet_sizes)

end
