(* ===== verification/Flow_Window.thy ===== *)
theory Flow_Window
  imports Seam_Prelude
begin

text \<open>
  \<^verbatim>\<open>src/session/flow.rs\<close>: the credit window of a connection. The interface \<open>credit_window\<close> is what a
  session relies on: a granted reservation fits the credit, a refused one changes nothing.
\<close>

record flow_window =
  flow_limit :: u64
  flow_consumed :: u64

definition flow_new :: "u64 \<Rightarrow> flow_window" where
  "flow_new initial_limit = \<lparr>flow_limit = initial_limit, flow_consumed = 0\<rparr>"

definition flow_reserve :: "flow_window \<Rightarrow> u64 \<Rightarrow> (seam_error + unit) \<times> flow_window" where
  "flow_reserve w n =
     (if flow_consumed w + n > flow_limit w
      then (Inl (FlowControlBlocked (sat_sub (flow_limit w) (flow_consumed w)) n), w)
      else (Inr (), w\<lparr>flow_consumed := flow_consumed w + n\<rparr>))"

definition flow_update_limit :: "flow_window \<Rightarrow> u64 \<Rightarrow> flow_window" where
  "flow_update_limit w new_limit = (if new_limit > flow_limit w then w\<lparr>flow_limit := new_limit\<rparr> else w)"

definition flow_available :: "flow_window \<Rightarrow> u64" where
  "flow_available w = sat_sub (flow_limit w) (flow_consumed w)"

section \<open>The contract\<close>

text \<open>A sequence of reservations, and the bytes it grants.\<close>

fun run_reserve :: "('w \<Rightarrow> u64 \<Rightarrow> (seam_error + unit) \<times> 'w) \<Rightarrow> 'w \<Rightarrow> u64 list \<Rightarrow> (seam_error + unit) list \<times> 'w" where
  "run_reserve reserve w [] = ([], w)"
| "run_reserve reserve w (n # ns) =
     (case reserve w n of (r, w') \<Rightarrow> case run_reserve reserve w' ns of (rs, w'') \<Rightarrow> (r # rs, w''))"

definition granted_bytes :: "u64 list \<Rightarrow> (seam_error + unit) list \<Rightarrow> nat" where
  "granted_bytes ns rs = sum_list (map2 (\<lambda>n r. if r = Inr () then unat n else 0) ns rs)"


text \<open>\<open>used\<close> and \<open>cap\<close> count bytes without wrap-around. Requests below \<open>2 ^ 63\<close> (every in-memory
  length) cannot overflow the counter of a window whose limit is below \<open>2 ^ 63\<close>.\<close>

locale credit_window =
  fixes ok :: "'w \<Rightarrow> bool" and used :: "'w \<Rightarrow> nat" and cap :: "'w \<Rightarrow> nat"
    and reserve :: "'w \<Rightarrow> u64 \<Rightarrow> (seam_error + unit) \<times> 'w"
  assumes ok_reserve: "ok w \<Longrightarrow> ok (snd (reserve w n))"
    and used_cap: "ok w \<Longrightarrow> used w \<le> cap w"
    and granted: "ok w \<Longrightarrow> n < 2 ^ 63 \<Longrightarrow> fst (reserve w n) = Inr u \<Longrightarrow>
      used (snd (reserve w n)) = used w + unat n \<and> cap (snd (reserve w n)) = cap w"
    and refused: "fst (reserve w n) = Inl e \<Longrightarrow> snd (reserve w n) = w"
begin

lemma granted_total:
  assumes "ok w" and "\<forall>n \<in> set ns. n < 2 ^ 63"
  shows "used w + granted_bytes ns (fst (run_reserve reserve w ns))
    = used (snd (run_reserve reserve w ns)) \<and> used (snd (run_reserve reserve w ns)) \<le> cap w"
  using assms
proof (induction ns arbitrary: w)
  case Nil
  then show ?case by (simp add: used_cap granted_bytes_def)
next
  case (Cons n ns)
  obtain r w' where res: "reserve w n = (r, w')" by force
  have ok': "ok w'" using ok_reserve [OF Cons.prems(1), of n] res by simp
  have step: "used w' = used w + (if r = Inr () then unat n else 0) \<and> cap w' = cap w"
  proof (cases r)
    case (Inl e)
    then show ?thesis using refused [of w n e] res by simp
  next
    case (Inr u)
    then show ?thesis using granted [OF Cons.prems(1), of n u] Cons.prems(2) res by simp
  qed
  have "used w' + granted_bytes ns (fst (run_reserve reserve w' ns))
      = used (snd (run_reserve reserve w' ns)) \<and> used (snd (run_reserve reserve w' ns)) \<le> cap w'"
    using Cons.IH [OF ok'] Cons.prems(2) by simp
  moreover have "granted_bytes (n # ns) (r # rs) = (if r = Inr () then unat n else 0) + granted_bytes ns rs" for rs
    by (simp add: granted_bytes_def)
  ultimately show ?case using step res by (auto simp: case_prod_beta)
qed

end

definition flow_ok :: "flow_window \<Rightarrow> bool" where
  "flow_ok w \<longleftrightarrow> flow_consumed w \<le> flow_limit w \<and> flow_limit w < 2 ^ 63"

lemma flow_reserve_no_wrap:
  assumes "flow_ok w" and "n < 2 ^ 63"
  shows "unat (flow_consumed w + n) = unat (flow_consumed w) + unat n"
proof -
  have "unat (flow_consumed w) < 2 ^ 63" "unat n < 2 ^ 63"
    using assms by (simp_all add: flow_ok_def word_le_nat_alt word_less_nat_alt)
  then show ?thesis by (simp add: unat_word_ariths)
qed

interpretation flow: credit_window flow_ok "\<lambda>w. unat (flow_consumed w)" "\<lambda>w. unat (flow_limit w)" flow_reserve
proof
  fix w n e u
  show "flow_ok w \<Longrightarrow> flow_ok (snd (flow_reserve w n))"
    by (auto simp: flow_ok_def flow_reserve_def)
  show "flow_ok w \<Longrightarrow> unat (flow_consumed w) \<le> unat (flow_limit w)"
    by (simp add: flow_ok_def word_le_nat_alt)
  show "fst (flow_reserve w n) = Inl e \<Longrightarrow> snd (flow_reserve w n) = w"
    by (auto simp: flow_reserve_def split: if_splits)
  assume "flow_ok w" "n < 2 ^ 63" "fst (flow_reserve w n) = Inr u"
  then show "unat (flow_consumed (snd (flow_reserve w n))) = unat (flow_consumed w) + unat n \<and>
      unat (flow_limit (snd (flow_reserve w n))) = unat (flow_limit w)"
    using flow_reserve_no_wrap [of w n] by (auto simp: flow_reserve_def split: if_splits)
qed

lemma flow_ok_update: "flow_ok w \<Longrightarrow> l < 2 ^ 63 \<Longrightarrow> flow_ok (flow_update_limit w l)"
  by (auto simp: flow_ok_def flow_update_limit_def)

text \<open>Flow control is exact: over any sequence of reservations on a fresh window the bytes granted add
  up to what the window records, and never exceed the peer's limit.\<close>

theorem flow_grants_within_limit:
  assumes "limit < 2 ^ 63" and "\<forall>n \<in> set ns. n < 2 ^ 63"
  shows "granted_bytes ns (fst (run_reserve flow_reserve (flow_new limit) ns))
    = unat (flow_consumed (snd (run_reserve flow_reserve (flow_new limit) ns))) \<and>
    unat (flow_consumed (snd (run_reserve flow_reserve (flow_new limit) ns))) \<le> unat limit"
  using flow.granted_total [of "flow_new limit" ns] assms by (simp add: flow_ok_def flow_new_def)

theorem flow_grants_within_limit_witness:
  "unat (flow_consumed (snd (run_reserve flow_reserve (flow_new 10) [4, 7, 6]))) \<le> 10"
proof -
  have lim: "(10 :: u64) < 2 ^ 63" "\<forall>n \<in> set [4, 7, 6]. n < (2 :: u64) ^ 63" by (simp_all add: word_less_nat_alt)
  show ?thesis using flow_grants_within_limit [OF lim] by simp
qed

end
