(* ===== verification/Datagram_Queue.thy ===== *)
theory Datagram_Queue
  imports Seam_Prelude
begin

text \<open>
  \<^verbatim>\<open>src/session/datagram.rs\<close>: the bounded queues of unreliable datagrams. The loop that drops the oldest
  entries until there is room is a partial function: with a queue depth of zero it never returns.
\<close>

definition MAX_DATAGRAM_SIZE :: nat where "MAX_DATAGRAM_SIZE = 1200"
definition DEFAULT_QUEUE_DEPTH :: nat where "DEFAULT_QUEUE_DEPTH = 64"

record datagram_queue =
  send_queue :: "bytes list"
  recv_queue :: "bytes list"
  dg_max_size :: nat
  max_queue_depth :: nat
  dropped :: u64

definition datagram_with_limits :: "nat \<Rightarrow> nat \<Rightarrow> datagram_queue" where
  "datagram_with_limits sz depth =
     \<lparr>send_queue = [], recv_queue = [], dg_max_size = sz, max_queue_depth = depth, dropped = 0\<rparr>"

definition datagram_new :: datagram_queue where
  "datagram_new = datagram_with_limits MAX_DATAGRAM_SIZE DEFAULT_QUEUE_DEPTH"

text \<open>\<^verbatim>\<open>while queue.len() >= depth { queue.pop_front(); dropped += 1 }\<close>\<close>

partial_function (option) make_room :: "nat \<Rightarrow> bytes list \<Rightarrow> u64 \<Rightarrow> (bytes list \<times> u64) option" where
  "make_room depth q drops =
     (if length q \<ge> depth then make_room depth (tl q) (drops + 1) else Some (q, drops))"

definition datagram_send :: "datagram_queue \<Rightarrow> bytes \<Rightarrow> ((nat + unit) \<times> datagram_queue) option" where
  "datagram_send dq dat =
     (if length dat > dg_max_size dq then Some (Inl (length dat), dq)
      else case make_room (max_queue_depth dq) (send_queue dq) (dropped dq) of
             None \<Rightarrow> None
           | Some (q, n) \<Rightarrow> Some (Inr (), dq\<lparr>send_queue := q @ [dat], dropped := n\<rparr>))"

definition datagram_poll_send :: "datagram_queue \<Rightarrow> bytes option \<times> datagram_queue" where
  "datagram_poll_send dq =
     (case send_queue dq of [] \<Rightarrow> (None, dq) | x # q \<Rightarrow> (Some x, dq\<lparr>send_queue := q\<rparr>))"

definition datagram_receive :: "datagram_queue \<Rightarrow> bytes \<Rightarrow> datagram_queue option" where
  "datagram_receive dq dat =
     (if length dat > dg_max_size dq then Some dq
      else case make_room (max_queue_depth dq) (recv_queue dq) (dropped dq) of
             None \<Rightarrow> None
           | Some (q, n) \<Rightarrow> Some (dq\<lparr>recv_queue := q @ [dat], dropped := n\<rparr>))"

definition datagram_recv :: "datagram_queue \<Rightarrow> bytes option \<times> datagram_queue" where
  "datagram_recv dq =
     (case recv_queue dq of [] \<Rightarrow> (None, dq) | x # q \<Rightarrow> (Some x, dq\<lparr>recv_queue := q\<rparr>))"

lemma make_room_Some:
  assumes "0 < depth"
  shows "make_room depth q n = Some (drop (length q + 1 - depth) q, n + of_nat (length q + 1 - depth))"
proof (induction q arbitrary: n)
  case Nil
  then show ?case using assms by (subst make_room.simps) simp
next
  case (Cons x q)
  show ?case
  proof (cases "length (x # q) \<ge> depth")
    case True
    then have "length (x # q) + 1 - depth = Suc (length q + 1 - depth)" by simp
    with True Cons show ?thesis by (subst make_room.simps) (simp add: ac_simps)
  next
    case False
    then show ?thesis by (subst make_room.simps) simp
  qed
qed

lemma make_room_zero: "make_room 0 q n = None"
proof (cases "make_room 0 q n")
  case (Some r)
  have "depth \<noteq> 0" if "make_room depth q n = Some r" for depth q n r
    using that by (rule make_room.raw_induct [rotated, where P = "\<lambda>depth q n r. depth \<noteq> 0"]) (force split: if_splits)
  with Some show ?thesis by blast
qed

text \<open>Both directions use the same discipline: a queue of the newest datagrams.\<close>

definition keep_newest :: "nat \<Rightarrow> bytes list \<Rightarrow> bytes list" where
  "keep_newest depth xs = drop (length xs - depth) xs"

lemma datagram_send_room:
  assumes "0 < max_queue_depth dq" and "length dat \<le> dg_max_size dq"
  shows "datagram_send dq dat = Some (Inr (), dq\<lparr>send_queue := keep_newest (max_queue_depth dq) (send_queue dq @ [dat]),
     dropped := dropped dq + of_nat (length (send_queue dq) + 1 - max_queue_depth dq)\<rparr>)"
  using assms by (simp add: datagram_send_def make_room_Some keep_newest_def)

fun datagram_send_all :: "datagram_queue \<Rightarrow> bytes list \<Rightarrow> datagram_queue option" where
  "datagram_send_all dq [] = Some dq"
| "datagram_send_all dq (x # xs) =
     (case datagram_send dq x of None \<Rightarrow> None | Some (_, dq') \<Rightarrow> datagram_send_all dq' xs)"

lemma keep_newest_snoc: "0 < d \<Longrightarrow> keep_newest d (keep_newest d xs @ [y]) = keep_newest d (xs @ [y])"
proof -
  assume "0 < d"
  have "drop (length xs - d) xs @ [y] = drop (length xs - d) (xs @ [y])" by simp
  moreover have "length (drop (length xs - d) xs @ [y]) - d + (length xs - d) = Suc (length xs) - d"
    using \<open>0 < d\<close> by simp
  ultimately show ?thesis by (simp add: keep_newest_def)
qed

lemma datagram_send_all_newest:
  assumes "0 < max_queue_depth dq" and "\<forall>x \<in> set xs. length x \<le> dg_max_size dq"
    and "send_queue dq = keep_newest (max_queue_depth dq) ys"
  shows "\<exists>dq'. datagram_send_all dq xs = Some dq' \<and> send_queue dq' = keep_newest (max_queue_depth dq) (ys @ xs)"
  using assms
proof (induction xs arbitrary: dq ys)
  case Nil
  then show ?case by simp
next
  case (Cons x xs)
  define dq1 where "dq1 = dq\<lparr>send_queue := keep_newest (max_queue_depth dq) (send_queue dq @ [x]),
     dropped := dropped dq + of_nat (length (send_queue dq) + 1 - max_queue_depth dq)\<rparr>"
  have step: "datagram_send dq x = Some (Inr (), dq1)"
    using datagram_send_room Cons.prems(1,2) by (simp add: dq1_def)
  have "\<exists>dq'. datagram_send_all dq1 xs = Some dq' \<and> send_queue dq' = keep_newest (max_queue_depth dq1) ((ys @ [x]) @ xs)"
    using Cons.prems by (intro Cons.IH) (simp_all add: dq1_def keep_newest_snoc)
  with step show ?case by (simp add: dq1_def)
qed

text \<open>On a queue with room for at least one datagram every send returns, and after any sequence of
  sends of admissible size the queue holds exactly the newest datagrams, in order, up to its depth.\<close>

theorem datagram_keeps_newest:
  assumes "0 < depth" and "\<forall>x \<in> set xs. length x \<le> sz"
  shows "\<exists>dq. datagram_send_all (datagram_with_limits sz depth) xs = Some dq \<and>
    send_queue dq = drop (length xs - depth) xs"
  using datagram_send_all_newest [of "datagram_with_limits sz depth" xs "[]"] assms
  by (simp add: datagram_with_limits_def keep_newest_def)

theorem datagram_keeps_newest_witness:
  "\<exists>dq. datagram_send_all (datagram_with_limits 1200 2) [[1], [2], [3]] = Some dq \<and> send_queue dq = [[2], [3]]"
  using datagram_keeps_newest [of 2 "[[1], [2], [3]]" 1200] by simp

text \<open>C24: A queue depth of zero hangs: sending or receiving any datagram of admissible size never returns.\<close>

theorem datagram_depth_zero_hangs:
  assumes "max_queue_depth dq = 0" and "length x \<le> dg_max_size dq"
  shows "datagram_send dq x = None \<and> datagram_receive dq x = None"
  using assms by (simp add: datagram_send_def datagram_receive_def make_room_zero)

theorem datagram_depth_zero_hangs_witness:
  "datagram_send (datagram_with_limits 1200 0) [1] = None"
  using datagram_depth_zero_hangs [of "datagram_with_limits 1200 0" "[1]"] by (simp add: datagram_with_limits_def)

end
