(* ===== verification/Loss_Recovery.thy ===== *)
theory Loss_Recovery
  imports Seam_Prelude
begin

text \<open>
  \<^verbatim>\<open>src/session/arq.rs\<close> and \<^verbatim>\<open>src/session/rack.rs\<close>: the two trackers of packets in flight. Both keep a
  \<^verbatim>\<open>BTreeMap\<close> from packet number to the packet; the clock is an argument. The interface
  \<open>flight_tracker\<close> states what a session relies on: a sent packet stays in flight until it is
  acknowledged or handed back as lost.
\<close>

section \<open>Selective ARQ\<close>

record in_flight_pkt =
  if_data :: bytes
  if_sent_at :: instant
  if_retransmits :: u32

record arq_tracker =
  arq_in_flight :: "(u64, in_flight_pkt) btree"
  arq_rto :: duration
  arq_srtt_us :: u64
  arq_rttvar_us :: u64

definition arq_new :: arq_tracker where
  "arq_new = \<lparr>arq_in_flight = [], arq_rto = millis 300, arq_srtt_us = 0, arq_rttvar_us = 0\<rparr>"

definition arq_on_sent :: "instant \<Rightarrow> arq_tracker \<Rightarrow> u64 \<Rightarrow> bytes \<Rightarrow> arq_tracker" where
  "arq_on_sent now a pkt_num dat =
     a\<lparr>arq_in_flight := bt_insert pkt_num \<lparr>if_data = dat, if_sent_at = now, if_retransmits = 0\<rparr> (arq_in_flight a)\<rparr>"

definition as_micros_u64 :: "duration \<Rightarrow> u64" where
  "as_micros_u64 d = of_nat (d div 1000)"

text \<open>The estimator of RFC 6298, shared by both trackers.\<close>

definition rtt_estimate :: "u64 \<Rightarrow> u64 \<Rightarrow> u64 \<Rightarrow> u64 \<times> u64" where
  "rtt_estimate srtt rttvar rtt_us =
     (if srtt = 0 then (rtt_us, rtt_us div 2)
      else
        let diff = abs_diff srtt rtt_us;
            rttvar' = (3 * rttvar div 4) + (diff div 4);
            srtt' = (7 * srtt div 8) + (rtt_us div 8)
        in (srtt', rttvar'))"

definition arq_update_rtt :: "arq_tracker \<Rightarrow> duration \<Rightarrow> arq_tracker" where
  "arq_update_rtt a rtt =
     (case rtt_estimate (arq_srtt_us a) (arq_rttvar_us a) (as_micros_u64 rtt) of
        (srtt, rttvar) \<Rightarrow>
          let rto_us = srtt + 4 * rttvar in
          a\<lparr>arq_srtt_us := srtt, arq_rttvar_us := rttvar,
            arq_rto := min (max (micros (unat rto_us)) (millis 200)) (secs 60)\<rparr>)"

definition arq_on_ack :: "instant \<Rightarrow> arq_tracker \<Rightarrow> u64 \<Rightarrow> (duration \<times> nat) option \<times> arq_tracker" where
  "arq_on_ack now a pkt_num =
     (case map_of (arq_in_flight a) pkt_num of
        Some pkt \<Rightarrow>
          let a1 = a\<lparr>arq_in_flight := bt_remove pkt_num (arq_in_flight a)\<rparr>;
              n = length (if_data pkt)
          in if if_retransmits pkt = 0 then
               let rtt = now - if_sent_at pkt in (Some (rtt, n), arq_update_rtt a1 rtt)
             else (Some (0, n), a1)
      | None \<Rightarrow> (None, a))"

definition arq_drain_expired :: "instant \<Rightarrow> arq_tracker \<Rightarrow> (u64 \<times> bytes) list \<times> arq_tracker" where
  "arq_drain_expired now a =
     (let rto = arq_rto a;
          is_expired = (\<lambda>pkt. now - if_sent_at pkt \<ge> rto);
          expired = map (\<lambda>(pn, pkt). (pn, if_data pkt)) (filter (\<lambda>(pn, pkt). is_expired pkt) (arq_in_flight a));
          flight = map (\<lambda>(pn, pkt). (pn, if is_expired pkt
                      then pkt\<lparr>if_sent_at := now, if_retransmits := if_retransmits pkt + 1\<rparr> else pkt)) (arq_in_flight a);
          a1 = a\<lparr>arq_in_flight := flight\<rparr>
      in (expired, if expired \<noteq> [] then a1\<lparr>arq_rto := min (arq_rto a1 * 2) (secs 60)\<rparr> else a1))"

definition in_flight_count :: "arq_tracker \<Rightarrow> nat" where
  "in_flight_count a = length (arq_in_flight a)"

definition arq_srtt :: "arq_tracker \<Rightarrow> duration" where
  "arq_srtt a = micros (unat (arq_srtt_us a))"

section \<open>RACK\<close>

definition RACK_REORDER_FRAC_NUM :: u32 where "RACK_REORDER_FRAC_NUM = 1"
definition RACK_REORDER_FRAC_DEN :: u32 where "RACK_REORDER_FRAC_DEN = 4"

record rack_pkt =
  rp_data :: bytes
  rp_sent_at :: instant
  rp_size :: u64
  rp_retransmits :: u32

record rack_tracker =
  rack_in_flight :: "(u64, rack_pkt) btree"
  rack_xmit_time :: "instant option"
  rack_end_seq :: u64
  reorder_window :: duration
  rack_srtt_us :: u64
  rack_rttvar_us :: u64
  rack_min_rtt :: duration
  losses_detected :: u64
  acks_received :: u64

definition rack_new :: rack_tracker where
  "rack_new = \<lparr>rack_in_flight = [], rack_xmit_time = None, rack_end_seq = 0, reorder_window = millis 5,
     rack_srtt_us = 0, rack_rttvar_us = 0, rack_min_rtt = secs 1, losses_detected = 0, acks_received = 0\<rparr>"

definition rack_on_sent :: "instant \<Rightarrow> rack_tracker \<Rightarrow> u64 \<Rightarrow> bytes \<Rightarrow> u64 \<Rightarrow> rack_tracker" where
  "rack_on_sent now t pkt_num dat sz =
     t\<lparr>rack_in_flight := bt_insert pkt_num
         \<lparr>rp_data = dat, rp_sent_at = now, rp_size = sz, rp_retransmits = 0\<rparr> (rack_in_flight t)\<rparr>"

definition rack_update_rtt :: "rack_tracker \<Rightarrow> duration \<Rightarrow> rack_tracker" where
  "rack_update_rtt t rtt =
     (let t1 = (if rtt < rack_min_rtt t \<or> rack_min_rtt t = secs 1 then t\<lparr>rack_min_rtt := rtt\<rparr> else t) in
      case rtt_estimate (rack_srtt_us t1) (rack_rttvar_us t1) (as_micros_u64 rtt) of
        (srtt, rttvar) \<Rightarrow> t1\<lparr>rack_srtt_us := srtt, rack_rttvar_us := rttvar\<rparr>)"

text \<open>The loops collect the lost packets in key order, then remove their keys. An \<^verbatim>\<open>Instant\<close> before the
  start of the clock does not exist: \<^verbatim>\<open>checked_sub\<close> fails there.\<close>

definition take_lost :: "(u64 \<Rightarrow> rack_pkt \<Rightarrow> bool) \<Rightarrow> rack_tracker \<Rightarrow> (u64 \<times> bytes \<times> u64) list \<times> rack_tracker" where
  "take_lost is_lost t =
     (let lost = map (\<lambda>(pn, p). (pn, rp_data p, rp_size p)) (filter (\<lambda>(pn, p). is_lost pn p) (rack_in_flight t));
          keys = map fst lost
      in (lost, t\<lparr>rack_in_flight := fold bt_remove keys (rack_in_flight t)\<rparr>))"

definition detect_losses :: "rack_tracker \<Rightarrow> (u64 \<times> bytes \<times> u64) list \<times> rack_tracker" where
  "detect_losses t =
     (case rack_xmit_time t of
        None \<Rightarrow> ([], t)
      | Some reference \<Rightarrow>
          if reference < reorder_window t then ([], t)
          else let threshold = reference - reorder_window t
               in take_lost (\<lambda>pn p. pn < rack_end_seq t \<and> rp_sent_at p < threshold) t)"

definition detect_tail_loss :: "instant \<Rightarrow> rack_tracker \<Rightarrow> duration \<Rightarrow> (u64 \<times> bytes \<times> u64) list \<times> rack_tracker" where
  "detect_tail_loss now t pto =
     (case take_lost (\<lambda>pn p. now - rp_sent_at p > pto) t of
        (lost, t1) \<Rightarrow> (lost, t1\<lparr>losses_detected := sat_add (losses_detected t1) (of_nat (length lost))\<rparr>))"

definition rack_on_ack ::
  "instant \<Rightarrow> rack_tracker \<Rightarrow> u64 \<Rightarrow> (duration option \<times> (u64 \<times> bytes \<times> u64) list) \<times> rack_tracker" where
  "rack_on_ack now t0 pkt_num =
     (let t = t0\<lparr>acks_received := sat_add (acks_received t0) 1\<rparr> in
      case map_of (rack_in_flight t) pkt_num of
        None \<Rightarrow> ((None, []), t)
      | Some pkt \<Rightarrow>
          let t1 = t\<lparr>rack_in_flight := bt_remove pkt_num (rack_in_flight t)\<rparr>;
              rtt = now - rp_sent_at pkt;
              t2 = (if pkt_num \<ge> rack_end_seq t1
                    then t1\<lparr>rack_end_seq := pkt_num, rack_xmit_time := Some (rp_sent_at pkt)\<rparr> else t1);
              (rtt_sample, t3) = (if rp_retransmits pkt = 0 then (Some rtt, rack_update_rtt t2 rtt) else (None, t2));
              t4 = (if rack_srtt_us t3 > 0
                    then let frac_us = rack_srtt_us t3 * ucast RACK_REORDER_FRAC_NUM div ucast RACK_REORDER_FRAC_DEN
                         in t3\<lparr>reorder_window := max (micros (unat frac_us)) (millis 1)\<rparr>
                    else t3);
              (losses, t5) = detect_losses t4;
              t6 = t5\<lparr>losses_detected := sat_add (losses_detected t5) (of_nat (length losses))\<rparr>
          in ((rtt_sample, losses), t6))"

definition in_flight_bytes :: "rack_tracker \<Rightarrow> u64" where
  "in_flight_bytes t = sum_list (map (rp_size \<circ> snd) (rack_in_flight t))"

definition rack_pto :: "rack_tracker \<Rightarrow> duration" where
  "rack_pto t =
     (let pto_us = rack_srtt_us t + 4 * rack_rttvar_us t + 25000
      in min (micros (unat (max pto_us 200000))) (secs 60))"

section \<open>The contract of a tracker\<close>

text \<open>A run of acknowledgements collects what they report lost. \<open>flight t\<close> are the packet numbers in flight. An acknowledgement removes its number and those it
  reports lost; nothing else leaves, and only \<open>sent\<close> adds.\<close>

fun ack_all :: "(instant \<Rightarrow> 't \<Rightarrow> u64 \<Rightarrow> u64 list \<times> 't) \<Rightarrow> 't \<Rightarrow> (instant \<times> u64) list \<Rightarrow> u64 list \<times> 't" where
  "ack_all ack t [] = ([], t)"
| "ack_all ack t ((now, n) # xs) =
     (case ack now t n of (l, t') \<Rightarrow> case ack_all ack t' xs of (ls, t'') \<Rightarrow> (l @ ls, t''))"

locale flight_tracker =
  fixes ok :: "'t \<Rightarrow> bool" and flight :: "'t \<Rightarrow> u64 set"
    and sent :: "instant \<Rightarrow> 't \<Rightarrow> u64 \<Rightarrow> bytes \<Rightarrow> 't"
    and ack :: "instant \<Rightarrow> 't \<Rightarrow> u64 \<Rightarrow> u64 list \<times> 't"
  assumes ok_sent: "ok t \<Longrightarrow> ok (sent now t n d)"
    and ok_ack: "ok t \<Longrightarrow> ok (snd (ack now t n))"
    and flight_sent: "ok t \<Longrightarrow> flight (sent now t n d) = insert n (flight t)"
    and flight_ack: "ok t \<Longrightarrow> flight (snd (ack now t n)) = flight t - {n} - set (fst (ack now t n))"
    and lost_flight: "ok t \<Longrightarrow> set (fst (ack now t n)) \<subseteq> flight t"
begin

lemma ack_all_conserves:
  assumes "ok t"
  shows "ok (snd (ack_all ack t acks)) \<and> set (fst (ack_all ack t acks)) \<subseteq> flight t \<and>
    flight (snd (ack_all ack t acks)) = flight t - snd ` set acks - set (fst (ack_all ack t acks))"
  using assms
proof (induction acks arbitrary: t)
  case Nil
  then show ?case by simp
next
  case (Cons x xs)
  obtain now n where x: "x = (now, n)" by force
  obtain l t' where a: "ack now t n = (l, t')" by force
  have t': "ok t'" "flight t' = flight t - {n} - set l" "set l \<subseteq> flight t"
    using ok_ack [OF Cons.prems, of now n] flight_ack [OF Cons.prems, of now n] lost_flight [OF Cons.prems, of now n] a
    by simp_all
  from Cons.IH [OF t'(1)] t'(2,3) a show ?case by (auto simp: x case_prod_beta)
qed

end

section \<open>Both trackers keep it\<close>

lemma fst_image_bt: "map_of m k = Some v \<Longrightarrow> k \<in> fst ` set m"
  by (force dest: map_of_SomeD)

lemma fold_bt_remove: "fold bt_remove ks m = filter (\<lambda>e. fst e \<notin> set ks) m"
proof (induction ks arbitrary: m)
  case (Cons k ks)
  then show ?case by (auto simp: bt_remove_def intro: filter_cong)
qed simp

definition arq_ok :: "arq_tracker \<Rightarrow> bool" where
  "arq_ok a \<longleftrightarrow> bt_ok (arq_in_flight a) \<and> millis 200 \<le> arq_rto a \<and> arq_rto a \<le> secs 60"

definition arq_flight :: "arq_tracker \<Rightarrow> u64 set" where
  "arq_flight a = fst ` set (arq_in_flight a)"

lemma arq_update_rtt_fields:
  "arq_in_flight (arq_update_rtt a rtt) = arq_in_flight a"
  "millis 200 \<le> arq_rto (arq_update_rtt a rtt) \<and> arq_rto (arq_update_rtt a rtt) \<le> secs 60"
  by (simp_all add: arq_update_rtt_def Let_def case_prod_beta millis_def secs_def)

lemma arq_on_ack_flight:
  "arq_in_flight (snd (arq_on_ack now a n)) = bt_remove n (arq_in_flight a)"
  by (auto simp: arq_on_ack_def Let_def arq_update_rtt_fields bt_remove_def map_of_eq_None_iff
      intro!: filter_True [symmetric] split: option.split)

interpretation arq: flight_tracker arq_ok arq_flight arq_on_sent "\<lambda>now t n. ([], snd (arq_on_ack now t n))"
proof
  fix t now n d
  assume ok: "arq_ok t"
  show "arq_ok (arq_on_sent now t n d)" using ok by (simp add: arq_ok_def arq_on_sent_def)
  show "arq_ok (snd ([], snd (arq_on_ack now t n)))"
    using ok arq_update_rtt_fields(2) arq_on_ack_flight [of now t n]
    by (auto simp: arq_ok_def) (auto simp: arq_on_ack_def Let_def split: option.split)
  show "arq_flight (arq_on_sent now t n d) = insert n (arq_flight t)"
    by (simp add: arq_flight_def arq_on_sent_def set_fst_bt_insert)
  show "arq_flight (snd ([], snd (arq_on_ack now t n))) = arq_flight t - {n} - set (fst ([], snd (arq_on_ack now t n)))"
    by (simp add: arq_flight_def arq_on_ack_flight fst_bt_remove)
  show "set (fst ([], snd (arq_on_ack now t n))) \<subseteq> arq_flight t" by simp
qed

definition rack_ok :: "rack_tracker \<Rightarrow> bool" where
  "rack_ok t \<longleftrightarrow> bt_ok (rack_in_flight t)"

definition rack_flight :: "rack_tracker \<Rightarrow> u64 set" where
  "rack_flight t = fst ` set (rack_in_flight t)"

lemma take_lost_flight:
  "rack_in_flight (snd (take_lost P t)) = filter (\<lambda>e. fst e \<notin> set (map fst (fst (take_lost P t)))) (rack_in_flight t)"
proof -
  have "rack_in_flight (t\<lparr>rack_in_flight := m\<rparr>) = m" for m by simp
  then show ?thesis by (simp only: take_lost_def Let_def fold_bt_remove fst_conv snd_conv)
qed

lemma take_lost_keys: "set (map fst (fst (take_lost P t))) \<subseteq> rack_flight t"
  by (force simp: take_lost_def Let_def rack_flight_def)

lemma detect_losses_flight:
  "rack_in_flight (snd (detect_losses t)) =
     filter (\<lambda>e. fst e \<notin> set (map fst (fst (detect_losses t)))) (rack_in_flight t)"
  "set (map fst (fst (detect_losses t))) \<subseteq> rack_flight t"
proof -
  have "detect_losses t = ([], t) \<or> (\<exists>P. detect_losses t = take_lost P t)"
    by (auto simp: detect_losses_def Let_def split: option.split)
  then show "rack_in_flight (snd (detect_losses t)) =
      filter (\<lambda>e. fst e \<notin> set (map fst (fst (detect_losses t)))) (rack_in_flight t)"
    and "set (map fst (fst (detect_losses t))) \<subseteq> rack_flight t"
    using take_lost_flight take_lost_keys by fastforce+
qed

text \<open>The state in which an acknowledgement looks for losses.\<close>

definition rack_pre_detect :: "instant \<Rightarrow> rack_tracker \<Rightarrow> u64 \<Rightarrow> rack_pkt \<Rightarrow> rack_tracker" where
  "rack_pre_detect now t0 n pkt =
     (let t = t0\<lparr>acks_received := sat_add (acks_received t0) 1\<rparr>;
          t1 = t\<lparr>rack_in_flight := bt_remove n (rack_in_flight t)\<rparr>;
          rtt = now - rp_sent_at pkt;
          t2 = (if n \<ge> rack_end_seq t1
                then t1\<lparr>rack_end_seq := n, rack_xmit_time := Some (rp_sent_at pkt)\<rparr> else t1);
          t3 = (if rp_retransmits pkt = 0 then rack_update_rtt t2 rtt else t2)
      in if rack_srtt_us t3 > 0
         then t3\<lparr>reorder_window := max (micros (unat
                (rack_srtt_us t3 * ucast RACK_REORDER_FRAC_NUM div ucast RACK_REORDER_FRAC_DEN))) (millis 1)\<rparr>
         else t3)"

lemma rack_pre_detect_flight: "rack_in_flight (rack_pre_detect now t n pkt) = bt_remove n (rack_in_flight t)"
  by (simp add: rack_pre_detect_def Let_def rack_update_rtt_def case_prod_beta)

lemma rack_on_ack_cases:
  "map_of (rack_in_flight t) n = None \<Longrightarrow>
     snd (fst (rack_on_ack now t n)) = [] \<and> rack_in_flight (snd (rack_on_ack now t n)) = rack_in_flight t"
  "map_of (rack_in_flight t) n = Some pkt \<Longrightarrow>
     snd (fst (rack_on_ack now t n)) = fst (detect_losses (rack_pre_detect now t n pkt)) \<and>
     rack_in_flight (snd (rack_on_ack now t n)) = rack_in_flight (snd (detect_losses (rack_pre_detect now t n pkt)))"
  by (simp_all add: rack_on_ack_def rack_pre_detect_def Let_def case_prod_beta)

interpretation rack: flight_tracker rack_ok rack_flight "\<lambda>now t n d. rack_on_sent now t n d sz"
  "\<lambda>now t n. (map fst (snd (fst (rack_on_ack now t n))), snd (rack_on_ack now t n))" for sz
proof
  fix t now n d
  assume ok: "rack_ok t"
  show "rack_ok (rack_on_sent now t n d sz)" using ok by (simp add: rack_ok_def rack_on_sent_def)
  show "rack_flight (rack_on_sent now t n d sz) = insert n (rack_flight t)"
    by (simp add: rack_flight_def rack_on_sent_def set_fst_bt_insert)
  define ls where "ls = map fst (snd (fst (rack_on_ack now t n)))"
  have fl: "rack_in_flight (snd (rack_on_ack now t n)) = filter (\<lambda>e. fst e \<notin> set ls) (bt_remove n (rack_in_flight t)) \<and>
      set ls \<subseteq> rack_flight t"
  proof (cases "map_of (rack_in_flight t) n")
    case None
    then have "bt_remove n (rack_in_flight t) = rack_in_flight t"
      by (force simp: bt_remove_def map_of_eq_None_iff intro!: filter_True)
    with None rack_on_ack_cases(1) [OF None, of now] show ?thesis by (simp add: ls_def)
  next
    case (Some pkt)
    show ?thesis
      using rack_on_ack_cases(2) [OF Some, of now] detect_losses_flight [of "rack_pre_detect now t n pkt"]
      by (auto simp: ls_def rack_pre_detect_flight rack_flight_def fst_bt_remove)
  qed
  show "rack_ok (snd (map fst (snd (fst (rack_on_ack now t n))), snd (rack_on_ack now t n)))"
    using ok fl by (simp add: rack_ok_def)
  show "rack_flight (snd (map fst (snd (fst (rack_on_ack now t n))), snd (rack_on_ack now t n))) =
      rack_flight t - {n} - set (fst (map fst (snd (fst (rack_on_ack now t n))), snd (rack_on_ack now t n)))"
    using fl by (auto simp: rack_flight_def ls_def [symmetric] bt_remove_def)
  show "set (fst (map fst (snd (fst (rack_on_ack now t n))), snd (rack_on_ack now t n))) \<subseteq> rack_flight t"
    using fl by (simp add: ls_def [symmetric])
qed

section \<open>What the trackers guarantee\<close>

text \<open>Nothing in flight is forgotten. From any well-formed ARQ state, after any acknowledgements at any
  times exactly the packets that were in flight and not acknowledged are still held for
  retransmission, and the retransmission timeout stays between 200 ms and 60 s.\<close>

theorem arq_holds_unacked:
  assumes "arq_ok a"
  shows "let a' = snd (ack_all (\<lambda>now t n. ([], snd (arq_on_ack now t n))) a acks) in
    arq_flight a' = arq_flight a - snd ` set acks \<and> millis 200 \<le> arq_rto a' \<and> arq_rto a' \<le> secs 60"
proof -
  have "set (fst (ack_all (\<lambda>now t n. ([], snd (arq_on_ack now t n))) a acks)) = {}"
    by (induction "\<lambda>now t n. ([] :: u64 list, snd (arq_on_ack now t n))" a acks rule: ack_all.induct)
      (simp_all add: case_prod_beta)
  with arq.ack_all_conserves [OF assms, of acks] show ?thesis by (simp add: Let_def arq_ok_def)
qed

theorem arq_holds_unacked_witness:
  "arq_flight (snd (ack_all (\<lambda>now t n. ([], snd (arq_on_ack now t n)))
     (arq_on_sent 0 (arq_on_sent 0 arq_new 1 [9]) 2 [8]) [(5, 1), (7, 6)])) = {2}"
proof -
  have "arq_ok (arq_on_sent 0 (arq_on_sent 0 arq_new 1 [9]) 2 [8])"
    by (intro arq.ok_sent) (simp add: arq_ok_def arq_new_def millis_def secs_def)
  moreover have "arq_flight (arq_on_sent 0 (arq_on_sent 0 arq_new 1 [9]) 2 [8]) = {1, 2}"
    by (auto simp: arq_flight_def arq_on_sent_def arq_new_def)
  ultimately show ?thesis using arq_holds_unacked [of "arq_on_sent 0 (arq_on_sent 0 arq_new 1 [9]) 2 [8]" "[(5, 1), (7, 6)]"]
    by (simp add: Let_def insert_Diff_if)
qed

text \<open>A timeout sweep retransmits exactly the packets that have waited at least the timeout, with the
  bytes first sent; it drops none, marks them sent now, and backs the timeout off to at most 60 s.\<close>

theorem arq_drain_expired_exact:
  assumes "arq_ok a"
  shows "(\<forall>n d. (n, d) \<in> set (fst (arq_drain_expired now a)) \<longleftrightarrow>
        (\<exists>p. map_of (arq_in_flight a) n = Some p \<and> if_data p = d \<and> arq_rto a \<le> now - if_sent_at p)) \<and>
    (\<forall>n. map_of (arq_in_flight (snd (arq_drain_expired now a))) n =
        map_option (\<lambda>p. if arq_rto a \<le> now - if_sent_at p
          then p\<lparr>if_sent_at := now, if_retransmits := if_retransmits p + 1\<rparr> else p) (map_of (arq_in_flight a) n)) \<and>
    arq_ok (snd (arq_drain_expired now a))"
proof (intro conjI allI)
  have d: "distinct (map fst (arq_in_flight a))" using assms by (simp add: arq_ok_def bt_ok_distinct)
  fix n d
  show "(n, d) \<in> set (fst (arq_drain_expired now a)) \<longleftrightarrow>
      (\<exists>p. map_of (arq_in_flight a) n = Some p \<and> if_data p = d \<and> arq_rto a \<le> now - if_sent_at p)"
    using map_of_eq_Some_iff [OF d] by (auto simp: arq_drain_expired_def Let_def)
next
  fix n
  show "map_of (arq_in_flight (snd (arq_drain_expired now a))) n =
      map_option (\<lambda>p. if arq_rto a \<le> now - if_sent_at p
        then p\<lparr>if_sent_at := now, if_retransmits := if_retransmits p + 1\<rparr> else p) (map_of (arq_in_flight a) n)"
    by (simp add: arq_drain_expired_def Let_def map_of_map)
next
  have keys: "map fst (arq_in_flight (snd (arq_drain_expired now a))) = map fst (arq_in_flight a)"
    by (simp add: arq_drain_expired_def Let_def case_prod_beta comp_def)
  show "arq_ok (snd (arq_drain_expired now a))"
    using assms keys by (auto simp: arq_ok_def bt_ok_def) (auto simp: arq_drain_expired_def Let_def millis_def secs_def)
qed

theorem arq_drain_expired_exact_witness:
  "(3, [7]) \<in> set (fst (arq_drain_expired (secs 1) (arq_on_sent 0 arq_new 3 [7])))"
proof -
  have "arq_ok (arq_on_sent 0 arq_new 3 [7])"
    by (intro arq.ok_sent) (simp add: arq_ok_def arq_new_def millis_def secs_def)
  from arq_drain_expired_exact [OF this, of "secs 1"] show ?thesis
    by (simp add: arq_on_sent_def arq_new_def secs_def millis_def)
qed

text \<open>Karn's rule: the acknowledgement of a retransmitted packet yields no sample and changes neither
  the smoothed round trip nor its variation nor the timeout.\<close>

theorem arq_karn:
  assumes "map_of (arq_in_flight a) n = Some p" and "if_retransmits p \<noteq> 0"
  shows "fst (arq_on_ack now a n) = Some (0, length (if_data p)) \<and>
    arq_srtt_us (snd (arq_on_ack now a n)) = arq_srtt_us a \<and>
    arq_rttvar_us (snd (arq_on_ack now a n)) = arq_rttvar_us a \<and> arq_rto (snd (arq_on_ack now a n)) = arq_rto a"
  using assms by (simp add: arq_on_ack_def Let_def)

theorem arq_karn_witness:
  "fst (arq_on_ack (secs 2) (snd (arq_drain_expired (secs 1) (arq_on_sent 0 arq_new 3 [7, 7]))) 3) = Some (0, 2)"
proof -
  have "map_of (arq_in_flight (snd (arq_drain_expired (secs 1) (arq_on_sent 0 arq_new 3 [7, 7])))) 3 =
      Some \<lparr>if_data = [7, 7], if_sent_at = secs 1, if_retransmits = 1\<rparr>"
    by (simp add: arq_drain_expired_def Let_def arq_on_sent_def arq_new_def secs_def millis_def)
  from arq_karn [OF this, of "secs 2"] show ?thesis by simp
qed

text \<open>RACK accounts for every packet: after any acknowledgements each packet that was in flight is
  still in flight, was acknowledged, or was reported lost.\<close>

theorem rack_accounts_for_all:
  assumes "rack_ok t"
  shows "let r = ack_all (\<lambda>now t n. (map fst (snd (fst (rack_on_ack now t n))), snd (rack_on_ack now t n))) t acks in
    set (fst r) \<subseteq> rack_flight t \<and> rack_flight (snd r) = rack_flight t - snd ` set acks - set (fst r)"
  using rack.ack_all_conserves [OF assms, of acks] by (simp add: Let_def)

theorem rack_accounts_for_all_witness:
  "let r = ack_all (\<lambda>now t n. (map fst (snd (fst (rack_on_ack now t n))), snd (rack_on_ack now t n)))
      (rack_on_sent 0 (rack_on_sent 0 rack_new 1 [9] 1) 2 [8] 1) [(5, 2)] in
   rack_flight (snd r) = rack_flight (rack_on_sent 0 (rack_on_sent 0 rack_new 1 [9] 1) 2 [8] 1) - {2} - set (fst r)"
proof -
  have "rack_ok (rack_on_sent 0 (rack_on_sent 0 rack_new 1 [9] 1) 2 [8] 1)"
    by (intro rack.ok_sent) (simp add: rack_ok_def rack_new_def)
  from rack_accounts_for_all [OF this, of "[(5, 2)]"] show ?thesis by (simp add: Let_def)
qed

end
