(* ===== verification/Ack_Ranges.thy ===== *)
theory Ack_Ranges
  imports Loss_Recovery
begin

text \<open>
  \<^verbatim>\<open>src/session/ack.rs\<close>: the set of received packet numbers and the ACK frame that reports it in ranges.
  The set is a strictly increasing list. The main result is that a peer who parses the frame reads off
  exactly the received numbers of the last 8192.
\<close>

section \<open>State and operations\<close>

definition ACK_RETAIN_WINDOW :: u64 where "ACK_RETAIN_WINDOW = 8192"

record ack_ranges =
  received :: "u64 list"
  largest_received_at :: "instant option"
  largest_received :: u64
  ack_pending :: bool

definition ack_new :: ack_ranges where
  "ack_new = \<lparr>received = [], largest_received_at = None, largest_received = 0, ack_pending = False\<rparr>"

definition prune_below :: "ack_ranges \<Rightarrow> u64 \<Rightarrow> ack_ranges" where
  "prune_below a threshold = a\<lparr>received := filter (\<lambda>x. x \<ge> threshold) (received a)\<rparr>"

fun set_insert :: "u64 \<Rightarrow> u64 list \<Rightarrow> u64 list" where
  "set_insert x [] = [x]"
| "set_insert x (y # ys) = (if x < y then x # y # ys else if x = y then y # ys else y # set_insert x ys)"

definition on_received :: "instant \<Rightarrow> ack_ranges \<Rightarrow> u64 \<Rightarrow> bool \<Rightarrow> ack_ranges" where
  "on_received now a pn ack_eliciting =
     (let a1 = (if pn > largest_received a \<or> received a = []
                then a\<lparr>largest_received := pn, largest_received_at := Some now\<rparr> else a);
          a2 = a1\<lparr>received := set_insert pn (received a1)\<rparr>;
          a3 = (if ack_eliciting then a2\<lparr>ack_pending := True\<rparr> else a2)
      in prune_below a3 (sat_sub (largest_received a3) ACK_RETAIN_WINDOW))"

fun range_loop :: "u64 list \<Rightarrow> u64 \<Rightarrow> u64 \<Rightarrow> (u64 \<times> u64) list \<Rightarrow> (u64 \<times> u64) list" where
  "range_loop [] cur_start cur_end ranges = ranges @ [(cur_start, cur_end)]"
| "range_loop (pn # pns) cur_start cur_end ranges =
     (if pn + 1 = cur_start then range_loop pns pn cur_end ranges
      else range_loop pns pn pn (ranges @ [(cur_start, cur_end)]))"

fun extra_bytes :: "u64 \<Rightarrow> (u64 \<times> u64) list \<Rightarrow> bytes" where
  "extra_bytes prev_start [] = []"
| "extra_bytes prev_start ((start, en) # rs) =
     u64_to_le (prev_start - en - 1) @ u64_to_le (en - start) @ extra_bytes start rs"

definition build_frame :: "instant \<Rightarrow> ack_ranges \<Rightarrow> bytes \<times> ack_ranges" where
  "build_frame now a =
     (if received a = [] then
        (u64_to_le 0 @ u64_to_le 0 @ u16_to_le 0 @ u64_to_le 0, a\<lparr>ack_pending := False\<rparr>)
      else
        let largest = last (received a);
            ack_delay_us = (case largest_received_at a of Some t \<Rightarrow> as_micros_u64 (now - t) | None \<Rightarrow> 0);
            ranges = range_loop (tl (rev (received a))) largest largest [];
            first_range_length = snd (hd ranges) - fst (hd ranges);
            extra_ranges = tl ranges;
            range_count = (of_nat (length extra_ranges) :: u16)
        in (u64_to_le largest @ u64_to_le ack_delay_us @ u16_to_le range_count @ u64_to_le first_range_length
              @ extra_bytes (fst (hd ranges)) extra_ranges,
            a\<lparr>ack_pending := False\<rparr>))"

section \<open>The peer's view\<close>

type_synonym ack_frame = "u64 \<times> u64 \<times> (u64 \<times> u64) list"

fun parse_extra :: "nat \<Rightarrow> bytes \<Rightarrow> nat \<Rightarrow> u64 \<Rightarrow> (u64 \<times> u64) list \<Rightarrow> (u64 \<times> u64) list option" where
  "parse_extra 0 frame off cur_start ranges = Some ranges"
| "parse_extra (Suc n) frame off cur_start ranges =
     (if length frame < off + 16 then None
      else
        let gap = of_le (slice frame off (off + 8));
            len = of_le (slice frame (off + 8) (off + 16)) in
        case checked_sub cur_start (gap + 1) of
          None \<Rightarrow> None
        | Some cur_end \<Rightarrow>
            (case checked_sub cur_end len of
               None \<Rightarrow> None
             | Some start \<Rightarrow> parse_extra n frame (off + 16) start (ranges @ [(start, cur_end)])))"

definition parse_ack_frame :: "bytes \<Rightarrow> ack_frame option" where
  "parse_ack_frame frame =
     (if length frame < 8 + 8 + 2 + 8 then None
      else
        let largest = of_le (slice frame 0 8);
            ack_delay_us = of_le (slice frame 8 16);
            range_count = unat (of_le (slice frame 16 18) :: u16);
            first_range_len = of_le (slice frame 18 26);
            cur_start = sat_sub largest first_range_len
        in map_option (\<lambda>ranges. (largest, ack_delay_us, ranges))
             (parse_extra range_count frame 26 cur_start [(cur_start, largest)]))"

section \<open>The set that is kept\<close>

lemma set_set_insert [simp]: "set (set_insert x xs) = insert x (set xs)"
  by (induction xs) auto

lemma sorted_set_insert: "sorted_wrt (<) xs \<Longrightarrow> sorted_wrt (<) (set_insert x xs)"
  by (induction xs) auto

definition ack_inv :: "ack_ranges \<Rightarrow> u64 list \<Rightarrow> bool" where
  "ack_inv a pns \<longleftrightarrow>
     sorted_wrt (<) (received a) \<and>
     (if pns = [] then received a = []
      else largest_received a = Max (set pns) \<and>
        set (received a) = {x \<in> set pns. unat (Max (set pns)) \<le> unat x + 8192})"

lemma ack_inv_new: "ack_inv ack_new []"
  by (simp add: ack_inv_def ack_new_def)

lemma prune_threshold: "sat_sub m ACK_RETAIN_WINDOW \<le> x \<longleftrightarrow> unat m \<le> unat x + 8192"
proof -
  have "unat (sat_sub m ACK_RETAIN_WINDOW) = unat m - 8192" by (simp add: unat_sat_sub ACK_RETAIN_WINDOW_def)
  then show ?thesis by (simp add: word_le_nat_alt le_diff_conv)
qed

lemma on_received_set:
  "set (received (on_received now a pn e)) =
     {x \<in> insert pn (set (received a)). unat (largest_received (on_received now a pn e)) \<le> unat x + 8192}"
  "largest_received (on_received now a pn e) =
     (if pn > largest_received a \<or> received a = [] then pn else largest_received a)"
  "sorted_wrt (<) (received a) \<Longrightarrow> sorted_wrt (<) (received (on_received now a pn e))"
  by (auto simp: on_received_def Let_def prune_below_def prune_threshold sorted_set_insert sorted_wrt_filter)

lemma ack_inv_step:
  assumes "ack_inv a pns"
  shows "ack_inv (on_received now a pn e) (pns @ [pn])"
proof (cases "pns = []")
  case True
  then show ?thesis
    using assms on_received_set [where now = now and a = a and pn = pn and e = e] by (auto simp: ack_inv_def)
next
  case False
  define m where "m = Max (set pns)"
  have a: "largest_received a = m" "set (received a) = {x \<in> set pns. unat m \<le> unat x + 8192}" "sorted_wrt (<) (received a)"
    using assms False by (auto simp: ack_inv_def m_def)
  have m: "m \<in> set pns" using False by (simp add: m_def)
  then have ne: "received a \<noteq> []" using a(2) by (cases "received a") auto
  have max: "Max (insert pn (set pns)) = max m pn" using False by (simp add: m_def max.commute)
  have big: "largest_received (on_received now a pn e) = max m pn"
    using on_received_set(2) [where now = now and a = a and pn = pn and e = e] a(1) ne by (auto simp: max_def)
  have "set (received (on_received now a pn e)) = {x \<in> set (pns @ [pn]). unat (max m pn) \<le> unat x + 8192}"
    unfolding on_received_set(1) big a(2) by (auto simp: max_def word_le_nat_alt split: if_splits)
  with big on_received_set(3) [OF a(3)] show ?thesis by (simp add: ack_inv_def max)
qed

definition receive_run :: "(instant \<times> u64 \<times> bool) list \<Rightarrow> ack_ranges" where
  "receive_run evs = fold (\<lambda>(now, pn, e) a. on_received now a pn e) evs ack_new"

lemma ack_inv_run: "ack_inv (receive_run evs) (map (fst \<circ> snd) evs)"
proof (induction evs rule: rev_induct)
  case Nil
  then show ?case by (simp add: receive_run_def ack_inv_new)
next
  case (snoc ev evs)
  then show ?case using ack_inv_step by (simp add: receive_run_def case_prod_beta)
qed

section \<open>The frame\<close>

text \<open>Ranges as the frame encodes them: descending, each non-empty, with a gap between any two.\<close>

fun gapped :: "(u64 \<times> u64) list \<Rightarrow> bool" where
  "gapped [] \<longleftrightarrow> True"
| "gapped [(s, e)] \<longleftrightarrow> s \<le> e"
| "gapped ((s, e) # (s', e') # rs) \<longleftrightarrow> s \<le> e \<and> unat e' + 1 < unat s \<and> gapped ((s', e') # rs)"

definition covered :: "(u64 \<times> u64) list \<Rightarrow> u64 set" where
  "covered rs = (\<Union>(s, e) \<in> set rs. {s..e})"

lemma range_loop_acc: "range_loop pns cs ce acc = acc @ range_loop pns cs ce []"
proof (induction pns arbitrary: cs ce acc)
  case (Cons pn pns)
  show ?case
    using Cons [of pn ce acc] Cons [of pn pn "acc @ [(cs, ce)]"] Cons [of pn pn "[(cs, ce)]"] by simp
qed simp

lemma range_loop_step:
  "range_loop (pn # pns) cs ce [] =
     (if pn + 1 = cs then range_loop pns pn ce [] else (cs, ce) # range_loop pns pn pn [])"
  using range_loop_acc [of pns pn pn "[(cs, ce)]"] by simp

lemma range_loop_hd: "\<exists>s rs. range_loop pns cs ce [] = (s, ce) # rs"
proof (induction pns arbitrary: cs)
  case (Cons pn pns)
  then show ?case by (simp only: range_loop_step) (cases "pn + 1 = cs"; simp)
qed simp

lemma length_range_loop: "length (range_loop pns cs ce []) \<le> Suc (length pns)"
proof (induction pns arbitrary: cs ce)
  case (Cons pn pns)
  then show ?case using Cons [of pn ce] Cons [of pn pn] by (simp only: range_loop_step) (simp add: le_SucI)
qed simp

lemma unat_pred: "pn < cs \<Longrightarrow> (pn + 1 = cs \<longleftrightarrow> Suc (unat pn) = unat cs)" for pn cs :: u64
proof -
  assume "pn < cs"
  then have "unat (pn + 1) = Suc (unat pn)"
    using unsigned_less [of cs, where 'a = nat] by (simp add: unat_word_ariths word_less_nat_alt)
  then show ?thesis by (metis word_unat_eq_iff)
qed

lemma range_loop_gapped:
  assumes "sorted_wrt (>) (cs # pns)" and "cs \<le> ce"
  shows "gapped (range_loop pns cs ce []) \<and> covered (range_loop pns cs ce []) = {cs..ce} \<union> set pns"
  using assms
proof (induction pns arbitrary: cs ce)
  case Nil
  then show ?case by (simp add: covered_def)
next
  case (Cons pn pns)
  have lt: "pn < cs" and sorted: "sorted_wrt (>) (pn # pns)" using Cons.prems(1) by auto
  show ?case
  proof (cases "pn + 1 = cs")
    case True
    then have "Suc (unat pn) = unat cs" using unat_pred [OF lt] by simp
    then have "{pn..ce} = insert pn {cs..ce}"
      using Cons.prems(2) by (auto simp: word_le_nat_alt word_unat_eq_iff)
    moreover have "pn \<le> ce" using lt Cons.prems(2) by simp
    ultimately show ?thesis
      using Cons.IH [OF sorted, of ce] True unfolding range_loop_step by auto
  next
    case False
    then have gap: "unat pn + 1 < unat cs" using unat_pred [OF lt] lt by (simp add: word_less_nat_alt)
    obtain s rs where hd: "range_loop pns pn pn [] = (s, pn) # rs" using range_loop_hd by blast
    show ?thesis
      using Cons.IH [OF sorted, of pn] Cons.prems(2) gap False hd unfolding range_loop_step
      by (auto simp: covered_def)
  qed
qed

lemma length_extra_bytes: "length (extra_bytes p rs) = 16 * length rs"
  by (induction p rs rule: extra_bytes.induct) simp_all

lemma parse_extra_bytes:
  assumes "gapped ((cs, ce) # rs)" and "length pre = off"
  shows "parse_extra (length rs) (pre @ extra_bytes cs rs) off cs acc = Some (acc @ rs)"
  using assms
proof (induction rs arbitrary: cs ce pre off acc)
  case Nil
  then show ?case by simp
next
  case (Cons r rs)
  obtain s e where r: "r = (s, e)" by force
  have "gapped ((cs, ce) # (s, e) # rs)" using Cons.prems(1) by (simp only: r)
  then have g13: "unat e + 1 < unat cs" "gapped ((s, e) # rs)" by simp_all
  have "s \<le> e" using g13(2) by (cases "(s, e) # rs" rule: gapped.cases) auto
  with g13 have g: "unat e + 1 < unat cs" "s \<le> e" "gapped ((s, e) # rs)" by simp_all
  have "e \<le> cs" using g(1) by (simp add: word_le_nat_alt)
  then have sub1: "checked_sub cs (cs - e) = Some e"
    by (simp add: checked_sub_def word_sub_le)
  have sub2: "checked_sub e (e - s) = Some s" using g(2) by (simp add: checked_sub_def word_sub_le)
  define frame where "frame = pre @ extra_bytes cs (r # rs)"
  have frame: "frame = (pre @ u64_to_le (cs - e - 1) @ u64_to_le (e - s)) @ extra_bytes s rs"
    by (simp add: frame_def r)
  have fields: "of_le (slice frame off (off + 8)) = cs - e - 1" "of_le (slice frame (off + 8) (off + 16)) = e - s"
    "\<not> length frame < off + 16"
    using Cons.prems(2) by (simp_all add: frame slice_def codec_simps)
  have "parse_extra (length (r # rs)) frame off cs acc = parse_extra (length rs) frame (off + 16) s (acc @ [r])"
    using fields sub1 sub2 by (simp add: r)
  also have "\<dots> = Some ((acc @ [r]) @ rs)"
    unfolding frame using g(3) Cons.prems(2) by (intro Cons.IH) simp_all
  finally show ?case by (simp add: frame_def)
qed

lemma received_bounded:
  assumes "ack_inv a pns"
  shows "length (received a) \<le> 8193"
proof (cases "pns = []")
  case False
  define m where "m = Max (set pns)"
  have a: "set (received a) = {x \<in> set pns. unat m \<le> unat x + 8192}" "sorted_wrt (<) (received a)"
    using assms False by (auto simp: ack_inv_def m_def)
  have "unat ` set (received a) \<subseteq> {unat m - 8192..unat m}"
    unfolding a(1) by (auto simp: m_def word_le_nat_alt [symmetric])
  then have "card (unat ` set (received a)) \<le> card {unat m - 8192..unat m}" by (intro card_mono) simp_all
  moreover have "card (unat ` set (received a)) = card (set (received a))"
    by (intro card_image) (simp add: inj_on_def word_unat_eq_iff)
  moreover have "card (set (received a)) = length (received a)"
    using a(2) by (simp add: distinct_card strict_sorted_iff)
  moreover have "card {unat m - 8192..unat m} \<le> 8193" by simp
  ultimately show ?thesis by linarith
qed (use assms in \<open>simp add: ack_inv_def\<close>)

lemma strict_last_Max: "sorted_wrt (<) xs \<Longrightarrow> xs \<noteq> [] \<Longrightarrow> last xs = Max (set xs)" for xs :: "u64 list"
proof -
  assume "sorted_wrt (<) xs" "xs \<noteq> []"
  moreover obtain ys y where "xs = ys @ [y]" using \<open>xs \<noteq> []\<close> by (cases xs rule: rev_cases) auto
  ultimately show ?thesis by (intro Max_eqI [symmetric]) (auto simp: sorted_wrt_append)
qed

lemma build_frame_parse:
  assumes "sorted_wrt (<) (received a)" and "received a \<noteq> []" and "length (received a) \<le> 65536"
  shows "\<exists>delay rs. parse_ack_frame (fst (build_frame now a)) = Some (last (received a), delay, rs) \<and>
     covered rs = set (received a)"
proof -
  define big where "big = last (received a)"
  define down where "down = tl (rev (received a))"
  define delay where "delay = (case largest_received_at a of Some t \<Rightarrow> as_micros_u64 (now - t) | None \<Rightarrow> 0)"
  have rev: "rev (received a) = big # down" using assms(2)
    by (cases "received a" rule: rev_cases) (simp_all add: big_def down_def)
  have sorted: "sorted_wrt (>) (big # down)"
    using assms(1) by (simp flip: rev add: sorted_wrt_rev)
  obtain s rs where rs: "range_loop down big big [] = (s, big) # rs" using range_loop_hd by blast
  have g: "gapped ((s, big) # rs)" "covered ((s, big) # rs) = {big} \<union> set down"
    using range_loop_gapped [OF sorted, of big] by (simp_all add: rs)
  have "s \<le> big" using g(1) by (cases rs) auto
  have count: "unat (of_nat (length rs) :: u16) = length rs"
  proof (rule unat_of_nat_id)
    have "length rs \<le> length down" using length_range_loop [of down big big] by (simp add: rs)
    also have "\<dots> < 65536" using assms(3) rev [THEN arg_cong [of _ _ length]] by simp
    finally show "length rs < 2 ^ LENGTH(16)" by simp
  qed
  define pre where "pre = u64_to_le big @ u64_to_le delay @ u16_to_le (of_nat (length rs)) @ u64_to_le (big - s)"
  have frame: "fst (build_frame now a) = pre @ extra_bytes s rs"
    using assms(2) by (simp add: build_frame_def Let_def big_def [symmetric] down_def [symmetric] delay_def [symmetric] rs pre_def)
  have pre: "length pre = 26" by (simp add: pre_def)
  have start: "sat_sub big (big - s) = s" using \<open>s \<le> big\<close> by (simp add: sat_sub_def word_sub_le)
  have "parse_ack_frame (pre @ extra_bytes s rs) = Some (big, delay, (s, big) # rs)"
    using parse_extra_bytes [OF g(1) pre, of "[(s, big)]"] pre start count
    by (simp add: parse_ack_frame_def Let_def) (simp add: pre_def slice_def codec_simps)
  moreover have "set (received a) = {big} \<union> set down" using rev by (metis insert_is_Un list.simps(15) set_rev)
  ultimately show ?thesis using g(2) frame by (auto simp: big_def)
qed

text \<open>C23: The ACK frame is exact. After any sequence of received packet numbers, in any order and with any
  repetitions, the frame parses at the peer, names the largest number, and its ranges cover exactly the
  numbers received that are at most 8192 below the largest: no lost packet is ever acknowledged and none of those is missed.\<close>

theorem ack_frame_exact:
  assumes "evs \<noteq> []"
  shows "\<exists>delay rs. parse_ack_frame (fst (build_frame now (receive_run evs))) =
      Some (Max (fst ` snd ` set evs), delay, rs) \<and>
    covered rs = {x \<in> fst ` snd ` set evs. unat (Max (fst ` snd ` set evs)) \<le> unat x + 8192}"
proof -
  define a pns where "a = receive_run evs" and "pns = map (fst \<circ> snd) evs"
  have inv: "ack_inv a pns" unfolding a_def pns_def by (rule ack_inv_run)
  have ne: "pns \<noteq> []" and set: "set pns = fst ` snd ` set evs" using assms by (simp_all add: pns_def image_comp)
  have rec: "set (received a) = {x \<in> set pns. unat (Max (set pns)) \<le> unat x + 8192}" "sorted_wrt (<) (received a)"
    using inv ne by (auto simp: ack_inv_def)
  have mem: "Max (set pns) \<in> set (received a)" using ne rec(1) by simp
  then have nonempty: "received a \<noteq> []" by auto
  have "last (received a) = Max (set (received a))"
    using rec(2) nonempty by (rule strict_last_Max)
  also have "\<dots> = Max (set pns)"
    using mem ne by (intro Max_eqI) (auto simp: rec(1))
  finally have "last (received a) = Max (set pns)" .
  with build_frame_parse [OF rec(2) nonempty, of now] received_bounded [OF inv] rec(1) show ?thesis
    by (auto simp: a_def set)
qed

theorem ack_frame_exact_witness:
  "\<exists>delay rs. parse_ack_frame (fst (build_frame 90 (receive_run [(1, 5, True), (2, 3, False), (4, 4, True)]))) =
     Some (5, delay, rs) \<and> covered rs = {3, 4, 5}"
proof -
  have m: "Max (fst ` snd ` set [(1 :: nat, 5 :: u64, True), (2, 3, False), (4, 4, True)]) = 5"
    by (simp add: max_def)
  have s: "{x \<in> fst ` snd ` set [(1 :: nat, 5 :: u64, True), (2, 3, False), (4, 4, True)]. unat (5 :: u64) \<le> unat x + 8192} = {3, 4, 5}"
    by auto
  show ?thesis using ack_frame_exact [of "[(1, 5, True), (2, 3, False), (4, 4, True)]" 90] unfolding m s by blast
qed

end
