(* ===== verification/Seam_Stream.thy ===== *)
theory Seam_Stream
  imports Seam_Prelude
begin

text \<open>
  \<^verbatim>\<open>src/session/stream.rs\<close>: one reliable ordered byte stream. The send side cuts buffered bytes into
  chunks with their offsets; the receive side keeps out-of-order segments in a map by offset and reads
  the contiguous prefix. The main result is that chunks delivered in any order, with repetitions, read
  back as the bytes written, when reads take whole segments; two further theorems show what happens
  when they do not, and when segments overlap.
\<close>

section \<open>State\<close>

type_synonym sid = u32
type_synonym priority = u8

definition PRIORITY_HIGH :: priority where "PRIORITY_HIGH = 0"
definition PRIORITY_DEFAULT :: priority where "PRIORITY_DEFAULT = 4"
definition PRIORITY_LOW :: priority where "PRIORITY_LOW = 7"

record seam_stream =
  st_id :: sid
  st_priority :: priority
  send_buf :: bytes
  send_offset :: u64
  send_unacked_offset :: u64
  send_max_data :: u64
  recv_offset :: u64
  recv_buf :: "(u64, bytes) btree"
  recv_max_data :: u64
  recv_buffered :: u64
  fin_received :: "u64 option"
  fin_sent :: bool
  fin_flushed :: bool

definition STREAM_WINDOW :: u64 where "STREAM_WINDOW = 16 * 1024 * 1024"

definition stream_new :: "sid \<Rightarrow> seam_stream" where
  "stream_new i =
     \<lparr>st_id = i, st_priority = PRIORITY_DEFAULT, send_buf = [], send_offset = 0, send_unacked_offset = 0,
      send_max_data = STREAM_WINDOW, recv_offset = 0, recv_buf = [], recv_max_data = STREAM_WINDOW,
      recv_buffered = 0, fin_received = None, fin_sent = False, fin_flushed = False\<rparr>"

definition extend_send_window :: "seam_stream \<Rightarrow> u64 \<Rightarrow> seam_stream" where
  "extend_send_window s new_limit = (if new_limit > send_max_data s then s\<lparr>send_max_data := new_limit\<rparr> else s)"

definition send_window_remaining :: "seam_stream \<Rightarrow> u64" where
  "send_window_remaining s = sat_sub (send_max_data s) (send_offset s)"

definition set_recv_limit :: "seam_stream \<Rightarrow> u64 \<Rightarrow> seam_stream" where
  "set_recv_limit s limit = s\<lparr>recv_max_data := limit\<rparr>"

section \<open>Send side\<close>

definition stream_write :: "seam_stream \<Rightarrow> bytes \<Rightarrow> (seam_error + u64) \<times> seam_stream" where
  "stream_write s dat =
     (if fin_sent s then (Inl (StreamFinished (st_id s)), s)
      else if sat_add (send_offset s) (of_nat (length dat)) > send_max_data s
      then (Inl (FlowControlBlocked (sat_sub (send_max_data s) (send_offset s)) (of_nat (length dat))), s)
      else (Inr (send_offset s),
            s\<lparr>send_buf := send_buf s @ dat, send_offset := send_offset s + of_nat (length dat)\<rparr>))"

definition stream_finish :: "seam_stream \<Rightarrow> seam_stream" where
  "stream_finish s = s\<lparr>fin_sent := True\<rparr>"

definition should_send_fin :: "seam_stream \<Rightarrow> bool" where
  "should_send_fin s \<longleftrightarrow> fin_sent s \<and> \<not> fin_flushed s \<and> send_buf s = []"

definition mark_fin_flushed :: "seam_stream \<Rightarrow> seam_stream" where
  "mark_fin_flushed s = s\<lparr>fin_flushed := True\<rparr>"

definition poll_send :: "seam_stream \<Rightarrow> nat \<Rightarrow> (u64 \<times> bytes) option \<times> seam_stream" where
  "poll_send s max_bytes =
     (if send_buf s = [] then (None, s)
      else
        let tk = min (length (send_buf s)) max_bytes;
            offset = send_offset s - of_nat (length (send_buf s))
        in (Some (offset, take tk (send_buf s)), s\<lparr>send_buf := drop tk (send_buf s)\<rparr>))"

definition stream_on_ack :: "seam_stream \<Rightarrow> u64 \<Rightarrow> seam_stream" where
  "stream_on_ack s acked_offset =
     (if acked_offset > send_unacked_offset s then s\<lparr>send_unacked_offset := acked_offset\<rparr> else s)"

section \<open>Receive side\<close>

definition stream_receive :: "seam_stream \<Rightarrow> u64 \<Rightarrow> bytes \<Rightarrow> bool \<Rightarrow> (seam_error + unit) \<times> seam_stream" where
  "stream_receive s offset dat is_fin =
     (let s1 = (if is_fin then s\<lparr>fin_received := Some (offset + of_nat (length dat))\<rparr> else s) in
      if dat = [] then (Inr (), s1)
      else if offset + of_nat (length dat) \<le> recv_offset s1 then (Inr (), s1)
      else
        let high_offset = offset + of_nat (length dat) in
        if high_offset > recv_max_data s1
        then (Inl (FlowControlBlocked (sat_sub (recv_max_data s1) (recv_offset s1))
                     (sat_sub high_offset (recv_offset s1))), s1)
        else (Inr (), s1\<lparr>recv_buffered := sat_add (recv_buffered s1) (of_nat (length dat)),
                         recv_buf := bt_insert offset dat (recv_buf s1)\<rparr>))"

text \<open>The loop of \<^verbatim>\<open>read\<close> takes the first segment of the map each time round; slicing past the end of a
  segment panics.\<close>

fun read_loop ::
  "nat \<Rightarrow> (u64, bytes) btree \<Rightarrow> u64 \<Rightarrow> bytes \<Rightarrow> nat \<Rightarrow> ((u64, bytes) btree \<times> u64 \<times> bytes \<times> nat) outcome" where
  "read_loop max_bytes [] ro out rd = Return ([], ro, out, rd)"
| "read_loop max_bytes ((offset, dat) # m) ro out rd =
     (if \<not> rd < max_bytes then Return ((offset, dat) # m, ro, out, rd)
      else if offset > ro then Return ((offset, dat) # m, ro, out, rd)
      else
        let skip = unat (ro - offset) in
        if skip > length dat then Panic
        else
          let slc = drop skip dat;
              tk = min (length slc) (max_bytes - rd)
          in read_loop max_bytes m (ro + of_nat tk) (out @ take tk slc) (rd + tk))"

definition stream_read :: "seam_stream \<Rightarrow> bytes \<Rightarrow> nat \<Rightarrow> (nat \<times> bytes \<times> seam_stream) outcome" where
  "stream_read s out max_bytes =
     obind (read_loop max_bytes (recv_buf s) (recv_offset s) out 0) (\<lambda>(m, ro, out', rd).
       Return (rd, out', s\<lparr>recv_buf := m, recv_offset := ro\<rparr>))"

definition is_recv_finished :: "seam_stream \<Rightarrow> bool" where
  "is_recv_finished s \<longleftrightarrow> (case fin_received s of Some fin_off \<Rightarrow> recv_offset s \<ge> fin_off | None \<Rightarrow> False)"

definition is_send_finished :: "seam_stream \<Rightarrow> bool" where
  "is_send_finished s \<longleftrightarrow> fin_sent s \<and> send_unacked_offset s \<ge> send_offset s"

section \<open>Chunks of a byte string\<close>

text \<open>A byte string cut into non-empty chunks \<open>cs\<close>; chunk \<open>i\<close> starts at \<open>chunk_off cs i\<close>.\<close>

definition chunk_off :: "bytes list \<Rightarrow> nat \<Rightarrow> nat" where
  "chunk_off cs i = length (concat (take i cs))"

definition chunks_ok :: "bytes list \<Rightarrow> bool" where
  "chunks_ok cs \<longleftrightarrow> [] \<notin> set cs \<and> length (concat cs) < 2 ^ 63"

lemma chunk_off_0 [simp]: "chunk_off cs 0 = 0"
  by (simp add: chunk_off_def)

lemma chunk_off_Suc: "i < length cs \<Longrightarrow> chunk_off cs (Suc i) = chunk_off cs i + length (cs ! i)"
  by (simp add: chunk_off_def take_Suc_conv_app_nth)

lemma chunk_off_mono: "i \<le> j \<Longrightarrow> chunk_off cs i \<le> chunk_off cs j"
proof -
  assume "i \<le> j"
  then have "take j cs = take i cs @ take (j - i) (drop i cs)" by (metis le_add_diff_inverse take_add)
  then show ?thesis by (simp add: chunk_off_def)
qed

lemma chunk_off_le: "chunk_off cs i \<le> length (concat cs)"
proof -
  have "concat cs = concat (take i cs) @ concat (drop i cs)" by (metis append_take_drop_id concat_append)
  then show ?thesis by (simp add: chunk_off_def)
qed

lemma chunk_off_less:
  assumes "chunks_ok cs" "i < j" "j \<le> length cs"
  shows "chunk_off cs i < chunk_off cs j"
proof -
  have "cs ! i \<in> set cs" using assms by simp
  then have "cs ! i \<noteq> []" using assms(1) by (metis chunks_ok_def)
  then have "chunk_off cs i < chunk_off cs (Suc i)" using assms by (simp add: chunk_off_Suc)
  also have "\<dots> \<le> chunk_off cs j" using assms by (intro chunk_off_mono) simp
  finally show ?thesis .
qed

definition woff :: "bytes list \<Rightarrow> nat \<Rightarrow> u64" where
  "woff cs i = of_nat (chunk_off cs i)"

lemma unat_woff: "chunks_ok cs \<Longrightarrow> unat (woff cs i) = chunk_off cs i"
  using chunk_off_le [of cs i] unfolding woff_def chunks_ok_def by (intro unat_of_nat_id) simp

lemma woff_less:
  "chunks_ok cs \<Longrightarrow> i \<le> length cs \<Longrightarrow> j \<le> length cs \<Longrightarrow> woff cs i < woff cs j \<longleftrightarrow> i < j"
  by (metis chunk_off_less chunk_off_mono linorder_not_le unat_woff word_less_nat_alt word_le_nat_alt)

lemma woff_eq:
  "chunks_ok cs \<Longrightarrow> i \<le> length cs \<Longrightarrow> j \<le> length cs \<Longrightarrow> woff cs i = woff cs j \<longleftrightarrow> i = j"
  using woff_less by (metis less_irrefl linorder_neqE_nat)

lemma woff_Suc: "i < length cs \<Longrightarrow> woff cs i + of_nat (length (cs ! i)) = woff cs (Suc i)"
  by (simp add: woff_def chunk_off_Suc)

section \<open>Reassembly\<close>

text \<open>The segments of the indices in \<open>is\<close>, and how many of them a read consumes from position \<open>j\<close>.\<close>

definition segments :: "bytes list \<Rightarrow> nat list \<Rightarrow> (u64, bytes) btree" where
  "segments cs is = map (\<lambda>i. (woff cs i, cs ! i)) is"

fun index_insert :: "nat \<Rightarrow> nat list \<Rightarrow> nat list" where
  "index_insert i [] = [i]"
| "index_insert i (j # js) = (if i < j then i # j # js else if i = j then i # js else j # index_insert i js)"

fun consume :: "nat \<Rightarrow> nat list \<Rightarrow> nat \<times> nat list" where
  "consume j [] = (j, [])"
| "consume j (i # is) = (if i = j then consume (Suc j) is else (j, i # is))"

lemma index_insert_set [simp]: "set (index_insert i js) = insert i (set js)"
  by (induction js) auto

lemma index_insert_sorted: "sorted_wrt (<) js \<Longrightarrow> sorted_wrt (<) (index_insert i js)"
  by (induction js) auto

lemma bt_insert_segments:
  assumes "chunks_ok cs" "i < length cs" "\<forall>j \<in> set js. j < length cs"
  shows "bt_insert (woff cs i) (cs ! i) (segments cs js) = segments cs (index_insert i js)"
  using assms(3)
proof (induction js)
  case (Cons j js)
  then have "woff cs i < woff cs j \<longleftrightarrow> i < j" "woff cs i = woff cs j \<longleftrightarrow> i = j"
    using assms woff_less [of cs i j] woff_eq [of cs i j] by simp_all
  with Cons show ?case by (simp add: segments_def)
qed (simp add: segments_def)

lemma slice_concat_step:
  assumes "j < length cs" "Suc j \<le> k"
  shows "cs ! j @ slice (concat cs) (chunk_off cs (Suc j)) (chunk_off cs k) =
    slice (concat cs) (chunk_off cs j) (chunk_off cs k)"
proof -
  have split: "concat cs = concat (take j cs) @ cs ! j @ concat (drop (Suc j) cs)"
    using assms(1) by (metis append_take_drop_id concat_append Cons_nth_drop_Suc concat.simps(2))
  have off: "chunk_off cs (Suc j) = chunk_off cs j + length (cs ! j)" using assms(1) by (rule chunk_off_Suc)
  have le: "chunk_off cs (Suc j) \<le> chunk_off cs k" using assms(2) by (rule chunk_off_mono)
  have d1: "drop (chunk_off cs j) (concat cs) = cs ! j @ concat (drop (Suc j) cs)"
    by (subst split) (simp add: chunk_off_def)
  have d2: "drop (chunk_off cs (Suc j)) (concat cs) = concat (drop (Suc j) cs)"
    unfolding off using d1 by (metis append_eq_conv_conj drop_drop add.commute)
  show ?thesis unfolding slice_def d1 d2 using le off by simp
qed

lemma consume_props:
  assumes "consume j is = (j', is')" "sorted_wrt (<) is" "\<forall>i \<in> set is. j \<le> i \<and> i < n" "j \<le> n"
  shows "j \<le> j' \<and> j' \<le> n \<and> set is = {j..<j'} \<union> set is' \<and> (\<forall>i \<in> set is'. j' < i) \<and> sorted_wrt (<) is'"
  using assms
proof (induction j "is" rule: consume.induct)
  case (2 j i "is")
  show ?case
  proof (cases "i = j")
    case True
    then have "Suc j \<le> j' \<and> j' \<le> n \<and> set is = {Suc j..<j'} \<union> set is' \<and> (\<forall>i \<in> set is'. j' < i) \<and> sorted_wrt (<) is'"
      using 2 by (intro 2(1)) auto
    moreover from this have "{j..<j'} = insert j {Suc j..<j'}" by auto
    ultimately show ?thesis using True by auto
  next
    case False
    with 2(2-) have "j' = j" "is' = i # is" "j < i" by auto
    with 2(3,5) show ?thesis by auto
  qed
qed simp

lemma read_loop_segments:
  assumes "chunks_ok cs" "sorted_wrt (<) is" "\<forall>i \<in> set is. j \<le> i \<and> i < length cs" "j \<le> length cs"
    and "rd + (length (concat cs) - chunk_off cs j) \<le> mx" "consume j is = (j', is')"
  shows "read_loop mx (segments cs is) (woff cs j) out rd =
    Return (segments cs is', woff cs j', out @ slice (concat cs) (chunk_off cs j) (chunk_off cs j'),
      rd + (chunk_off cs j' - chunk_off cs j))"
  using assms(2-)
proof (induction "is" arbitrary: j out rd)
  case Nil
  then show ?case by (simp add: segments_def slice_def)
next
  case (Cons i "is")
  have i: "i < length cs" "j \<le> i" using Cons.prems(2) by simp_all
  have seg: "segments cs (i # is) = (woff cs i, cs ! i) # segments cs is" by (simp add: segments_def)
  show ?case
  proof (cases "i = j")
    case False
    then have "woff cs j < woff cs i" using i assms(1) Cons.prems(3) by (subst woff_less) simp_all
    moreover have "j' = j" "is' = i # is" using False Cons.prems(5) by auto
    ultimately show ?thesis by (simp add: seg slice_def)
  next
    case True
    have lt: "chunk_off cs j < chunk_off cs (Suc j)" using assms(1) i True by (intro chunk_off_less) simp_all
    have step: "chunk_off cs (Suc j) = chunk_off cs j + length (cs ! j)" using i True by (simp add: chunk_off_Suc)
    have le: "chunk_off cs (Suc j) \<le> length (concat cs)" by (rule chunk_off_le)
    have go: "rd < mx" "min (length (cs ! j)) (mx - rd) = length (cs ! j)"
      using Cons.prems(4) lt step le by linarith+
    have w: "woff cs j + of_nat (length (cs ! j)) = woff cs (Suc j)" using i True by (simp add: woff_Suc)
    have c: "consume (Suc j) is = (j', is')" using Cons.prems(5) True by simp
    have ge: "\<forall>i \<in> set is. Suc j \<le> i \<and> i < length cs" using Cons.prems(1,2) True by fastforce
    have j': "Suc j \<le> j'" using consume_props [OF c _ ge] Cons.prems(1) i True by simp
    have "read_loop mx (segments cs is) (woff cs (Suc j)) (out @ cs ! j) (rd + length (cs ! j)) =
        Return (segments cs is', woff cs j', (out @ cs ! j) @ slice (concat cs) (chunk_off cs (Suc j)) (chunk_off cs j'),
          rd + length (cs ! j) + (chunk_off cs j' - chunk_off cs (Suc j)))"
      using Cons.prems(1,4) ge i True step le c by (intro Cons.IH) simp_all
    moreover have "rd + length (cs ! j) + (chunk_off cs j' - chunk_off cs (Suc j)) = rd + (chunk_off cs j' - chunk_off cs j)"
      using step chunk_off_mono [OF j', of cs] by simp
    moreover have "cs ! j @ slice (concat cs) (chunk_off cs (Suc j)) (chunk_off cs j') =
        slice (concat cs) (chunk_off cs j) (chunk_off cs j')"
      using i True j' by (intro slice_concat_step) simp_all
    moreover have "segments cs (j # is) = (woff cs j, cs ! j) # segments cs is" by (simp add: segments_def)
    ultimately show ?thesis using go w True by simp
  qed
qed

text \<open>The receiving stream after the arrivals \<open>A\<close>, with the first \<open>j\<close> chunks already read.\<close>

definition reassembling :: "bytes list \<Rightarrow> nat set \<Rightarrow> nat \<Rightarrow> seam_stream \<Rightarrow> bool" where
  "reassembling cs A j s \<longleftrightarrow>
     (\<exists>is. recv_buf s = segments cs is \<and> sorted_wrt (<) is \<and> set is = {i \<in> A. j \<le> i}) \<and>
     recv_offset s = woff cs j \<and> j \<le> length cs \<and> {..<j} \<subseteq> A \<and> A \<subseteq> {..<length cs} \<and>
     of_nat (length (concat cs)) \<le> recv_max_data s"

lemma reassembling_receive:
  assumes cs: "chunks_ok cs" and r: "reassembling cs A j s" and i: "i < length cs"
  shows "fst (stream_receive s (woff cs i) (cs ! i) False) = Inr () \<and>
    reassembling cs (insert i A) j (snd (stream_receive s (woff cs i) (cs ! i) False))"
proof -
  obtain "is" where s: "recv_buf s = segments cs is" "sorted_wrt (<) is" "set is = {i \<in> A. j \<le> i}"
    "recv_offset s = woff cs j" "j \<le> length cs" "{..<j} \<subseteq> A" "A \<subseteq> {..<length cs}"
    "of_nat (length (concat cs)) \<le> recv_max_data s"
    using r by (auto simp: reassembling_def)
  have ne: "cs ! i \<noteq> []" using cs i by (metis chunks_ok_def nth_mem)
  have high: "woff cs i + of_nat (length (cs ! i)) = woff cs (Suc i)" using i by (rule woff_Suc)
  have "woff cs (Suc i) \<le> of_nat (length (concat cs))"
  proof -
    have "unat (of_nat (length (concat cs)) :: u64) = length (concat cs)"
      using cs by (intro unat_of_nat_id) (simp add: chunks_ok_def)
    then show ?thesis using chunk_off_le [of cs "Suc i"] by (simp add: word_le_nat_alt unat_woff [OF cs])
  qed
  then have room: "\<not> recv_max_data s < woff cs (Suc i)" using s(8) by simp
  have old: "woff cs (Suc i) \<le> woff cs j \<longleftrightarrow> i < j"
    using woff_less [OF cs, of j "Suc i"] i s(5) by (auto simp: not_less [symmetric])
  show ?thesis
  proof (cases "i < j")
    case True
    then have "insert i A = A" using s(6) by auto
    with True r ne high old s(4) show ?thesis by (simp add: stream_receive_def)
  next
    case False
    have ins: "bt_insert (woff cs i) (cs ! i) (recv_buf s) = segments cs (index_insert i is)"
      unfolding s(1) using s(3,7) by (intro bt_insert_segments [OF cs i]) auto
    have set: "set (index_insert i is) = {n \<in> insert i A. j \<le> n}"
      unfolding index_insert_set s(3) using False by auto
    have sub: "{..<j} \<subseteq> insert i A" "insert i A \<subseteq> {..<length cs}" using s(6,7) i by auto
    have "reassembling cs (insert i A) j
        (s\<lparr>recv_buffered := b, recv_buf := bt_insert (woff cs i) (cs ! i) (recv_buf s)\<rparr>)" for b
      unfolding reassembling_def ins using index_insert_sorted [OF s(2), of i] set sub s(4,5,8)
      by (intro conjI exI [of _ "index_insert i is"]) simp_all
    with False ne high old room s(4) show ?thesis by (simp add: stream_receive_def Let_def)
  qed
qed

lemma reassembling_read:
  assumes cs: "chunks_ok cs" and r: "reassembling cs A j s" and mx: "length (concat cs) \<le> mx"
  obtains j' s' where "stream_read s out mx =
      Return (chunk_off cs j' - chunk_off cs j, out @ slice (concat cs) (chunk_off cs j) (chunk_off cs j'), s')"
    "reassembling cs A j' s'" "j \<le> j'" "j' \<notin> A"
proof -
  obtain "is" where s: "recv_buf s = segments cs is" "sorted_wrt (<) is" "set is = {i \<in> A. j \<le> i}"
    "recv_offset s = woff cs j" "j \<le> length cs" "{..<j} \<subseteq> A" "A \<subseteq> {..<length cs}"
    "of_nat (length (concat cs)) \<le> recv_max_data s"
    using r by (auto simp: reassembling_def)
  obtain j' is' where c: "consume j is = (j', is')" by force
  have all: "\<forall>i \<in> set is. j \<le> i \<and> i < length cs" using s(3,7) by auto
  note p = consume_props [OF c s(2) all s(5)]
  have loop: "read_loop mx (recv_buf s) (recv_offset s) out 0 =
      Return (segments cs is', woff cs j', out @ slice (concat cs) (chunk_off cs j) (chunk_off cs j'),
        0 + (chunk_off cs j' - chunk_off cs j))"
    unfolding s(1,4) using mx by (intro read_loop_segments [OF cs s(2) all s(5) _ c]) simp
  have is': "set is' = {i \<in> A. j' \<le> i}" "{..<j'} \<subseteq> A" "j' \<notin> A"
  proof -
    have eq: "{i \<in> A. j \<le> i} = {j..<j'} \<union> set is'" using p s(3) by simp
    have iff: "x \<in> A \<and> j \<le> x \<longleftrightarrow> j \<le> x \<and> x < j' \<or> x \<in> set is'" for x using eq by (auto simp: set_eq_iff)
    have up: "j' < x" if "x \<in> set is'" for x using p that by blast
    show "set is' = {i \<in> A. j' \<le> i}"
    proof (rule set_eqI)
      fix x show "x \<in> set is' \<longleftrightarrow> x \<in> {i \<in> A. j' \<le> i}" using iff [of x] up [of x] p by auto
    qed
    show "{..<j'} \<subseteq> A"
    proof
      fix x assume "x \<in> {..<j'}"
      then show "x \<in> A" using iff [of x] s(6) by (cases "j \<le> x") auto
    qed
    show "j' \<notin> A" using iff [of j'] up [of j'] p by auto
  qed
  then have "reassembling cs A j' (s\<lparr>recv_buf := segments cs is', recv_offset := woff cs j'\<rparr>)"
    unfolding reassembling_def using p s(7,8) by auto
  with loop p is'(3) show ?thesis by (intro that) (simp_all add: stream_read_def)
qed

section \<open>From one end to the other\<close>

text \<open>Draining a stream's send buffer in chunks of at most \<open>mx\<close> bytes.\<close>

function poll_all :: "seam_stream \<Rightarrow> nat \<Rightarrow> (u64 \<times> bytes) list" where
  "poll_all s mx =
     (if mx = 0 then []
      else case poll_send s mx of (None, _) \<Rightarrow> [] | (Some x, s') \<Rightarrow> x # poll_all s' mx)"
  by pat_completeness auto
termination
  by (relation "measure (\<lambda>(s, mx). length (send_buf s))")
    (auto simp: poll_send_def Let_def split: if_splits)

declare poll_all.simps [simp del]

lemma poll_all_chunks:
  assumes "0 < mx"
  shows "concat (map snd (poll_all s mx)) = send_buf s \<and> [] \<notin> set (map snd (poll_all s mx)) \<and>
    (\<forall>i < length (poll_all s mx). poll_all s mx ! i =
       (send_offset s - of_nat (length (send_buf s)) + of_nat (chunk_off (map snd (poll_all s mx)) i),
        map snd (poll_all s mx) ! i))"
  using assms
proof (induction s mx rule: poll_all.induct)
  case (1 s mx)
  show ?case
  proof (cases "send_buf s = []")
    case True
    then have "poll_all s mx = []" by (subst poll_all.simps) (simp add: poll_send_def)
    with True show ?thesis by simp
  next
    case False
    define tk where "tk = min (length (send_buf s)) mx"
    define s' where "s' = s\<lparr>send_buf := drop tk (send_buf s)\<rparr>"
    define x where "x = (send_offset s - of_nat (length (send_buf s)), take tk (send_buf s))"
    have tk: "0 < tk" "tk \<le> length (send_buf s)" using False 1(2) by (simp_all add: tk_def)
    have poll: "poll_send s mx = (Some x, s')" using False by (simp add: poll_send_def Let_def x_def s'_def tk_def)
    have step: "poll_all s mx = x # poll_all s' mx" using 1(2) poll by (subst poll_all.simps) simp
    have IH: "concat (map snd (poll_all s' mx)) = send_buf s'" "[] \<notin> set (map snd (poll_all s' mx))"
      "\<And>i. i < length (poll_all s' mx) \<Longrightarrow> poll_all s' mx ! i =
         (send_offset s' - of_nat (length (send_buf s')) + of_nat (chunk_off (map snd (poll_all s' mx)) i),
          map snd (poll_all s' mx) ! i)"
      using 1(1) [OF _ poll [symmetric]] 1(2) by auto
    have off: "send_offset s' - of_nat (length (send_buf s')) = send_offset s - of_nat (length (send_buf s)) + of_nat tk"
      using tk(2) by (simp add: s'_def of_nat_diff)
    have "poll_all s mx ! i =
       (send_offset s - of_nat (length (send_buf s)) + of_nat (chunk_off (map snd (poll_all s mx)) i),
        map snd (poll_all s mx) ! i)" if "i < length (poll_all s mx)" for i
    proof (cases i)
      case 0
      then show ?thesis by (simp add: step x_def)
    next
      case (Suc j)
      have "chunk_off (map snd (poll_all s mx)) (Suc j) = tk + chunk_off (map snd (poll_all s' mx)) j"
        using tk(2) by (simp add: step chunk_off_def x_def)
      with Suc that IH(3) [of j] off show ?thesis by (simp add: step ac_simps)
    qed
    moreover have "take tk (send_buf s) \<noteq> []" using tk by auto
    ultimately show ?thesis using IH(1,2) by (auto simp: step x_def s'_def)
  qed
qed

datatype stream_event = Arrive nat | ReadAll

fun deliver :: "(u64 \<times> bytes) list \<Rightarrow> nat \<Rightarrow> seam_stream \<Rightarrow> bytes \<Rightarrow> stream_event list \<Rightarrow> (bytes \<times> seam_stream) outcome" where
  "deliver segs mx s out [] = Return (out, s)"
| "deliver segs mx s out (Arrive i # es) =
     deliver segs mx (snd (stream_receive s (fst (segs ! i)) (snd (segs ! i)) False)) out es"
| "deliver segs mx s out (ReadAll # es) =
     obind (stream_read s out mx) (\<lambda>(_, out', s'). deliver segs mx s' out' es)"

definition arrivals :: "stream_event list \<Rightarrow> nat set" where
  "arrivals es = {i. Arrive i \<in> set es}"

lemma slice_from_0: "slice xs 0 n = take n xs"
  by (simp add: slice_def)

lemma deliver_prefix:
  assumes "chunks_ok cs" "reassembling cs A j s" "out = take (chunk_off cs j) (concat cs)"
    and "length (concat cs) \<le> mx" "arrivals es \<subseteq> {..<length cs}"
    and "\<And>i. i < length cs \<Longrightarrow> segs ! i = (woff cs i, cs ! i)"
  shows "\<exists>j' s'. deliver segs mx s out es = Return (take (chunk_off cs j') (concat cs), s') \<and>
    reassembling cs (A \<union> arrivals es) j' s' \<and> (es \<noteq> [] \<and> last es = ReadAll \<longrightarrow> j' \<notin> A \<union> arrivals es)"
  using assms(2-5)
proof (induction es arbitrary: A j s out)
  case Nil
  then show ?case by (auto simp: arrivals_def)
next
  case (Cons e es)
  show ?case
  proof (cases e)
    case (Arrive i)
    then have i: "i < length cs" and arr: "arrivals es \<subseteq> {..<length cs}" "A \<union> arrivals (e # es) = insert i A \<union> arrivals es"
      using Cons.prems(4) by (auto simp: arrivals_def)
    define s1 where "s1 = snd (stream_receive s (woff cs i) (cs ! i) False)"
    have "reassembling cs (insert i A) j s1"
      using reassembling_receive [OF assms(1) Cons.prems(1) i] by (simp add: s1_def)
    from Cons.IH [OF this Cons.prems(2,3) arr(1)] show ?thesis
      unfolding arr(2) by (auto simp: Arrive assms(6) [OF i] s1_def)
  next
    case ReadAll
    then have arr: "arrivals (e # es) = arrivals es" by (auto simp: arrivals_def)
    obtain j1 s1 where r: "stream_read s out mx =
        Return (chunk_off cs j1 - chunk_off cs j, out @ slice (concat cs) (chunk_off cs j) (chunk_off cs j1), s1)"
      "reassembling cs A j1 s1" "j \<le> j1" "j1 \<notin> A"
      by (rule reassembling_read [OF assms(1) Cons.prems(1,3)])
    have out: "out @ slice (concat cs) (chunk_off cs j) (chunk_off cs j1) = take (chunk_off cs j1) (concat cs)"
      unfolding Cons.prems(2) slice_def using chunk_off_mono [OF r(3), of cs]
      by (metis le_add_diff_inverse take_add)
    show ?thesis
    proof (cases "es = []")
      case True
      with r out show ?thesis by (auto simp: ReadAll arrivals_def)
    next
      case False
      from Cons.IH [OF r(2) refl Cons.prems(3)] Cons.prems(4) arr False show ?thesis
        by (auto simp: ReadAll r(1) out)
    qed
  qed
qed

section \<open>What a stream guarantees\<close>

text \<open>C22: Reliable ordered delivery. A sender writes data to a fresh stream and drains it into chunks; the
  chunks reach a fresh receiving stream in any order, some of them repeatedly, with reads in between that
  take whole segments. Nothing panics, and a final read leaves the reader with exactly the data up to the
  first chunk that never arrived; when all arrived, with exactly the data written.\<close>

theorem stream_reassembles:
  assumes "length dat \<le> 2 ^ 24" "0 < chunk" "length dat \<le> mx"
    and "fst (stream_write (stream_new i) dat) = Inr off"
    and "segs = poll_all (snd (stream_write (stream_new i) dat)) chunk" "arrivals es \<subseteq> {..<length segs}"
  shows "\<exists>s' j. deliver segs mx (stream_new k) [] (es @ [ReadAll]) = Return (concat (map snd (take j segs)), s') \<and>
    {..<j} \<subseteq> arrivals es \<and> j \<notin> arrivals es \<and> concat (map snd segs) = dat"
proof -
  define cs where "cs = map snd segs"
  have w: "send_buf (snd (stream_write (stream_new i) dat)) = dat"
    "send_offset (snd (stream_write (stream_new i) dat)) = of_nat (length dat)"
    using assms(4) by (auto simp: stream_write_def stream_new_def split: if_splits)
  have p: "concat cs = dat" "[] \<notin> set cs" "\<And>i. i < length segs \<Longrightarrow> segs ! i = (of_nat (chunk_off cs i), cs ! i)"
    using poll_all_chunks [OF assms(2), of "snd (stream_write (stream_new i) dat)"] w by (auto simp: assms(5) cs_def)
  have ok: "chunks_ok cs" using p(1,2) assms(1) by (simp add: chunks_ok_def)
  have "unat (of_nat (length (concat cs)) :: u64) = length dat" using p(1) assms(1) by (simp add: unat_of_nat_id)
  then have "of_nat (length (concat cs)) \<le> (STREAM_WINDOW :: u64)"
    using assms(1) by (simp add: word_le_nat_alt STREAM_WINDOW_def)
  then have start: "reassembling cs {} 0 (stream_new k)"
    by (auto simp: reassembling_def stream_new_def segments_def woff_def intro: exI [of _ "[]"])
  have arr: "arrivals (es @ [ReadAll]) = arrivals es" by (auto simp: arrivals_def)
  have len: "length cs = length segs" by (simp add: cs_def)
  have segs: "segs ! i = (woff cs i, cs ! i)" if "i < length cs" for i
    using p(3) that len by (simp add: woff_def)
  have "\<exists>j s'. deliver segs mx (stream_new k) [] (es @ [ReadAll]) = Return (take (chunk_off cs j) (concat cs), s') \<and>
      reassembling cs ({} \<union> arrivals (es @ [ReadAll])) j s' \<and>
      (es @ [ReadAll] \<noteq> [] \<and> last (es @ [ReadAll]) = ReadAll \<longrightarrow> j \<notin> {} \<union> arrivals (es @ [ReadAll]))"
    by (rule deliver_prefix [OF ok start _ _ _ segs]) (use p(1) assms(3,6) arr len in simp_all)
  then obtain j s' where d: "deliver segs mx (stream_new k) [] (es @ [ReadAll]) = Return (take (chunk_off cs j) (concat cs), s')"
    "reassembling cs (arrivals es) j s'" "j \<notin> arrivals es"
    by (auto simp: arr)
  have "take (chunk_off cs j) (concat cs) = concat (take j cs)"
    by (metis append_eq_conv_conj append_take_drop_id chunk_off_def concat_append)
  with d arr p(1) show ?thesis by (auto simp: reassembling_def cs_def take_map)
qed

theorem stream_reassembles_witness:
  "\<exists>s' j. deliver (poll_all (snd (stream_write (stream_new 1) [5, 6, 7])) 2) 100 (stream_new 2) []
      ([Arrive 1, ReadAll, Arrive 1, Arrive 0] @ [ReadAll]) =
    Return (concat (map snd (take j (poll_all (snd (stream_write (stream_new 1) [5, 6, 7])) 2))), s') \<and> j \<notin> {0, 1}"
proof -
  have w: "fst (stream_write (stream_new 1) [5, 6, 7]) = Inr 0"
    by (simp add: stream_write_def stream_new_def sat_add_def STREAM_WINDOW_def)
  have segs: "length (poll_all (snd (stream_write (stream_new 1) [5, 6, 7])) 2) = 2"
    by (simp add: stream_write_def stream_new_def sat_add_def STREAM_WINDOW_def poll_all.simps poll_send_def)
  have arr: "arrivals [Arrive 1, ReadAll, Arrive 1, Arrive 0] = {0, 1}" by (auto simp: arrivals_def)
  have "\<exists>s' j. deliver (poll_all (snd (stream_write (stream_new 1) [5, 6, 7])) 2) 100 (stream_new 2) []
      ([Arrive 1, ReadAll, Arrive 1, Arrive 0] @ [ReadAll]) =
    Return (concat (map snd (take j (poll_all (snd (stream_write (stream_new 1) [5, 6, 7])) 2))), s') \<and>
    {..<j} \<subseteq> arrivals [Arrive 1, ReadAll, Arrive 1, Arrive 0] \<and> j \<notin> arrivals [Arrive 1, ReadAll, Arrive 1, Arrive 0] \<and>
    concat (map snd (poll_all (snd (stream_write (stream_new 1) [5, 6, 7])) 2)) = [5, 6, 7]"
    by (rule stream_reassembles [OF _ _ _ w refl]) (simp_all only: segs arr, auto)
  then show ?thesis unfolding arr by blast
qed

text \<open>A read that stops inside a segment loses the rest of it. When a buffered segment is longer than
  the room of one read, the read returns the part that fits, and every later read returns nothing, although
  the remaining bytes had arrived.\<close>

theorem stream_short_read_loses_data:
  assumes "0 < m" "m < length dat" "length dat \<le> 2 ^ 24"
  shows "\<exists>s1. stream_read (snd (stream_receive (stream_new i) 0 dat False)) [] m = Return (m, take m dat, s1) \<and>
    (\<forall>mx. stream_read s1 (take m dat) mx = Return (0, take m dat, s1))"
proof -
  have len: "unat (of_nat (length dat) :: u64) = length dat" using assms(3) by (simp add: unat_of_nat_id)
  have "0 < unat (of_nat (length dat) :: u64)" unfolding len using assms(2) by linarith
  then have pos: "(of_nat (length dat) :: u64) \<noteq> 0" by (metis less_irrefl unsigned_0)
  have win: "\<not> (STREAM_WINDOW :: u64) < of_nat (length dat)"
    using assms(3) len by (simp add: word_less_nat_alt STREAM_WINDOW_def)
  have ne: "dat \<noteq> []" using assms(2) by auto
  define s0 where "s0 = snd (stream_receive (stream_new i) 0 dat False)"
  have s0: "recv_buf s0 = [(0, dat)]" "recv_offset s0 = 0"
    using ne pos win by (simp_all add: s0_def stream_receive_def stream_new_def Let_def)
  have "stream_read s0 [] m = Return (m, take m dat, s0\<lparr>recv_buf := [], recv_offset := of_nat m\<rparr>)"
    using assms(1,2) by (simp add: stream_read_def s0)
  moreover have "stream_read (s0\<lparr>recv_buf := [], recv_offset := of_nat m\<rparr>) (take m dat) mx =
      Return (0, take m dat, s0\<lparr>recv_buf := [], recv_offset := of_nat m\<rparr>)" for mx
    by (simp add: stream_read_def)
  ultimately show ?thesis by (auto simp: s0_def)
qed

theorem stream_short_read_loses_data_witness:
  "\<exists>s1. stream_read (snd (stream_receive (stream_new 1) 0 [1, 2, 3] False)) [] 2 = Return (2, [1, 2], s1) \<and>
    (\<forall>mx. stream_read s1 [1, 2] mx = Return (0, [1, 2], s1))"
  using stream_short_read_loses_data [of 2 "[1, 2, 3]" 1] by simp

text \<open>A peer that sends overlapping segments crashes the reader: once a longer segment has been read
  past the end of a buffered shorter one, slicing the shorter one panics.\<close>

theorem stream_overlap_panics:
  assumes "d1 \<noteq> []" "length d1 + 1 < length d0" "length d0 < mx" "mx \<le> 2 ^ 24"
  shows "stream_read (snd (stream_receive (snd (stream_receive (stream_new i) 0 d0 False)) 1 d1 False)) [] mx = Panic"
proof -
  have len: "unat (of_nat (length d0) :: u64) = length d0" "unat (of_nat (length d1) :: u64) = length d1"
    "unat (1 + of_nat (length d1) :: u64) = Suc (length d1)"
    using assms by (simp_all add: unat_of_nat_id unat_word_ariths)
  have "0 < unat (of_nat (length d0) :: u64)" "0 < unat (1 + of_nat (length d1) :: u64)" unfolding len using assms(2) by linarith+
  then have pos: "(of_nat (length d0) :: u64) \<noteq> 0" "1 + (of_nat (length d1) :: u64) \<noteq> 0" by (metis less_irrefl unsigned_0)+
  have win: "\<not> (STREAM_WINDOW :: u64) < of_nat (length d0)" "\<not> (STREAM_WINDOW :: u64) < 1 + of_nat (length d1)"
    using assms len by (simp_all add: word_less_nat_alt STREAM_WINDOW_def)
  have ne: "d0 \<noteq> []" using assms(2) by auto
  define s where "s = snd (stream_receive (snd (stream_receive (stream_new i) 0 d0 False)) 1 d1 False)"
  have s: "recv_buf s = [(0, d0), (1, d1)]" "recv_offset s = 0"
    using ne pos win assms(1) by (simp_all add: s_def stream_receive_def stream_new_def Let_def)
  have tk: "min (length d0) mx = length d0" "length d0 < mx" using assms(3) by simp_all
  have le: "\<not> (of_nat (length d0) :: u64) < 1"
    using len(1) ne by (simp add: word_less_nat_alt)
  then have "(1 :: u64) \<le> of_nat (length d0)" by (simp only: not_less)
  from unat_sub [OF this] have "unat (of_nat (length d0) - 1 :: u64) = length d0 - 1"
    by (simp add: len(1))
  then have "length d1 < unat (of_nat (length d0) - 1 :: u64)" using assms(2) by simp
  with s tk le show ?thesis by (simp add: stream_read_def flip: s_def)
qed

theorem stream_overlap_panics_witness:
  "stream_read (snd (stream_receive (snd (stream_receive (stream_new 1) 0 [1, 2, 3] False)) 1 [9] False)) [] 100 = Panic"
  by (rule stream_overlap_panics) simp_all

end
