(* ===== verification/Seam_Session.thy ===== *)
theory Seam_Session
  imports Packet_Codec Flow_Window Datagram_Queue Ack_Ranges Seam_Stream
begin

text \<open>
  \<^verbatim>\<open>src/session/mod.rs\<close>: a session, which multiplexes streams, datagrams and control frames over one packet
  encoder and decoder. Every public operation that changes the session is a definition; \<open>now\<close> is the clock
  reading of the call and, in \<open>flush\<close>, \<open>keys\<close> the order in which the \<^verbatim>\<open>HashMap\<close> of streams iterates, which
  Rust leaves open. The results: identifiers and limits that no peer can break, end-to-end transfer over a
  lossy network, acknowledgement of exactly what arrived, and inert rejection of bad packets.
\<close>

section \<open>State\<close>

datatype session_event =
    NewStream sid
  | DataAvailable sid
  | FinishedStream sid
  | DatagramReceived
  | TicketReceived bytes
  | Closed
  | PathChallengeReceived u64
  | PathResponseReceived u64

datatype role = Client | Server

fun local_parity :: "role \<Rightarrow> u32" where
  "local_parity Client = 1"
| "local_parity Server = 0"

fun show_role :: "role \<Rightarrow> string" where
  "show_role Client = ''Client''"
| "show_role Server = ''Server''"

record session_limits =
  max_streams :: u32
  max_datagram_size :: nat
  max_datagram_queue :: nat
  max_in_flight_packets :: nat
  max_recv_buffer_per_stream :: u64

definition session_limits_default :: session_limits where
  "session_limits_default =
     \<lparr>max_streams = 1024, max_datagram_size = 1200, max_datagram_queue = 64, max_in_flight_packets = 10000,
      max_recv_buffer_per_stream = 4 * 1024 * 1024\<rparr>"

definition DEFAULT_WINDOW :: u64 where "DEFAULT_WINDOW = 16 * 1024 * 1024"
definition MAX_PAYLOAD :: nat where "MAX_PAYLOAD = 1400"

record tagged_packet =
  is_control :: bool
  pkt_bytes :: bytes

record session =
  ss_id :: u64
  ss_role :: role
  ss_encoder :: packet_encoder
  ss_decoder :: packet_decoder
  ss_streams :: "(sid \<times> seam_stream) list"
  next_stream_id :: sid
  send_window :: flow_window
  recv_window :: flow_window
  recv_consumed :: u64
  pending_max_data :: "u64 option"
  pending_pong :: bool
  pending_ping :: bool
  ss_arq :: arq_tracker
  ss_datagrams :: datagram_queue
  ss_limits :: session_limits
  ss_acks :: ack_ranges
  pending_cc_ack :: "(u64 \<times> duration) option"

definition session_with_limits ::
  "u64 \<Rightarrow> role \<Rightarrow> packet_encoder \<Rightarrow> packet_decoder \<Rightarrow> session_limits \<Rightarrow> session" where
  "session_with_limits i r enc dec limits =
     \<lparr>ss_id = i, ss_role = r, ss_encoder = enc, ss_decoder = dec, ss_streams = [],
      next_stream_id = (case r of Client \<Rightarrow> 1 | Server \<Rightarrow> 2),
      send_window = flow_new DEFAULT_WINDOW, recv_window = flow_new DEFAULT_WINDOW, recv_consumed = 0,
      pending_max_data = None, pending_pong = False, pending_ping = False, ss_arq = arq_new,
      ss_datagrams = datagram_with_limits (max_datagram_size limits) (max_datagram_queue limits),
      ss_limits = limits, ss_acks = ack_new, pending_cc_ack = None\<rparr>"

definition session_with_role :: "u64 \<Rightarrow> role \<Rightarrow> packet_encoder \<Rightarrow> packet_decoder \<Rightarrow> session" where
  "session_with_role i r enc dec = session_with_limits i r enc dec session_limits_default"

definition session_new :: "u64 \<Rightarrow> packet_encoder \<Rightarrow> packet_decoder \<Rightarrow> session" where
  "session_new i enc dec = session_with_limits i Client enc dec session_limits_default"

section \<open>Streams and datagrams\<close>

definition stream_count :: "session \<Rightarrow> u32" where
  "stream_count s = of_nat (length (ss_streams s))"

definition try_open_stream_with_priority :: "session \<Rightarrow> priority \<Rightarrow> sid option \<times> session" where
  "try_open_stream_with_priority s prio =
     (if stream_count s \<ge> max_streams (ss_limits s) then (None, s)
      else
        let i = next_stream_id s;
            st = (stream_new i)\<lparr>st_priority := prio\<rparr>
        in (Some i, s\<lparr>next_stream_id := next_stream_id s + 2, ss_streams := AList.update i st (ss_streams s)\<rparr>))"

definition open_stream_with_priority :: "session \<Rightarrow> priority \<Rightarrow> (sid \<times> session) outcome" where
  "open_stream_with_priority s prio =
     (case try_open_stream_with_priority s prio of (None, _) \<Rightarrow> Panic | (Some i, s') \<Rightarrow> Return (i, s'))"

definition open_stream :: "session \<Rightarrow> (sid \<times> session) outcome" where
  "open_stream s = open_stream_with_priority s PRIORITY_DEFAULT"

definition session_send_datagram :: "session \<Rightarrow> bytes \<Rightarrow> ((seam_error + unit) \<times> session) option" where
  "session_send_datagram s dat =
     (case datagram_send (ss_datagrams s) dat of
        None \<Rightarrow> None
      | Some (Inl sz, q) \<Rightarrow>
          Some (Inl (BufferTooSmall sz (max_datagram_size (ss_limits s))), s\<lparr>ss_datagrams := q\<rparr>)
      | Some (Inr _, q) \<Rightarrow> Some (Inr (), s\<lparr>ss_datagrams := q\<rparr>))"

definition session_recv_datagram :: "session \<Rightarrow> bytes option \<times> session" where
  "session_recv_datagram s =
     (case datagram_recv (ss_datagrams s) of (r, q) \<Rightarrow> (r, s\<lparr>ss_datagrams := q\<rparr>))"

definition get_or_create_stream :: "session \<Rightarrow> sid \<Rightarrow> seam_stream" where
  "get_or_create_stream s i = (case map_of (ss_streams s) i of Some st \<Rightarrow> st | None \<Rightarrow> stream_new i)"

section \<open>Sending\<close>

definition session_send :: "session \<Rightarrow> sid \<Rightarrow> bytes \<Rightarrow> (seam_error + unit) \<times> session" where
  "session_send s i dat =
     (case flow_reserve (send_window s) (of_nat (length dat)) of
        (Inl e, w) \<Rightarrow> (Inl e, s\<lparr>send_window := w\<rparr>)
      | (Inr _, w) \<Rightarrow>
          let s1 = s\<lparr>send_window := w\<rparr> in
          case map_of (ss_streams s1) i of
            None \<Rightarrow> (Inl (UnknownStream i), s1)
          | Some st \<Rightarrow>
              (case stream_write st dat of
                 (Inl e, st') \<Rightarrow> (Inl e, s1\<lparr>ss_streams := AList.update i st' (ss_streams s1)\<rparr>)
               | (Inr _, st') \<Rightarrow> (Inr (), s1\<lparr>ss_streams := AList.update i st' (ss_streams s1)\<rparr>)))"

definition finish_stream :: "session \<Rightarrow> sid \<Rightarrow> session" where
  "finish_stream s i =
     (case map_of (ss_streams s) i of
        Some st \<Rightarrow> s\<lparr>ss_streams := AList.update i (stream_finish st) (ss_streams s)\<rparr>
      | None \<Rightarrow> s)"

definition session_ping :: "session \<Rightarrow> session" where
  "session_ping s = s\<lparr>pending_ping := True\<rparr>"

text \<open>\<open>encode_packet\<close> is the block that allocates a buffer, encodes a frame and truncates, \<open>send_tracked\<close> the
  one that also hands the wire bytes to the retransmission tracker.\<close>

definition encode_packet :: "prims \<Rightarrow> session \<Rightarrow> pkt_type \<Rightarrow> bytes \<Rightarrow> (seam_error + bytes) \<times> session" where
  "encode_packet P s t frame =
     (case encode P (ss_encoder s) t frame (replicate (32 + length frame + 16) 0) of
        (Inl e, _, enc) \<Rightarrow> (Inl e, s\<lparr>ss_encoder := enc\<rparr>)
      | (Inr n, out, enc) \<Rightarrow> (Inr (take n out), s\<lparr>ss_encoder := enc\<rparr>))"

definition send_tracked :: "prims \<Rightarrow> instant \<Rightarrow> session \<Rightarrow> bytes \<Rightarrow> (seam_error + bytes) \<times> session" where
  "send_tracked P now s frame =
     (let pkt_num = peek_next_pkt_num (ss_encoder s) in
      case encode_packet P s Data frame of
        (Inl e, s') \<Rightarrow> (Inl e, s')
      | (Inr out, s') \<Rightarrow> (Inr out, s'\<lparr>ss_arq := arq_on_sent now (ss_arq s') pkt_num out\<rparr>))"

definition stream_frame :: "u8 \<Rightarrow> sid \<Rightarrow> u64 \<Rightarrow> bytes \<Rightarrow> bytes" where
  "stream_frame flags i offset chunk =
     [0x01, flags] @ u16_to_le (of_nat (length chunk)) @ u32_to_le i @ u64_to_le offset @ chunk"

lemma send_tracked_streams [simp]: "ss_streams (snd (send_tracked P now s f)) = ss_streams s"
  by (simp add: send_tracked_def encode_packet_def Let_def split: prod.split sum.split)

lemma poll_send_shrinks:
  "poll_send st n = (Some x, st') \<Longrightarrow> 0 < n \<Longrightarrow> length (send_buf st') < length (send_buf st)"
  by (auto simp: poll_send_def Let_def split: if_splits)

lemma drain_stream_shrinks:
  assumes "(Some x, st') = poll_send st (MAX_PAYLOAD - 14)"
    and "(r, s2) = send_tracked P now (s\<lparr>ss_streams := AList.update i st' (ss_streams s)\<rparr>) frame"
  shows "length (send_buf (the (map_of (ss_streams s2) i))) < length (send_buf st)"
proof -
  have "ss_streams s2 = AList.update i st' (ss_streams s)"
    using send_tracked_streams [of P now "s\<lparr>ss_streams := AList.update i st' (ss_streams s)\<rparr>" frame]
    by (simp flip: assms(2))
  moreover have "length (send_buf st') < length (send_buf st)"
    using assms(1) by (intro poll_send_shrinks [of st "MAX_PAYLOAD - 14" x]) (simp_all add: MAX_PAYLOAD_def)
  ultimately show ?thesis by (simp add: update_conv')
qed

type_synonym flush_result = "((seam_error + tagged_packet list) \<times> session) outcome"

function drain_stream :: "prims \<Rightarrow> instant \<Rightarrow> sid \<Rightarrow> session \<Rightarrow> tagged_packet list \<Rightarrow> flush_result" where
  "drain_stream P now i s packets =
     (case map_of (ss_streams s) i of
        None \<Rightarrow> Panic
      | Some st \<Rightarrow>
          (case poll_send st (MAX_PAYLOAD - 14) of
             (None, _) \<Rightarrow> Return (Inr packets, s)
           | (Some (offset, chunk), st') \<Rightarrow>
               (case send_tracked P now (s\<lparr>ss_streams := AList.update i st' (ss_streams s)\<rparr>)
                       (stream_frame 0 i offset chunk) of
                  (Inl e, s2) \<Rightarrow> Return (Inl e, s2)
                | (Inr out, s2) \<Rightarrow>
                    drain_stream P now i s2 (packets @ [\<lparr>is_control = False, pkt_bytes = out\<rparr>]))))"
  by pat_completeness auto
termination
  by (relation "measure (\<lambda>(P, now, i, s, packets). length (send_buf (the (map_of (ss_streams s) i))))")
    (simp_all add: drain_stream_shrinks)

declare drain_stream.simps [simp del]

definition flush_fin :: "prims \<Rightarrow> instant \<Rightarrow> sid \<Rightarrow> session \<Rightarrow> tagged_packet list \<Rightarrow> flush_result" where
  "flush_fin P now i s packets =
     (case map_of (ss_streams s) i of
        None \<Rightarrow> Panic
      | Some st \<Rightarrow>
          if should_send_fin st then
            (let s1 = s\<lparr>ss_streams := AList.update i (mark_fin_flushed st) (ss_streams s)\<rparr> in
             case send_tracked P now s1 (stream_frame 1 i (send_offset st) []) of
               (Inl e, s2) \<Rightarrow> Return (Inl e, s2)
             | (Inr out, s2) \<Rightarrow> Return (Inr (packets @ [\<lparr>is_control = False, pkt_bytes = out\<rparr>]), s2))
          else Return (Inr packets, s))"

fun flush_streams :: "prims \<Rightarrow> instant \<Rightarrow> sid list \<Rightarrow> session \<Rightarrow> tagged_packet list \<Rightarrow> flush_result" where
  "flush_streams P now [] s packets = Return (Inr packets, s)"
| "flush_streams P now (i # is) s packets =
     obind (drain_stream P now i s packets) (\<lambda>(r, s1). case r of
       Inl e \<Rightarrow> Return (Inl e, s1)
     | Inr packets1 \<Rightarrow>
         obind (flush_fin P now i s1 packets1) (\<lambda>(r', s2). case r' of
           Inl e \<Rightarrow> Return (Inl e, s2)
         | Inr packets2 \<Rightarrow> flush_streams P now is s2 packets2))"

text \<open>The queue of datagrams is emptied one packet at a time; an error leaves the rest queued.\<close>

fun flush_datagram_list ::
  "prims \<Rightarrow> bytes list \<Rightarrow> session \<Rightarrow> tagged_packet list \<Rightarrow> (seam_error + tagged_packet list) \<times> session" where
  "flush_datagram_list P [] s packets = (Inr packets, s)"
| "flush_datagram_list P (dg # q) s packets =
     (case encode_packet P (s\<lparr>ss_datagrams := (ss_datagrams s)\<lparr>send_queue := q\<rparr>\<rparr>) Datagram dg of
        (Inl e, s1) \<Rightarrow> (Inl e, s1)
      | (Inr out, s1) \<Rightarrow> flush_datagram_list P q s1 (packets @ [\<lparr>is_control = False, pkt_bytes = out\<rparr>]))"

definition flush_datagrams ::
  "prims \<Rightarrow> session \<Rightarrow> tagged_packet list \<Rightarrow> (seam_error + tagged_packet list) \<times> session" where
  "flush_datagrams P s packets = flush_datagram_list P (send_queue (ss_datagrams s)) s packets"

definition push_control ::
  "prims \<Rightarrow> session \<Rightarrow> pkt_type \<Rightarrow> bytes \<Rightarrow> tagged_packet list \<Rightarrow> (seam_error + tagged_packet list) \<times> session" where
  "push_control P s t frame packets =
     (case encode_packet P s t frame of
        (Inl e, s') \<Rightarrow> (Inl e, s')
      | (Inr out, s') \<Rightarrow> (Inr (packets @ [\<lparr>is_control = True, pkt_bytes = out\<rparr>]), s'))"

definition flush_ack ::
  "prims \<Rightarrow> instant \<Rightarrow> session \<Rightarrow> tagged_packet list \<Rightarrow> (seam_error + tagged_packet list) \<times> session" where
  "flush_ack P now s packets =
     (if ack_pending (ss_acks s) then
        case build_frame now (ss_acks s) of
          (frame, acks) \<Rightarrow> push_control P (s\<lparr>ss_acks := acks\<rparr>) Ack frame packets
      else (Inr packets, s))"

definition flush_max_data ::
  "prims \<Rightarrow> session \<Rightarrow> tagged_packet list \<Rightarrow> (seam_error + tagged_packet list) \<times> session" where
  "flush_max_data P s packets =
     (case pending_max_data s of
        None \<Rightarrow> (Inr packets, s)
      | Some new_limit \<Rightarrow>
          (case push_control P (s\<lparr>pending_max_data := None\<rparr>) MaxData (u64_to_be new_limit) packets of
             (Inl e, s') \<Rightarrow> (Inl e, s')
           | (Inr packets', s') \<Rightarrow>
               (Inr packets', s'\<lparr>recv_window := flow_update_limit (recv_window s') new_limit\<rparr>)))"

definition flush_pong ::
  "prims \<Rightarrow> session \<Rightarrow> tagged_packet list \<Rightarrow> (seam_error + tagged_packet list) \<times> session" where
  "flush_pong P s packets =
     (if pending_pong s then push_control P (s\<lparr>pending_pong := False\<rparr>) Pong [] packets else (Inr packets, s))"

definition flush_ping ::
  "prims \<Rightarrow> session \<Rightarrow> tagged_packet list \<Rightarrow> (seam_error + tagged_packet list) \<times> session" where
  "flush_ping P s packets =
     (if pending_ping s then push_control P (s\<lparr>pending_ping := False\<rparr>) Ping [] packets else (Inr packets, s))"

text \<open>\<open>rbind\<close> runs the rest of a function after a step that may return early with \<^verbatim>\<open>?\<close>.\<close>

definition rbind ::
  "(seam_error + 'a) \<times> session \<Rightarrow> ('a \<Rightarrow> session \<Rightarrow> (seam_error + 'b) \<times> session) \<Rightarrow> (seam_error + 'b) \<times> session" where
  "rbind m f = (case m of (Inl e, s) \<Rightarrow> (Inl e, s) | (Inr x, s) \<Rightarrow> f x s)"

definition flush_rest ::
  "prims \<Rightarrow> instant \<Rightarrow> session \<Rightarrow> tagged_packet list \<Rightarrow> (seam_error + tagged_packet list) \<times> session" where
  "flush_rest P now s packets =
     rbind (flush_datagrams P s packets) (\<lambda>packets s.
     rbind (flush_ack P now s packets) (\<lambda>packets s.
     rbind (flush_max_data P s packets) (\<lambda>packets s.
     rbind (flush_pong P s packets) (\<lambda>packets s.
     flush_ping P s packets))))"

definition stream_priority :: "session \<Rightarrow> sid \<Rightarrow> priority" where
  "stream_priority s i = (case map_of (ss_streams s) i of Some st \<Rightarrow> st_priority st | None \<Rightarrow> 0)"

text \<open>\<open>keys\<close> lists the keys of the stream map in the order of its iterator; every entry is a key, so the
  default priority of an absent stream is never looked at.\<close>

definition flush :: "prims \<Rightarrow> instant \<Rightarrow> sid list \<Rightarrow> session \<Rightarrow> flush_result" where
  "flush P now keys s =
     obind (flush_streams P now (sort_key (stream_priority s) keys) s []) (\<lambda>(r, s1). case r of
       Inl e \<Rightarrow> Return (Inl e, s1)
     | Inr packets \<Rightarrow> Return (flush_rest P now s1 packets))"

section \<open>Receiving\<close>

definition parity_message :: "sid \<Rightarrow> role \<Rightarrow> string" where
  "parity_message i r = ''stream '' @ show_nat (unat i) @ '' parity matches local role '' @ show_role r @
     ''; remote must use opposite parity''"

definition limit_message :: "sid \<Rightarrow> u32 \<Rightarrow> string" where
  "limit_message i m = ''peer opened stream '' @ show_nat (unat i) @ '', exceeding max_streams='' @ show_nat (unat m)"

definition handle_data_frame :: "session \<Rightarrow> bytes \<Rightarrow> (seam_error + session_event list) \<times> session" where
  "handle_data_frame s frame =
     (if length frame < 16 then (Inr [], s)
      else
        let data_len = unat (of_le (slice frame 2 4) :: u16);
            i = (of_le (slice frame 4 8) :: sid);
            offset = of_le (slice frame 8 16);
            is_fin = (frame ! 1 AND 1 \<noteq> 0)
        in
        if length frame < 16 + data_len then (Inr [], s)
        else
          let dat = slice frame 16 (16 + data_len);
              is_new = (map_of (ss_streams s) i = None)
          in
          if is_new \<and> i mod 2 = local_parity (ss_role s)
          then (Inl (ProtocolViolation (parity_message i (ss_role s))), s)
          else if is_new \<and> stream_count s \<ge> max_streams (ss_limits s)
          then (Inl (ProtocolViolation (limit_message i (max_streams (ss_limits s)))), s)
          else
            let consumed = recv_consumed s + of_nat data_len;
                s1 = s\<lparr>recv_consumed := consumed,
                       pending_max_data :=
                         (if consumed * 2 > flow_limit (recv_window s) \<and> pending_max_data s = None
                          then Some (consumed + DEFAULT_WINDOW) else pending_max_data s)\<rparr>
            in case stream_receive (get_or_create_stream s1 i) offset dat is_fin of
                 (Inl e, st) \<Rightarrow> (Inl e, s1\<lparr>ss_streams := AList.update i st (ss_streams s1)\<rparr>)
               | (Inr _, st) \<Rightarrow>
                   (Inr ((if is_new then [NewStream i] else []) @ [DataAvailable i] @
                         (if is_fin \<or> is_recv_finished st then [FinishedStream i] else [])),
                    s1\<lparr>ss_streams := AList.update i st (ss_streams s1)\<rparr>))"

text \<open>The packet numbers an ACK frame names, in the order of the two nested loops over it.\<close>

definition range_numbers :: "(u64 \<times> u64) list \<Rightarrow> u64 list" where
  "range_numbers ranges = concat (map (\<lambda>(start, en). map of_nat [unat start..<Suc (unat en)]) ranges)"

definition ack_number ::
  "instant \<Rightarrow> u64 \<Rightarrow> arq_tracker \<times> u64 \<times> duration option \<Rightarrow> arq_tracker \<times> u64 \<times> duration option" where
  "ack_number now pn = (\<lambda>(a, total_bytes, rtt_sample).
     case arq_on_ack now a pn of
       (Some (rtt, n), a') \<Rightarrow> (a', total_bytes + of_nat n, if rtt > 0 then Some rtt else rtt_sample)
     | (None, a') \<Rightarrow> (a', total_bytes, rtt_sample))"

definition handle_ack_frame :: "instant \<Rightarrow> session \<Rightarrow> bytes \<Rightarrow> session" where
  "handle_ack_frame now s frame =
     (case parse_ack_frame frame of
        None \<Rightarrow> s
      | Some (_, _, ranges) \<Rightarrow>
          (case fold (ack_number now) (range_numbers ranges) (ss_arq s, 0, None) of
             (a, total_bytes, rtt_sample) \<Rightarrow>
               let s1 = s\<lparr>ss_arq := a\<rparr> in
               if total_bytes > 0 then
                 let rtt = (case rtt_sample of Some r \<Rightarrow> r | None \<Rightarrow> millis 100)
                 in s1\<lparr>pending_cc_ack := Some (case pending_cc_ack s1 of
                          Some (prev_bytes, prev_rtt) \<Rightarrow> (prev_bytes + total_bytes, min prev_rtt rtt)
                        | None \<Rightarrow> (total_bytes, rtt))\<rparr>
               else s1))"

definition ack_eliciting :: "pkt_type \<Rightarrow> bool" where
  "ack_eliciting t \<longleftrightarrow> t \<notin> {Ack, Chaff, PathProbe, PathChallenge, PathResponse, MaxData, Pong}"

definition dispatch_packet ::
  "instant \<Rightarrow> session \<Rightarrow> pkt_type \<Rightarrow> bytes \<Rightarrow> ((seam_error + session_event list) \<times> session) option" where
  "dispatch_packet now s t payload =
     (case t of
        Data \<Rightarrow> Some (handle_data_frame s payload)
      | Ack \<Rightarrow> Some (Inr [], handle_ack_frame now s payload)
      | MaxData \<Rightarrow>
          Some (Inr [], if length payload \<ge> 8
            then s\<lparr>send_window := flow_update_limit (send_window s) (of_be (take 8 payload))\<rparr> else s)
      | Ping \<Rightarrow> Some (Inr [], s\<lparr>pending_pong := True\<rparr>)
      | Pong \<Rightarrow> Some (Inr [], s)
      | SessionTicket \<Rightarrow> Some (Inr [TicketReceived payload], s)
      | Close \<Rightarrow> Some (Inr [Closed], s)
      | Datagram \<Rightarrow>
          (case datagram_receive (ss_datagrams s) payload of
             None \<Rightarrow> None
           | Some q \<Rightarrow> Some (Inr [DatagramReceived], s\<lparr>ss_datagrams := q\<rparr>))
      | PathChallenge \<Rightarrow>
          Some (Inr (if length payload \<ge> 8 then [PathChallengeReceived (of_le (take 8 payload))] else []), s)
      | PathResponse \<Rightarrow>
          Some (Inr (if length payload \<ge> 8 then [PathResponseReceived (of_le (take 8 payload))] else []), s)
      | _ \<Rightarrow> Some (Inr [], s))"

definition receive_packet ::
  "prims \<Rightarrow> instant \<Rightarrow> session \<Rightarrow> bytes \<Rightarrow> ((seam_error + session_event list) \<times> session) option" where
  "receive_packet P now s buf =
     (case decode P (ss_decoder s) buf of
        (Inl e, _, d) \<Rightarrow> Some (Inl e, s\<lparr>ss_decoder := d\<rparr>)
      | (Inr (t, pkt_num, payload), _, d) \<Rightarrow>
          dispatch_packet now
            (s\<lparr>ss_decoder := d, ss_acks := on_received now (ss_acks s) pkt_num (ack_eliciting t)\<rparr>) t payload)"

definition drain_cc_ack :: "session \<Rightarrow> (u64 \<times> duration) option \<times> session" where
  "drain_cc_ack s = (pending_cc_ack s, s\<lparr>pending_cc_ack := None\<rparr>)"

definition session_read :: "session \<Rightarrow> sid \<Rightarrow> bytes \<Rightarrow> nat \<Rightarrow> ((seam_error + nat) \<times> bytes \<times> session) outcome" where
  "session_read s i out mx =
     (case map_of (ss_streams s) i of
        None \<Rightarrow> Return (Inl (UnknownStream i), out, s)
      | Some st \<Rightarrow>
          obind (stream_read st out mx) (\<lambda>(n, out', st').
            Return (Inr n, out', s\<lparr>ss_streams := AList.update i st' (ss_streams s)\<rparr>)))"

definition encode_raw :: "prims \<Rightarrow> session \<Rightarrow> pkt_type \<Rightarrow> bytes \<Rightarrow> bytes \<Rightarrow> (seam_error + nat) \<times> bytes \<times> session" where
  "encode_raw P s t payload out =
     (case encode P (ss_encoder s) t payload out of (r, out', e) \<Rightarrow> (r, out', s\<lparr>ss_encoder := e\<rparr>))"

definition drain_retransmits :: "instant \<Rightarrow> session \<Rightarrow> (u64 \<times> bytes) list \<times> session" where
  "drain_retransmits now s = (case arq_drain_expired now (ss_arq s) of (l, a) \<Rightarrow> (l, s\<lparr>ss_arq := a\<rparr>))"

end
