(* ===== verification/Session_Invariants.thy ===== *)
theory Session_Invariants
  imports Seam_Session
begin

text \<open>
  Safety of a session under every sequence of its operations, with every input a peer or the network can
  produce. \<open>session_step\<close> has one rule per operation of \<^verbatim>\<open>src/session/mod.rs\<close>; a session is reachable when
  such steps lead to it from \<open>session_with_limits\<close>.
\<close>

section \<open>Reachable sessions\<close>

inductive session_step :: "prims \<Rightarrow> session \<Rightarrow> session \<Rightarrow> bool" for P where
  step_open: "try_open_stream_with_priority s prio = (r, s') \<Longrightarrow> session_step P s s'"
| step_send: "session_send s i dat = (r, s') \<Longrightarrow> session_step P s s'"
| step_finish: "session_step P s (finish_stream s i)"
| step_ping: "session_step P s (session_ping s)"
| step_send_datagram: "session_send_datagram s dat = Some (r, s') \<Longrightarrow> session_step P s s'"
| step_recv_datagram: "session_recv_datagram s = (d, s') \<Longrightarrow> session_step P s s'"
| step_flush: "set keys = fst ` set (ss_streams s) \<Longrightarrow> flush P now keys s = Return (r, s') \<Longrightarrow> session_step P s s'"
| step_receive: "receive_packet P now s buf = Some (r, s') \<Longrightarrow> session_step P s s'"
| step_cc: "drain_cc_ack s = (f, s') \<Longrightarrow> session_step P s s'"
| step_read: "session_read s i out mx = Return (r, out', s') \<Longrightarrow> session_step P s s'"
| step_raw: "encode_raw P s t payload out = (r, out', s') \<Longrightarrow> session_step P s s'"
| step_retransmit: "drain_retransmits now s = (l, s') \<Longrightarrow> session_step P s s'"

abbreviation session_reachable :: "prims \<Rightarrow> session \<Rightarrow> session \<Rightarrow> bool" where
  "session_reachable P \<equiv> (session_step P)\<^sup>*\<^sup>*"

section \<open>The part of a session that the limits are about\<close>

definition table :: "session \<Rightarrow> role \<times> session_limits \<times> sid \<times> sid list" where
  "table s = (ss_role s, ss_limits s, next_stream_id s, map fst (ss_streams s))"

named_theorems table_simps \<open>operations that leave the stream table as it is\<close>

lemma table_update [table_simps]:
  "table (s\<lparr>ss_encoder := e\<rparr>) = table s" "table (s\<lparr>ss_decoder := d\<rparr>) = table s"
  "table (s\<lparr>send_window := w\<rparr>) = table s" "table (s\<lparr>recv_window := w\<rparr>) = table s"
  "table (s\<lparr>recv_consumed := c\<rparr>) = table s" "table (s\<lparr>pending_max_data := m\<rparr>) = table s"
  "table (s\<lparr>pending_pong := b\<rparr>) = table s" "table (s\<lparr>pending_ping := b\<rparr>) = table s"
  "table (s\<lparr>ss_arq := a\<rparr>) = table s" "table (s\<lparr>ss_datagrams := q\<rparr>) = table s"
  "table (s\<lparr>ss_acks := r\<rparr>) = table s" "table (s\<lparr>pending_cc_ack := f\<rparr>) = table s"
  by (simp_all add: table_def)

lemma table_stream_update [table_simps]:
  "map_of (ss_streams s) i = Some st \<Longrightarrow> table (s\<lparr>ss_streams := AList.update i st' (ss_streams s)\<rparr>) = table s"
  by (force simp: table_def update_keys dest: map_of_SomeD)

text \<open>Each operation as a rule: when it returns the session \<open>s'\<close>, the table is that of \<open>s\<close>.\<close>

lemma table_encode_packet: "encode_packet P s t f = (r, s') \<Longrightarrow> table s' = table s"
  by (auto simp: encode_packet_def table_simps split: prod.splits sum.splits)

lemma table_send_tracked: "send_tracked P now s f = (r, s') \<Longrightarrow> table s' = table s"
  by (auto simp: send_tracked_def Let_def table_simps split: prod.splits sum.splits dest: table_encode_packet)

lemma table_push_control: "push_control P s t f ps = (r, s') \<Longrightarrow> table s' = table s"
  by (auto simp: push_control_def split: prod.splits sum.splits dest: table_encode_packet)

lemma table_drain_stream: "drain_stream P now i s ps = Return (r, s') \<Longrightarrow> table s' = table s"
proof (induction P now i s ps rule: drain_stream.induct)
  case (1 P now i s packets)
  show ?case
  proof (cases "map_of (ss_streams s) i")
    case None
    with 1(2) show ?thesis by (subst (asm) drain_stream.simps) simp
  next
    case (Some st)
    obtain o' st' where poll: "poll_send st (MAX_PAYLOAD - 14) = (o', st')" by force
    show ?thesis
    proof (cases o')
      case None
      with 1(2) Some poll show ?thesis by (subst (asm) drain_stream.simps) simp
    next
      case (Some x)
      obtain offset chunk where x: "x = (offset, chunk)" by force
      obtain r1 s1 where t: "send_tracked P now (s\<lparr>ss_streams := AList.update i st' (ss_streams s)\<rparr>)
          (stream_frame 0 i offset chunk) = (r1, s1)" by force
      have tab: "table s1 = table s"
        using table_send_tracked [OF t] table_stream_update [OF \<open>map_of (ss_streams s) i = Some st\<close>] by simp
      show ?thesis
        using 1 \<open>map_of (ss_streams s) i = Some st\<close> Some poll x t tab
        by (subst (asm) drain_stream.simps) (auto split: sum.splits)
    qed
  qed
qed

lemma table_flush_fin: "flush_fin P now i s ps = Return (r, s') \<Longrightarrow> table s' = table s"
  by (auto simp: flush_fin_def Let_def table_simps split: option.splits if_splits prod.splits sum.splits
      dest!: table_send_tracked)

lemma table_flush_streams: "flush_streams P now is s ps = Return (r, s') \<Longrightarrow> table s' = table s"
proof (induction P now "is" s ps rule: flush_streams.induct)
  case (2 P now i "is" s ps)
  then obtain r1 s1 where d: "drain_stream P now i s ps = Return (r1, s1)" by (auto simp: obind_Return)
  show ?case
  proof (cases r1)
    case (Inl e)
    with 2(2) d table_drain_stream [OF d] show ?thesis by simp
  next
    case (Inr ps1)
    with 2(2) d obtain r2 s2 where f: "flush_fin P now i s1 ps1 = Return (r2, s2)" by (auto simp: obind_Return)
    show ?thesis
      using 2(1) [OF refl Inr _ ] 2 d Inr f table_drain_stream [OF d] table_flush_fin [OF f] by (auto split: sum.splits)
  qed
qed simp

lemma table_flush_datagram_list: "flush_datagram_list P q s ps = (r, s') \<Longrightarrow> table s' = table s"
proof (induction P q s ps rule: flush_datagram_list.induct)
  case (2 P dg q s ps)
  obtain r1 s1 where e: "encode_packet P (s\<lparr>ss_datagrams := (ss_datagrams s)\<lparr>send_queue := q\<rparr>\<rparr>) Datagram dg = (r1, s1)"
    by force
  have "table s1 = table s" using table_encode_packet [OF e] by (simp add: table_simps)
  with 2 e show ?case by (auto split: sum.splits)
qed simp

lemma table_flush_max_data: "flush_max_data P s ps = (r, s') \<Longrightarrow> table s' = table s"
  by (auto simp: flush_max_data_def table_simps split: option.splits prod.splits sum.splits dest!: table_push_control)

lemma table_flush_controls:
  "flush_datagrams P s ps = (r, s') \<Longrightarrow> table s' = table s"
  "flush_ack P now s ps = (r, s') \<Longrightarrow> table s' = table s"
  "flush_pong P s ps = (r, s') \<Longrightarrow> table s' = table s"
  "flush_ping P s ps = (r, s') \<Longrightarrow> table s' = table s"
  by (auto simp: flush_datagrams_def flush_ack_def flush_pong_def flush_ping_def table_simps
      split: if_splits prod.splits dest!: table_push_control table_flush_datagram_list)

lemma rbind_cases:
  assumes "rbind m f = (r, s')"
  obtains (early) e where "m = (Inl e, s')" "r = Inl e" | (go) x s1 where "m = (Inr x, s1)" "f x s1 = (r, s')"
  using assms by (auto simp: rbind_def split: prod.splits sum.splits)

lemma table_flush_rest: "flush_rest P now s ps = (r, s') \<Longrightarrow> table s' = table s"
  unfolding flush_rest_def
  by (elim rbind_cases) (auto dest!: table_flush_controls table_flush_max_data)

lemma table_flush: "flush P now keys s = Return (r, s') \<Longrightarrow> table s' = table s"
proof -
  assume "flush P now keys s = Return (r, s')"
  then obtain r1 s1 where f: "flush_streams P now (sort_key (stream_priority s) keys) s [] = Return (r1, s1)"
    and rest: "(case r1 of Inl e \<Rightarrow> Return (Inl e, s1) | Inr ps \<Rightarrow> Return (flush_rest P now s1 ps)) = Return (r, s')"
    by (auto simp: flush_def obind_Return)
  then show ?thesis using table_flush_streams [OF f] by (auto split: sum.splits dest: table_flush_rest)
qed

section \<open>The invariant\<close>

definition first_id :: "role \<Rightarrow> sid" where
  "first_id r = (case r of Client \<Rightarrow> 1 | Server \<Rightarrow> 2)"

text \<open>\<open>k\<close> streams were opened locally; they have the identifiers \<open>first_id r + 2 * j\<close> for \<open>j < k\<close>.\<close>

definition stream_table_ok :: "role \<times> session_limits \<times> sid \<times> sid list \<Rightarrow> bool" where
  "stream_table_ok = (\<lambda>(r, lim, nxt, ids).
     distinct ids \<and> length ids \<le> unat (max_streams lim) \<and>
     (\<exists>k. nxt = first_id r + 2 * of_nat k \<and> k \<le> length ids \<and>
        (\<forall>i \<in> set ids. i mod 2 = local_parity r \<longrightarrow> (\<exists>j < k. i = first_id r + 2 * of_nat j))))"

lemma first_id_parity [simp]: "(first_id r + 2 * x) mod 2 = local_parity r"
  by (cases r) (simp_all add: first_id_def mod_2_eq_odd)

lemma stream_table_new: "stream_table_ok (table (session_with_limits n r enc dec lim))"
  by (simp add: stream_table_ok_def table_def session_with_limits_def first_id_def exI [of _ 0])

lemma id_injective:
  assumes "j < k" and "k < 2 ^ 31"
  shows "first_id r + 2 * of_nat j \<noteq> first_id r + 2 * (of_nat k :: sid)"
proof
  assume "first_id r + 2 * of_nat j = first_id r + 2 * (of_nat k :: sid)"
  then have "unat (of_nat (2 * j) :: sid) = unat (of_nat (2 * k) :: sid)" by simp
  moreover have "2 * j < 2 ^ LENGTH(32)" "2 * k < 2 ^ LENGTH(32)" using assms by simp_all
  ultimately have "2 * j = 2 * k" by (simp only: unat_of_nat_id)
  then show False using assms by simp
qed

text \<open>What a peer's frame can do to the table: nothing, or one new stream of the other parity within the limit.\<close>

lemma table_handle_data_frame:
  assumes "handle_data_frame s frame = (r, s')"
  shows "table s' = table s \<or>
    (\<exists>i. i \<notin> fst ` set (ss_streams s) \<and> i mod 2 \<noteq> local_parity (ss_role s) \<and>
       stream_count s < max_streams (ss_limits s) \<and>
       table s' = (ss_role s, ss_limits s, next_stream_id s, map fst (ss_streams s) @ [i]))"
proof -
  define i :: sid where "i = of_le (slice frame 4 8)"
  have upd: "table (s\<lparr>recv_consumed := c, pending_max_data := m, ss_streams := AList.update i st (ss_streams s)\<rparr>) =
      (ss_role s, ss_limits s, next_stream_id s,
       if map_of (ss_streams s) i = None then map fst (ss_streams s) @ [i] else map fst (ss_streams s))" for c m st
    by (auto simp: table_def update_keys map_of_eq_None_iff)
  show ?thesis
    using assms upd unfolding handle_data_frame_def Let_def i_def [symmetric]
    by (auto simp: table_def map_of_eq_None_iff split: if_splits sum.splits prod.splits)
qed

lemma stream_table_remote:
  assumes "stream_table_ok (table s)" "i \<notin> fst ` set (ss_streams s)" "i mod 2 \<noteq> local_parity (ss_role s)"
    "stream_count s < max_streams (ss_limits s)"
  shows "stream_table_ok (ss_role s, ss_limits s, next_stream_id s, map fst (ss_streams s) @ [i])"
proof -
  have le: "length (ss_streams s) \<le> unat (max_streams (ss_limits s))" using assms(1) by (simp add: stream_table_ok_def table_def)
  then have "length (ss_streams s) < 2 ^ LENGTH(32)" using unsigned_less [of "max_streams (ss_limits s)", where 'a = nat] by simp
  then have "length (ss_streams s) < unat (max_streams (ss_limits s))"
    using assms(4) by (simp add: stream_count_def word_less_nat_alt unat_of_nat_id)
  with assms show ?thesis by (fastforce simp: stream_table_ok_def table_def)
qed

lemma stream_table_open:
  assumes ok: "stream_table_ok (table s)" and lim: "max_streams (ss_limits s) \<le> 2 ^ 31"
    and opened: "try_open_stream_with_priority s prio = (Some i, s')"
  shows "i \<notin> fst ` set (ss_streams s)" and "i mod 2 = local_parity (ss_role s)" and "stream_table_ok (table s')"
proof -
  define ids where "ids = map fst (ss_streams s)"
  obtain k where t: "distinct ids" "length ids \<le> unat (max_streams (ss_limits s))"
    "next_stream_id s = first_id (ss_role s) + 2 * of_nat k" "k \<le> length ids"
    "\<And>i. i \<in> set ids \<Longrightarrow> i mod 2 = local_parity (ss_role s) \<Longrightarrow> \<exists>j < k. i = first_id (ss_role s) + 2 * of_nat j"
    using ok by (auto simp: stream_table_ok_def table_def ids_def)
  have m: "unat (max_streams (ss_limits s)) \<le> 2 ^ 31" using lim by (simp add: word_le_nat_alt)
  have "stream_count s < max_streams (ss_limits s)" and i: "i = next_stream_id s"
    and s': "s' = s\<lparr>next_stream_id := next_stream_id s + 2,
      ss_streams := AList.update i ((stream_new i)\<lparr>st_priority := prio\<rparr>) (ss_streams s)\<rparr>"
    using opened by (auto simp: try_open_stream_with_priority_def Let_def split: if_splits)
  then have len: "length ids < unat (max_streams (ss_limits s))"
    using t(2) m by (simp add: stream_count_def word_less_nat_alt unat_of_nat_id ids_def)
  have fresh: "i \<notin> set ids"
  proof
    assume "i \<in> set ids"
    then obtain j where "j < k" "first_id (ss_role s) + 2 * of_nat k = first_id (ss_role s) + 2 * (of_nat j :: sid)"
      using t(5) [of i] by (auto simp: i t(3))
    then show False using id_injective [of j k "ss_role s"] t(4) len m by simp
  qed
  then show "i \<notin> fst ` set (ss_streams s)" by (simp add: ids_def)
  show "i mod 2 = local_parity (ss_role s)" by (simp add: i t(3))
  have tab: "table s' = (ss_role s, ss_limits s, first_id (ss_role s) + 2 * of_nat (Suc k), ids @ [i])"
    using fresh by (auto simp: table_def s' ids_def update_keys t(3) algebra_simps)
  have "\<exists>j < Suc k. x = first_id (ss_role s) + 2 * of_nat j"
    if "x \<in> set (ids @ [i])" "x mod 2 = local_parity (ss_role s)" for x
    using that t(5) [of x] by (auto simp: i t(3) less_Suc_eq)
  then show "stream_table_ok (table s')"
    unfolding tab using fresh t(1,4) len by (simp add: stream_table_ok_def exI [of _ "Suc k"] del: of_nat_Suc)
qed

lemma table_local:
  "session_send s i dat = (r, s') \<Longrightarrow> table s' = table s"
  "table (finish_stream s i) = table s" "table (session_ping s) = table s"
  "session_send_datagram s dat = Some (r, s') \<Longrightarrow> table s' = table s"
  "session_recv_datagram s = (d, s') \<Longrightarrow> table s' = table s"
  "drain_cc_ack s = (f, s') \<Longrightarrow> table s' = table s"
  "session_read s i out mx = Return (n, out', s') \<Longrightarrow> table s' = table s"
  "encode_raw P s t payload out = (m, out', s') \<Longrightarrow> table s' = table s"
  "drain_retransmits now s = (l, s') \<Longrightarrow> table s' = table s"
  by (auto simp: session_send_def finish_stream_def session_ping_def session_send_datagram_def
      session_recv_datagram_def drain_cc_ack_def session_read_def encode_raw_def drain_retransmits_def obind_Return Let_def
      table_simps table_stream_update [of "s\<lparr>send_window := w\<rparr>" for w, simplified]
      split: prod.splits sum.splits option.splits)

lemma table_handle_ack_frame: "table (handle_ack_frame now s frame) = table s"
  by (simp add: handle_ack_frame_def Let_def table_simps split: option.split prod.split)

lemma stream_table_receive:
  assumes "stream_table_ok (table s)" and "receive_packet P now s buf = Some (r, s')"
  shows "stream_table_ok (table s') \<and> ss_role s' = ss_role s \<and> ss_limits s' = ss_limits s"
proof (cases "fst (decode P (ss_decoder s) buf)")
  case (Inl e)
  then have "table s' = table s" using assms(2) by (auto simp: receive_packet_def table_simps split: prod.splits)
  with assms(1) show ?thesis by (simp add: table_def)
next
  case (Inr x)
  obtain t n p where x: "x = (t, n, p)" by (cases x)
  obtain d where d: "decode P (ss_decoder s) buf = (Inr (t, n, p), d)" using Inr x by (cases "decode P (ss_decoder s) buf") auto
  define s1 where "s1 = s\<lparr>ss_decoder := snd d, ss_acks := on_received now (ss_acks s) n (ack_eliciting t)\<rparr>"
  have s1: "table s1 = table s" by (simp add: s1_def table_simps)
  have dis: "dispatch_packet now s1 t p = Some (r, s')"
    using assms(2) d by (cases d) (simp add: receive_packet_def s1_def)
  show ?thesis
  proof (cases "t = Data")
    case True
    then have h: "handle_data_frame s1 p = (r, s')" using dis by (simp add: dispatch_packet_def)
    from table_handle_data_frame [OF h] show ?thesis
      using stream_table_remote [of s1] assms(1) s1 by (auto simp: table_def)
  next
    case False
    then have "table s' = table s1"
      using dis by (auto simp: dispatch_packet_def table_simps table_handle_ack_frame split: pkt_type.splits option.splits)
    with s1 assms(1) show ?thesis by (simp add: table_def)
  qed
qed

lemma stream_table_step:
  assumes "session_step P s s'" and "stream_table_ok (table s)" and "max_streams (ss_limits s) \<le> 2 ^ 31"
  shows "stream_table_ok (table s') \<and> ss_role s' = ss_role s \<and> ss_limits s' = ss_limits s"
  using assms
proof cases
  case (step_open prio r)
  show ?thesis
  proof (cases r)
    case None
    with step_open have "s' = s" by (auto simp: try_open_stream_with_priority_def Let_def split: if_splits)
    with assms show ?thesis by simp
  next
    case (Some i)
    have "ss_role s' = ss_role s \<and> ss_limits s' = ss_limits s"
      using step_open by (auto simp: try_open_stream_with_priority_def Let_def split: if_splits)
    with Some step_open stream_table_open(3) [OF assms(2,3)] show ?thesis by blast
  qed
next
  case (step_receive now buf r)
  then show ?thesis using stream_table_receive assms(2) by blast
next
  case (step_flush keys now r)
  then have "table s' = table s" using table_flush by blast
  with assms show ?thesis by (simp add: table_def)
qed (use assms(2) table_local in \<open>force simp: table_def\<close>)+

lemma stream_table_reachable:
  assumes "session_reachable P (session_with_limits n r enc dec lim) s" and "max_streams lim \<le> 2 ^ 31"
  shows "stream_table_ok (table s) \<and> ss_role s = r \<and> ss_limits s = lim"
  using assms(1)
proof (induction rule: rtranclp_induct)
  case base
  then show ?case using stream_table_new by (simp add: session_with_limits_def)
next
  case (step s s')
  then show ?case using stream_table_step [of P s s'] assms(2) by simp
qed

section \<open>What holds of every reachable session\<close>

text \<open>C15: Stream identifiers and the stream limit are safe against the peer. In every state a session can reach
  through any sequence of its operations, whatever packets arrive, and whose limit is at most \<open>2 ^ 31\<close>, it holds at most \<^verbatim>\<open>max_streams\<close> streams
  under distinct identifiers, and opening a stream succeeds exactly below that limit, with an identifier of
  the session's own parity that is not in use: it collides neither with an earlier local stream nor with one the
  peer opened.\<close>

theorem session_stream_table_safe:
  assumes "session_reachable P (session_with_limits n r enc dec lim) s" and "max_streams lim \<le> 2 ^ 31"
  shows "length (ss_streams s) \<le> unat (max_streams lim) \<and> distinct (map fst (ss_streams s)) \<and>
    (case fst (try_open_stream_with_priority s prio) of
       None \<Rightarrow> length (ss_streams s) = unat (max_streams lim)
     | Some i \<Rightarrow> i mod 2 = local_parity r \<and> i \<notin> fst ` set (ss_streams s))"
proof -
  have ok: "stream_table_ok (table s)" "ss_role s = r" "ss_limits s = lim" using stream_table_reachable [OF assms] by simp_all
  then have le: "length (ss_streams s) \<le> unat (max_streams lim)" "distinct (map fst (ss_streams s))"
    by (simp_all add: stream_table_ok_def table_def)
  have "length (ss_streams s) < 2 ^ LENGTH(32)" using le(1) unsigned_less [of "max_streams lim", where 'a = nat] by simp
  then have cnt: "unat (stream_count s) = length (ss_streams s)" by (simp add: stream_count_def unat_of_nat_id)
  show ?thesis
  proof (cases "fst (try_open_stream_with_priority s prio)")
    case None
    then have "max_streams lim \<le> stream_count s"
      using ok(3) by (simp add: try_open_stream_with_priority_def Let_def split: if_splits)
    with None le cnt show ?thesis by (simp add: word_le_nat_alt)
  next
    case (Some i)
    then have "try_open_stream_with_priority s prio = (Some i, snd (try_open_stream_with_priority s prio))"
      by (simp add: prod_eq_iff)
    from stream_table_open(1,2) [OF ok(1) _ this] ok(2,3) assms(2) Some le show ?thesis by simp
  qed
qed

theorem session_stream_table_safe_witness:
  "length (ss_streams (snd (try_open_stream_with_priority
     (session_with_role 1 Client (encoder_new demo_keys 1) (decoder_new demo_keys)) 4))) \<le> 1024"
proof -
  have "session_reachable demo_prims
      (session_with_limits 1 Client (encoder_new demo_keys 1) (decoder_new demo_keys) session_limits_default)
      (snd (try_open_stream_with_priority
        (session_with_role 1 Client (encoder_new demo_keys 1) (decoder_new demo_keys)) 4))"
    unfolding session_with_role_def by (intro r_into_rtranclp step_open [of _ 4]) (simp add: prod_eq_iff)
  from session_stream_table_safe [OF this] show ?thesis by (simp add: session_limits_default_def)
qed

end
