(* ===== verification/Session_Transfer.thy ===== *)
theory Session_Transfer
  imports Seam_Session
begin

text \<open>
  Two sessions against each other. A client opens streams, writes to them and flushes; the network drops,
  repeats and reorders its packets; a server receives what arrives and reads. The first half computes what
  \<open>flush\<close> puts on the wire, the second what \<open>receive_packet\<close> makes of it.
\<close>

section \<open>What a flush puts on the wire\<close>

abbreviation data_packet :: "bytes \<Rightarrow> tagged_packet" where
  "data_packet b \<equiv> \<lparr>is_control = False, pkt_bytes = b\<rparr>"

definition advance :: "packet_encoder \<Rightarrow> nat \<Rightarrow> packet_encoder" where
  "advance e n = e\<lparr>next_pkt_num := next_pkt_num e + of_nat n\<rparr>"

lemma advance_simps [simp]:
  "advance e 0 = e" "advance (advance e m) n = advance e (m + n)"
  "encoder_keys (advance e n) = encoder_keys e" "session_id (advance e n) = session_id e"
  "next_pkt_num (advance e n) = next_pkt_num e + of_nat n"
  by (simp_all add: advance_def ac_simps)

definition encode_one :: "prims \<Rightarrow> packet_encoder \<Rightarrow> pkt_type \<Rightarrow> bytes \<Rightarrow> bytes" where
  "encode_one P e t f = fst (snd (encode P e t f (replicate (encode_buf_len (length f)) 0)))"

lemma encode_all_Cons: "encode_all P e ((t, f) # ms) = encode_one P e t f # encode_all P (advance e 1) ms"
proof -
  have "snd (snd (encode P e t f (replicate (encode_buf_len (length f)) 0))) = advance e 1"
    by (simp add: encode_state advance_def)
  then show ?thesis by (auto simp: encode_one_def split: prod.split)
qed

declare encode_all.simps(2) [simp del] encode_all_Cons [simp]

lemma encode_all_append:
  "encode_all P e (xs @ ys) = encode_all P e xs @ encode_all P (advance e (length xs)) ys"
  by (induction xs arbitrary: e) auto

lemma encode_packet_ok:
  assumes "aead_lawful P" and "keys_ok (encoder_keys (ss_encoder s))" and "length f < 2 ^ 32"
  shows "encode_packet P s t f =
    (Inr (encode_one P (ss_encoder s) t f), s\<lparr>ss_encoder := advance (ss_encoder s) 1\<rparr>)"
proof -
  let ?e = "ss_encoder s"
  obtain c where c: "encrypt_in_place P (make_cipher (keys_cipher_suite (encoder_keys ?e)) (enc_key (encoder_keys ?e)))
        (packet_nonce (encoder_keys ?e) (next_pkt_num ?e)) (packet_header (session_id ?e) t (next_pkt_num ?e)) f = Inr c"
      "length c = length f + 16"
    by (rule seal_packet_lawful [OF assms])
  have buf: "replicate (32 + length f + 16) 0 = replicate (encode_buf_len (length f)) (0 :: u8)"
    by (simp add: encode_buf_len_def packet_sizes)
  show ?thesis
    using encode_sealed [OF _ c, of "replicate (encode_buf_len (length f)) 0"] c(2)
    by (simp add: encode_packet_def encode_one_def buf advance_def) (simp add: encode_buf_len_def packet_sizes)
qed

fun track_all :: "instant \<Rightarrow> arq_tracker \<Rightarrow> u64 \<Rightarrow> bytes list \<Rightarrow> arq_tracker" where
  "track_all now a n [] = a"
| "track_all now a n (b # bs) = track_all now (arq_on_sent now a n b) (n + 1) bs"

lemma track_all_append:
  "track_all now a n (xs @ ys) = track_all now (track_all now a n xs) (n + of_nat (length xs)) ys"
  by (induction xs arbitrary: a n) (simp_all add: ac_simps)

lemma send_tracked_ok:
  assumes "aead_lawful P" and "keys_ok (encoder_keys (ss_encoder s))" and "length f < 2 ^ 32"
  shows "send_tracked P now s f =
    (Inr (encode_one P (ss_encoder s) Data f),
     s\<lparr>ss_encoder := advance (ss_encoder s) 1,
       ss_arq := arq_on_sent now (ss_arq s) (next_pkt_num (ss_encoder s)) (encode_one P (ss_encoder s) Data f)\<rparr>)"
  by (simp add: send_tracked_def encode_packet_ok [OF assms] peek_next_pkt_num_def Let_def)

text \<open>The frames of one stream, and the session once they are sent.\<close>

definition stream_frames :: "sid \<Rightarrow> seam_stream \<Rightarrow> (pkt_type \<times> bytes) list" where
  "stream_frames i st = map (\<lambda>(off, chunk). (Data, stream_frame 0 i off chunk)) (poll_all st 1386)"

definition sent :: "prims \<Rightarrow> instant \<Rightarrow> session \<Rightarrow> (pkt_type \<times> bytes) list \<Rightarrow> (sid \<times> seam_stream) list \<Rightarrow> session" where
  "sent P now s ms strs =
     s\<lparr>ss_encoder := advance (ss_encoder s) (length ms),
       ss_arq := track_all now (ss_arq s) (next_pkt_num (ss_encoder s)) (encode_all P (ss_encoder s) ms),
       ss_streams := strs\<rparr>"

lemma sent_simps [simp]:
  "ss_encoder (sent P now s ms strs) = advance (ss_encoder s) (length ms)"
  "ss_streams (sent P now s ms strs) = strs" "sent P now s [] (ss_streams s) = s"
  by (simp_all add: sent_def)

lemma sent_sent [simp]: "sent P now (sent P now s ms strs) ns strs' = sent P now s (ms @ ns) strs'"
  by (simp add: sent_def encode_all_append track_all_append)

lemma alist_update_same: "map_of m k = Some v \<Longrightarrow> AList.update k v m = m"
  by (induction m) (auto split: if_splits)

lemma alist_update_append: "k \<notin> fst ` set m \<Longrightarrow> AList.update k v (m @ n) = m @ AList.update k v n"
  by (induction m) auto

lemma poll_all_max: "0 < mx \<Longrightarrow> \<forall>x \<in> set (poll_all st mx). length (snd x) \<le> mx"
proof (induction st mx rule: poll_all.induct)
  case (1 s mx)
  show ?case
  proof (cases "fst (poll_send s mx)")
    case None
    then have "poll_all s mx = []" by (subst poll_all.simps) (auto split: prod.split)
    then show ?thesis by simp
  next
    case (Some x)
    then have poll: "poll_send s mx = (Some x, snd (poll_send s mx))" by (simp add: prod_eq_iff)
    then have "poll_all s mx = x # poll_all (snd (poll_send s mx)) mx" using 1(2) by (subst poll_all.simps) (auto split: prod.split)
    moreover have "length (snd x) \<le> mx" using Some by (auto simp: poll_send_def Let_def split: if_splits)
    ultimately show ?thesis using 1(1) [OF _ poll [symmetric] refl] 1(2) by simp
  qed
qed

lemma length_stream_frame [simp]: "length (stream_frame fl i off chunk) = 16 + length chunk"
  by (simp add: stream_frame_def)

lemma drain_stream_ok:
  assumes "aead_lawful P" and "keys_ok (encoder_keys (ss_encoder s))" and "map_of (ss_streams s) i = Some st"
  shows "drain_stream P now i s ps =
    Return (Inr (ps @ map data_packet (encode_all P (ss_encoder s) (stream_frames i st))),
      sent P now s (stream_frames i st) (AList.update i (st\<lparr>send_buf := []\<rparr>) (ss_streams s)))"
  using assms(2,3)
proof (induction st "1386 :: nat" arbitrary: s ps rule: poll_all.induct)
  case (1 st)
  have mp: "MAX_PAYLOAD - 14 = 1386" by (simp add: MAX_PAYLOAD_def)
  show ?case
  proof (cases "send_buf st = []")
    case True
    then have "poll_send st 1386 = (None, st)" "stream_frames i st = []"
      by (simp_all add: poll_send_def stream_frames_def poll_all.simps)
    with True 1(3) show ?thesis
      by (subst drain_stream.simps) (simp add: mp alist_update_same)
  next
    case False
    obtain off chunk st' where poll: "poll_send st 1386 = (Some (off, chunk), st')"
      and chunk: "length chunk \<le> 1386" and st': "st'\<lparr>send_buf := []\<rparr> = st\<lparr>send_buf := []\<rparr>"
      using False by (simp add: poll_send_def Let_def)
    define f where "f = stream_frame 0 i off chunk"
    have frames: "stream_frames i st = [(Data, f)] @ stream_frames i st'"
      using poll by (simp add: stream_frames_def poll_all.simps [of st] f_def)
    define s1 where "s1 = s\<lparr>ss_streams := AList.update i st' (ss_streams s)\<rparr>"
    have tr: "send_tracked P now s1 f =
        (Inr (encode_one P (ss_encoder s) Data f), sent P now s [(Data, f)] (AList.update i st' (ss_streams s)))"
      using send_tracked_ok [OF assms(1), of s1 f now] 1(2) chunk by (simp add: s1_def f_def sent_def)
    have "drain_stream P now i s ps =
        drain_stream P now i (sent P now s [(Data, f)] (AList.update i st' (ss_streams s)))
          (ps @ [data_packet (encode_one P (ss_encoder s) Data f)])"
      using poll tr 1(3) by (subst drain_stream.simps) (simp add: mp f_def s1_def)
    also have "\<dots> = Return (Inr ((ps @ [data_packet (encode_one P (ss_encoder s) Data f)]) @
          map data_packet (encode_all P (advance (ss_encoder s) 1) (stream_frames i st'))),
        sent P now s ([(Data, f)] @ stream_frames i st') (AList.update i (st'\<lparr>send_buf := []\<rparr>) (ss_streams s)))"
      using 1(1) [OF _ poll [symmetric] refl, of "sent P now s [(Data, f)] (AList.update i st' (ss_streams s))"] 1(2)
      by (simp add: update_conv')
    finally show ?thesis by (simp add: frames st')
  qed
qed

lemma flush_fin_idle:
  "map_of (ss_streams s) i = Some st \<Longrightarrow> \<not> fin_sent st \<Longrightarrow> flush_fin P now i s ps = Return (Inr ps, s)"
  by (simp add: flush_fin_def should_send_fin_def)

definition frames_of :: "(sid \<times> seam_stream) list \<Rightarrow> sid list \<Rightarrow> (pkt_type \<times> bytes) list" where
  "frames_of strs ids = concat (map (\<lambda>i. stream_frames i (the (map_of strs i))) ids)"

lemma flush_streams_ok:
  assumes "aead_lawful P"
    and "keys_ok (encoder_keys (ss_encoder s))" "distinct ids"
    and "\<forall>i \<in> set ids. \<exists>st. map_of (ss_streams s) i = Some st \<and> \<not> fin_sent st"
  shows "\<exists>strs. flush_streams P now ids s ps =
    Return (Inr (ps @ map data_packet (encode_all P (ss_encoder s) (frames_of (ss_streams s) ids))),
      sent P now s (frames_of (ss_streams s) ids) strs)"
  using assms(2-)
proof (induction ids arbitrary: s ps)
  case Nil
  then show ?case by (auto simp: frames_of_def intro: exI [of _ "ss_streams s"])
next
  case (Cons i ids)
  then obtain st where st: "map_of (ss_streams s) i = Some st" "\<not> fin_sent st" by auto
  define strs where "strs = AList.update i (st\<lparr>send_buf := []\<rparr>) (ss_streams s)"
  define s1 where "s1 = sent P now s (stream_frames i st) strs"
  have dr: "drain_stream P now i s ps =
      Return (Inr (ps @ map data_packet (encode_all P (ss_encoder s) (stream_frames i st))), s1)"
    unfolding s1_def strs_def using drain_stream_ok [OF assms(1) Cons.prems(1) st(1)] by blast
  have fin: "flush_fin P now i s1 qs = Return (Inr qs, s1)" for qs
    by (rule flush_fin_idle [of _ _ "st\<lparr>send_buf := []\<rparr>"]) (simp_all add: s1_def strs_def update_conv' st(2))
  have other: "map_of strs j = map_of (ss_streams s) j" if "j \<in> set ids" for j
    using Cons.prems(2) that by (auto simp: strs_def update_conv')
  then have fr: "frames_of strs ids = frames_of (ss_streams s) ids" by (simp add: frames_of_def cong: map_cong)
  have frs: "frames_of (ss_streams s) (i # ids) = stream_frames i st @ frames_of (ss_streams s) ids"
    by (simp add: frames_of_def st(1))
  let ?qs = "ps @ map data_packet (encode_all P (ss_encoder s) (stream_frames i st))"
  have "\<exists>strs'. flush_streams P now ids s1 ?qs =
      Return (Inr (?qs @ map data_packet (encode_all P (ss_encoder s1) (frames_of (ss_streams s1) ids))),
        sent P now s1 (frames_of (ss_streams s1) ids) strs')"
    using Cons.prems other by (intro Cons.IH) (auto simp: s1_def)
  then obtain strs' where r: "flush_streams P now ids s1 ?qs =
      Return (Inr (?qs @ map data_packet (encode_all P (ss_encoder s1) (frames_of (ss_streams s1) ids))),
        sent P now s1 (frames_of (ss_streams s1) ids) strs')" by blast
  have "flush_streams P now (i # ids) s ps = flush_streams P now ids s1 ?qs" by (simp add: dr fin)
  then show ?case unfolding r frs by (auto simp: s1_def fr encode_all_append)
qed

definition idle :: "session \<Rightarrow> bool" where
  "idle s \<longleftrightarrow> send_queue (ss_datagrams s) = [] \<and> \<not> ack_pending (ss_acks s) \<and> pending_max_data s = None \<and>
     \<not> pending_pong s \<and> \<not> pending_ping s"

lemma flush_rest_idle: "idle s \<Longrightarrow> flush_rest P now s ps = (Inr ps, s)"
  by (simp add: idle_def flush_rest_def flush_datagrams_def flush_ack_def flush_max_data_def flush_pong_def flush_ping_def rbind_def)

lemma flush_ok:
  assumes "aead_lawful P" "keys_ok (encoder_keys (ss_encoder s))" "distinct keys" "idle s"
    and "\<forall>i \<in> set keys. \<exists>st. map_of (ss_streams s) i = Some st \<and> \<not> fin_sent st"
  shows "\<exists>strs. flush P now keys s =
    Return (Inr (map data_packet (encode_all P (ss_encoder s) (frames_of (ss_streams s) (sort_key (stream_priority s) keys)))),
      sent P now s (frames_of (ss_streams s) (sort_key (stream_priority s) keys)) strs)"
proof -
  let ?ids = "sort_key (stream_priority s) keys"
  obtain strs where f: "flush_streams P now ?ids s [] =
      Return (Inr ([] @ map data_packet (encode_all P (ss_encoder s) (frames_of (ss_streams s) ?ids))),
        sent P now s (frames_of (ss_streams s) ?ids) strs)"
    using flush_streams_ok [OF assms(1,2), of ?ids now "[]"] assms(3,5) by auto
  have "idle (sent P now s (frames_of (ss_streams s) ?ids) strs)" using assms(4) by (simp add: idle_def sent_def)
  with f show ?thesis by (intro exI [of _ strs]) (simp add: flush_def flush_rest_idle)
qed

section \<open>The client\<close>

text \<open>A client that opens one stream per message and writes the message to it; an \<^verbatim>\<open>Err\<close> is unwrapped.\<close>

fun send_all :: "session \<Rightarrow> bytes list \<Rightarrow> (sid list \<times> session) outcome" where
  "send_all s [] = Return ([], s)"
| "send_all s (m # ms) =
     obind (open_stream s) (\<lambda>(i, s1).
       case session_send s1 i m of
         (Inl _, _) \<Rightarrow> Panic
       | (Inr _, s2) \<Rightarrow> obind (send_all s2 ms) (\<lambda>(is, s3). Return (i # is, s3)))"

definition nth_id :: "nat \<Rightarrow> sid" where
  "nth_id x = 1 + 2 * of_nat x"

definition written :: "sid \<Rightarrow> bytes \<Rightarrow> seam_stream" where
  "written i m = (stream_new i)\<lparr>send_buf := m, send_offset := of_nat (length m)\<rparr>"

definition opened :: "bytes list \<Rightarrow> (sid \<times> seam_stream) list" where
  "opened ms = map (\<lambda>x. (nth_id x, written (nth_id x) (ms ! x))) [0..<length ms]"

definition client_state :: "session \<Rightarrow> bytes list \<Rightarrow> session" where
  "client_state s ms =
     s\<lparr>next_stream_id := nth_id (length ms),
       send_window := \<lparr>flow_limit = DEFAULT_WINDOW, flow_consumed = of_nat (sum_list (map length ms))\<rparr>,
       ss_streams := opened ms\<rparr>"

lemma nth_id_inj: "x < 2 ^ 31 \<Longrightarrow> y < 2 ^ 31 \<Longrightarrow> nth_id x = nth_id y \<longleftrightarrow> x = y"
proof
  assume "x < 2 ^ 31" "y < 2 ^ 31" "nth_id x = nth_id y"
  then have "unat (of_nat (2 * x) :: sid) = unat (of_nat (2 * y) :: sid)" "2 * x < 2 ^ LENGTH(32)" "2 * y < 2 ^ LENGTH(32)"
    by (simp_all add: nth_id_def)
  then have "2 * x = 2 * y" by (simp only: unat_of_nat_id)
  then show "x = y" by simp
qed simp

lemma nth_id_parity [simp]: "nth_id x mod 2 = 1"
  by (simp add: nth_id_def mod_2_eq_odd)

lemma opened_keys [simp]: "fst ` set (opened ms) = nth_id ` {..<length ms}" "length (opened ms) = length ms"
  by (force simp: opened_def)+

lemma opened_snoc: "opened (ms @ [m]) = opened ms @ [(nth_id (length ms), written (nth_id (length ms)) m)]"
  by (simp add: opened_def nth_append)

lemma opened_distinct: "length ms \<le> 2 ^ 31 \<Longrightarrow> distinct (map fst (opened ms))"
  by (auto simp: opened_def distinct_map inj_on_def nth_id_inj comp_def)

lemma opened_lookup: "length ms \<le> 2 ^ 31 \<Longrightarrow> x < length ms \<Longrightarrow> map_of (opened ms) (nth_id x) = Some (written (nth_id x) (ms ! x))"
  by (rule map_of_is_SomeI [OF opened_distinct]) (auto simp: opened_def)

lemma send_all_ok:
  assumes "max_streams (ss_limits s) = 1024" "length (done @ ms) \<le> 1024" "sum_list (map length (done @ ms)) \<le> 2 ^ 24"
  shows "send_all (client_state s done) ms =
    Return (map nth_id [length done..<length done + length ms], client_state s (done @ ms))"
  using assms(2,3)
proof (induction ms arbitrary: "done")
  case (Cons m ms)
  let ?n = "length done" and ?i = "nth_id (length done)"
  have n: "?n < 1024" "length m \<le> 2 ^ 24" "sum_list (map length done) + length m \<le> 2 ^ 24" using Cons.prems by simp_all
  have fresh: "?i \<notin> fst ` set (opened done)" using n by (auto simp: nth_id_inj)
  have "unat (stream_count (client_state s done)) = ?n" using n by (simp add: stream_count_def client_state_def unat_of_nat_id)
  then have room: "\<not> max_streams (ss_limits s) \<le> stream_count (client_state s done)"
    using assms(1) n by (simp add: word_le_nat_alt)
  have "open_stream (client_state s done) =
      Return (?i, (client_state s done)\<lparr>next_stream_id := nth_id (Suc ?n), ss_streams := opened done @ [(?i, stream_new ?i)]\<rparr>)"
    using room alist_update_fresh [OF fresh]
    by (simp add: open_stream_def open_stream_with_priority_def try_open_stream_with_priority_def Let_def client_state_def)
      (simp add: stream_new_def nth_id_def add.commute add.left_commute)
  moreover have "flow_reserve (send_window (client_state s done)) (of_nat (length m)) =
      (Inr (), send_window (client_state s (done @ [m])))"
    using n by (simp add: flow_reserve_def client_state_def DEFAULT_WINDOW_def word_less_nat_alt unat_of_nat_id flip: of_nat_add)
  moreover have "stream_write (stream_new ?i) m = (Inr 0, written ?i m)"
    using n by (simp add: stream_write_def stream_new_def written_def sat_add_def STREAM_WINDOW_def word_less_nat_alt unat_of_nat_id)
  moreover have "map_of (opened done @ [(?i, stream_new ?i)]) ?i = Some (stream_new ?i)"
    using fresh by (simp add: map_add_def map_of_eq_None_iff [THEN iffD2])
  moreover have "AList.update ?i (written ?i m) (opened done @ [(?i, stream_new ?i)]) = opened (done @ [m])"
    using alist_update_append [OF fresh] by (simp add: opened_snoc)
  ultimately have "send_all (client_state s done) (m # ms) =
      obind (send_all (client_state s (done @ [m])) ms) (\<lambda>(is, s3). Return (?i # is, s3))"
    by (simp add: session_send_def Let_def client_state_def)
  also have "\<dots> = Return (?i # map nth_id [Suc ?n..<Suc ?n + length ms], client_state s (done @ m # ms))"
    using Cons.IH [of "done @ [m]"] Cons.prems by simp
  finally show ?case by (simp add: upt_conv_Cons del: upt_Suc)
qed (simp add: client_state_def)

section \<open>The server\<close>

lemma stream_frame_fields:
  assumes "length chunk < 2 ^ 16"
  shows "unat (of_le (slice (stream_frame fl i off chunk) 2 4) :: u16) = length chunk"
    "of_le (slice (stream_frame fl i off chunk) 4 8) = i" "of_le (slice (stream_frame fl i off chunk) 8 16) = off"
    "slice (stream_frame fl i off chunk) 16 (16 + length chunk) = chunk" "stream_frame fl i off chunk ! 1 = fl"
proof -
  have "slice (stream_frame fl i off chunk) 2 4 = u16_to_le (of_nat (length chunk))"
    "slice (stream_frame fl i off chunk) 4 8 = u32_to_le i" "slice (stream_frame fl i off chunk) 8 16 = u64_to_le off"
    by (simp_all add: stream_frame_def slice_def)
  then show "unat (of_le (slice (stream_frame fl i off chunk) 2 4) :: u16) = length chunk"
    "of_le (slice (stream_frame fl i off chunk) 4 8) = i" "of_le (slice (stream_frame fl i off chunk) 8 16) = off"
    using assms by (simp_all add: codec_simps unat_of_nat_id)
  show "slice (stream_frame fl i off chunk) 16 (16 + length chunk) = chunk" "stream_frame fl i off chunk ! 1 = fl"
    by (simp_all add: stream_frame_def slice_def)
qed

lemma handle_stream_frame:
  assumes "length chunk < 2 ^ 16" and "stream_receive (get_or_create_stream s i) off chunk False = (Inr (), st)"
    and "map_of (ss_streams s) i = None \<Longrightarrow> i mod 2 \<noteq> local_parity (ss_role s) \<and> stream_count s < max_streams (ss_limits s)"
  shows "\<exists>ev c m. handle_data_frame s (stream_frame 0 i off chunk) =
    (Inr ev, s\<lparr>recv_consumed := c, pending_max_data := m, ss_streams := AList.update i st (ss_streams s)\<rparr>)"
proof -
  have g: "get_or_create_stream (s\<lparr>recv_consumed := c, pending_max_data := m\<rparr>) i = get_or_create_stream s i" for c m
    by (simp add: get_or_create_stream_def)
  have nn: "\<not> (map_of (ss_streams s) i = None \<and> i mod 2 = local_parity (ss_role s))"
    "\<not> (map_of (ss_streams s) i = None \<and> max_streams (ss_limits s) \<le> stream_count s)"
    using assms(3) by auto
  show ?thesis
    unfolding handle_data_frame_def Let_def stream_frame_fields [OF assms(1)] length_stream_frame g if_not_P [OF nn(1)] if_not_P [OF nn(2)]
    by (simp add: assms(2) split del: if_split) blast
qed

definition arrived :: "(nat \<Rightarrow> sid \<times> nat) \<Rightarrow> nat set \<Rightarrow> sid \<Rightarrow> nat set" where
  "arrived loc G i = {j. \<exists>g \<in> G. loc g = (i, j)}"

lemma arrived_insert:
  "arrived loc (insert g G) i = (if fst (loc g) = i then insert (snd (loc g)) (arrived loc G i) else arrived loc G i)"
  by (auto simp: arrived_def prod_eq_iff)

text \<open>Packet \<open>g\<close> of the traffic carries chunk \<open>j\<close> of stream \<open>i\<close>, where \<open>loc g = (i, j)\<close>; \<open>receiving\<close> is the state of a
  server that has accepted the packets \<open>G\<close>.\<close>

definition traffic ::
  "prims \<Rightarrow> packet_keys \<Rightarrow> u64 \<Rightarrow> (sid \<Rightarrow> bytes list) \<Rightarrow> (nat \<Rightarrow> sid \<times> nat) \<Rightarrow> sid set \<Rightarrow> bytes list \<Rightarrow> bool" where
  "traffic P k a cs loc S pkts \<longleftrightarrow>
     length pkts \<le> 1024 \<and> finite S \<and> card S \<le> 1024 \<and> (\<forall>i \<in> S. i mod 2 = 1) \<and>
     (\<forall>i. chunks_ok (cs i) \<and> length (concat (cs i)) \<le> 2 ^ 24) \<and>
     (\<forall>g < length pkts. fst (loc g) \<in> S \<and> snd (loc g) < length (cs (fst (loc g))) \<and>
        length (cs (fst (loc g)) ! snd (loc g)) \<le> 1386 \<and>
        seal_packet P k a Data (of_nat g)
          (stream_frame 0 (fst (loc g)) (woff (cs (fst (loc g))) (snd (loc g))) (cs (fst (loc g)) ! snd (loc g))) = Inr (pkts ! g))"

definition receiving ::
  "packet_keys \<Rightarrow> (sid \<Rightarrow> bytes list) \<Rightarrow> (nat \<Rightarrow> sid \<times> nat) \<Rightarrow> sid set \<Rightarrow> nat set \<Rightarrow> session \<Rightarrow> bool" where
  "receiving k cs loc S G v \<longleftrightarrow>
     decoder_keys (ss_decoder v) = k \<and> replay_inv (replay (ss_decoder v)) (of_nat ` G) \<and>
     ss_role v = Server \<and> max_streams (ss_limits v) = 1024 \<and>
     distinct (map fst (ss_streams v)) \<and> fst ` set (ss_streams v) \<subseteq> S \<and>
     (\<forall>i. case map_of (ss_streams v) i of None \<Rightarrow> arrived loc G i = {} | Some st \<Rightarrow> reassembling (cs i) (arrived loc G i) 0 st)"

lemma reassembling_new:
  assumes "chunks_ok cs" "length (concat cs) \<le> 2 ^ 24"
  shows "reassembling cs {} 0 (stream_new i)"
proof -
  have "unat (of_nat (length (concat cs)) :: u64) = length (concat cs)" using assms(2) by (simp add: unat_of_nat_id)
  then have "of_nat (length (concat cs)) \<le> (STREAM_WINDOW :: u64)"
    using assms(2) by (simp add: word_le_nat_alt STREAM_WINDOW_def)
  then show ?thesis by (auto simp: reassembling_def stream_new_def segments_def woff_def intro: exI [of _ "[]"])
qed

lemma small_verdict:
  assumes "G \<subseteq> {..<1024}" "g < 1024"
  shows "spec_verdict (of_nat ` G) (of_nat g :: u64) = (if g \<in> G then Inl (Replay (of_nat g)) else Inr ())"
proof -
  have u: "unat (of_nat h :: u64) = h" if "h < 1024" for h using that by (intro unat_of_nat_id) simp
  have "spec_base (of_nat ` G :: u64 set) = 0"
  proof (cases "G = {}")
    case False
    have fin: "finite G" using assms(1) finite_subset by blast
    have "Max (unat ` (of_nat ` G :: u64 set)) \<le> 1023"
      using False fin assms(1) u by (subst Max_le_iff) (auto simp: subset_iff less_Suc_eq_le [symmetric])
    then show ?thesis by (simp add: spec_base_def)
  qed (simp add: spec_base_def)
  moreover have "(of_nat g :: u64) \<in> of_nat ` G \<longleftrightarrow> g \<in> G"
  proof
    assume "(of_nat g :: u64) \<in> of_nat ` G"
    then obtain h where "h \<in> G" "(of_nat g :: u64) = of_nat h" by auto
    moreover from this have "unat (of_nat g :: u64) = unat (of_nat h :: u64)" by simp
    ultimately show "g \<in> G" using u [of g] u [of h] assms by auto
  qed simp
  ultimately show ?thesis by (simp add: spec_verdict_def)
qed

lemma decode_traffic:
  assumes "aead_lawful P" "keys_ok k" "traffic P k a cs loc S pkts" "receiving k cs loc S G v"
    and "G \<subseteq> {..<length pkts}" "g < length pkts" "loc g = (i, j)"
  shows "g \<in> G \<Longrightarrow> fst (decode P (ss_decoder v) (pkts ! g)) = Inl (Replay (of_nat g)) \<and>
      snd (snd (decode P (ss_decoder v) (pkts ! g))) = ss_decoder v"
    and "g \<notin> G \<Longrightarrow> fst (decode P (ss_decoder v) (pkts ! g)) =
        Inr (Data, of_nat g, stream_frame 0 i (woff (cs i) j) (cs i ! j)) \<and>
      decoder_keys (snd (snd (decode P (ss_decoder v) (pkts ! g)))) = k \<and>
      replay_inv (replay (snd (snd (decode P (ss_decoder v) (pkts ! g))))) (of_nat ` insert g G)"
proof -
  define f where "f = stream_frame 0 i (woff (cs i) j) (cs i ! j)"
  have t: "length pkts \<le> 1024" "length (cs i ! j) \<le> 1386" "seal_packet P k a Data (of_nat g) f = Inr (pkts ! g)"
    using assms(3,6,7) by (force simp: traffic_def f_def)+
  have d: "decoder_keys (ss_decoder v) = k" "replay_inv (replay (ss_decoder v)) (of_nat ` G)"
    using assms(4) by (simp_all add: receiving_def)
  have len: "length f + 48 \<le> 65535" "length f < 2 ^ 32" using t(2) by (simp_all add: f_def)
  obtain c where c: "length c = length f + 16"
    "decrypt_in_place P (make_cipher (keys_cipher_suite k) (enc_key k)) (packet_nonce k (of_nat g)) (packet_header a Data (of_nat g)) c = Inr f"
    "seal_packet P k a Data (of_nat g) f = Inr (apply_header_protection P (hp_key k) (packet_header a Data (of_nat g)) (take 16 c) @ c)"
    by (rule seal_packet_lawful [OF assms(1,2) len(2)])
  then have pkt: "pkts ! g = apply_header_protection P (hp_key k) (packet_header a Data (of_nat g)) (take 16 c) @ c"
    using t(3) by simp
  note dec = decode_sealed [OF c(1) len(1), where d = "ss_decoder v", unfolded d(1), OF c(2), folded pkt]
  have v: "replay_check (replay (ss_decoder v)) (of_nat g) = (if g \<in> G then Inl (Replay (of_nat g)) else Inr ())"
    unfolding replay_check_spec [OF d(2)] using assms(5,6) t(1) by (intro small_verdict) (auto simp: subset_iff)
  show "fst (decode P (ss_decoder v) (pkts ! g)) = Inl (Replay (of_nat g)) \<and>
      snd (snd (decode P (ss_decoder v) (pkts ! g))) = ss_decoder v" if "g \<in> G"
    using dec(1) v that by simp
  show "fst (decode P (ss_decoder v) (pkts ! g)) = Inr (Data, of_nat g, stream_frame 0 i (woff (cs i) j) (cs i ! j)) \<and>
      decoder_keys (snd (snd (decode P (ss_decoder v) (pkts ! g)))) = k \<and>
      replay_inv (replay (snd (snd (decode P (ss_decoder v) (pkts ! g))))) (of_nat ` insert g G)" if "g \<notin> G"
  proof -
    have chk: "replay_check (replay (ss_decoder v)) (of_nat g) = Inr ()" using v that by simp
    obtain r where r: "replay_commit (replay (ss_decoder v)) (of_nat g) = (Inr (), r)" "replay_inv r (insert (of_nat g) (of_nat ` G))"
      using window.check_then_commit [OF d(2) chk] by metis
    from dec(2) [OF chk r(1)] r(2) d(1) show ?thesis by (simp add: f_def)
  qed
qed

lemma receive_traffic:
  assumes "aead_lawful P" "keys_ok k" "traffic P k a cs loc S pkts" "receiving k cs loc S G v"
    and "G \<subseteq> {..<length pkts}" "g < length pkts"
  shows "\<exists>r v'. receive_packet P now v (pkts ! g) = Some (r, v') \<and> receiving k cs loc S (insert g G) v'"
proof -
  obtain i j where loc: "loc g = (i, j)" by force
  note dec = decode_traffic [OF assms loc]
  obtain r b d where d: "decode P (ss_decoder v) (pkts ! g) = (r, b, d)" by (cases "decode P (ss_decoder v) (pkts ! g)")
  show ?thesis
  proof (cases "g \<in> G")
    case True
    then have "receive_packet P now v (pkts ! g) = Some (Inl (Replay (of_nat g)), v)"
      using dec(1) d by (simp add: receive_packet_def)
    then show ?thesis using assms(4) True by (simp add: insert_absorb)
  next
    case False
    define s1 where "s1 = v\<lparr>ss_decoder := d, ss_acks := on_received now (ss_acks v) (of_nat g) (ack_eliciting Data)\<rparr>"
    have t: "i \<in> S" "i mod 2 = 1" "j < length (cs i)" "length (cs i ! j) < 2 ^ 16" "chunks_ok (cs i)"
      "length (concat (cs i)) \<le> 2 ^ 24" "finite S" "card S \<le> 1024"
      using assms(3,6) loc by (force simp: traffic_def)+
    have v: "distinct (map fst (ss_streams v))" "fst ` set (ss_streams v) \<subseteq> S" "ss_role v = Server"
      "max_streams (ss_limits v) = 1024"
      "\<And>i. case map_of (ss_streams v) i of None \<Rightarrow> arrived loc G i = {} | Some st \<Rightarrow> reassembling (cs i) (arrived loc G i) 0 st"
      using assms(4) by (simp_all add: receiving_def)
    have start: "reassembling (cs i) (arrived loc G i) 0 (get_or_create_stream s1 i)"
      using v(5) [of i] reassembling_new [OF t(5,6)]
      by (auto simp: get_or_create_stream_def s1_def split: option.splits)
    define st where "st = snd (stream_receive (get_or_create_stream s1 i) (woff (cs i) j) (cs i ! j) False)"
    have st: "stream_receive (get_or_create_stream s1 i) (woff (cs i) j) (cs i ! j) False = (Inr (), st)"
      "reassembling (cs i) (insert j (arrived loc G i)) 0 st"
      using reassembling_receive [OF t(5) start t(3)] by (simp_all add: st_def prod_eq_iff)
    have room: "stream_count s1 < max_streams (ss_limits s1)" if "map_of (ss_streams v) i = None"
    proof -
      have "insert i (fst ` set (ss_streams v)) \<subseteq> S" "i \<notin> fst ` set (ss_streams v)"
        using that v(2) t(1) by (auto simp: map_of_eq_None_iff)
      then have "Suc (card (fst ` set (ss_streams v))) \<le> card S"
        using card_mono [OF t(7), of "insert i (fst ` set (ss_streams v))"] by simp
      moreover have "card (fst ` set (ss_streams v)) = length (ss_streams v)"
        using distinct_card [OF v(1)] by simp
      ultimately have "length (ss_streams v) < 1024" using t(8) by simp
      then show ?thesis by (simp add: stream_count_def s1_def v(4) word_less_nat_alt unat_of_nat_id)
    qed
    obtain ev c m where h: "handle_data_frame s1 (stream_frame 0 i (woff (cs i) j) (cs i ! j)) =
        (Inr ev, s1\<lparr>recv_consumed := c, pending_max_data := m, ss_streams := AList.update i st (ss_streams s1)\<rparr>)"
      using handle_stream_frame [OF t(4) st(1)] room t(2) v(3) by (auto simp: s1_def)
    define v' where "v' = s1\<lparr>recv_consumed := c, pending_max_data := m, ss_streams := AList.update i st (ss_streams s1)\<rparr>"
    have rp: "receive_packet P now v (pkts ! g) = Some (Inr ev, v')"
      using dec(2) [OF False] d h by (simp add: receive_packet_def dispatch_packet_def s1_def v'_def)
    have strs: "ss_streams v' = AList.update i st (ss_streams v)" by (simp add: v'_def s1_def)
    have "case map_of (ss_streams v') x of None \<Rightarrow> arrived loc (insert g G) x = {}
        | Some st \<Rightarrow> reassembling (cs x) (arrived loc (insert g G) x) 0 st" for x
      unfolding strs update_conv' arrived_insert loc fst_conv snd_conv using v(5) [of x] st(2) by (cases "x = i") simp_all
    moreover have "distinct (map fst (ss_streams v'))" "fst ` set (ss_streams v') \<subseteq> S"
      using distinct_update [OF v(1)] v(2) t(1) by (simp_all add: strs dom_update)
    moreover have "decoder_keys (ss_decoder v') = k" "replay_inv (replay (ss_decoder v')) (of_nat ` insert g G)"
      "ss_role v' = Server" "max_streams (ss_limits v') = 1024"
      using dec(2) [OF False] d v(3,4) by (simp_all add: v'_def s1_def)
    ultimately show ?thesis using rp by (auto simp: receiving_def)
  qed
qed

fun receive_packets :: "prims \<Rightarrow> session \<Rightarrow> (instant \<times> bytes) list \<Rightarrow> session option" where
  "receive_packets P v [] = Some v"
| "receive_packets P v ((now, b) # bs) =
     (case receive_packet P now v b of None \<Rightarrow> None | Some (_, v') \<Rightarrow> receive_packets P v' bs)"

lemma receive_packets_traffic:
  assumes "aead_lawful P" "keys_ok k" "traffic P k a cs loc S pkts" "receiving k cs loc S G v"
    and "G \<subseteq> {..<length pkts}" "snd ` set arr \<subseteq> {..<length pkts}"
  shows "\<exists>v'. receive_packets P v (map (\<lambda>(now, g). (now, pkts ! g)) arr) = Some v' \<and> receiving k cs loc S (G \<union> snd ` set arr) v'"
  using assms(4-)
proof (induction arr arbitrary: G v)
  case (Cons e arr)
  obtain now g where e: "e = (now, g)" by force
  then have g: "g < length pkts" using Cons.prems by simp
  obtain r v' where r: "receive_packet P now v (pkts ! g) = Some (r, v')" "receiving k cs loc S (insert g G) v'"
    using receive_traffic [OF assms(1-3) Cons.prems(1,2) g] by blast
  from Cons.IH [OF r(2)] Cons.prems g show ?case by (simp add: e r(1))
qed simp

section \<open>End to end\<close>

lemma read_traffic:
  assumes "traffic P k a cs loc S pkts" "receiving k cs loc S G v" "length (concat (cs i)) \<le> mx"
    and "map_of (ss_streams v) i = Some st"
  obtains n v' j where "session_read v i [] mx = Return (Inr n, concat (take j (cs i)), v')"
    "j \<notin> arrived loc G i" "{..<j} \<subseteq> arrived loc G i"
proof -
  have ok: "chunks_ok (cs i)" using assms(1) by (simp add: traffic_def)
  have r: "reassembling (cs i) (arrived loc G i) 0 st"
    using assms(2,4) by (auto simp: receiving_def split: option.splits)
  obtain j st' where j: "stream_read st [] mx = Return (chunk_off (cs i) j - chunk_off (cs i) 0,
      [] @ slice (concat (cs i)) (chunk_off (cs i) 0) (chunk_off (cs i) j), st')"
    "reassembling (cs i) (arrived loc G i) j st'" "j \<notin> arrived loc G i"
    by (rule reassembling_read [OF ok r assms(3)])
  have "slice (concat (cs i)) 0 (chunk_off (cs i) j) = concat (take j (cs i))"
    unfolding slice_from_0 by (metis append_eq_conv_conj append_take_drop_id chunk_off_def concat_append)
  with j assms(4) show ?thesis by (intro that) (auto simp: session_read_def reassembling_def)
qed

text \<open>What a reader gets in one read: nothing when the stream is not known yet, \<open>None\<close> for a panic.\<close>

definition read_back :: "session \<Rightarrow> sid \<Rightarrow> nat \<Rightarrow> bytes option" where
  "read_back v i mx = (case session_read v i [] mx of Panic \<Rightarrow> None | Return (_, out, _) \<Rightarrow> Some out)"

lemma read_back_traffic:
  assumes "traffic P k a cs loc S pkts" "receiving k cs loc S G v" "length (concat (cs i)) \<le> mx"
    and "G \<subseteq> {..<length pkts}"
    and "\<And>j. j < length (cs i) \<Longrightarrow> \<exists>g < length pkts. loc g = (i, j)"
  shows "\<exists>out rest. read_back v i mx = Some out \<and> out @ rest = concat (cs i) \<and>
    ({g. g < length pkts \<and> fst (loc g) = i} \<subseteq> G \<longrightarrow> rest = [])"
proof (cases "map_of (ss_streams v) i")
  case None
  have "case map_of (ss_streams v) i of None \<Rightarrow> arrived loc G i = {} | Some st \<Rightarrow> reassembling (cs i) (arrived loc G i) 0 st"
    using assms(2) unfolding receiving_def by blast
  with None have none: "arrived loc G i = {}" by simp
  have "cs i = []" if "{g. g < length pkts \<and> fst (loc g) = i} \<subseteq> G"
  proof (rule ccontr)
    assume "cs i \<noteq> []"
    then obtain g where "g < length pkts" "loc g = (i, 0)" using assms(5) [of 0] by auto
    with that none show False by (auto simp: arrived_def)
  qed
  with None show ?thesis by (auto simp: read_back_def session_read_def)
next
  case (Some st)
  obtain n v' j where r: "session_read v i [] mx = Return (Inr n, concat (take j (cs i)), v')"
    "j \<notin> arrived loc G i" "{..<j} \<subseteq> arrived loc G i"
    by (rule read_traffic [OF assms(1-3) Some])
  have "length (cs i) \<le> j" if "{g. g < length pkts \<and> fst (loc g) = i} \<subseteq> G"
  proof (rule ccontr)
    assume "\<not> length (cs i) \<le> j"
    then obtain g where "g < length pkts" "loc g = (i, j)" using assms(5) [of j] by auto
    with that r(2) show False by (force simp: arrived_def)
  qed
  moreover have "concat (take j (cs i)) @ concat (drop j (cs i)) = concat (cs i)" by (metis append_take_drop_id concat_append)
  ultimately show ?thesis using r(1) by (auto simp: read_back_def)
qed

definition chunks_of :: "bytes list \<Rightarrow> sid \<Rightarrow> bytes list" where
  "chunks_of msgs i = (case map_of (opened msgs) i of None \<Rightarrow> [] | Some st \<Rightarrow> map snd (poll_all st 1386))"

definition locations :: "bytes list \<Rightarrow> sid list \<Rightarrow> (sid \<times> nat) list" where
  "locations msgs ids = concat (map (\<lambda>i. map (Pair i) [0..<length (chunks_of msgs i)]) ids)"

lemma chunks_of_written:
  assumes "length msgs \<le> 1024" "x < length msgs"
  shows "concat (chunks_of msgs (nth_id x)) = msgs ! x"
    and "stream_frames (nth_id x) (the (map_of (opened msgs) (nth_id x))) =
      map (\<lambda>j. (Data, stream_frame 0 (nth_id x) (woff (chunks_of msgs (nth_id x)) j) (chunks_of msgs (nth_id x) ! j)))
        [0..<length (chunks_of msgs (nth_id x))]"
    and "[] \<notin> set (chunks_of msgs (nth_id x))" "\<forall>c \<in> set (chunks_of msgs (nth_id x)). length c \<le> 1386"
proof -
  define st where "st = written (nth_id x) (msgs ! x)"
  have look: "map_of (opened msgs) (nth_id x) = Some st" using assms by (simp add: opened_lookup st_def)
  then have cs: "chunks_of msgs (nth_id x) = map snd (poll_all st 1386)" by (simp add: chunks_of_def)
  have p: "concat (map snd (poll_all st 1386)) = msgs ! x" "[] \<notin> set (map snd (poll_all st 1386))"
    "\<And>i. i < length (poll_all st 1386) \<Longrightarrow>
      poll_all st 1386 ! i = (woff (map snd (poll_all st 1386)) i, map snd (poll_all st 1386) ! i)"
    using poll_all_chunks [of 1386 st] by (auto simp: st_def written_def woff_def)
  then show "concat (chunks_of msgs (nth_id x)) = msgs ! x" "[] \<notin> set (chunks_of msgs (nth_id x))"
    unfolding cs by simp_all
  show "\<forall>c \<in> set (chunks_of msgs (nth_id x)). length c \<le> 1386"
    unfolding cs using poll_all_max [of 1386 st] by auto
  show "stream_frames (nth_id x) (the (map_of (opened msgs) (nth_id x))) =
      map (\<lambda>j. (Data, stream_frame 0 (nth_id x) (woff (chunks_of msgs (nth_id x)) j) (chunks_of msgs (nth_id x) ! j)))
        [0..<length (chunks_of msgs (nth_id x))]"
    unfolding cs stream_frames_def look
    by (rule nth_equalityI) (use p(3) [THEN arg_cong [of _ _ fst]] in \<open>simp_all add: case_prod_beta\<close>)
qed

lemma frames_of_locations:
  assumes "length msgs \<le> 1024" "set ids \<subseteq> nth_id ` {..<length msgs}"
  shows "frames_of (opened msgs) ids =
    map (\<lambda>(i, j). (Data, stream_frame 0 i (woff (chunks_of msgs i) j) (chunks_of msgs i ! j))) (locations msgs ids)"
  using assms(2)
proof (induction ids)
  case (Cons i ids)
  then obtain x where "x < length msgs" "i = nth_id x" by auto
  with Cons chunks_of_written(2) [OF assms(1), of x] show ?case
    by (simp add: frames_of_def locations_def comp_def)
qed (simp add: frames_of_def locations_def)

lemma set_locations: "set (locations msgs ids) = {(i, j). i \<in> set ids \<and> j < length (chunks_of msgs i)}"
  by (auto simp: locations_def)

lemma traffic_of_client:
  assumes "aead_lawful P" "keys_ok k" "length msgs \<le> 1024" "\<forall>m \<in> set msgs. length m \<le> 2 ^ 24"
    and "set ids = nth_id ` {..<length msgs}"
    and "pkts = encode_all P (encoder_new k a) (frames_of (opened msgs) ids)" "length pkts \<le> 1024"
  shows "traffic P k a (chunks_of msgs) (nth (locations msgs ids)) (set ids) pkts"
proof -
  let ?cs = "chunks_of msgs" and ?L = "locations msgs ids"
  define frm where "frm = (\<lambda>(i, j). (Data, stream_frame 0 i (woff (?cs i) j) (?cs i ! j)))"
  have fr: "frames_of (opened msgs) ids = map frm ?L"
    using frames_of_locations [OF assms(3), of ids] assms(5) by (simp add: frm_def)
  have len: "length pkts = length ?L" by (simp add: assms(6) fr)
  have cs: "chunks_ok (?cs i) \<and> length (concat (?cs i)) \<le> 2 ^ 24 \<and> (\<forall>c \<in> set (?cs i). length c \<le> 1386)" for i
  proof (cases "i \<in> nth_id ` {..<length msgs}")
    case True
    then obtain x where x: "x < length msgs" "i = nth_id x" by auto
    have "length (msgs ! x) \<le> 2 ^ 24" using assms(4) x(1) by simp
    with x chunks_of_written [OF assms(3) x(1)] show ?thesis by (auto simp: chunks_ok_def)
  next
    case False
    then have "map_of (opened msgs) i = None" by (simp add: map_of_eq_None_iff)
    then have "?cs i = []" by (simp add: chunks_of_def)
    then show ?thesis by (simp add: chunks_ok_def)
  qed
  have small: "length (snd m) < 2 ^ 32" if "m \<in> set (map frm ?L)" for m
    using that cs nth_mem by (fastforce simp: frm_def set_locations)
  have "fst (?L ! g) \<in> set ids \<and> snd (?L ! g) < length (?cs (fst (?L ! g))) \<and>
      length (?cs (fst (?L ! g)) ! snd (?L ! g)) \<le> 1386 \<and>
      seal_packet P k a Data (of_nat g) (stream_frame 0 (fst (?L ! g)) (woff (?cs (fst (?L ! g))) (snd (?L ! g)))
        (?cs (fst (?L ! g)) ! snd (?L ! g))) = Inr (pkts ! g)" if g: "g < length pkts" for g
  proof -
    obtain i j where ij: "?L ! g = (i, j)" by force
    have "(i, j) \<in> set ?L" using g len ij by (metis nth_mem)
    then have "i \<in> set ids" "j < length (?cs i)" by (simp_all add: set_locations)
    moreover have "seal_packet P k a (fst (map frm ?L ! g)) (next_pkt_num (encoder_new k a) + of_nat g) (snd (map frm ?L ! g)) =
        Inr (encode_all P (encoder_new k a) (map frm ?L) ! g)"
      using encode_all_nth [of P "encoder_new k a" "map frm ?L" g] assms(1,2) small g len by (simp add: encoder_new_def)
    ultimately show ?thesis using cs [of i] g len ij by (simp add: assms(6) fr frm_def encoder_new_def)
  qed
  moreover have "card (set ids) \<le> 1024"
    unfolding assms(5) using card_image_le [of "{..<length msgs}" nth_id] assms(3) by simp
  moreover have "\<forall>i \<in> set ids. i mod 2 = 1" unfolding assms(5) by auto
  ultimately show ?thesis using cs assms(7) by (simp add: traffic_def)
qed

lemma receiving_start:
  assumes "\<And>i. arrived loc {} i = {}"
  shows "receiving k cs loc S {} (session_with_role n Server e (decoder_new k))"
  using assms by (simp add: receiving_def session_with_role_def session_with_limits_def decoder_new_def replay_inv_new
      session_limits_default_def)

lemma client_start:
  "session_with_role n Client e d = client_state (session_with_role n Client e d) []"
  by (simp add: client_state_def session_with_role_def session_with_limits_def nth_id_def opened_def flow_new_def)

lemma flush_client:
  assumes "aead_lawful P" "keys_ok k" "length msgs \<le> 1024" "distinct keys" "set keys = nth_id ` {..<length msgs}"
  obtains c2 ids where "flush P now keys (client_state (session_with_role n Client (encoder_new k a) d) msgs) =
      Return (Inr (map data_packet (encode_all P (encoder_new k a) (frames_of (opened msgs) ids))), c2)"
    "set ids = set keys"
proof -
  define c where "c = client_state (session_with_role n Client (encoder_new k a) d) msgs"
  have c: "ss_encoder c = encoder_new k a" "ss_streams c = opened msgs" "idle c"
    by (simp_all add: c_def client_state_def session_with_role_def session_with_limits_def idle_def datagram_with_limits_def ack_new_def)
  have "\<exists>st. map_of (opened msgs) i = Some st \<and> \<not> fin_sent st" if "i \<in> set keys" for i
    using that assms(3,5) opened_lookup [of msgs] by (auto simp: written_def stream_new_def)
  moreover have "keys_ok (encoder_keys (ss_encoder c))" using assms(2) c(1) by (simp add: encoder_new_def)
  ultimately show ?thesis
    using flush_ok [OF assms(1) _ assms(4) c(3), of now] that [of "sort_key (stream_priority c) keys"] c(1,2)
    by (auto simp: c_def)
qed

text \<open>What the server's readers see of the packets \<open>bs\<close> of a client's flush, once \<open>arr\<close> has arrived.\<close>

lemma arrivals_read_back:
  assumes "aead_lawful P" "keys_ok k" "length msgs \<le> 1024" "\<forall>m \<in> set msgs. length m \<le> 2 ^ 24"
    and ids: "set ids = nth_id ` {..<length msgs}"
    and bs: "bs = encode_all P (encoder_new k a) (frames_of (opened msgs) ids)"
    and arr: "length bs \<le> 1024" "snd ` set arr \<subseteq> {..<length bs}"
  shows "\<exists>v. receive_packets P (session_with_role m Server e (decoder_new k)) (map (\<lambda>(t, g). (t, pkt_bytes (map data_packet bs ! g))) arr) = Some v \<and>
    (\<forall>x < length msgs. \<exists>out rest. read_back v (nth_id x) (2 ^ 24) = Some out \<and> out @ rest = msgs ! x \<and>
       ({g. g < length bs \<and> fst (locations msgs ids ! g) = nth_id x} \<subseteq> snd ` set arr \<longrightarrow> rest = []))"
proof -
  let ?loc = "nth (locations msgs ids)"
  have len: "length bs = length (locations msgs ids)"
    using frames_of_locations [OF assms(3), of ids] ids by (simp add: bs)
  have t: "traffic P k a (chunks_of msgs) ?loc (set ids) bs"
    using traffic_of_client [OF assms(1-4) ids bs arr(1)] .
  obtain v where v: "receive_packets P (session_with_role m Server e (decoder_new k)) (map (\<lambda>(t, g). (t, bs ! g)) arr) = Some v"
    "receiving k (chunks_of msgs) ?loc (set ids) (snd ` set arr) v"
    using receive_packets_traffic [OF assms(1,2) t receiving_start, of arr m e] arr(2) by (auto simp: arrived_def)
  have "\<exists>out rest. read_back v (nth_id x) (2 ^ 24) = Some out \<and> out @ rest = msgs ! x \<and>
      ({g. g < length bs \<and> fst (?loc g) = nth_id x} \<subseteq> snd ` set arr \<longrightarrow> rest = [])" if x: "x < length msgs" for x
  proof -
    have cx: "concat (chunks_of msgs (nth_id x)) = msgs ! x" using chunks_of_written(1) [OF assms(3) x] .
    have "\<exists>g < length bs. ?loc g = (nth_id x, j)" if "j < length (chunks_of msgs (nth_id x))" for j
    proof -
      have "(nth_id x, j) \<in> set (locations msgs ids)" using that x ids by (simp add: set_locations)
      then show ?thesis using len by (metis in_set_conv_nth)
    qed
    then show ?thesis
      using read_back_traffic [OF t v(2) _ arr(2), of "nth_id x" "2 ^ 24"] assms(4) x unfolding cx by auto
  qed
  moreover have same: "map (\<lambda>(t, g). (t, pkt_bytes (map data_packet bs ! g))) arr = map (\<lambda>(t, g). (t, bs ! g)) arr"
    using arr(2) by (auto simp: subset_iff)
  ultimately show ?thesis unfolding same v(1) by blast
qed

text \<open>C8: End-to-end delivery without head-of-line blocking. A client opens a stream per message, writes the
  messages (up to 1024 of them, 16 MiB in total) and flushes; both always succeed, in whatever order the stream
  map iterates. The network then drops, repeats and reorders the packets at will. If there are at most 1024 of
  them, the server processes every arrival, and a read of any stream returns a prefix of that stream's message;
  it returns the whole message as soon as that stream's own packets have arrived, whatever was lost of the
  other streams.\<close>

theorem session_transfer:
  assumes "aead_lawful P" "keys_ok k" "length msgs \<le> 1024" "sum_list (map length msgs) \<le> 2 ^ 24"
  shows "\<exists>ids c1. send_all (session_with_role n Client (encoder_new k a) d) msgs = Return (ids, c1) \<and>
    length ids = length msgs \<and> distinct ids \<and>
    (\<forall>keys. distinct keys \<and> set keys = fst ` set (ss_streams c1) \<longrightarrow>
      (\<exists>pkts c2 owner. flush P now keys c1 = Return (Inr pkts, c2) \<and>
        (\<forall>arr. length pkts \<le> 1024 \<and> snd ` set arr \<subseteq> {..<length pkts} \<longrightarrow>
          (\<exists>v. receive_packets P (session_with_role m Server e (decoder_new k))
                 (map (\<lambda>(t, g). (t, pkt_bytes (pkts ! g))) arr) = Some v \<and>
            (\<forall>x < length msgs. \<exists>out rest. read_back v (ids ! x) (2 ^ 24) = Some out \<and> out @ rest = msgs ! x \<and>
              ({g. g < length pkts \<and> owner g = ids ! x} \<subseteq> snd ` set arr \<longrightarrow> rest = []))))))"
proof -
  let ?c = "session_with_role n Client (encoder_new k a) d" and ?v = "session_with_role m Server e (decoder_new k)"
  let ?ids = "map nth_id [0..<length msgs]"
  have small: "\<forall>m \<in> set msgs. length m \<le> 2 ^ 24" using assms(4) member_le_sum_list [of _ "map length msgs"] by fastforce
  have send: "send_all ?c msgs = Return (?ids, client_state ?c msgs)"
    using send_all_ok [of ?c "[]" msgs] assms(3,4) client_start [of n "encoder_new k a" d]
    by (simp add: session_with_role_def session_with_limits_def session_limits_default_def)
  have dist: "distinct ?ids" using assms(3) by (auto simp: distinct_map inj_on_def nth_id_inj)
  have "\<exists>pkts c2 owner. flush P now keys (client_state ?c msgs) = Return (Inr pkts, c2) \<and>
        (\<forall>arr. length pkts \<le> 1024 \<and> snd ` set arr \<subseteq> {..<length pkts} \<longrightarrow>
          (\<exists>v. receive_packets P ?v (map (\<lambda>(t, g). (t, pkt_bytes (pkts ! g))) arr) = Some v \<and>
            (\<forall>x < length msgs. \<exists>out rest. read_back v (?ids ! x) (2 ^ 24) = Some out \<and> out @ rest = msgs ! x \<and>
              ({g. g < length pkts \<and> owner g = ?ids ! x} \<subseteq> snd ` set arr \<longrightarrow> rest = []))))"
    if keys: "distinct keys" "set keys = nth_id ` {..<length msgs}" for keys
  proof -
    obtain c2 ids where f: "flush P now keys (client_state ?c msgs) =
        Return (Inr (map data_packet (encode_all P (encoder_new k a) (frames_of (opened msgs) ids))), c2)"
      and ids: "set ids = set keys"
      by (rule flush_client [OF assms(1-3) keys])
    define bs where "bs = encode_all P (encoder_new k a) (frames_of (opened msgs) ids)"
    from f arrivals_read_back [OF assms(1-3) small _ bs_def] ids keys(2) show ?thesis
      by (intro exI [of _ "map data_packet bs"] exI [of _ c2] exI [of _ "\<lambda>g. fst (locations msgs ids ! g)"])
        (auto simp: bs_def [symmetric])
  qed
  moreover have "fst ` set (ss_streams (client_state ?c msgs)) = nth_id ` {..<length msgs}" by (simp add: client_state_def)
  ultimately show ?thesis using send dist by (intro exI [of _ ?ids] exI [of _ "client_state ?c msgs"]) simp
qed

theorem session_transfer_witness:
  "\<exists>ids c1. send_all (session_with_role 1 Client (encoder_new demo_keys 7) (decoder_new demo_keys)) [[1, 2], [3]] = Return (ids, c1) \<and>
    length ids = length [[1, 2], [3 :: u8]] \<and> distinct ids \<and>
    (\<forall>keys. distinct keys \<and> set keys = fst ` set (ss_streams c1) \<longrightarrow>
      (\<exists>pkts c2 owner. flush demo_prims 0 keys c1 = Return (Inr pkts, c2) \<and>
        (\<forall>arr. length pkts \<le> 1024 \<and> snd ` set arr \<subseteq> {..<length pkts} \<longrightarrow>
          (\<exists>v. receive_packets demo_prims (session_with_role 2 Server (encoder_new demo_keys 8) (decoder_new demo_keys))
                 (map (\<lambda>(t, g). (t, pkt_bytes (pkts ! g))) arr) = Some v \<and>
            (\<forall>x < length [[1, 2], [3 :: u8]]. \<exists>out rest. read_back v (ids ! x) (2 ^ 24) = Some out \<and> out @ rest = [[1, 2], [3]] ! x \<and>
              ({g. g < length pkts \<and> owner g = ids ! x} \<subseteq> snd ` set arr \<longrightarrow> rest = []))))))"
  by (rule session_transfer [OF demo_prims_lawful(1) demo_keys_ok]) simp_all

end
