(* ===== verification/Resume.thy ===== *)
theory Resume
  imports Crypto_Prims "HOL-Library.Multiset"
begin

text \<open>
  \<^verbatim>\<open>src/session/resume.rs\<close>: session tickets for resumption, their wire format and the store that hands each one
  out at most once. \<open>now\<close> is the wall clock in seconds; the random ticket identifier is an argument.
\<close>

definition DEFAULT_TTL :: u64 where "DEFAULT_TTL = 3600"
definition TICKET_BYTES :: nat where "TICKET_BYTES = 16 + 32 + 8 + 8 + 32"

record session_ticket =
  ticket_id :: bytes
  session_secret :: bytes
  created_at :: u64
  ttl_seconds :: u64
  peer_identity :: bytes

definition ticket_new :: "bytes \<Rightarrow> u64 \<Rightarrow> bytes \<Rightarrow> bytes \<Rightarrow> session_ticket" where
  "ticket_new random now peer secret =
     \<lparr>ticket_id = random, session_secret = secret, created_at = now, ttl_seconds = DEFAULT_TTL, peer_identity = peer\<rparr>"

definition ticket_is_valid :: "u64 \<Rightarrow> session_ticket \<Rightarrow> bool" where
  "ticket_is_valid now t \<longleftrightarrow> now \<ge> created_at t \<and> now < sat_add (created_at t) (ttl_seconds t)"

definition ticket_to_bytes :: "session_ticket \<Rightarrow> bytes" where
  "ticket_to_bytes t =
     ticket_id t @ session_secret t @ u64_to_le (created_at t) @ u64_to_le (ttl_seconds t) @ peer_identity t"

definition ticket_from_bytes :: "bytes \<Rightarrow> seam_error + session_ticket" where
  "ticket_from_bytes b =
     (if length b \<noteq> TICKET_BYTES
      then Inl (HandshakeFailed (''resume ticket: expected '' @ show_nat TICKET_BYTES @ '' bytes, got '' @ show_nat (length b)))
      else Inr \<lparr>ticket_id = slice b 0 16, session_secret = slice b 16 48, created_at = of_le (slice b 48 56),
                ttl_seconds = of_le (slice b 56 64), peer_identity = slice b 64 96\<rparr>)"

definition proof_of_possession :: "prims \<Rightarrow> session_ticket \<Rightarrow> bytes \<Rightarrow> bytes" where
  "proof_of_possession P t nonce =
     blake3_derive_key P ''seam/resume-proof/v1'' (ticket_id t @ session_secret t @ nonce)"

definition verify_proof :: "prims \<Rightarrow> session_ticket \<Rightarrow> bytes \<Rightarrow> bytes \<Rightarrow> bool" where
  "verify_proof P t nonce prf \<longleftrightarrow> proof_of_possession P t nonce = prf"

record resume_store =
  tickets :: "(bytes \<times> session_ticket) list"

definition store_new :: resume_store where
  "store_new = \<lparr>tickets = []\<rparr>"

definition evict_expired :: "u64 \<Rightarrow> resume_store \<Rightarrow> resume_store" where
  "evict_expired now s = s\<lparr>tickets := filter (\<lambda>e. ticket_is_valid now (snd e)) (tickets s)\<rparr>"

definition store_put :: "u64 \<Rightarrow> resume_store \<Rightarrow> session_ticket \<Rightarrow> resume_store" where
  "store_put now s t =
     (let s1 = evict_expired now s in s1\<lparr>tickets := AList.update (ticket_id t) t (tickets s1)\<rparr>)"

definition store_take :: "u64 \<Rightarrow> resume_store \<Rightarrow> bytes \<Rightarrow> session_ticket option \<times> resume_store" where
  "store_take now s i =
     (case map_of (tickets s) i of
        None \<Rightarrow> (None, s)
      | Some t \<Rightarrow>
          (if ticket_is_valid now t then Some t else None, s\<lparr>tickets := AList.delete i (tickets s)\<rparr>))"

section \<open>The wire format\<close>

definition ticket_ok :: "session_ticket \<Rightarrow> bool" where
  "ticket_ok t \<longleftrightarrow> length (ticket_id t) = 16 \<and> length (session_secret t) = 32 \<and> length (peer_identity t) = 32"

lemma ticket_bytes_sliced:
  assumes "ticket_ok t"
  shows "slice (ticket_to_bytes t) 0 16 = ticket_id t" "slice (ticket_to_bytes t) 16 48 = session_secret t"
    "slice (ticket_to_bytes t) 48 56 = u64_to_le (created_at t)" "slice (ticket_to_bytes t) 56 64 = u64_to_le (ttl_seconds t)"
    "slice (ticket_to_bytes t) 64 96 = peer_identity t" "length (ticket_to_bytes t) = 96"
  using assms by (simp_all add: ticket_ok_def ticket_to_bytes_def slice_def)

interpretation ticket: byte_codec ticket_to_bytes "\<lambda>b. case ticket_from_bytes b of Inl _ \<Rightarrow> None | Inr t \<Rightarrow> Some t" ticket_ok 96
  by unfold_locales (simp_all add: ticket_bytes_sliced ticket_from_bytes_def TICKET_BYTES_def codec_simps)

text \<open>A ticket that went to disk or over the wire comes back unchanged, and different tickets never share an
  encoding; every 96-byte string decodes to a well-formed ticket that encodes back to it, and every other
  length is refused.\<close>

theorem ticket_roundtrip:
  "(ticket_ok t \<longrightarrow> ticket_from_bytes (ticket_to_bytes t) = Inr t) \<and>
   (case ticket_from_bytes b of
      Inl _ \<Rightarrow> length b \<noteq> 96
    | Inr u \<Rightarrow> length b = 96 \<and> ticket_ok u \<and> ticket_to_bytes u = b)"
proof
  show "ticket_ok t \<longrightarrow> ticket_from_bytes (ticket_to_bytes t) = Inr t"
    using ticket.dec_enc [of t] by (auto split: sum.splits)
  have glue: "slice b 0 16 @ slice b 16 48 @ slice b 48 56 @ slice b 56 64 @ slice b 64 96 = b" if "length b = 96"
  proof -
    have "drop i b = slice b i j @ drop j b" if "i \<le> j" for i j
      unfolding slice_def using that by (metis append_take_drop_id drop_drop le_add_diff_inverse2)
    from this [of 0 16] this [of 16 48] this [of 48 56] this [of 56 64] this [of 64 96] that show ?thesis by simp
  qed
  show "case ticket_from_bytes b of Inl _ \<Rightarrow> length b \<noteq> 96 | Inr u \<Rightarrow> length b = 96 \<and> ticket_ok u \<and> ticket_to_bytes u = b"
    using glue by (simp add: ticket_from_bytes_def TICKET_BYTES_def ticket_ok_def ticket_to_bytes_def le_bytes_of_le)
qed

theorem ticket_roundtrip_witness:
  "ticket_from_bytes (ticket_to_bytes (ticket_new (replicate 16 1) 5 (replicate 32 2) (replicate 32 3))) =
     Inr (ticket_new (replicate 16 1) 5 (replicate 32 2) (replicate 32 3))"
  using ticket_roundtrip [of "ticket_new (replicate 16 1) 5 (replicate 32 2) (replicate 32 3)" "[]"]
  by (simp add: ticket_ok_def ticket_new_def)

section \<open>Single use\<close>

datatype store_op = Put u64 session_ticket | Take u64 bytes

text \<open>A run of the store collects what each \<^verbatim>\<open>take\<close> returned.\<close>

fun store_run :: "resume_store \<Rightarrow> store_op list \<Rightarrow> session_ticket list \<times> resume_store" where
  "store_run s [] = ([], s)"
| "store_run s (Put now t # ops) = store_run (store_put now s t) ops"
| "store_run s (Take now i # ops) =
     (case store_take now s i of
        (None, s') \<Rightarrow> store_run s' ops
      | (Some t, s') \<Rightarrow> (case store_run s' ops of (ts, s'') \<Rightarrow> (t # ts, s'')))"

definition puts :: "store_op list \<Rightarrow> session_ticket multiset" where
  "puts ops = mset (concat (map (\<lambda>e. case e of Put _ t \<Rightarrow> [t] | Take _ _ \<Rightarrow> []) ops))"

definition held :: "resume_store \<Rightarrow> session_ticket multiset" where
  "held s = mset (map snd (tickets s))"

lemma held_put: "held (store_put now s t) \<subseteq># add_mset t (held s)"
proof -
  have upd: "mset (map snd (AList.update k t m)) \<subseteq># add_mset t (mset (map snd m))" for k and m :: "(bytes \<times> session_ticket) list"
  proof (induction m)
    case (Cons e m)
    obtain a b where e: "e = (a, b)" by force
    have "add_mset b (mset (map snd (AList.update k t m))) \<subseteq># add_mset b (add_mset t (mset (map snd m)))"
      using Cons by (simp only: mset_subset_eq_add_mset_cancel)
    then show ?case by (auto simp: e add_mset_commute intro: subset_mset.order_trans)
  qed simp
  have fil: "mset (map snd (filter Q m)) \<subseteq># mset (map snd m)" for Q and m :: "(bytes \<times> session_ticket) list"
    by (simp add: image_mset_subseteq_mono)
  have tk: "tickets (store_put now s t) = AList.update (ticket_id t) t (filter (\<lambda>e. ticket_is_valid now (snd e)) (tickets s))"
    by (simp add: store_put_def evict_expired_def)
  have "held (store_put now s t) \<subseteq># add_mset t (mset (map snd (filter (\<lambda>e. ticket_is_valid now (snd e)) (tickets s))))"
    using upd [of "ticket_id t" "filter (\<lambda>e. ticket_is_valid now (snd e)) (tickets s)"]
    by (simp only: held_def tk)
  also have "\<dots> \<subseteq># add_mset t (held s)" using fil by (simp add: held_def)
  finally show ?thesis .
qed

lemma held_take:
  assumes "store_take now s i = (r, s')"
  shows "held s' + (case r of None \<Rightarrow> {#} | Some t \<Rightarrow> {#t#}) \<subseteq># held s" "\<forall>t. r = Some t \<longrightarrow> ticket_is_valid now t"
proof -
  have del: "add_mset t (mset (map snd (AList.delete i m))) \<subseteq># mset (map snd m)" if "map_of m i = Some t"
    for t and m :: "(bytes \<times> session_ticket) list"
    using that
  proof (induction m)
    case (Cons e m)
    show ?case
    proof (cases "fst e = i")
      case True
      then have "snd e = t" using Cons.prems by (cases e) simp
      moreover have "mset (map snd (AList.delete i m)) \<subseteq># mset (map snd m)"
        by (simp add: AList.delete_eq image_mset_subseteq_mono)
      ultimately show ?thesis using True by (cases e) (simp add: AList.delete_eq)
    next
      case False
      then have "add_mset t (mset (map snd (AList.delete i m))) \<subseteq># mset (map snd m)" using Cons by (cases e) simp
      then have "add_mset (snd e) (add_mset t (mset (map snd (AList.delete i m)))) \<subseteq># add_mset (snd e) (mset (map snd m))"
        by (simp only: mset_subset_eq_add_mset_cancel)
      then show ?thesis using False by (simp add: AList.delete_eq add_mset_commute case_prod_beta)
    qed
  qed simp
  show "held s' + (case r of None \<Rightarrow> {#} | Some t \<Rightarrow> {#t#}) \<subseteq># held s"
  proof (cases "map_of (tickets s) i")
    case None
    with assms show ?thesis by (simp add: store_take_def)
  next
    case (Some t)
    have "mset (map snd (AList.delete i (tickets s))) \<subseteq># add_mset t (mset (map snd (AList.delete i (tickets s))))" by simp
    with del [OF Some] have "mset (map snd (AList.delete i (tickets s))) \<subseteq># mset (map snd (tickets s))"
      by (rule subset_mset.order_trans [rotated])
    moreover have "r = (if ticket_is_valid now t then Some t else None)" "s' = s\<lparr>tickets := AList.delete i (tickets s)\<rparr>"
      using Some assms by (simp_all add: store_take_def)
    ultimately show ?thesis using del [OF Some] by (simp add: held_def)
  qed
  show "\<forall>t. r = Some t \<longrightarrow> ticket_is_valid now t"
    using assms by (auto simp: store_take_def split: option.splits if_splits)
qed

lemma store_run_held: "mset (fst (store_run s ops)) \<subseteq># held s + puts ops"
proof (induction s ops rule: store_run.induct)
  case (2 s now t ops)
  have "held (store_put now s t) + puts ops \<subseteq># add_mset t (held s) + puts ops"
    using held_put by (simp only: subset_mset.add_le_cancel_right)
  with 2 show ?case by (auto simp: puts_def intro: subset_mset.order_trans)
next
  case (3 s now i ops)
  obtain r s' where t: "store_take now s i = (r, s')" by force
  have held: "held s' + (case r of None \<Rightarrow> {#} | Some t \<Rightarrow> {#t#}) + puts ops \<subseteq># held s + puts ops"
    using held_take(1) [OF t] by (simp only: subset_mset.add_le_cancel_right)
  have run: "mset (fst (store_run s (Take now i # ops))) =
      (case r of None \<Rightarrow> {#} | Some t \<Rightarrow> {#t#}) + mset (fst (store_run s' ops))"
    using t by (auto split: option.split prod.split)
  have "mset (fst (store_run s' ops)) \<subseteq># held s' + puts ops" using 3 t by (cases r) auto
  then have "(case r of None \<Rightarrow> {#} | Some t \<Rightarrow> {#t#}) + mset (fst (store_run s' ops)) \<subseteq>#
      (case r of None \<Rightarrow> {#} | Some t \<Rightarrow> {#t#}) + (held s' + puts ops)"
    by (rule subset_mset.add_left_mono)
  also have "\<dots> \<subseteq># held s + puts ops" using held by (simp add: ac_simps)
  finally show ?case unfolding run by (simp add: puts_def)
qed (simp add: puts_def)

text \<open>C25: Tickets are single use. Over any sequence of stores and takes at any clock readings, every ticket is
  handed out at most as often as it was stored: a replayed ticket identifier gets nothing. What is handed
  out is unexpired.\<close>

theorem tickets_single_use:
  "mset (fst (store_run store_new ops)) \<subseteq># puts ops \<and>
   (case fst (store_take now (snd (store_run store_new ops)) i) of None \<Rightarrow> True | Some t \<Rightarrow> ticket_is_valid now t)"
proof
  show "mset (fst (store_run store_new ops)) \<subseteq># puts ops"
    using store_run_held [of store_new ops] by (simp add: held_def store_new_def)
  obtain r s' where "store_take now (snd (store_run store_new ops)) i = (r, s')" by force
  then show "case fst (store_take now (snd (store_run store_new ops)) i) of None \<Rightarrow> True | Some t \<Rightarrow> ticket_is_valid now t"
    using held_take(2) by (auto split: option.split)
qed

end
