(* ===== verification/Net_Addr.thy ===== *)
theory Net_Addr
  imports Seam_Prelude
begin

text \<open>
  The addresses of \<^verbatim>\<open>std::net\<close> as the source uses them: comparison, and the text form that the handshake cookie is
  computed from.
\<close>

datatype ip_addr = V4 u32 | V6 "128 word"

record socket_addr =
  sa_ip :: ip_addr
  sa_port :: u16

definition socket_addr_new :: "ip_addr \<Rightarrow> u16 \<Rightarrow> socket_addr" where
  "socket_addr_new ip port = \<lparr>sa_ip = ip, sa_port = port\<rparr>"

section \<open>Text form\<close>

definition hex_digit :: "nat \<Rightarrow> char" where
  "hex_digit n = (if n < 10 then char_of (48 + n) else char_of (87 + n))"

fun show_hex :: "nat \<Rightarrow> string" where
  "show_hex n = (if n < 16 then [hex_digit n] else show_hex (n div 16) @ [hex_digit (n mod 16)])"

declare show_hex.simps [simp del]

fun join :: "string \<Rightarrow> string list \<Rightarrow> string" where
  "join sep [] = []"
| "join sep [x] = x"
| "join sep (x # y # ys) = x @ sep @ join sep (y # ys)"

definition v4_octets :: "u32 \<Rightarrow> nat list" where
  "v4_octets a = map unat (u32_to_be a)"

definition show_v4 :: "u32 \<Rightarrow> string" where
  "show_v4 a = join ''.'' (map show_nat (v4_octets a))"

definition v6_segments :: "128 word \<Rightarrow> nat list" where
  "v6_segments a = map (\<lambda>i. unat (drop_bit (16 * (7 - i)) a AND 0xFFFF)) [0..<8]"

text \<open>The longest run of zero segments, the first of equal ones, as start and length.\<close>

fun zero_span :: "nat \<Rightarrow> nat list \<Rightarrow> nat \<times> nat \<Rightarrow> nat \<times> nat \<Rightarrow> nat \<times> nat" where
  "zero_span i [] longest current = longest"
| "zero_span i (s # ss) longest current =
     (if s = 0
      then let cur = (if snd current = 0 then i else fst current, snd current + 1);
               lon = (if snd cur > snd longest then cur else longest)
           in zero_span (i + 1) ss lon cur
      else zero_span (i + 1) ss longest (0, 0))"

definition show_v6 :: "128 word \<Rightarrow> string" where
  "show_v6 a =
     (let segs = v6_segments a in
      if take 6 segs = [0, 0, 0, 0, 0, 0xFFFF] then ''::ffff:'' @ show_v4 (ucast a)
      else let (start, len) = zero_span 0 segs (0, 0) (0, 0)
           in if len > 1
              then join '':'' (map show_hex (take start segs)) @ ''::'' @ join '':'' (map show_hex (drop (start + len) segs))
              else join '':'' (map show_hex segs))"

definition show_socket_addr :: "socket_addr \<Rightarrow> string" where
  "show_socket_addr a =
     (case sa_ip a of
        V4 ip \<Rightarrow> show_v4 ip @ '':'' @ show_nat (unat (sa_port a))
      | V6 ip \<Rightarrow> ''['' @ show_v6 ip @ '']:'' @ show_nat (unat (sa_port a)))"

definition as_bytes :: "string \<Rightarrow> bytes" where
  "as_bytes s = map of_char s"

end
