(* ===== verification/Float_Ops.thy ===== *)
theory Float_Ops
  imports Seam_Prelude Complex_Main
begin

text \<open>
  The floating-point operations the source uses. They belong to the machine and not to the program, so they are the
  fields of a record, an argument of every definition that computes with them: the type \<open>'f\<close> is the
  set of floating-point values, and nothing is assumed of its arithmetic except where a lemma names one of
  the laws below. A literal of the source is the image of the rational number it denotes; casts to an
  integer truncate and saturate.
\<close>

record 'f float_ops =
  f_lit :: "rat \<Rightarrow> 'f"
  f_of_nat :: "nat \<Rightarrow> 'f"
  f_to_nat :: "'f \<Rightarrow> nat"
  f_add :: "'f \<Rightarrow> 'f \<Rightarrow> 'f"
  f_sub :: "'f \<Rightarrow> 'f \<Rightarrow> 'f"
  f_mul :: "'f \<Rightarrow> 'f \<Rightarrow> 'f"
  f_div :: "'f \<Rightarrow> 'f \<Rightarrow> 'f"
  f_max :: "'f \<Rightarrow> 'f \<Rightarrow> 'f"
  f_min :: "'f \<Rightarrow> 'f \<Rightarrow> 'f"
  f_lt :: "'f \<Rightarrow> 'f \<Rightarrow> bool"
  f_le :: "'f \<Rightarrow> 'f \<Rightarrow> bool"
  f_eq :: "'f \<Rightarrow> 'f \<Rightarrow> bool"
  f_abs :: "'f \<Rightarrow> 'f"
  f_cbrt :: "'f \<Rightarrow> 'f"
  f_powi3 :: "'f \<Rightarrow> 'f"
  f_ceil :: "'f \<Rightarrow> 'f"

text \<open>The casts \<^verbatim>\<open>as u64\<close>, \<^verbatim>\<open>as u8\<close> and \<^verbatim>\<open>as usize\<close> saturate at the width of the target; \<^verbatim>\<open>as_secs_f64\<close>
  is seconds with a fraction, \<^verbatim>\<open>from_secs_f64\<close> rounds to whole nanoseconds.\<close>

definition f_to_u64 :: "'f float_ops \<Rightarrow> 'f \<Rightarrow> u64" where
  "f_to_u64 F x = of_nat (min (f_to_nat F x) (2 ^ 64 - 1))"

definition f_to_u8 :: "'f float_ops \<Rightarrow> 'f \<Rightarrow> u8" where
  "f_to_u8 F x = of_nat (min (f_to_nat F x) 255)"

definition f_to_usize :: "'f float_ops \<Rightarrow> 'f \<Rightarrow> nat" where
  "f_to_usize F x = min (f_to_nat F x) (2 ^ 64 - 1)"

definition f_of_u64 :: "'f float_ops \<Rightarrow> u64 \<Rightarrow> 'f" where
  "f_of_u64 F w = f_of_nat F (unat w)"

definition as_secs_f64 :: "'f float_ops \<Rightarrow> duration \<Rightarrow> 'f" where
  "as_secs_f64 F d = f_div F (f_of_nat F d) (f_lit F 1000000000)"

text \<open>The laws: integers below the precision of the format survive the round trip, zero is what it should be, and
  the comparisons are those of the values.\<close>

definition float_exact :: "'f float_ops \<Rightarrow> bool" where
  "float_exact F \<longleftrightarrow> (\<forall>n. n < 2 ^ 24 \<longrightarrow> f_to_nat F (f_of_nat F n) = n)"

definition float_zero :: "'f float_ops \<Rightarrow> bool" where
  "float_zero F \<longleftrightarrow> (\<forall>n. 0 < n \<longrightarrow> f_div F (f_of_nat F 0) (f_of_nat F n) = f_lit F 0) \<and>
     f_eq F (f_lit F 0) (f_lit F 0) \<and> (\<forall>r. 0 < r \<longrightarrow> f_lt F (f_lit F 0) (f_lit F r))"

text \<open>Exact arithmetic on the rationals satisfies them; no law speaks of the cube root, and the identity stands for it.\<close>

definition rat_floats :: "rat float_ops" where
  "rat_floats =
     \<lparr>f_lit = id, f_of_nat = of_nat, f_to_nat = (\<lambda>x. nat \<lfloor>x\<rfloor>),
      f_add = (+), f_sub = (-), f_mul = (*), f_div = (/), f_max = max, f_min = min,
      f_lt = (<), f_le = (\<le>), f_eq = (=), f_abs = abs,
      f_cbrt = id, f_powi3 = (\<lambda>x. x ^ 3), f_ceil = (\<lambda>x. of_int \<lceil>x\<rceil>)\<rparr>"

lemma rat_floats_lawful: "float_exact rat_floats" "float_zero rat_floats"
  by (simp_all add: float_exact_def float_zero_def rat_floats_def)

end
