(* ===== verification/Multipath.thy ===== *)
theory Multipath
  imports Net_Addr Float_Ops
begin

text \<open>
  \<^verbatim>\<open>src/transport/multipath.rs\<close>: sending over several paths with a choice of schedulers, and deduplication on the
  receiving side. A path's socket is identified by its local address. What the operating system
  answers is an argument: \<open>net\<close> gives the result of a \<^verbatim>\<open>send_to\<close>, and the datagrams a socket receives are a list.
  Each sending operation returns the datagrams that reached the network.
\<close>

section \<open>Schedulers and paths\<close>

definition PATH_DEAD_TIMEOUT :: duration where "PATH_DEAD_TIMEOUT = secs 10"
definition DEDUP_WINDOW :: nat where "DEDUP_WINDOW = 64"

datatype path_scheduler = RoundRobin | MinLatency | Redundant | Weighted

definition to_lower :: "char \<Rightarrow> char" where
  "to_lower c = (if 65 \<le> (of_char c :: nat) \<and> (of_char c :: nat) \<le> 90 then char_of (of_char c + 32 :: nat) else c)"

definition is_space :: "char \<Rightarrow> bool" where
  "is_space c \<longleftrightarrow> (of_char c :: nat) \<in> {9, 10, 11, 12, 13, 32}"

definition trim :: "string \<Rightarrow> string" where
  "trim s = rev (dropWhile is_space (rev (dropWhile is_space s)))"

definition scheduler_parse :: "string \<Rightarrow> path_scheduler option" where
  "scheduler_parse s =
     (let t = map to_lower (trim s)
      in if t \<in> {''round-robin'', ''roundrobin'', ''rr''} then Some RoundRobin
         else if t \<in> {''min-latency'', ''minlatency'', ''min_latency''} then Some MinLatency
         else if t = ''redundant'' then Some Redundant
         else if t = ''weighted'' then Some Weighted
         else None)"

fun scheduler_as_str :: "path_scheduler \<Rightarrow> string" where
  "scheduler_as_str RoundRobin = ''round-robin''"
| "scheduler_as_str MinLatency = ''min-latency''"
| "scheduler_as_str Redundant = ''redundant''"
| "scheduler_as_str Weighted = ''weighted''"

record 'f path_state =
  local_addr :: socket_addr
  remote_addr :: socket_addr
  rtt_estimate :: duration
  loss_rate :: 'f
  bandwidth :: u64
  active :: bool
  packets_sent :: u64
  packets_recv :: u64
  last_seen :: instant
  dedup_window :: "u64 list"

definition path_new :: "'f float_ops \<Rightarrow> instant \<Rightarrow> socket_addr \<Rightarrow> socket_addr \<Rightarrow> 'f path_state" where
  "path_new F now l r =
     \<lparr>local_addr = l, remote_addr = r, rtt_estimate = millis 100, loss_rate = f_lit F 0, bandwidth = 0, active = True,
      packets_sent = 0, packets_recv = 0, last_seen = now, dedup_window = []\<rparr>"

text \<open>One step of a deduplication window: forget the oldest entry when full, then append.\<close>

definition window_push :: "u64 list \<Rightarrow> u64 \<Rightarrow> u64 list" where
  "window_push w s = (if length w \<ge> DEDUP_WINDOW then tl w else w) @ [s]"

definition record_recv :: "instant \<Rightarrow> 'f path_state \<Rightarrow> u64 \<Rightarrow> bool \<times> 'f path_state" where
  "record_recv now p s =
     (if s \<in> set (dedup_window p) then (False, p)
      else (True, p\<lparr>dedup_window := window_push (dedup_window p) s, packets_recv := packets_recv p + 1,
                    last_seen := now, active := True\<rparr>))"

text \<open>\<^verbatim>\<open>Duration::from_secs_f64\<close> rounds to nanoseconds.\<close>

definition from_secs_f64 :: "'f float_ops \<Rightarrow> 'f \<Rightarrow> duration" where
  "from_secs_f64 F x = f_to_nat F (f_add F (f_mul F x (f_lit F 1000000000)) (f_lit F (1 / 2)))"

definition update_rtt :: "'f float_ops \<Rightarrow> 'f path_state \<Rightarrow> duration \<Rightarrow> 'f path_state" where
  "update_rtt F p sample =
     (let alpha = f_lit F (125 / 1000);
          old_ms = f_mul F (as_secs_f64 F (rtt_estimate p)) (f_lit F 1000);
          new_ms = f_mul F (as_secs_f64 F sample) (f_lit F 1000);
          smoothed = f_add F (f_mul F old_ms (f_sub F (f_lit F 1) alpha)) (f_mul F new_ms alpha)
      in p\<lparr>rtt_estimate := from_secs_f64 F (f_div F smoothed (f_lit F 1000))\<rparr>)"

definition is_timed_out :: "instant \<Rightarrow> 'f path_state \<Rightarrow> bool" where
  "is_timed_out now p \<longleftrightarrow> active p \<and> now - last_seen p \<ge> PATH_DEAD_TIMEOUT"

section \<open>The endpoint\<close>

datatype io_error = NotConnected string | OsError nat

type_synonym datagram = "socket_addr \<times> socket_addr \<times> bytes"
type_synonym network = "socket_addr \<Rightarrow> socket_addr \<Rightarrow> bytes \<Rightarrow> io_error option"

record 'f multipath =
  paths :: "'f path_state list"
  scheduler :: path_scheduler
  rr_cursor :: nat
  send_seq :: u64
  global_dedup :: "u64 list"
  redundant_recovered :: u64

definition multipath_new :: "path_scheduler \<Rightarrow> 'f multipath" where
  "multipath_new sch =
     \<lparr>paths = [], scheduler = sch, rr_cursor = 0, send_seq = 0, global_dedup = [], redundant_recovered = 0\<rparr>"

text \<open>\<open>bound\<close> is the operating system's answer to \<^verbatim>\<open>bind\<close>: an error, or the address actually bound.\<close>

definition add_path ::
  "'f float_ops \<Rightarrow> instant \<Rightarrow> io_error + socket_addr \<Rightarrow> 'f multipath \<Rightarrow> socket_addr \<Rightarrow> (io_error + unit) \<times> 'f multipath" where
  "add_path F now bound m remote =
     (case bound of
        Inl e \<Rightarrow> (Inl e, m)
      | Inr l \<Rightarrow> (Inr (), m\<lparr>paths := paths m @ [path_new F now l remote]\<rparr>))"

fun position :: "('a \<Rightarrow> bool) \<Rightarrow> 'a list \<Rightarrow> nat option" where
  "position p [] = None"
| "position p (x # xs) = (if p x then Some 0 else map_option Suc (position p xs))"

definition remove_at :: "nat \<Rightarrow> 'a list \<Rightarrow> 'a list" where
  "remove_at i xs = take i xs @ drop (i + 1) xs"

definition remove_path :: "'f multipath \<Rightarrow> socket_addr \<Rightarrow> 'f multipath" where
  "remove_path m l =
     (case position (\<lambda>p. local_addr p = l) (paths m) of
        None \<Rightarrow> m
      | Some pos \<Rightarrow>
          let m1 = m\<lparr>paths := remove_at pos (paths m)\<rparr>
          in if rr_cursor m1 \<ge> length (paths m1) \<and> paths m1 \<noteq> [] then m1\<lparr>rr_cursor := 0\<rparr> else m1)"

definition active_path_count :: "'f multipath \<Rightarrow> nat" where
  "active_path_count m = length (filter active (paths m))"

definition tick_health :: "instant \<Rightarrow> 'f multipath \<Rightarrow> 'f multipath" where
  "tick_health now m = m\<lparr>paths := map (\<lambda>p. if is_timed_out now p then p\<lparr>active := False\<rparr> else p) (paths m)\<rparr>"

definition no_active_paths :: io_error where
  "no_active_paths = NotConnected ''no active paths''"

text \<open>Send on the path with an index, as the three single-path strategies do.\<close>

definition send_on :: "network \<Rightarrow> 'f multipath \<Rightarrow> nat \<Rightarrow> bytes \<Rightarrow> (io_error + nat) \<times> datagram list \<times> 'f multipath" where
  "send_on net m i d =
     (let p = paths m ! i
      in case net (local_addr p) (remote_addr p) d of
           Some e \<Rightarrow> (Inl e, [], m)
         | None \<Rightarrow> (Inr 1, [(local_addr p, remote_addr p, d)],
                   m\<lparr>paths := (paths m)[i := p\<lparr>packets_sent := packets_sent p + 1\<rparr>]\<rparr>))"

fun rr_advance :: "nat \<Rightarrow> 'f path_state list \<Rightarrow> nat \<Rightarrow> nat" where
  "rr_advance 0 ps c = c"
| "rr_advance (Suc k) ps c =
     (let c' = (c + 1) mod length ps in if active (ps ! c') then c' else rr_advance k ps c')"

definition send_round_robin :: "network \<Rightarrow> 'f multipath \<Rightarrow> bytes \<Rightarrow> (io_error + nat) \<times> datagram list \<times> 'f multipath" where
  "send_round_robin net m d =
     (if active_path_count m = 0 then (Inl no_active_paths, [], m)
      else let m1 = m\<lparr>rr_cursor := rr_advance (length (paths m)) (paths m) (rr_cursor m)\<rparr>
           in send_on net m1 (rr_cursor m1) d)"

text \<open>\<^verbatim>\<open>min_by_key\<close> picks the first of equal minima, \<^verbatim>\<open>max_by_key\<close> the last of equal maxima.\<close>

fun min_by_key :: "('a \<Rightarrow> 'k::linorder) \<Rightarrow> 'a list \<Rightarrow> 'a option" where
  "min_by_key k [] = None"
| "min_by_key k (x # xs) = Some (foldl (\<lambda>b y. if k y < k b then y else b) x xs)"

fun max_by_key :: "('a \<Rightarrow> 'k::linorder) \<Rightarrow> 'a list \<Rightarrow> 'a option" where
  "max_by_key k [] = None"
| "max_by_key k (x # xs) = Some (foldl (\<lambda>b y. if k y \<ge> k b then y else b) x xs)"

definition active_paths :: "'f multipath \<Rightarrow> (nat \<times> 'f path_state) list" where
  "active_paths m = filter (\<lambda>e. active (snd e)) (enumerate 0 (paths m))"

definition send_min_latency :: "network \<Rightarrow> 'f multipath \<Rightarrow> bytes \<Rightarrow> (io_error + nat) \<times> datagram list \<times> 'f multipath" where
  "send_min_latency net m d =
     (case min_by_key (\<lambda>e. rtt_estimate (snd e)) (active_paths m) of
        None \<Rightarrow> (Inl no_active_paths, [], m)
      | Some e \<Rightarrow> send_on net m (fst e) d)"

definition send_weighted :: "network \<Rightarrow> 'f multipath \<Rightarrow> bytes \<Rightarrow> (io_error + nat) \<times> datagram list \<times> 'f multipath" where
  "send_weighted net m d =
     (case max_by_key (\<lambda>e. bandwidth (snd e)) (active_paths m) of
        None \<Rightarrow> (Inl no_active_paths, [], m)
      | Some e \<Rightarrow> send_on net m (fst e) d)"

fun redundant_loop ::
  "network \<Rightarrow> bytes \<Rightarrow> nat list \<Rightarrow> nat \<times> io_error option \<times> datagram list \<times> 'f multipath \<Rightarrow>
     nat \<times> io_error option \<times> datagram list \<times> 'f multipath" where
  "redundant_loop net d [] acc = acc"
| "redundant_loop net d (i # is) (sent, last_err, out, m) =
     (case send_on net m i d of
        (Inr _, o1, m1) \<Rightarrow> redundant_loop net d is (sent + 1, last_err, out @ o1, m1)
      | (Inl e, _, _) \<Rightarrow> redundant_loop net d is (sent, Some e, out, m))"

definition send_redundant :: "network \<Rightarrow> 'f multipath \<Rightarrow> bytes \<Rightarrow> (io_error + nat) \<times> datagram list \<times> 'f multipath" where
  "send_redundant net m d =
     (let (sent, last_err, out, m1) = redundant_loop net d (map fst (active_paths m)) (0, None, [], m)
      in if sent = 0 then (Inl (case last_err of None \<Rightarrow> no_active_paths | Some e \<Rightarrow> e), out, m1)
         else (Inr sent, out, m1))"

definition multipath_send :: "instant \<Rightarrow> network \<Rightarrow> 'f multipath \<Rightarrow> bytes \<Rightarrow> (io_error + nat) \<times> datagram list \<times> 'f multipath" where
  "multipath_send now net m d =
     (let m1 = tick_health now m;
          m2 = m1\<lparr>send_seq := send_seq m1 + 1\<rparr>
      in case scheduler m2 of
           RoundRobin \<Rightarrow> send_round_robin net m2 d
         | MinLatency \<Rightarrow> send_min_latency net m2 d
         | Redundant \<Rightarrow> send_redundant net m2 d
         | Weighted \<Rightarrow> send_weighted net m2 d)"

section \<open>Receiving\<close>

text \<open>What the first path's socket yields next, an error or a datagram (cut to the caller's buffer).\<close>

definition recv_any :: "instant \<Rightarrow> io_error + bytes \<Rightarrow> 'f multipath \<Rightarrow> (io_error + bytes \<times> nat) \<times> 'f multipath" where
  "recv_any now arrival m =
     (case paths m of
        [] \<Rightarrow> (Inl (NotConnected ''no paths configured''), m)
      | p # ps \<Rightarrow>
          (case arrival of
             Inl e \<Rightarrow> (Inl e, m)
           | Inr d \<Rightarrow> (Inr (d, 0), m\<lparr>paths := p\<lparr>last_seen := now, packets_recv := packets_recv p + 1\<rparr> # ps\<rparr>)))"

text \<open>\<^verbatim>\<open>recv_dedup\<close> consumes arrivals until one is to be returned; \<open>None\<close> means that it still waits.\<close>

fun recv_dedup ::
  "instant \<Rightarrow> (io_error + bytes) list \<Rightarrow> 'f multipath \<Rightarrow>
     (io_error + bytes \<times> nat) option \<times> (io_error + bytes) list \<times> 'f multipath" where
  "recv_dedup now [] m = (if paths m = [] then (Some (Inl (NotConnected ''no paths configured'')), [], m) else (None, [], m))"
| "recv_dedup now (a # as) m =
     (case recv_any now a m of
        (Inl e, m1) \<Rightarrow> (Some (Inl e), if paths m = [] then a # as else as, m1)
      | (Inr (d, i), m1) \<Rightarrow>
          if length d < 8 then (Some (Inr (d, i)), as, m1)
          else let s = of_be (take 8 d) in
            if s \<in> set (global_dedup m1)
            then recv_dedup now as (m1\<lparr>redundant_recovered := redundant_recovered m1 + 1\<rparr>)
            else let m2 = m1\<lparr>global_dedup := window_push (global_dedup m1) s\<rparr>;
                     m3 = (if i < length (paths m2)
                           then m2\<lparr>paths := (paths m2)[i := snd (record_recv now (paths m2 ! i) s)]\<rparr> else m2)
                 in (Some (Inr (d, i)), as, m3))"

section \<open>Per-path updates\<close>

definition update_first :: "('a \<Rightarrow> bool) \<Rightarrow> ('a \<Rightarrow> 'a) \<Rightarrow> 'a list \<Rightarrow> 'a list" where
  "update_first p f xs = (case position p xs of None \<Rightarrow> xs | Some i \<Rightarrow> xs[i := f (xs ! i)])"

definition update_path_rtt :: "'f float_ops \<Rightarrow> 'f multipath \<Rightarrow> socket_addr \<Rightarrow> duration \<Rightarrow> 'f multipath" where
  "update_path_rtt F m l rtt = m\<lparr>paths := update_first (\<lambda>p. local_addr p = l) (\<lambda>p. update_rtt F p rtt) (paths m)\<rparr>"

definition update_path_bandwidth :: "'f multipath \<Rightarrow> socket_addr \<Rightarrow> u64 \<Rightarrow> 'f multipath" where
  "update_path_bandwidth m l b = m\<lparr>paths := update_first (\<lambda>p. local_addr p = l) (\<lambda>p. p\<lparr>bandwidth := b\<rparr>) (paths m)\<rparr>"

definition on_recv :: "instant \<Rightarrow> 'f multipath \<Rightarrow> socket_addr \<Rightarrow> u64 \<Rightarrow> bool \<times> 'f multipath" where
  "on_recv now m l s =
     (case position (\<lambda>p. local_addr p = l) (paths m) of
        None \<Rightarrow> (False, m)
      | Some i \<Rightarrow> (let (new, p) = record_recv now (paths m ! i) s in (new, m\<lparr>paths := (paths m)[i := p]\<rparr>)))"


section \<open>Schedulers\<close>

lemma position_Some: "position p xs = Some i \<Longrightarrow> i < length xs \<and> p (xs ! i) \<and> (\<forall>j < i. \<not> p (xs ! j))"
proof (induction xs arbitrary: i)
  case (Cons x xs)
  show ?case
  proof (cases "p x")
    case False
    with Cons.prems obtain j where "position p xs = Some j" "i = Suc j" by auto
    with Cons.IH [of j] False show ?thesis by (auto simp: less_Suc_eq_0_disj)
  qed (use Cons.prems in auto)
qed simp

text \<open>The cursor ends on an active path whenever there is one.\<close>

lemma rr_advance_active:
  assumes "\<exists>j < length ps. active (ps ! j) \<and> (\<exists>i. 1 \<le> i \<and> i \<le> k \<and> j = (c + i) mod length ps)"
  shows "active (ps ! rr_advance k ps c) \<and> rr_advance k ps c < length ps"
  using assms
proof (induction k arbitrary: c)
  case (Suc k)
  then obtain j i where j: "j < length ps" "active (ps ! j)" "1 \<le> i" "i \<le> Suc k" "j = (c + i) mod length ps" by blast
  show ?case
  proof (cases "active (ps ! ((c + 1) mod length ps))")
    case True
    moreover have "(c + 1) mod length ps < length ps" using j(1) by (intro mod_less_divisor) auto
    ultimately show ?thesis by (simp add: Let_def)
  next
    case False
    then have "i \<noteq> 1" using j by auto
    moreover have "((c + 1) mod length ps + (i - 1)) mod length ps = (c + i) mod length ps"
      by (subst mod_add_left_eq) (use j(3) in simp)
    ultimately have "1 \<le> i - 1 \<and> i - 1 \<le> k \<and> j = ((c + 1) mod length ps + (i - 1)) mod length ps"
      using j(3-5) by linarith
    with j(1,2) have "active (ps ! rr_advance k ps ((c + 1) mod length ps)) \<and> rr_advance k ps ((c + 1) mod length ps) < length ps"
      by (intro Suc.IH) blast
    with False show ?thesis by (simp add: Let_def)
  qed
qed simp

lemma rr_advance_all:
  assumes "active_path_count m \<noteq> 0"
  shows "active (paths m ! rr_advance (length (paths m)) (paths m) c) \<and> rr_advance (length (paths m)) (paths m) c < length (paths m)"
proof -
  let ?n = "length (paths m)"
  obtain j where j: "j < ?n" "active (paths m ! j)"
    using assms by (auto simp: active_path_count_def filter_empty_conv in_set_conv_nth)
  define i where "i = (if j > c mod ?n then j - c mod ?n else j + ?n - c mod ?n)"
  have "c mod ?n < ?n" using j(1) by (intro mod_less_divisor) auto
  then have i: "1 \<le> i" "i \<le> ?n" using j(1) by (auto simp: i_def)
  have "(c + i) mod ?n = (c mod ?n + i) mod ?n" by (simp add: mod_add_left_eq)
  also have "\<dots> = j" using j(1) \<open>c mod ?n < ?n\<close> by (auto simp: i_def)
  finally show ?thesis using j i by (intro rr_advance_active) blast
qed

lemma foldl_min_by_key:
  "foldl (\<lambda>b y. if k y < k b then y else b) x xs \<in> set (x # xs) \<and>
     (\<forall>y \<in> set (x # xs). k (foldl (\<lambda>b y. if k y < k b then y else b) x xs) \<le> (k y :: 'k::linorder))"
proof (induction xs arbitrary: x)
  case (Cons z zs)
  show ?case using Cons.IH [of x] Cons.IH [of z] by (auto simp: not_less intro: order_trans less_imp_le)
qed simp

lemma foldl_max_by_key:
  "foldl (\<lambda>b y. if k y \<ge> k b then y else b) x xs \<in> set (x # xs) \<and>
     (\<forall>y \<in> set (x # xs). (k y :: 'k::linorder) \<le> k (foldl (\<lambda>b y. if k y \<ge> k b then y else b) x xs))"
proof (induction xs arbitrary: x)
  case (Cons z zs)
  show ?case using Cons.IH [of x] Cons.IH [of z] by (auto simp: not_le intro: order_trans less_imp_le)
qed simp

lemma min_by_key_Some: "min_by_key k xs = Some x \<Longrightarrow> x \<in> set xs \<and> (\<forall>y \<in> set xs. k x \<le> k y)"
  using foldl_min_by_key [where k = k] by (cases xs) force+

lemma max_by_key_Some: "max_by_key k xs = Some x \<Longrightarrow> x \<in> set xs \<and> (\<forall>y \<in> set xs. k y \<le> k x)"
  using foldl_max_by_key [where k = k] by (cases xs) force+

lemma by_key_None: "min_by_key k xs = None \<longleftrightarrow> xs = []" "max_by_key k xs = None \<longleftrightarrow> xs = []"
  by (cases xs; simp)+

lemma set_active_paths: "(i, p) \<in> set (active_paths m) \<longleftrightarrow> i < length (paths m) \<and> p = paths m ! i \<and> active p"
  by (auto simp: active_paths_def in_set_enumerate_eq)

lemma active_paths_empty: "active_paths m = [] \<longleftrightarrow> active_path_count m = 0"
proof -
  have "active_paths m = [] \<longleftrightarrow> (\<forall>i < length (paths m). \<not> active (paths m ! i))"
  proof -
    have "active_paths m = [] \<longleftrightarrow> (\<forall>i p. (i, p) \<notin> set (active_paths m))" by (cases "active_paths m") auto
    then show ?thesis by (auto simp: set_active_paths)
  qed
  also have "\<dots> \<longleftrightarrow> active_path_count m = 0"
    by (simp add: active_path_count_def filter_empty_conv all_set_conv_all_nth)
  finally show ?thesis .
qed

text \<open>What a scheduler that sends on one path owes: nothing when no path is active, otherwise one active path.\<close>

definition single_path_send ::
  "(network \<Rightarrow> 'f multipath \<Rightarrow> bytes \<Rightarrow> (io_error + nat) \<times> datagram list \<times> 'f multipath) \<Rightarrow> ('f multipath \<Rightarrow> nat) \<Rightarrow> bool" where
  "single_path_send snd_op choice \<longleftrightarrow>
     (\<forall>net m d. active_path_count m = 0 \<longrightarrow> snd_op net m d = (Inl no_active_paths, [], m)) \<and>
     (\<forall>net m d. active_path_count m \<noteq> 0 \<longrightarrow>
        choice m < length (paths m) \<and> active (paths m ! choice m) \<and>
        (\<exists>m'. paths m' = paths m \<and> snd_op net m d = send_on net m' (choice m) d))"

definition min_latency_choice :: "'f multipath \<Rightarrow> nat" where
  "min_latency_choice m = (case min_by_key (\<lambda>e. rtt_estimate (snd e)) (active_paths m) of None \<Rightarrow> 0 | Some e \<Rightarrow> fst e)"

definition weighted_choice :: "'f multipath \<Rightarrow> nat" where
  "weighted_choice m = (case max_by_key (\<lambda>e. bandwidth (snd e)) (active_paths m) of None \<Rightarrow> 0 | Some e \<Rightarrow> fst e)"

lemma single_path_schedulers:
  "single_path_send (send_round_robin :: network \<Rightarrow> 'f multipath \<Rightarrow> _) (\<lambda>m. rr_advance (length (paths m)) (paths m) (rr_cursor m))"
  "single_path_send (send_min_latency :: network \<Rightarrow> 'f multipath \<Rightarrow> _) min_latency_choice"
  "single_path_send (send_weighted :: network \<Rightarrow> 'f multipath \<Rightarrow> _) weighted_choice"
proof -
  show "single_path_send (send_round_robin :: network \<Rightarrow> 'f multipath \<Rightarrow> _) (\<lambda>m. rr_advance (length (paths m)) (paths m) (rr_cursor m))"
    unfolding single_path_send_def
  proof (intro conjI allI impI)
    fix net :: network and m :: "'f multipath" and d
    assume m: "active_path_count m \<noteq> 0"
    let ?c = "rr_advance (length (paths m)) (paths m) (rr_cursor m)"
    show "?c < length (paths m)" and "active (paths m ! ?c)" using rr_advance_all [OF m] by simp_all
    show "\<exists>m'. paths m' = paths m \<and> send_round_robin net m d = send_on net m' ?c d"
      using m by (intro exI [of _ "m\<lparr>rr_cursor := ?c\<rparr>"]) (simp add: send_round_robin_def Let_def)
  qed (simp add: send_round_robin_def)
  show "single_path_send (send_min_latency :: network \<Rightarrow> 'f multipath \<Rightarrow> _) min_latency_choice"
    unfolding single_path_send_def
  proof (intro conjI allI impI)
    fix net :: network and m :: "'f multipath" and d
    assume "active_path_count m \<noteq> 0"
    then obtain e where e: "min_by_key (\<lambda>e. rtt_estimate (snd e)) (active_paths m) = Some e"
      by (metis active_paths_empty by_key_None(1) not_None_eq)
    then have "e \<in> set (active_paths m)" by (simp add: min_by_key_Some)
    with e show "min_latency_choice m < length (paths m)" "active (paths m ! min_latency_choice m)"
      "\<exists>m'. paths m' = paths m \<and> send_min_latency net m d = send_on net m' (min_latency_choice m) d"
      by (cases e; auto simp: set_active_paths min_latency_choice_def send_min_latency_def)+
  qed (simp add: send_min_latency_def flip: active_paths_empty)
  show "single_path_send (send_weighted :: network \<Rightarrow> 'f multipath \<Rightarrow> _) weighted_choice"
    unfolding single_path_send_def
  proof (intro conjI allI impI)
    fix net :: network and m :: "'f multipath" and d
    assume "active_path_count m \<noteq> 0"
    then obtain e where e: "max_by_key (\<lambda>e. bandwidth (snd e)) (active_paths m) = Some e"
      by (metis active_paths_empty by_key_None(2) not_None_eq)
    then have "e \<in> set (active_paths m)" by (simp add: max_by_key_Some)
    with e show "weighted_choice m < length (paths m)" "active (paths m ! weighted_choice m)"
      "\<exists>m'. paths m' = paths m \<and> send_weighted net m d = send_on net m' (weighted_choice m) d"
      by (cases e; auto simp: set_active_paths weighted_choice_def send_weighted_def)+
  qed (simp add: send_weighted_def flip: active_paths_empty)
qed


section \<open>Redundant sending\<close>

text \<open>The network accepts the datagram on path \<open>p\<close>.\<close>

definition accepts :: "network \<Rightarrow> bytes \<Rightarrow> 'f path_state \<Rightarrow> bool" where
  "accepts net d p \<longleftrightarrow> net (local_addr p) (remote_addr p) d = None"

lemma send_on_cases:
  assumes "i < length (paths m)"
  shows "accepts net d (paths m ! i) \<Longrightarrow> \<exists>m'. send_on net m i d = (Inr 1, [(local_addr (paths m ! i), remote_addr (paths m ! i), d)], m')
      \<and> map (\<lambda>p. (local_addr p, remote_addr p)) (paths m') = map (\<lambda>p. (local_addr p, remote_addr p)) (paths m)"
    and "\<not> accepts net d (paths m ! i) \<Longrightarrow> \<exists>e. send_on net m i d = (Inl e, [], m)"
  using assms by (auto simp: send_on_def Let_def accepts_def map_update list_update_same_conv)

lemma redundant_loop_sent:
  assumes "\<forall>i \<in> set is. i < length (paths m)"
    and "map (\<lambda>p. (local_addr p, remote_addr p)) (paths m) = map (\<lambda>p. (local_addr p, remote_addr p)) ps"
  shows "\<exists>err m'. redundant_loop net d is (n, e, out, m) =
      (n + length (filter (\<lambda>i. accepts net d (ps ! i)) is), err,
       out @ map (\<lambda>i. (local_addr (ps ! i), remote_addr (ps ! i), d)) (filter (\<lambda>i. accepts net d (ps ! i)) is), m')"
  using assms
proof (induction "is" arbitrary: n e out m)
  case (Cons i "is")
  have len: "length (paths m) = length ps" using arg_cong [OF Cons.prems(2), of length] by simp
  have i: "i < length (paths m)" using Cons.prems(1) by simp
  have addr: "local_addr (paths m ! i) = local_addr (ps ! i)" "remote_addr (paths m ! i) = remote_addr (ps ! i)"
    using arg_cong [OF Cons.prems(2), of "\<lambda>xs. xs ! i"] i len by simp_all
  then have acc: "accepts net d (paths m ! i) = accepts net d (ps ! i)" by (simp add: accepts_def)
  show ?case
  proof (cases "accepts net d (ps ! i)")
    case True
    then obtain m1 where m1: "send_on net m i d = (Inr 1, [(local_addr (ps ! i), remote_addr (ps ! i), d)], m1)"
      "map (\<lambda>p. (local_addr p, remote_addr p)) (paths m1) = map (\<lambda>p. (local_addr p, remote_addr p)) (paths m)"
      using send_on_cases(1) [OF i] acc addr by auto
    have "length (paths m1) = length (paths m)" using arg_cong [OF m1(2), of length] by simp
    with Cons.IH [of m1 "n + 1" e "out @ [(local_addr (ps ! i), remote_addr (ps ! i), d)]"] Cons.prems m1 True
    show ?thesis by simp
  next
    case False
    then obtain err where "send_on net m i d = (Inl err, [], m)" using send_on_cases(2) [OF i] acc by auto
    with Cons.IH [of m n "Some err" out] Cons.prems False show ?thesis by simp
  qed
qed simp

lemma fst_active_paths: "map fst (active_paths m) = filter (\<lambda>i. active (paths m ! i)) [0..<length (paths m)]"
proof -
  have "map fst (filter (\<lambda>e. active (snd e)) (enumerate n xs)) = filter (\<lambda>i. active (xs ! (i - n))) [n..<n + length xs]" for n and xs :: "'a path_state list"
  proof (induction xs arbitrary: n)
    case (Cons x xs)
    have "filter (\<lambda>i. active (xs ! (i - Suc n))) [Suc n..<Suc n + length xs] =
        filter (\<lambda>i. active ((x # xs) ! (i - n))) [Suc n..<n + length (x # xs)]"
    proof (rule filter_cong)
      fix i assume "i \<in> set [Suc n..<n + length (x # xs)]"
      then have "i - n = Suc (i - Suc n)" by auto
      then show "active (xs ! (i - Suc n)) = active ((x # xs) ! (i - n))" by simp
    qed simp
    moreover have "[n..<n + length (x # xs)] = n # [Suc n..<n + length (x # xs)]" by (simp add: upt_rec)
    ultimately show ?case using Cons [of "Suc n"] by simp
  qed simp
  from this [of 0 "paths m"] show ?thesis by (simp add: active_paths_def)
qed

text \<open>Redundant sending reaches every path that works. The datagram goes out exactly on the active paths the
  network accepts it on, once each and in order; the call succeeds, with their number, as soon as there is
  one of them, and fails otherwise.\<close>

theorem redundant_reaches_every_live_path:
  fixes m :: "'f multipath"
  shows "\<exists>r m'. send_redundant net m d =
    (r, map (\<lambda>p. (local_addr p, remote_addr p, d)) (filter (accepts net d) (filter active (paths m))), m') \<and>
    (r = Inr (length (filter (accepts net d) (filter active (paths m)))) \<and> filter (accepts net d) (filter active (paths m)) \<noteq> [] \<or>
     (\<exists>e. r = Inl e) \<and> filter (accepts net d) (filter active (paths m)) = [])"
proof -
  let ?is = "filter (\<lambda>i. accepts net d (paths m ! i)) (map fst (active_paths m))"
  have nth: "map (nth (paths m)) ?is = filter (accepts net d) (filter active (paths m))"
  proof -
    have m: "map (nth xs) (filter (\<lambda>i. Q (xs ! i)) [0..<length xs]) = filter Q xs" for Q and xs :: "'f path_state list"
      using filter_map [of Q "nth xs" "[0..<length xs]"] by (simp add: map_nth comp_def)
    have "?is = filter (\<lambda>i. active (paths m ! i) \<and> accepts net d (paths m ! i)) [0..<length (paths m)]"
      by (simp add: fst_active_paths)
    then show ?thesis using m [of "paths m" "\<lambda>p. active p \<and> accepts net d p"] by simp
  qed
  have out: "map (\<lambda>i. (local_addr (paths m ! i), remote_addr (paths m ! i), d)) ?is =
      map (\<lambda>p. (local_addr p, remote_addr p, d)) (filter (accepts net d) (filter active (paths m)))"
    using arg_cong [OF nth, of "map (\<lambda>p. (local_addr p, remote_addr p, d))"] by (simp add: comp_def)
  have len: "length ?is = length (filter (accepts net d) (filter active (paths m)))"
    using arg_cong [OF nth, of length] by simp
  have "\<forall>i \<in> set (map fst (active_paths m)). i < length (paths m)" by (simp add: fst_active_paths)
  from redundant_loop_sent [OF this refl, of net d 0 None "[]"]
  obtain err m' where "redundant_loop net d (map fst (active_paths m)) (0, None, [], m) =
      (length ?is, err, map (\<lambda>i. (local_addr (paths m ! i), remote_addr (paths m ! i), d)) ?is, m')" by auto
  then show ?thesis using out len by (auto simp: send_redundant_def)
qed

section \<open>Deduplication\<close>

lemma window_push_bound: "length w \<le> DEDUP_WINDOW \<Longrightarrow> length (window_push w s) \<le> DEDUP_WINDOW"
  by (auto simp: window_push_def DEDUP_WINDOW_def)

lemma window_push_distinct: "distinct w \<Longrightarrow> s \<notin> set w \<Longrightarrow> distinct (window_push w s)"
  by (cases w) (auto simp: window_push_def DEDUP_WINDOW_def)

definition is_duplicate :: "u64 list \<Rightarrow> io_error + bytes \<Rightarrow> bool" where
  "is_duplicate w a = (case a of Inl _ \<Rightarrow> False | Inr d \<Rightarrow> 8 \<le> length d \<and> of_be (take 8 d) \<in> set w)"

lemma recv_any_paths: "paths m \<noteq> [] \<Longrightarrow> fst (recv_any now a m) = (case a of Inl e \<Rightarrow> Inl e | Inr d \<Rightarrow> Inr (d, 0)) \<and>
    global_dedup (snd (recv_any now a m)) = global_dedup m \<and> tl (paths (snd (recv_any now a m))) = tl (paths m) \<and>
    paths (snd (recv_any now a m)) \<noteq> []"
  by (auto simp: recv_any_def split: list.split sum.split)

text \<open>What a receiver sees of redundant traffic. The duplicates at the front of the arrivals, those with a number among
  the last ones delivered, are skipped; the next arrival is returned, and its number is remembered.
  When nothing but duplicates has arrived the receiver goes on waiting.\<close>

theorem recv_dedup_skips_duplicates:
  assumes "paths m \<noteq> []" and "\<forall>a \<in> set dups. is_duplicate (global_dedup m) a"
  shows "fst (recv_dedup now dups m) = None"
    and "8 \<le> length d \<Longrightarrow> of_be (take 8 d) \<notin> set (global_dedup m) \<Longrightarrow>
      fst (recv_dedup now (dups @ Inr d # rest) m) = Some (Inr (d, 0)) \<and>
      fst (snd (recv_dedup now (dups @ Inr d # rest) m)) = rest \<and>
      global_dedup (snd (snd (recv_dedup now (dups @ Inr d # rest) m))) = window_push (global_dedup m) (of_be (take 8 d))"
proof -
  have skip: "\<exists>m'. recv_dedup now (dups @ as) m = recv_dedup now as m' \<and> global_dedup m' = global_dedup m \<and> paths m' \<noteq> []" for as
    using assms
  proof (induction dups arbitrary: m)
    case (Cons a dups)
    obtain r m1 where r: "recv_any now a m = (r, m1)" by force
    note m1 = recv_any_paths [OF Cons.prems(1), of now a, unfolded r]
    obtain d where a: "a = Inr d" "8 \<le> length d" "of_be (take 8 d) \<in> set (global_dedup m)"
      using Cons.prems(2) by (auto simp: is_duplicate_def split: sum.splits)
    let ?m = "m1\<lparr>redundant_recovered := redundant_recovered m1 + 1\<rparr>"
    have "recv_dedup now ((a # dups) @ as) m = recv_dedup now (dups @ as) ?m"
      using a m1 r by (simp add: Let_def)
    with Cons.IH [of ?m] Cons.prems m1 show ?case by auto
  qed auto
  from skip [of "[]"] show "fst (recv_dedup now dups m) = None" by auto
  assume d: "8 \<le> length d" "of_be (take 8 d) \<notin> set (global_dedup m)"
  from skip [of "Inr d # rest"] obtain m' where m': "recv_dedup now (dups @ Inr d # rest) m = recv_dedup now (Inr d # rest) m'"
    "global_dedup m' = global_dedup m" "paths m' \<noteq> []" by blast
  obtain r m1 where r: "recv_any now (Inr d) m' = (r, m1)" by force
  from d m' r recv_any_paths [OF m'(3), of now "Inr d", unfolded r]
  show "fst (recv_dedup now (dups @ Inr d # rest) m) = Some (Inr (d, 0)) \<and>
      fst (snd (recv_dedup now (dups @ Inr d # rest) m)) = rest \<and>
      global_dedup (snd (snd (recv_dedup now (dups @ Inr d # rest) m))) = window_push (global_dedup m) (of_be (take 8 d))"
    by (simp add: Let_def)
qed

text \<open>Only the first path is ever read: receiving leaves the record of every other path as it is, so a path that is
  used only in reply to nothing times out and is given up ten seconds after it was added, whatever it
  carries.\<close>

theorem recv_dedup_reads_first_path_only: "tl (paths (snd (snd (recv_dedup now as m)))) = tl (paths m)"
proof (induction "as" arbitrary: m)
  case (Cons a "as")
  show ?case
  proof (cases "paths m = []")
    case True
    then show ?thesis by (simp add: recv_any_def)
  next
    case False
    obtain r m1 where r: "recv_any now a m = (r, m1)" by force
    note m1 = recv_any_paths [OF False, of now a, unfolded r]
    show ?thesis
    proof (cases a)
      case (Inl e)
      with r m1 False show ?thesis by simp
    next
      case (Inr d)
      have "tl ((paths m1)[0 := x]) = tl (paths m1)" for x by (cases "paths m1") simp_all
      with Inr r m1 Cons.IH [of "m1\<lparr>redundant_recovered := redundant_recovered m1 + 1\<rparr>"] show ?thesis
        by (simp add: Let_def)
    qed
  qed
qed simp

end
