(* ===== verification/Identity.thy ===== *)
theory Identity
  imports Crypto_Prims
begin

text \<open>
  \<^verbatim>\<open>src/handshake/hybrid_keys.rs\<close>: long-term identities, their file format with its two versions, and the hybrid
  shared secret with the packet keys derived from it. ML-KEM-768, ML-DSA-65 and X25519 come from other crates:
  the first two are the fields of \<open>pq_lib\<close>, over types of keys that the crates keep opaque, with the documented
  behaviour of their serialisation in \<open>pq_lawful\<close>. Randomness is an argument.
\<close>

section \<open>The libraries\<close>

definition KEM_SEED_LEN :: nat where "KEM_SEED_LEN = 64"
definition KEM_PK_LEN :: nat where "KEM_PK_LEN = 1184"
definition KEM_CT_LEN :: nat where "KEM_CT_LEN = 1088"
definition MLDSA_SK_LEN :: nat where "MLDSA_SK_LEN = 4032"
definition MLDSA_PK_LEN :: nat where "MLDSA_PK_LEN = 1952"
definition MLDSA_SIG_LEN :: nat where "MLDSA_SIG_LEN = 3309"

lemmas pq_sizes = KEM_SEED_LEN_def KEM_PK_LEN_def KEM_CT_LEN_def MLDSA_SK_LEN_def MLDSA_PK_LEN_def MLDSA_SIG_LEN_def

record ('ks, 'kp, 'ds, 'dp) pq_lib =
  kem_generate :: "bytes \<Rightarrow> 'ks \<times> 'kp"
  kem_from_seed :: "bytes \<Rightarrow> 'ks"
  kem_to_seed :: "'ks \<Rightarrow> bytes option"
  kem_pk_to_bytes :: "'kp \<Rightarrow> bytes"
  kem_pk_new :: "bytes \<Rightarrow> 'kp option"
  kem_encaps :: "bytes \<Rightarrow> 'kp \<Rightarrow> bytes \<times> bytes"
  kem_decaps :: "'ks \<Rightarrow> bytes \<Rightarrow> bytes"
  mldsa_keygen :: "bytes \<Rightarrow> 'dp \<times> 'ds"
  mldsa_keygen_from_seed :: "bytes \<Rightarrow> 'dp \<times> 'ds"
  mldsa_sk_into_bytes :: "'ds \<Rightarrow> bytes"
  mldsa_sk_try_from :: "bytes \<Rightarrow> 'ds option"
  mldsa_pk_into_bytes :: "'dp \<Rightarrow> bytes"
  mldsa_pk_try_from :: "bytes \<Rightarrow> 'dp option"
  mldsa_try_sign :: "'ds \<Rightarrow> bytes \<Rightarrow> string \<Rightarrow> string + bytes"
  mldsa_pk_verify :: "'dp \<Rightarrow> bytes \<Rightarrow> bytes \<Rightarrow> string \<Rightarrow> bool"

text \<open>Serialised keys have their standard lengths and parse back; a generated decapsulation key remembers its seed.\<close>

definition pq_lawful :: "('ks, 'kp, 'ds, 'dp) pq_lib \<Rightarrow> bool" where
  "pq_lawful L \<longleftrightarrow>
     (\<forall>r. kem_to_seed L (fst (kem_generate L r)) \<noteq> None) \<and>
     (\<forall>s. length s = KEM_SEED_LEN \<longrightarrow> kem_to_seed L (kem_from_seed L s) = Some s) \<and>
     (\<forall>sk s. kem_to_seed L sk = Some s \<longrightarrow> length s = KEM_SEED_LEN \<and> kem_from_seed L s = sk) \<and>
     (\<forall>pk. length (kem_pk_to_bytes L pk) = KEM_PK_LEN \<and> kem_pk_new L (kem_pk_to_bytes L pk) = Some pk) \<and>
     (\<forall>sk. length (mldsa_sk_into_bytes L sk) = MLDSA_SK_LEN \<and> mldsa_sk_try_from L (mldsa_sk_into_bytes L sk) = Some sk) \<and>
     (\<forall>pk. length (mldsa_pk_into_bytes L pk) = MLDSA_PK_LEN \<and> mldsa_pk_try_from L (mldsa_pk_into_bytes L pk) = Some pk)"

text \<open>\<^verbatim>\<open>Array::try_from\<close>: a slice of exactly the array's length.\<close>

definition sized :: "nat \<Rightarrow> bytes \<Rightarrow> bytes option" where
  "sized n b = (if length b = n then Some b else None)"

section \<open>Identities\<close>

record ('ks, 'kp, 'ds, 'dp) identity_keypair =
  id_x25519_secret :: bytes
  id_x25519_public :: bytes
  id_kem_pk :: 'kp
  id_kem_sk :: 'ks
  id_mldsa_sk :: 'ds
  id_mldsa_pk :: 'dp

text \<open>\<open>rx\<close>, \<open>rk\<close> and \<open>rd\<close> are the random bytes of the three key generations.\<close>

definition identity_generate ::
  "prims \<Rightarrow> ('ks, 'kp, 'ds, 'dp) pq_lib \<Rightarrow> bytes \<times> bytes \<times> bytes \<Rightarrow> ('ks, 'kp, 'ds, 'dp) identity_keypair" where
  "identity_generate P L = (\<lambda>(rx, rk, rd).
     \<lparr>id_x25519_secret = rx, id_x25519_public = x25519_public P rx,
      id_kem_pk = snd (kem_generate L rk), id_kem_sk = fst (kem_generate L rk),
      id_mldsa_sk = snd (mldsa_keygen L rd), id_mldsa_pk = fst (mldsa_keygen L rd)\<rparr>)"

definition identity_to_bytes :: "('ks, 'kp, 'ds, 'dp) pq_lib \<Rightarrow> ('ks, 'kp, 'ds, 'dp) identity_keypair \<Rightarrow> bytes outcome" where
  "identity_to_bytes L i =
     (case kem_to_seed L (id_kem_sk i) of
        None \<Rightarrow> Panic
      | Some kem_sk_bytes \<Rightarrow>
          let kem_pk_bytes = kem_pk_to_bytes L (id_kem_pk i)
          in Return ([3] @ id_x25519_secret i @ u32_to_be (of_nat (length kem_sk_bytes)) @ kem_sk_bytes @
               u32_to_be (of_nat (length kem_pk_bytes)) @ kem_pk_bytes @
               mldsa_sk_into_bytes L (id_mldsa_sk i) @ mldsa_pk_into_bytes L (id_mldsa_pk i)))"

text \<open>The part both versions share: the X25519 secret, the KEM keys and where they end.\<close>

definition parse_kem_part ::
  "('ks, 'kp, 'ds, 'dp) pq_lib \<Rightarrow> bytes \<Rightarrow> (bytes \<times> 'ks \<times> 'kp \<times> nat) option" where
  "parse_kem_part L b =
     (if length b < 1 + 32 + 8 then None
      else
        let kem_sk_len = unat (of_be (slice b 33 37) :: u32);
            kem_sk_end = 37 + kem_sk_len in
        if length b < kem_sk_end then None
        else case sized KEM_SEED_LEN (slice b 37 kem_sk_end) of
          None \<Rightarrow> None
        | Some seed \<Rightarrow>
            if length b < kem_sk_end + 4 then None
            else
              let kem_pk_len = unat (of_be (slice b kem_sk_end (kem_sk_end + 4)) :: u32);
                  kem_pk_end = kem_sk_end + 4 + kem_pk_len in
              if length b < kem_pk_end then None
              else case sized KEM_PK_LEN (slice b (kem_sk_end + 4) kem_pk_end) of
                None \<Rightarrow> None
              | Some pk_arr \<Rightarrow>
                  map_option (\<lambda>pk. (slice b 1 33, kem_from_seed L seed, pk, kem_pk_end)) (kem_pk_new L pk_arr))"

definition from_bytes_v3 ::
  "prims \<Rightarrow> ('ks, 'kp, 'ds, 'dp) pq_lib \<Rightarrow> bytes \<Rightarrow> ('ks, 'kp, 'ds, 'dp) identity_keypair option" where
  "from_bytes_v3 P L b =
     (case parse_kem_part L b of
        None \<Rightarrow> None
      | Some (x25519, kem_sk, kem_pk, kem_pk_end) \<Rightarrow>
          let mldsa_end = kem_pk_end + MLDSA_SK_LEN + MLDSA_PK_LEN in
          if length b < mldsa_end then None
          else
            (case (mldsa_sk_try_from L (slice b kem_pk_end (kem_pk_end + MLDSA_SK_LEN)),
                   mldsa_pk_try_from L (slice b (kem_pk_end + MLDSA_SK_LEN) mldsa_end)) of
               (Some sk, Some pk) \<Rightarrow>
                 Some \<lparr>id_x25519_secret = x25519, id_x25519_public = x25519_public P x25519,
                       id_kem_pk = kem_pk, id_kem_sk = kem_sk, id_mldsa_sk = sk, id_mldsa_pk = pk\<rparr>
             | _ \<Rightarrow> None))"

definition from_bytes_v2_upgrade ::
  "prims \<Rightarrow> ('ks, 'kp, 'ds, 'dp) pq_lib \<Rightarrow> bytes \<Rightarrow> ('ks, 'kp, 'ds, 'dp) identity_keypair option" where
  "from_bytes_v2_upgrade P L b =
     (if length b < 1 + 32 + 8 then None
      else if b ! 0 \<noteq> 2 then None
      else case parse_kem_part L b of
        None \<Rightarrow> None
      | Some (x25519, kem_sk, kem_pk, _) \<Rightarrow>
          let mldsa_seed = blake3_derive_key P ''seam/mldsa-identity-seed/v1'' x25519;
              (mldsa_pk, mldsa_sk) = mldsa_keygen_from_seed L mldsa_seed
          in Some \<lparr>id_x25519_secret = x25519, id_x25519_public = x25519_public P x25519,
                   id_kem_pk = kem_pk, id_kem_sk = kem_sk, id_mldsa_sk = mldsa_sk, id_mldsa_pk = mldsa_pk\<rparr>)"

definition identity_from_bytes ::
  "prims \<Rightarrow> ('ks, 'kp, 'ds, 'dp) pq_lib \<Rightarrow> bytes \<Rightarrow> ('ks, 'kp, 'ds, 'dp) identity_keypair option" where
  "identity_from_bytes P L b =
     (if b = [] then None
      else if b ! 0 = 3 then from_bytes_v3 P L b
      else if b ! 0 = 2 then from_bytes_v2_upgrade P L b
      else None)"

text \<open>\<^verbatim>\<open>load_or_generate\<close> with the file's content before and after the call, \<open>None\<close> when it does not exist; a file
  system that fails is left out, and so are the permission bits.\<close>

definition load_or_generate ::
  "prims \<Rightarrow> ('ks, 'kp, 'ds, 'dp) pq_lib \<Rightarrow> bytes \<times> bytes \<times> bytes \<Rightarrow> bytes option \<Rightarrow>
     ((string + ('ks, 'kp, 'ds, 'dp) identity_keypair) \<times> bytes option) outcome" where
  "load_or_generate P L random file =
     (case file of
        Some b \<Rightarrow>
          let version = (if b = [] then 0 else b ! 0) in
          (case identity_from_bytes P L b of
             None \<Rightarrow> Return (Inl ''invalid identity file'', Some b)
           | Some i \<Rightarrow>
               if version = 2 then obind (identity_to_bytes L i) (\<lambda>b'. Return (Inr i, Some b'))
               else Return (Inr i, Some b))
      | None \<Rightarrow>
          let i = identity_generate P L random
          in obind (identity_to_bytes L i) (\<lambda>b'. Return (Inr i, Some b')))"

definition mldsa_sign :: "('ks, 'kp, 'ds, 'dp) pq_lib \<Rightarrow> ('ks, 'kp, 'ds, 'dp) identity_keypair \<Rightarrow> bytes \<Rightarrow> string + bytes" where
  "mldsa_sign L i message =
     (case mldsa_try_sign L (id_mldsa_sk i) message ''seam-identity-proof/v1'' of
        Inl e \<Rightarrow> Inl (''ML-DSA-65 sign failed: '' @ e)
      | Inr sig \<Rightarrow> Inr sig)"

definition mldsa_verify :: "('ks, 'kp, 'ds, 'dp) pq_lib \<Rightarrow> bytes \<Rightarrow> bytes \<Rightarrow> bytes \<Rightarrow> bool" where
  "mldsa_verify L pk_bytes message sig_bytes =
     (case mldsa_pk_try_from L pk_bytes of
        None \<Rightarrow> False
      | Some pk \<Rightarrow> mldsa_pk_verify L pk message sig_bytes ''seam-identity-proof/v1'')"

section \<open>The hybrid secret\<close>

definition hybrid_secret_new :: "bytes \<Rightarrow> bytes \<Rightarrow> bytes" where
  "hybrid_secret_new x25519_bytes kem_bytes = x25519_bytes @ kem_bytes"

definition derive_packet_keys_with_cipher :: "prims \<Rightarrow> bytes \<Rightarrow> bytes \<Rightarrow> cipher_suite \<Rightarrow> bytes \<Rightarrow> packet_keys" where
  "derive_packet_keys_with_cipher P dat noise_hash suite direction =
     derive_from_secret_with_cipher P (dat @ noise_hash @ direction) suite"

text \<open>The labels \<^verbatim>\<open>b"c2s"\<close> and \<^verbatim>\<open>b"s2c"\<close>.\<close>

definition label_c2s :: bytes where "label_c2s = [99, 50, 115]"
definition label_s2c :: bytes where "label_s2c = [115, 50, 99]"

definition derive_directional_packet_keys :: "prims \<Rightarrow> bytes \<Rightarrow> bytes \<Rightarrow> cipher_suite \<Rightarrow> packet_keys \<times> packet_keys" where
  "derive_directional_packet_keys P dat noise_hash suite =
     (derive_packet_keys_with_cipher P dat noise_hash suite label_c2s,
      derive_packet_keys_with_cipher P dat noise_hash suite label_s2c)"

definition kem_encapsulate :: "('ks, 'kp, 'ds, 'dp) pq_lib \<Rightarrow> bytes \<Rightarrow> 'kp \<Rightarrow> bytes \<times> bytes" where
  "kem_encapsulate L random pk = kem_encaps L random pk"

definition kem_decapsulate :: "('ks, 'kp, 'ds, 'dp) pq_lib \<Rightarrow> 'ks \<Rightarrow> bytes \<Rightarrow> bytes option" where
  "kem_decapsulate L sk ct_bytes = map_option (kem_decaps L sk) (sized KEM_CT_LEN ct_bytes)"

definition pk_to_bytes :: "('ks, 'kp, 'ds, 'dp) pq_lib \<Rightarrow> 'kp \<Rightarrow> bytes" where
  "pk_to_bytes L pk = kem_pk_to_bytes L pk"

definition pk_from_bytes :: "('ks, 'kp, 'ds, 'dp) pq_lib \<Rightarrow> bytes \<Rightarrow> 'kp option" where
  "pk_from_bytes L b = Option.bind (sized KEM_PK_LEN b) (kem_pk_new L)"

section \<open>Identities survive storage\<close>

definition identity_ok :: "prims \<Rightarrow> ('ks, 'kp, 'ds, 'dp) pq_lib \<Rightarrow> ('ks, 'kp, 'ds, 'dp) identity_keypair \<Rightarrow> bool" where
  "identity_ok P L i \<longleftrightarrow> length (id_x25519_secret i) = 32 \<and> id_x25519_public i = x25519_public P (id_x25519_secret i) \<and>
     kem_to_seed L (id_kem_sk i) \<noteq> None"

lemma length_field: "n < 2 ^ 32 \<Longrightarrow> unat (of_be (u32_to_be (of_nat n)) :: u32) = n"
  by (simp add: codec_simps unat_of_nat_id)

lemma identity_bytes_roundtrip:
  assumes L: "pq_lawful L" and i: "identity_ok P L i"
  shows "\<exists>b. identity_to_bytes L i = Return b \<and> b \<noteq> [] \<and> b ! 0 = 3 \<and> identity_from_bytes P L b = Some i"
proof -
  obtain seed where seed: "kem_to_seed L (id_kem_sk i) = Some seed" using i by (auto simp: identity_ok_def)
  define pk sk ds dp where "pk = kem_pk_to_bytes L (id_kem_pk i)" and "sk = id_x25519_secret i"
    and "ds = mldsa_sk_into_bytes L (id_mldsa_sk i)" and "dp = mldsa_pk_into_bytes L (id_mldsa_pk i)"
  have len: "length seed = 64" "length pk = 1184" "length sk = 32" "length ds = 4032" "length dp = 1952"
    and inv: "kem_from_seed L seed = id_kem_sk i" "kem_pk_new L pk = Some (id_kem_pk i)"
      "mldsa_sk_try_from L ds = Some (id_mldsa_sk i)" "mldsa_pk_try_from L dp = Some (id_mldsa_pk i)"
    using L seed i by (auto simp: pq_lawful_def pq_sizes pk_def sk_def ds_def dp_def identity_ok_def)
  define b where "b = [3] @ sk @ u32_to_be 64 @ seed @ u32_to_be 1184 @ pk @ ds @ dp"
  have parts: "slice b 1 33 = sk" "slice b 33 37 = u32_to_be 64" "slice b 37 101 = seed" "slice b 101 105 = u32_to_be 1184"
    "slice b 105 1289 = pk" "slice b 1289 5321 = ds" "slice b 5321 7273 = dp" "length b = 7273" "b ! 0 = 3" "b \<noteq> []"
    using len by (simp_all add: b_def slice_def)
  have to_b: "identity_to_bytes L i = Return b"
    using seed len by (simp add: identity_to_bytes_def b_def pk_def sk_def ds_def dp_def Let_def)
  have nums: "unat (of_be (u32_to_be 64) :: u32) = 64" "unat (of_be (u32_to_be 1184) :: u32) = 1184"
    using length_field [of 64] length_field [of 1184] by simp_all
  have "parse_kem_part L b = Some (sk, id_kem_sk i, id_kem_pk i, 1289)"
    using len inv nums by (simp add: parse_kem_part_def parts parts(1) [simplified] sized_def pq_sizes)
  moreover have "\<lparr>id_x25519_secret = sk, id_x25519_public = x25519_public P sk, id_kem_pk = id_kem_pk i,
      id_kem_sk = id_kem_sk i, id_mldsa_sk = id_mldsa_sk i, id_mldsa_pk = id_mldsa_pk i\<rparr> = i"
    using i by (simp add: sk_def identity_ok_def)
  ultimately have "identity_from_bytes P L b = Some i"
    using inv by (simp add: identity_from_bytes_def from_bytes_v3_def parts pq_sizes)
  with to_b parts show ?thesis by blast
qed

lemma parse_kem_part_ok:
  assumes "pq_lawful L" "parse_kem_part L b = Some (x, sk, pk, e)"
  shows "length x = 32" "kem_to_seed L sk \<noteq> None"
  using assms
  by (auto simp: parse_kem_part_def Let_def sized_def pq_lawful_def split: if_splits option.splits)

text \<open>C26: An identity outlives restarts and the upgrade of the file format. Whatever file is found, of the current
  or the previous version, damaged or absent, \<^verbatim>\<open>load_or_generate\<close> returns without panicking; and whenever it
  yields an identity, every later call on the file it left behind yields exactly that identity again, with
  whatever randomness, and leaves the file as it is.\<close>

theorem identity_persists:
  assumes "pq_lawful L" "length (fst random) = 32"
  shows "\<exists>r file'. load_or_generate P L random file = Return (r, file') \<and>
    (\<forall>i random'. r = Inr i \<longrightarrow> load_or_generate P L random' file' = Return (Inr i, file'))"
proof (cases "file")
  case None
  have "identity_ok P L (identity_generate P L random)"
    using assms by (auto simp: identity_ok_def identity_generate_def pq_lawful_def split: prod.split)
  from identity_bytes_roundtrip [OF assms(1) this] obtain b where
    "identity_to_bytes L (identity_generate P L random) = Return b" "b \<noteq> []" "b ! 0 = 3"
    "identity_from_bytes P L b = Some (identity_generate P L random)" by blast
  with None show ?thesis by (simp add: load_or_generate_def Let_def)
next
  case (Some b)
  show ?thesis
  proof (cases "identity_from_bytes P L b")
    case None
    with Some show ?thesis by (simp add: load_or_generate_def)
  next
    case (Some i)
    show ?thesis
    proof (cases "b ! 0 = 2 \<and> b \<noteq> []")
      case False
      with Some \<open>file = Some b\<close> show ?thesis by (auto simp: load_or_generate_def Let_def)
    next
      case True
      then have "from_bytes_v2_upgrade P L b = Some i" using Some by (simp add: identity_from_bytes_def)
      then have "identity_ok P L i"
        using parse_kem_part_ok [OF assms(1)]
        by (auto simp: from_bytes_v2_upgrade_def identity_ok_def Let_def split: if_splits option.splits prod.splits)
      from identity_bytes_roundtrip [OF assms(1) this] obtain b' where
        "identity_to_bytes L i = Return b'" "b' \<noteq> []" "b' ! 0 = 3" "identity_from_bytes P L b' = Some i" by blast
      with True Some \<open>file = Some b\<close> show ?thesis by (simp add: load_or_generate_def Let_def)
    qed
  qed
qed

text \<open>Libraries with that behaviour: keys of one value each, beside the seed.\<close>

definition demo_pq :: "(bytes, unit, unit, unit) pq_lib" where
  "demo_pq =
     \<lparr>kem_generate = (\<lambda>r. (resize r 64 0, ())), kem_from_seed = (\<lambda>s. s),
      kem_to_seed = (\<lambda>s. if length s = 64 then Some s else None),
      kem_pk_to_bytes = (\<lambda>_. replicate 1184 1), kem_pk_new = (\<lambda>_. Some ()),
      kem_encaps = (\<lambda>r _. (replicate 1088 2, replicate 32 7)), kem_decaps = (\<lambda>_ _. replicate 32 7),
      mldsa_keygen = (\<lambda>_. ((), ())), mldsa_keygen_from_seed = (\<lambda>_. ((), ())),
      mldsa_sk_into_bytes = (\<lambda>_. replicate 4032 3), mldsa_sk_try_from = (\<lambda>_. Some ()),
      mldsa_pk_into_bytes = (\<lambda>_. replicate 1952 4), mldsa_pk_try_from = (\<lambda>_. Some ()),
      mldsa_try_sign = (\<lambda>_ _ _. Inr (replicate 3309 5)), mldsa_pk_verify = (\<lambda>_ _ _ _. True)\<rparr>"

lemma demo_pq_lawful: "pq_lawful demo_pq"
  by (simp add: pq_lawful_def demo_pq_def pq_sizes)

theorem identity_persists_witness:
  "\<exists>r file'. load_or_generate demo_prims demo_pq (replicate 32 1, [], []) None = Return (r, file') \<and>
    (\<forall>i random'. r = Inr i \<longrightarrow> load_or_generate demo_prims demo_pq random' file' = Return (Inr i, file'))"
  by (rule identity_persists [OF demo_pq_lawful]) simp

end
