(* ===== verification/Handshake.thy ===== *)
theory Handshake
  imports Identity
begin

text \<open>
  \<^verbatim>\<open>src/handshake/state.rs\<close>: the hybrid Noise XX handshake. The Noise state machine is the crate \<^verbatim>\<open>snow\<close>, a
  parameter \<open>N\<close> over an opaque state; \<open>noise_agrees\<close> is what its documentation promises of two states that
  exchange the three messages of the pattern. The result: both ends finish with the same keys, session identifier
  and cipher suite, and the suite is AES-256-GCM exactly when both prefer it.
\<close>

section \<open>The Noise library\<close>

record 'n noise_lib =
  noise_initiator :: "bytes \<Rightarrow> bytes \<Rightarrow> bytes \<Rightarrow> string + 'n"
  noise_responder :: "bytes \<Rightarrow> bytes \<Rightarrow> string + 'n"
  noise_write_message :: "'n \<Rightarrow> bytes \<Rightarrow> (string + bytes) \<times> 'n"
  noise_read_message :: "'n \<Rightarrow> bytes \<Rightarrow> (string + bytes) \<times> 'n"
  noise_handshake_hash :: "'n \<Rightarrow> bytes"
  noise_remote_static :: "'n \<Rightarrow> bytes option"
  noise_raw_split :: "'n \<Rightarrow> bytes \<times> bytes"

text \<open>After three messages, each read back as written, both states have the same transcript hash and the same
  split of the final chaining key, and know the other's static key.\<close>

definition noise_agrees :: "'n noise_lib \<Rightarrow> 'n \<Rightarrow> 'n \<Rightarrow> bool" where
  "noise_agrees N c s \<longleftrightarrow>
     (\<forall>p1 p2 p3. length p1 \<le> 60000 \<and> length p2 \<le> 60000 \<and> length p3 \<le> 60000 \<longrightarrow>
        (\<exists>m1 c1 s1 m2 c2 s2 m3 c3 s3.
           noise_write_message N c p1 = (Inr m1, c1) \<and> noise_read_message N s m1 = (Inr p1, s1) \<and>
           noise_write_message N s1 p2 = (Inr m2, s2) \<and> noise_read_message N c1 m2 = (Inr p2, c2) \<and>
           noise_write_message N c2 p3 = (Inr m3, c3) \<and> noise_read_message N s2 m3 = (Inr p3, s3) \<and>
           length (noise_handshake_hash N c3) = 32 \<and> noise_handshake_hash N s3 = noise_handshake_hash N c3 \<and>
           noise_raw_split N s3 = noise_raw_split N c3 \<and>
           (\<exists>k. noise_remote_static N c3 = Some k \<and> length k = 32) \<and>
           (\<exists>k. noise_remote_static N s3 = Some k \<and> length k = 32)))"

section \<open>Payloads\<close>

definition CIPHER_FLAG_CHACHA :: u8 where "CIPHER_FLAG_CHACHA = 0x00"
definition CIPHER_FLAG_AES :: u8 where "CIPHER_FLAG_AES = 0x01"

definition length_prefix :: "bytes \<Rightarrow> bytes" where
  "length_prefix dat = u16_to_le (of_nat (length dat)) @ dat"

definition extract_prefix :: "bytes \<Rightarrow> seam_error + bytes" where
  "extract_prefix buf =
     (if length buf < 2 then Inl (HandshakeFailed ''payload too short'')
      else
        let len = unat (of_le (slice buf 0 2) :: u16) in
        if length buf < 2 + len then Inl (HandshakeFailed ''payload truncated'')
        else Inr (slice buf 2 (2 + len)))"

definition extract_prefix_with_flag :: "bytes \<Rightarrow> seam_error + bytes \<times> u8" where
  "extract_prefix_with_flag buf =
     (if length buf < 2 then Inl (HandshakeFailed ''payload too short'')
      else
        let len = unat (of_le (slice buf 0 2) :: u16) in
        if length buf < 2 + len then Inl (HandshakeFailed ''payload truncated'')
        else Inr (slice buf 2 (2 + len), if length buf > 2 + len then buf ! (2 + len) else CIPHER_FLAG_CHACHA))"

fun cipher_to_flag :: "cipher_suite \<Rightarrow> u8" where
  "cipher_to_flag ChaCha20Poly1305 = CIPHER_FLAG_CHACHA"
| "cipher_to_flag Aes256Gcm = CIPHER_FLAG_AES"

definition flag_to_cipher :: "u8 \<Rightarrow> cipher_suite" where
  "flag_to_cipher flag = (if flag = CIPHER_FLAG_AES then Aes256Gcm else ChaCha20Poly1305)"

definition write_noise :: "'n noise_lib \<Rightarrow> 'n \<Rightarrow> bytes \<Rightarrow> bytes \<Rightarrow> (seam_error + unit) \<times> bytes \<times> 'n" where
  "write_noise N hs payload out =
     (case noise_write_message N hs payload of
        (Inl e, hs') \<Rightarrow> (Inl (HandshakeFailed e), out, hs')
      | (Inr m, hs') \<Rightarrow> (Inr (), out @ m, hs'))"

definition read_noise :: "'n noise_lib \<Rightarrow> 'n \<Rightarrow> bytes \<Rightarrow> (seam_error + bytes) \<times> 'n" where
  "read_noise N hs msg =
     (case noise_read_message N hs msg of
        (Inl e, hs') \<Rightarrow> (Inl (HandshakeFailed e), hs')
      | (Inr p, hs') \<Rightarrow> (Inr p, hs'))"

section \<open>The result\<close>

record handshake_result =
  hr_session_id :: u64
  keys_c2s :: packet_keys
  keys_s2c :: packet_keys
  peer_static_pubkey :: bytes
  hr_cipher_suite :: cipher_suite
  handshake_hash :: bytes

text \<open>\<^verbatim>\<open>hash[..8]\<close> panics on a shorter hash; \<open>finish\<close> returns no error of its own.\<close>

definition finish :: "prims \<Rightarrow> bytes \<Rightarrow> bytes \<Rightarrow> bytes \<Rightarrow> bytes \<times> bytes \<Rightarrow> cipher_suite \<Rightarrow> (seam_error + handshake_result) outcome" where
  "finish P hash peer_static kem_shared dh_split suite =
     (let combined = fst dh_split @ snd dh_split;
          x25519_component = blake3_hash P combined;
          hybrid = hybrid_secret_new kem_shared x25519_component;
          (c2s, s2c) = derive_directional_packet_keys P hybrid hash suite
      in if length hash < 8 then Panic
         else Return (Inr \<lparr>hr_session_id = of_le (take 8 hash), keys_c2s = c2s, keys_s2c = s2c,
                peer_static_pubkey = peer_static, hr_cipher_suite = suite, handshake_hash = hash\<rparr>))"

definition remote_static :: "'n noise_lib \<Rightarrow> 'n \<Rightarrow> seam_error + bytes" where
  "remote_static N hs =
     (case noise_remote_static N hs of
        None \<Rightarrow> Inl (HandshakeFailed ''no remote static'')
      | Some k \<Rightarrow> if length k = 32 then Inr k else Inl (HandshakeFailed ''bad static key length''))"

section \<open>Client\<close>

record 'n client_handshake =
  ch_noise :: 'n
  ch_preferred_cipher :: cipher_suite

definition client_new_with_cipher ::
  "'n noise_lib \<Rightarrow> bytes \<Rightarrow> ('ks, 'kp, 'ds, 'dp) identity_keypair \<Rightarrow> bytes \<Rightarrow> cipher_suite \<Rightarrow> seam_error + 'n client_handshake" where
  "client_new_with_cipher N random local server_static suite =
     (case noise_initiator N random (id_x25519_secret local) server_static of
        Inl e \<Rightarrow> Inl (HandshakeFailed e)
      | Inr n \<Rightarrow> Inr \<lparr>ch_noise = n, ch_preferred_cipher = suite\<rparr>)"

definition client_new ::
  "'n noise_lib \<Rightarrow> bytes \<Rightarrow> ('ks, 'kp, 'ds, 'dp) identity_keypair \<Rightarrow> bytes \<Rightarrow> seam_error + 'n client_handshake" where
  "client_new N random local server_static =
     client_new_with_cipher N random local server_static cipher_suite_default"

definition write_msg1 ::
  "'n noise_lib \<Rightarrow> ('ks, 'kp, 'ds, 'dp) pq_lib \<Rightarrow> 'n client_handshake \<Rightarrow> 'kp \<Rightarrow> bytes \<Rightarrow>
     (seam_error + unit) \<times> bytes \<times> 'n client_handshake" where
  "write_msg1 N L h server_kem_pk out =
     (let payload = length_prefix (pk_to_bytes L server_kem_pk) @ [cipher_to_flag (ch_preferred_cipher h)] in
      case write_noise N (ch_noise h) payload out of (r, out', n) \<Rightarrow> (r, out', h\<lparr>ch_noise := n\<rparr>))"

definition read_msg2 ::
  "'n noise_lib \<Rightarrow> ('ks, 'kp, 'ds, 'dp) pq_lib \<Rightarrow> 'n client_handshake \<Rightarrow> bytes \<Rightarrow>
     (seam_error + 'kp \<times> cipher_suite) \<times> 'n client_handshake" where
  "read_msg2 N L h msg =
     (case read_noise N (ch_noise h) msg of
        (Inl e, n) \<Rightarrow> (Inl e, h\<lparr>ch_noise := n\<rparr>)
      | (Inr payload, n) \<Rightarrow>
          ((case extract_prefix_with_flag payload of
              Inl e \<Rightarrow> Inl e
            | Inr (pk_bytes, flag) \<Rightarrow>
                (case pk_from_bytes L pk_bytes of
                   None \<Rightarrow> Inl (HandshakeFailed ''bad KEM PK'')
                 | Some pk \<Rightarrow> Inr (pk, flag_to_cipher flag))), h\<lparr>ch_noise := n\<rparr>))"

definition write_msg3_and_finish ::
  "prims \<Rightarrow> 'n noise_lib \<Rightarrow> ('ks, 'kp, 'ds, 'dp) pq_lib \<Rightarrow> bytes \<Rightarrow> 'n client_handshake \<Rightarrow> 'kp \<Rightarrow> cipher_suite \<Rightarrow> bytes \<Rightarrow>
     ((seam_error + handshake_result) \<times> bytes) outcome" where
  "write_msg3_and_finish P N L random h server_kem_pk agreed out =
     (case kem_encapsulate L random server_kem_pk of
        (ct, kem_shared) \<Rightarrow>
          (case write_noise N (ch_noise h) (length_prefix ct) out of
             (Inl e, out', _) \<Rightarrow> Return (Inl e, out')
           | (Inr _, out', n) \<Rightarrow>
               (case remote_static N n of
                  Inl e \<Rightarrow> Return (Inl e, out')
                | Inr peer_static \<Rightarrow>
                    obind (finish P (noise_handshake_hash N n) peer_static kem_shared (noise_raw_split N n) agreed)
                      (\<lambda>r. Return (r, out')))))"

section \<open>Server\<close>

record 'n server_handshake =
  sh_noise :: 'n
  sh_preferred_cipher :: cipher_suite

definition server_new_with_cipher ::
  "'n noise_lib \<Rightarrow> bytes \<Rightarrow> ('ks, 'kp, 'ds, 'dp) identity_keypair \<Rightarrow> cipher_suite \<Rightarrow> seam_error + 'n server_handshake" where
  "server_new_with_cipher N random local suite =
     (case noise_responder N random (id_x25519_secret local) of
        Inl e \<Rightarrow> Inl (HandshakeFailed e)
      | Inr n \<Rightarrow> Inr \<lparr>sh_noise = n, sh_preferred_cipher = suite\<rparr>)"

definition server_new ::
  "'n noise_lib \<Rightarrow> bytes \<Rightarrow> ('ks, 'kp, 'ds, 'dp) identity_keypair \<Rightarrow> seam_error + 'n server_handshake" where
  "server_new N random local = server_new_with_cipher N random local cipher_suite_default"

definition negotiate :: "cipher_suite \<Rightarrow> bytes \<Rightarrow> cipher_suite" where
  "negotiate preferred payload =
     (let flag = (if length payload > 2 then
                    let len = unat (of_le (slice payload 0 2) :: u16) in
                    if length payload > 2 + len then payload ! (2 + len) else CIPHER_FLAG_CHACHA
                  else CIPHER_FLAG_CHACHA);
          client_suite = flag_to_cipher flag
      in if preferred = Aes256Gcm \<and> client_suite = Aes256Gcm then Aes256Gcm else ChaCha20Poly1305)"

definition read_msg1 :: "'n noise_lib \<Rightarrow> 'n server_handshake \<Rightarrow> bytes \<Rightarrow> (seam_error + cipher_suite) \<times> 'n server_handshake" where
  "read_msg1 N h msg =
     (case noise_read_message N (sh_noise h) msg of
        (Inl e, n) \<Rightarrow> (Inl (HandshakeFailed e), h\<lparr>sh_noise := n\<rparr>)
      | (Inr payload, n) \<Rightarrow> (Inr (negotiate (sh_preferred_cipher h) payload), h\<lparr>sh_noise := n\<rparr>))"

definition write_msg2 ::
  "'n noise_lib \<Rightarrow> ('ks, 'kp, 'ds, 'dp) pq_lib \<Rightarrow> 'n server_handshake \<Rightarrow> 'kp \<Rightarrow> cipher_suite \<Rightarrow> bytes \<Rightarrow>
     (seam_error + unit) \<times> bytes \<times> 'n server_handshake" where
  "write_msg2 N L h local_kem_pk agreed out =
     (let payload = length_prefix (pk_to_bytes L local_kem_pk) @ [cipher_to_flag agreed] in
      case write_noise N (sh_noise h) payload out of (r, out', n) \<Rightarrow> (r, out', h\<lparr>sh_noise := n\<rparr>))"

definition read_msg3_and_finish ::
  "prims \<Rightarrow> 'n noise_lib \<Rightarrow> ('ks, 'kp, 'ds, 'dp) pq_lib \<Rightarrow> 'n server_handshake \<Rightarrow> 'ks \<Rightarrow> cipher_suite \<Rightarrow> bytes \<Rightarrow>
     (seam_error + handshake_result) outcome" where
  "read_msg3_and_finish P N L h local_kem_sk agreed msg3 =
     (case read_noise N (sh_noise h) msg3 of
        (Inl e, _) \<Rightarrow> Return (Inl e)
      | (Inr payload, n) \<Rightarrow>
          (case extract_prefix payload of
             Inl e \<Rightarrow> Return (Inl e)
           | Inr ct \<Rightarrow>
               (case kem_decapsulate L local_kem_sk ct of
                  None \<Rightarrow> Return (Inl (HandshakeFailed ''KEM decapsulation failed''))
                | Some kem_shared \<Rightarrow>
                    (case remote_static N n of
                       Inl e \<Rightarrow> Return (Inl e)
                     | Inr peer_static \<Rightarrow>
                         finish P (noise_handshake_hash N n) peer_static kem_shared (noise_raw_split N n) agreed))))"

section \<open>Identity proofs\<close>

record identity_proof =
  proof_mldsa_pk :: bytes
  proof_signature :: bytes

definition identity_proof_to_bytes :: "identity_proof \<Rightarrow> bytes" where
  "identity_proof_to_bytes p = proof_mldsa_pk p @ proof_signature p"

definition identity_proof_from_bytes :: "bytes \<Rightarrow> identity_proof option" where
  "identity_proof_from_bytes b =
     (if length b \<noteq> MLDSA_PK_LEN + MLDSA_SIG_LEN then None
      else Some \<lparr>proof_mldsa_pk = take MLDSA_PK_LEN b, proof_signature = drop MLDSA_PK_LEN b\<rparr>)"

definition identity_proof_sign ::
  "('ks, 'kp, 'ds, 'dp) pq_lib \<Rightarrow> ('ks, 'kp, 'ds, 'dp) identity_keypair \<Rightarrow> bytes \<Rightarrow> seam_error + identity_proof" where
  "identity_proof_sign L i hash =
     (case mldsa_sign L i hash of
        Inl e \<Rightarrow> Inl (HandshakeFailed e)
      | Inr sig \<Rightarrow> Inr \<lparr>proof_mldsa_pk = mldsa_pk_into_bytes L (id_mldsa_pk i), proof_signature = sig\<rparr>)"

definition identity_proof_verify :: "('ks, 'kp, 'ds, 'dp) pq_lib \<Rightarrow> identity_proof \<Rightarrow> bytes \<Rightarrow> bool" where
  "identity_proof_verify L p hash = mldsa_verify L (proof_mldsa_pk p) hash (proof_signature p)"

interpretation identity_proof_codec: byte_codec identity_proof_to_bytes identity_proof_from_bytes
  "\<lambda>p. length (proof_mldsa_pk p) = MLDSA_PK_LEN \<and> length (proof_signature p) = MLDSA_SIG_LEN" "MLDSA_PK_LEN + MLDSA_SIG_LEN"
  by unfold_locales (auto simp: identity_proof_to_bytes_def identity_proof_from_bytes_def)

section \<open>Agreement\<close>

lemma prefix_fields:
  assumes "length dat < 2 ^ 16"
  shows "unat (of_le (slice (length_prefix dat @ r) 0 2) :: u16) = length dat"
    "slice (length_prefix dat @ r) 2 (2 + length dat) = dat" "length (length_prefix dat @ r) = 2 + length dat + length r"
    "(length_prefix dat @ [f]) ! (2 + length dat) = f"
  using assms by (simp_all add: length_prefix_def slice_def codec_simps unat_of_nat_id nth_append)

lemma extract_prefix_length_prefix: "length dat < 2 ^ 16 \<Longrightarrow> extract_prefix (length_prefix dat) = Inr dat"
  using prefix_fields(1-3) [of dat "[]"] by (simp add: extract_prefix_def)

lemma extract_flag_length_prefix:
  "length dat < 2 ^ 16 \<Longrightarrow> extract_prefix_with_flag (length_prefix dat @ [f]) = Inr (dat, f)"
  using prefix_fields(1-3) [of dat "[f]"] prefix_fields(4) [of dat f] by (simp add: extract_prefix_with_flag_def)

lemma flag_to_cipher_to_flag [simp]: "flag_to_cipher (cipher_to_flag c) = c"
  by (cases c) (simp_all add: flag_to_cipher_def CIPHER_FLAG_AES_def CIPHER_FLAG_CHACHA_def)

lemma negotiate_length_prefix:
  assumes "length dat < 2 ^ 16" "dat \<noteq> []"
  shows "negotiate pref (length_prefix dat @ [cipher_to_flag c]) =
    (if pref = Aes256Gcm \<and> c = Aes256Gcm then Aes256Gcm else ChaCha20Poly1305)"
  using prefix_fields(1-3) [OF assms(1), of "[cipher_to_flag c]"] prefix_fields(4) [OF assms(1), of "cipher_to_flag c"]
  by (simp add: negotiate_def)

text \<open>A KEM key pair in working order: decapsulation inverts encapsulation.\<close>

definition kem_pair :: "('ks, 'kp, 'ds, 'dp) pq_lib \<Rightarrow> 'ks \<Rightarrow> 'kp \<Rightarrow> bool" where
  "kem_pair L sk pk \<longleftrightarrow>
     (\<forall>r. length (fst (kem_encaps L r pk)) = KEM_CT_LEN \<and> kem_decaps L sk (fst (kem_encaps L r pk)) = snd (kem_encaps L r pk))"

text \<open>The three messages between a client that knows the server's KEM key and that server.\<close>

definition run_handshake ::
  "prims \<Rightarrow> 'n noise_lib \<Rightarrow> ('ks, 'kp, 'ds, 'dp) pq_lib \<Rightarrow> bytes \<Rightarrow> 'n client_handshake \<Rightarrow> 'n server_handshake \<Rightarrow> 'ks \<Rightarrow> 'kp \<Rightarrow>
     ((seam_error + handshake_result) \<times> (seam_error + handshake_result)) outcome" where
  "run_handshake P N L random c s sk pk =
     (case write_msg1 N L c pk [] of
        (_, m1, c1) \<Rightarrow>
          (case read_msg1 N s m1 of
             (Inl e, _) \<Rightarrow> Return (Inl e, Inl e)
           | (Inr agreed, s1) \<Rightarrow>
               (case write_msg2 N L s1 pk agreed [] of
                  (_, m2, s2) \<Rightarrow>
                    (case read_msg2 N L c1 m2 of
                       (Inl e, _) \<Rightarrow> Return (Inl e, Inl e)
                     | (Inr (pk', suite), c2) \<Rightarrow>
                         obind (write_msg3_and_finish P N L random c2 pk' suite []) (\<lambda>(rc, m3).
                         obind (read_msg3_and_finish P N L s2 sk agreed m3) (\<lambda>rs. Return (rc, rs)))))))"

lemma finish_ok:
  assumes "length hash = 32"
  shows "finish P hash ps ss sp suite = Return (Inr
    \<lparr>hr_session_id = of_le (take 8 hash),
     keys_c2s = fst (derive_directional_packet_keys P (hybrid_secret_new ss (blake3_hash P (fst sp @ snd sp))) hash suite),
     keys_s2c = snd (derive_directional_packet_keys P (hybrid_secret_new ss (blake3_hash P (fst sp @ snd sp))) hash suite),
     peer_static_pubkey = ps, hr_cipher_suite = suite, handshake_hash = hash\<rparr>)"
  using assms by (simp add: finish_def Let_def case_prod_beta)

lemma keys_ok_directional:
  "kdf_lawful P \<Longrightarrow> keys_ok (fst (derive_directional_packet_keys P d h c)) \<and> keys_ok (snd (derive_directional_packet_keys P d h c))"
  by (simp add: derive_directional_packet_keys_def derive_packet_keys_with_cipher_def)

text \<open>The messages carry both ends to \<open>finish\<close> with the same transcript hash, split and KEM secret.\<close>

lemma handshake_messages:
  assumes "noise_agrees N (ch_noise c) (sh_noise s)" "pq_lawful L" "kem_pair L sk pk"
    and "agreed = (if sh_preferred_cipher s = Aes256Gcm \<and> ch_preferred_cipher c = Aes256Gcm then Aes256Gcm else ChaCha20Poly1305)"
  obtains m1 c1 s1 m2 s2 c2 m3 hash sp kc ks p1 where "length hash = 32"
    "write_msg1 N L c pk [] = (Inr (), m1, c\<lparr>ch_noise := c1\<rparr>)" "noise_write_message N (ch_noise c) p1 = (Inr m1, c1)"
    "read_msg1 N s m1 = (Inr agreed, s\<lparr>sh_noise := s1\<rparr>)"
    "write_msg2 N L (s\<lparr>sh_noise := s1\<rparr>) pk agreed [] = (Inr (), m2, s\<lparr>sh_noise := s2\<rparr>)"
    "read_msg2 N L (c\<lparr>ch_noise := c1\<rparr>) m2 = (Inr (pk, agreed), c\<lparr>ch_noise := c2\<rparr>)"
    "write_msg3_and_finish P N L random (c\<lparr>ch_noise := c2\<rparr>) pk agreed [] =
      obind (finish P hash kc (snd (kem_encaps L random pk)) sp agreed) (\<lambda>r. Return (r, m3))"
    "read_msg3_and_finish P N L (s\<lparr>sh_noise := s2\<rparr>) sk agreed m3 = finish P hash ks (snd (kem_encaps L random pk)) sp agreed"
proof -
  define kb ct ss where "kb = kem_pk_to_bytes L pk" and "ct = fst (kem_encaps L random pk)" and "ss = snd (kem_encaps L random pk)"
  have len: "length kb = 1184" "length ct = 1088" "kem_decaps L sk ct = ss" "kem_pk_new L kb = Some pk"
    using assms(2,3) by (simp_all add: pq_lawful_def kem_pair_def kb_def ct_def ss_def pq_sizes)
  have sizes: "length (length_prefix kb @ [f]) \<le> 60000" "length (length_prefix ct) \<le> 60000" for f
    using len by (simp_all add: length_prefix_def)
  have small: "length kb < 2 ^ 16" "length ct < 2 ^ 16" "kb \<noteq> []" using len by auto
  obtain m1 c1 s1 m2 c2 s2 m3 c3 s3 kc ks where n:
    "noise_write_message N (ch_noise c) (length_prefix kb @ [cipher_to_flag (ch_preferred_cipher c)]) = (Inr m1, c1)"
    "noise_read_message N (sh_noise s) m1 = (Inr (length_prefix kb @ [cipher_to_flag (ch_preferred_cipher c)]), s1)"
    "noise_write_message N s1 (length_prefix kb @ [cipher_to_flag agreed]) = (Inr m2, s2)"
    "noise_read_message N c1 m2 = (Inr (length_prefix kb @ [cipher_to_flag agreed]), c2)"
    "noise_write_message N c2 (length_prefix ct) = (Inr m3, c3)" "noise_read_message N s2 m3 = (Inr (length_prefix ct), s3)"
    "length (noise_handshake_hash N c3) = 32" "noise_handshake_hash N s3 = noise_handshake_hash N c3"
    "noise_raw_split N s3 = noise_raw_split N c3"
    "noise_remote_static N c3 = Some kc" "length kc = 32" "noise_remote_static N s3 = Some ks" "length ks = 32"
    using assms(1) sizes unfolding noise_agrees_def by meson
  have msg1: "write_msg1 N L c pk [] = (Inr (), m1, c\<lparr>ch_noise := c1\<rparr>)"
    using n(1) by (simp add: write_msg1_def write_noise_def pk_to_bytes_def kb_def)
  have msg1': "read_msg1 N s m1 = (Inr agreed, s\<lparr>sh_noise := s1\<rparr>)"
    using n(2) small by (simp add: read_msg1_def negotiate_length_prefix assms(4))
  have msg2: "write_msg2 N L (s\<lparr>sh_noise := s1\<rparr>) pk agreed [] = (Inr (), m2, s\<lparr>sh_noise := s2\<rparr>)"
    using n(3) by (simp add: write_msg2_def write_noise_def pk_to_bytes_def kb_def)
  have msg2': "read_msg2 N L (c\<lparr>ch_noise := c1\<rparr>) m2 = (Inr (pk, agreed), c\<lparr>ch_noise := c2\<rparr>)"
    using n(4) small len by (simp add: read_msg2_def read_noise_def extract_flag_length_prefix pk_from_bytes_def sized_def pq_sizes)
  have msg3: "write_msg3_and_finish P N L random (c\<lparr>ch_noise := c2\<rparr>) pk agreed [] =
      obind (finish P (noise_handshake_hash N c3) kc ss (noise_raw_split N c3) agreed) (\<lambda>r. Return (r, m3))"
    using n(5,10,11)
    by (simp add: write_msg3_and_finish_def kem_encapsulate_def write_noise_def remote_static_def ct_def ss_def case_prod_beta)
  have msg3': "read_msg3_and_finish P N L (s\<lparr>sh_noise := s2\<rparr>) sk agreed m3 =
      finish P (noise_handshake_hash N c3) ks ss (noise_raw_split N c3) agreed"
    using n(6,8,9,12,13) small len
    by (simp add: read_msg3_and_finish_def read_noise_def extract_prefix_length_prefix kem_decapsulate_def sized_def
        remote_static_def pq_sizes)
  show ?thesis by (rule that [OF n(7) msg1 n(1) msg1' msg2 msg2' msg3 [unfolded ss_def] msg3' [unfolded ss_def]])
qed

lemma run_handshake_finish:
  assumes "noise_agrees N (ch_noise c) (sh_noise s)" "pq_lawful L" "kem_pair L sk pk"
    and "agreed = (if sh_preferred_cipher s = Aes256Gcm \<and> ch_preferred_cipher c = Aes256Gcm then Aes256Gcm else ChaCha20Poly1305)"
  obtains hash sp kc ks where "length hash = 32"
    "run_handshake P N L random c s sk pk =
      obind (finish P hash kc (snd (kem_encaps L random pk)) sp agreed) (\<lambda>rc.
      obind (finish P hash ks (snd (kem_encaps L random pk)) sp agreed) (\<lambda>rs. Return (rc, rs)))"
  by (rule handshake_messages [OF assms, of P random], rule that, assumption) (simp add: run_handshake_def finish_ok)

text \<open>C9: The handshake agrees. When the two Noise states agree and the server's KEM keys belong together, the three
  messages carry both sides to success without a panic, and client and server hold the same packet keys for either
  direction, all of the right lengths, the same session identifier and transcript hash, and the same cipher suite,
  which is AES-256-GCM exactly when both prefer it.\<close>

theorem handshake_agrees:
  assumes "noise_agrees N (ch_noise c) (sh_noise s)" "pq_lawful L" "kem_pair L sk pk" "kdf_lawful P"
  shows "\<exists>rc rs. run_handshake P N L random c s sk pk = Return (Inr rc, Inr rs) \<and>
    keys_c2s rc = keys_c2s rs \<and> keys_s2c rc = keys_s2c rs \<and> keys_ok (keys_c2s rc) \<and> keys_ok (keys_s2c rc) \<and>
    hr_session_id rc = hr_session_id rs \<and> handshake_hash rc = handshake_hash rs \<and>
    hr_cipher_suite rc = hr_cipher_suite rs \<and>
    (hr_cipher_suite rc = Aes256Gcm \<longleftrightarrow> ch_preferred_cipher c = Aes256Gcm \<and> sh_preferred_cipher s = Aes256Gcm)"
proof -
  obtain hash sp kc ks where h: "length hash = 32"
    "run_handshake P N L random c s sk pk =
      obind (finish P hash kc (snd (kem_encaps L random pk)) sp
        (if sh_preferred_cipher s = Aes256Gcm \<and> ch_preferred_cipher c = Aes256Gcm then Aes256Gcm else ChaCha20Poly1305)) (\<lambda>rc.
      obind (finish P hash ks (snd (kem_encaps L random pk)) sp
        (if sh_preferred_cipher s = Aes256Gcm \<and> ch_preferred_cipher c = Aes256Gcm then Aes256Gcm else ChaCha20Poly1305)) (\<lambda>rs.
      Return (rc, rs)))"
    by (rule run_handshake_finish [OF assms(1-3) refl])
  show ?thesis unfolding h(2) using keys_ok_directional [OF assms(4)] by (auto simp: finish_ok [OF h(1)])
qed

definition demo_noise :: "unit noise_lib" where
  "demo_noise =
     \<lparr>noise_initiator = (\<lambda>_ _ _. Inr ()), noise_responder = (\<lambda>_ _. Inr ()),
      noise_write_message = (\<lambda>n p. (if length p \<le> 60000 then Inr p else Inl ''message too long'', n)), noise_read_message = (\<lambda>n m. (Inr m, n)),
      noise_handshake_hash = (\<lambda>_. replicate 32 9), noise_remote_static = (\<lambda>_. Some (replicate 32 8)),
      noise_raw_split = (\<lambda>_. (replicate 32 1, replicate 32 2))\<rparr>"

theorem handshake_agrees_witness:
  "\<exists>rc rs. run_handshake demo_prims demo_noise demo_pq [] \<lparr>ch_noise = (), ch_preferred_cipher = Aes256Gcm\<rparr>
       \<lparr>sh_noise = (), sh_preferred_cipher = Aes256Gcm\<rparr> (replicate 64 0) () = Return (Inr rc, Inr rs) \<and>
     keys_c2s rc = keys_c2s rs \<and> hr_cipher_suite rs = Aes256Gcm"
proof -
  have "noise_agrees demo_noise (ch_noise \<lparr>ch_noise = (), ch_preferred_cipher = Aes256Gcm\<rparr>)
      (sh_noise \<lparr>sh_noise = (), sh_preferred_cipher = Aes256Gcm\<rparr>)"
    by (simp add: noise_agrees_def demo_noise_def)
  moreover have "kem_pair demo_pq (replicate 64 0) ()" by (simp add: kem_pair_def demo_pq_def pq_sizes)
  ultimately show ?thesis
    using handshake_agrees [OF _ demo_pq_lawful _ demo_prims_lawful(3), of demo_noise
        "\<lparr>ch_noise = (), ch_preferred_cipher = Aes256Gcm\<rparr>" "\<lparr>sh_noise = (), sh_preferred_cipher = Aes256Gcm\<rparr>" "replicate 64 0" "()" "[]"]
    by auto
qed

section \<open>Directional keys\<close>

text \<open>The two directions never share a payload key: as long as the key derivation does not collide on the two inputs,
  client and server encrypt under different keys, for every secret, transcript and suite.\<close>

lemma directional_keys_differ:
  assumes "inj_on (blake3_derive_key P ''apex/payload-encryption/v1'') {dat @ hash @ label_c2s, dat @ hash @ label_s2c}"
  shows "enc_key (fst (derive_directional_packet_keys P dat hash suite)) \<noteq> enc_key (snd (derive_directional_packet_keys P dat hash suite))"
  using inj_onD [OF assms, of "dat @ hash @ label_c2s" "dat @ hash @ label_s2c"]
  by (auto simp: derive_directional_packet_keys_def derive_packet_keys_with_cipher_def derive_from_secret_with_cipher_def
      label_c2s_def label_s2c_def Let_def)

end
