(* ===== verification/Cookie.thy ===== *)
theory Cookie
  imports Crypto_Prims
begin

text \<open>
  \<^verbatim>\<open>src/handshake/cookie.rs\<close>: the stateless cookie a server hands out before it allocates anything for a
  client. \<open>now\<close> is the wall clock in seconds since the epoch; the constant-time comparison is equality.
\<close>

record cookie_factory =
  cookie_secret :: bytes
  bucket_secs :: u64

definition cookie_factory_new :: "bytes \<Rightarrow> cookie_factory" where
  "cookie_factory_new secret = \<lparr>cookie_secret = secret, bucket_secs = 30\<rparr>"

definition cookie_bucket :: "u64 \<Rightarrow> cookie_factory \<Rightarrow> u64" where
  "cookie_bucket now f = now div bucket_secs f"

definition cookie_compute :: "prims \<Rightarrow> cookie_factory \<Rightarrow> bytes \<Rightarrow> u64 \<Rightarrow> bytes" where
  "cookie_compute P f client_addr bucket = blake3_keyed_hash P (cookie_secret f) (client_addr @ u64_to_le bucket)"

definition cookie_generate :: "prims \<Rightarrow> u64 \<Rightarrow> cookie_factory \<Rightarrow> bytes \<Rightarrow> bytes" where
  "cookie_generate P now f client_addr = cookie_compute P f client_addr (cookie_bucket now f)"

definition cookie_verify :: "prims \<Rightarrow> u64 \<Rightarrow> cookie_factory \<Rightarrow> bytes \<Rightarrow> bytes \<Rightarrow> bool" where
  "cookie_verify P now f client_addr cookie =
     (let b = cookie_bucket now f;
          cur = cookie_compute P f client_addr b;
          prev = (if b > 0 then cookie_compute P f client_addr (b - 1) else replicate 32 0)
      in cur = cookie \<or> prev = cookie)"

section \<open>When a cookie is good\<close>

text \<open>A keyed hash that no two of the inputs in question share, and that is never all zero on them: what an
  attacker would have to break. The inputs are the given addresses, each with any bucket.\<close>

definition mac_unforgeable :: "prims \<Rightarrow> bytes \<Rightarrow> bytes set \<Rightarrow> bool" where
  "mac_unforgeable P secret A \<longleftrightarrow>
     (let inputs = (\<Union>a \<in> A. range (\<lambda>b. a @ u64_to_le b))
      in inj_on (blake3_keyed_hash P secret) inputs \<and> (\<forall>m \<in> inputs. blake3_keyed_hash P secret m \<noteq> replicate 32 0))"

lemma compute_inj:
  assumes "mac_unforgeable P (cookie_secret f) A" and "a \<in> A" and "a' \<in> A"
    and "cookie_compute P f a b = cookie_compute P f a' b'"
  shows "a = a' \<and> b = b'"
proof -
  have "a @ u64_to_le b = a' @ u64_to_le b'"
    using assms unfolding mac_unforgeable_def Let_def cookie_compute_def by (elim conjE inj_onD) auto
  then have "a = a'" "u64_to_le b = u64_to_le b'" by simp_all
  then show ?thesis using u64_le.enc_inj by simp
qed

lemma unat_bucket: "unat (cookie_bucket now (cookie_factory_new s)) = unat now div 30"
  by (simp add: cookie_bucket_def cookie_factory_new_def unat_div)

lemma same_bucket: "cookie_bucket now (cookie_factory_new s) = cookie_bucket issued (cookie_factory_new s) \<longleftrightarrow>
    unat now div 30 = unat issued div 30"
  using word_unat_eq_iff [of "cookie_bucket now (cookie_factory_new s)" "cookie_bucket issued (cookie_factory_new s)"]
  by (simp add: unat_bucket)

lemma next_bucket:
  fixes now issued :: u64 and s :: bytes
  defines "b \<equiv> cookie_bucket now (cookie_factory_new s)" and "i \<equiv> cookie_bucket issued (cookie_factory_new s)"
  shows "b > 0 \<and> b - 1 = i \<longleftrightarrow> unat now div 30 = unat issued div 30 + 1"
proof
  assume b: "b > 0 \<and> b - 1 = i"
  then have "unat i = unat b - 1" by (metis unat_minus_one word_gt_0)
  moreover have "0 < unat b" using b by (simp add: word_less_nat_alt)
  ultimately show "unat now div 30 = unat issued div 30 + 1" by (simp add: unat_bucket b_def i_def)
next
  assume "unat now div 30 = unat issued div 30 + 1"
  then have u: "unat b = unat i + 1" by (simp add: unat_bucket b_def i_def)
  then have "b > 0" by (simp add: word_less_nat_alt)
  moreover from this u have "unat (b - 1) = unat i" by (metis add_diff_cancel_right' unat_minus_one word_gt_0)
  ultimately show "b > 0 \<and> b - 1 = i" by (simp add: word_unat_eq_iff)
qed

text \<open>An honest client is accepted whatever the hash.\<close>

lemma cookie_accepted:
  assumes "unat now div 30 = unat issued div 30 \<or> unat now div 30 = unat issued div 30 + 1"
  shows "cookie_verify P now (cookie_factory_new s) addr (cookie_generate P issued (cookie_factory_new s) addr)"
  using assms same_bucket [of now s issued] next_bucket [of now s issued]
  by (auto simp: cookie_verify_def cookie_generate_def Let_def)

text \<open>A cookie is accepted exactly for the address it was issued to, in the 30-second bucket of its issue and
  the next one: for any two clock readings and any two addresses, verification succeeds if and only if the
  addresses agree and the second reading is in the same or the following bucket.\<close>

theorem cookie_verify_exact:
  assumes "mac_unforgeable P secret {addr, addr'}"
  shows "cookie_verify P now (cookie_factory_new secret) addr (cookie_generate P issued (cookie_factory_new secret) addr') \<longleftrightarrow>
    addr = addr' \<and> (unat now div 30 = unat issued div 30 \<or> unat now div 30 = unat issued div 30 + 1)"
proof -
  let ?f = "cookie_factory_new secret"
  let ?b = "cookie_bucket now ?f" and ?i = "cookie_bucket issued ?f"
  have f: "mac_unforgeable P (cookie_secret ?f) {addr, addr'}" using assms by (simp add: cookie_factory_new_def)
  have nz: "cookie_compute P ?f addr' ?i \<noteq> replicate 32 0"
    using f by (auto simp: mac_unforgeable_def cookie_compute_def Let_def)
  have cur: "cookie_compute P ?f addr ?b = cookie_compute P ?f addr' ?i \<longleftrightarrow> addr = addr' \<and> ?b = ?i"
    using compute_inj [OF f, of addr addr'] by auto
  have prev: "cookie_compute P ?f addr (?b - 1) = cookie_compute P ?f addr' ?i \<longleftrightarrow> addr = addr' \<and> ?b - 1 = ?i"
    using compute_inj [OF f, of addr addr'] by auto
  note same = same_bucket [of now secret issued] and nxt = next_bucket [of now secret issued]
  show ?thesis
    using nz cur prev same nxt unfolding cookie_verify_def cookie_generate_def Let_def by auto
qed

text \<open>A keyed hash with these properties: the message behind a mark.\<close>

definition marked_prims :: prims where
  "marked_prims = demo_prims\<lparr>blake3_keyed_hash := (\<lambda>k m. 1 # m)\<rparr>"

theorem cookie_verify_exact_witness:
  "cookie_verify marked_prims 59 (cookie_factory_new (replicate 32 7)) [1, 2]
     (cookie_generate marked_prims 0 (cookie_factory_new (replicate 32 7)) [1, 2]) \<and>
   \<not> cookie_verify marked_prims 60 (cookie_factory_new (replicate 32 7)) [1, 2]
     (cookie_generate marked_prims 0 (cookie_factory_new (replicate 32 7)) [1, 2])"
proof -
  have "mac_unforgeable marked_prims (replicate 32 7) {[1, 2], [1, 2]}"
    by (auto simp: mac_unforgeable_def marked_prims_def inj_on_def numeral_eq_Suc)
  from cookie_verify_exact [OF this, of 59 0] cookie_verify_exact [OF this, of 60 0]
  show ?thesis by simp
qed

end
