(* ===== verification/Gf.thy ===== *)
theory Gf
  imports Seam_Prelude
begin

text \<open>
  \<^verbatim>\<open>src/fec/gf.rs\<close>: arithmetic in the field with 256 elements by exponent and logarithm tables. The
  tables are built by the source's loop; multiplication by a power of the generator is shown to be
  iterated doubling, which is linear, and from that the field laws follow. The type \<open>gf\<close> carries the
  field structure, so that the library's algebra applies to what the code computes.
\<close>

section \<open>Tables and operations\<close>

definition POLY :: u16 where "POLY = 0x11d"

fun table_loop :: "nat \<Rightarrow> nat \<Rightarrow> u16 \<Rightarrow> u8 list \<times> u8 list \<Rightarrow> u8 list \<times> u8 list" where
  "table_loop 0 i x t = t"
| "table_loop (Suc n) i x (ex, lg) =
     (let ex' = ex[i := ucast x, i + 255 := ucast x];
          lg' = lg[unat x := of_nat i];
          x1 = push_bit 1 x;
          x2 = (if x1 AND 0x100 \<noteq> 0 then x1 XOR POLY else x1)
      in table_loop n (i + 1) x2 (ex', lg'))"

definition build_tables :: "u8 list \<times> u8 list" where
  "build_tables =
     (case table_loop 255 0 1 (replicate 512 0, replicate 256 0) of
        (ex, lg) \<Rightarrow> (ex[255 := 1, 510 := 1], lg))"

definition EXP :: "u8 list" where "EXP = fst build_tables"
definition LOG :: "u8 list" where "LOG = snd build_tables"

definition gf_add :: "u8 \<Rightarrow> u8 \<Rightarrow> u8" where
  "gf_add a b = a XOR b"

definition gf_mul :: "u8 \<Rightarrow> u8 \<Rightarrow> u8" where
  "gf_mul a b =
     (if a = 0 \<or> b = 0 then 0
      else let log_sum = unat (LOG ! unat a) + unat (LOG ! unat b) in EXP ! log_sum)"

definition gf_div :: "u8 \<Rightarrow> u8 \<Rightarrow> u8" where
  "gf_div a b =
     (if a = 0 then 0
      else let log_diff = unat (LOG ! unat a) + 255 - unat (LOG ! unat b) in EXP ! log_diff)"

definition gf_inv :: "u8 \<Rightarrow> u8 option" where
  "gf_inv a = (if a = 0 then None else Some (EXP ! (255 - unat (LOG ! unat a))))"

section \<open>Doubling\<close>

lemma xor_eq_0_iff: "a XOR b = 0 \<longleftrightarrow> a = (b :: u8)"
  by (metis xor.assoc xor.left_neutral xor.right_neutral xor_self_eq)

definition xtime :: "u8 \<Rightarrow> u8" where
  "xtime a = push_bit 1 a XOR (if bit a 7 then 0x1d else 0)"

lemma bit_xtime:
  "bit (xtime a) n \<longleftrightarrow> n < 8 \<and> ((1 \<le> n \<and> bit a (n - 1)) \<noteq> (bit a 7 \<and> bit (0x1d :: u8) n))"
  unfolding xtime_def bit_xor_iff bit_push_bit_iff possible_bit_word
  using bit_imp_le_length [of "0x1d :: u8" n] by (cases "bit a 7") auto

lemma xtime_xor: "xtime (a XOR b) = xtime a XOR xtime b"
  by (rule bit_word_eqI) (auto simp: bit_xtime bit_xor_iff)

lemma xtime_zero [simp]: "xtime 0 = 0"
  by (simp add: xtime_def)

lemma xtime_eq_0: "xtime a = 0 \<longleftrightarrow> a = 0"
proof
  assume z: "xtime a = 0"
  then have "\<not> bit (xtime a) 0" by simp
  then have top: "\<not> bit a 7" by (simp add: bit_xtime)
  show "a = 0"
  proof (rule bit_word_eqI)
    fix n assume n: "n < LENGTH(8)"
    show "bit a n = bit 0 n"
    proof (cases "n = 7")
      case False
      from z have "\<not> bit (xtime a) (Suc n)" by simp
      with False n top show ?thesis by (simp add: bit_xtime)
    qed (use top in simp)
  qed
qed simp

lemma xtime_funpow_xor: "(xtime ^^ n) (a XOR b) = (xtime ^^ n) a XOR (xtime ^^ n) b"
  by (induction n) (simp_all add: xtime_xor)

lemma xtime_funpow_eq_0: "(xtime ^^ n) a = 0 \<longleftrightarrow> a = 0"
  by (induction n) (simp_all add: xtime_eq_0)

lemma xtime_funpow_inj: "(xtime ^^ n) a = (xtime ^^ n) b \<Longrightarrow> a = b"
  using xtime_funpow_eq_0 [of n "a XOR b"] xtime_funpow_xor [of n a b] by (simp add: xor_eq_0_iff)

definition gen_pow :: "nat \<Rightarrow> u8" where
  "gen_pow n = (xtime ^^ n) 1"

lemma gen_pow_0 [simp]: "gen_pow 0 = 1"
  by (simp add: gen_pow_def)

lemma gen_pow_add: "gen_pow (m + n) = (xtime ^^ m) (gen_pow n)"
  by (simp add: gen_pow_def funpow_add)

lemma gen_pow_Suc: "gen_pow (Suc n) = xtime (gen_pow n)"
  by (simp add: gen_pow_def)

lemma gen_pow_nonzero [simp]: "gen_pow n \<noteq> 0"
  by (simp add: gen_pow_def xtime_funpow_eq_0)

text \<open>The powers of the generator at the multiples of 15 and 17 that decide its order.\<close>

lemma funpow_17: "(f ^^ 17) x = f (f (f (f (f (f (f (f (f (f (f (f (f (f (f (f (f (x)))))))))))))))))"
  by (simp add: eval_nat_numeral)

lemma xtime_17:
  "(xtime ^^ 17) 1 = 152"
  "(xtime ^^ 17) 152 = 78"
  "(xtime ^^ 17) 78 = 10"
  "(xtime ^^ 17) 10 = 153"
  "(xtime ^^ 17) 153 = 214"
  "(xtime ^^ 17) 214 = 68"
  "(xtime ^^ 17) 68 = 147"
  "(xtime ^^ 17) 147 = 79"
  "(xtime ^^ 17) 79 = 146"
  "(xtime ^^ 17) 146 = 215"
  "(xtime ^^ 17) 215 = 220"
  "(xtime ^^ 17) 220 = 221"
  "(xtime ^^ 17) 221 = 69"
  "(xtime ^^ 17) 69 = 11"
  "(xtime ^^ 17) 11 = 1"
  by (simp_all add: funpow_17 xtime_def)

lemma gen_pow_17_mult: "gen_pow (17 * Suc n) = (xtime ^^ 17) (gen_pow (17 * n))"
  by (simp flip: gen_pow_add)

lemma gen_pow_values: "gen_pow 51 = 10" "gen_pow 85 = 214" "gen_pow 255 = 1" "gen_pow 15 = 38"
proof -
  have v: "gen_pow (17 * 1) = 152" "gen_pow (17 * 2) = 78" "gen_pow (17 * 3) = 10" "gen_pow (17 * 4) = 153"
    "gen_pow (17 * 5) = 214" "gen_pow (17 * 6) = 68" "gen_pow (17 * 7) = 147" "gen_pow (17 * 8) = 79"
    "gen_pow (17 * 9) = 146" "gen_pow (17 * 10) = 215" "gen_pow (17 * 11) = 220" "gen_pow (17 * 12) = 221"
    "gen_pow (17 * 13) = 69" "gen_pow (17 * 14) = 11" "gen_pow (17 * 15) = 1"
    using gen_pow_17_mult [of 0] gen_pow_17_mult [of 1] gen_pow_17_mult [of 2] gen_pow_17_mult [of 3]
      gen_pow_17_mult [of 4] gen_pow_17_mult [of 5] gen_pow_17_mult [of 6] gen_pow_17_mult [of 7]
      gen_pow_17_mult [of 8] gen_pow_17_mult [of 9] gen_pow_17_mult [of 10] gen_pow_17_mult [of 11]
      gen_pow_17_mult [of 12] gen_pow_17_mult [of 13] gen_pow_17_mult [of 14]
    by (simp_all add: xtime_17)
  then show "gen_pow 51 = 10" "gen_pow 85 = 214" "gen_pow 255 = 1" by simp_all
  have "(xtime ^^ 2) (gen_pow 15) = 152" using v(1) gen_pow_add [of 2 15] by simp
  moreover have "(xtime ^^ 2) 38 = 152" by (simp add: xtime_def numeral_2_eq_2)
  ultimately show "gen_pow 15 = 38" using xtime_funpow_inj by metis
qed

lemma gen_pow_period: "gen_pow d = 1 \<Longrightarrow> gen_pow (d * q + n) = gen_pow n"
proof (induction q)
  case (Suc q)
  have "gen_pow (d * Suc q + n) = (xtime ^^ (d * q + n)) (gen_pow d)"
    by (simp add: ac_simps flip: gen_pow_add)
  with Suc show ?case by (simp add: gen_pow_def)
qed simp

lemma gen_pow_mod: "gen_pow n = gen_pow (n mod 255)"
  using gen_pow_period [OF gen_pow_values(3), of "n div 255" "n mod 255"] by simp

lemma divisors_255: "g dvd 255 \<Longrightarrow> g < 255 \<Longrightarrow> g dvd 15 \<or> g dvd 51 \<or> g dvd (85 :: nat)"
proof -
  have "\<forall>g \<in> set [0..<255]. g dvd 255 \<longrightarrow> g dvd 15 \<or> g dvd 51 \<or> g dvd (85 :: nat)"
    by code_simp
  moreover assume "g dvd 255" "g < 255"
  ultimately show ?thesis by auto
qed

lemma gen_pow_order:
  assumes "0 < d" and "d < 255"
  shows "gen_pow d \<noteq> 1"
proof
  assume d: "gen_pow d = 1"
  obtain x y where "d * x = 255 * y + gcd d 255" using bezout_nat [of d 255] assms by auto
  moreover have "gen_pow (d * x) = 1" using gen_pow_period [OF d, of x 0] by simp
  ultimately have g: "gen_pow (gcd d 255) = 1"
    using gen_pow_period [OF gen_pow_values(3), of y "gcd d 255"] by simp
  have "gcd d 255 < 255" using assms gcd_le1_nat [of d 255] by linarith
  then have "gcd d 255 dvd 15 \<or> gcd d 255 dvd 51 \<or> gcd d 255 dvd 85" by (intro divisors_255) simp_all
  then have "gen_pow 15 = 1 \<or> gen_pow 51 = 1 \<or> gen_pow 85 = 1"
    using gen_pow_period [OF g, of _ 0] by (metis add_0_right dvd_def gen_pow_0)
  then show False by (simp add: gen_pow_values)
qed

lemma gen_pow_inj:
  assumes "gen_pow i = gen_pow j" and "i < 255" and "j < 255"
  shows "i = j"
proof -
  have le: "a = b" if "gen_pow a = gen_pow b" "a \<le> b" "b < 255" for a b
  proof -
    have "(xtime ^^ a) (gen_pow (b - a)) = (xtime ^^ a) 1"
      using that by (simp flip: gen_pow_add) (simp add: gen_pow_def)
    then have "gen_pow (b - a) = 1" by (rule xtime_funpow_inj)
    with gen_pow_order [of "b - a"] that show ?thesis by fastforce
  qed
  with assms show ?thesis by (metis nat_le_linear)
qed

lemma gen_pow_surj:
  assumes "a \<noteq> 0"
  obtains i where "i < 255" and "a = gen_pow i"
proof -
  have "card (gen_pow ` {..<255}) = 255"
    using gen_pow_inj by (subst card_image) (auto simp: inj_on_def)
  moreover have "card (UNIV - {0 :: u8}) = 255" by (simp add: card_Diff_subset card_word)
  ultimately have "gen_pow ` {..<255} = UNIV - {0}"
    by (intro card_subset_eq) auto
  with assms have "a \<in> gen_pow ` {..<255}" by auto
  with that show ?thesis by auto
qed

section \<open>The tables hold the powers\<close>

lemma u16_double:
  fixes a :: u8
  defines "x1 \<equiv> push_bit 1 (ucast a :: u16)"
  shows "(if x1 AND 0x100 \<noteq> 0 then x1 XOR POLY else x1) = ucast (xtime a)"
proof -
  have bit_x1: "bit x1 n \<longleftrightarrow> 1 \<le> n \<and> n < 16 \<and> bit a (n - 1)" for n
    unfolding x1_def bit_push_bit_iff possible_bit_word using bit_imp_le_length [of a "n - 1"]
    by (auto simp: bit_simps)
  have x8: "(0x100 :: u16) = 2 ^ 8" by simp
  have "x1 AND 0x100 \<noteq> 0 \<longleftrightarrow> bit x1 8"
    unfolding x8 by (simp add: bit_iff_and_push_bit_not_eq_0 push_bit_of_1)
  then have top: "x1 AND 0x100 \<noteq> 0 \<longleftrightarrow> bit a 7" by (simp add: bit_x1)
  have poly: "bit POLY n \<longleftrightarrow> n = 8 \<or> n < 8 \<and> bit (0x1d :: u8) n" for n
  proof -
    have "POLY = 2 ^ 8 XOR ucast (0x1d :: u8)" by (simp add: POLY_def)
    then show ?thesis
      unfolding POLY_def by (auto simp only: bit_xor_iff bit_exp_iff bit_unsigned_iff possible_bit_word) (auto dest: bit_imp_le_length)
  qed
  show ?thesis
  proof (rule bit_word_eqI)
    fix n assume "n < LENGTH(16)"
    then show "bit (if x1 AND 0x100 \<noteq> 0 then x1 XOR POLY else x1) n \<longleftrightarrow> bit (ucast (xtime a) :: u16) n"
      using bit_imp_le_length [of a "n - 1"]
      by (cases "n = 8") (auto simp: top bit_xor_iff bit_x1 poly bit_unsigned_iff bit_xtime)
  qed
qed

lemma ucast_down_up: "ucast (ucast (a :: u8) :: u16) = a"
  by (rule bit_word_eqI) (auto simp: bit_simps)

definition table_ok :: "nat \<Rightarrow> u8 list \<times> u8 list \<Rightarrow> bool" where
  "table_ok i t \<longleftrightarrow> length (fst t) = 512 \<and> length (snd t) = 256 \<and>
     (\<forall>j < i. fst t ! j = gen_pow j \<and> fst t ! (j + 255) = gen_pow j \<and> snd t ! unat (gen_pow j) = of_nat j)"

lemma table_ok_step:
  assumes "table_ok i (ex, lg)" and "i < 255"
  shows "table_ok (Suc i) (ex[i := gen_pow i, i + 255 := gen_pow i], lg[unat (gen_pow i) := of_nat i])"
proof -
  have "unat (gen_pow i) < 256" using unsigned_less [of "gen_pow i", where 'a = nat] by simp
  moreover have "unat (gen_pow i) \<noteq> unat (gen_pow j)" if "j < i" for j
    using gen_pow_inj [of j i] that assms(2) by (auto simp: word_unat_eq_iff)
  ultimately show ?thesis
    using assms by (force simp: table_ok_def less_Suc_eq nth_list_update)
qed

lemma table_loop_ok:
  "table_ok i t \<Longrightarrow> i + n = 255 \<Longrightarrow> table_ok 255 (table_loop n i (ucast (gen_pow i)) t)"
proof (induction n arbitrary: i t)
  case (Suc n)
  obtain ex lg where t: "t = (ex, lg)" by force
  have lt: "unat (ucast (gen_pow i) :: u16) = unat (gen_pow i)"
    using unsigned_less [of "gen_pow i", where 'a = nat] by (simp add: unsigned_ucast_eq take_bit_nat_eq_self)
  have "table_loop (Suc n) i (ucast (gen_pow i)) t =
      table_loop n (Suc i) (ucast (gen_pow (Suc i))) (ex[i := gen_pow i, i + 255 := gen_pow i], lg[unat (gen_pow i) := of_nat i])"
    unfolding t table_loop.simps Let_def u16_double gen_pow_Suc by (simp add: lt ucast_down_up)
  with Suc show ?case using table_ok_step [of i ex lg] by (simp add: t)
qed simp

lemma tables_ok: "table_ok 255 build_tables"
proof -
  have "table_ok 0 (replicate 512 0, replicate 256 0)" by (simp add: table_ok_def)
  from table_loop_ok [OF this, of 255] have loop: "table_ok 255 (table_loop 255 0 1 (replicate 512 0, replicate 256 0))"
    by simp
  then show ?thesis
    by (auto simp: table_ok_def build_tables_def nth_list_update split: prod.split)
qed

lemma EXP_nth:
  assumes "i \<le> 510"
  shows "EXP ! i = gen_pow i"
proof -
  have t: "EXP ! j = gen_pow j" "EXP ! (j + 255) = gen_pow j" if "j < 255" for j
    using tables_ok that by (simp_all add: table_ok_def EXP_def)
  consider "i < 255" | "255 \<le> i" "i < 510" | "i = 510" using assms by linarith
  then show ?thesis
  proof cases
    case 2
    then show ?thesis
      using t(2) [of "i - 255"] gen_pow_period [OF gen_pow_values(3), of 1 "i - 255"] by simp
  next
    case 3
    have "EXP ! 510 = 1"
      using tables_ok by (auto simp: table_ok_def EXP_def build_tables_def split: prod.splits)
    moreover have "gen_pow 510 = 1" using gen_pow_period [OF gen_pow_values(3), of 2 0] by simp
    ultimately show ?thesis using 3 by simp
  qed (use t in simp)
qed

lemma LOG_nth: "i < 255 \<Longrightarrow> unat (LOG ! unat (gen_pow i)) = i"
  using tables_ok by (simp add: table_ok_def LOG_def unat_of_nat_id)

section \<open>The field\<close>

lemma gf_mul_pow_pow: "i < 255 \<Longrightarrow> j < 255 \<Longrightarrow> gf_mul (gen_pow i) (gen_pow j) = gen_pow (i + j)"
  by (simp add: gf_mul_def LOG_nth EXP_nth)

lemma gf_mul_pow: "i < 255 \<Longrightarrow> gf_mul (gen_pow i) b = (xtime ^^ i) b"
proof (cases "b = 0")
  case True
  then show ?thesis by (simp add: gf_mul_def xtime_funpow_eq_0)
next
  case False
  then obtain j where "j < 255" "b = gen_pow j" by (rule gen_pow_surj)
  moreover assume "i < 255"
  ultimately show ?thesis by (simp add: gf_mul_pow_pow gen_pow_add)
qed

lemma gf_mul_zero [simp]: "gf_mul 0 a = 0" "gf_mul a 0 = 0"
  by (simp_all add: gf_mul_def)

lemma gf_mul_commute: "gf_mul a b = gf_mul b a"
  by (simp add: gf_mul_def add.commute)

lemma gf_mul_one [simp]: "gf_mul 1 a = a" "gf_mul a 1 = a"
  using gf_mul_pow [of 0 a] by (simp_all add: gf_mul_commute)

lemma gf_mul_xor: "gf_mul a (b XOR c) = gf_mul a b XOR gf_mul a c"
proof (cases "a = 0")
  case False
  then obtain i where "i < 255" "a = gen_pow i" by (rule gen_pow_surj)
  then show ?thesis by (simp add: gf_mul_pow xtime_funpow_xor)
qed simp

lemma gf_mul_xor_left: "gf_mul (a XOR b) c = gf_mul a c XOR gf_mul b c"
  using gf_mul_xor [of c a b] by (simp only: gf_mul_commute)

lemma gf_mul_assoc: "gf_mul (gf_mul a b) c = gf_mul a (gf_mul b c)"
proof (cases "a = 0 \<or> b = 0 \<or> c = 0")
  case False
  then obtain i j where ij: "i < 255" "a = gen_pow i" "j < 255" "b = gen_pow j"
    using gen_pow_surj by metis
  have "gf_mul (gen_pow (i + j)) c = (xtime ^^ (i + j)) c"
  proof -
    have "gen_pow (i + j) = gen_pow ((i + j) mod 255)" by (rule gen_pow_mod)
    then have "gf_mul (gen_pow (i + j)) c = (xtime ^^ ((i + j) mod 255)) c" by (simp add: gf_mul_pow)
    also have "\<dots> = (xtime ^^ (i + j)) c"
    proof -
      obtain n where "c = gen_pow n" using False gen_pow_surj by metis
      then show ?thesis
        using gen_pow_mod [of "(i + j) mod 255 + n"] gen_pow_mod [of "i + j + n"]
        by (simp flip: gen_pow_add add: mod_add_left_eq)
    qed
    finally show ?thesis .
  qed
  with ij show ?thesis by (simp add: gf_mul_pow funpow_add gen_pow_add)
qed auto

lemma gf_inv_correct:
  assumes "a \<noteq> 0"
  obtains b where "gf_inv a = Some b" and "gf_mul a b = 1"
proof -
  obtain i where i: "i < 255" "a = gen_pow i" using assms by (rule gen_pow_surj)
  have "gf_inv a = Some (gen_pow (255 - i))" using i by (simp add: gf_inv_def LOG_nth EXP_nth)
  moreover have "gf_mul a (gen_pow (255 - i)) = 1"
    using i gen_pow_values(3) by (simp add: gf_mul_pow flip: gen_pow_add)
  ultimately show ?thesis by (rule that)
qed

lemma gf_div_correct:
  assumes "b \<noteq> 0"
  shows "gf_mul (gf_div a b) b = a"
proof (cases "a = 0")
  case False
  obtain i j where i: "i < 255" "a = gen_pow i" and j: "j < 255" "b = gen_pow j"
    using False assms gen_pow_surj by metis
  have "gf_mul b (gen_pow (i + 255 - j)) = gen_pow (i + 255)"
    using j by (simp add: gf_mul_pow flip: gen_pow_add)
  also have "\<dots> = a" using gen_pow_period [OF gen_pow_values(3), of 1 i] i by (simp add: add.commute)
  finally show ?thesis using i j by (simp add: gf_div_def LOG_nth EXP_nth gf_mul_commute)
qed (simp add: gf_div_def)

datatype gf = GF (gf_byte: u8)

instantiation gf :: field
begin

definition zero_gf :: gf where "0 = GF 0"
definition one_gf :: gf where "1 = GF 1"
definition plus_gf :: "gf \<Rightarrow> gf \<Rightarrow> gf" where "x + y = GF (gf_add (gf_byte x) (gf_byte y))"
definition uminus_gf :: "gf \<Rightarrow> gf" where "- x = (x :: gf)"
definition minus_gf :: "gf \<Rightarrow> gf \<Rightarrow> gf" where "x - y = x + (y :: gf)"
definition times_gf :: "gf \<Rightarrow> gf \<Rightarrow> gf" where "x * y = GF (gf_mul (gf_byte x) (gf_byte y))"
definition inverse_gf :: "gf \<Rightarrow> gf" where
  "inverse x = GF (case gf_inv (gf_byte x) of None \<Rightarrow> 0 | Some b \<Rightarrow> b)"
definition divide_gf :: "gf \<Rightarrow> gf \<Rightarrow> gf" where "x div y = x * inverse (y :: gf)"

instance
proof
  fix a b c :: gf
  show "a + b + c = a + (b + c)" by (simp add: plus_gf_def gf_add_def xor.assoc)
  show "a + b = b + a" by (simp add: plus_gf_def gf_add_def xor.commute)
  show "0 + a = a" by (simp add: plus_gf_def gf_add_def zero_gf_def)
  show "- a + a = 0" by (simp add: plus_gf_def gf_add_def zero_gf_def uminus_gf_def)
  show "a - b = a + - b" by (simp add: minus_gf_def uminus_gf_def)
  show "a * b * c = a * (b * c)" by (simp add: times_gf_def gf_mul_assoc)
  show "a * b = b * a" by (simp add: times_gf_def gf_mul_commute)
  show "1 * a = a" by (simp add: times_gf_def one_gf_def)
  show "(a + b) * c = a * c + b * c"
    by (simp add: times_gf_def plus_gf_def gf_add_def gf_mul_commute [of _ "gf_byte c"] gf_mul_xor)
  show "(0 :: gf) \<noteq> 1" by (simp add: zero_gf_def one_gf_def)
  show "a \<noteq> 0 \<Longrightarrow> inverse a * a = 1"
    by (cases a) (auto simp: zero_gf_def one_gf_def times_gf_def inverse_gf_def gf_mul_commute
        elim: gf_inv_correct)
  show "a div b = a * inverse b" by (simp add: divide_gf_def)
  show "inverse (0 :: gf) = 0" by (simp add: inverse_gf_def zero_gf_def gf_inv_def)
qed

end

section \<open>What the tables compute\<close>

text \<open>C19: The table-driven multiplication is the polynomial product modulo the field polynomial: for
  all bytes it equals the sum, over the bits of the first factor, of the second factor doubled that
  many times.\<close>

theorem gf_mul_is_polynomial_product:
  "gf_mul a b = foldr (\<lambda>i acc. (if bit a i then (xtime ^^ i) b else 0) XOR acc) [0..<8] 0"
proof -
  have pow: "gen_pow i = 2 ^ i" if "i < 8" for i
  proof -
    have "i \<in> {0, 1, 2, 3, 4, 5, 6, 7}" using that by auto
    then show ?thesis by (auto simp: gen_pow_def xtime_def eval_nat_numeral)
  qed
  have sum: "gf_mul (foldr (\<lambda>i acc. (if bit a i then gen_pow i else 0) XOR acc) is 0) b =
      foldr (\<lambda>i acc. (if bit a i then (xtime ^^ i) b else 0) XOR acc) is 0" if "\<forall>i \<in> set is. i < 8" for "is"
    using that
    by (induction "is") (auto simp: gf_mul_xor_left gf_mul_pow)
  have "foldr (\<lambda>i acc. (if bit a i then gen_pow i else 0) XOR acc) [0..<8] 0 = a"
  proof (rule bit_word_eqI)
    fix n assume "n < LENGTH(8)"
    then have n: "n < 8" by simp
    have "bit (foldr (\<lambda>i acc. (if bit a i then gen_pow i else 0) XOR acc) is 0) n \<longleftrightarrow> n \<in> set is \<and> bit a n"
      if "\<forall>i \<in> set is. i < 8" "distinct is" for "is"
      using that by (induction "is") (auto simp: bit_xor_iff pow bit_exp_iff n)
    from this [of "[0..<8]"] n
    show "bit (foldr (\<lambda>i acc. (if bit a i then gen_pow i else 0) XOR acc) [0..<8] 0) n = bit a n" by simp
  qed
  with sum [of "[0..<8]"] show ?thesis by simp
qed

text \<open>With these tables the bytes form a field: multiplication is associative, commutative and
  distributes over addition, \<^verbatim>\<open>inv\<close> gives the inverse of exactly the non-zero bytes, and \<^verbatim>\<open>div\<close> undoes a
  multiplication by any invertible byte.\<close>

theorem gf_field_laws:
  "gf_mul (gf_mul a b) c = gf_mul a (gf_mul b c) \<and> gf_mul a b = gf_mul b a \<and>
   gf_mul a (gf_add b c) = gf_add (gf_mul a b) (gf_mul a c) \<and> gf_mul 1 a = a \<and>
   (case gf_inv a of None \<Rightarrow> a = 0 | Some b \<Rightarrow> gf_mul a b = 1 \<and> gf_mul (gf_div c a) a = c)"
proof -
  have "case gf_inv a of None \<Rightarrow> a = 0 | Some b \<Rightarrow> gf_mul a b = 1 \<and> gf_mul (gf_div c a) a = c"
  proof (cases "a = 0")
    case False
    then show ?thesis by (rule gf_inv_correct) (simp add: gf_div_correct False)
  qed (simp add: gf_inv_def)
  then show ?thesis
    using gf_mul_assoc gf_mul_commute by (simp add: gf_add_def gf_mul_xor)
qed

end
