(* ===== verification/Gf_Matrix.thy ===== *)
theory Gf_Matrix
  imports Gf
begin

text \<open>
  The vector and matrix routines of \<^verbatim>\<open>src/fec/gf.rs\<close>: the unrolled \<^verbatim>\<open>mul_add_slice\<close> and Gauss-Jordan
  elimination. Elimination is analysed once, on an augmented matrix whose first \<open>k\<close> columns are
  reduced: every step keeps the set of linear relations its rows satisfy, and a matrix with trivial
  kernel always has a pivot. A last section proves that Cauchy systems have a trivial kernel.
\<close>

section \<open>Slices\<close>

definition mul_add_at :: "bytes \<Rightarrow> u8 \<Rightarrow> nat \<Rightarrow> bytes \<Rightarrow> bytes outcome" where
  "mul_add_at src scalar i dst =
     (if i < length src \<and> i < length dst then Return (dst[i := dst ! i XOR gf_mul scalar (src ! i)]) else Panic)"

definition unrolled_indices :: "nat \<Rightarrow> nat list" where
  "unrolled_indices len =
     (let chunks = len div 8; rm = len mod 8 in
      concat (map (\<lambda>i. let b = i * 8 in [b, b + 1, b + 2, b + 3, b + 4, b + 5, b + 6, b + 7]) [0..<chunks])
      @ (let base = chunks * 8 in map (\<lambda>i. base + i) [0..<rm]))"

definition mul_add_slice :: "bytes \<Rightarrow> bytes \<Rightarrow> u8 \<Rightarrow> bytes outcome" where
  "mul_add_slice dst src scalar =
     (if scalar = 0 then Return dst
      else ofold (mul_add_at src scalar) (unrolled_indices (length dst)) dst)"

text \<open>The eightfold unrolling visits every index once, in order.\<close>

lemma unrolled_indices_upt: "unrolled_indices n = [0..<n]"
proof -
  have "concat (map (\<lambda>i. let b = i * 8 in [b, b + 1, b + 2, b + 3, b + 4, b + 5, b + 6, b + 7]) [0..<c]) = [0..<c * 8]" for c
  proof (induction c)
    case (Suc c)
    have "[0..<Suc c * 8] = [0..<c * 8] @ [c * 8..<c * 8 + 8]"
      using upt_add_eq_append [of 0 "c * 8" 8] by (simp add: add.commute)
    moreover have "[c * 8..<c * 8 + 8] = [c * 8, c * 8 + 1, c * 8 + 2, c * 8 + 3, c * 8 + 4, c * 8 + 5, c * 8 + 6, c * 8 + 7]"
      by (simp add: upt_conv_Cons eval_nat_numeral)
    ultimately show ?case using Suc by (simp add: Let_def)
  qed simp
  moreover have "map (\<lambda>i. n div 8 * 8 + i) [0..<n mod 8] = [n div 8 * 8..<n]"
    using map_add_upt [of "n div 8 * 8" "n mod 8"] by (simp add: add.commute)
  moreover have "[0..<n] = [0..<n div 8 * 8] @ [n div 8 * 8..<n]"
    using upt_add_eq_append [of 0 "n div 8 * 8" "n mod 8"] by simp
  ultimately show ?thesis by (simp add: unrolled_indices_def Let_def)
qed

lemma mul_add_prefix:
  "n \<le> length dst \<Longrightarrow> n \<le> length src \<Longrightarrow>
     ofold (mul_add_at src c) [0..<n] dst = Return (xor_bytes dst (map (gf_mul c) (take n src)))"
proof (induction n)
  case (Suc n)
  have "(xor_bytes dst (map (gf_mul c) (take n src)))[n := xor_bytes dst (map (gf_mul c) (take n src)) ! n XOR gf_mul c (src ! n)] =
      xor_bytes dst (map (gf_mul c) (take (Suc n) src))"
    using Suc.prems by (intro nth_equalityI) (auto simp: nth_xor_bytes nth_list_update less_Suc_eq)
  with Suc show ?case by (simp add: ofold_append mul_add_at_def)
qed (simp add: xor_bytes_def)

lemma mul_add_slice_eq:
  assumes "length dst \<le> length src"
  shows "mul_add_slice dst src c = Return (xor_bytes dst (map (gf_mul c) src))"
proof (cases "c = 0")
  case True
  have "xor_bytes dst (map (gf_mul 0) src) = dst"
    by (rule nth_equalityI) (auto simp: nth_xor_bytes)
  with True show ?thesis by (simp add: mul_add_slice_def)
next
  case False
  have "xor_bytes dst (map (gf_mul c) (take (length dst) src)) = xor_bytes dst (map (gf_mul c) src)"
    using assms by (intro nth_equalityI) (auto simp: nth_xor_bytes)
  with False show ?thesis
    using assms mul_add_prefix [of "length dst" dst src c] by (simp add: mul_add_slice_def unrolled_indices_upt)
qed

lemma mul_add_slice_panics:
  assumes "length src < length dst" and "c \<noteq> 0"
  shows "mul_add_slice dst src c = Panic"
proof -
  have "[0..<length dst] = [0..<length src] @ length src # [Suc (length src)..<length dst]"
    using assms(1) upt_add_eq_append [of 0 "length src" "length dst - length src"] by (simp add: upt_conv_Cons)
  then have "ofold (mul_add_at src c) [0..<length dst] dst = Panic"
    using assms mul_add_prefix [of "length src" dst src c] by (simp add: ofold_append mul_add_at_def)
  with assms(2) show ?thesis by (simp add: mul_add_slice_def unrolled_indices_upt)
qed

section \<open>Gauss-Jordan elimination\<close>

definition swap_rows :: "'a list \<Rightarrow> nat \<Rightarrow> nat \<Rightarrow> 'a list" where
  "swap_rows m i j = m[i := m ! j, j := m ! i]"

definition add_row :: "bytes \<Rightarrow> bytes \<Rightarrow> u8 \<Rightarrow> bytes" where
  "add_row dst src factor = xor_bytes dst (map (gf_mul factor) src)"

definition eliminate_row :: "nat \<Rightarrow> nat \<Rightarrow> bytes list \<Rightarrow> bytes list" where
  "eliminate_row col r m =
     (if r = col then m
      else let factor = m ! r ! col in
           if factor = 0 then m else m[r := add_row (m ! r) (m ! col) factor])"

fun gauss :: "nat \<Rightarrow> nat list \<Rightarrow> bytes list \<Rightarrow> bytes list option outcome" where
  "gauss k [] m = Return (Some m)"
| "gauss k (col # cols) m =
     (case find (\<lambda>r. m ! r ! col \<noteq> 0) [col..<k] of
        None \<Rightarrow> Return None
      | Some pivot \<Rightarrow>
          let m1 = swap_rows m col pivot in
          case gf_inv (m1 ! col ! col) of
            None \<Rightarrow> Panic
          | Some pivot_inv \<Rightarrow>
              let m2 = m1[col := map (\<lambda>v. gf_mul v pivot_inv) (m1 ! col)] in
              gauss k cols (fold (eliminate_row col) [0..<k] m2))"

definition invert_matrix :: "bytes list \<Rightarrow> nat \<Rightarrow> (bool \<times> bytes list) outcome" where
  "invert_matrix mat k =
     (let aug = map (\<lambda>i. (resize (mat ! i) (2 * k) 0)[k + i := 1]) [0..<k] in
      obind (gauss k [0..<k] aug) (\<lambda>res. Return (case res of
          None \<Rightarrow> (False, mat)
        | Some aug' \<Rightarrow> (True, map (drop k) aug' @ drop k mat))))"

section \<open>Row equivalence\<close>

definition entry :: "bytes list \<Rightarrow> nat \<Rightarrow> nat \<Rightarrow> gf" where
  "entry m r c = GF (m ! r ! c)"

definition shape :: "nat \<Rightarrow> nat \<Rightarrow> bytes list \<Rightarrow> bool" where
  "shape k w m \<longleftrightarrow> length m = k \<and> (\<forall>row \<in> set m. length row = w)"

text \<open>A linear relation \<open>g\<close> between the columns that every row satisfies.\<close>

definition relates :: "nat \<Rightarrow> nat \<Rightarrow> bytes list \<Rightarrow> (nat \<Rightarrow> gf) \<Rightarrow> bool" where
  "relates k w m g \<longleftrightarrow> (\<forall>r < k. (\<Sum>c < w. entry m r c * g c) = 0)"

definition units :: "nat \<Rightarrow> nat \<Rightarrow> bytes list \<Rightarrow> bool" where
  "units k n m \<longleftrightarrow> (\<forall>r < k. \<forall>c < n. entry m r c = (if r = c then 1 else 0))"

definition kernel_trivial :: "nat \<Rightarrow> nat \<Rightarrow> bytes list \<Rightarrow> bool" where
  "kernel_trivial k w m \<longleftrightarrow>
     (\<forall>g. relates k w m g \<and> (\<forall>c. k \<le> c \<longrightarrow> g c = 0) \<longrightarrow> (\<forall>c < k. g c = 0))"

lemma gf_char2 [simp]: "x + x = (0 :: gf)"
  by (simp add: plus_gf_def gf_add_def zero_gf_def)

lemma gf_minus_plus: "x - y = x + (y :: gf)" and gf_uminus: "- x = (x :: gf)"
  by (simp_all add: minus_gf_def uminus_gf_def)

lemma shape_row: "shape k w m \<Longrightarrow> r < k \<Longrightarrow> length (m ! r) = w"
  by (simp add: shape_def)

lemma shape_update: "shape k w m \<Longrightarrow> length row = w \<Longrightarrow> shape k w (m[r := row])"
  by (auto simp: shape_def dest!: in_set_conv_nth [THEN iffD1] set_update_subset_insert [THEN subsetD])

lemma shape_swap: "shape k w m \<Longrightarrow> i < k \<Longrightarrow> j < k \<Longrightarrow> shape k w (swap_rows m i j)"
  by (simp add: swap_rows_def shape_update shape_row)

lemma entry_swap:
  "shape k w m \<Longrightarrow> i < k \<Longrightarrow> j < k \<Longrightarrow> r < k \<Longrightarrow>
     entry (swap_rows m i j) r c = entry m (if r = j then i else if r = i then j else r) c"
  by (auto simp: entry_def swap_rows_def shape_def nth_list_update)

lemma relates_swap:
  assumes "shape k w m" and "i < k" and "j < k"
  shows "relates k w (swap_rows m i j) g \<longleftrightarrow> relates k w m g"
proof -
  define p where "p r = (if r = j then i else if r = i then j else r)" for r
  have p: "p r < k" "p (p r) = r" if "r < k" for r using that assms by (auto simp: p_def)
  have "relates k w (swap_rows m i j) g \<longleftrightarrow> (\<forall>r < k. (\<Sum>c < w. entry m (p r) c * g c) = 0)"
    using entry_swap [OF assms] by (simp add: relates_def p_def)
  also have "\<dots> \<longleftrightarrow> relates k w m g" unfolding relates_def using p by metis
  finally show ?thesis .
qed

lemma entry_scale:
  "shape k w m \<Longrightarrow> i < k \<Longrightarrow> r < k \<Longrightarrow> c < w \<Longrightarrow>
     entry (m[i := map (\<lambda>v. gf_mul v q) (m ! i)]) r c = (if r = i then entry m r c * GF q else entry m r c)"
  by (auto simp: entry_def shape_def nth_list_update times_gf_def)

lemma relates_scale:
  assumes "shape k w m" and "i < k" and "q \<noteq> 0"
  shows "relates k w (m[i := map (\<lambda>v. gf_mul v q) (m ! i)]) g \<longleftrightarrow> relates k w m g"
proof -
  have "(\<Sum>c < w. entry (m[i := map (\<lambda>v. gf_mul v q) (m ! i)]) r c * g c) =
      (if r = i then GF q else 1) * (\<Sum>c < w. entry m r c * g c)" if "r < k" for r
    using that assms(1,2) by (simp add: entry_scale sum_distrib_left ac_simps)
  moreover have "GF q \<noteq> 0" using assms(3) by (simp add: zero_gf_def)
  ultimately show ?thesis unfolding relates_def by (auto split: if_splits)
qed

lemma entry_add_row:
  assumes "shape k w m" and "i < k" and "col < k" and "r < k" and "c < w"
  shows "entry (m[i := add_row (m ! i) (m ! col) f]) r c =
     entry m r c + (if r = i then GF f * entry m col c else 0)"
  using assms
  by (auto simp: entry_def shape_def nth_list_update add_row_def nth_xor_bytes times_gf_def plus_gf_def
      gf_add_def zero_gf_def)

lemma entry_eliminate_row:
  assumes "shape k w m" and "i < k" and "col < k" and "r < k" and "c < w" and "k \<le> w"
  shows "entry (eliminate_row col i m) r c =
     entry m r c + (if r = i \<and> i \<noteq> col then entry m i col * entry m col c else 0)"
proof (cases "i = col \<or> m ! i ! col = 0")
  case True
  then have "i = col \<or> entry m i col = 0" by (auto simp: entry_def zero_gf_def)
  with True show ?thesis by (auto simp: eliminate_row_def Let_def)
next
  case False
  with entry_add_row [OF assms(1-5), of "m ! i ! col"] show ?thesis
    by (simp add: eliminate_row_def Let_def entry_def [of m i col])
qed

lemma shape_eliminate_row: "shape k w m \<Longrightarrow> i < k \<Longrightarrow> shape k w (eliminate_row col i m)"
  by (simp add: eliminate_row_def Let_def shape_update add_row_def shape_row)

lemma entry_eliminate:
  assumes "shape k w m" and "col < k" and "k \<le> w" and "n \<le> k"
  shows "shape k w (fold (eliminate_row col) [0..<n] m) \<and>
    (\<forall>r < k. \<forall>c < w. entry (fold (eliminate_row col) [0..<n] m) r c =
       entry m r c + (if r < n \<and> r \<noteq> col then entry m r col * entry m col c else 0))"
  using assms(4)
proof (induction n)
  case (Suc n)
  let ?m = "fold (eliminate_row col) [0..<n] m"
  have IH: "shape k w ?m" "\<And>r c. r < k \<Longrightarrow> c < w \<Longrightarrow> entry ?m r c =
      entry m r c + (if r < n \<and> r \<noteq> col then entry m r col * entry m col c else 0)"
    using Suc by simp_all
  have "entry (eliminate_row col n ?m) r c =
      entry m r c + (if r < Suc n \<and> r \<noteq> col then entry m r col * entry m col c else 0)" if "r < k" "c < w" for r c
    using entry_eliminate_row [OF IH(1) _ assms(2) that assms(3), of n] Suc.prems IH(2) that assms(2,3)
    by (auto simp: less_Suc_eq)
  with shape_eliminate_row [OF IH(1), of n col] Suc.prems show ?case by simp
qed (use assms(1) in simp)

lemma relates_eliminate:
  assumes "shape k w m" and "col < k" and "k \<le> w"
  shows "relates k w (fold (eliminate_row col) [0..<k] m) g \<longleftrightarrow> relates k w m g"
proof -
  define f where "f r = (if r \<noteq> col then entry m r col else 0)" for r
  define A where "A r = (\<Sum>c < w. entry (fold (eliminate_row col) [0..<k] m) r c * g c)" for r
  define B where "B r = (\<Sum>c < w. entry m r c * g c)" for r
  have "(\<Sum>c < w. entry (fold (eliminate_row col) [0..<k] m) r c * g c) =
      (\<Sum>c < w. entry m r c * g c) + f r * (\<Sum>c < w. entry m col c * g c)" if "r < k" for r
  proof -
    have "entry (fold (eliminate_row col) [0..<k] m) r c = entry m r c + f r * entry m col c" if "c < w" for c
      using entry_eliminate [OF assms, of k] \<open>r < k\<close> that by (simp add: f_def)
    then have "(\<Sum>c < w. entry (fold (eliminate_row col) [0..<k] m) r c * g c) =
        (\<Sum>c < w. entry m r c * g c + f r * (entry m col c * g c))"
      by (intro sum.cong) (simp_all add: algebra_simps)
    then show ?thesis by (simp add: sum.distrib sum_distrib_left)
  qed
  moreover have "f col = 0" by (simp add: f_def)
  ultimately have sums: "A r = B r + f r * B col" if "r < k" for r
    using that by (simp add: A_def B_def)
  have col: "A col = B col" using sums [OF assms(2)] \<open>f col = 0\<close> by simp
  have "(\<forall>r < k. A r = 0) \<longleftrightarrow> (\<forall>r < k. B r = 0)"
  proof (cases "B col = 0")
    case True
    then show ?thesis using sums by simp
  next
    case False
    with col assms(2) show ?thesis by (metis (no_types))
  qed
  then show ?thesis by (simp add: relates_def A_def B_def)
qed

section \<open>Elimination\<close>

text \<open>One column of the elimination: pivot row \<open>p\<close> with inverse \<open>q\<close>.\<close>

definition gauss_column :: "nat \<Rightarrow> nat \<Rightarrow> nat \<Rightarrow> u8 \<Rightarrow> bytes list \<Rightarrow> bytes list" where
  "gauss_column k col p q m =
     (let m1 = swap_rows m col p;
          m2 = m1[col := map (\<lambda>v. gf_mul v q) (m1 ! col)]
      in fold (eliminate_row col) [0..<k] m2)"

lemma gauss_column_correct:
  assumes m: "shape k w m" "k \<le> w" "units k col m"
    and p: "col \<le> p" "p < k" "gf_mul (m ! p ! col) q = 1"
  shows "shape k w (gauss_column k col p q m)"
    and "units k (Suc col) (gauss_column k col p q m)"
    and "relates k w (gauss_column k col p q m) g \<longleftrightarrow> relates k w m g"
proof -
  have col: "col < k" using p by simp
  have q: "q \<noteq> 0" using p(3) by auto
  define m1 where "m1 = swap_rows m col p"
  define m2 where "m2 = m1[col := map (\<lambda>v. gf_mul v q) (m1 ! col)]"
  have m1: "shape k w m1" unfolding m1_def by (rule shape_swap [OF m(1) col p(2)])
  then have m2: "shape k w m2" unfolding m2_def by (intro shape_update) (simp_all add: shape_row col)
  have step: "gauss_column k col p q m = fold (eliminate_row col) [0..<k] m2"
    by (simp add: gauss_column_def Let_def m1_def m2_def)
  note el = entry_eliminate [OF m2 col m(2), of k]
  show "shape k w (gauss_column k col p q m)" using el by (simp add: step)
  show "relates k w (gauss_column k col p q m) g \<longleftrightarrow> relates k w m g"
    using relates_eliminate [OF m2 col m(2)] relates_scale [OF m1 col q] relates_swap [OF m(1) col p(2)]
    by (simp add: step m2_def m1_def)
  have e1: "entry m1 r c = entry m (if r = p then col else if r = col then p else r) c" if "r < k" for r c
    unfolding m1_def by (rule entry_swap [OF m(1) col p(2) that])
  have e2: "entry m2 r c = (if r = col then entry m p c * GF q else entry m1 r c)" if "r < k" "c < w" for r c
    using entry_scale [OF m1 col that, of q] e1 [OF that(1)] by (cases "col = p") (auto simp: m2_def)
  have piv: "entry m p col * GF q = 1" using p(3) by (simp add: entry_def times_gf_def one_gf_def)
  show "units k (Suc col) (gauss_column k col p q m)"
    unfolding units_def
  proof (intro allI impI)
    fix r c assume r: "r < k" and c: "c < Suc col"
    have cw: "c < w" using c col m(2) by linarith
    have final: "entry (gauss_column k col p q m) r c =
        entry m2 r c + (if r \<noteq> col then entry m2 r col * entry m2 col c else 0)"
      using el r cw by (simp add: step)
    show "entry (gauss_column k col p q m) r c = (if r = c then 1 else 0)"
    proof (cases "c = col")
      case True
      then show ?thesis using final e2 [of col col] e2 [OF r] piv r cw col by (simp add: m(2))
    next
      case False
      then have c': "c < col" using c by simp
      then have "entry m2 col c = 0" using e2 [OF col cw] m(3) p(1,2) by (simp add: units_def)
      moreover have "entry m2 r c = (if r = c then 1 else 0)" if "r \<noteq> col"
        using e2 [OF r cw] e1 [OF r] that m(3) r c' p col by (auto simp: units_def)
      ultimately show ?thesis using final c' by auto
    qed
  qed
qed

text \<open>Where every row from \<open>col\<close> down has a zero in that column, the reduced columns give a non-trivial
  relation: a trivial kernel therefore always leaves a pivot.\<close>

lemma pivot_exists:
  assumes "shape k w m" "k \<le> w" "units k col m" "col < k" "kernel_trivial k w m"
  obtains p where "col \<le> p" "p < k" "m ! p ! col \<noteq> 0"
proof -
  have "\<exists>p. col \<le> p \<and> p < k \<and> m ! p ! col \<noteq> 0"
  proof (rule ccontr)
    assume "\<not> ?thesis"
    then have zero: "entry m r col = 0" if "col \<le> r" "r < k" for r
      using that by (auto simp: entry_def zero_gf_def)
    define g where "g c = (if c < col then entry m c col else if c = col then 1 else 0)" for c
    have "(\<Sum>c < w. entry m r c * g c) = 0" if r: "r < k" for r
    proof -
      have "(\<Sum>c < w. entry m r c * g c) = (\<Sum>c < Suc col. entry m r c * g c)"
        using assms(2,4) by (intro sum.mono_neutral_right) (auto simp: g_def)
      also have "\<dots> = (\<Sum>c < col. entry m r c * g c) + entry m r col" by (simp add: g_def)
      also have "(\<Sum>c < col. entry m r c * g c) = (\<Sum>c < col. (if r = c then entry m c col else 0))"
        using assms(3) r by (intro sum.cong) (auto simp: g_def units_def)
      also have "\<dots> + entry m r col = 0" using zero [OF _ r] by (auto simp: sum.delta' not_less)
      finally show ?thesis .
    qed
    then have "relates k w m g" by (simp add: relates_def)
    moreover have "\<forall>c. k \<le> c \<longrightarrow> g c = 0" using assms(4) by (simp add: g_def)
    ultimately have "g col = 0" using assms(4,5) unfolding kernel_trivial_def by blast
    then show False by (simp add: g_def)
  qed
  with that show ?thesis by blast
qed

lemma gauss_correct:
  assumes "shape k w m" "k \<le> w" "units k col m" "kernel_trivial k w m" "col \<le> k"
  shows "\<exists>m'. gauss k [col..<k] m = Return (Some m') \<and> shape k w m' \<and> units k k m' \<and>
     (\<forall>g. relates k w m' g \<longleftrightarrow> relates k w m g)"
  using assms
proof (induction "k - col" arbitrary: col m)
  case 0
  then show ?case by simp
next
  case (Suc n)
  then have col: "col < k" by simp
  obtain p0 where p0: "col \<le> p0" "p0 < k" "m ! p0 ! col \<noteq> 0"
    by (rule pivot_exists [OF Suc.prems(1-3) col Suc.prems(4)])
  then obtain p where find: "find (\<lambda>r. m ! r ! col \<noteq> 0) [col..<k] = Some p"
    by (cases "find (\<lambda>r. m ! r ! col \<noteq> 0) [col..<k]") (auto simp: find_None_iff)
  then have p: "col \<le> p" "p < k" "m ! p ! col \<noteq> 0" by (auto simp: find_Some_iff nth_upt)
  obtain q where q: "gf_inv (m ! p ! col) = Some q" "gf_mul (m ! p ! col) q = 1"
    using p(3) by (rule gf_inv_correct)
  note gc = gauss_column_correct [OF Suc.prems(1-3) p(1,2) q(2)]
  have "swap_rows m col p ! col = m ! p"
    using p(1,2) Suc.prems(1) by (auto simp: swap_rows_def shape_def nth_list_update)
  then have step: "gauss k [col..<k] m = gauss k [Suc col..<k] (gauss_column k col p q m)"
    using find q(1) col by (simp add: upt_conv_Cons gauss_column_def Let_def)
  have "kernel_trivial k w (gauss_column k col p q m)"
    using Suc.prems(4) gc(3) by (simp add: kernel_trivial_def)
  then have "\<exists>m'. gauss k [Suc col..<k] (gauss_column k col p q m) = Return (Some m') \<and> shape k w m' \<and> units k k m' \<and>
     (\<forall>g. relates k w m' g \<longleftrightarrow> relates k w (gauss_column k col p q m) g)"
    using Suc.hyps(2) col by (intro Suc.hyps(1) gc(1,2) Suc.prems(2)) simp_all
  with gc(3) step show ?case by simp
qed

text \<open>A column \<open>p\<close> right of the square part is a right-hand side; \<open>x\<close> solves it when every row agrees.\<close>

definition solves :: "nat \<Rightarrow> bytes list \<Rightarrow> (nat \<Rightarrow> gf) \<Rightarrow> nat \<Rightarrow> bool" where
  "solves k m x p \<longleftrightarrow> (\<forall>r < k. (\<Sum>c < k. entry m r c * x c) = entry m r p)"

lemma solves_relates:
  assumes "k \<le> p" "p < w"
  shows "solves k m x p \<longleftrightarrow> relates k w m (\<lambda>c. if c < k then x c else if c = p then 1 else 0)"
proof -
  have "(\<Sum>c < w. entry m r c * (if c < k then x c else if c = p then 1 else 0)) =
      (\<Sum>c < k. entry m r c * x c) + entry m r p" for r
  proof -
    have "(\<Sum>c < w. entry m r c * (if c < k then x c else if c = p then 1 else 0)) =
        (\<Sum>c < w. (if c < k then entry m r c * x c else 0)) + (\<Sum>c < w. (if c = p then entry m r c else 0))"
      unfolding sum.distrib [symmetric] using assms(1) by (intro sum.cong) auto
    also have "(\<Sum>c < w. (if c < k then entry m r c * x c else 0)) = (\<Sum>c < k. entry m r c * x c)"
      using assms by (intro sum.mono_neutral_cong_right) auto
    finally show ?thesis using assms by simp
  qed
  moreover have "a + b = 0 \<longleftrightarrow> a = b" for a b :: gf
    by (metis gf_minus_plus right_minus_eq)
  ultimately show ?thesis by (simp add: solves_def relates_def)
qed

lemma solves_units:
  assumes "units k k m" "solves k m x p" "r < k"
  shows "entry m r p = x r"
proof -
  have "entry m r p = (\<Sum>c < k. entry m r c * x c)" using assms(2,3) by (simp add: solves_def)
  also have "\<dots> = (\<Sum>c < k. (if r = c then x c else 0))"
    using assms(1,3) by (intro sum.cong) (auto simp: units_def)
  finally show ?thesis using assms(3) by simp
qed

lemma gauss_solves:
  assumes "shape k w m" "k \<le> w" "kernel_trivial k w m"
  obtains m' where "gauss k [0..<k] m = Return (Some m')" "shape k w m'" "units k k m'"
    "\<And>x p. k \<le> p \<Longrightarrow> p < w \<Longrightarrow> solves k m' x p \<longleftrightarrow> solves k m x p"
proof -
  have "units k 0 m" by (simp add: units_def)
  from gauss_correct [OF assms(1,2) this assms(3)] obtain m' where
    "gauss k [0..<k] m = Return (Some m')" "shape k w m'" "units k k m'"
    "\<And>g. relates k w m' g \<longleftrightarrow> relates k w m g" by auto
  then show ?thesis by (intro that [of m']) (simp_all add: solves_relates)
qed

lemma kernel_trivial_square:
  assumes "shape k k m" "kernel_trivial k k m" "shape k w m'" "k \<le> w"
    and "\<And>r c. r < k \<Longrightarrow> c < k \<Longrightarrow> entry m' r c = entry m r c"
  shows "kernel_trivial k w m'"
  unfolding kernel_trivial_def
proof (intro allI impI, elim conjE)
  fix g c assume g: "relates k w m' g" "\<forall>c. k \<le> c \<longrightarrow> g c = 0" and c: "c < k"
  have "(\<Sum>c < w. entry m' r c * g c) = (\<Sum>c < k. entry m r c * g c)" if "r < k" for r
    using g(2) assms(4,5) that by (intro sum.mono_neutral_cong_right) auto
  with g(1) have "relates k k m g" by (simp add: relates_def)
  with g(2) c assms(2) show "g c = 0" by (simp add: kernel_trivial_def)
qed

section \<open>Cauchy systems\<close>

text \<open>A system whose coefficients are \<open>1 / (x i - y j)\<close> for distinct \<open>x\<close> and distinct \<open>y\<close> has only the zero
  solution, in any field.\<close>

lemma cauchy_reduce:
  fixes x y v :: "'i \<Rightarrow> 'a::field"
  assumes fin: "finite J" and j0: "j0 \<in> J"
    and ne: "\<And>j. j \<in> J \<Longrightarrow> x i \<noteq> y j" "\<And>j. j \<in> J \<Longrightarrow> x i0 \<noteq> y j" and xi: "x i \<noteq> x i0"
    and zero: "(\<Sum>j \<in> J. v j / (x i - y j)) = 0" "(\<Sum>j \<in> J. v j / (x i0 - y j)) = 0"
  defines "w \<equiv> \<lambda>j. v j / (x i0 - y j)"
  shows "(\<Sum>j \<in> J - {j0}. w j * (y j - y j0) / (x i - y j)) = 0"
proof -
  have v: "v j / (x i - y j) = w j + (x i0 - x i) * (w j / (x i - y j))" if "j \<in> J" for j
  proof -
    have nz: "x i - y j \<noteq> 0" "x i0 - y j \<noteq> 0" using ne that by auto
    then have "v j = w j * ((x i - y j) + (x i0 - x i))" by (simp add: w_def)
    with nz(1) show ?thesis by (simp only: distrib_left add_divide_distrib) (simp add: mult.commute)
  qed
  have "(\<Sum>j \<in> J. v j / (x i - y j)) = (\<Sum>j \<in> J. w j) + (x i0 - x i) * (\<Sum>j \<in> J. w j / (x i - y j))"
    by (simp add: v sum.distrib sum_distrib_left)
  with zero xi have S: "(\<Sum>j \<in> J. w j / (x i - y j)) = 0" by (simp add: w_def)
  have W: "(\<Sum>j \<in> J. w j) = 0" using zero(2) by (simp add: w_def)
  have "w j * (y j - y j0) / (x i - y j) = (x i - y j0) * (w j / (x i - y j)) - w j" if "j \<in> J" for j
  proof -
    have "x i - y j \<noteq> 0" using ne that by auto
    then show ?thesis by (simp add: field_simps)
  qed
  then have "(\<Sum>j \<in> J. w j * (y j - y j0) / (x i - y j)) =
      (x i - y j0) * (\<Sum>j \<in> J. w j / (x i - y j)) - (\<Sum>j \<in> J. w j)"
    by (simp add: sum_subtractf sum_distrib_left)
  with S W have "(\<Sum>j \<in> J. w j * (y j - y j0) / (x i - y j)) = 0" by simp
  then show ?thesis using fin j0 by (simp add: sum.remove [of J j0])
qed

lemma cauchy_kernel_trivial:
  fixes x y v :: "'i \<Rightarrow> 'a::field"
  assumes "finite I" "finite J" "card I = card J"
    and "inj_on x I" "inj_on y J" "\<And>i j. i \<in> I \<Longrightarrow> j \<in> J \<Longrightarrow> x i \<noteq> y j"
    and "\<And>i. i \<in> I \<Longrightarrow> (\<Sum>j \<in> J. v j / (x i - y j)) = 0" and "j \<in> J"
  shows "v j = 0"
  using assms
proof (induction "card J" arbitrary: I J v j)
  case 0
  then show ?case by auto
next
  case (Suc n)
  obtain i0 j0 where i0: "i0 \<in> I" and j0: "j0 \<in> J" using Suc.hyps(2) Suc.prems(3) by fastforce
  define w where "w j = v j / (x i0 - y j)" for j
  have ne0: "x i0 - y j \<noteq> 0" if "j \<in> J" for j using Suc.prems(6) [OF i0 that] by simp
  have red: "(\<Sum>j \<in> J - {j0}. w j * (y j - y j0) / (x i - y j)) = 0" if "i \<in> I - {i0}" for i
    unfolding w_def using that i0 j0 Suc.prems
    by (intro cauchy_reduce) (auto dest: inj_onD)
  have "w j * (y j - y j0) = 0" if "j \<in> J - {j0}" for j
  proof (rule Suc.hyps(1) [where J = "J - {j0}" and I = "I - {i0}" and v = "\<lambda>j. w j * (y j - y j0)"])
    show "n = card (J - {j0})" using Suc.hyps(2) j0 Suc.prems(2) by simp
    show "card (I - {i0}) = card (J - {j0})" using i0 j0 Suc.prems(1,2,3) by simp
    show "inj_on x (I - {i0})" "inj_on y (J - {j0})" using Suc.prems(4,5) by (simp_all add: inj_on_diff)
  qed (use that red Suc.prems(1,2,6) in auto)
  then have w: "w j = 0" if "j \<in> J - {j0}" for j
    using that j0 Suc.prems(5) by (auto dest: inj_onD)
  have "(\<Sum>j \<in> J. w j) = 0" using Suc.prems(7) [OF i0] by (simp add: w_def)
  then have "w j0 = 0" using j0 Suc.prems(2) w by (simp add: sum.remove [of J j0])
  with w Suc.prems(8) have "w j = 0" by blast
  with ne0 [OF Suc.prems(8)] show ?case by (simp add: w_def)
qed

section \<open>What the matrix routines compute\<close>

text \<open>\<^verbatim>\<open>mul_add_slice\<close>, with its eightfold unrolled loops, adds the scalar multiple of the source to the
  destination byte by byte, and panics exactly when the source is shorter and the scalar is not zero.\<close>

theorem mul_add_slice_spec:
  "mul_add_slice dst src c =
     (if length src < length dst \<and> c \<noteq> 0 then Panic else Return (xor_bytes dst (map (gf_mul c) src)))"
proof (cases "length src < length dst")
  case True
  show ?thesis
  proof (cases "c = 0")
    case zero: True
    have "xor_bytes dst (map (gf_mul 0) src) = dst" by (rule nth_equalityI) (auto simp: nth_xor_bytes)
    with zero show ?thesis by (simp add: mul_add_slice_def)
  qed (use True mul_add_slice_panics in simp)
qed (use mul_add_slice_eq in simp)

text \<open>\<^verbatim>\<open>invert_matrix\<close> inverts every square matrix whose rows annihilate only the zero vector: it returns
  true without panicking and leaves a matrix whose product with the original is the identity.\<close>

theorem invert_matrix_correct:
  assumes "shape k k mat" and "kernel_trivial k k mat"
  shows "\<exists>B. invert_matrix mat k = Return (True, B) \<and> shape k k B \<and>
    (\<forall>r < k. \<forall>c < k. (\<Sum>j < k. entry mat r j * entry B j c) = (if r = c then 1 else 0))"
proof -
  define aug where "aug = map (\<lambda>i. (resize (mat ! i) (2 * k) 0)[k + i := 1]) [0..<k]"
  have aug: "shape k (2 * k) aug" by (auto simp: shape_def aug_def)
  have left: "entry aug r c = entry mat r c" if "r < k" "c < k" for r c
    using that assms(1) by (simp add: entry_def aug_def nth_resize shape_row)
  have right: "entry aug r (k + c) = (if r = c then 1 else 0)" if "r < k" "c < k" for r c
    using that assms(1) by (auto simp: entry_def aug_def nth_resize shape_row nth_list_update zero_gf_def one_gf_def)
  have "kernel_trivial k (2 * k) aug"
    by (rule kernel_trivial_square [OF assms aug]) (simp_all add: left)
  then obtain m' where m': "gauss k [0..<k] aug = Return (Some m')" "shape k (2 * k) m'" "units k k m'"
      "\<And>x p. k \<le> p \<Longrightarrow> p < 2 * k \<Longrightarrow> solves k m' x p \<longleftrightarrow> solves k aug x p"
    using gauss_solves [OF aug] by auto
  define B where "B = map (drop k) m'"
  have "invert_matrix mat k = Return (True, B)"
    using m'(1) assms(1) by (simp add: invert_matrix_def Let_def aug_def [symmetric] B_def shape_def)
  moreover have "shape k k B" using m'(2) by (auto simp: shape_def B_def)
  moreover have B: "entry B j c = entry m' j (k + c)" if "j < k" for j c
    using that m'(2) by (simp add: entry_def B_def shape_def)
  have "(\<Sum>j < k. entry mat r j * entry B j c) = (if r = c then 1 else 0)" if r: "r < k" and c: "c < k" for r c
  proof -
    have "(\<Sum>j < k. entry m' i j * entry m' j (k + c)) = entry m' i (k + c)" if "i < k" for i
    proof -
      have "(\<Sum>j < k. entry m' i j * entry m' j (k + c)) = (\<Sum>j < k. (if i = j then entry m' j (k + c) else 0))"
        using m'(3) that by (intro sum.cong) (auto simp: units_def)
      with that show ?thesis by simp
    qed
    then have "solves k m' (\<lambda>j. entry m' j (k + c)) (k + c)" by (simp add: solves_def)
    with m'(4) c have "solves k aug (\<lambda>j. entry m' j (k + c)) (k + c)" by simp
    with r c show ?thesis by (simp add: solves_def left right B)
  qed
  ultimately show ?thesis by blast
qed

theorem invert_matrix_correct_witness:
  "\<exists>B. invert_matrix [[0, 1], [1, 7]] 2 = Return (True, B) \<and>
    (\<Sum>j < 2. entry [[0, 1], [1, 7]] 0 j * entry B j 0) = 1"
proof -
  have "shape 2 2 [[0, 1], [1, 7]]" by (simp add: shape_def)
  moreover have "kernel_trivial 2 2 [[0, 1], [1, 7]]"
    unfolding kernel_trivial_def
  proof (intro allI impI, elim conjE)
    fix g c assume g: "relates 2 2 [[0, 1], [1, 7]] g" and c: "c < (2 :: nat)"
    have "entry [[0, 1], [1, 7]] 0 0 = 0" "entry [[0, 1], [1, 7]] 0 1 = 1" "entry [[0, 1], [1, 7]] 1 0 = 1"
      by (simp_all add: entry_def zero_gf_def one_gf_def)
    moreover have "(\<Sum>c < 2. entry [[0, 1], [1, 7]] 0 c * g c) = 0" "(\<Sum>c < 2. entry [[0, 1], [1, 7]] 1 c * g c) = 0"
      using g by (simp_all add: relates_def)
    ultimately have "g 1 = 0" "g 0 = 0" by (simp_all add: numeral_2_eq_2)
    with c show "g c = 0" by (auto simp: less_2_cases_iff)
  qed
  ultimately have "\<exists>B. invert_matrix [[0, 1], [1, 7]] 2 = Return (True, B) \<and> shape 2 2 B \<and>
    (\<forall>r < 2. \<forall>c < 2. (\<Sum>j < 2. entry [[0, 1], [1, 7]] r j * entry B j c) = (if r = c then 1 else 0))"
    by (rule invert_matrix_correct)
  then show ?thesis by force
qed

end
