(* ===== verification/Fec_Codec.thy ===== *)
theory Fec_Codec
  imports Gf_Matrix
begin

text \<open>
  \<^verbatim>\<open>src/fec/codec.rs\<close>: the systematic Reed-Solomon erasure code. The encoder collects \<open>k\<close> source payloads
  and emits \<open>r\<close> repair symbols; the decoder collects what arrives of a group and solves for the rest.
  The main result is that any \<open>k\<close> of the \<open>k + r\<close> symbols of a group, in any order, give the group back.
\<close>

section \<open>Wire formats\<close>

definition FEC_SOURCE_HDR :: nat where "FEC_SOURCE_HDR = 7"
definition FEC_REPAIR_HDR :: nat where "FEC_REPAIR_HDR = 9"

record fec_repair_data =
  rd_group_id :: u32
  repair_idx :: u8
  rd_k :: u8
  rd_r :: u8
  rd_padded_len :: u16
  rd_data :: bytes

definition repair_to_bytes :: "fec_repair_data \<Rightarrow> bytes" where
  "repair_to_bytes d =
     u32_to_le (rd_group_id d) @ [repair_idx d] @ [rd_k d] @ [rd_r d] @ u16_to_le (rd_padded_len d) @ rd_data d"

definition repair_from_bytes :: "bytes \<Rightarrow> fec_repair_data option" where
  "repair_from_bytes buf =
     (if length buf < FEC_REPAIR_HDR then None
      else
        let plen = (of_le (slice buf 7 9) :: u16) in
        if length buf < FEC_REPAIR_HDR + unat plen then None
        else Some \<lparr>rd_group_id = of_le (slice buf 0 4), repair_idx = buf ! 4, rd_k = buf ! 5, rd_r = buf ! 6,
                   rd_padded_len = plen, rd_data = slice buf FEC_REPAIR_HDR (FEC_REPAIR_HDR + unat plen)\<rparr>)"

definition parse_source_envelope :: "bytes \<Rightarrow> (u32 \<times> u8 \<times> u8 \<times> u8 \<times> bytes) option" where
  "parse_source_envelope buf =
     (if length buf < FEC_SOURCE_HDR then None
      else Some (of_le (slice buf 0 4), buf ! 4, buf ! 5, buf ! 6, drop FEC_SOURCE_HDR buf))"

section \<open>Encoder\<close>

definition cauchy :: "u8 \<Rightarrow> u8 \<Rightarrow> u8 \<Rightarrow> u8 option" where
  "cauchy i j r = gf_inv (i XOR (r + j))"

record fec_encoder =
  enc_group_id :: u32
  enc_k :: u8
  enc_r :: u8
  enc_sources :: "bytes list"
  enc_padded_len :: nat
  enc_source_idx :: u8

definition fec_encoder_new :: "u32 \<Rightarrow> u8 \<Rightarrow> u8 \<Rightarrow> fec_encoder" where
  "fec_encoder_new gid k r =
     \<lparr>enc_group_id = gid, enc_k = k, enc_r = r, enc_sources = [], enc_padded_len = 0, enc_source_idx = 0\<rparr>"

definition source_envelope :: "fec_encoder \<Rightarrow> bytes" where
  "source_envelope e =
     (overwrite (replicate FEC_SOURCE_HDR 0) 0 (u32_to_le (enc_group_id e)))
       [4 := enc_source_idx e, 5 := enc_k e, 6 := enc_r e]"

definition repair_symbol :: "bytes list \<Rightarrow> nat \<Rightarrow> u8 \<Rightarrow> u8 \<Rightarrow> u8 \<Rightarrow> bytes outcome" where
  "repair_symbol sources len actual_k r i =
     ofold (\<lambda>j sym. case cauchy i (of_nat j) r of
                      None \<Rightarrow> Panic
                    | Some c \<Rightarrow> mul_add_slice sym (sources ! j) c)
       [0..<unat actual_k] (replicate len 0)"

definition emit_repairs :: "fec_encoder \<Rightarrow> u8 \<Rightarrow> (fec_repair_data list \<times> fec_encoder) outcome" where
  "emit_repairs e actual_k =
     (let len = enc_padded_len e;
          sources = map (\<lambda>s. resize s len 0) (enc_sources e);
          r = enc_r e
      in obind (omap (\<lambda>i. obind (repair_symbol sources len actual_k r (of_nat i)) (\<lambda>sym.
             Return \<lparr>rd_group_id = enc_group_id e, repair_idx = of_nat i, rd_k = actual_k, rd_r = r,
                     rd_padded_len = of_nat len, rd_data = sym\<rparr>)) [0..<unat r])
           (\<lambda>repairs. Return (repairs,
              e\<lparr>enc_group_id := enc_group_id e + 1, enc_sources := [], enc_padded_len := 0,
                enc_source_idx := 0\<rparr>)))"

definition push_source :: "fec_encoder \<Rightarrow> bytes \<Rightarrow> (fec_repair_data list option \<times> fec_encoder) outcome" where
  "push_source e payload =
     (let e1 = e\<lparr>enc_padded_len := max (enc_padded_len e) (length payload),
                 enc_sources := enc_sources e @ [payload],
                 enc_source_idx := enc_source_idx e + 1\<rparr>
      in if length (enc_sources e1) = unat (enc_k e1)
         then obind (emit_repairs e1 (enc_k e1)) (\<lambda>(rs, e2). Return (Some rs, e2))
         else Return (None, e1))"

definition fec_flush :: "fec_encoder \<Rightarrow> (fec_repair_data list option \<times> fec_encoder) outcome" where
  "fec_flush e =
     (if enc_sources e = [] then Return (None, e)
      else obind (emit_repairs e (of_nat (length (enc_sources e)))) (\<lambda>(rs, e'). Return (Some rs, e')))"

section \<open>Decoder\<close>

record group_state =
  g_k :: u8
  g_r :: u8
  g_padded_len :: nat
  g_sources :: "(u8 \<times> bytes) list"
  g_repairs :: "(u8 \<times> bytes) list"
  g_recovered :: bool

definition group_new :: "u8 \<Rightarrow> u8 \<Rightarrow> nat \<Rightarrow> group_state" where
  "group_new k r plen =
     \<lparr>g_k = k, g_r = r, g_padded_len = plen, g_sources = [], g_repairs = [], g_recovered = False\<rparr>"

definition eliminate_rhs_row :: "nat \<Rightarrow> nat \<Rightarrow> bytes list \<times> bytes list \<Rightarrow> (bytes list \<times> bytes list) outcome" where
  "eliminate_rhs_row col r mr =
     (case mr of (mat, rhs) \<Rightarrow>
        if r = col then Return (mat, rhs)
        else let factor = mat ! r ! col in
             if factor = 0 then Return (mat, rhs)
             else obind (mul_add_slice (rhs ! r) (rhs ! col) factor) (\<lambda>row.
                    Return (mat[r := add_row (mat ! r) (mat ! col) factor], rhs[r := row])))"

fun gauss_rhs :: "nat \<Rightarrow> nat list \<Rightarrow> bytes list \<Rightarrow> bytes list \<Rightarrow> (bytes list \<times> bytes list) option outcome" where
  "gauss_rhs k [] mat rhs = Return (Some (mat, rhs))"
| "gauss_rhs k (col # cols) mat rhs =
     (case find (\<lambda>r. mat ! r ! col \<noteq> 0) [col..<k] of
        None \<Rightarrow> Return None
      | Some pivot \<Rightarrow>
          let mat1 = swap_rows mat col pivot; rhs1 = swap_rows rhs col pivot in
          case gf_inv (mat1 ! col ! col) of
            None \<Rightarrow> Panic
          | Some piv_inv \<Rightarrow>
              let mat2 = mat1[col := map (\<lambda>v. gf_mul v piv_inv) (mat1 ! col)];
                  rhs2 = rhs1[col := map (\<lambda>v. gf_mul v piv_inv) (rhs1 ! col)]
              in obind (ofold (eliminate_rhs_row col) [0..<k] (mat2, rhs2))
                   (\<lambda>(m, b). gauss_rhs k cols m b))"

definition cauchy_row :: "u8 \<Rightarrow> u8 \<Rightarrow> u8 \<Rightarrow> bytes option" where
  "cauchy_row ri k r = those (map (\<lambda>j. cauchy ri (of_nat j) r) [0..<unat k])"

text \<open>The loop over the columns: an identity row for each source at hand, the next repair's Cauchy row
  for each missing one. \<open>Return None\<close> is the early return of a zero denominator.\<close>

fun build_rows :: "group_state \<Rightarrow> u8 list \<Rightarrow> u8 list \<Rightarrow> (bytes \<times> bytes) list option outcome" where
  "build_rows g [] reps = Return (Some [])"
| "build_rows g (col # cols) reps =
     (case map_of (g_sources g) col of
        Some src_data \<Rightarrow>
          obind (build_rows g cols reps) (\<lambda>rest.
            Return (map_option ((#) ((replicate (unat (g_k g)) 0)[unat col := 1], src_data)) rest))
      | None \<Rightarrow>
          (case reps of
             [] \<Rightarrow> Panic
           | ri # reps' \<Rightarrow>
               (case cauchy_row ri (g_k g) (g_r g) of
                  None \<Rightarrow> Return None
                | Some row \<Rightarrow>
                    (case map_of (g_repairs g) ri of
                       None \<Rightarrow> Panic
                     | Some rep_data \<Rightarrow>
                         obind (build_rows g cols reps') (\<lambda>rest.
                           Return (map_option ((#) (row, rep_data)) rest))))))"

definition try_recover :: "group_state \<Rightarrow> ((u8 \<times> bytes) list option \<times> group_state) outcome" where
  "try_recover g =
     (if g_recovered g then Return (None, g)
      else
        let have_src = (of_nat (length (g_sources g)) :: u8);
            have_rep = (of_nat (length (g_repairs g)) :: u8) in
        if have_src = g_k g then Return (Some [], g\<lparr>g_recovered := True\<rparr>)
        else if have_src + have_rep < g_k g then Return (None, g)
        else
          let k = unat (g_k g);
              all_cols = map of_nat [0..<k];
              missing = filter (\<lambda>i. map_of (g_sources g) i = None) all_cols;
              n_missing = length missing in
          if have_rep < of_nat n_missing then Return (None, g)
          else
            let avail_rep = take n_missing (sort (map fst (g_repairs g))) in
            obind (build_rows g all_cols avail_rep) (\<lambda>rows.
              case rows of
                None \<Rightarrow> Return (None, g)
              | Some rs \<Rightarrow>
                  obind (gauss_rhs k [0..<k] (map fst rs) (map snd rs)) (\<lambda>res.
                    case res of
                      None \<Rightarrow> Return (None, g)
                    | Some (_, rhs) \<Rightarrow>
                        Return (Some (map (\<lambda>mi. (mi, rhs ! unat mi)) missing), g\<lparr>g_recovered := True\<rparr>))))"

type_synonym fec_decoder = "(u32 \<times> group_state) list"

definition fec_decoder_new :: fec_decoder where "fec_decoder_new = []"

definition add_source ::
  "fec_decoder \<Rightarrow> u32 \<Rightarrow> u8 \<Rightarrow> u8 \<Rightarrow> u8 \<Rightarrow> bytes \<Rightarrow> ((u8 \<times> bytes) list option \<times> fec_decoder) outcome" where
  "add_source d gid source_idx k r dat =
     (let g0 = (case map_of d gid of Some g \<Rightarrow> g | None \<Rightarrow> group_new k r (length dat));
          g1 = g0\<lparr>g_padded_len := max (g_padded_len g0) (length dat)\<rparr>;
          g2 = g1\<lparr>g_sources := AList.update source_idx (resize dat (g_padded_len g1) 0) (g_sources g1)\<rparr>
      in obind (try_recover g2) (\<lambda>(res, g3). Return (res, AList.update gid g3 d)))"

definition add_repair ::
  "fec_decoder \<Rightarrow> fec_repair_data \<Rightarrow> ((u8 \<times> bytes) list option \<times> fec_decoder) outcome" where
  "add_repair d rep =
     (let g0 = (case map_of d (rd_group_id rep) of Some g \<Rightarrow> g
                | None \<Rightarrow> group_new (rd_k rep) (rd_r rep) (unat (rd_padded_len rep)));
          g1 = g0\<lparr>g_padded_len := max (g_padded_len g0) (unat (rd_padded_len rep))\<rparr>;
          g2 = g1\<lparr>g_repairs := AList.update (repair_idx rep) (resize (rd_data rep) (g_padded_len g1) 0) (g_repairs g1)\<rparr>
      in obind (try_recover g2) (\<lambda>(res, g3). Return (res, AList.update (rd_group_id rep) g3 d)))"

definition cleanup_group :: "fec_decoder \<Rightarrow> u32 \<Rightarrow> fec_decoder" where
  "cleanup_group d gid = AList.delete gid d"

section \<open>Elimination with a separate right-hand side\<close>

definition join_rows :: "bytes list \<Rightarrow> bytes list \<Rightarrow> bytes list" where
  "join_rows mat rhs = map2 (@) mat rhs"

lemma length_join_rows [simp]: "length (join_rows mat rhs) = min (length mat) (length rhs)"
  by (simp add: join_rows_def)

lemma nth_join_rows: "r < length mat \<Longrightarrow> r < length rhs \<Longrightarrow> join_rows mat rhs ! r = mat ! r @ rhs ! r"
  by (simp add: join_rows_def)

lemma join_update:
  "length mat = length rhs \<Longrightarrow> (join_rows mat rhs)[i := a @ b] = join_rows (mat[i := a]) (rhs[i := b])"
  by (rule nth_equalityI; cases "i < length rhs") (auto simp: nth_join_rows nth_list_update)

lemma join_swap:
  "length mat = length rhs \<Longrightarrow> i < length mat \<Longrightarrow> j < length mat \<Longrightarrow>
     swap_rows (join_rows mat rhs) i j = join_rows (swap_rows mat i j) (swap_rows rhs i j)"
  by (simp add: swap_rows_def nth_join_rows join_update)

lemma add_row_append:
  "length a = length c \<Longrightarrow> add_row (a @ b) (c @ d) f = add_row a c f @ add_row b d f"
  by (simp add: add_row_def xor_bytes_def)

lemma eliminate_rhs_join:
  assumes "shape k k mat" "shape k w rhs" "r < k" "col < k"
  shows "\<exists>mat' rhs'. eliminate_rhs_row col r (mat, rhs) = Return (mat', rhs') \<and>
    shape k k mat' \<and> shape k w rhs' \<and> join_rows mat' rhs' = eliminate_row col r (join_rows mat rhs)"
proof -
  have len: "length mat = k" "length rhs = k" using assms(1,2) by (simp_all add: shape_def)
  have rows: "length (mat ! r) = k" "length (mat ! col) = k" "length (rhs ! r) = w" "length (rhs ! col) = w"
    using assms by (simp_all add: shape_row)
  have "eliminate_row col r (join_rows mat rhs) =
      (if r = col \<or> mat ! r ! col = 0 then join_rows mat rhs
       else join_rows (mat[r := add_row (mat ! r) (mat ! col) (mat ! r ! col)])
              (rhs[r := add_row (rhs ! r) (rhs ! col) (mat ! r ! col)]))"
    using assms(3,4) len rows by (simp add: eliminate_row_def Let_def nth_join_rows add_row_append join_update nth_append)
  moreover have "mul_add_slice (rhs ! r) (rhs ! col) f = Return (add_row (rhs ! r) (rhs ! col) f)" for f
    using rows by (simp add: mul_add_slice_eq add_row_def)
  ultimately show ?thesis
    using assms(1,2) rows by (simp add: eliminate_rhs_row_def Let_def shape_update add_row_def)
qed

lemma eliminate_rhs_fold:
  assumes "shape k k mat" "shape k w rhs" "col < k" "\<forall>r \<in> set rs. r < k"
  shows "\<exists>mat' rhs'. ofold (eliminate_rhs_row col) rs (mat, rhs) = Return (mat', rhs') \<and>
    shape k k mat' \<and> shape k w rhs' \<and> join_rows mat' rhs' = fold (eliminate_row col) rs (join_rows mat rhs)"
  using assms
proof (induction rs arbitrary: mat rhs)
  case (Cons r rs)
  then obtain mat1 rhs1 where 1: "eliminate_rhs_row col r (mat, rhs) = Return (mat1, rhs1)"
      "shape k k mat1" "shape k w rhs1" "join_rows mat1 rhs1 = eliminate_row col r (join_rows mat rhs)"
    using eliminate_rhs_join [of k mat w rhs r col] by auto
  with Cons.IH [OF 1(2,3) Cons.prems(3)] Cons.prems(4) show ?case by auto
qed simp

text \<open>Eliminating a matrix with its right-hand sides beside it is eliminating the joined rows.\<close>

lemma gauss_rhs_join:
  assumes "shape k k mat" "shape k w rhs" "\<forall>c \<in> set cols. c < k"
    and "gauss k cols (join_rows mat rhs) = Return (Some m')"
  shows "\<exists>mat' rhs'. gauss_rhs k cols mat rhs = Return (Some (mat', rhs')) \<and>
    shape k k mat' \<and> shape k w rhs' \<and> m' = join_rows mat' rhs'"
  using assms
proof (induction cols arbitrary: mat rhs)
  case (Cons col cols)
  have col: "col < k" using Cons.prems(3) by simp
  have len: "length mat = k" "length rhs = k" using Cons.prems(1,2) by (simp_all add: shape_def)
  have find_eq: "find (\<lambda>r. join_rows mat rhs ! r ! col \<noteq> 0) [col..<k] = find (\<lambda>r. mat ! r ! col \<noteq> 0) [col..<k]"
    using len Cons.prems(1) col by (intro find_cong) (auto simp: nth_join_rows nth_append shape_row)
  obtain p where p: "find (\<lambda>r. mat ! r ! col \<noteq> 0) [col..<k] = Some p"
    using Cons.prems(4) find_eq by (cases "find (\<lambda>r. mat ! r ! col \<noteq> 0) [col..<k]") auto
  then have pk: "p < k" by (auto simp: find_Some_iff)
  define mat1 rhs1 where "mat1 = swap_rows mat col p" and "rhs1 = swap_rows rhs col p"
  have sh1: "shape k k mat1" "shape k w rhs1"
    unfolding mat1_def rhs1_def using Cons.prems(1,2) col pk by (simp_all add: shape_swap)
  have j1: "swap_rows (join_rows mat rhs) col p = join_rows mat1 rhs1"
    using join_swap len col pk by (simp add: mat1_def rhs1_def)
  have len1: "length mat1 = k" "length rhs1 = k" using sh1 by (simp_all add: shape_def)
  have at: "join_rows mat1 rhs1 ! col = mat1 ! col @ rhs1 ! col" "(mat1 ! col @ rhs1 ! col) ! col = mat1 ! col ! col"
    using len1 col sh1 by (simp_all add: nth_join_rows nth_append shape_row)
  obtain q where q: "gf_inv (mat1 ! col ! col) = Some q"
    using Cons.prems(4) find_eq p j1 at by (cases "gf_inv (mat1 ! col ! col)") (auto simp: Let_def)
  define mat2 rhs2 where "mat2 = mat1[col := map (\<lambda>v. gf_mul v q) (mat1 ! col)]"
    and "rhs2 = rhs1[col := map (\<lambda>v. gf_mul v q) (rhs1 ! col)]"
  have sh2: "shape k k mat2" "shape k w rhs2"
    unfolding mat2_def rhs2_def using sh1 col by (simp_all add: shape_update shape_row)
  obtain mat3 rhs3 where 3: "ofold (eliminate_rhs_row col) [0..<k] (mat2, rhs2) = Return (mat3, rhs3)"
      "shape k k mat3" "shape k w rhs3" "join_rows mat3 rhs3 = fold (eliminate_row col) [0..<k] (join_rows mat2 rhs2)"
    using eliminate_rhs_fold [OF sh2 col, of "[0..<k]"] by auto
  have "gauss k cols (join_rows mat3 rhs3) = Return (Some m')"
    using Cons.prems(4) find_eq p j1 at q 3(4) len1
    by (simp add: Let_def mat2_def rhs2_def join_update)
  from Cons.IH [OF 3(2,3) _ this] Cons.prems(3)
  show ?case using p q 3(1) by (simp add: Let_def mat1_def [symmetric] rhs1_def [symmetric] mat2_def [symmetric] rhs2_def [symmetric])
qed auto

section \<open>Honest groups\<close>

text \<open>The evaluation points of the Cauchy matrix, and the specification of a repair symbol: byte by byte
  the combination of the padded sources with coefficients \<open>1 / (point i - point (r + j))\<close>.\<close>

definition point :: "nat \<Rightarrow> gf" where
  "point n = GF (of_nat n)"

definition coeff :: "nat \<Rightarrow> nat \<Rightarrow> nat \<Rightarrow> gf" where
  "coeff r i j = 1 / (point i - point (r + j))"

definition is_repair :: "bytes list \<Rightarrow> nat \<Rightarrow> nat \<Rightarrow> nat \<Rightarrow> bytes \<Rightarrow> bool" where
  "is_repair S len r i d \<longleftrightarrow> length d = len \<and>
     (\<forall>p < len. GF (d ! p) = (\<Sum>j < length S. coeff r i j * GF (S ! j ! p)))"

lemma u8_of_nat_inj:
  assumes "(of_nat m :: u8) = of_nat n" and "m < 256" and "n < 256"
  shows "m = n"
proof -
  have "unat (of_nat m :: u8) = unat (of_nat n :: u8)" by (simp only: assms(1))
  moreover have "unat (of_nat m :: u8) = m" "unat (of_nat n :: u8) = n"
    by (rule unat_of_nat_id, simp add: assms)+
  ultimately show ?thesis by simp
qed

lemma point_inj: "point m = point n \<Longrightarrow> m < 256 \<Longrightarrow> n < 256 \<Longrightarrow> m = n"
  by (simp add: point_def u8_of_nat_inj)

lemma cauchy_coeff:
  assumes "i < r" "r + j < 256"
  obtains c where "cauchy (of_nat i) (of_nat j) (of_nat r) = Some c" and "GF c = coeff r i j"
proof -
  define z :: u8 where "z = of_nat i XOR of_nat (r + j)"
  have "z \<noteq> 0" using u8_of_nat_inj [of i "r + j"] assms by (auto simp: z_def xor_eq_0_iff)
  then obtain c where c: "gf_inv z = Some c" "gf_mul z c = 1" by (rule gf_inv_correct)
  have "point i - point (r + j) = GF z"
    by (simp add: point_def gf_minus_plus plus_gf_def gf_add_def z_def)
  then have "(point i - point (r + j)) * GF c = 1" by (simp add: times_gf_def one_gf_def c(2))
  then have "GF c = coeff r i j"
    by (metis coeff_def mult.commute mult_eq_0_iff nonzero_eq_divide_eq one_neq_zero)
  moreover have "cauchy (of_nat i) (of_nat j) (of_nat r) = Some c"
    using c(1) by (simp add: cauchy_def z_def)
  ultimately show ?thesis using that by blast
qed

lemma repair_symbol_correct:
  assumes "\<forall>s \<in> set S. length s = len" "i < r" "r + length S \<le> 256" "length S < 256"
  obtains d where "repair_symbol S len (of_nat (length S)) (of_nat r) (of_nat i) = Return d" "is_repair S len r i d"
proof -
  let ?f = "\<lambda>j sym. case cauchy (of_nat i) (of_nat j) (of_nat r) of None \<Rightarrow> Panic
                    | Some c \<Rightarrow> mul_add_slice sym (S ! j) c"
  have "\<exists>d. ofold ?f [0..<n] (replicate len 0) = Return d \<and> length d = len \<and>
      (\<forall>p < len. GF (d ! p) = (\<Sum>j < n. coeff r i j * GF (S ! j ! p)))" if "n \<le> length S" for n
    using that
  proof (induction n)
    case 0
    then show ?case by (simp add: zero_gf_def)
  next
    case (Suc n)
    then obtain d where d: "ofold ?f [0..<n] (replicate len 0) = Return d" "length d = len"
      "\<forall>p < len. GF (d ! p) = (\<Sum>j < n. coeff r i j * GF (S ! j ! p))" by auto
    obtain c where c: "cauchy (of_nat i) (of_nat n) (of_nat r) = Some c" "GF c = coeff r i n"
      using assms(2,3) Suc.prems by (auto intro: cauchy_coeff [of i r n])
    have Sn: "length (S ! n) = len" using assms(1) Suc.prems by simp
    have "GF (xor_bytes d (map (gf_mul c) (S ! n)) ! p) = GF (d ! p) + GF c * GF (S ! n ! p)" if "p < len" for p
      using that d(2) Sn by (simp add: nth_xor_bytes plus_gf_def gf_add_def times_gf_def)
    then show ?case
      using d c Sn by (simp add: ofold_append mul_add_slice_eq)
  qed
  from this [of "length S"] obtain d where "ofold ?f [0..<length S] (replicate len 0) = Return d" "is_repair S len r i d"
    by (auto simp: is_repair_def)
  moreover have "unat (of_nat (length S) :: u8) = length S" using assms(4) by (simp add: unat_of_nat_id)
  ultimately show ?thesis using that by (simp add: repair_symbol_def)
qed

text \<open>What arrives of a group: source or repair symbols by index. The rows a decoder picks for them.\<close>

datatype fec_symbol = SrcSym nat | RepSym nat

fun pick_rows :: "nat set \<Rightarrow> nat list \<Rightarrow> nat list \<Rightarrow> fec_symbol list" where
  "pick_rows A [] bs = []"
| "pick_rows A (n # ns) bs = (if n \<in> A then SrcSym n # pick_rows A ns bs else RepSym (hd bs) # pick_rows A ns (tl bs))"

fun sym_coeff :: "nat \<Rightarrow> fec_symbol \<Rightarrow> nat \<Rightarrow> gf" where
  "sym_coeff r (SrcSym n) j = (if j = n then 1 else 0)"
| "sym_coeff r (RepSym b) j = coeff r b j"

definition honest_group ::
  "bytes list \<Rightarrow> nat \<Rightarrow> nat \<Rightarrow> (nat \<Rightarrow> bytes) \<Rightarrow> nat set \<Rightarrow> nat set \<Rightarrow> group_state \<Rightarrow> bool" where
  "honest_group S len r R A B g \<longleftrightarrow>
     g_k g = of_nat (length S) \<and> g_r g = of_nat r \<and> g_padded_len g = len \<and>
     distinct (map fst (g_sources g)) \<and> set (g_sources g) = (\<lambda>i. (of_nat i, S ! i)) ` A \<and>
     distinct (map fst (g_repairs g)) \<and> set (g_repairs g) = (\<lambda>i. (of_nat i, R i)) ` B \<and>
     A \<subseteq> {..<length S} \<and> B \<subseteq> {..<r}"

definition honest_code :: "bytes list \<Rightarrow> nat \<Rightarrow> nat \<Rightarrow> (nat \<Rightarrow> bytes) \<Rightarrow> bool" where
  "honest_code S len r R \<longleftrightarrow>
     length S < 256 \<and> r < 256 \<and> r + length S \<le> 256 \<and> (\<forall>s \<in> set S. length s = len) \<and>
     (\<forall>i < r. is_repair S len r i (R i))"

lemma honest_lookup:
  assumes "honest_code S len r R" "honest_group S len r R A B g"
  shows "n < length S \<Longrightarrow> map_of (g_sources g) (of_nat n) = (if n \<in> A then Some (S ! n) else None)"
    and "b \<in> B \<Longrightarrow> map_of (g_repairs g) (of_nat b) = Some (R b)"
    and "length (g_sources g) = card A" and "length (g_repairs g) = card B"
proof -
  have small: "length S < 256" "r < 256" using assms(1) by (simp_all add: honest_code_def)
  have A: "A \<subseteq> {..<256}" "B \<subseteq> {..<256}" using small assms(2) by (auto simp: honest_group_def)
  show "map_of (g_sources g) (of_nat n) = (if n \<in> A then Some (S ! n) else None)" if "n < length S"
  proof (cases "n \<in> A")
    case True
    then show ?thesis using assms(2) by (auto simp: honest_group_def intro!: map_of_is_SomeI)
  next
    case False
    have "of_nat n \<notin> fst ` set (g_sources g)"
      using False A(1) that small u8_of_nat_inj [of n] assms(2) by (fastforce simp: honest_group_def)
    with False show ?thesis by (simp add: map_of_eq_None_iff)
  qed
  show "map_of (g_repairs g) (of_nat b) = Some (R b)" if "b \<in> B"
    using that assms(2) by (auto simp: honest_group_def intro!: map_of_is_SomeI)
  have card: "length xs = card I" if "distinct (map fst xs)" "set xs = (\<lambda>i. (of_nat i :: u8, f i)) ` I" "I \<subseteq> {..<256}"
    for xs :: "(u8 \<times> bytes) list" and f I
  proof -
    have "length xs = card (set xs)" using that(1) by (simp add: distinct_card distinct_map)
    also have "\<dots> = card I" unfolding that(2)
      using that(3) u8_of_nat_inj by (intro card_image) (auto simp: inj_on_def subset_iff)
    finally show ?thesis .
  qed
  show "length (g_sources g) = card A" "length (g_repairs g) = card B"
    using card A assms(2) by (auto simp: honest_group_def)
qed

section \<open>Recovery of an honest group\<close>

text \<open>A row with its right-hand side realises a symbol.\<close>

definition row_ok :: "bytes list \<Rightarrow> nat \<Rightarrow> nat \<Rightarrow> fec_symbol \<Rightarrow> bytes \<times> bytes \<Rightarrow> bool" where
  "row_ok S len r y rw \<longleftrightarrow>
     length (fst rw) = length S \<and> length (snd rw) = len \<and>
     (\<forall>j < length S. GF (fst rw ! j) = sym_coeff r y j) \<and>
     (\<forall>p < len. (\<Sum>j < length S. sym_coeff r y j * GF (S ! j ! p)) = GF (snd rw ! p))"

lemma delta_sum: "(n :: nat) < k \<Longrightarrow> (\<Sum>j < k. (if j = n then 1 else 0) * f j) = (f n :: gf)"
proof -
  assume "n < k"
  have "(\<Sum>j < k. (if j = n then 1 else 0) * f j) = (\<Sum>j < k. (if j = n then f j else 0))"
    by (rule sum.cong) auto
  with \<open>n < k\<close> show ?thesis by (simp add: sum.delta)
qed

lemma cauchy_row_correct:
  assumes "b < r" "r + k \<le> 256" "k < 256"
  obtains row where "cauchy_row (of_nat b) (of_nat k) (of_nat r) = Some row" "length row = k"
    "\<And>j. j < k \<Longrightarrow> GF (row ! j) = coeff r b j"
proof -
  have "\<exists>c. cauchy (of_nat b) (of_nat j) (of_nat r) = Some c \<and> GF c = coeff r b j" if "j < k" for j
    using cauchy_coeff [of b r j] assms that by (metis add_strict_left_mono less_le_trans)
  then obtain c where c: "\<And>j. j < k \<Longrightarrow> cauchy (of_nat b) (of_nat j) (of_nat r) = Some (c j) \<and> GF (c j) = coeff r b j"
    by metis
  have "those (map (\<lambda>j. cauchy (of_nat b) (of_nat j) (of_nat r)) js) = Some (map c js)" if "\<forall>j \<in> set js. j < k" for js
    using that by (induction js) (simp_all add: c)
  from this [of "[0..<k]"] have "cauchy_row (of_nat b) (of_nat k) (of_nat r) = Some (map c [0..<k])"
    using assms(3) by (simp add: cauchy_row_def unat_of_nat_id)
  with c show ?thesis by (intro that) auto
qed

lemma build_rows_correct:
  assumes code: "honest_code S len r R" and grp: "honest_group S len r R A B g"
  shows "\<forall>n \<in> set ns. n < length S \<Longrightarrow> set bs \<subseteq> B \<Longrightarrow> length bs = length (filter (\<lambda>n. n \<notin> A) ns) \<Longrightarrow>
    \<exists>rows. build_rows g (map of_nat ns) (map of_nat bs) = Return (Some rows) \<and>
      list_all2 (row_ok S len r) (pick_rows A ns bs) rows"
proof (induction ns arbitrary: bs)
  case Nil
  then show ?case by simp
next
  case (Cons n ns)
  have k: "length S < 256" "r + length S \<le> 256" "\<forall>s \<in> set S. length s = len" and R: "\<forall>i < r. is_repair S len r i (R i)"
    using code by (simp_all add: honest_code_def)
  have kk: "unat (g_k g) = length S" "g_k g = of_nat (length S)" "g_r g = of_nat r"
    using grp k(1) by (simp_all add: honest_group_def unat_of_nat_id)
  have n: "n < length S" "unat (of_nat n :: u8) = n" using Cons.prems(1) k(1) by (simp_all add: unat_of_nat_id)
  show ?case
  proof (cases "n \<in> A")
    case True
    then obtain rows where rows: "build_rows g (map of_nat ns) (map of_nat bs) = Return (Some rows)"
      "list_all2 (row_ok S len r) (pick_rows A ns bs) rows" using Cons.IH [of bs] Cons.prems by auto
    have "(\<Sum>j < length S. (if j = n then 1 else 0) * GF (S ! j ! p)) = GF (S ! n ! p)" for p
      using n(1) by (rule delta_sum)
    then have "row_ok S len r (SrcSym n) ((replicate (length S) 0)[n := 1], S ! n)"
      using n(1) k(3) by (auto simp: row_ok_def nth_list_update zero_gf_def one_gf_def)
    with True rows show ?thesis
      using honest_lookup(1) [OF code grp n(1)] n kk(1) by (simp add: obind_def)
  next
    case False
    with Cons.prems(3) obtain b bs' where bs: "bs = b # bs'" "b \<in> B" using Cons.prems(2) by (cases bs) auto
    then have br: "b < r" using grp by (auto simp: honest_group_def)
    obtain rows where rows: "build_rows g (map of_nat ns) (map of_nat bs') = Return (Some rows)"
      "list_all2 (row_ok S len r) (pick_rows A ns bs') rows" using Cons.IH [of bs'] Cons.prems False bs by auto
    obtain row where row: "cauchy_row (of_nat b) (of_nat (length S)) (of_nat r) = Some row" "length row = length S"
      "\<And>j. j < length S \<Longrightarrow> GF (row ! j) = coeff r b j"
      using cauchy_row_correct [OF br k(2,1)] by blast
    have "row_ok S len r (RepSym b) (row, R b)"
      using row(2,3) R br by (simp add: row_ok_def is_repair_def)
    with False rows bs row(1) show ?thesis
      using honest_lookup(1) [OF code grp n(1)] honest_lookup(2) [OF code grp bs(2)] n kk by simp
  qed
qed

lemma pick_rows_source: "n \<in> set ns \<Longrightarrow> n \<in> A \<Longrightarrow> SrcSym n \<in> set (pick_rows A ns bs)"
  by (induction A ns bs rule: pick_rows.induct) auto

lemma pick_rows_repair:
  "b \<in> set bs \<Longrightarrow> length bs = length (filter (\<lambda>n. n \<notin> A) ns) \<Longrightarrow> RepSym b \<in> set (pick_rows A ns bs)"
proof (induction A ns bs rule: pick_rows.induct)
  case (2 A n ns bs)
  then show ?case by (cases bs) auto
qed simp

lemma length_pick_rows [simp]: "length (pick_rows A ns bs) = length ns"
  by (induction A ns bs rule: pick_rows.induct) auto

text \<open>The picked rows have a trivial kernel: the identity rows clear the known columns, and what is left is
  a square Cauchy system.\<close>

lemma picked_kernel:
  assumes small: "r + k \<le> 256" and bs: "distinct bs" "\<forall>b \<in> set bs. b < r"
    and len: "length bs = length (filter (\<lambda>n. n \<notin> A) [0..<k])"
    and ann: "\<And>y. y \<in> set (pick_rows A [0..<k] bs) \<Longrightarrow> (\<Sum>j < k. sym_coeff r y j * v j) = 0"
    and j: "j < k"
  shows "v j = 0"
proof -
  have known: "v n = 0" if "n < k" "n \<in> A" for n
  proof -
    have "(\<Sum>j < k. sym_coeff r (SrcSym n) j * v j) = 0" using that by (intro ann pick_rows_source) auto
    with that(1) show ?thesis by (simp add: delta_sum)
  qed
  define J where "J = {n. n < k \<and> n \<notin> A}"
  have J: "finite J" "J \<subseteq> {..<k}" by (auto simp: J_def)
  have "set (filter (\<lambda>n. n \<notin> A) [0..<k]) = J" by (auto simp: J_def)
  then have "card (set bs) = card J"
    using len bs(1) by (metis distinct_card distinct_filter distinct_upt)
  moreover have "(\<Sum>j \<in> J. v j / (point b - point (r + j))) = 0" if "b \<in> set bs" for b
  proof -
    have "(\<Sum>j < k. coeff r b j * v j) = 0"
      using ann [OF pick_rows_repair [OF that len]] by simp
    moreover have "(\<Sum>j < k. coeff r b j * v j) = (\<Sum>j \<in> J. v j / (point b - point (r + j)))"
      using known by (intro sum.mono_neutral_cong_right) (auto simp: J_def coeff_def)
    ultimately show ?thesis by simp
  qed
  moreover have "inj_on point (set bs)" "inj_on (\<lambda>j. point (r + j)) J"
    using bs(2) small by (auto simp: inj_on_def J_def dest!: point_inj)
  moreover have "point b \<noteq> point (r + n)" if "b \<in> set bs" "n \<in> J" for b n
    using that bs(2) small point_inj [of b "r + n"] by (fastforce simp: J_def)
  ultimately have "v n = 0" if "n \<in> J" for n
    using cauchy_kernel_trivial [of "set bs" J point "\<lambda>j. point (r + j)" v n] J(1) that by simp
  with known j show ?thesis by (auto simp: J_def)
qed

lemma rows_shape:
  assumes "list_all2 (row_ok S len r) ys rows" "length ys = length S"
  shows "shape (length S) (length S) (map fst rows)" "shape (length S) len (map snd rows)"
    and "i < length S \<Longrightarrow> row_ok S len r (ys ! i) (rows ! i)" and "length rows = length S"
proof -
  have ok: "length rows = length S" "\<And>i. i < length S \<Longrightarrow> row_ok S len r (ys ! i) (rows ! i)"
    using assms by (auto simp: list_all2_conv_all_nth)
  then show "length rows = length S" "i < length S \<Longrightarrow> row_ok S len r (ys ! i) (rows ! i)" by simp_all
  show "shape (length S) (length S) (map fst rows)" "shape (length S) len (map snd rows)"
    using ok by (simp_all add: shape_def row_ok_def all_set_conv_all_nth)
qed

text \<open>Solving the picked rows gives back every source.\<close>

lemma solve_picked:
  assumes rows: "list_all2 (row_ok S len r) (pick_rows A [0..<length S] bs) rows"
    and small: "r + length S \<le> 256" and bs: "distinct bs" "\<forall>b \<in> set bs. b < r"
    and len: "length bs = length (filter (\<lambda>n. n \<notin> A) [0..<length S])"
    and S: "\<forall>s \<in> set S. length s = len"
  obtains mat' where "gauss_rhs (length S) [0..<length S] (map fst rows) (map snd rows) = Return (Some (mat', S))"
proof -
  let ?k = "length S" and ?ys = "pick_rows A [0..<length S] bs"
  note sh = rows_shape [OF rows, simplified]
  define m where "m = join_rows (map fst rows) (map snd rows)"
  have m: "shape ?k (?k + len) m"
    using sh(1,2) by (auto simp: m_def shape_def join_rows_def set_zip)
  have left: "entry m i j = sym_coeff r (?ys ! i) j" if "i < ?k" "j < ?k" for i j
    using sh(3) [OF that(1)] that sh(4) by (simp add: m_def entry_def nth_join_rows nth_append row_ok_def)
  have right: "entry m i (?k + p) = GF (snd (rows ! i) ! p)" if "i < ?k" "p < len" for i p
    using sh(3) [OF that(1)] that sh(4) by (simp add: m_def entry_def nth_join_rows nth_append row_ok_def)
  have ker: "kernel_trivial ?k (?k + len) m"
    unfolding kernel_trivial_def
  proof (intro allI impI, elim conjE)
    fix v j assume v: "relates ?k (?k + len) m v" "\<forall>c. ?k \<le> c \<longrightarrow> v c = 0" and j: "j < ?k"
    have ann: "(\<Sum>j < ?k. sym_coeff r (?ys ! i) j * v j) = 0" if "i < ?k" for i
    proof -
      have "(\<Sum>c < ?k + len. entry m i c * v c) = (\<Sum>j < ?k. sym_coeff r (?ys ! i) j * v j)"
        using v(2) left that by (intro sum.mono_neutral_cong_right) auto
      with v(1) that show ?thesis by (simp add: relates_def)
    qed
    show "v j = 0"
    proof (rule picked_kernel [OF small bs len _ j])
      fix y assume "y \<in> set ?ys"
      then obtain i where "i < ?k" "y = ?ys ! i" by (auto simp: in_set_conv_nth)
      with ann show "(\<Sum>j < ?k. sym_coeff r y j * v j) = 0" by simp
    qed
  qed
  obtain m' where m': "gauss ?k [0..<?k] m = Return (Some m')" "units ?k ?k m'"
      "\<And>x p. ?k \<le> p \<Longrightarrow> p < ?k + len \<Longrightarrow> solves ?k m' x p \<longleftrightarrow> solves ?k m x p"
    using gauss_solves [OF m le_add1 ker] by blast
  obtain mat' rhs' where g: "gauss_rhs ?k [0..<?k] (map fst rows) (map snd rows) = Return (Some (mat', rhs'))"
      "shape ?k ?k mat'" "shape ?k len rhs'" "m' = join_rows mat' rhs'"
    using gauss_rhs_join [OF sh(1,2), of "[0..<?k]" m'] m'(1) by (auto simp: m_def)
  have "rhs' ! i ! p = S ! i ! p" if i: "i < ?k" and p: "p < len" for i p
  proof -
    have "solves ?k m (\<lambda>j. GF (S ! j ! p)) (?k + p)"
      using sh(3) p by (auto simp: solves_def left right row_ok_def)
    then have "entry m' i (?k + p) = GF (S ! i ! p)"
      using m'(3) [of "?k + p"] p by (intro solves_units [OF m'(2) _ i]) simp
    moreover have "entry m' i (?k + p) = GF (rhs' ! i ! p)"
      using g(2-4) i p by (simp add: entry_def nth_join_rows nth_append shape_def)
    ultimately show ?thesis by simp
  qed
  then have "rhs' = S" using g(3) S by (auto simp: shape_def intro!: nth_equalityI)
  with g(1) that show ?thesis by blast
qed

lemma try_recover_honest:
  assumes code: "honest_code S len r R" and grp: "honest_group S len r R A B g" and new: "\<not> g_recovered g"
    and enough: "length S \<le> card A + card B"
  shows "try_recover g =
    Return (Some (map (\<lambda>i. (of_nat i, S ! i)) (filter (\<lambda>i. i \<notin> A) [0..<length S])), g\<lparr>g_recovered := True\<rparr>)"
proof -
  have k: "length S < 256" "r < 256" "r + length S \<le> 256" "\<forall>s \<in> set S. length s = len"
    using code by (simp_all add: honest_code_def)
  have sub: "A \<subseteq> {..<length S}" "B \<subseteq> {..<r}" using grp by (simp_all add: honest_group_def)
  have fin: "finite A" "finite B" using sub by (auto intro: finite_subset)
  have cA: "card A \<le> length S" and cB: "card B \<le> r"
    using card_mono [OF _ sub(1)] card_mono [OF _ sub(2)] by simp_all
  note look = honest_lookup [OF code grp]
  have kk: "unat (g_k g) = length S" "g_k g = of_nat (length S)"
    using grp k(1) by (simp_all add: honest_group_def unat_of_nat_id)
  have cols: "filter (\<lambda>i. map_of (g_sources g) i = None) (map of_nat [0..<length S]) =
      map of_nat (filter (\<lambda>i. i \<notin> A) [0..<length S])"
    unfolding filter_map by (intro arg_cong [of _ _ "map of_nat"] filter_cong) (auto simp: look(1))
  define miss where "miss = filter (\<lambda>i. i \<notin> A) [0..<length S]"
  have miss: "length miss = length S - card A"
  proof -
    have "length miss = card ({..<length S} - A)"
      unfolding miss_def by (subst distinct_card [symmetric]) (auto intro: arg_cong [of _ _ card])
    then show ?thesis using sub(1) fin(1) by (simp add: card_Diff_subset)
  qed
  show ?thesis
  proof (cases "card A = length S")
    case True
    then have "A = {..<length S}" using sub(1) by (simp add: card_subset_eq)
    then have "miss = []" by (simp add: miss_def)
    with True show ?thesis using new kk look(3) by (simp add: try_recover_def miss_def)
  next
    case False
    then have lt: "card A < length S" using cA by simp
    have neq: "of_nat (card A) \<noteq> (of_nat (length S) :: u8)"
      using False u8_of_nat_inj [of "card A" "length S"] cA k(1) by auto
    have sum: "unat (of_nat (card A) + of_nat (card B) :: u8) = card A + card B"
      using lt cB k(3) unat_of_nat_id [of "card A + card B", where 'a = 8] by simp
    have c2: "\<not> of_nat (card A) + of_nat (card B) < (of_nat (length S) :: u8)"
      using sum enough k(1) by (simp add: word_less_nat_alt unat_of_nat_id)
    have c3: "\<not> (of_nat (card B) :: u8) < of_nat (length miss)"
      using enough miss k cB by (simp add: word_less_nat_alt unat_of_nat_id)
    define bs where "bs = map unat (take (length miss) (sort (map fst (g_repairs g))))"
    have reps: "take (length miss) (sort (map fst (g_repairs g))) = map of_nat bs"
      by (simp add: bs_def comp_def)
    have setB: "unat ` set (map fst (g_repairs g)) = B"
    proof -
      have "set (map fst (g_repairs g)) = of_nat ` B" using grp by (simp add: honest_group_def image_image)
      moreover have "unat (of_nat b :: u8) = b" if "b \<in> B" for b
        using that sub(2) k(2) by (intro unat_of_nat_id) auto
      ultimately show ?thesis by (simp add: image_image)
    qed
    have bs: "distinct bs" "set bs \<subseteq> B" "length bs = length miss"
    proof -
      have "distinct (map fst (g_repairs g))" using grp by (simp add: honest_group_def)
      then show "distinct bs" by (simp add: bs_def distinct_map inj_on_def word_unat_eq_iff)
      show "set bs \<subseteq> B" using setB set_take_subset [of "length miss" "sort (map fst (g_repairs g))"]
        by (auto simp: bs_def)
      show "length bs = length miss" using enough miss look(4) by (simp add: bs_def)
    qed
    obtain rows where rows: "build_rows g (map of_nat [0..<length S]) (map of_nat bs) = Return (Some rows)"
        "list_all2 (row_ok S len r) (pick_rows A [0..<length S] bs) rows"
      using build_rows_correct [OF code grp, of "[0..<length S]" bs] bs by (auto simp: miss_def)
    obtain mat' where "gauss_rhs (length S) [0..<length S] (map fst rows) (map snd rows) = Return (Some (mat', S))"
      using solve_picked [OF rows(2) k(3) bs(1)] bs(2,3) sub(2) k(4) by (auto simp: miss_def)
    moreover have "unat (of_nat i :: u8) = i" if "i \<in> set miss" for i
      using that k(1) by (simp add: miss_def unat_of_nat_id)
    ultimately show ?thesis
      using new kk look(3,4) neq c2 c3 cols rows(1) reps
      by (simp add: try_recover_def Let_def miss_def [symmetric] comp_def del: length_filter_map)
  qed
qed

lemma try_recover_waits:
  assumes code: "honest_code S len r R" and grp: "honest_group S len r R A B g" and new: "\<not> g_recovered g"
    and few: "card A + card B < length S"
  shows "try_recover g = Return (None, g)"
proof -
  have k: "length S < 256" using code by (simp add: honest_code_def)
  have kk: "g_k g = of_nat (length S)" using grp by (simp add: honest_group_def)
  have small: "unat (of_nat n :: u8) = n" if "n \<le> length S" for n using that k by (intro unat_of_nat_id) simp
  have "of_nat (card A) \<noteq> (of_nat (length S) :: u8)" using few k u8_of_nat_inj [of "card A" "length S"] by auto
  moreover have "of_nat (card A) + of_nat (card B) < (of_nat (length S) :: u8)"
    using few small [of "card A + card B"] small [of "length S"] by (simp add: word_less_nat_alt)
  ultimately show ?thesis
    using new kk honest_lookup(3,4) [OF code grp] by (simp add: try_recover_def Let_def)
qed

section \<open>Transmission of a group\<close>

fun push_all :: "fec_encoder \<Rightarrow> bytes list \<Rightarrow> (fec_repair_data list option list \<times> fec_encoder) outcome" where
  "push_all e [] = Return ([], e)"
| "push_all e (p # ps) =
     obind (push_source e p) (\<lambda>(res, e'). obind (push_all e' ps) (\<lambda>(rs, e''). Return (res # rs, e'')))"

text \<open>A symbol arrives: a source payload under its envelope fields, or a repair packet as bytes.\<close>

fun receive_symbol ::
  "u32 \<Rightarrow> u8 \<Rightarrow> u8 \<Rightarrow> bytes list \<Rightarrow> fec_repair_data list \<Rightarrow> fec_decoder \<Rightarrow> fec_symbol \<Rightarrow>
     ((u8 \<times> bytes) list option \<times> fec_decoder) outcome" where
  "receive_symbol gid k r S reps d (SrcSym i) = add_source d gid (of_nat i) k r (S ! i)"
| "receive_symbol gid k r S reps d (RepSym i) =
     (case repair_from_bytes (repair_to_bytes (reps ! i)) of
        None \<Rightarrow> Return (None, d)
      | Some rd \<Rightarrow> add_repair d rd)"

fun receive_all ::
  "u32 \<Rightarrow> u8 \<Rightarrow> u8 \<Rightarrow> bytes list \<Rightarrow> fec_repair_data list \<Rightarrow> fec_decoder \<Rightarrow> fec_symbol list \<Rightarrow>
     (u8 \<times> bytes) list option list outcome" where
  "receive_all gid k r S reps d [] = Return []"
| "receive_all gid k r S reps d (y # ys) =
     obind (receive_symbol gid k r S reps d y) (\<lambda>(res, d').
       obind (receive_all gid k r S reps d' ys) (\<lambda>rs. Return (res # rs)))"

definition srcs :: "fec_symbol set \<Rightarrow> nat set" where "srcs Y = {i. SrcSym i \<in> Y}"
definition reps_of :: "fec_symbol set \<Rightarrow> nat set" where "reps_of Y = {i. RepSym i \<in> Y}"

lemma repair_bytes_roundtrip:
  "length (rd_data d) = unat (rd_padded_len d) \<Longrightarrow> repair_from_bytes (repair_to_bytes d) = Some d"
  by (cases d) (simp add: repair_from_bytes_def repair_to_bytes_def FEC_REPAIR_HDR_def slice_def codec_simps nth_append)

lemma symbols_insert:
  "srcs (insert (SrcSym i) Y) = insert i (srcs Y)" "reps_of (insert (SrcSym i) Y) = reps_of Y"
  "srcs (insert (RepSym i) Y) = srcs Y" "reps_of (insert (RepSym i) Y) = insert i (reps_of Y)"
  by (auto simp: srcs_def reps_of_def)

lemma card_symbols: "finite Y \<Longrightarrow> card (srcs Y) + card (reps_of Y) = card Y"
proof -
  assume "finite Y"
  have Y: "Y = SrcSym ` srcs Y \<union> RepSym ` reps_of Y" (is "_ = ?A \<union> ?B")
  proof (rule set_eqI)
    fix y show "y \<in> Y \<longleftrightarrow> y \<in> ?A \<union> ?B" by (cases y) (auto simp: srcs_def reps_of_def)
  qed
  with \<open>finite Y\<close> have "finite ?A" "finite ?B" by (metis finite_Un)+
  moreover have "?A \<inter> ?B = {}" by auto
  ultimately have "card (?A \<union> ?B) = card ?A + card ?B" by (rule card_Un_disjoint)
  moreover have "card ?A = card (srcs Y)" "card ?B = card (reps_of Y)" by (simp_all add: card_image inj_on_def)
  ultimately show ?thesis using Y by simp
qed

lemma honest_insert_source:
  assumes "honest_code S len r R" "honest_group S len r R A B g" "i < length S" "i \<notin> A"
  shows "honest_group S len r R (insert i A) B
     (g\<lparr>g_sources := AList.update (of_nat i) (S ! i) (g_sources g)\<rparr>)"
proof -
  have "of_nat i \<notin> fst ` set (g_sources g)"
    using honest_lookup(1) [OF assms(1-3)] assms(4) by (simp add: map_of_eq_None_iff)
  then show ?thesis
    using assms(2,3) distinct_update [of "g_sources g" "of_nat i" "S ! i"]
    by (simp add: honest_group_def alist_update_fresh)
qed

lemma honest_insert_repair:
  assumes code: "honest_code S len r R" and grp: "honest_group S len r R A B g" and i: "i < r" "i \<notin> B"
  shows "honest_group S len r R A (insert i B)
     (g\<lparr>g_repairs := AList.update (of_nat i) (R i) (g_repairs g)\<rparr>)"
proof -
  have "r < 256" "B \<subseteq> {..<r}" using code grp by (simp_all add: honest_code_def honest_group_def)
  then have "(of_nat i :: u8) \<noteq> of_nat b" if "b \<in> B" for b
    using u8_of_nat_inj [of i b] i that by auto
  moreover have "fst ` set (g_repairs g) = of_nat ` B" using grp by (simp add: honest_group_def image_image)
  ultimately have "of_nat i \<notin> fst ` set (g_repairs g)" by (metis imageE)
  then show ?thesis
    using grp i(1) distinct_update [of "g_repairs g" "of_nat i" "R i"]
    by (simp add: honest_group_def alist_update_fresh)
qed

lemma add_repair_padded:
  assumes "g = (case map_of d (rd_group_id rd) of Some g \<Rightarrow> g
                | None \<Rightarrow> group_new (rd_k rd) (rd_r rd) (unat (rd_padded_len rd)))"
    and pl: "g_padded_len g = unat (rd_padded_len rd)" "length (rd_data rd) = unat (rd_padded_len rd)"
  shows "add_repair d rd =
    obind (try_recover (g\<lparr>g_repairs := AList.update (repair_idx rd) (rd_data rd) (g_repairs g)\<rparr>))
      (\<lambda>(res, g3). Return (res, AList.update (rd_group_id rd) g3 d))"
proof -
  have same: "g\<lparr>g_padded_len := unat (rd_padded_len rd), g_repairs := xs\<rparr> = g\<lparr>g_repairs := xs\<rparr>" for xs
    using pl(1) by (cases g) simp
  show ?thesis unfolding add_repair_def Let_def assms(1) [symmetric] by (simp add: pl same)
qed

lemma receive_honest:
  assumes code: "honest_code S len r R" and len: "len < 65536"
    and reps: "\<And>i. i < r \<Longrightarrow> reps ! i = \<lparr>rd_group_id = gid, repair_idx = of_nat i, rd_k = of_nat (length S),
      rd_r = of_nat r, rd_padded_len = of_nat len, rd_data = R i\<rparr>"
    and g: "g = (case map_of d gid of Some g \<Rightarrow> g | None \<Rightarrow> group_new (of_nat (length S)) (of_nat r) len)"
    and grp: "honest_group S len r R (srcs Y) (reps_of Y) g"
    and y: "y \<notin> Y" "case y of SrcSym i \<Rightarrow> i < length S | RepSym i \<Rightarrow> i < r"
  obtains g' where "honest_group S len r R (srcs (insert y Y)) (reps_of (insert y Y)) g'"
    "g_recovered g' = g_recovered g"
    "receive_symbol gid (of_nat (length S)) (of_nat r) S reps d y =
       obind (try_recover g') (\<lambda>(res, g3). Return (res, AList.update gid g3 d))"
proof (cases y)
  case (SrcSym i)
  let ?g = "g\<lparr>g_sources := AList.update (of_nat i) (S ! i) (g_sources g)\<rparr>"
  have i: "i < length S" "i \<notin> srcs Y" using y SrcSym by (simp_all add: srcs_def)
  have pl: "g_padded_len g = len" "length (S ! i) = len"
    using grp code i(1) by (simp_all add: honest_group_def honest_code_def)
  have same: "g\<lparr>g_padded_len := len, g_sources := xs\<rparr> = g\<lparr>g_sources := xs\<rparr>" for xs using pl(1) by (cases g) simp
  have "receive_symbol gid (of_nat (length S)) (of_nat r) S reps d y =
      obind (try_recover ?g) (\<lambda>(res, g3). Return (res, AList.update gid g3 d))"
    unfolding SrcSym receive_symbol.simps add_source_def pl(2) Let_def g [symmetric] by (simp add: pl same)
  with honest_insert_source [OF code grp i] show ?thesis
    by (intro that [of ?g]) (simp_all add: SrcSym symbols_insert)
next
  case (RepSym i)
  let ?g = "g\<lparr>g_repairs := AList.update (of_nat i) (R i) (g_repairs g)\<rparr>"
  have i: "i < r" "i \<notin> reps_of Y" using y RepSym by (simp_all add: reps_of_def)
  have pl: "g_padded_len g = len" "length (R i) = len" "unat (of_nat len :: u16) = len"
    using grp code i(1) len by (simp_all add: honest_group_def honest_code_def is_repair_def unat_of_nat_id)
  have f: "rd_group_id (reps ! i) = gid" "repair_idx (reps ! i) = of_nat i" "rd_k (reps ! i) = of_nat (length S)"
    "rd_r (reps ! i) = of_nat r" "rd_padded_len (reps ! i) = of_nat len" "rd_data (reps ! i) = R i"
    by (simp_all add: reps [OF i(1)])
  have rt: "repair_from_bytes (repair_to_bytes (reps ! i)) = Some (reps ! i)"
    using pl by (intro repair_bytes_roundtrip) (simp add: f)
  have ar: "add_repair d (reps ! i) = obind (try_recover ?g) (\<lambda>(res, g3). Return (res, AList.update gid g3 d))"
    by (rule add_repair_padded [of g "reps ! i" d, unfolded f pl(3), OF g pl(1,2)])
  have "receive_symbol gid (of_nat (length S)) (of_nat r) S reps d y =
      obind (try_recover ?g) (\<lambda>(res, g3). Return (res, AList.update gid g3 d))"
    using ar by (simp add: RepSym rt)
  with honest_insert_repair [OF code grp i] show ?thesis
    by (intro that [of ?g]) (simp_all add: RepSym symbols_insert)
qed

lemma receive_all_honest:
  assumes code: "honest_code S len r R" and len: "len < 65536"
    and reps: "\<And>i. i < r \<Longrightarrow> reps ! i = \<lparr>rd_group_id = gid, repair_idx = of_nat i, rd_k = of_nat (length S),
      rd_r = of_nat r, rd_padded_len = of_nat len, rd_data = R i\<rparr>"
    and "g = (case map_of d gid of Some g \<Rightarrow> g | None \<Rightarrow> group_new (of_nat (length S)) (of_nat r) len)"
    and "honest_group S len r R (srcs Y) (reps_of Y) g" and "\<not> g_recovered g"
    and "distinct ys" "set ys \<inter> Y = {}" "finite Y" "card Y + length ys = length S" "ys \<noteq> []"
    and "\<forall>y \<in> set ys. case y of SrcSym i \<Rightarrow> i < length S | RepSym i \<Rightarrow> i < r"
  shows "receive_all gid (of_nat (length S)) (of_nat r) S reps d ys =
    Return (replicate (length ys - 1) None @
      [Some (map (\<lambda>i. (of_nat i, S ! i)) (filter (\<lambda>i. SrcSym i \<notin> Y \<union> set ys) [0..<length S]))])"
  using assms(4-)
proof (induction ys arbitrary: d g Y)
  case Nil
  then show ?case by simp
next
  case (Cons y ys)
  obtain g' where g': "honest_group S len r R (srcs (insert y Y)) (reps_of (insert y Y)) g'"
      "g_recovered g' = g_recovered g"
      "receive_symbol gid (of_nat (length S)) (of_nat r) S reps d y =
        obind (try_recover g') (\<lambda>(res, g3). Return (res, AList.update gid g3 d))"
    using receive_honest [OF code len reps Cons.prems(1,2), of y] Cons.prems(5,9) by auto
  have card: "card (srcs (insert y Y)) + card (reps_of (insert y Y)) = Suc (card Y)"
    using Cons.prems(5,6) by (simp add: card_symbols)
  show ?case
  proof (cases "ys = []")
    case True
    then have "length S \<le> card (srcs (insert y Y)) + card (reps_of (insert y Y))" using Cons.prems(7) card by simp
    from try_recover_honest [OF code g'(1) _ this] Cons.prems(3) g'(2,3)
    show ?thesis by (simp add: True srcs_def insert_commute)
  next
    case False
    then have "card (srcs (insert y Y)) + card (reps_of (insert y Y)) < length S"
      using Cons.prems(7) card by (cases ys) auto
    from try_recover_waits [OF code g'(1) _ this] Cons.prems(3) g'(2,3)
    have step: "receive_symbol gid (of_nat (length S)) (of_nat r) S reps d y = Return (None, AList.update gid g' d)"
      by simp
    have "receive_all gid (of_nat (length S)) (of_nat r) S reps (AList.update gid g' d) ys =
      Return (replicate (length ys - 1) None @
        [Some (map (\<lambda>i. (of_nat i, S ! i)) (filter (\<lambda>i. SrcSym i \<notin> insert y Y \<union> set ys) [0..<length S]))])"
      using Cons.prems g' False by (intro Cons.IH [OF _ g'(1)]) (auto simp: update_conv')
    with step False show ?thesis by (cases ys) (simp_all add: conj_ac)
  qed
qed

definition repairs_of :: "u32 \<Rightarrow> bytes list \<Rightarrow> nat \<Rightarrow> nat \<Rightarrow> (nat \<Rightarrow> bytes) \<Rightarrow> fec_repair_data list" where
  "repairs_of gid S len r R =
     map (\<lambda>i. \<lparr>rd_group_id = gid, repair_idx = of_nat i, rd_k = of_nat (length S), rd_r = of_nat r,
              rd_padded_len = of_nat len, rd_data = R i\<rparr>) [0..<r]"

lemma emit_repairs_honest:
  assumes R: "\<And>i. i < r \<Longrightarrow> repair_symbol S len (of_nat (length S)) (of_nat r) (of_nat i) = Return (R i)"
    and e: "enc_sources e = S" "enc_padded_len e = len" "enc_r e = of_nat r" and r: "r < 256"
    and S: "\<forall>s \<in> set S. length s = len"
  shows "emit_repairs e (of_nat (length S)) = Return (repairs_of (enc_group_id e) S len r R,
     e\<lparr>enc_group_id := enc_group_id e + 1, enc_sources := [], enc_padded_len := 0, enc_source_idx := 0\<rparr>)"
proof -
  have pad: "map (\<lambda>s. resize s len 0) S = S" using S by (simp add: map_idI)
  have "unat (of_nat r :: u8) = r" using r by (simp add: unat_of_nat_id)
  moreover have "omap (\<lambda>i. obind (repair_symbol S len (of_nat (length S)) (of_nat r) (of_nat i)) (\<lambda>sy.
       Return \<lparr>rd_group_id = enc_group_id e, repair_idx = of_nat i, rd_k = of_nat (length S), rd_r = of_nat r,
               rd_padded_len = of_nat len, rd_data = sy\<rparr>)) [0..<r] = Return (repairs_of (enc_group_id e) S len r R)"
    unfolding repairs_of_def by (rule omap_Return) (simp add: R)
  ultimately show ?thesis by (simp add: emit_repairs_def Let_def e pad)
qed

lemma push_all_honest:
  assumes "\<And>i. i < r \<Longrightarrow> repair_symbol S len (of_nat (length S)) (of_nat r) (of_nat i) = Return (R i)"
    and "r < 256" "length S < 256" "\<forall>s \<in> set S. length s = len"
    and "S = T @ ps" "ps \<noteq> []" "enc_sources e = T" "enc_padded_len e \<le> len"
    and "enc_k e = of_nat (length S)" "enc_r e = of_nat r"
  shows "\<exists>e'. push_all e ps = Return (replicate (length ps - 1) None @ [Some (repairs_of (enc_group_id e) S len r R)], e')"
  using assms(5-)
proof (induction ps arbitrary: e T)
  case (Cons p ps)
  have k: "unat (of_nat (length S) :: u8) = length S" using assms(3) by (simp add: unat_of_nat_id)
  have p: "length p = len" using assms(4) Cons.prems(1) by simp
  let ?e = "e\<lparr>enc_padded_len := len, enc_sources := T @ [p], enc_source_idx := enc_source_idx e + 1\<rparr>"
  have mx: "max (enc_padded_len e) (length p) = len" using Cons.prems(4) p by simp
  show ?case
  proof (cases "ps = []")
    case True
    have "emit_repairs ?e (of_nat (length S)) = Return (repairs_of (enc_group_id ?e) S len r R,
        ?e\<lparr>enc_group_id := enc_group_id ?e + 1, enc_sources := [], enc_padded_len := 0, enc_source_idx := 0\<rparr>)"
      by (rule emit_repairs_honest) (use assms(1-4) Cons.prems True in simp_all)
    with True Cons.prems k mx show ?thesis by (simp add: push_source_def Let_def)
  next
    case False
    then have "Suc (length T) < length S" using Cons.prems(1) by (cases ps) simp_all
    then have step: "push_source e p = Return (None, ?e)" using Cons.prems k mx by (simp add: push_source_def Let_def)
    have "\<exists>e'. push_all ?e ps = Return (replicate (length ps - 1) None @ [Some (repairs_of (enc_group_id ?e) S len r R)], e')"
      using Cons.prems False by (intro Cons.IH [of "T @ [p]"]) simp_all
    with step False show ?thesis by (cases ps) auto
  qed
qed simp

section \<open>What the code guarantees\<close>

text \<open>C2: The code is maximum distance separable, end to end. Encode any group of \<open>k\<close> payloads of one
  length with \<open>r\<close> repair symbols (\<open>k + r\<close> at most 256). Then any \<open>k\<close> distinct symbols of the group,
  sources or serialised repairs in any order, are enough: the decoder never panics, answers nothing
  before the last of them, and then returns exactly the payloads that did not arrive.\<close>

theorem fec_any_k_symbols_recover:
  assumes "0 < length S" "length S < 256" "r < 256" "length S + r \<le> 256"
    and "\<forall>s \<in> set S. length s = len" "len < 65536"
    and "distinct ys" "length ys = length S"
    and "\<forall>y \<in> set ys. case y of SrcSym i \<Rightarrow> i < length S | RepSym i \<Rightarrow> i < r"
  shows "\<exists>reps e'. push_all (fec_encoder_new gid (of_nat (length S)) (of_nat r)) S =
      Return (replicate (length S - 1) None @ [Some reps], e') \<and> length reps = r \<and>
    receive_all gid (of_nat (length S)) (of_nat r) S reps fec_decoder_new ys =
      Return (replicate (length S - 1) None @
        [Some (map (\<lambda>i. (of_nat i, S ! i)) (filter (\<lambda>i. SrcSym i \<notin> set ys) [0..<length S]))])"
proof -
  have "\<exists>d. repair_symbol S len (of_nat (length S)) (of_nat r) (of_nat i) = Return d \<and> is_repair S len r i d"
    if "i < r" for i
    using repair_symbol_correct [OF assms(5) that] assms(2,4) by (metis add.commute)
  then obtain R where R: "\<And>i. i < r \<Longrightarrow> repair_symbol S len (of_nat (length S)) (of_nat r) (of_nat i) = Return (R i)"
      "\<And>i. i < r \<Longrightarrow> is_repair S len r i (R i)" by metis
  have code: "honest_code S len r R" using assms R(2) by (auto simp: honest_code_def)
  obtain e' where "push_all (fec_encoder_new gid (of_nat (length S)) (of_nat r)) S =
      Return (replicate (length S - 1) None @ [Some (repairs_of gid S len r R)], e')"
    using push_all_honest [OF R(1) assms(3,2,5), of "[]" S "fec_encoder_new gid (of_nat (length S)) (of_nat r)"] assms(1)
    by (auto simp: fec_encoder_new_def)
  moreover have "receive_all gid (of_nat (length S)) (of_nat r) S (repairs_of gid S len r R) fec_decoder_new ys =
      Return (replicate (length ys - 1) None @
        [Some (map (\<lambda>i. (of_nat i, S ! i)) (filter (\<lambda>i. SrcSym i \<notin> {} \<union> set ys) [0..<length S]))])"
    by (rule receive_all_honest [OF code assms(6), where Y = "{}"])
      (use assms in \<open>auto simp: repairs_of_def fec_decoder_new_def honest_group_def group_new_def srcs_def reps_of_def\<close>)
  moreover have "length (repairs_of gid S len r R) = r" by (simp add: repairs_of_def)
  ultimately show ?thesis using assms(8) by auto
qed

theorem fec_any_k_symbols_recover_witness:
  "\<exists>reps e'. push_all (fec_encoder_new 9 2 2) [[1, 2], [3, 4]] = Return ([None, Some reps], e') \<and>
    receive_all 9 2 2 [[1, 2], [3, 4]] reps fec_decoder_new [RepSym 1, RepSym 0] =
      Return [None, Some [(0, [1, 2]), (1, [3, 4])]]"
  using fec_any_k_symbols_recover [of "[[1, 2], [3, 4]]" 2 2 "[RepSym 1, RepSym 0]" 9]
  by (auto simp: upt_rec simp del: push_all.simps receive_all.simps)

text \<open>Repair packets survive the wire: parsing the bytes of a repair symbol whose data has its
  declared length gives the symbol back.\<close>

theorem repair_packet_roundtrip:
  assumes "length (rd_data d) = unat (rd_padded_len d)"
  shows "repair_from_bytes (repair_to_bytes d) = Some d"
  by (rule repair_bytes_roundtrip [OF assms])

theorem repair_packet_roundtrip_witness:
  "repair_from_bytes (repair_to_bytes \<lparr>rd_group_id = 7, repair_idx = 1, rd_k = 4, rd_r = 2, rd_padded_len = 3, rd_data = [9, 8, 7]\<rparr>)
   = Some \<lparr>rd_group_id = 7, repair_idx = 1, rd_k = 4, rd_r = 2, rd_padded_len = 3, rd_data = [9, 8, 7]\<rparr>"
  by (rule repair_packet_roundtrip) simp

text \<open>A two-payload group whose second payload is shorter: the rows the decoder builds have right-hand
  sides of different lengths.\<close>

lemma gf_inv_nonzero:
  assumes "a \<noteq> 0"
  obtains b where "gf_inv a = Some b" and "b \<noteq> 0"
proof -
  obtain b where b: "gf_inv a = Some b" "gf_mul a b = 1" using assms by (rule gf_inv_correct)
  then have "b \<noteq> 0" by auto
  with b(1) show ?thesis by (rule that)
qed

lemma gf_mul_nonzero: "a \<noteq> 0 \<Longrightarrow> b \<noteq> 0 \<Longrightarrow> gf_mul a b \<noteq> 0"
  by (metis gf_inv_correct gf_mul_assoc gf_mul_one(1) gf_mul_commute gf_mul_zero(2))

lemma short_rhs_panics:
  assumes "c0 \<noteq> 0" "c1 \<noteq> 0" "length s < length d"
  shows "gauss_rhs 2 [0, 1] [[c0, c1], [0, 1]] [d, s] = Panic"
proof -
  obtain q where q: "gf_inv c0 = Some q" "q \<noteq> 0" using assms(1) by (rule gf_inv_nonzero)
  obtain u where u: "gf_inv 1 = Some u" "u \<noteq> 0" by (rule gf_inv_nonzero [of 1]) simp
  have two: "[0..<2] = [0, 1 :: nat]" "[Suc 0..<2] = [Suc 0]" by (simp_all add: upt_rec)
  have "gf_mul c1 q \<noteq> 0" using assms(2) q(2) by (rule gf_mul_nonzero)
  then have "mul_add_slice (map (\<lambda>v. gf_mul v q) d) (map (\<lambda>v. gf_mul v u) s) (gf_mul c1 q) = Panic"
    using assms(3) by (intro mul_add_slice_panics) simp_all
  with assms q u \<open>gf_mul c1 q \<noteq> 0\<close> show ?thesis
    by (simp add: Let_def swap_rows_def two eliminate_rhs_row_def)
qed

text \<open>The equal-length requirement is real. When the second payload of a two-payload group is shorter
  than the first, the loss of the first makes the receiver panic: the decoder pads a source to the
  longest length seen when it arrives, so a later repair leaves right-hand sides of different lengths
  and the elimination indexes past the end.\<close>

theorem fec_short_source_panics:
  assumes "length s1 < length s0" "length s0 < 65536"
  shows "\<exists>reps e'. push_all (fec_encoder_new gid 2 1) [s0, s1] = Return ([None, Some reps], e') \<and>
    receive_all gid 2 1 [s0, s1] reps fec_decoder_new [SrcSym 1, RepSym 0] = Panic"
proof -
  let ?L = "length s0" and ?S = "[s0, resize s1 (length s0) 0]"
  have one: "unat (1 :: u8) = 1" "unat (2 :: u8) = 2" by simp_all
  obtain d where d: "repair_symbol ?S ?L 2 1 0 = Return d" "length d = ?L"
    using repair_symbol_correct [of ?S ?L 0 1] by (auto simp: is_repair_def)
  define rd where "rd = \<lparr>rd_group_id = gid, repair_idx = 0, rd_k = 2, rd_r = 1, rd_padded_len = of_nat ?L, rd_data = d\<rparr>"
  have pl: "unat (of_nat ?L :: u16) = ?L" using assms(2) by (simp add: unat_of_nat_id)
  have push: "\<exists>e'. push_all (fec_encoder_new gid 2 1) [s0, s1] = Return ([None, Some [rd]], e')"
    using assms(1) d(1)
    by (simp add: push_source_def fec_encoder_new_def Let_def emit_repairs_def rd_def max_def)
  have rt: "repair_from_bytes (repair_to_bytes rd) = Some rd"
    by (rule repair_bytes_roundtrip) (simp add: rd_def d pl)
  define g where "g = (group_new 2 1 (length s1))\<lparr>g_sources := [(1, s1)]\<rparr>"
  have src: "add_source fec_decoder_new gid 1 2 1 s1 = Return (None, [(gid, g)])"
    by (simp add: add_source_def fec_decoder_new_def group_new_def try_recover_def g_def Let_def)
  obtain c0 where c0: "cauchy 0 0 1 = Some c0" "c0 \<noteq> 0" unfolding cauchy_def by (rule gf_inv_nonzero [of "0 XOR (1 + 0)"]) simp_all
  obtain c1 where c1: "cauchy 0 1 1 = Some c1" "c1 \<noteq> 0" unfolding cauchy_def by (rule gf_inv_nonzero [of "0 XOR (1 + 1)"]) simp_all
  have two: "[0..<2] = [0, 1 :: nat]" "(replicate 2 (0 :: u8))[Suc 0 := 1] = [0, 1]"
    by (simp_all add: upt_rec numeral_2_eq_2)
  have "try_recover (g\<lparr>g_padded_len := ?L, g_repairs := [(0, d)]\<rparr>) = Panic"
    using short_rhs_panics [OF c0(2) c1(2), of s1 d] assms(1) d(2) c0(1) c1(1)
    by (simp add: try_recover_def g_def group_new_def Let_def two cauchy_row_def del: gauss_rhs.simps)
  then have "add_repair [(gid, g)] rd = Panic"
    using assms(1) by (simp add: add_repair_def rd_def Let_def pl g_def group_new_def d(2) max_def)
  with src rt have "receive_all gid 2 1 [s0, s1] [rd] fec_decoder_new [SrcSym 1, RepSym 0] = Panic" by simp
  with push show ?thesis by blast
qed

theorem fec_short_source_panics_witness:
  "\<exists>reps e'. push_all (fec_encoder_new 1 2 1) [[1, 2, 3], [4]] = Return ([None, Some reps], e') \<and>
    receive_all 1 2 1 [[1, 2, 3], [4]] reps fec_decoder_new [SrcSym 1, RepSym 0] = Panic"
  by (rule fec_short_source_panics) simp_all

end
