(* ===== verification/Ticket_Key.thy ===== *)
theory Ticket_Key
  imports Crypto_Prims
begin

text \<open>
  \<^verbatim>\<open>src/transport/resumption.rs\<close>: the encrypted tickets of 0-RTT resumption. The server seals the session
  identifier, the key sets of both directions and an expiry time under its ticket key; redeeming a
  ticket opens and checks it. The wall clock (in seconds) and the random nonce are arguments.
\<close>

section \<open>Tickets\<close>

definition TICKET_PLAINTEXT_LEN :: nat where "TICKET_PLAINTEXT_LEN = 8 + 76 + 76 + 8"
definition TICKET_LEN :: nat where "TICKET_LEN = TICKET_PLAINTEXT_LEN + 12 + 16"
definition TICKET_TTL_SECS :: u64 where "TICKET_TTL_SECS = 24 * 3600"

record ticket_key =
  tk_key :: bytes

definition ticket_key_new :: "bytes \<Rightarrow> ticket_key" where
  "ticket_key_new k = \<lparr>tk_key = k\<rparr>"

definition ticket_aad :: bytes where
  "ticket_aad = map of_char ''seam-ticket''"

definition issue :: "prims \<Rightarrow> u64 \<Rightarrow> bytes \<Rightarrow> ticket_key \<Rightarrow> u64 \<Rightarrow> packet_keys \<Rightarrow> packet_keys \<Rightarrow> bytes outcome" where
  "issue P unix_now nonce tk session_id keys_c2s keys_s2c =
     (let expiry = unix_now + TICKET_TTL_SECS;
          plain = u64_to_le session_id @ packet_keys_to_bytes keys_c2s @ packet_keys_to_bytes keys_s2c @
                  u64_to_le expiry
      in case chacha20poly1305_seal P (tk_key tk) nonce ticket_aad plain of
           None \<Rightarrow> Panic
         | Some ct \<Rightarrow> Return (nonce @ ct))"

definition redeem :: "prims \<Rightarrow> u64 \<Rightarrow> ticket_key \<Rightarrow> bytes \<Rightarrow> seam_error + u64 \<times> packet_keys \<times> packet_keys" where
  "redeem P unix_now tk b =
     (if length b \<noteq> TICKET_LEN then Inl (HandshakeFailed ''bad ticket length'')
      else let nonce = slice b 0 12; ct = slice b 12 (12 + TICKET_PLAINTEXT_LEN + 16)
      in case chacha20poly1305_open P (tk_key tk) nonce ticket_aad ct of
           None \<Rightarrow> Inl AuthFailed
         | Some p \<Rightarrow>
             if length p < TICKET_PLAINTEXT_LEN then Inl AuthFailed
             else case packet_keys_from_bytes (slice p 8 84) of
                 None \<Rightarrow> Inl AuthFailed
               | Some keys_c2s \<Rightarrow>
                   case packet_keys_from_bytes (slice p 84 160) of
                     None \<Rightarrow> Inl AuthFailed
                   | Some keys_s2c \<Rightarrow>
                       let session_id = of_le (slice p 0 8); expiry = of_le (slice p 160 168)
                       in if expiry \<le> unix_now then Inl (HandshakeFailed ''ticket expired'')
                          else Inr (session_id, keys_c2s, keys_s2c))"

text \<open>The client's side of a ticket.\<close>

record client_ticket =
  ct_session_id :: u64
  ct_keys_c2s :: packet_keys
  ct_keys_s2c :: packet_keys

definition client_ticket_new :: "u64 \<Rightarrow> packet_keys \<Rightarrow> packet_keys \<Rightarrow> client_ticket" where
  "client_ticket_new i c s = \<lparr>ct_session_id = i, ct_keys_c2s = c, ct_keys_s2c = s\<rparr>"

definition client_ticket_to_bytes :: "client_ticket \<Rightarrow> bytes" where
  "client_ticket_to_bytes t =
     u64_to_le (ct_session_id t) @ packet_keys_to_bytes (ct_keys_c2s t) @ packet_keys_to_bytes (ct_keys_s2c t)"

definition client_ticket_from_bytes :: "bytes \<Rightarrow> client_ticket option" where
  "client_ticket_from_bytes buf =
     (if length buf \<noteq> 8 + 76 + 76 then None
      else case packet_keys_from_bytes (slice buf 8 84) of
          None \<Rightarrow> None
        | Some c \<Rightarrow> (case packet_keys_from_bytes (slice buf 84 160) of
              None \<Rightarrow> None
            | Some s \<Rightarrow> Some \<lparr>ct_session_id = of_le (slice buf 0 8), ct_keys_c2s = c, ct_keys_s2c = s\<rparr>))"

lemmas ticket_sizes = TICKET_PLAINTEXT_LEN_def TICKET_LEN_def

section \<open>Round trips\<close>

lemma slice_fields:
  assumes "length a = 8" and "length b = 76" and "length c = 76"
  shows "slice (a @ b @ c @ d) 0 8 = a" and "slice (a @ b @ c @ d) 8 84 = b"
    and "slice (a @ b @ c @ d) 84 160 = c" and "length d = 8 \<Longrightarrow> slice (a @ b @ c @ d) 160 168 = d"
  using assms by (simp_all add: slice_def)

definition as_default_suite :: "packet_keys \<Rightarrow> packet_keys" where
  "as_default_suite k = k\<lparr>keys_cipher_suite := ChaCha20Poly1305\<rparr>"

text \<open>The client's ticket is a wire format for the key sets of the default suite.\<close>

interpretation client_ticket: byte_codec client_ticket_to_bytes client_ticket_from_bytes
  "\<lambda>t. keys_ok (ct_keys_c2s t) \<and> keys_ok (ct_keys_s2c t) \<and>
       keys_cipher_suite (ct_keys_c2s t) = ChaCha20Poly1305 \<and> keys_cipher_suite (ct_keys_s2c t) = ChaCha20Poly1305"
  160
proof
  fix t :: client_ticket
  assume t: "keys_ok (ct_keys_c2s t) \<and> keys_ok (ct_keys_s2c t) \<and>
       keys_cipher_suite (ct_keys_c2s t) = ChaCha20Poly1305 \<and> keys_cipher_suite (ct_keys_s2c t) = ChaCha20Poly1305"
  then show "length (client_ticket_to_bytes t) = 160" by (simp add: client_ticket_to_bytes_def)
  have f: "slice (client_ticket_to_bytes t) 0 8 = u64_to_le (ct_session_id t)"
    "slice (client_ticket_to_bytes t) 8 84 = packet_keys_to_bytes (ct_keys_c2s t)"
    "slice (client_ticket_to_bytes t) 84 160 = packet_keys_to_bytes (ct_keys_s2c t)"
    using t slice_fields [of "u64_to_le (ct_session_id t)" "packet_keys_to_bytes (ct_keys_c2s t)"
        "packet_keys_to_bytes (ct_keys_s2c t)" "[]"]
    by (simp_all add: client_ticket_to_bytes_def)
  show "client_ticket_from_bytes (client_ticket_to_bytes t) = Some t"
    using t \<open>length (client_ticket_to_bytes t) = 160\<close>
    by (simp add: client_ticket_from_bytes_def f keys_codec.dec_enc codec_simps)
qed

lemma redeem_sealed:
  assumes "chacha20poly1305_open P (tk_key tk) nonce ticket_aad ct =
             Some (u64_to_le i @ packet_keys_to_bytes c @ packet_keys_to_bytes s @ u64_to_le e)"
    and "keys_ok c" and "keys_ok s" and "length nonce = 12" and "length ct = TICKET_PLAINTEXT_LEN + 16"
  shows "redeem P now tk (nonce @ ct) =
           (if e \<le> now then Inl (HandshakeFailed ''ticket expired'')
            else Inr (i, as_default_suite c, as_default_suite s))"
proof -
  let ?p = "u64_to_le i @ packet_keys_to_bytes c @ packet_keys_to_bytes s @ u64_to_le e"
  have f: "slice ?p 0 8 = u64_to_le i" "slice ?p 8 84 = packet_keys_to_bytes c"
    "slice ?p 84 160 = packet_keys_to_bytes s" "slice ?p 160 168 = u64_to_le e"
    using slice_fields [of "u64_to_le i" "packet_keys_to_bytes c" "packet_keys_to_bytes s" "u64_to_le e"] assms(2,3)
    by simp_all
  have n: "slice (nonce @ ct) 0 12 = nonce" "slice (nonce @ ct) 12 (12 + TICKET_PLAINTEXT_LEN + 16) = ct"
    using assms(4,5) by (simp_all add: slice_def ticket_sizes)
  show ?thesis
    using assms unfolding redeem_def Let_def n
    by (simp add: ticket_sizes f packet_keys_bytes_roundtrip as_default_suite_def codec_simps del: append_assoc)
qed

lemma issued_ticket:
  assumes "aead_lawful P" and "length (tk_key tk) = 32" and "length nonce = 12" and "keys_ok c" and "keys_ok s"
  obtains ct where "issue P issued_at nonce tk i c s = Return (nonce @ ct)" and "length ct = TICKET_PLAINTEXT_LEN + 16"
    and "chacha20poly1305_open P (tk_key tk) nonce ticket_aad ct =
           Some (u64_to_le i @ packet_keys_to_bytes c @ packet_keys_to_bytes s @ u64_to_le (issued_at + TICKET_TTL_SECS))"
proof -
  let ?p = "u64_to_le i @ packet_keys_to_bytes c @ packet_keys_to_bytes s @ u64_to_le (issued_at + TICKET_TTL_SECS)"
  have len: "length ?p = TICKET_PLAINTEXT_LEN" using assms(4,5) by (simp add: ticket_sizes)
  then have "length ?p < 2 ^ 32" by (simp add: ticket_sizes)
  with assms(1-3) obtain ct where ct: "chacha20poly1305_seal P (tk_key tk) nonce ticket_aad ?p = Some ct"
    "length ct = length ?p + 16" "chacha20poly1305_open P (tk_key tk) nonce ticket_aad ct = Some ?p"
    unfolding aead_lawful_def aead_ok_def by blast
  with len that [of ct] show thesis by (simp add: issue_def Let_def)
qed

text \<open>Redeeming an issued ticket. Issuing never panics. The ticket redeems, any number of times and for
  exactly as long as its expiry time has not come, to the session identifier and both key sets; after
  that it is refused as expired. The cipher suite is not part of the ticket: the keys come back as
  keys of the default suite.\<close>

theorem ticket_redeem_exact:
  assumes "aead_lawful P" and "length (tk_key tk) = 32" and "length nonce = 12" and "keys_ok c" and "keys_ok s"
  shows "\<exists>b. issue P issued_at nonce tk i c s = Return b \<and> length b = TICKET_LEN \<and>
     (\<forall>now. redeem P now tk b =
        (if issued_at + TICKET_TTL_SECS \<le> now then Inl (HandshakeFailed ''ticket expired'')
         else Inr (i, as_default_suite c, as_default_suite s)))"
proof -
  obtain ct where ct: "issue P issued_at nonce tk i c s = Return (nonce @ ct)" "length ct = TICKET_PLAINTEXT_LEN + 16"
    "chacha20poly1305_open P (tk_key tk) nonce ticket_aad ct =
       Some (u64_to_le i @ packet_keys_to_bytes c @ packet_keys_to_bytes s @ u64_to_le (issued_at + TICKET_TTL_SECS))"
    by (rule issued_ticket [OF assms])
  note r = redeem_sealed [OF ct(3) assms(4,5,3) ct(2)]
  show ?thesis
    using ct(1,2) assms(3) by (intro exI [of _ "nonce @ ct"]) (simp add: r ticket_sizes)
qed

theorem ticket_redeem_exact_witness:
  "\<exists>b. issue demo_prims 1000 (replicate 12 7) (ticket_key_new (replicate 32 1)) 9 demo_keys demo_keys = Return b \<and>
     length b = TICKET_LEN \<and>
     (\<forall>now. redeem demo_prims now (ticket_key_new (replicate 32 1)) b =
        (if 1000 + TICKET_TTL_SECS \<le> now then Inl (HandshakeFailed ''ticket expired'')
         else Inr (9, as_default_suite demo_keys, as_default_suite demo_keys)))"
  using demo_keys_ok demo_prims_lawful(1)
  by (intro ticket_redeem_exact) (simp_all add: ticket_key_new_def)

text \<open>A session of the other suite therefore resumes with different keys than it had.\<close>

theorem ticket_forgets_suite:
  assumes "aead_lawful P" and "length (tk_key tk) = 32" and "length nonce = 12" and "keys_ok c" and "keys_ok s"
    and "keys_cipher_suite c = Aes256Gcm" and "now < issued_at + TICKET_TTL_SECS"
    and "issue P issued_at nonce tk i c s = Return b"
  shows "\<exists>c' s'. redeem P now tk b = Inr (i, c', s') \<and> enc_key c' = enc_key c \<and> c' \<noteq> c"
proof -
  obtain ct where ct: "issue P issued_at nonce tk i c s = Return (nonce @ ct)" "length ct = TICKET_PLAINTEXT_LEN + 16"
    "chacha20poly1305_open P (tk_key tk) nonce ticket_aad ct =
       Some (u64_to_le i @ packet_keys_to_bytes c @ packet_keys_to_bytes s @ u64_to_le (issued_at + TICKET_TTL_SECS))"
    by (rule issued_ticket [OF assms(1-5)])
  have "b = nonce @ ct" using ct(1) assms(8) by simp
  then have "redeem P now tk b = Inr (i, as_default_suite c, as_default_suite s)"
    using redeem_sealed [OF ct(3) assms(4,5,3) ct(2)] assms(7) by (simp add: not_le)
  moreover have "as_default_suite c \<noteq> c"
    using assms(6) by (metis as_default_suite_def cipher_suite.distinct(1) packet_keys.select_convs(4)
        packet_keys.surjective packet_keys.update_convs(4))
  ultimately show ?thesis by (simp add: as_default_suite_def)
qed

end
