(* ===== verification/Path_Probe.thy ===== *)
theory Path_Probe
  imports Packet
begin

text \<open>
  \<^verbatim>\<open>src/transport/probe.rs\<close>: the path prober. It searches for the path's MTU by bisection between 1280 and
  1500 bytes, and counts the keep-alive probes lost in a row. The clocks (the monotonic \<open>now\<close> in
  nanoseconds, the wall clock in microseconds) are arguments.
\<close>

section \<open>The prober\<close>

definition MIN_MTU :: nat where "MIN_MTU = 1280"
definition MAX_MTU :: nat where "MAX_MTU = 1500"
definition PROBE_INTERVAL :: duration where "PROBE_INTERVAL = secs 5"
definition PROBE_TIMEOUT :: duration where "PROBE_TIMEOUT = secs 2"
definition MIGRATION_THRESHOLD :: u32 where "MIGRATION_THRESHOLD = 3"
definition PROBE_HDR :: nat where "PROBE_HDR = 16"

lemmas probe_consts = MIN_MTU_def MAX_MTU_def PROBE_HDR_def

record pending_probe =
  pr_sent_at :: instant
  probe_size :: nat

record path_prober =
  next_probe :: instant
  pending :: "(u64 \<times> pending_probe) list"
  next_probe_id :: u64
  path_mtu :: nat
  mtu_lo :: nat
  mtu_hi :: nat
  probing_mtu :: bool
  consecutive_timeouts :: u32

definition prober_new :: "instant \<Rightarrow> path_prober" where
  "prober_new now =
     \<lparr>next_probe = now, pending = [], next_probe_id = 0, path_mtu = MIN_MTU, mtu_lo = MIN_MTU, mtu_hi = MAX_MTU,
      probing_mtu = True, consecutive_timeouts = 0\<rparr>"

definition should_probe :: "instant \<Rightarrow> path_prober \<Rightarrow> bool" where
  "should_probe now p \<longleftrightarrow> now \<ge> next_probe p"

definition probe_time_until_next :: "instant \<Rightarrow> path_prober \<Rightarrow> duration" where
  "probe_time_until_next now p = next_probe p - now"

definition build_probe :: "instant \<Rightarrow> u64 \<Rightarrow> path_prober \<Rightarrow> (u64 \<times> bytes) \<times> path_prober" where
  "build_probe now now_us p =
     (let sz = (if probing_mtu p then (mtu_lo p + mtu_hi p) div 2 else PROBE_HDR);
          i = next_probe_id p;
          payload = overwrite (overwrite (replicate (max sz PROBE_HDR) 0) 0 (u64_to_le i)) 8 (u64_to_le now_us)
      in ((i, payload),
          p\<lparr>next_probe_id := i + 1,
            pending := AList.update i \<lparr>pr_sent_at = now, probe_size = sz\<rparr> (pending p),
            next_probe := now + PROBE_INTERVAL\<rparr>))"

text \<open>The difference of two \<^verbatim>\<open>usize\<close> values, which wraps around below zero.\<close>

definition usize_sub :: "nat \<Rightarrow> nat \<Rightarrow> nat" where
  "usize_sub a b = (if b \<le> a then a - b else a + 2 ^ 64 - b)"

definition on_echo :: "instant \<Rightarrow> path_prober \<Rightarrow> bytes \<Rightarrow> duration option \<times> path_prober" where
  "on_echo now p payload =
     (if length payload < PROBE_HDR then (None, p)
      else let i = of_le (slice payload 0 8) in
        case map_of (pending p) i of
          None \<Rightarrow> (None, p)
        | Some pr \<Rightarrow>
            let p1 = p\<lparr>pending := AList.delete i (pending p), consecutive_timeouts := 0\<rparr>;
                p2 = (if probing_mtu p1
                      then let q = p1\<lparr>mtu_lo := probe_size pr\<rparr>
                           in if usize_sub (mtu_hi q) (mtu_lo q) \<le> 16
                              then q\<lparr>path_mtu := mtu_lo q, probing_mtu := False\<rparr> else q
                      else p1)
            in (Some (now - pr_sent_at pr), p2))"

definition timed_out :: "instant \<Rightarrow> pending_probe \<Rightarrow> bool" where
  "timed_out now pr \<longleftrightarrow> now - pr_sent_at pr \<ge> PROBE_TIMEOUT"

definition expire_timeouts :: "instant \<Rightarrow> path_prober \<Rightarrow> bool \<times> path_prober" where
  "expire_timeouts now p =
     (let expired = filter (\<lambda>e. timed_out now (snd e)) (pending p);
          mtu_loss = list_ex (\<lambda>e. probe_size (snd e) > PROBE_HDR) expired;
          keepalive_loss = list_ex (\<lambda>e. \<not> probe_size (snd e) > PROBE_HDR) expired;
          p1 = p\<lparr>pending := filter (\<lambda>e. \<not> timed_out now (snd e)) (pending p)\<rparr>;
          p2 = (if keepalive_loss then p1\<lparr>consecutive_timeouts := sat_add (consecutive_timeouts p1) 1\<rparr> else p1);
          p3 = (if mtu_loss \<and> probing_mtu p2 then p2\<lparr>mtu_hi := (mtu_lo p2 + mtu_hi p2) div 2\<rparr> else p2)
      in (mtu_loss, p3))"

definition should_migrate :: "path_prober \<Rightarrow> bool" where
  "should_migrate p \<longleftrightarrow> consecutive_timeouts p \<ge> MIGRATION_THRESHOLD"

definition reset_migration_state :: "path_prober \<Rightarrow> path_prober" where
  "reset_migration_state p = p\<lparr>consecutive_timeouts := 0\<rparr>"

section \<open>Probe payloads\<close>

lemma build_probe_payload:
  assumes "build_probe now us p = ((i, payload), p')"
  shows "i = next_probe_id p" and "length payload \<ge> PROBE_HDR" and "of_le (slice payload 0 8) = i"
proof -
  have i: "i = next_probe_id p" and pl: "\<exists>n. payload =
      overwrite (overwrite (replicate (max n PROBE_HDR) 0) 0 (u64_to_le i)) 8 (u64_to_le us)"
    using assms by (auto simp: build_probe_def Let_def)
  from i show "i = next_probe_id p" .
  from pl obtain n where n: "payload =
      overwrite (overwrite (replicate (max n PROBE_HDR) 0) 0 (u64_to_le i)) 8 (u64_to_le us)" by blast
  then show "length payload \<ge> PROBE_HDR" by (simp add: overwrite_def probe_consts)
  have "slice payload 0 8 = u64_to_le i" using n by (simp add: overwrite_def slice_def probe_consts)
  then show "of_le (slice payload 0 8) = i" by (simp add: codec_simps)
qed

section \<open>The search for the MTU\<close>

text \<open>
  A path of MTU \<open>m\<close> returns the echo of a probe exactly when the packet that carries the probe, header and tag included
  (\<^verbatim>\<open>encode_buf_len\<close>, as \<^verbatim>\<open>maybe_send_probe\<close> encodes it), has at most \<open>m\<close> bytes. One round of the search
  sends a probe and hands the prober either its echo or, when the packet was too large, the time-out.
\<close>

definition probe_round :: "nat \<Rightarrow> instant \<Rightarrow> u64 \<Rightarrow> path_prober \<Rightarrow> path_prober" where
  "probe_round m now us p =
     (let ((i, payload), p1) = build_probe now us p
      in if encode_buf_len (length payload) \<le> m then snd (on_echo (now + 1) p1 payload)
         else snd (expire_timeouts (now + PROBE_TIMEOUT) p1))"

lemma wire_size: "encode_buf_len n = n + 48"
  by (simp add: encode_buf_len_def packet_sizes)

text \<open>The state between two rounds: nothing is pending, and the largest payload \<open>m\<close> the path carries lies in the interval.\<close>

definition search_ok :: "nat \<Rightarrow> path_prober \<Rightarrow> bool" where
  "search_ok m p \<longleftrightarrow> pending p = [] \<and> mtu_lo p \<le> m \<and> m \<le> mtu_hi p \<and> MIN_MTU \<le> mtu_lo p \<and> mtu_hi p \<le> MAX_MTU \<and>
     (probing_mtu p \<and> path_mtu p = MIN_MTU \<or>
      \<not> probing_mtu p \<and> path_mtu p = mtu_lo p \<and> mtu_hi p - mtu_lo p \<le> 16)"

lemma probe_round_cases:
  assumes "search_ok m p" and "probing_mtu p" and "mid = (mtu_lo p + mtu_hi p) div 2"
  shows "probe_round (m + 48) now us p =
     (if mid \<le> m
      then (let q = p\<lparr>next_probe_id := next_probe_id p + 1, pending := [], next_probe := now + PROBE_INTERVAL,
                      consecutive_timeouts := 0, mtu_lo := mid\<rparr>
            in if mtu_hi p - mid \<le> 16 then q\<lparr>path_mtu := mid, probing_mtu := False\<rparr> else q)
      else p\<lparr>next_probe_id := next_probe_id p + 1, pending := [], next_probe := now + PROBE_INTERVAL, mtu_hi := mid\<rparr>)"
proof -
  obtain i payload p1 where b: "build_probe now us p = ((i, payload), p1)"
    by (metis surj_pair)
  note pl = build_probe_payload [OF b]
  have mid: "PROBE_HDR < mid" "mid \<le> mtu_hi p" "mtu_lo p \<le> mid" using assms by (auto simp: search_ok_def probe_consts)
  have p1: "p1 = p\<lparr>next_probe_id := i + 1, pending := [(i, \<lparr>pr_sent_at = now, probe_size = mid\<rparr>)],
      next_probe := now + PROBE_INTERVAL\<rparr>"
    and len: "length payload = mid"
    using b assms mid by (auto simp: build_probe_def Let_def search_ok_def overwrite_def probe_consts)
  show ?thesis
  proof (cases "mid \<le> m")
    case True
    have "snd (on_echo (now + 1) p1 payload) =
        (let q = p\<lparr>next_probe_id := i + 1, pending := [], next_probe := now + PROBE_INTERVAL, consecutive_timeouts := 0, mtu_lo := mid\<rparr>
            in if mtu_hi p - mid \<le> 16 then q\<lparr>path_mtu := mid, probing_mtu := False\<rparr> else q)"
      using pl mid assms by (simp add: on_echo_def Let_def p1 usize_sub_def)
    with True show ?thesis using len pl(1) by (simp add: probe_round_def b wire_size)
  next
    case False
    then show ?thesis
      using len pl(1) mid assms(2)
      by (simp add: probe_round_def b wire_size p1 expire_timeouts_def Let_def timed_out_def)
        (simp add: assms(3))
  qed
qed

lemma probe_round_ok: "search_ok m p \<Longrightarrow> probing_mtu p \<Longrightarrow> search_ok m (probe_round (m + 48) now us p)"
  using probe_round_cases [of m p "(mtu_lo p + mtu_hi p) div 2" now us]
  by (auto simp: search_ok_def Let_def)

text \<open>Each round halves the interval, up to rounding.\<close>

lemma probe_round_halves:
  assumes "search_ok m p" and "probing_mtu p"
  shows "mtu_hi (probe_round (m + 48) now us p) - mtu_lo (probe_round (m + 48) now us p) \<le> (mtu_hi p - mtu_lo p + 1) div 2"
  using probe_round_cases [OF assms refl, of now us] by (simp add: Let_def) linarith

fun probe_rounds :: "nat \<Rightarrow> (instant \<times> u64) list \<Rightarrow> path_prober \<Rightarrow> path_prober" where
  "probe_rounds m [] p = p"
| "probe_rounds m (c # cs) p = probe_rounds m cs (probe_round m (fst c) (snd c) p)"


lemma probe_round_keepalive:
  assumes "search_ok m p" and "\<not> probing_mtu p"
  shows "probe_round (m + 48) now us p = p\<lparr>next_probe_id := next_probe_id p + 1, next_probe := now + PROBE_INTERVAL,
    consecutive_timeouts := 0\<rparr>"
proof -
  obtain i payload p1 where b: "build_probe now us p = ((i, payload), p1)"
    by (metis surj_pair)
  note pl = build_probe_payload [OF b]
  have p1: "p1 = p\<lparr>next_probe_id := i + 1, pending := [(i, \<lparr>pr_sent_at = now, probe_size = PROBE_HDR\<rparr>)],
      next_probe := now + PROBE_INTERVAL\<rparr>" and len: "length payload = PROBE_HDR"
    using b assms by (auto simp: build_probe_def Let_def search_ok_def overwrite_def probe_consts)
  have "length payload \<le> m" using len assms(1) by (simp add: search_ok_def probe_consts)
  moreover have "pending p = []" using assms(1) by (simp add: search_ok_def)
  ultimately show ?thesis using b pl len assms(2)
    by (simp add: probe_round_def wire_size on_echo_def Let_def p1)
qed

lemma probe_round_ok_all: "search_ok m p \<Longrightarrow> search_ok m (probe_round (m + 48) now us p)"
  using probe_round_ok [of m p] probe_round_keepalive [of m p] by (cases "probing_mtu p") (auto simp: search_ok_def)

text \<open>A narrow interval is decided by the next probe, which has the size of the lower end.\<close>

lemma probe_round_converges:
  "search_ok m p \<Longrightarrow> probing_mtu p \<Longrightarrow> mtu_hi p - mtu_lo p \<le> 1 \<Longrightarrow> \<not> probing_mtu (probe_round (m + 48) now us p)"
  using probe_round_cases [of m p "(mtu_lo p + mtu_hi p) div 2" now us] by (auto simp: search_ok_def Let_def)

text \<open>How many rounds an interval of width \<open>w\<close> needs.\<close>

fun rounds_needed :: "nat \<Rightarrow> nat" where
  "rounds_needed w = (if w \<le> 1 then 1 else Suc (rounds_needed ((w + 1) div 2)))"

declare rounds_needed.simps [simp del]

lemma rounds_needed_mono: "v \<le> w \<Longrightarrow> rounds_needed v \<le> rounds_needed w"
proof (induction w arbitrary: v rule: rounds_needed.induct)
  case (1 w)
  show ?case
  proof (cases "w \<le> 1 \<or> v \<le> 1")
    case True
    with "1.prems" show ?thesis by (subst (1 2) rounds_needed.simps) auto
  next
    case False
    then have "rounds_needed ((v + 1) div 2) \<le> rounds_needed ((w + 1) div 2)"
      using "1.prems" by (intro "1.IH") auto
    with False show ?thesis by (subst (1 2) rounds_needed.simps) auto
  qed
qed

lemma probe_rounds_converge:
  "search_ok m p \<Longrightarrow> probing_mtu p \<longrightarrow> rounds_needed (mtu_hi p - mtu_lo p) \<le> length cs \<Longrightarrow>
     search_ok m (probe_rounds (m + 48) cs p) \<and> \<not> probing_mtu (probe_rounds (m + 48) cs p)"
proof (induction cs arbitrary: p)
  case Nil
  then show ?case by (auto simp: rounds_needed.simps [of "mtu_hi p - mtu_lo p"] split: if_splits)
next
  case (Cons c cs)
  let ?q = "probe_round (m + 48) (fst c) (snd c) p"
  have ok: "search_ok m ?q" using Cons.prems(1) by (rule probe_round_ok_all)
  have "probing_mtu ?q \<longrightarrow> rounds_needed (mtu_hi ?q - mtu_lo ?q) \<le> length cs"
  proof
    assume q: "probing_mtu ?q"
    then have p: "probing_mtu p"
      using probe_round_keepalive [OF Cons.prems(1), of "fst c" "snd c"] by (cases "probing_mtu p") simp_all
    have wide: "\<not> mtu_hi p - mtu_lo p \<le> 1" using q probe_round_converges [OF Cons.prems(1) p] by blast
    have "rounds_needed (mtu_hi ?q - mtu_lo ?q) \<le> rounds_needed ((mtu_hi p - mtu_lo p + 1) div 2)"
      using probe_round_halves [OF Cons.prems(1) p] by (rule rounds_needed_mono)
    also have "Suc \<dots> \<le> length (c # cs)"
      using Cons.prems(2) p wide by (simp add: rounds_needed.simps [of "mtu_hi p - mtu_lo p"])
    finally show "rounds_needed (mtu_hi ?q - mtu_lo ?q) \<le> length cs" by simp
  qed
  with Cons.IH [OF ok] show ?case by simp
qed

text \<open>C27: The search for the MTU finds the largest payload. On a path that carries exactly the packets of at most \<open>m\<close> bytes, with
  \<open>m\<close> between 1328 and 1548, a prober that is handed the echo of every probe whose packet gets through and the time-out of every other
  has stopped searching after nine rounds, at whatever times; \<^verbatim>\<open>path_mtu\<close> is then a payload size: with header and
  tag (48 bytes) it gives a packet of at most \<open>m\<close> bytes, and less than 17 bytes below \<open>m\<close>.\<close>

theorem mtu_search_converges:
  assumes "MIN_MTU + 48 \<le> m" and "m \<le> MAX_MTU + 48" and "9 \<le> length clocks"
  shows "\<not> probing_mtu (probe_rounds m clocks (prober_new start)) \<and>
    encode_buf_len (path_mtu (probe_rounds m clocks (prober_new start))) \<le> m \<and>
    m \<le> encode_buf_len (path_mtu (probe_rounds m clocks (prober_new start))) + 16"
proof -
  obtain k where k: "m = k + 48" "MIN_MTU \<le> k" "k \<le> MAX_MTU" using assms(1,2) that [of "m - 48"] by simp
  have "search_ok k (prober_new start)" using k by (simp add: search_ok_def prober_new_def)
  moreover have "rounds_needed (mtu_hi (prober_new start) - mtu_lo (prober_new start)) = 9"
    by (simp add: prober_new_def probe_consts rounds_needed.simps)
  ultimately have "search_ok k (probe_rounds m clocks (prober_new start))"
    "\<not> probing_mtu (probe_rounds m clocks (prober_new start))"
    using probe_rounds_converge [of k "prober_new start" clocks] assms(3) k(1) by simp_all
  then show ?thesis by (auto simp: search_ok_def wire_size k(1))
qed

theorem mtu_search_converges_witness:
  "\<not> probing_mtu (probe_rounds 1421 (replicate 9 (0, 0)) (prober_new 0)) \<and>
    encode_buf_len (path_mtu (probe_rounds 1421 (replicate 9 (0, 0)) (prober_new 0))) \<le> 1421 \<and>
    1421 \<le> encode_buf_len (path_mtu (probe_rounds 1421 (replicate 9 (0, 0)) (prober_new 0))) + 16"
  using mtu_search_converges [of 1421 "replicate 9 (0, 0)" 0] by (simp add: probe_consts)

text \<open>On a path that does not carry a packet with 1280 bytes of payload, as one of the smallest IPv6 MTU, every probe is lost: the search never ends, and
  \<^verbatim>\<open>path_mtu\<close> stays above what the path carries.\<close>

lemma too_large_expires:
  assumes "m < MIN_MTU + 48" and "pending p = []" "probing_mtu p" "MIN_MTU \<le> mtu_lo p" "mtu_lo p \<le> mtu_hi p"
  shows "pending (probe_round m now us p) = [] \<and> probing_mtu (probe_round m now us p) \<and> mtu_lo (probe_round m now us p) = mtu_lo p \<and>
    mtu_lo p \<le> mtu_hi (probe_round m now us p) \<and> path_mtu (probe_round m now us p) = path_mtu p"
proof -
  let ?mid = "(mtu_lo p + mtu_hi p) div 2"
  obtain i payload p1 where b: "build_probe now us p = ((i, payload), p1)" by (metis surj_pair)
  have mid: "PROBE_HDR < ?mid" "mtu_lo p \<le> ?mid" "?mid \<le> mtu_hi p" using assms by (auto simp: probe_consts)
  have p1: "p1 = p\<lparr>next_probe_id := i + 1, pending := [(i, \<lparr>pr_sent_at = now, probe_size = ?mid\<rparr>)], next_probe := now + PROBE_INTERVAL\<rparr>"
    and len: "length payload = ?mid"
    using b assms mid by (auto simp: build_probe_def Let_def overwrite_def probe_consts)
  have "\<not> encode_buf_len (length payload) \<le> m" using len mid assms by (simp add: wire_size)
  then show ?thesis using mid assms(3) by (simp add: probe_round_def b p1 expire_timeouts_def Let_def timed_out_def)
qed

theorem small_path_never_settles:
  assumes "m < MIN_MTU + 48"
  shows "probing_mtu (probe_rounds m clocks (prober_new start)) \<and> m < encode_buf_len (path_mtu (probe_rounds m clocks (prober_new start)))"
proof -
  have "probing_mtu (probe_rounds m clocks p) \<and> path_mtu (probe_rounds m clocks p) = MIN_MTU"
    if "pending p = []" "probing_mtu p" "MIN_MTU \<le> mtu_lo p" "mtu_lo p \<le> mtu_hi p" "path_mtu p = MIN_MTU" for p
    using that
  proof (induction clocks arbitrary: p)
    case (Cons c clocks)
    from too_large_expires [OF assms Cons.prems(1-4), of "fst c" "snd c"] Cons.prems show ?case by (simp add: Cons.IH)
  qed simp
  from this [of "prober_new start"] assms show ?thesis by (simp add: prober_new_def probe_consts wire_size)
qed

section \<open>Echoes out of order\<close>

text \<open>The interval is only kept in order while a single probe is under way. A probe that overtakes the expiry of an
  earlier one moves the lower end above the upper end, and the width test on the wrapped difference
  then never ends the search.\<close>

theorem late_echo_breaks_search:
  assumes "pending p = [(i, \<lparr>pr_sent_at = t, probe_size = sz\<rparr>)]" and "probing_mtu p" and "mtu_hi p < sz" and "sz < 2 ^ 63"
    and "length payload \<ge> PROBE_HDR" and "of_le (slice payload 0 8) = i"
  shows "mtu_hi (snd (on_echo now p payload)) < mtu_lo (snd (on_echo now p payload)) \<and>
    probing_mtu (snd (on_echo now p payload))"
  using assms by (simp add: on_echo_def Let_def usize_sub_def)

end
