(* ===== verification/Traffic_Shaping.thy ===== *)
theory Traffic_Shaping
  imports Packet_Codec
begin

text \<open>
  \<^verbatim>\<open>src/transport/tar.rs\<close> and \<^verbatim>\<open>src/transport/chaff.rs\<close>: size-class padding, cover traffic, jitter, header
  obfuscation, and the scheduler of chaff packets. The pseudo random numbers come from the source's
  own linear congruential generators. Two computations in floating point are left out: the rate estimate
  \<^verbatim>\<open>rate_bps\<close>, which nothing uses, and the logarithm in \<^verbatim>\<open>pseudo_exp\<close>, whose truncated sample is an
  argument.
\<close>

section \<open>Size classes and padding\<close>

datatype packet_size_class = Small | Medium | Large | Jumbo

definition classify :: "nat \<Rightarrow> packet_size_class" where
  "classify wire_len =
     (if wire_len \<le> 256 then Small else if wire_len \<le> 512 then Medium else if wire_len \<le> 1024 then Large else Jumbo)"

fun wire_size :: "packet_size_class \<Rightarrow> nat" where
  "wire_size Small = 256"
| "wire_size Medium = 512"
| "wire_size Large = 1024"
| "wire_size Jumbo = 1400"

definition lcg_next :: "u64 \<Rightarrow> u64" where
  "lcg_next lcg = lcg * 6364136223846793005 + 0x14057b7ef767814f"

fun pad_loop :: "nat \<Rightarrow> bytes \<Rightarrow> u64 \<Rightarrow> bytes \<times> u64" where
  "pad_loop 0 out lcg = (out, lcg)"
| "pad_loop (Suc n) out lcg =
     (let lcg' = lcg_next lcg in pad_loop n (out @ [ucast (drop_bit 33 lcg' AND 0xFF)]) lcg')"

definition pad_to_size_class :: "bytes \<Rightarrow> u64 \<Rightarrow> bytes \<times> u64" where
  "pad_to_size_class packet lcg =
     (let target = wire_size (classify (length packet))
      in if length packet \<ge> target then (packet, lcg)
         else pad_loop (target - length packet) packet lcg)"

lemma pad_loop_extends:
  "\<exists>pad. length pad = n \<and> fst (pad_loop n out lcg) = out @ pad"
proof (induction n arbitrary: out lcg)
  case (Suc n)
  let ?l = "lcg_next lcg" and ?b = "ucast (drop_bit 33 (lcg_next lcg) AND 0xFF) :: u8"
  obtain pad where "length pad = n" "fst (pad_loop n (out @ [?b]) ?l) = (out @ [?b]) @ pad"
    using Suc.IH by blast
  then show ?case by (intro exI [of _ "?b # pad"]) (simp add: Let_def)
qed simp

lemma pad_to_size_class_extends:
  obtains pad where "fst (pad_to_size_class w lcg) = w @ pad"
    and "length pad = wire_size (classify (length w)) - length w"
proof (cases "length w \<ge> wire_size (classify (length w))")
  case True
  then show ?thesis by (intro that [of "[]"]) (simp_all add: pad_to_size_class_def Let_def)
next
  case False
  with pad_loop_extends [of "wire_size (classify (length w)) - length w" w lcg] that show ?thesis
    by (auto simp: pad_to_size_class_def Let_def)
qed

section \<open>Cover traffic and jitter\<close>

record cover_traffic_config =
  target_kbps :: u32
  cover_packet_size :: u16

definition cover_disabled :: cover_traffic_config where
  "cover_disabled = \<lparr>target_kbps = 0, cover_packet_size = 1024\<rparr>"

definition cover_is_enabled :: "cover_traffic_config \<Rightarrow> bool" where
  "cover_is_enabled c \<longleftrightarrow> target_kbps c > 0"

definition inter_packet_interval :: "cover_traffic_config \<Rightarrow> duration option" where
  "inter_packet_interval c =
     (if target_kbps c = 0 then None
      else let bytes_per_sec = (ucast (target_kbps c) :: u64) * 1000 div 8
      in if bytes_per_sec = 0 then None
         else Some (unat (sat_mul (ucast (cover_packet_size c)) 1000000000 div bytes_per_sec)))"

record rate_tracker =
  rt_window :: duration
  samples :: "(instant \<times> nat) list"

definition rate_tracker_new :: rate_tracker where
  "rate_tracker_new = \<lparr>rt_window = millis 100, samples = []\<rparr>"

definition record_sample :: "instant \<Rightarrow> rate_tracker \<Rightarrow> nat \<Rightarrow> rate_tracker" where
  "record_sample now r n =
     (let cutoff = now - rt_window r
      in r\<lparr>samples := dropWhile (\<lambda>e. fst e < cutoff) (samples r @ [(now, n)])\<rparr>)"

record jitter_config =
  max_jitter_ms :: u32

definition jitter_disabled :: jitter_config where
  "jitter_disabled = \<lparr>max_jitter_ms = 0\<rparr>"

definition jitter_is_enabled :: "jitter_config \<Rightarrow> bool" where
  "jitter_is_enabled j \<longleftrightarrow> max_jitter_ms j > 0"

definition sample_delay :: "jitter_config \<Rightarrow> u64 \<Rightarrow> duration \<times> u64" where
  "sample_delay j lcg =
     (if max_jitter_ms j = 0 then (0, lcg)
      else let lcg' = lcg_next lcg in (millis (unat (drop_bit 33 lcg' mod ucast (max_jitter_ms j))), lcg'))"

section \<open>Header obfuscation\<close>

definition obfuscate_header :: "bytes \<Rightarrow> bytes \<Rightarrow> bytes" where
  "obfuscate_header packet secret =
     xor_bytes (take (min (length packet) 8) packet) (take (min (length packet) 8) secret) @ drop (min (length packet) 8) packet"

definition derive_obfuscation_secret :: "prims \<Rightarrow> bytes \<Rightarrow> bytes" where
  "derive_obfuscation_secret P session_key = blake3_keyed_hash P session_key (map of_char ''seam.tar.obfuscate.v1'')"

lemma length_obfuscate_header [simp]: "length (obfuscate_header p s) = length p"
  by (simp add: obfuscate_header_def)

lemma obfuscate_header_involution [simp]: "obfuscate_header (obfuscate_header p s) s = p"
proof -
  let ?n = "min (length p) 8"
  let ?h = "xor_bytes (take ?n p) (take ?n s)"
  have "length ?h = ?n" by simp
  then have "take ?n (obfuscate_header p s) = ?h" and "drop ?n (obfuscate_header p s) = drop ?n p"
    by (simp_all add: obfuscate_header_def)
  then show ?thesis by (subst obfuscate_header_def) simp
qed

section \<open>The shaping state of a connection\<close>

record tar_config =
  no_padding :: bool
  cover :: cover_traffic_config
  jitter :: jitter_config
  obfuscate :: bool

definition tar_config_disabled :: tar_config where
  "tar_config_disabled = \<lparr>no_padding = True, cover = cover_disabled, jitter = jitter_disabled, obfuscate = False\<rparr>"

definition fips_defaults :: tar_config where
  "fips_defaults = \<lparr>no_padding = False, cover = cover_disabled, jitter = jitter_disabled, obfuscate = False\<rparr>"

definition padding_enabled :: "tar_config \<Rightarrow> bool" where
  "padding_enabled c \<longleftrightarrow> \<not> no_padding c"

record tar_state =
  tar_cfg :: tar_config
  tar_lcg :: u64
  rate_tracker :: rate_tracker
  obfuscation_secret :: "bytes option"
  next_cover_at :: "instant option"

definition tar_state_new :: "tar_config \<Rightarrow> tar_state" where
  "tar_state_new c =
     \<lparr>tar_cfg = c, tar_lcg = 0x517cc1b727220a95, rate_tracker = rate_tracker_new, obfuscation_secret = None,
      next_cover_at = None\<rparr>"

definition set_session_secret :: "prims \<Rightarrow> instant \<Rightarrow> tar_state \<Rightarrow> bytes \<Rightarrow> tar_state" where
  "set_session_secret P now t session_key =
     (let t1 = (if obfuscate (tar_cfg t) then t\<lparr>obfuscation_secret := Some (derive_obfuscation_secret P session_key)\<rparr> else t)
      in case inter_packet_interval (cover (tar_cfg t1)) of
           None \<Rightarrow> t1
         | Some interval \<Rightarrow> t1\<lparr>next_cover_at := Some (now + interval)\<rparr>)"

definition maybe_pad :: "tar_state \<Rightarrow> bytes \<Rightarrow> bytes \<times> tar_state" where
  "maybe_pad t packet =
     (if padding_enabled (tar_cfg t)
      then let (out, lcg) = pad_to_size_class packet (tar_lcg t) in (out, t\<lparr>tar_lcg := lcg\<rparr>)
      else (packet, t))"

definition maybe_obfuscate :: "tar_state \<Rightarrow> bytes \<Rightarrow> bytes" where
  "maybe_obfuscate t packet =
     (case obfuscation_secret t of None \<Rightarrow> packet | Some secret \<Rightarrow> obfuscate_header packet secret)"

definition maybe_deobfuscate :: "tar_state \<Rightarrow> bytes \<Rightarrow> bytes" where
  "maybe_deobfuscate t packet =
     (case obfuscation_secret t of None \<Rightarrow> packet | Some secret \<Rightarrow> obfuscate_header packet secret)"

definition tar_jitter_delay :: "tar_state \<Rightarrow> duration \<times> tar_state" where
  "tar_jitter_delay t =
     (let (d, lcg) = sample_delay (jitter (tar_cfg t)) (tar_lcg t) in (d, t\<lparr>tar_lcg := lcg\<rparr>))"

definition on_real_send :: "instant \<Rightarrow> tar_state \<Rightarrow> nat \<Rightarrow> tar_state" where
  "on_real_send now t n =
     (let t1 = t\<lparr>rate_tracker := record_sample now (rate_tracker t) n\<rparr>
      in case (inter_packet_interval (cover (tar_cfg t1)), next_cover_at t1) of
           (Some interval, Some _) \<Rightarrow> t1\<lparr>next_cover_at := Some (now + interval)\<rparr>
         | _ \<Rightarrow> t1)"

definition should_send_cover :: "instant \<Rightarrow> tar_state \<Rightarrow> bool" where
  "should_send_cover now t = (case next_cover_at t of None \<Rightarrow> False | Some at \<Rightarrow> now \<ge> at)"

definition mark_cover_sent :: "instant \<Rightarrow> tar_state \<Rightarrow> tar_state" where
  "mark_cover_sent now t =
     (case inter_packet_interval (cover (tar_cfg t)) of
        None \<Rightarrow> t
      | Some interval \<Rightarrow> t\<lparr>next_cover_at := Some (now + interval)\<rparr>)"

fun cover_loop :: "nat \<Rightarrow> u64 \<Rightarrow> bytes \<times> u64" where
  "cover_loop 0 lcg = ([], lcg)"
| "cover_loop (Suc n) lcg =
     (let lcg' = lcg_next lcg; (bs, l) = cover_loop n lcg' in (ucast (drop_bit 33 lcg') # bs, l))"

definition cover_payload :: "tar_state \<Rightarrow> bytes \<times> tar_state" where
  "cover_payload t =
     (let (bs, lcg) = cover_loop (unat (cover_packet_size (cover (tar_cfg t)))) (tar_lcg t) in (bs, t\<lparr>tar_lcg := lcg\<rparr>))"

section \<open>Chaff\<close>

definition MAX_CHAFF_BYTES :: nat where "MAX_CHAFF_BYTES = 1400"
definition MIN_CHAFF_BYTES :: nat where "MIN_CHAFF_BYTES = 16"
definition MEAN_INTERVAL_MS :: u64 where "MEAN_INTERVAL_MS = 50"

record chaff_scheduler =
  next_send :: instant
  chaff_enabled :: bool
  chaff_lcg :: u64

definition chaff_new :: "instant \<Rightarrow> chaff_scheduler" where
  "chaff_new now = \<lparr>next_send = now, chaff_enabled = False, chaff_lcg = 0xdeadbeefcafebabe\<rparr>"

definition chaff_enable :: "chaff_scheduler \<Rightarrow> chaff_scheduler" where
  "chaff_enable c = c\<lparr>chaff_enabled := True\<rparr>"

definition chaff_disable :: "chaff_scheduler \<Rightarrow> chaff_scheduler" where
  "chaff_disable c = c\<lparr>chaff_enabled := False\<rparr>"

definition chaff_should_send :: "instant \<Rightarrow> chaff_scheduler \<Rightarrow> bool" where
  "chaff_should_send now c \<longleftrightarrow> chaff_enabled c \<and> now \<ge> next_send c"

text \<open>\<open>None\<close> is \<^verbatim>\<open>Duration::MAX\<close>.\<close>

definition chaff_time_until_next :: "instant \<Rightarrow> chaff_scheduler \<Rightarrow> duration option" where
  "chaff_time_until_next now c = (if \<not> chaff_enabled c then None else Some (next_send c - now))"

text \<open>\<open>sample\<close> gives, for a seed, the truncated exponential sample computed in floating point.\<close>

definition pseudo_exp :: "(u64 \<Rightarrow> u64) \<Rightarrow> u64 \<Rightarrow> u64 \<Rightarrow> u64" where
  "pseudo_exp sample seed mean_ms = max (mean_ms div 4) (min (sample (drop_bit 33 seed)) (mean_ms * 4))"

definition chaff_mark_sent :: "(u64 \<Rightarrow> u64) \<Rightarrow> instant \<Rightarrow> chaff_scheduler \<Rightarrow> u64 \<Rightarrow> chaff_scheduler" where
  "chaff_mark_sent sample now c send_counter =
     (let lcg = chaff_lcg c * 6364136223846793005 + (send_counter + 1);
          interval = pseudo_exp sample lcg MEAN_INTERVAL_MS
      in c\<lparr>chaff_lcg := lcg, next_send := now + millis (unat interval)\<rparr>)"

definition chaff_payload :: "u64 \<Rightarrow> bytes" where
  "chaff_payload seed = replicate (MIN_CHAFF_BYTES + unat seed mod (MAX_CHAFF_BYTES - MIN_CHAFF_BYTES + 1)) 0"

definition pad_to_mtu :: "bytes \<Rightarrow> nat \<Rightarrow> bytes" where
  "pad_to_mtu payload mtu =
     (let target_payload = mtu - (32 + 16)
      in if length payload \<ge> target_payload then payload else resize payload target_payload 0)"

definition chaff_jitter_delay :: "chaff_scheduler \<Rightarrow> duration \<times> chaff_scheduler" where
  "chaff_jitter_delay c =
     (if \<not> chaff_enabled c then (0, c)
      else let lcg = chaff_lcg c * 6364136223846793005 + 1
           in (micros (unat (drop_bit 32 lcg mod 5000)), c\<lparr>chaff_lcg := lcg\<rparr>))"


section \<open>Chaff sizes and delays\<close>

lemma length_chaff_payload: "MIN_CHAFF_BYTES \<le> length (chaff_payload seed) \<and> length (chaff_payload seed) \<le> MAX_CHAFF_BYTES"
proof -
  have "unat seed mod (MAX_CHAFF_BYTES - MIN_CHAFF_BYTES + 1) < MAX_CHAFF_BYTES - MIN_CHAFF_BYTES + 1"
    by (rule mod_less_divisor) (simp add: MAX_CHAFF_BYTES_def)
  then show ?thesis by (simp add: chaff_payload_def MAX_CHAFF_BYTES_def MIN_CHAFF_BYTES_def)
qed

lemma length_pad_to_mtu: "length (pad_to_mtu payload mtu) = max (length payload) (mtu - 48)"
  by (simp add: pad_to_mtu_def Let_def)

lemma chaff_jitter_bound: "fst (chaff_jitter_delay c) < millis 5"
proof -
  have "unat (w mod 5000) < 5000" for w :: u64
    by (simp add: unat_mod)
  then show ?thesis by (simp add: chaff_jitter_delay_def Let_def millis_def micros_def)
qed

lemma sample_delay_bound: "max_jitter_ms j \<noteq> 0 \<Longrightarrow> fst (sample_delay j lcg) < millis (unat (max_jitter_ms j))"
proof -
  assume "max_jitter_ms j \<noteq> 0"
  have up: "unat (ucast (max_jitter_ms j) :: u64) = unat (max_jitter_ms j)"
    by (simp add: unsigned_ucast_eq take_bit_nat_eq_self unsigned_less [THEN order_less_le_trans])
  with \<open>max_jitter_ms j \<noteq> 0\<close> have "0 < unat (ucast (max_jitter_ms j) :: u64)" by (simp add: unat_gt_0)
  then have "unat (w mod ucast (max_jitter_ms j) :: u64) < unat (ucast (max_jitter_ms j) :: u64)" for w
    by (simp add: unat_mod)
  then show ?thesis using \<open>max_jitter_ms j \<noteq> 0\<close>
    by (simp add: sample_delay_def Let_def millis_def flip: up)
qed

text \<open>The tracker keeps exactly the samples of the last window, when the clock does not run backwards.\<close>

lemma record_sample_window:
  assumes "sorted (map fst (samples r))" and "\<forall>e \<in> set (samples r). fst e \<le> now"
  shows "samples (record_sample now r n) = filter (\<lambda>e. fst e \<ge> now - rt_window r) (samples r @ [(now, n)])"
    and "sorted (map fst (samples (record_sample now r n)))"
proof -
  have drop: "sorted (map fst xs) \<Longrightarrow> dropWhile (\<lambda>e. fst e < c) xs = filter (\<lambda>e. fst e \<ge> c) xs"
    for xs :: "(nat \<times> nat) list" and c
    by (induction xs) (auto simp: not_less intro!: filter_True [symmetric])
  have s: "sorted (map fst (samples r @ [(now, n)]))" using assms by (auto simp: sorted_append)
  show "samples (record_sample now r n) = filter (\<lambda>e. fst e \<ge> now - rt_window r) (samples r @ [(now, n)])"
    using drop [OF s] by (simp add: record_sample_def Let_def)
  then show "sorted (map fst (samples (record_sample now r n)))"
    using s by (metis sorted_filter)
qed

section \<open>Shaping and the packet codec\<close>

lemma decode_payload_length:
  assumes "fst (decode P d b) = Inr (t, n, p)"
  shows "length p = length b - 48"
  using assms
  by (auto simp: decode_def Let_def packet_sizes overwrite_def split: if_splits sum.splits prod.splits)

lemma shaped_packet:
  assumes "obfuscation_secret tr = obfuscation_secret ts"
  shows "maybe_deobfuscate tr (maybe_obfuscate (snd (maybe_pad ts w)) (fst (maybe_pad ts w))) = fst (maybe_pad ts w)"
proof -
  have "obfuscation_secret (snd (maybe_pad ts w)) = obfuscation_secret ts"
    by (simp add: maybe_pad_def split_beta Let_def)
  then show ?thesis using assms by (simp add: maybe_deobfuscate_def maybe_obfuscate_def split: option.split)
qed

lemma maybe_pad_unchanged:
  "length (fst (maybe_pad ts w)) = length w \<longleftrightarrow>
     \<not> padding_enabled (tar_cfg ts) \<or> wire_size (classify (length w)) \<le> length w"
  "length (fst (maybe_pad ts w)) = length w \<Longrightarrow> fst (maybe_pad ts w) = w"
  "length w \<le> length (fst (maybe_pad ts w))"
proof -
  obtain pad where "fst (pad_to_size_class w (tar_lcg ts)) = w @ pad"
    "length pad = wire_size (classify (length w)) - length w" by (rule pad_to_size_class_extends)
  then show "length (fst (maybe_pad ts w)) = length w \<longleftrightarrow>
     \<not> padding_enabled (tar_cfg ts) \<or> wire_size (classify (length w)) \<le> length w"
    "length (fst (maybe_pad ts w)) = length w \<Longrightarrow> fst (maybe_pad ts w) = w"
    "length w \<le> length (fst (maybe_pad ts w))"
    by (auto simp: maybe_pad_def split_beta Let_def)
qed

text \<open>Shaping is transparent only when it pads nothing. A packet is encoded, shaped and sent; the receiver, who has
  the same obfuscation secret, undoes the obfuscation and decodes. Obfuscation never disturbs this.
  The receiver gets the payload if padding is off or the packet already has the size of its class; in every other
  case it does not, since nothing strips the padding bytes after the authentication tag.\<close>

theorem shaping_transparent_iff_unpadded:
  assumes "aead_lawful P" and "keys_ok k" and "length p + 48 \<le> 65535" and "decoder_keys d = k"
    and "replay_inv (replay d) H" and "replay_check (replay d) n = Inr ()"
    and "seal_packet P k sid t n p = Inr w" and "obfuscation_secret tr = obfuscation_secret ts"
  shows "fst (decode P d (maybe_deobfuscate tr (maybe_obfuscate (snd (maybe_pad ts w)) (fst (maybe_pad ts w))))) = Inr (t, n, p)
    \<longleftrightarrow> \<not> padding_enabled (tar_cfg ts) \<or> length w \<in> {256, 512, 1024} \<or> 1400 \<le> length w"
proof -
  have small: "length p < 2 ^ 32" using assms(3) by simp
  obtain c where c: "length c = length p + 16"
      "decrypt_in_place P (make_cipher (keys_cipher_suite k) (enc_key k)) (packet_nonce k n) (packet_header sid t n) c = Inr p"
      "seal_packet P k sid t n p = Inr (apply_header_protection P (hp_key k) (packet_header sid t n) (take 16 c) @ c)"
    by (rule seal_packet_lawful [OF assms(1,2) small])
  have w: "w = apply_header_protection P (hp_key (decoder_keys d)) (packet_header sid t n) (take 16 c) @ c"
    using c(3) assms(4,7) by simp
  then have len: "length w = length p + 48" using c(1) by simp
  obtain r where "replay_commit (replay d) n = (Inr (), r)"
    using window.check_then_commit [OF assms(5,6)] .
  then have plain: "fst (decode P d w) = Inr (t, n, p)"
    using decode_sealed(2) [OF c(1) assms(3), of P d n sid t] c(2) assms(4,6) w by simp
  have "fst (decode P d (fst (maybe_pad ts w))) = Inr (t, n, p) \<longleftrightarrow> length (fst (maybe_pad ts w)) = length w"
  proof
    assume "fst (decode P d (fst (maybe_pad ts w))) = Inr (t, n, p)"
    from decode_payload_length [OF this] maybe_pad_unchanged(3) [of w ts] len
    show "length (fst (maybe_pad ts w)) = length w" by linarith
  qed (simp only: maybe_pad_unchanged(2) plain)
  moreover have "wire_size (classify (length w)) \<le> length w \<longleftrightarrow> length w \<in> {256, 512, 1024} \<or> 1400 \<le> length w"
    by (auto simp: classify_def)
  ultimately show ?thesis
    using maybe_pad_unchanged(1) [of ts w] by (simp add: shaped_packet [OF assms(8)])
qed

theorem shaping_transparent_iff_unpadded_witness:
  "\<exists>w. seal_packet demo_prims demo_keys 7 Data 0 [1, 2, 3] = Inr w \<and>
     fst (decode demo_prims (decoder_new demo_keys)
       (maybe_deobfuscate (tar_state_new fips_defaults) (maybe_obfuscate (snd (maybe_pad (tar_state_new fips_defaults) w))
          (fst (maybe_pad (tar_state_new fips_defaults) w))))) \<noteq> Inr (Data, 0, [1, 2, 3])"
proof -
  obtain c where c: "length c = length [1, 2, 3 :: u8] + 16"
    "seal_packet demo_prims demo_keys 7 Data 0 [1, 2, 3] =
       Inr (apply_header_protection demo_prims (hp_key demo_keys) (packet_header 7 Data 0) (take 16 c) @ c)"
    by (rule seal_packet_lawful [OF demo_prims_lawful(1) demo_keys_ok, of "[1, 2, 3]"]) simp_all
  show ?thesis
    using c shaping_transparent_iff_unpadded [OF demo_prims_lawful(1) demo_keys_ok _ _ _ _ c(2), of "decoder_new demo_keys" "{}"
        "tar_state_new fips_defaults" "tar_state_new fips_defaults"]
    by (simp add: decoder_new_def replay_inv_new replay_check_spec [OF replay_inv_new] spec_verdict_def spec_base_def
        tar_state_new_def fips_defaults_def padding_enabled_def)
qed

end
