(* ===== verification/Congestion.thy ===== *)
theory Congestion
  imports Float_Ops
begin

text \<open>
  \<^verbatim>\<open>src/transport/cc.rs\<close> and \<^verbatim>\<open>src/transport/bbr.rs\<close>: the congestion controllers behind the trait
  \<^verbatim>\<open>CongestionControl\<close>. The trait is the record \<open>cc_methods\<close> and its contract the locale
  \<open>congestion_control\<close>, which CUBIC, AIMD and BBR interpret.
\<close>

section \<open>The trait\<close>

definition MSS :: u64 where "MSS = 1400"

record 'c cc_methods =
  available :: "'c \<Rightarrow> u64"
  cwnd :: "'c \<Rightarrow> u64"
  bytes_in_flight :: "'c \<Rightarrow> u64"
  cc_on_send :: "u64 \<Rightarrow> 'c \<Rightarrow> 'c"
  cc_on_ack :: "instant \<Rightarrow> u64 \<Rightarrow> duration \<Rightarrow> 'c \<Rightarrow> 'c"
  cc_on_loss :: "instant \<Rightarrow> 'c \<Rightarrow> 'c"
  cc_on_timeout :: "'c \<Rightarrow> 'c"

section \<open>CUBIC\<close>

record 'f cubic =
  cu_cwnd :: 'f
  cu_ssthresh :: 'f
  cu_in_flight :: u64
  w_max :: 'f
  w_last_max :: 'f
  epoch_start :: "instant option"
  epoch_cwnd :: 'f
  w_est :: 'f
  cu_last_rtt :: duration

definition C_CUBIC :: "'f float_ops \<Rightarrow> 'f" where "C_CUBIC F = f_lit F (4 / 10)"
definition BETA :: "'f float_ops \<Rightarrow> 'f" where "BETA F = f_lit F (7 / 10)"

definition ALPHA_CUBIC :: "'f float_ops \<Rightarrow> 'f" where
  "ALPHA_CUBIC F = f_div F (f_mul F (f_lit F 3) (BETA F)) (f_sub F (f_lit F 2) (BETA F))"

definition f_MSS :: "'f float_ops \<Rightarrow> 'f" where "f_MSS F = f_of_u64 F MSS"

definition cubic_new :: "'f float_ops \<Rightarrow> 'f cubic" where
  "cubic_new F =
     (let init = f_mul F (f_lit F 10) (f_MSS F)
      in \<lparr>cu_cwnd = init, cu_ssthresh = f_lit F (2 ^ 1024 - 2 ^ 971), cu_in_flight = 0, w_max = init, w_last_max = init,
          epoch_start = None, epoch_cwnd = init, w_est = init, cu_last_rtt = millis 100\<rparr>)"

definition cubic_window :: "'f float_ops \<Rightarrow> 'f cubic \<Rightarrow> 'f \<Rightarrow> 'f" where
  "cubic_window F c t =
     (let k = f_cbrt F (f_div F (f_mul F (w_max c) (f_sub F (f_lit F 1) (BETA F))) (C_CUBIC F))
      in f_add F (f_mul F (C_CUBIC F) (f_powi3 F (f_sub F t k))) (w_max c))"

definition tcp_friendly_window :: "'f float_ops \<Rightarrow> 'f cubic \<Rightarrow> 'f \<Rightarrow> 'f" where
  "tcp_friendly_window F c acked =
     f_add F (w_est c) (f_div F (f_mul F (f_mul F (ALPHA_CUBIC F) (f_MSS F)) acked) (cu_cwnd c))"

definition cubic_on_send :: "u64 \<Rightarrow> 'f cubic \<Rightarrow> 'f cubic" where
  "cubic_on_send b c = c\<lparr>cu_in_flight := sat_add (cu_in_flight c) b\<rparr>"

definition cubic_on_ack :: "'f float_ops \<Rightarrow> instant \<Rightarrow> u64 \<Rightarrow> duration \<Rightarrow> 'f cubic \<Rightarrow> 'f cubic" where
  "cubic_on_ack F now b rtt c =
     (let c1 = c\<lparr>cu_in_flight := sat_sub (cu_in_flight c) b, cu_last_rtt := rtt\<rparr>;
          acked = f_of_u64 F b
      in if f_lt F (cu_cwnd c1) (cu_ssthresh c1)
         then let c2 = c1\<lparr>cu_cwnd := f_add F (cu_cwnd c1) acked\<rparr>;
                  c3 = c2\<lparr>w_est := cu_cwnd c2\<rparr>
              in if f_le F (cu_ssthresh c3) (cu_cwnd c3)
                 then c3\<lparr>epoch_start := Some now, epoch_cwnd := cu_cwnd c3\<rparr> else c3
         else
           let start = (case epoch_start c1 of None \<Rightarrow> now | Some s \<Rightarrow> s);
               c2 = c1\<lparr>epoch_start := Some start\<rparr>;
               t = as_secs_f64 F (now - start);
               w_cubic = cubic_window F c2 t;
               c3 = c2\<lparr>w_est := tcp_friendly_window F c2 acked\<rparr>;
               target = f_max F w_cubic (w_est c3);
               c4 = (if f_lt F (cu_cwnd c3) target
                     then let inc = f_min F (f_sub F target (cu_cwnd c3)) (f_MSS F)
                          in c3\<lparr>cu_cwnd := f_add F (cu_cwnd c3) (f_div F (f_mul F inc acked) (cu_cwnd c3))\<rparr>
                     else c3)
           in c4\<lparr>cu_cwnd := f_max F (cu_cwnd c4) (f_MSS F)\<rparr>)"

definition cubic_on_loss :: "'f float_ops \<Rightarrow> 'f cubic \<Rightarrow> 'f cubic" where
  "cubic_on_loss F c =
     (let c1 = (if f_lt F (cu_cwnd c) (w_last_max c)
                then c\<lparr>w_last_max := cu_cwnd c,
                       w_max := f_div F (f_mul F (cu_cwnd c) (f_sub F (f_lit F 2) (BETA F))) (f_lit F 2)\<rparr>
                else c\<lparr>w_last_max := cu_cwnd c, w_max := cu_cwnd c\<rparr>);
          c2 = c1\<lparr>cu_ssthresh := f_max F (f_mul F (cu_cwnd c1) (BETA F)) (f_mul F (f_lit F 2) (f_MSS F))\<rparr>;
          c3 = c2\<lparr>cu_cwnd := cu_ssthresh c2\<rparr>
      in c3\<lparr>w_est := cu_cwnd c3, epoch_start := None,
            cu_in_flight := min (cu_in_flight c3) (f_to_u64 F (cu_cwnd c3))\<rparr>)"

definition cubic_on_timeout :: "'f float_ops \<Rightarrow> 'f cubic \<Rightarrow> 'f cubic" where
  "cubic_on_timeout F c =
     (let c1 = c\<lparr>w_max := cu_cwnd c, cu_ssthresh := f_max F (f_mul F (cu_cwnd c) (BETA F)) (f_mul F (f_lit F 2) (f_MSS F)),
                 cu_cwnd := f_MSS F\<rparr>
      in c1\<lparr>w_est := cu_cwnd c1, epoch_start := None, cu_in_flight := 0\<rparr>)"

definition cubic_methods :: "'f float_ops \<Rightarrow> 'f cubic cc_methods" where
  "cubic_methods F =
     \<lparr>available = (\<lambda>c. sat_sub (f_to_u64 F (cu_cwnd c)) (cu_in_flight c)),
      cwnd = (\<lambda>c. f_to_u64 F (cu_cwnd c)), bytes_in_flight = cu_in_flight,
      cc_on_send = cubic_on_send, cc_on_ack = cubic_on_ack F,
      cc_on_loss = (\<lambda>_. cubic_on_loss F), cc_on_timeout = cubic_on_timeout F\<rparr>"

section \<open>AIMD\<close>

record aimd =
  ai_cwnd :: u64
  ai_ssthresh :: u64
  ai_in_flight :: u64
  last_loss :: "instant option"

definition aimd_new :: aimd where
  "aimd_new = \<lparr>ai_cwnd = 10 * MSS, ai_ssthresh = - 1, ai_in_flight = 0, last_loss = None\<rparr>"

definition aimd_on_send :: "u64 \<Rightarrow> aimd \<Rightarrow> aimd" where
  "aimd_on_send b c = c\<lparr>ai_in_flight := sat_add (ai_in_flight c) b\<rparr>"

definition aimd_on_ack :: "u64 \<Rightarrow> aimd \<Rightarrow> aimd" where
  "aimd_on_ack b c =
     (let c1 = c\<lparr>ai_in_flight := sat_sub (ai_in_flight c) b\<rparr>
      in if ai_cwnd c1 < ai_ssthresh c1 then c1\<lparr>ai_cwnd := sat_add (ai_cwnd c1) b\<rparr>
         else let inc = (MSS * b) div max (ai_cwnd c1) 1 in c1\<lparr>ai_cwnd := sat_add (ai_cwnd c1) (max inc 1)\<rparr>)"

definition aimd_on_loss :: "instant \<Rightarrow> aimd \<Rightarrow> aimd" where
  "aimd_on_loss now c =
     (if (case last_loss c of None \<Rightarrow> False | Some l \<Rightarrow> now - l < millis 200) then c
      else let c1 = c\<lparr>last_loss := Some now, ai_ssthresh := max (ai_cwnd c div 2) (2 * MSS)\<rparr>
           in c1\<lparr>ai_cwnd := ai_ssthresh c1\<rparr>)"

definition aimd_on_timeout :: "aimd \<Rightarrow> aimd" where
  "aimd_on_timeout c =
     c\<lparr>ai_ssthresh := max (ai_cwnd c div 2) (2 * MSS), ai_cwnd := 2 * MSS, ai_in_flight := 0\<rparr>"

definition aimd_methods :: "aimd cc_methods" where
  "aimd_methods =
     \<lparr>available = (\<lambda>c. sat_sub (ai_cwnd c) (ai_in_flight c)), cwnd = ai_cwnd, bytes_in_flight = ai_in_flight,
      cc_on_send = aimd_on_send, cc_on_ack = (\<lambda>_ b _. aimd_on_ack b), cc_on_loss = aimd_on_loss,
      cc_on_timeout = aimd_on_timeout\<rparr>"

section \<open>BBR\<close>

datatype bbr_phase = Startup | Drain | ProbeBW | ProbeRTT

record 'f bbr =
  bb_state :: bbr_phase
  btl_bw :: 'f
  bw_samples :: "'f list"
  bw_sample_idx :: nat
  rtprop :: duration
  rtprop_stamp :: instant
  pacing_gain :: 'f
  cwnd_gain :: 'f
  probe_cycle_idx :: nat
  bb_cycle_stamp :: instant
  probe_rtt_done_stamp :: "instant option"
  bb_cwnd :: u64
  bb_in_flight :: u64
  bb_delivered :: u64
  delivered_time :: instant
  round_count :: u32
  full_pipe :: bool
  prior_bw :: 'f
  full_pipe_count :: u32

definition STARTUP_GAIN :: "'f float_ops \<Rightarrow> 'f" where "STARTUP_GAIN F = f_lit F (289 / 100)"
definition DRAIN_GAIN :: "'f float_ops \<Rightarrow> 'f" where "DRAIN_GAIN F = f_div F (f_lit F 1) (STARTUP_GAIN F)"
definition PROBE_GAINS :: "'f float_ops \<Rightarrow> 'f list" where
  "PROBE_GAINS F = map (f_lit F) [125 / 100, 75 / 100, 1, 1, 1, 1, 1, 1]"
definition BW_WINDOW_RTTS :: nat where "BW_WINDOW_RTTS = 10"
definition RTPROP_WINDOW :: duration where "RTPROP_WINDOW = secs 10"
definition PROBE_RTT_DURATION :: duration where "PROBE_RTT_DURATION = millis 200"
definition MIN_PIPE_CWND :: u64 where "MIN_PIPE_CWND = 4 * MSS"

definition bbr_new :: "'f float_ops \<Rightarrow> instant \<Rightarrow> 'f bbr" where
  "bbr_new F now =
     \<lparr>bb_state = Startup, btl_bw = f_lit F 0, bw_samples = replicate BW_WINDOW_RTTS (f_lit F 0), bw_sample_idx = 0,
      rtprop = secs 1, rtprop_stamp = now, pacing_gain = STARTUP_GAIN F, cwnd_gain = STARTUP_GAIN F,
      probe_cycle_idx = 0, bb_cycle_stamp = now, probe_rtt_done_stamp = None, bb_cwnd = 10 * MSS, bb_in_flight = 0,
      bb_delivered = 0, delivered_time = now, round_count = 0, full_pipe = False, prior_bw = f_lit F 0,
      full_pipe_count = 0\<rparr>"

definition update_bw :: "'f float_ops \<Rightarrow> 'f bbr \<Rightarrow> 'f \<Rightarrow> 'f bbr" where
  "update_bw F b sample =
     (let b1 = b\<lparr>bw_samples := (bw_samples b)[bw_sample_idx b := sample],
                 bw_sample_idx := (bw_sample_idx b + 1) mod BW_WINDOW_RTTS\<rparr>
      in b1\<lparr>btl_bw := foldl (f_max F) (f_lit F 0) (bw_samples b1)\<rparr>)"

definition update_rtprop :: "instant \<Rightarrow> 'f bbr \<Rightarrow> duration \<Rightarrow> 'f bbr" where
  "update_rtprop now b rtt =
     (let expired = now - rtprop_stamp b \<ge> RTPROP_WINDOW
      in if rtt < rtprop b \<or> expired \<or> rtprop b = secs 1 then b\<lparr>rtprop := rtt, rtprop_stamp := now\<rparr> else b)"

definition target_cwnd :: "'f float_ops \<Rightarrow> 'f bbr \<Rightarrow> 'f \<Rightarrow> u64" where
  "target_cwnd F b gain =
     (let bdp = f_mul F (btl_bw b) (as_secs_f64 F (rtprop b))
      in max (f_to_u64 F (f_mul F bdp gain)) MIN_PIPE_CWND)"

definition bbr_advance_probe_bw :: "'f float_ops \<Rightarrow> instant \<Rightarrow> 'f bbr \<Rightarrow> 'f bbr" where
  "bbr_advance_probe_bw F now b =
     (if now - bb_cycle_stamp b \<ge> rtprop b
      then let i = (probe_cycle_idx b + 1) mod length (PROBE_GAINS F)
           in b\<lparr>probe_cycle_idx := i, pacing_gain := PROBE_GAINS F ! i, cwnd_gain := f_lit F 2, bb_cycle_stamp := now\<rparr>
      else b)"

definition bbr_check_full_pipe :: "'f float_ops \<Rightarrow> 'f bbr \<Rightarrow> 'f bbr" where
  "bbr_check_full_pipe F b =
     (if full_pipe b \<or> bb_state b \<noteq> Startup then b
      else if f_le F (f_mul F (prior_bw b) (f_lit F (125 / 100))) (btl_bw b)
      then b\<lparr>prior_bw := btl_bw b, full_pipe_count := 0\<rparr>
      else let b1 = b\<lparr>full_pipe_count := full_pipe_count b + 1\<rparr>
           in if full_pipe_count b1 \<ge> 3 then b1\<lparr>full_pipe := True\<rparr> else b1)"

definition bbr_enter_drain :: "'f float_ops \<Rightarrow> 'f bbr \<Rightarrow> 'f bbr" where
  "bbr_enter_drain F b = b\<lparr>bb_state := Drain, pacing_gain := DRAIN_GAIN F, cwnd_gain := STARTUP_GAIN F\<rparr>"

definition bbr_enter_probe_bw :: "'f float_ops \<Rightarrow> instant \<Rightarrow> 'f bbr \<Rightarrow> 'f bbr" where
  "bbr_enter_probe_bw F now b =
     b\<lparr>bb_state := ProbeBW, pacing_gain := PROBE_GAINS F ! 0, cwnd_gain := f_lit F 2, probe_cycle_idx := 0,
       bb_cycle_stamp := now\<rparr>"

definition bbr_maybe_enter_probe_rtt :: "instant \<Rightarrow> 'f bbr \<Rightarrow> 'f bbr" where
  "bbr_maybe_enter_probe_rtt now b =
     (if now - rtprop_stamp b \<ge> RTPROP_WINDOW \<and> bb_state b \<noteq> ProbeRTT
      then b\<lparr>bb_state := ProbeRTT, probe_rtt_done_stamp := Some (now + PROBE_RTT_DURATION)\<rparr> else b)"

definition bbr_maybe_exit_probe_rtt :: "'f float_ops \<Rightarrow> instant \<Rightarrow> 'f bbr \<Rightarrow> 'f bbr" where
  "bbr_maybe_exit_probe_rtt F now b =
     (if bb_state b = ProbeRTT
      then case probe_rtt_done_stamp b of
             None \<Rightarrow> b
           | Some done_at \<Rightarrow> if now \<ge> done_at then bbr_enter_probe_bw F now (b\<lparr>rtprop_stamp := now\<rparr>) else b
      else b)"

definition bbr_on_send :: "u64 \<Rightarrow> 'f bbr \<Rightarrow> 'f bbr" where
  "bbr_on_send n b = b\<lparr>bb_in_flight := sat_add (bb_in_flight b) n\<rparr>"

definition bbr_transition :: "'f float_ops \<Rightarrow> instant \<Rightarrow> 'f bbr \<Rightarrow> 'f bbr" where
  "bbr_transition F now b =
     (case bb_state b of
        Startup \<Rightarrow> let b1 = bbr_check_full_pipe F b in if full_pipe b1 then bbr_enter_drain F b1 else b1
      | Drain \<Rightarrow> if bb_in_flight b \<le> target_cwnd F b (f_lit F 1) then bbr_enter_probe_bw F now b else b
      | ProbeBW \<Rightarrow> bbr_maybe_enter_probe_rtt now (bbr_advance_probe_bw F now b)
      | ProbeRTT \<Rightarrow> bbr_maybe_exit_probe_rtt F now b)"

definition bbr_on_ack :: "'f float_ops \<Rightarrow> instant \<Rightarrow> u64 \<Rightarrow> duration \<Rightarrow> 'f bbr \<Rightarrow> 'f bbr" where
  "bbr_on_ack F now n rtt b =
     (let b1 = b\<lparr>bb_in_flight := sat_sub (bb_in_flight b) n, bb_delivered := sat_add (bb_delivered b) n\<rparr>;
          interval = f_max F (as_secs_f64 F (now - delivered_time b1)) (f_lit F (1 / 1000000));
          b2 = (update_bw F b1 (f_div F (f_of_u64 F n) interval))\<lparr>delivered_time := now\<rparr>;
          b3 = bbr_transition F now (update_rtprop now b2 rtt);
          b4 = (if bb_state b3 = ProbeRTT then b3\<lparr>bb_cwnd := MIN_PIPE_CWND\<rparr>
                else b3\<lparr>bb_cwnd := target_cwnd F b3 (cwnd_gain b3)\<rparr>)
      in b4\<lparr>round_count := round_count b4 + 1\<rparr>)"

definition bbr_on_loss :: "'f float_ops \<Rightarrow> 'f bbr \<Rightarrow> 'f bbr" where
  "bbr_on_loss F b =
     b\<lparr>bb_cwnd := max (f_to_u64 F (f_mul F (f_of_u64 F (bb_cwnd b)) (f_lit F (85 / 100)))) MIN_PIPE_CWND\<rparr>"

definition bbr_on_timeout :: "'f float_ops \<Rightarrow> 'f bbr \<Rightarrow> 'f bbr" where
  "bbr_on_timeout F b =
     b\<lparr>bb_cwnd := MIN_PIPE_CWND, bb_in_flight := 0, bb_state := Startup, pacing_gain := STARTUP_GAIN F,
       cwnd_gain := STARTUP_GAIN F, full_pipe := False, full_pipe_count := 0\<rparr>"

definition bbr_methods :: "'f float_ops \<Rightarrow> 'f bbr cc_methods" where
  "bbr_methods F =
     \<lparr>available = (\<lambda>c. sat_sub (bb_cwnd c) (bb_in_flight c)), cwnd = bb_cwnd, bytes_in_flight = bb_in_flight,
      cc_on_send = bbr_on_send, cc_on_ack = bbr_on_ack F, cc_on_loss = (\<lambda>_. bbr_on_loss F),
      cc_on_timeout = bbr_on_timeout F\<rparr>"

lemmas bbr_steps = update_bw_def update_rtprop_def bbr_transition_def bbr_check_full_pipe_def bbr_enter_drain_def
  bbr_enter_probe_bw_def bbr_advance_probe_bw_def bbr_maybe_enter_probe_rtt_def bbr_maybe_exit_probe_rtt_def


section \<open>The contract of a controller\<close>

text \<open>What the connection relies on: the room is the window less the bytes in flight, sending adds to the bytes in flight
  and leaves the window alone, an acknowledgement takes away what it acknowledges and a timeout
  forgets everything in flight.\<close>

locale congestion_control =
  fixes M :: "'c cc_methods"
  assumes available_eq: "available M c = sat_sub (cwnd M c) (bytes_in_flight M c)"
    and send_flight: "bytes_in_flight M (cc_on_send M n c) = sat_add (bytes_in_flight M c) n"
    and send_cwnd: "cwnd M (cc_on_send M n c) = cwnd M c"
    and ack_flight: "bytes_in_flight M (cc_on_ack M now n rtt c) = sat_sub (bytes_in_flight M c) n"
    and timeout_flight: "bytes_in_flight M (cc_on_timeout M c) = 0"
begin

text \<open>A send that was admitted stays within the window, and is counted in full.\<close>

lemma guarded_send:
  assumes "n \<le> available M c" and "0 < n"
  shows "bytes_in_flight M (cc_on_send M n c) \<le> cwnd M (cc_on_send M n c)"
    and "unat (bytes_in_flight M (cc_on_send M n c)) = unat (bytes_in_flight M c) + unat n"
proof -
  have "unat n \<le> unat (cwnd M c) - unat (bytes_in_flight M c)" and "0 < unat n"
    using assms by (simp_all add: available_eq word_le_nat_alt unat_sat_sub unat_gt_0 word_gt_0)
  moreover have "unat (cwnd M c) < 2 ^ 64" using unsigned_less [of "cwnd M c", where 'a = nat] by simp
  ultimately show "unat (bytes_in_flight M (cc_on_send M n c)) = unat (bytes_in_flight M c) + unat n"
    and "bytes_in_flight M (cc_on_send M n c) \<le> cwnd M (cc_on_send M n c)"
    by (simp_all add: send_flight send_cwnd unat_sat_add word_le_nat_alt)
qed

text \<open>An acknowledgement of what was sent gives the room back.\<close>

lemma ack_undoes_send:
  assumes "n \<le> available M c" and "0 < n"
  shows "bytes_in_flight M (cc_on_ack M now n rtt (cc_on_send M n c)) = bytes_in_flight M c"
  using guarded_send(2) [OF assms] by (simp add: ack_flight word_unat_eq_iff unat_sat_sub)

end

lemma bbr_flight_unchanged [simp]:
  "bb_in_flight (update_bw F b x) = bb_in_flight b"
  "bb_in_flight (update_rtprop now b rtt) = bb_in_flight b"
  "bb_in_flight (bbr_transition F now b) = bb_in_flight b"
  by (simp_all add: bbr_steps Let_def split: bbr_phase.split option.split)

interpretation cubic_cc: congestion_control "cubic_methods F"
  by unfold_locales
    (simp_all add: cubic_methods_def cubic_on_send_def cubic_on_ack_def cubic_on_timeout_def Let_def)

interpretation aimd_cc: congestion_control aimd_methods
  by unfold_locales
    (simp_all add: aimd_methods_def aimd_on_send_def aimd_on_ack_def aimd_on_timeout_def Let_def)

interpretation bbr_cc: congestion_control "bbr_methods F"
  by unfold_locales
    (simp_all add: bbr_methods_def bbr_on_send_def bbr_on_ack_def bbr_on_timeout_def Let_def)

section \<open>The windows\<close>

text \<open>AIMD: the window never falls below two segments, and at least halves on a loss.\<close>

lemma aimd_floor:
  "2 * MSS \<le> ai_cwnd (aimd_on_timeout c)"
  "2 * MSS \<le> ai_cwnd c \<Longrightarrow> 2 * MSS \<le> ai_cwnd (aimd_on_loss now c)"
  "2 * MSS \<le> ai_cwnd c \<Longrightarrow> 2 * MSS \<le> ai_cwnd (aimd_on_ack n c)"
proof -
  have le: "a \<le> sat_add a b" for a b :: u64
    using unsigned_less [of a, where 'a = nat] by (simp add: word_le_nat_alt unat_sat_add)
  show "2 * MSS \<le> ai_cwnd (aimd_on_timeout c)" by (simp add: aimd_on_timeout_def)
  show "2 * MSS \<le> ai_cwnd c \<Longrightarrow> 2 * MSS \<le> ai_cwnd (aimd_on_loss now c)" by (simp add: aimd_on_loss_def Let_def)
  show "2 * MSS \<le> ai_cwnd c \<Longrightarrow> 2 * MSS \<le> ai_cwnd (aimd_on_ack n c)"
    using le order_trans by (fastforce simp: aimd_on_ack_def Let_def)
qed

text \<open>BBR: after the first event the window is never below four segments.\<close>

lemma bbr_floor:
  "MIN_PIPE_CWND \<le> bb_cwnd (bbr_on_ack F now n rtt b)"
  "MIN_PIPE_CWND \<le> bb_cwnd (bbr_on_loss F b)"
  "MIN_PIPE_CWND \<le> bb_cwnd (bbr_on_timeout F b)"
  by (simp_all add: bbr_on_ack_def bbr_on_loss_def bbr_on_timeout_def target_cwnd_def Let_def)

text \<open>The moves of BBR's state machine on one acknowledgement.\<close>

inductive bbr_move :: "bbr_phase \<Rightarrow> bbr_phase \<Rightarrow> bool" where
  stay: "bbr_move s s"
| pipe_full: "bbr_move Startup Drain"
| drained: "bbr_move Drain ProbeBW"
| rtt_stale: "bbr_move ProbeBW ProbeRTT"
| rtt_measured: "bbr_move ProbeRTT ProbeBW"

lemma bbr_transition_move: "bbr_move (bb_state b) (bb_state (bbr_transition F now b))"
  by (cases "bb_state b") (auto simp: bbr_steps Let_def intro: bbr_move.intros split: option.split)

lemma bbr_on_ack_state:
  "\<exists>b'. bb_state b' = bb_state b \<and> bb_state (bbr_on_ack F now n rtt b) = bb_state (bbr_transition F now b')"
proof -
  define b1 where "b1 = b\<lparr>bb_in_flight := sat_sub (bb_in_flight b) n, bb_delivered := sat_add (bb_delivered b) n\<rparr>"
  define x where "x = f_div F (f_of_u64 F n) (f_max F (as_secs_f64 F (now - delivered_time b1)) (f_lit F (1 / 1000000)))"
  define b' where "b' = update_rtprop now ((update_bw F b1 x)\<lparr>delivered_time := now\<rparr>) rtt"
  have "bb_state b' = bb_state b" by (simp add: b'_def update_rtprop_def update_bw_def Let_def b1_def)
  moreover have "bb_state (bbr_on_ack F now n rtt b) = bb_state (bbr_transition F now b')"
    unfolding bbr_on_ack_def Let_def b1_def [symmetric] x_def [symmetric] b'_def [symmetric] by simp
  ultimately show ?thesis by blast
qed

lemma bbr_on_ack_move: "bbr_move (bb_state b) (bb_state (bbr_on_ack F now n rtt b))"
  using bbr_on_ack_state bbr_transition_move by metis

text \<open>CUBIC restarts from a window of one segment, which has no room for a full packet: a packet of 1400 payload
  bytes is 1448 bytes long on the wire.\<close>

lemma cubic_timeout_no_room:
  assumes "float_exact F"
  shows "available (cubic_methods F) (cubic_on_timeout F c) = 1400"
proof -
  have "f_to_nat F (f_MSS F) = 1400"
    using assms by (simp add: f_MSS_def f_of_u64_def MSS_def float_exact_def)
  then show ?thesis
    by (simp add: cubic_methods_def cubic_on_timeout_def Let_def f_to_u64_def sat_sub_def)
qed

end
