(* ===== verification/Bbr_Advisory.thy ===== *)
theory Bbr_Advisory
  imports Congestion
begin

text \<open>
  \<^verbatim>\<open>src/transport/congestion.rs\<close>, \<^verbatim>\<open>rtt.rs\<close>, \<^verbatim>\<open>pacer.rs\<close> and \<^verbatim>\<open>bandwidth.rs\<close>: the advisory BBR controller with its
  windowed maximum filter, the RTT estimator, the token-bucket pacer and the bandwidth estimator.
\<close>

section \<open>Windowed maximum\<close>

record 'f max_filter =
  mf_window :: "(u64 \<times> 'f) list"
  mf_window_size :: u64

definition max_filter_new :: "u64 \<Rightarrow> 'f max_filter" where
  "max_filter_new n = \<lparr>mf_window = [], mf_window_size = n\<rparr>"

definition max_filter_update :: "'f float_ops \<Rightarrow> 'f max_filter \<Rightarrow> u64 \<Rightarrow> 'f \<Rightarrow> 'f max_filter" where
  "max_filter_update F m rnd v =
     (let w1 = dropWhile (\<lambda>e. sat_sub rnd (fst e) \<ge> mf_window_size m) (mf_window m);
          w2 = rev (dropWhile (\<lambda>e. f_le F (snd e) v) (rev w1))
      in m\<lparr>mf_window := w2 @ [(rnd, v)]\<rparr>)"

definition max_filter_max :: "'f float_ops \<Rightarrow> 'f max_filter \<Rightarrow> 'f" where
  "max_filter_max F m = (case mf_window m of [] \<Rightarrow> f_lit F 0 | e # _ \<Rightarrow> snd e)"

section \<open>The controller\<close>

record 'f bbr_controller =
  bc_btl_bw :: 'f
  bc_min_rtt :: duration
  bc_min_rtt_stamp :: instant
  bc_pacing_rate :: 'f
  bc_state :: bbr_phase
  bw_filter :: "'f max_filter"
  bc_inflight :: nat
  bc_cycle_idx :: nat
  bc_cycle_stamp :: instant
  bc_round :: u64
  bc_full_pipe :: bool
  bc_prior_bw :: 'f
  bc_full_pipe_count :: u32
  bc_probe_rtt_done :: "instant option"
  state_before_probe_rtt :: bbr_phase

definition BW_WINDOW_ROUNDS :: u64 where "BW_WINDOW_ROUNDS = 10"
definition MIN_CWND :: nat where "MIN_CWND = 4 * 1400"

definition controller_new :: "'f float_ops \<Rightarrow> instant \<Rightarrow> 'f bbr_controller" where
  "controller_new F now =
     \<lparr>bc_btl_bw = f_lit F 0, bc_min_rtt = secs 1, bc_min_rtt_stamp = now, bc_pacing_rate = f_lit F 0,
      bc_state = Startup, bw_filter = max_filter_new BW_WINDOW_ROUNDS, bc_inflight = 0, bc_cycle_idx = 0,
      bc_cycle_stamp = now, bc_round = 0, bc_full_pipe = False, bc_prior_bw = f_lit F 0, bc_full_pipe_count = 0,
      bc_probe_rtt_done = None, state_before_probe_rtt = ProbeBW\<rparr>"

definition bdp :: "'f float_ops \<Rightarrow> 'f bbr_controller \<Rightarrow> nat" where
  "bdp F c =
     (if f_eq F (bc_btl_bw c) (f_lit F 0) then MIN_CWND
      else f_to_usize F (f_ceil F (f_mul F (bc_btl_bw c) (as_secs_f64 F (bc_min_rtt c)))))"

definition controller_cwnd :: "'f float_ops \<Rightarrow> 'f bbr_controller \<Rightarrow> nat" where
  "controller_cwnd F c =
     (if bc_state c = ProbeRTT then MIN_CWND
      else let gain = (case bc_state c of Startup \<Rightarrow> STARTUP_GAIN F | Drain \<Rightarrow> DRAIN_GAIN F
                                        | ProbeBW \<Rightarrow> f_lit F 2 | ProbeRTT \<Rightarrow> f_lit F 1)
           in f_to_usize F (f_ceil F (f_mul F (f_of_nat F (bdp F c)) gain)))"

definition should_send :: "'f float_ops \<Rightarrow> 'f bbr_controller \<Rightarrow> nat \<Rightarrow> bool" where
  "should_send F c inflight \<longleftrightarrow> inflight < max (controller_cwnd F c) MIN_CWND"

definition controller_on_send :: "nat \<Rightarrow> 'f bbr_controller \<Rightarrow> 'f bbr_controller" where
  "controller_on_send n c = c\<lparr>bc_inflight := min (bc_inflight c + n) (2 ^ 64 - 1)\<rparr>"

definition update_pacing_rate :: "'f float_ops \<Rightarrow> 'f bbr_controller \<Rightarrow> 'f bbr_controller" where
  "update_pacing_rate F c =
     (let gain = (case bc_state c of Startup \<Rightarrow> STARTUP_GAIN F | Drain \<Rightarrow> DRAIN_GAIN F
                                   | ProbeBW \<Rightarrow> PROBE_GAINS F ! bc_cycle_idx c | ProbeRTT \<Rightarrow> f_lit F 1)
      in c\<lparr>bc_pacing_rate := f_mul F (bc_btl_bw c) gain\<rparr>)"

definition update_min_rtt :: "duration \<Rightarrow> instant \<Rightarrow> 'f bbr_controller \<Rightarrow> 'f bbr_controller" where
  "update_min_rtt rtt now c =
     (let expired = now - bc_min_rtt_stamp c \<ge> RTPROP_WINDOW
      in if rtt \<le> bc_min_rtt c \<or> expired \<or> bc_min_rtt c = secs 1
         then c\<lparr>bc_min_rtt := rtt, bc_min_rtt_stamp := now\<rparr> else c)"

definition check_full_pipe :: "'f float_ops \<Rightarrow> 'f \<Rightarrow> 'f bbr_controller \<Rightarrow> 'f bbr_controller" where
  "check_full_pipe F prev_bw c =
     (if bc_full_pipe c then c
      else if f_le F (f_mul F prev_bw (f_lit F (125 / 100))) (bc_btl_bw c)
      then c\<lparr>bc_prior_bw := bc_btl_bw c, bc_full_pipe_count := 0\<rparr>
      else let c1 = c\<lparr>bc_full_pipe_count := bc_full_pipe_count c + 1\<rparr>
           in if bc_full_pipe_count c1 \<ge> 3 then c1\<lparr>bc_full_pipe := True\<rparr> else c1)"

definition enter_probe_bw :: "'f float_ops \<Rightarrow> instant \<Rightarrow> 'f bbr_controller \<Rightarrow> 'f bbr_controller" where
  "enter_probe_bw F now c = update_pacing_rate F (c\<lparr>bc_state := ProbeBW, bc_cycle_idx := 0, bc_cycle_stamp := now\<rparr>)"

definition advance_probe_bw :: "'f float_ops \<Rightarrow> instant \<Rightarrow> 'f bbr_controller \<Rightarrow> 'f bbr_controller" where
  "advance_probe_bw F now c =
     (if now - bc_cycle_stamp c \<ge> bc_min_rtt c
      then update_pacing_rate F (c\<lparr>bc_cycle_idx := (bc_cycle_idx c + 1) mod length (PROBE_GAINS F), bc_cycle_stamp := now\<rparr>)
      else c)"

definition maybe_enter_probe_rtt :: "instant \<Rightarrow> 'f bbr_controller \<Rightarrow> 'f bbr_controller" where
  "maybe_enter_probe_rtt now c =
     (if now - bc_min_rtt_stamp c \<ge> RTPROP_WINDOW \<and> bc_state c \<noteq> ProbeRTT
      then c\<lparr>state_before_probe_rtt := bc_state c, bc_state := ProbeRTT,
             bc_probe_rtt_done := Some (now + PROBE_RTT_DURATION)\<rparr>
      else c)"

definition maybe_exit_probe_rtt :: "'f float_ops \<Rightarrow> instant \<Rightarrow> 'f bbr_controller \<Rightarrow> 'f bbr_controller" where
  "maybe_exit_probe_rtt F now c =
     (case bc_probe_rtt_done c of
        None \<Rightarrow> c
      | Some done_at \<Rightarrow>
          if now \<ge> done_at
          then update_pacing_rate F (c\<lparr>bc_min_rtt_stamp := now, bc_probe_rtt_done := None, bc_state := ProbeBW,
                 bc_cycle_idx := 0, bc_cycle_stamp := now\<rparr>)
          else c)"

definition controller_transition :: "'f float_ops \<Rightarrow> 'f \<Rightarrow> instant \<Rightarrow> 'f bbr_controller \<Rightarrow> 'f bbr_controller" where
  "controller_transition F prev_bw timestamp c =
     (case bc_state c of
        Startup \<Rightarrow> let c1 = check_full_pipe F prev_bw c in if bc_full_pipe c1 then c1\<lparr>bc_state := Drain\<rparr> else c1
      | Drain \<Rightarrow> if bc_inflight c \<le> bdp F c then enter_probe_bw F timestamp c else c
      | ProbeBW \<Rightarrow> maybe_enter_probe_rtt timestamp (advance_probe_bw F timestamp c)
      | ProbeRTT \<Rightarrow> maybe_exit_probe_rtt F timestamp c)"

definition controller_on_ack :: "'f float_ops \<Rightarrow> nat \<Rightarrow> duration \<Rightarrow> instant \<Rightarrow> 'f bbr_controller \<Rightarrow> 'f bbr_controller" where
  "controller_on_ack F bytes_acked rtt timestamp c =
     (let c1 = c\<lparr>bc_round := bc_round c + 1, bc_inflight := bc_inflight c - bytes_acked\<rparr>;
          c2 = update_min_rtt rtt timestamp c1;
          elapsed = f_max F (as_secs_f64 F rtt) (f_lit F (1 / 1000000));
          delivery_rate = f_div F (f_of_nat F bytes_acked) elapsed;
          prev_bw = bc_btl_bw c2;
          c3 = c2\<lparr>bw_filter := max_filter_update F (bw_filter c2) (bc_round c2) delivery_rate\<rparr>;
          c4 = c3\<lparr>bc_btl_bw := max_filter_max F (bw_filter c3)\<rparr>
      in controller_transition F prev_bw timestamp (update_pacing_rate F c4))"

section \<open>The round-trip time\<close>

record 'f rtt_estimator =
  re_srtt :: duration
  re_rttvar :: duration
  re_min_rtt :: duration
  re_last_updated :: instant
  re_initialized :: bool

definition MIN_RTO :: duration where "MIN_RTO = millis 200"
definition NO_RTT :: duration where "NO_RTT = secs (2 ^ 64 - 1)"

definition rtt_new :: "instant \<Rightarrow> 'f rtt_estimator" where
  "rtt_new now =
     \<lparr>re_srtt = millis 100, re_rttvar = millis 50, re_min_rtt = NO_RTT, re_last_updated = now, re_initialized = False\<rparr>"

definition as_micros_f64 :: "'f float_ops \<Rightarrow> duration \<Rightarrow> 'f" where
  "as_micros_f64 F d = f_of_nat F (d div 1000)"

definition rtt_update :: "'f float_ops \<Rightarrow> instant \<Rightarrow> duration \<Rightarrow> 'f rtt_estimator \<Rightarrow> 'f rtt_estimator" where
  "rtt_update F now sample e =
     (let e1 = e\<lparr>re_last_updated := now\<rparr>;
          e2 = (if sample < re_min_rtt e1 then e1\<lparr>re_min_rtt := sample\<rparr> else e1)
      in if \<not> re_initialized e2
         then e2\<lparr>re_srtt := sample, re_rttvar := sample div 2, re_initialized := True\<rparr>
         else
           let srtt_us = as_micros_f64 F (re_srtt e2);
               sample_us = as_micros_f64 F sample;
               diff = f_abs F (f_sub F srtt_us sample_us);
               rttvar_us = as_micros_f64 F (re_rttvar e2);
               new_rttvar = f_add F (f_mul F (f_sub F (f_lit F 1) (f_lit F (1 / 4))) rttvar_us) (f_mul F (f_lit F (1 / 4)) diff);
               new_srtt = f_add F (f_mul F (f_sub F (f_lit F 1) (f_lit F (1 / 8))) srtt_us) (f_mul F (f_lit F (1 / 8)) sample_us)
           in e2\<lparr>re_rttvar := micros (unat (f_to_u64 F (f_max F new_rttvar (f_lit F 1)))),
                 re_srtt := micros (unat (f_to_u64 F (f_max F new_srtt (f_lit F 1))))\<rparr>)"

definition rto :: "'f rtt_estimator \<Rightarrow> duration" where
  "rto e = max (re_srtt e + 4 * re_rttvar e) MIN_RTO"

definition rtt_min :: "'f rtt_estimator \<Rightarrow> duration" where
  "rtt_min e = (if re_min_rtt e = NO_RTT then re_srtt e else re_min_rtt e)"

section \<open>Pacing\<close>

record 'f pacer =
  pc_tokens :: 'f
  pc_rate :: 'f
  pc_max_burst :: 'f
  pc_last_refill :: instant

definition DEFAULT_MAX_BURST :: nat where "DEFAULT_MAX_BURST = 16 * 1400"
definition MIN_RATE_BYTES_PER_SEC :: nat where "MIN_RATE_BYTES_PER_SEC = 32 * 1024"

definition pacer_new :: "'f float_ops \<Rightarrow> instant \<Rightarrow> 'f pacer" where
  "pacer_new F now =
     \<lparr>pc_tokens = f_of_nat F DEFAULT_MAX_BURST, pc_rate = f_of_nat F MIN_RATE_BYTES_PER_SEC,
      pc_max_burst = f_of_nat F DEFAULT_MAX_BURST, pc_last_refill = now\<rparr>"

definition pacer_update_rate :: "'f float_ops \<Rightarrow> u64 \<Rightarrow> duration \<Rightarrow> 'f pacer \<Rightarrow> 'f pacer" where
  "pacer_update_rate F cwnd_bytes srtt p =
     (let srtt_secs = f_max F (as_secs_f64 F srtt) (f_lit F (1 / 1000));
          rate = f_div F (f_of_u64 F cwnd_bytes) srtt_secs
      in p\<lparr>pc_rate := f_max F rate (f_of_nat F MIN_RATE_BYTES_PER_SEC),
           pc_max_burst := f_max F (f_of_u64 F cwnd_bytes) (f_of_nat F DEFAULT_MAX_BURST)\<rparr>)"

definition pacer_refill :: "'f float_ops \<Rightarrow> instant \<Rightarrow> 'f pacer \<Rightarrow> 'f pacer" where
  "pacer_refill F now p =
     (let elapsed = as_secs_f64 F (now - pc_last_refill p)
      in p\<lparr>pc_tokens := f_min F (f_add F (pc_tokens p) (f_mul F (pc_rate p) elapsed)) (pc_max_burst p), pc_last_refill := now\<rparr>)"

definition pacer_available :: "'f float_ops \<Rightarrow> instant \<Rightarrow> 'f pacer \<Rightarrow> u64 \<times> 'f pacer" where
  "pacer_available F now p = (let p1 = pacer_refill F now p in (f_to_u64 F (pc_tokens p1), p1))"

definition pacer_consume :: "'f float_ops \<Rightarrow> u64 \<Rightarrow> 'f pacer \<Rightarrow> 'f pacer" where
  "pacer_consume F n p = p\<lparr>pc_tokens := f_max F (f_sub F (pc_tokens p) (f_of_u64 F n)) (f_lit F 0)\<rparr>"

section \<open>Bandwidth\<close>

record 'f bandwidth_estimator =
  bw_est_samples :: "('f \<times> instant) list"
  bw_est_window :: duration

definition bandwidth_new :: "duration \<Rightarrow> 'f bandwidth_estimator" where
  "bandwidth_new w = \<lparr>bw_est_samples = [], bw_est_window = w\<rparr>"

definition bandwidth_evict :: "instant \<Rightarrow> 'f bandwidth_estimator \<Rightarrow> 'f bandwidth_estimator" where
  "bandwidth_evict now b =
     b\<lparr>bw_est_samples := dropWhile (\<lambda>e. snd e < now - bw_est_window b) (bw_est_samples b)\<rparr>"

definition record_delivery :: "'f float_ops \<Rightarrow> instant \<Rightarrow> 'f bandwidth_estimator \<Rightarrow> nat \<Rightarrow> duration \<Rightarrow> 'f bandwidth_estimator" where
  "record_delivery F now b n elapsed =
     (let elapsed_secs = as_secs_f64 F elapsed
      in if f_le F elapsed_secs (f_lit F 0) then b
         else bandwidth_evict now (b\<lparr>bw_est_samples := bw_est_samples b @ [(f_div F (f_of_nat F n) elapsed_secs, now)]\<rparr>))"

definition bandwidth_estimate :: "'f float_ops \<Rightarrow> 'f bandwidth_estimator \<Rightarrow> 'f" where
  "bandwidth_estimate F b = foldl (f_max F) (f_lit F 0) (map fst (bw_est_samples b))"


section \<open>The filter computes the maximum of the window\<close>

text \<open>Without a NaN, the comparison of floating-point values is a total order.\<close>

definition float_linear :: "'f float_ops \<Rightarrow> bool" where
  "float_linear F \<longleftrightarrow> (\<forall>x. f_le F x x) \<and> (\<forall>x y z. f_le F x y \<longrightarrow> f_le F y z \<longrightarrow> f_le F x z) \<and>
     (\<forall>x y. f_le F x y \<or> f_le F y x)"

lemma float_linearD:
  assumes "float_linear F"
  shows "f_le F x x" and "f_le F x y \<Longrightarrow> f_le F y z \<Longrightarrow> f_le F x z" and "\<not> f_le F x y \<Longrightarrow> f_le F y x"
  using assms unfolding float_linear_def by blast+

text \<open>The reference: the samples that no later sample matches or exceeds.\<close>

fun suffix_maxima :: "'f float_ops \<Rightarrow> (u64 \<times> 'f) list \<Rightarrow> (u64 \<times> 'f) list" where
  "suffix_maxima F [] = []"
| "suffix_maxima F (x # xs) =
     (if \<exists>y \<in> set xs. f_le F (snd x) (snd y) then suffix_maxima F xs else x # suffix_maxima F xs)"

lemma suffix_maxima_subset: "set (suffix_maxima F xs) \<subseteq> set xs"
  by (induction xs) auto

lemma suffix_maxima_filter:
  "sorted_wrt (\<le>) (map fst xs) \<Longrightarrow> (\<And>a b. a \<le> b \<Longrightarrow> p a \<Longrightarrow> p b) \<Longrightarrow>
     dropWhile (\<lambda>e. \<not> p (fst e)) (suffix_maxima F xs) = suffix_maxima F (filter (\<lambda>e. p (fst e)) xs)"
proof (induction xs)
  case (Cons x xs)
  then have later: "p (fst x) \<Longrightarrow> filter (\<lambda>e. p (fst e)) xs = xs" by (auto intro: filter_True)
  show ?case
  proof (cases "p (fst x)")
    case True
    then have "filter (\<lambda>e. p (fst e)) (x # xs) = x # xs" using later by simp
    moreover have "dropWhile (\<lambda>e. \<not> p (fst e)) (suffix_maxima F (x # xs)) = suffix_maxima F (x # xs)"
    proof -
      have "p (fst e)" if "e \<in> set (suffix_maxima F (x # xs))" for e
        using that suffix_maxima_subset [of F "x # xs"] Cons.prems True by auto
      then show ?thesis by (cases "suffix_maxima F (x # xs)") (auto simp del: suffix_maxima.simps)
    qed
    ultimately show ?thesis by simp
  next
    case False
    with Cons show ?thesis by simp
  qed
qed simp

lemma suffix_maxima_decreasing:
  assumes "float_linear F"
  shows "sorted_wrt (\<lambda>a b. \<not> f_le F (snd a) (snd b)) (suffix_maxima F xs)"
proof (induction xs)
  case (Cons x xs)
  then show ?case using suffix_maxima_subset [of F xs] by auto
qed simp

lemma dropWhile_rev_decreasing:
  assumes "float_linear F"
  shows "sorted_wrt (\<lambda>a b. \<not> f_le F (snd a) (snd b)) xs \<Longrightarrow>
    rev (dropWhile (\<lambda>e. f_le F (snd e) v) (rev xs)) = filter (\<lambda>e. \<not> f_le F (snd e) v) xs"
proof (induction xs rule: rev_induct)
  case (snoc x xs)
  show ?case
  proof (cases "f_le F (snd x) v")
    case True
    with snoc show ?thesis by (simp add: sorted_wrt_append)
  next
    case False
    have "\<not> f_le F (snd e) v" if "e \<in> set xs" for e
    proof
      assume "f_le F (snd e) v"
      moreover have "f_le F v (snd x)" using False by (rule float_linearD(3) [OF assms])
      ultimately have "f_le F (snd e) (snd x)" by (rule float_linearD(2) [OF assms])
      with snoc.prems that show False by (simp add: sorted_wrt_append)
    qed
    then have "filter (\<lambda>e. \<not> f_le F (snd e) v) xs = xs" by (simp add: filter_id_conv)
    with False show ?thesis by simp
  qed
qed simp

lemma suffix_maxima_snoc:
  assumes "float_linear F"
  shows "suffix_maxima F (xs @ [x]) = filter (\<lambda>e. \<not> f_le F (snd e) (snd x)) (suffix_maxima F xs) @ [x]"
proof (induction xs)
  case (Cons y xs)
  have "\<exists>z \<in> set xs. f_le F (snd y) (snd z) \<Longrightarrow> ?case" using Cons by auto
  moreover have "\<not> (\<exists>z \<in> set xs. f_le F (snd y) (snd z)) \<Longrightarrow> ?case" using Cons by auto
  ultimately show ?case by blast
qed simp

text \<open>The samples of a run, and the filter after them.\<close>

fun filter_run :: "'f float_ops \<Rightarrow> 'f max_filter \<Rightarrow> (u64 \<times> 'f) list \<Rightarrow> 'f max_filter" where
  "filter_run F m [] = m"
| "filter_run F m (s # ss) = filter_run F (max_filter_update F m (fst s) (snd s)) ss"

lemma filter_run_snoc: "filter_run F m (ss @ [s]) = max_filter_update F (filter_run F m ss) (fst s) (snd s)"
  by (induction ss arbitrary: m) simp_all

definition in_window :: "u64 \<Rightarrow> u64 \<Rightarrow> u64 \<times> 'f \<Rightarrow> bool" where
  "in_window w rnd e \<longleftrightarrow> sat_sub rnd (fst e) < w"

lemma in_window_mono: "a \<le> b \<Longrightarrow> sat_sub rnd a < w \<Longrightarrow> sat_sub rnd b < (w :: u64)"
  by (simp add: word_less_nat_alt word_le_nat_alt unat_sat_sub)

lemma in_window_earlier: "rnd \<le> rnd' \<Longrightarrow> in_window w rnd' e \<Longrightarrow> in_window w rnd e"
  by (auto simp: in_window_def word_less_nat_alt word_le_nat_alt unat_sat_sub)

lemma filter_run_window:
  assumes "float_linear F" and "0 < w" and "ss \<noteq> []" and "sorted_wrt (\<le>) (map fst ss)"
  shows "mf_window_size (filter_run F (max_filter_new w) ss) = w \<and>
    mf_window (filter_run F (max_filter_new w) ss) = suffix_maxima F (filter (in_window w (fst (last ss))) ss)"
  using assms(3,4)
proof (induction ss rule: rev_induct)
  case (snoc s ss)
  let ?m = "filter_run F (max_filter_new w) ss"
  have self: "in_window w (fst s) s" using assms(2) by (simp add: in_window_def sat_sub_def)
  have IH: "mf_window_size ?m = w" "dropWhile (\<lambda>e. \<not> sat_sub (fst s) (fst e) < w) (mf_window ?m) =
      suffix_maxima F (filter (in_window w (fst s)) ss)"
  proof -
    show "mf_window_size ?m = w" using snoc by (cases "ss = []") (simp_all add: max_filter_new_def sorted_wrt_append)
    show "dropWhile (\<lambda>e. \<not> sat_sub (fst s) (fst e) < w) (mf_window ?m) = suffix_maxima F (filter (in_window w (fst s)) ss)"
    proof (cases "ss = []")
      case False
      then have m: "mf_window ?m = suffix_maxima F (filter (in_window w (fst (last ss))) ss)"
        using snoc by (simp add: sorted_wrt_append)
      have sorted: "sorted_wrt (\<le>) (map fst (filter (in_window w (fst (last ss))) ss))"
        using snoc.prems(2) by (simp add: sorted_wrt_append sorted_wrt_map sorted_wrt_filter)
      have "fst (last ss) \<le> fst s" using snoc.prems(2) False by (simp add: sorted_wrt_append)
      then have "filter (\<lambda>e. sat_sub (fst s) (fst e) < w) (filter (in_window w (fst (last ss))) ss) = filter (in_window w (fst s)) ss"
        using in_window_earlier [of "fst (last ss)" "fst s"] by (auto simp: in_window_def intro!: filter_cong)
      with suffix_maxima_filter [OF sorted, of "\<lambda>a. sat_sub (fst s) a < w" F] in_window_mono [of _ _ "fst s" w] m
      show ?thesis by simp
    qed (simp add: max_filter_new_def)
  qed
  show ?case
    using self by (simp add: filter_run_snoc max_filter_update_def Let_def not_less [symmetric] IH
        suffix_maxima_snoc [OF assms(1)] dropWhile_rev_decreasing [OF assms(1) suffix_maxima_decreasing [OF assms(1)]])
qed simp

lemma suffix_maxima_hd:
  assumes "float_linear F" and "xs \<noteq> []"
  shows "\<exists>e rest. suffix_maxima F xs = e # rest \<and> e \<in> set xs \<and> (\<forall>x \<in> set xs. f_le F (snd x) (snd e))"
  using assms(2)
proof (induction xs)
  case (Cons x xs)
  show ?case
  proof (cases "\<exists>y \<in> set xs. f_le F (snd x) (snd y)")
    case True
    then have "xs \<noteq> []" by auto
    with Cons.IH obtain e rest where e: "suffix_maxima F xs = e # rest" "e \<in> set xs" "\<forall>x \<in> set xs. f_le F (snd x) (snd e)"
      by blast
    moreover have "f_le F (snd x) (snd e)" using True e(3) float_linearD(2) [OF assms(1)] by blast
    ultimately show ?thesis using True by auto
  next
    case False
    then show ?thesis using float_linearD(1,3) [OF assms(1)] by auto
  qed
qed simp

text \<open>The monotone queue of the bandwidth filter is the maximum of the window. After any samples with rounds
  that do not decrease, the filter's answer is the value of one of the samples of the last \<open>w\<close> rounds,
  and no sample of those rounds exceeds it.\<close>

theorem max_filter_is_window_maximum:
  assumes "float_linear F" and "0 < w" and "ss \<noteq> []" and "sorted_wrt (\<le>) (map fst ss)"
  shows "max_filter_max F (filter_run F (max_filter_new w) ss) \<in> snd ` {e \<in> set ss. in_window w (fst (last ss)) e} \<and>
    (\<forall>e \<in> set ss. in_window w (fst (last ss)) e \<longrightarrow>
       f_le F (snd e) (max_filter_max F (filter_run F (max_filter_new w) ss)))"
proof -
  let ?xs = "filter (in_window w (fst (last ss))) ss"
  have "last ss \<in> set ?xs" using assms(2,3) by (simp add: in_window_def sat_sub_def)
  then have "?xs \<noteq> []" by force
  then obtain e rest where e: "suffix_maxima F ?xs = e # rest" "e \<in> set ?xs" "\<forall>x \<in> set ?xs. f_le F (snd x) (snd e)"
    using suffix_maxima_hd [OF assms(1)] by blast
  then have "max_filter_max F (filter_run F (max_filter_new w) ss) = snd e"
    using filter_run_window [OF assms] by (simp add: max_filter_max_def)
  with e(2,3) show ?thesis by auto
qed

lemma rat_floats_linear: "float_linear rat_floats"
  by (auto simp: float_linear_def rat_floats_def)

theorem max_filter_is_window_maximum_witness:
  "max_filter_max rat_floats (filter_run rat_floats (max_filter_new 2) [(1, 9), (2, 4), (3, 5)]) = 5 \<and>
   max_filter_max rat_floats (filter_run rat_floats (max_filter_new 2) [(1, 9), (2, 4), (3, 5)]) \<in>
     snd ` {e \<in> set [(1, 9), (2, 4), (3, 5)]. in_window 2 3 e}"
proof
  show "max_filter_max rat_floats (filter_run rat_floats (max_filter_new 2) [(1, 9), (2, 4), (3, 5)]) = 5"
    by (simp add: max_filter_update_def max_filter_new_def max_filter_max_def rat_floats_def sat_sub_def)
  show "max_filter_max rat_floats (filter_run rat_floats (max_filter_new 2) [(1, 9), (2, 4), (3, 5)]) \<in>
     snd ` {e \<in> set [(1, 9), (2, 4), (3, 5)]. in_window 2 3 e}"
    using max_filter_is_window_maximum [OF rat_floats_linear, of 2 "[(1, 9), (2, 4), (3, 5)]"] by simp
qed

section \<open>Properties of the controller and the estimators\<close>

text \<open>The controller always lets four segments fly, so it never stops a connection for good.\<close>

lemma should_send_floor: "inflight < MIN_CWND \<Longrightarrow> should_send F c inflight"
  by (simp add: should_send_def)

lemma controller_transition_move: "bc_state c \<noteq> ProbeRTT \<or> bc_probe_rtt_done c \<noteq> None \<Longrightarrow>
    bbr_move (bc_state c) (bc_state (controller_transition F prev t c))"
  by (cases "bc_state c")
    (auto simp: controller_transition_def check_full_pipe_def enter_probe_bw_def advance_probe_bw_def update_pacing_rate_def
      maybe_enter_probe_rtt_def maybe_exit_probe_rtt_def Let_def intro: bbr_move.intros split: option.split)

lemma rto_floor: "MIN_RTO \<le> rto e"
  by (simp add: rto_def)

lemma rtt_first_sample: "\<not> re_initialized e \<Longrightarrow> re_srtt (rtt_update F now s e) = s"
  by (simp add: rtt_update_def Let_def)

text \<open>The minimum is that of all samples.\<close>

lemma rtt_update_min: "re_min_rtt (rtt_update F now s e) = min s (re_min_rtt e)"
  by (simp add: rtt_update_def Let_def)

end
