(* ===== verification/Arbiter.thy ===== *)
theory Arbiter
  imports Float_Ops
begin

text \<open>
  \<^verbatim>\<open>src/fec/arbiter.rs\<close>: the choice between retransmission and forward error correction. \<open>F\<close> is the
  single-precision arithmetic.
\<close>

section \<open>The arbiter\<close>

definition THRESHOLD_LOW :: "'f float_ops \<Rightarrow> 'f" where "THRESHOLD_LOW F = f_lit F (5 / 1000)"
definition THRESHOLD_HIGH :: "'f float_ops \<Rightarrow> 'f" where "THRESHOLD_HIGH F = f_lit F (15 / 100)"
definition HIGH_LATENCY_US :: u64 where "HIGH_LATENCY_US = 100000"

record 'f ewma_loss =
  loss_value :: 'f

definition ewma_new :: "'f float_ops \<Rightarrow> 'f ewma_loss" where
  "ewma_new F = \<lparr>loss_value = f_lit F 0\<rparr>"

definition ewma_update :: "'f float_ops \<Rightarrow> 'f ewma_loss \<Rightarrow> u64 \<Rightarrow> u64 \<Rightarrow> 'f \<times> 'f ewma_loss" where
  "ewma_update F e lost total_sent =
     (let sample = (if total_sent = 0 then f_lit F 0 else f_div F (f_of_u64 F lost) (f_of_u64 F total_sent));
          e1 = (if f_eq F (loss_value e) (f_lit F 0) then e\<lparr>loss_value := sample\<rparr>
                else let alpha = (if f_lt F (f_mul F (loss_value e) (f_lit F 2)) sample then f_lit F (1 / 2) else f_lit F (1 / 8))
                     in e\<lparr>loss_value := f_add F (f_mul F (f_sub F (f_lit F 1) alpha) (loss_value e)) (f_mul F alpha sample)\<rparr>)
      in (loss_value e1, e1))"

datatype arbiter_mode = PureArq | HybridFecArq u8 u8 | PureFec u8 u8

fun fec_overhead :: "'f float_ops \<Rightarrow> arbiter_mode \<Rightarrow> 'f" where
  "fec_overhead F PureArq = f_lit F 0"
| "fec_overhead F (HybridFecArq k r) = f_div F (f_of_nat F (unat r)) (f_of_nat F (unat k))"
| "fec_overhead F (PureFec k r) = f_div F (f_of_nat F (unat r)) (f_of_nat F (unat k))"

definition uses_fec :: "arbiter_mode \<Rightarrow> bool" where
  "uses_fec m \<longleftrightarrow> m \<noteq> PureArq"

record 'f fec_arbiter =
  arb_mode :: arbiter_mode
  arb_loss :: "'f ewma_loss"
  arb_rtt_us :: u64

definition arbiter_new :: "'f float_ops \<Rightarrow> 'f fec_arbiter" where
  "arbiter_new F = \<lparr>arb_mode = PureArq, arb_loss = ewma_new F, arb_rtt_us = 0\<rparr>"

definition choose_mode :: "'f float_ops \<Rightarrow> 'f \<Rightarrow> u64 \<Rightarrow> arbiter_mode" where
  "choose_mode F loss_rate rtt_us =
     (if f_lt F loss_rate (THRESHOLD_LOW F)
      then if rtt_us \<ge> HIGH_LATENCY_US then HybridFecArq 10 1 else PureArq
      else if f_lt F loss_rate (THRESHOLD_HIGH F)
      then HybridFecArq 8 (1 + f_to_u8 F (f_mul F (f_div F (f_sub F loss_rate (THRESHOLD_LOW F))
             (f_sub F (THRESHOLD_HIGH F) (THRESHOLD_LOW F))) (f_lit F 2)))
      else PureFec 8 4)"

fun same_class :: "arbiter_mode \<Rightarrow> arbiter_mode \<Rightarrow> bool" where
  "same_class PureArq PureArq = True"
| "same_class (HybridFecArq _ _) (HybridFecArq _ _) = True"
| "same_class (PureFec _ _) (PureFec _ _) = True"
| "same_class _ _ = False"

definition on_ack_epoch :: "'f float_ops \<Rightarrow> 'f fec_arbiter \<Rightarrow> u64 \<Rightarrow> u64 \<Rightarrow> u64 \<Rightarrow> arbiter_mode \<times> 'f fec_arbiter" where
  "on_ack_epoch F a lost total_sent rtt_us =
     (let (loss_rate, l) = ewma_update F (arb_loss a) lost total_sent;
          a1 = a\<lparr>arb_rtt_us := rtt_us, arb_loss := l\<rparr>;
          new_mode = choose_mode F loss_rate rtt_us;
          a2 = (if \<not> same_class (arb_mode a1) new_mode then a1\<lparr>arb_mode := new_mode\<rparr> else a1)
      in (arb_mode a2, a2))"

definition partial_count :: "'f float_ops \<Rightarrow> u8 \<Rightarrow> u8 \<Rightarrow> u8 \<Rightarrow> u8" where
  "partial_count F k r n =
     (if n \<ge> k then r
      else f_to_u8 F (f_mul F (f_div F (f_of_nat F (unat n)) (f_of_nat F (unat k))) (f_of_nat F (unat r))))"

fun repair_count :: "'f float_ops \<Rightarrow> arbiter_mode \<Rightarrow> u8 \<Rightarrow> u8" where
  "repair_count F PureArq n = 0"
| "repair_count F (HybridFecArq k r) n = partial_count F k r n"
| "repair_count F (PureFec k r) n = partial_count F k r n"

section \<open>What the arbiter does\<close>

text \<open>The mode only moves between classes; its class after an epoch is the class of the chosen mode.\<close>

lemma same_class_sym: "same_class a b \<Longrightarrow> same_class b a"
  by (cases a; cases b) simp_all

lemma arbiter_class: "same_class (arb_mode (snd (on_ack_epoch F a lost total_sent rtt)))
    (choose_mode F (fst (ewma_update F (arb_loss a) lost total_sent)) rtt)"
proof -
  have "same_class m m" for m by (cases m) simp_all
  then show ?thesis by (simp add: on_ack_epoch_def Let_def split_beta)
qed

text \<open>Within a class the parameters stay as they were when the class was entered: rising loss never raises the
  number of repair symbols of the hybrid mode.\<close>

theorem arbiter_parameters_stick:
  assumes "arb_mode a = HybridFecArq k r"
    and "arb_mode (snd (on_ack_epoch F a lost total_sent rtt)) = HybridFecArq k' r'"
  shows "k' = k \<and> r' = r"
  using assms by (auto simp: on_ack_epoch_def Let_def split_beta choose_mode_def split: if_splits)

text \<open>An arbiter that is never told of a loss never leaves retransmission on a fast path, and uses one repair symbol
  in ten on a slow one.\<close>

lemma arbiter_without_loss:
  assumes "float_zero F" and "arb_loss a = ewma_new F" and "0 < total_sent"
  shows "arb_loss (snd (on_ack_epoch F a 0 total_sent rtt)) = ewma_new F"
    and "arb_mode a \<in> {PureArq, HybridFecArq 10 1} \<Longrightarrow>
      arb_mode (snd (on_ack_epoch F a 0 total_sent rtt)) = (if rtt \<ge> HIGH_LATENCY_US then HybridFecArq 10 1 else PureArq)"
proof -
  have pos: "0 < unat total_sent" using assms(3) by (simp add: unat_gt_0 word_gt_0)
  then have e: "ewma_update F (ewma_new F) 0 total_sent = (f_lit F 0, ewma_new F)"
    using assms(1) by (auto simp: ewma_update_def ewma_new_def float_zero_def f_of_u64_def Let_def)
  have low: "f_lt F (f_lit F 0) (THRESHOLD_LOW F)" using assms(1) by (simp add: float_zero_def THRESHOLD_LOW_def)
  show "arb_loss (snd (on_ack_epoch F a 0 total_sent rtt)) = ewma_new F"
    by (simp add: on_ack_epoch_def assms(2) e Let_def)
  show "arb_mode (snd (on_ack_epoch F a 0 total_sent rtt)) = (if rtt \<ge> HIGH_LATENCY_US then HybridFecArq 10 1 else PureArq)"
    if "arb_mode a \<in> {PureArq, HybridFecArq 10 1}"
    using that by (auto simp: on_ack_epoch_def assms(2) e Let_def choose_mode_def low)
qed

text \<open>In exact arithmetic the hybrid mode uses one or two repair symbols, so the three of the comment are never
  reached.\<close>

lemma hybrid_repairs_at_most_two:
  assumes "choose_mode rat_floats loss rtt = HybridFecArq k r"
  shows "1 \<le> r \<and> r \<le> 2"
proof (cases "loss < 5 / 1000")
  case True
  with assms show ?thesis by (auto simp: choose_mode_def rat_floats_def THRESHOLD_LOW_def split: if_splits)
next
  case False
  then have hi: "loss < 15 / 100" using assms
    by (auto simp: choose_mode_def rat_floats_def THRESHOLD_LOW_def THRESHOLD_HIGH_def split: if_splits)
  define x where "x = (loss - 5 / 1000) / (15 / 100 - 5 / 1000) * 2"
  have "0 \<le> x" "x < 2" using False hi by (simp_all add: x_def field_simps)
  then have "nat \<lfloor>x\<rfloor> \<le> 1" by linarith
  moreover have "r = 1 + of_nat (min (nat \<lfloor>x\<rfloor>) 255)"
    using assms False hi
    by (simp add: choose_mode_def rat_floats_def THRESHOLD_LOW_def THRESHOLD_HIGH_def f_to_u8_def x_def)
  ultimately have "r = 1 \<or> r = 2" by (cases "nat \<lfloor>x\<rfloor>") auto
  then show ?thesis by auto
qed

end
