(* ===== verification/Connection.thy ===== *)
theory Connection
  imports Handshake Cookie Seam_Session Fec_Codec Ticket_Key Path_Probe Traffic_Shaping Bbr_Advisory Arbiter Net_Addr
begin

text \<open>
  \<^verbatim>\<open>src/transport/connection.rs\<close>: the connection, which drives the cookie exchange, the handshake, the session, error
  correction, congestion control, shaping, probing and migration. What a call takes from outside is in
  the record \<open>env\<close>: the clocks, fresh random bytes, the order in which the stream table is iterated
  and the operating system's answer to each \<^verbatim>\<open>send_to\<close>. The datagrams that reached the network are kept in
  the connection's \<open>outbox\<close>, the events handed to the application in \<open>event_tx\<close>. The libraries the components are parametric in
  are bundled in \<open>deps\<close>; the congestion controller is a trait object, given by its methods.
\<close>

section \<open>Data\<close>

definition PKT_COOKIE_REQ :: u8 where "PKT_COOKIE_REQ = 0x10"
definition PKT_COOKIE_CHALLENGE :: u8 where "PKT_COOKIE_CHALLENGE = 0x11"
definition PKT_COOKIE_ECHO :: u8 where "PKT_COOKIE_ECHO = 0x12"
definition PKT_HANDSHAKE_MSG :: u8 where "PKT_HANDSHAKE_MSG = 0x13"

lemmas wire_types = PKT_COOKIE_REQ_def PKT_COOKIE_CHALLENGE_def PKT_COOKIE_ECHO_def PKT_HANDSHAKE_MSG_def

datatype conn_phase =
    ClientWaitChallenge
  | ClientWaitMsg2
  | ServerWaitCookie
  | ServerWaitMsg3
  | Established
  | Draining
  | PhaseClosed

type_synonym wire = "socket_addr \<times> socket_addr \<times> bytes"

record ('n, 'ks, 'kp, 'ds, 'dp, 'f, 'c) connection =
  conn_remote :: socket_addr
  phase :: conn_phase
  conn_socket :: socket_addr
  client_hs :: "'n client_handshake option"
  server_hs :: "'n server_handshake option"
  server_identity :: "('ks, 'kp, 'ds, 'dp) identity_keypair option"
  conn_cookies :: "cookie_factory option"
  agreed_cipher :: cipher_suite
  server_preferred_cipher :: cipher_suite
  server_kem_pk :: "'kp option"
  conn_session :: "session option"
  conn_arbiter :: "'f fec_arbiter"
  fec_enc :: "fec_encoder option"
  fec_group_id :: u32
  cc :: 'c
  bbr_ctl :: "'f bbr_controller"
  rtt_est :: "'f rtt_estimator"
  chaff :: chaff_scheduler
  prober :: path_prober
  event_tx :: "session_event list"
  send_counter :: u64
  last_recv :: instant
  last_send :: instant
  conn_ticket_key :: "ticket_key option"
  peer_pubkey :: "bytes option"
  tar :: tar_state
  migration_enabled :: bool
  migration_sockets :: "(u64 \<times> socket_addr) list"
  outbox :: "wire list"

record ('n, 'ks, 'kp, 'ds, 'dp, 'f, 'c) deps =
  d_prims :: prims
  d_noise :: "'n noise_lib"
  d_pq :: "('ks, 'kp, 'ds, 'dp) pq_lib"
  d_f64 :: "'f float_ops"
  d_f32 :: "'f float_ops"
  d_cc :: "'c cc_methods"
  d_exp_sample :: "u64 \<Rightarrow> u64"

record env =
  e_now :: instant
  e_unix_secs :: u64
  e_unix_us :: u64
  e_random :: bytes
  e_hash_order :: "session \<Rightarrow> sid list"
  e_net_error :: "wire \<Rightarrow> string option"

section \<open>Construction\<close>

definition new_base_with_tar ::
  "('n, 'ks, 'kp, 'ds, 'dp, 'f, 'c) deps \<Rightarrow> env \<Rightarrow> 'c \<Rightarrow> socket_addr \<Rightarrow> socket_addr \<Rightarrow> conn_phase \<Rightarrow> tar_config \<Rightarrow>
     ('n, 'ks, 'kp, 'ds, 'dp, 'f, 'c) connection" where
  "new_base_with_tar D E default_cc sock remote ph cfg =
     \<lparr>conn_remote = remote, phase = ph, conn_socket = sock, client_hs = None, server_hs = None, server_identity = None,
      conn_cookies = None, agreed_cipher = cipher_suite_default, server_preferred_cipher = cipher_suite_default,
      server_kem_pk = None, conn_session = None, conn_arbiter = arbiter_new (d_f32 D), fec_enc = None, fec_group_id = 0,
      cc = default_cc, bbr_ctl = controller_new (d_f64 D) (e_now E), rtt_est = rtt_new (e_now E), chaff = chaff_new (e_now E),
      prober = prober_new (e_now E), event_tx = [], send_counter = 0, last_recv = e_now E, last_send = e_now E,
      conn_ticket_key = None, peer_pubkey = None, tar = tar_state_new cfg, migration_enabled = True,
      migration_sockets = [], outbox = []\<rparr>"

definition new_base ::
  "('n, 'ks, 'kp, 'ds, 'dp, 'f, 'c) deps \<Rightarrow> env \<Rightarrow> 'c \<Rightarrow> socket_addr \<Rightarrow> socket_addr \<Rightarrow> conn_phase \<Rightarrow>
     ('n, 'ks, 'kp, 'ds, 'dp, 'f, 'c) connection" where
  "new_base D E default_cc sock remote ph = new_base_with_tar D E default_cc sock remote ph tar_config_disabled"

text \<open>\<^verbatim>\<open>socket.send_to(..).await.map_err(..)\<close>, on the socket bound to \<open>sock\<close>.\<close>

definition send_to ::
  "env \<Rightarrow> socket_addr \<Rightarrow> bytes \<Rightarrow> ('n, 'ks, 'kp, 'ds, 'dp, 'f, 'c) connection \<Rightarrow>
     (seam_error + unit) \<times> ('n, 'ks, 'kp, 'ds, 'dp, 'f, 'c) connection" where
  "send_to E sock b c =
     (case e_net_error E (sock, conn_remote c, b) of
        Some e \<Rightarrow> (Inl (HandshakeFailed e), c)
      | None \<Rightarrow> (Inr (), c\<lparr>outbox := outbox c @ [(sock, conn_remote c, b)]\<rparr>))"

definition connect_with_tar ::
  "('n, 'ks, 'kp, 'ds, 'dp, 'f, 'c) deps \<Rightarrow> env \<Rightarrow> 'c \<Rightarrow> socket_addr \<Rightarrow> socket_addr \<Rightarrow> ('ks, 'kp, 'ds, 'dp) identity_keypair \<Rightarrow>
     bytes \<Rightarrow> 'kp \<Rightarrow> cipher_suite \<Rightarrow> tar_config \<Rightarrow> seam_error + ('n, 'ks, 'kp, 'ds, 'dp, 'f, 'c) connection" where
  "connect_with_tar D E default_cc sock remote local_id server_x25519 kem_pk preferred cfg =
     (case send_to E sock [PKT_COOKIE_REQ] (new_base_with_tar D E default_cc sock remote ClientWaitChallenge cfg) of
        (Inl e, _) \<Rightarrow> Inl e
      | (Inr _, c) \<Rightarrow>
          (case client_new_with_cipher (d_noise D) (e_random E) local_id server_x25519 preferred of
             Inl e \<Rightarrow> Inl e
           | Inr hs \<Rightarrow> Inr (c\<lparr>client_hs := Some hs, server_kem_pk := Some kem_pk\<rparr>)))"

definition connect ::
  "('n, 'ks, 'kp, 'ds, 'dp, 'f, 'c) deps \<Rightarrow> env \<Rightarrow> 'c \<Rightarrow> socket_addr \<Rightarrow> socket_addr \<Rightarrow> ('ks, 'kp, 'ds, 'dp) identity_keypair \<Rightarrow>
     bytes \<Rightarrow> 'kp \<Rightarrow> cipher_suite \<Rightarrow> seam_error + ('n, 'ks, 'kp, 'ds, 'dp, 'f, 'c) connection" where
  "connect D E default_cc sock remote local_id server_x25519 kem_pk preferred =
     (case send_to E sock [PKT_COOKIE_REQ] (new_base D E default_cc sock remote ClientWaitChallenge) of
        (Inl e, _) \<Rightarrow> Inl e
      | (Inr _, c) \<Rightarrow>
          (case client_new_with_cipher (d_noise D) (e_random E) local_id server_x25519 preferred of
             Inl e \<Rightarrow> Inl e
           | Inr hs \<Rightarrow> Inr (c\<lparr>client_hs := Some hs, server_kem_pk := Some kem_pk\<rparr>)))"

definition addr_bytes :: "socket_addr \<Rightarrow> bytes" where
  "addr_bytes a = as_bytes (show_socket_addr a)"

definition accept_challenge ::
  "('n, 'ks, 'kp, 'ds, 'dp, 'f, 'c) deps \<Rightarrow> env \<Rightarrow> 'c \<Rightarrow> socket_addr \<Rightarrow> socket_addr \<Rightarrow> ('ks, 'kp, 'ds, 'dp) identity_keypair \<Rightarrow>
     cookie_factory \<Rightarrow> ticket_key option \<Rightarrow> cipher_suite \<Rightarrow> seam_error + ('n, 'ks, 'kp, 'ds, 'dp, 'f, 'c) connection" where
  "accept_challenge D E default_cc sock remote ident factory tkey preferred =
     (let cookie = cookie_generate (d_prims D) (e_unix_secs E) factory (addr_bytes remote)
      in case send_to E sock (PKT_COOKIE_CHALLENGE # cookie) (new_base D E default_cc sock remote ServerWaitCookie) of
           (Inl e, _) \<Rightarrow> Inl e
         | (Inr _, c) \<Rightarrow> Inr (c\<lparr>server_identity := Some ident, conn_cookies := Some factory, conn_ticket_key := tkey,
                              server_preferred_cipher := preferred\<rparr>))"

section \<open>End of the handshake\<close>

definition issue_ticket ::
  "('n, 'ks, 'kp, 'ds, 'dp, 'f, 'c) deps \<Rightarrow> env \<Rightarrow> handshake_result \<Rightarrow> ('n, 'ks, 'kp, 'ds, 'dp, 'f, 'c) connection \<Rightarrow>
     ('n, 'ks, 'kp, 'ds, 'dp, 'f, 'c) connection outcome" where
  "issue_ticket D E res c =
     (case conn_ticket_key c of
        None \<Rightarrow> Return c
      | Some tk \<Rightarrow>
          obind (issue (d_prims D) (e_unix_secs E) (e_random E) tk (hr_session_id res) (keys_c2s res) (keys_s2c res)) (\<lambda>ticket.
            Return (case conn_session c of
                None \<Rightarrow> c
              | Some s \<Rightarrow>
                  (case encode_raw (d_prims D) s SessionTicket ticket (replicate (32 + length ticket + 16) 0) of
                     (Inr n, out, s') \<Rightarrow> snd (send_to E (conn_socket c) (take n out) (c\<lparr>conn_session := Some s'\<rparr>))
                   | (Inl _, _, s') \<Rightarrow> c\<lparr>conn_session := Some s'\<rparr>))))"

definition finish_handshake ::
  "('n, 'ks, 'kp, 'ds, 'dp, 'f, 'c) deps \<Rightarrow> env \<Rightarrow> handshake_result \<Rightarrow> ('n, 'ks, 'kp, 'ds, 'dp, 'f, 'c) connection \<Rightarrow>
     ('n, 'ks, 'kp, 'ds, 'dp, 'f, 'c) connection outcome" where
  "finish_handshake D E res c =
     (let rl = (if server_identity c \<noteq> None then Server else Client);
          (our_tx, our_rx) = (case rl of Client \<Rightarrow> (keys_c2s res, keys_s2c res) | Server \<Rightarrow> (keys_s2c res, keys_c2s res));
          s = session_with_role (hr_session_id res) rl (encoder_new our_tx (hr_session_id res)) (decoder_new our_rx);
          c1 = c\<lparr>conn_session := Some s, peer_pubkey := Some (peer_static_pubkey res), phase := Established,
                 chaff := chaff_enable (chaff c), server_identity := None, conn_cookies := None, server_kem_pk := None\<rparr>;
          tar_secret = blake3_hash (d_prims D) (enc_key (keys_c2s res) @ enc_key (keys_s2c res));
          c2 = c1\<lparr>tar := set_session_secret (d_prims D) (e_now E) (tar c1) tar_secret\<rparr>
      in issue_ticket D E res c2)"

section \<open>Handshake packets\<close>

definition type_message :: "u8 \<Rightarrow> bytes \<Rightarrow> string" where
  "type_message expected buf =
     (let hex2 = (\<lambda>b :: u8. [hex_digit (unat b div 16), hex_digit (unat b mod 16)])
      in ''expected pkt type 0x'' @ hex2 expected @ '', got 0x'' @ hex2 (case buf of [] \<Rightarrow> 0xff | b # _ \<Rightarrow> b))"

definition strip_type :: "bytes \<Rightarrow> u8 \<Rightarrow> seam_error + bytes" where
  "strip_type buf expected =
     (if buf = [] \<or> hd buf \<noteq> expected then Inl (HandshakeFailed (type_message expected buf)) else Inr (tl buf))"

definition client_rx_challenge ::
  "('n, 'ks, 'kp, 'ds, 'dp, 'f, 'c) deps \<Rightarrow> env \<Rightarrow> bytes \<Rightarrow> ('n, 'ks, 'kp, 'ds, 'dp, 'f, 'c) connection \<Rightarrow>
     (seam_error + unit) \<times> ('n, 'ks, 'kp, 'ds, 'dp, 'f, 'c) connection" where
  "client_rx_challenge D E buf c =
     (if length buf < 1 + 32 \<or> buf ! 0 \<noteq> PKT_COOKIE_CHALLENGE then (Inl (HandshakeFailed ''expected cookie challenge''), c)
      else let cookie = slice buf 1 33 in
        case client_hs c of
          None \<Rightarrow> (Inl (HandshakeFailed ''no client hs''), c)
        | Some hs \<Rightarrow>
            (case server_kem_pk c of
               None \<Rightarrow> (Inl (HandshakeFailed ''no server kem pk''), c)
             | Some kem_pk \<Rightarrow>
                 (case write_msg1 (d_noise D) (d_pq D) hs kem_pk [] of
                    (Inl e, _, hs') \<Rightarrow> (Inl e, c\<lparr>client_hs := Some hs'\<rparr>)
                  | (Inr _, msg1, hs') \<Rightarrow>
                      let echo = PKT_COOKIE_ECHO # cookie @ u16_to_le (of_nat (length msg1)) @ msg1
                      in case send_to E (conn_socket c) echo (c\<lparr>client_hs := Some hs'\<rparr>) of
                           (Inl e, c') \<Rightarrow> (Inl e, c')
                         | (Inr _, c') \<Rightarrow> (Inr (), c'\<lparr>phase := ClientWaitMsg2\<rparr>))))"

definition client_rx_msg2 ::
  "('n, 'ks, 'kp, 'ds, 'dp, 'f, 'c) deps \<Rightarrow> env \<Rightarrow> bytes \<Rightarrow> ('n, 'ks, 'kp, 'ds, 'dp, 'f, 'c) connection \<Rightarrow>
     ((seam_error + unit) \<times> ('n, 'ks, 'kp, 'ds, 'dp, 'f, 'c) connection) outcome" where
  "client_rx_msg2 D E buf c =
     (case strip_type buf PKT_HANDSHAKE_MSG of
        Inl e \<Rightarrow> Return (Inl e, c)
      | Inr payload \<Rightarrow>
          (case client_hs c of
             None \<Rightarrow> Return (Inl (HandshakeFailed ''no client hs''), c)
           | Some hs \<Rightarrow>
               (case read_msg2 (d_noise D) (d_pq D) hs payload of
                  (Inl e, hs') \<Rightarrow> Return (Inl e, c\<lparr>client_hs := Some hs'\<rparr>)
                | (Inr (kem_pk, agreed), hs') \<Rightarrow>
                    let c1 = c\<lparr>client_hs := None\<rparr> in
                    obind (write_msg3_and_finish (d_prims D) (d_noise D) (d_pq D) (e_random E) hs' kem_pk agreed []) (\<lambda>(r, msg3).
                      case r of
                        Inl e \<Rightarrow> Return (Inl e, c1)
                      | Inr res \<Rightarrow>
                          (case send_to E (conn_socket c1) (PKT_HANDSHAKE_MSG # msg3) c1 of
                             (Inl e, c2) \<Rightarrow> Return (Inl e, c2)
                           | (Inr _, c2) \<Rightarrow> obind (finish_handshake D E res c2) (\<lambda>c3. Return (Inr (), c3)))))))"

definition server_rx_cookie_echo ::
  "('n, 'ks, 'kp, 'ds, 'dp, 'f, 'c) deps \<Rightarrow> env \<Rightarrow> bytes \<Rightarrow> ('n, 'ks, 'kp, 'ds, 'dp, 'f, 'c) connection \<Rightarrow>
     (seam_error + unit) \<times> ('n, 'ks, 'kp, 'ds, 'dp, 'f, 'c) connection" where
  "server_rx_cookie_echo D E buf c =
     (if length buf < 1 + 32 + 2 \<or> buf ! 0 \<noteq> PKT_COOKIE_ECHO then (Inl (HandshakeFailed ''expected cookie echo''), c)
      else let cookie = slice buf 1 33 in
        case conn_cookies c of
          None \<Rightarrow> (Inl (HandshakeFailed ''no cookie factory''), c)
        | Some factory \<Rightarrow>
            if \<not> cookie_verify (d_prims D) (e_unix_secs E) factory (addr_bytes (conn_remote c)) cookie
            then (Inl (HandshakeFailed ''invalid cookie''), c)
            else let msg1_len = unat (of_le [buf ! 33, buf ! 34] :: u16) in
              if length buf < 35 + msg1_len then (Inl (HandshakeFailed ''truncated msg1''), c)
              else let msg1 = slice buf 35 (35 + msg1_len) in
                case server_identity c of
                  None \<Rightarrow> (Inl (HandshakeFailed ''no server identity''), c)
                | Some ident \<Rightarrow>
                    (case server_new_with_cipher (d_noise D) (e_random E) ident (server_preferred_cipher c) of
                       Inl e \<Rightarrow> (Inl e, c)
                     | Inr hs \<Rightarrow>
                         (case read_msg1 (d_noise D) hs msg1 of
                            (Inl e, _) \<Rightarrow> (Inl e, c)
                          | (Inr agreed, hs1) \<Rightarrow>
                              let c1 = c\<lparr>agreed_cipher := agreed\<rparr> in
                              case write_msg2 (d_noise D) (d_pq D) hs1 (id_kem_pk ident) agreed [] of
                                (Inl e, _, _) \<Rightarrow> (Inl e, c1)
                              | (Inr _, msg2, hs2) \<Rightarrow>
                                  (case send_to E (conn_socket c1) (PKT_HANDSHAKE_MSG # msg2) c1 of
                                     (Inl e, c2) \<Rightarrow> (Inl e, c2)
                                   | (Inr _, c2) \<Rightarrow> (Inr (), c2\<lparr>server_hs := Some hs2, phase := ServerWaitMsg3\<rparr>)))))"

definition server_rx_msg3 ::
  "('n, 'ks, 'kp, 'ds, 'dp, 'f, 'c) deps \<Rightarrow> env \<Rightarrow> bytes \<Rightarrow> ('n, 'ks, 'kp, 'ds, 'dp, 'f, 'c) connection \<Rightarrow>
     ((seam_error + unit) \<times> ('n, 'ks, 'kp, 'ds, 'dp, 'f, 'c) connection) outcome" where
  "server_rx_msg3 D E buf c =
     (case strip_type buf PKT_HANDSHAKE_MSG of
        Inl e \<Rightarrow> Return (Inl e, c)
      | Inr payload \<Rightarrow>
          (case server_hs c of
             None \<Rightarrow> Return (Inl (HandshakeFailed ''no server hs''), c)
           | Some hs \<Rightarrow>
               let c1 = c\<lparr>server_hs := None\<rparr> in
               case server_identity c1 of
                 None \<Rightarrow> Return (Inl (HandshakeFailed ''no server identity''), c1)
               | Some ident \<Rightarrow>
                   obind (read_msg3_and_finish (d_prims D) (d_noise D) (d_pq D) hs (id_kem_sk ident) (agreed_cipher c1) payload)
                     (\<lambda>r. case r of
                        Inl e \<Rightarrow> Return (Inl e, c1)
                      | Inr res \<Rightarrow> obind (finish_handshake D E res c1) (\<lambda>c2. Return (Inr (), c2)))))"


section \<open>Sending\<close>

text \<open>What follows a data packet that was sent, when error correction is on: feed the encoder, and send the
  repair symbols of a complete group. Errors of those sends are ignored.\<close>

definition fec_after_send :: "env \<Rightarrow> u8 \<Rightarrow> u8 \<Rightarrow> bytes \<Rightarrow> ('n, 'ks, 'kp, 'ds, 'dp, 'f, 'c) connection \<Rightarrow> ('n, 'ks, 'kp, 'ds, 'dp, 'f, 'c) connection outcome" where
  "fec_after_send E k r b c =
     (let gid = fec_group_id c;
          enc0 = (case fec_enc c of None \<Rightarrow> fec_encoder_new gid k r | Some e \<Rightarrow> e);
          enc = (if enc_group_id enc0 \<noteq> gid then fec_encoder_new gid k r else enc0)
      in obind (push_source enc b) (\<lambda>(res, enc').
           Return (case res of
               None \<Rightarrow> c\<lparr>fec_enc := Some enc'\<rparr>
             | Some repairs \<Rightarrow>
                 foldl (\<lambda>c rep. snd (send_to E (conn_socket c) (repair_to_bytes rep) c))
                   (c\<lparr>fec_enc := Some enc', fec_group_id := fec_group_id c + 1\<rparr>) repairs)))"

definition fec_parameters :: "arbiter_mode \<Rightarrow> (u8 \<times> u8) option" where
  "fec_parameters m = (case m of HybridFecArq k r \<Rightarrow> Some (k, r) | PureFec k r \<Rightarrow> Some (k, r) | PureArq \<Rightarrow> None)"

definition fec_step :: "env \<Rightarrow> (u8 \<times> u8) option \<Rightarrow> bytes \<Rightarrow> ('n, 'ks, 'kp, 'ds, 'dp, 'f, 'c) connection \<Rightarrow> ('n, 'ks, 'kp, 'ds, 'dp, 'f, 'c) connection outcome" where
  "fec_step E fec b c = (case fec of None \<Rightarrow> Return c | Some (k, r) \<Rightarrow> fec_after_send E k r b c)"

text \<open>Jitter, padding and obfuscation of one packet; the wait itself has no effect on the state.\<close>

definition shape_packet :: "tar_state \<Rightarrow> bytes \<Rightarrow> bytes \<times> tar_state" where
  "shape_packet t b =
     (let t1 = snd (tar_jitter_delay t); (padded, t2) = maybe_pad t1 b in (maybe_obfuscate t2 padded, t2))"

text \<open>Both controllers admit a packet of this size.\<close>

definition admitted :: "('n, 'ks, 'kp, 'ds, 'dp, 'f, 'c) deps \<Rightarrow> nat \<Rightarrow> ('n, 'ks, 'kp, 'ds, 'dp, 'f, 'c) connection \<Rightarrow> bool" where
  "admitted D n c \<longleftrightarrow>
     \<not> (available (d_cc D) (cc c) < of_nat n \<or> \<not> should_send (d_f64 D) (bbr_ctl c) (bc_inflight (bbr_ctl c)))"

definition account_send :: "('n, 'ks, 'kp, 'ds, 'dp, 'f, 'c) deps \<Rightarrow> env \<Rightarrow> nat \<Rightarrow> ('n, 'ks, 'kp, 'ds, 'dp, 'f, 'c) connection \<Rightarrow> ('n, 'ks, 'kp, 'ds, 'dp, 'f, 'c) connection" where
  "account_send D E n c =
     c\<lparr>cc := cc_on_send (d_cc D) (of_nat n) (cc c), bbr_ctl := controller_on_send n (bbr_ctl c),
       tar := on_real_send (e_now E) (tar c) n, send_counter := send_counter c + 1\<rparr>"

text \<open>The loop of \<^verbatim>\<open>flush\<close> over the session's packets; it stops at the first data packet the controllers do not admit.\<close>

fun flush_loop ::
  "('n, 'ks, 'kp, 'ds, 'dp, 'f, 'c) deps \<Rightarrow> env \<Rightarrow> (u8 \<times> u8) option \<Rightarrow> tagged_packet list \<Rightarrow> ('n, 'ks, 'kp, 'ds, 'dp, 'f, 'c) connection \<Rightarrow> ((seam_error + unit) \<times> ('n, 'ks, 'kp, 'ds, 'dp, 'f, 'c) connection) outcome" where
  "flush_loop D E fec [] c = Return (Inr (), c)"
| "flush_loop D E fec (tp # tps) c =
     (let (w, t) = shape_packet (tar c) (pkt_bytes tp);
          c1 = c\<lparr>last_send := e_now E, tar := t\<rparr>
      in if is_control tp
         then (case send_to E (conn_socket c1) w c1 of
                 (Inl e, c2) \<Rightarrow> Return (Inl e, c2)
               | (Inr _, c2) \<Rightarrow> flush_loop D E fec tps (c2\<lparr>send_counter := send_counter c2 + 1\<rparr>))
         else if \<not> admitted D (length w) c1 then Return (Inr (), c1)
         else
           (case send_to E (conn_socket c1) w c1 of
              (Inl e, c2) \<Rightarrow> Return (Inl e, c2)
            | (Inr _, c2) \<Rightarrow> obind (fec_step E fec (pkt_bytes tp) (account_send D E (length w) c2)) (flush_loop D E fec tps)))"

definition conn_flush :: "('n, 'ks, 'kp, 'ds, 'dp, 'f, 'c) deps \<Rightarrow> env \<Rightarrow> ('n, 'ks, 'kp, 'ds, 'dp, 'f, 'c) connection \<Rightarrow> ((seam_error + unit) \<times> ('n, 'ks, 'kp, 'ds, 'dp, 'f, 'c) connection) outcome" where
  "conn_flush D E c =
     (case conn_session c of
        None \<Rightarrow> Return (Inr (), c)
      | Some s \<Rightarrow>
          obind (flush (d_prims D) (e_now E) (e_hash_order E s) s) (\<lambda>(r, s'). case r of
            Inl e \<Rightarrow> Return (Inl e, c\<lparr>conn_session := Some s'\<rparr>)
          | Inr packets \<Rightarrow>
              if packets = [] then Return (Inr (), c\<lparr>conn_session := Some s'\<rparr>)
              else flush_loop D E (fec_parameters (arb_mode (conn_arbiter c))) packets (c\<lparr>conn_session := Some s'\<rparr>)))"

text \<open>Encode a packet outside the streams into a fresh buffer, and send it on a socket.\<close>

definition encode_out :: "('n, 'ks, 'kp, 'ds, 'dp, 'f, 'c) deps \<Rightarrow> pkt_type \<Rightarrow> bytes \<Rightarrow> session \<Rightarrow> (seam_error + bytes) \<times> session" where
  "encode_out D t payload s =
     (case encode_raw (d_prims D) s t payload (replicate (32 + length payload + 16) 0) of
        (Inl e, _, s') \<Rightarrow> (Inl e, s')
      | (Inr n, out, s') \<Rightarrow> (Inr (take n out), s'))"

definition maybe_send_cover :: "('n, 'ks, 'kp, 'ds, 'dp, 'f, 'c) deps \<Rightarrow> env \<Rightarrow> ('n, 'ks, 'kp, 'ds, 'dp, 'f, 'c) connection \<Rightarrow> (seam_error + unit) \<times> ('n, 'ks, 'kp, 'ds, 'dp, 'f, 'c) connection" where
  "maybe_send_cover D E c =
     (if \<not> should_send_cover (e_now E) (tar c) then (Inr (), c)
      else case conn_session c of
          None \<Rightarrow> (Inr (), c)
        | Some s \<Rightarrow>
            let (payload, t) = cover_payload (tar c) in
            case encode_out D Chaff payload s of
              (Inl _, s') \<Rightarrow> (Inr (), c\<lparr>conn_session := Some s', tar := t\<rparr>)
            | (Inr out, s') \<Rightarrow>
                (case send_to E (conn_socket c) (maybe_obfuscate t out) (c\<lparr>conn_session := Some s', tar := t\<rparr>) of
                   (Inl e, c') \<Rightarrow> (Inl e, c')
                 | (Inr _, c') \<Rightarrow> (Inr (), c'\<lparr>tar := mark_cover_sent (e_now E) (tar c'), send_counter := send_counter c' + 1\<rparr>)))"

definition deobfuscate_incoming :: "('n, 'ks, 'kp, 'ds, 'dp, 'f, 'c) connection \<Rightarrow> bytes \<Rightarrow> bytes" where
  "deobfuscate_incoming c buf = maybe_deobfuscate (tar c) buf"

definition maybe_send_chaff :: "('n, 'ks, 'kp, 'ds, 'dp, 'f, 'c) deps \<Rightarrow> env \<Rightarrow> ('n, 'ks, 'kp, 'ds, 'dp, 'f, 'c) connection \<Rightarrow> (seam_error + unit) \<times> ('n, 'ks, 'kp, 'ds, 'dp, 'f, 'c) connection" where
  "maybe_send_chaff D E c =
     (if \<not> chaff_should_send (e_now E) (chaff c) then (Inr (), c)
      else case conn_session c of
          None \<Rightarrow> (Inr (), c)
        | Some s \<Rightarrow>
            let padded = pad_to_mtu (chaff_payload (send_counter c)) (path_mtu (prober c)) in
            case encode_out D Chaff padded s of
              (Inl e, s') \<Rightarrow> (Inl e, c\<lparr>conn_session := Some s'\<rparr>)
            | (Inr out, s') \<Rightarrow>
                (case send_to E (conn_socket c) out (c\<lparr>conn_session := Some s'\<rparr>) of
                   (Inl e, c') \<Rightarrow> (Inl e, c')
                 | (Inr _, c') \<Rightarrow>
                     (Inr (), c'\<lparr>chaff := chaff_mark_sent (d_exp_sample D) (e_now E) (chaff c') (send_counter c'),
                                 send_counter := send_counter c' + 1\<rparr>)))"

definition maybe_send_probe :: "('n, 'ks, 'kp, 'ds, 'dp, 'f, 'c) deps \<Rightarrow> env \<Rightarrow> ('n, 'ks, 'kp, 'ds, 'dp, 'f, 'c) connection \<Rightarrow> (seam_error + unit) \<times> ('n, 'ks, 'kp, 'ds, 'dp, 'f, 'c) connection" where
  "maybe_send_probe D E c =
     (if \<not> should_probe (e_now E) (prober c) then (Inr (), c)
      else let ((_, payload), p) = build_probe (e_now E) (e_unix_us E) (prober c); c1 = c\<lparr>prober := p\<rparr> in
        case conn_session c1 of
          None \<Rightarrow> (Inr (), c1)
        | Some s \<Rightarrow>
            (case encode_out D PathProbe payload s of
               (Inl e, s') \<Rightarrow> (Inl e, c1\<lparr>conn_session := Some s'\<rparr>)
             | (Inr out, s') \<Rightarrow> send_to E (conn_socket c1) out (c1\<lparr>conn_session := Some s'\<rparr>)))"

text \<open>The local addresses to try, each with the socket the operating system binds for it, if any, and a random
  nonce.\<close>

fun challenge_loop :: "('n, 'ks, 'kp, 'ds, 'dp, 'f, 'c) deps \<Rightarrow> env \<Rightarrow> (socket_addr option \<times> u64) list \<Rightarrow> ('n, 'ks, 'kp, 'ds, 'dp, 'f, 'c) connection \<Rightarrow> ('n, 'ks, 'kp, 'ds, 'dp, 'f, 'c) connection" where
  "challenge_loop D E [] c = c"
| "challenge_loop D E ((bound, nonce) # rest) c =
     (case bound of
        None \<Rightarrow> challenge_loop D E rest c
      | Some sock \<Rightarrow>
          challenge_loop D E rest
            (case conn_session c of
               None \<Rightarrow> c
             | Some s \<Rightarrow>
                 (case encode_out D PathChallenge (u64_to_le nonce) s of
                    (Inl _, s') \<Rightarrow> c\<lparr>conn_session := Some s'\<rparr>
                  | (Inr out, s') \<Rightarrow>
                      (let c1 = snd (send_to E sock out (c\<lparr>conn_session := Some s'\<rparr>))
                       in c1\<lparr>migration_sockets := AList.update nonce sock (migration_sockets c1)\<rparr>))))"

definition maybe_migrate :: "('n, 'ks, 'kp, 'ds, 'dp, 'f, 'c) deps \<Rightarrow> env \<Rightarrow> (socket_addr option \<times> u64) list \<Rightarrow> ('n, 'ks, 'kp, 'ds, 'dp, 'f, 'c) connection \<Rightarrow> (seam_error + unit) \<times> ('n, 'ks, 'kp, 'ds, 'dp, 'f, 'c) connection" where
  "maybe_migrate D E local_ips c =
     (if \<not> migration_enabled c \<or> phase c \<noteq> Established then (Inr (), c)
      else if \<not> should_migrate (prober c) then (Inr (), c)
      else if migration_sockets c \<noteq> [] then (Inr (), c)
      else if local_ips = [] then (Inr (), c)
      else (Inr (), challenge_loop D E local_ips c))"

definition send_path_response :: "('n, 'ks, 'kp, 'ds, 'dp, 'f, 'c) deps \<Rightarrow> env \<Rightarrow> u64 \<Rightarrow> ('n, 'ks, 'kp, 'ds, 'dp, 'f, 'c) connection \<Rightarrow> (seam_error + unit) \<times> ('n, 'ks, 'kp, 'ds, 'dp, 'f, 'c) connection" where
  "send_path_response D E nonce c =
     (case conn_session c of
        None \<Rightarrow> (Inr (), c)
      | Some s \<Rightarrow>
          (case encode_out D PathResponse (u64_to_le nonce) s of
             (Inl _, s') \<Rightarrow> (Inr (), c\<lparr>conn_session := Some s'\<rparr>)
           | (Inr out, s') \<Rightarrow> send_to E (conn_socket c) out (c\<lparr>conn_session := Some s'\<rparr>)))"

definition on_path_response :: "u64 \<Rightarrow> ('n, 'ks, 'kp, 'ds, 'dp, 'f, 'c) connection \<Rightarrow> ('n, 'ks, 'kp, 'ds, 'dp, 'f, 'c) connection" where
  "on_path_response nonce c =
     (case map_of (migration_sockets c) nonce of
        None \<Rightarrow> c
      | Some new_sock \<Rightarrow> c\<lparr>conn_socket := new_sock, migration_sockets := [], prober := reset_migration_state (prober c)\<rparr>)"

fun retransmit_loop :: "env \<Rightarrow> (u64 \<times> bytes) list \<Rightarrow> ('n, 'ks, 'kp, 'ds, 'dp, 'f, 'c) connection \<Rightarrow> (seam_error + unit) \<times> ('n, 'ks, 'kp, 'ds, 'dp, 'f, 'c) connection" where
  "retransmit_loop E [] c = (Inr (), c)"
| "retransmit_loop E (x # xs) c =
     (let (padded, t) = maybe_pad (tar c) (snd x);
          wire_bytes = maybe_obfuscate t padded
      in case send_to E (conn_socket c) wire_bytes (c\<lparr>tar := t\<rparr>) of
           (Inl e, c') \<Rightarrow> (Inl e, c')
         | (Inr _, c') \<Rightarrow>
             retransmit_loop E xs
               (c'\<lparr>tar := on_real_send (e_now E) (tar c') (length wire_bytes), send_counter := send_counter c' + 1\<rparr>))"

definition retransmit_expired :: "('n, 'ks, 'kp, 'ds, 'dp, 'f, 'c) deps \<Rightarrow> env \<Rightarrow> ('n, 'ks, 'kp, 'ds, 'dp, 'f, 'c) connection \<Rightarrow> (seam_error + unit) \<times> ('n, 'ks, 'kp, 'ds, 'dp, 'f, 'c) connection" where
  "retransmit_expired D E c =
     (case conn_session c of
        None \<Rightarrow> (Inr (), c)
      | Some s \<Rightarrow>
          let (expired, s') = drain_retransmits (e_now E) s;
              c1 = c\<lparr>conn_session := Some s'\<rparr>;
              c2 = (if expired \<noteq> [] then c1\<lparr>cc := cc_on_timeout (d_cc D) (cc c1)\<rparr> else c1)
          in retransmit_loop E expired c2)"

definition tick_fec :: "('n, 'ks, 'kp, 'ds, 'dp, 'f, 'c) deps \<Rightarrow> ('n, 'ks, 'kp, 'ds, 'dp, 'f, 'c) connection \<Rightarrow> ('n, 'ks, 'kp, 'ds, 'dp, 'f, 'c) connection" where
  "tick_fec D c =
     (case conn_session c of
        None \<Rightarrow> c
      | Some s \<Rightarrow>
          let in_flight = of_nat (in_flight_count (ss_arq s)) :: u64;
              rtt_us = of_nat (arq_srtt (ss_arq s) div 1000) :: u64
          in c\<lparr>conn_arbiter := snd (on_ack_epoch (d_f32 D) (conn_arbiter c) 0 (max in_flight 1) rtt_us)\<rparr>)"

section \<open>Receiving\<close>

fun dispatch_events :: "('n, 'ks, 'kp, 'ds, 'dp, 'f, 'c) deps \<Rightarrow> env \<Rightarrow> session_event list \<Rightarrow> ('n, 'ks, 'kp, 'ds, 'dp, 'f, 'c) connection \<Rightarrow> (seam_error + unit) \<times> ('n, 'ks, 'kp, 'ds, 'dp, 'f, 'c) connection" where
  "dispatch_events D E [] c = (Inr (), c)"
| "dispatch_events D E (ev # evs) c =
     (case ev of
        PathChallengeReceived nonce \<Rightarrow>
          (case send_path_response D E nonce c of
             (Inl e, c') \<Rightarrow> (Inl e, c')
           | (Inr _, c') \<Rightarrow> dispatch_events D E evs c')
      | PathResponseReceived nonce \<Rightarrow> dispatch_events D E evs (on_path_response nonce c)
      | _ \<Rightarrow> dispatch_events D E evs (c\<lparr>event_tx := event_tx c @ [ev]\<rparr>))"

definition feed_controllers :: "('n, 'ks, 'kp, 'ds, 'dp, 'f, 'c) deps \<Rightarrow> env \<Rightarrow> ('n, 'ks, 'kp, 'ds, 'dp, 'f, 'c) connection \<Rightarrow> ('n, 'ks, 'kp, 'ds, 'dp, 'f, 'c) connection" where
  "feed_controllers D E c =
     (case conn_session c of
        None \<Rightarrow> c
      | Some s \<Rightarrow>
          (case drain_cc_ack s of
             (None, s') \<Rightarrow> c\<lparr>conn_session := Some s'\<rparr>
           | (Some (n, rtt), s') \<Rightarrow>
               let re = (if rtt > 0 then rtt_update (d_f64 D) (e_now E) rtt (rtt_est c) else rtt_est c);
                   effective_rtt = (if rtt > 0 then rtt else re_srtt re)
               in c\<lparr>conn_session := Some s', cc := cc_on_ack (d_cc D) (e_now E) n rtt (cc c), rtt_est := re,
                    bbr_ctl := controller_on_ack (d_f64 D) (unat n) effective_rtt (e_now E) (bbr_ctl c)\<rparr>))"

definition has_pending_max_data :: "('n, 'ks, 'kp, 'ds, 'dp, 'f, 'c) connection \<Rightarrow> bool" where
  "has_pending_max_data c = (case conn_session c of None \<Rightarrow> False | Some s \<Rightarrow> pending_max_data s \<noteq> None)"

text \<open>\<open>None\<close> means that the session's receive operation does not return.\<close>

definition on_data_packet :: "('n, 'ks, 'kp, 'ds, 'dp, 'f, 'c) deps \<Rightarrow> env \<Rightarrow> bytes \<Rightarrow> ('n, 'ks, 'kp, 'ds, 'dp, 'f, 'c) connection \<Rightarrow> ((seam_error + unit) \<times> ('n, 'ks, 'kp, 'ds, 'dp, 'f, 'c) connection) outcome option" where
  "on_data_packet D E buf c =
     (let c0 = c\<lparr>last_recv := e_now E\<rparr> in
      case conn_session c0 of
        None \<Rightarrow> Some (Return (Inl (HandshakeFailed ''no session''), c0))
      | Some s \<Rightarrow>
          (case receive_packet (d_prims D) (e_now E) s buf of
             None \<Rightarrow> None
           | Some (Inl e, s') \<Rightarrow> Some (Return (Inl e, c0\<lparr>conn_session := Some s'\<rparr>))
           | Some (Inr events, s') \<Rightarrow>
               Some (case dispatch_events D E events (c0\<lparr>conn_session := Some s'\<rparr>) of
                   (Inl e, c1) \<Rightarrow> Return (Inl e, c1)
                 | (Inr _, c1) \<Rightarrow>
                     let c2 = feed_controllers D E c1
                     in if has_pending_max_data c2 then conn_flush D E c2 else Return (Inr (), c2))))"

definition on_packet :: "('n, 'ks, 'kp, 'ds, 'dp, 'f, 'c) deps \<Rightarrow> env \<Rightarrow> bytes \<Rightarrow> ('n, 'ks, 'kp, 'ds, 'dp, 'f, 'c) connection \<Rightarrow> ((seam_error + unit) \<times> ('n, 'ks, 'kp, 'ds, 'dp, 'f, 'c) connection) outcome option" where
  "on_packet D E buf c =
     (if buf = [] then Some (Return (Inr (), c))
      else case phase c of
          ClientWaitChallenge \<Rightarrow> Some (Return (client_rx_challenge D E buf c))
        | ClientWaitMsg2 \<Rightarrow> Some (client_rx_msg2 D E buf c)
        | ServerWaitCookie \<Rightarrow> Some (Return (server_rx_cookie_echo D E buf c))
        | ServerWaitMsg3 \<Rightarrow> Some (server_rx_msg3 D E buf c)
        | Established \<Rightarrow> on_data_packet D E buf c
        | Draining \<Rightarrow> Some (Return (Inr (), c))
        | PhaseClosed \<Rightarrow> Some (Return (Inr (), c)))"

section \<open>Keep-alive and closing\<close>

definition KEEPALIVE_INTERVAL :: duration where "KEEPALIVE_INTERVAL = secs 25"
definition IDLE_TIMEOUT :: duration where "IDLE_TIMEOUT = secs 30"
definition HANDSHAKE_TIMEOUT :: duration where "HANDSHAKE_TIMEOUT = secs 30"

definition maybe_queue_ping :: "instant \<Rightarrow> ('n, 'ks, 'kp, 'ds, 'dp, 'f, 'c) connection \<Rightarrow> ('n, 'ks, 'kp, 'ds, 'dp, 'f, 'c) connection" where
  "maybe_queue_ping now c =
     (if phase c \<noteq> Established then c
      else if now - last_send c \<ge> KEEPALIVE_INTERVAL
      then (case conn_session c of None \<Rightarrow> c | Some s \<Rightarrow> c\<lparr>conn_session := Some (session_ping s)\<rparr>)
      else c)"

definition is_idle :: "instant \<Rightarrow> ('n, 'ks, 'kp, 'ds, 'dp, 'f, 'c) connection \<Rightarrow> bool" where
  "is_idle now c \<longleftrightarrow> phase c = Established \<and> now - last_recv c \<ge> IDLE_TIMEOUT"

definition is_stale :: "instant \<Rightarrow> ('n, 'ks, 'kp, 'ds, 'dp, 'f, 'c) connection \<Rightarrow> bool" where
  "is_stale now c =
     (case phase c of
        Established \<Rightarrow> now - last_recv c \<ge> IDLE_TIMEOUT
      | Draining \<Rightarrow> False
      | PhaseClosed \<Rightarrow> False
      | _ \<Rightarrow> now - last_recv c \<ge> HANDSHAKE_TIMEOUT)"

definition is_established :: "('n, 'ks, 'kp, 'ds, 'dp, 'f, 'c) connection \<Rightarrow> bool" where
  "is_established c \<longleftrightarrow> phase c = Established"

definition is_closed :: "('n, 'ks, 'kp, 'ds, 'dp, 'f, 'c) connection \<Rightarrow> bool" where
  "is_closed c \<longleftrightarrow> phase c = PhaseClosed \<or> phase c = Draining"

definition close :: "('n, 'ks, 'kp, 'ds, 'dp, 'f, 'c) connection \<Rightarrow> ('n, 'ks, 'kp, 'ds, 'dp, 'f, 'c) connection" where
  "close c = c\<lparr>phase := Draining\<rparr>"

text \<open>The controllers a caller may install are the values of the type \<open>'c\<close>, driven by the same methods.\<close>

definition set_congestion_controller :: "'c \<Rightarrow> ('n, 'ks, 'kp, 'ds, 'dp, 'f, 'c) connection \<Rightarrow> ('n, 'ks, 'kp, 'ds, 'dp, 'f, 'c) connection" where
  "set_congestion_controller new_cc c = c\<lparr>cc := new_cc\<rparr>"

definition set_tar_config :: "tar_config \<Rightarrow> ('n, 'ks, 'kp, 'ds, 'dp, 'f, 'c) connection \<Rightarrow> ('n, 'ks, 'kp, 'ds, 'dp, 'f, 'c) connection" where
  "set_tar_config cfg c = c\<lparr>tar := tar_state_new cfg\<rparr>"

end
