(* ===== verification/Endpoint.thy ===== *)
theory Endpoint
  imports Connection
begin

text \<open>
  The endpoint of \<^verbatim>\<open>transport/endpoint.rs\<close>: one socket, a table from peer addresses to connections, a receive task
  that accepts and dispatches, and a clean-up task that evicts stale connections. The connections are shared between
  the table, the tasks and the application by reference, so they live in a store and the table holds indices. Each
  task is cut where it takes or releases a lock; its program counter is part of the state, and the steps
  of the two tasks, of the application and of the connections interleave freely.
\<close>

definition DEFAULT_MAX_CONNECTIONS :: nat where "DEFAULT_MAX_CONNECTIONS = 1024"

record endpoint_config =
  max_connections :: nat
  max_new_conns_per_sec_per_ip :: u32

definition endpoint_config_default :: endpoint_config where
  "endpoint_config_default = \<lparr>max_connections = DEFAULT_MAX_CONNECTIONS, max_new_conns_per_sec_per_ip = 10\<rparr>"

text \<open>Where the two tasks are.\<close>

datatype recv_pc =
    RecvReady
  | RecvDispatch socket_addr nat bytes
  | RecvRemove socket_addr
  | RecvStopped

datatype sweep_pc =
    SweepWaiting
  | SweepChecking "(socket_addr \<times> nat) list" "socket_addr list"
  | SweepRemoving "socket_addr list"

record ('n, 'ks, 'kp, 'ds, 'dp, 'f, 'c) endpoint =
  ep_socket :: socket_addr
  ep_identity :: "('ks, 'kp, 'ds, 'dp) identity_keypair"
  ep_cookies :: cookie_factory
  ep_conns :: "(socket_addr \<times> nat) list"
  ep_store :: "('n, 'ks, 'kp, 'ds, 'dp, 'f, 'c) connection list"
  accept_rx :: "nat list"
  ep_config :: endpoint_config
  ip_rate :: "(ip_addr \<times> 'f \<times> instant) list"
  last_cleanup :: instant
  ep_recv :: recv_pc
  ep_sweep :: sweep_pc

section \<open>Construction\<close>

text \<open>\<open>sock\<close> is what the operating system bound, or its error; \<open>secret\<close> the random cookie secret.\<close>

definition bind_with_config ::
  "instant \<Rightarrow> string + socket_addr \<Rightarrow> bytes \<Rightarrow> ('ks, 'kp, 'ds, 'dp) identity_keypair \<Rightarrow> endpoint_config \<Rightarrow>
     seam_error + ('n, 'ks, 'kp, 'ds, 'dp, 'f, 'c) endpoint" where
  "bind_with_config now sock secret ident cfg =
     (case sock of
        Inl e \<Rightarrow> Inl (HandshakeFailed e)
      | Inr a \<Rightarrow>
          Inr \<lparr>ep_socket = a, ep_identity = ident, ep_cookies = cookie_factory_new secret, ep_conns = [], ep_store = [],
               accept_rx = [], ep_config = cfg, ip_rate = [], last_cleanup = now, ep_recv = RecvReady, ep_sweep = SweepWaiting\<rparr>)"

definition endpoint_bind ::
  "instant \<Rightarrow> string + socket_addr \<Rightarrow> bytes \<Rightarrow> ('ks, 'kp, 'ds, 'dp) identity_keypair \<Rightarrow>
     seam_error + ('n, 'ks, 'kp, 'ds, 'dp, 'f, 'c) endpoint" where
  "endpoint_bind now sock secret ident = bind_with_config now sock secret ident endpoint_config_default"

text \<open>A connection is allocated, and entered under the address of its peer.\<close>

definition add_conn ::
  "socket_addr \<Rightarrow> ('n, 'ks, 'kp, 'ds, 'dp, 'f, 'c) connection \<Rightarrow> ('n, 'ks, 'kp, 'ds, 'dp, 'f, 'c) endpoint \<Rightarrow>
     ('n, 'ks, 'kp, 'ds, 'dp, 'f, 'c) endpoint" where
  "add_conn remote c ep =
     ep\<lparr>ep_store := ep_store ep @ [c], ep_conns := AList.update remote (length (ep_store ep)) (ep_conns ep)\<rparr>"

definition endpoint_connect ::
  "('n, 'ks, 'kp, 'ds, 'dp, 'f, 'c) deps \<Rightarrow> env \<Rightarrow> 'c \<Rightarrow> socket_addr \<Rightarrow> bytes \<Rightarrow> 'kp \<Rightarrow> cipher_suite \<Rightarrow>
     ('n, 'ks, 'kp, 'ds, 'dp, 'f, 'c) endpoint \<Rightarrow> (seam_error + nat) \<times> ('n, 'ks, 'kp, 'ds, 'dp, 'f, 'c) endpoint" where
  "endpoint_connect D E default_cc remote server_x25519 kem_pk preferred ep =
     (case connect D E default_cc (ep_socket ep) remote (ep_identity ep) server_x25519 kem_pk preferred of
        Inl e \<Rightarrow> (Inl e, ep)
      | Inr c \<Rightarrow> (Inr (length (ep_store ep)), add_conn remote c ep))"

section \<open>The rate limiter\<close>

text \<open>Stale entries are dropped at most once a minute.\<close>

definition rate_table ::
  "instant \<Rightarrow> (ip_addr \<times> 'f \<times> instant) list \<times> instant \<Rightarrow> (ip_addr \<times> 'f \<times> instant) list \<times> instant" where
  "rate_table now rt =
     (if (now - snd rt) div secs 1 \<ge> 60 then (filter (\<lambda>(_, _, t). (now - t) div secs 1 < 120) (fst rt), now) else rt)"

text \<open>One attempt against a bucket of \<open>rate\<close> tokens, refilled by \<open>rate\<close> tokens a second: whether it passes, and the
  bucket after it.\<close>

definition bucket_take :: "'f float_ops \<Rightarrow> 'f \<Rightarrow> instant \<Rightarrow> 'f \<times> instant \<Rightarrow> bool \<times> 'f \<times> instant" where
  "bucket_take F rate now b =
     (let tokens = f_min F (f_add F (fst b) (f_mul F (as_secs_f64 F (now - snd b)) rate)) rate
      in if f_lt F tokens (f_lit F 1) then (False, tokens, now) else (True, f_sub F tokens (f_lit F 1), now))"

definition rate_limit ::
  "'f float_ops \<Rightarrow> u32 \<Rightarrow> ip_addr \<Rightarrow> instant \<Rightarrow> (ip_addr \<times> 'f \<times> instant) list \<times> instant \<Rightarrow>
     bool \<times> (ip_addr \<times> 'f \<times> instant) list \<times> instant" where
  "rate_limit F per_sec ip now rt =
     (let (tbl, lc) = rate_table now rt;
          rate = f_of_nat F (unat per_sec);
          entry = (case map_of tbl ip of None \<Rightarrow> (rate, now) | Some b \<Rightarrow> b);
          (ok, b) = bucket_take F rate now entry
      in (ok, AList.update ip b tbl, lc))"

section \<open>The receive task\<close>

text \<open>Under the lock of the table: the connection for the sender of a datagram, if need be a new one.\<close>

definition recv_lookup ::
  "('n, 'ks, 'kp, 'ds, 'dp, 'f, 'c) deps \<Rightarrow> env \<Rightarrow> 'c \<Rightarrow> socket_addr \<Rightarrow> bytes \<Rightarrow>
     ('n, 'ks, 'kp, 'ds, 'dp, 'f, 'c) endpoint \<Rightarrow> ('n, 'ks, 'kp, 'ds, 'dp, 'f, 'c) endpoint" where
  "recv_lookup D E default_cc remote pkt ep =
     (case map_of (ep_conns ep) remote of
        Some i \<Rightarrow> ep\<lparr>ep_recv := RecvDispatch remote i pkt\<rparr>
      | None \<Rightarrow>
          if length (ep_conns ep) \<ge> max_connections (ep_config ep) then ep
          else
            let (ok, tbl, lc) = rate_limit (d_f64 D) (max_new_conns_per_sec_per_ip (ep_config ep)) (sa_ip remote) (e_now E)
                                  (ip_rate ep, last_cleanup ep);
                ep1 = ep\<lparr>ip_rate := tbl, last_cleanup := lc\<rparr>
            in if \<not> ok then ep1
               else case accept_challenge D E default_cc (ep_socket ep1) remote (ep_identity ep1) (ep_cookies ep1) None
                           cipher_suite_default of
                   Inl _ \<Rightarrow> ep1
                 | Inr c \<Rightarrow>
                     let i = length (ep_store ep1); ep2 = add_conn remote c ep1
                     in ep2\<lparr>accept_rx := accept_rx ep2 @ [i], ep_recv := RecvDispatch remote i pkt\<rparr>)"

text \<open>Under the lock of the connection: the packet is handled and its result dropped. A panic ends the task; \<open>None\<close> is a
  handler that does not return.\<close>

definition recv_dispatch ::
  "('n, 'ks, 'kp, 'ds, 'dp, 'f, 'c) deps \<Rightarrow> env \<Rightarrow> socket_addr \<Rightarrow> nat \<Rightarrow> bytes \<Rightarrow>
     ('n, 'ks, 'kp, 'ds, 'dp, 'f, 'c) endpoint \<Rightarrow> ('n, 'ks, 'kp, 'ds, 'dp, 'f, 'c) endpoint option" where
  "recv_dispatch D E remote i pkt ep =
     (case on_packet D E pkt (ep_store ep ! i) of
        None \<Rightarrow> None
      | Some Panic \<Rightarrow> Some (ep\<lparr>ep_recv := RecvStopped\<rparr>)
      | Some (Return (_, c)) \<Rightarrow>
          Some (ep\<lparr>ep_store := (ep_store ep)[i := c], ep_recv := if is_closed c then RecvRemove remote else RecvReady\<rparr>))"

definition recv_remove ::
  "socket_addr \<Rightarrow> ('n, 'ks, 'kp, 'ds, 'dp, 'f, 'c) endpoint \<Rightarrow> ('n, 'ks, 'kp, 'ds, 'dp, 'f, 'c) endpoint" where
  "recv_remove remote ep = ep\<lparr>ep_conns := AList.delete remote (ep_conns ep), ep_recv := RecvReady\<rparr>"

text \<open>One turn of the loop, when nothing else runs in between.\<close>

definition recv_turn ::
  "('n, 'ks, 'kp, 'ds, 'dp, 'f, 'c) deps \<Rightarrow> env \<Rightarrow> 'c \<Rightarrow> socket_addr \<Rightarrow> bytes \<Rightarrow>
     ('n, 'ks, 'kp, 'ds, 'dp, 'f, 'c) endpoint \<Rightarrow> ('n, 'ks, 'kp, 'ds, 'dp, 'f, 'c) endpoint option" where
  "recv_turn D E default_cc remote pkt ep =
     (let ep1 = recv_lookup D E default_cc remote pkt ep in
      case ep_recv ep1 of
        RecvDispatch r i p \<Rightarrow>
          (case recv_dispatch D E r i p ep1 of
             None \<Rightarrow> None
           | Some ep2 \<Rightarrow> Some (case ep_recv ep2 of RecvRemove r' \<Rightarrow> recv_remove r' ep2 | _ \<Rightarrow> ep2))
      | _ \<Rightarrow> Some ep1)"

section \<open>The clean-up task\<close>

definition CLEANUP_INTERVAL :: duration where "CLEANUP_INTERVAL = secs 10"

definition sweep_start :: "('n, 'ks, 'kp, 'ds, 'dp, 'f, 'c) endpoint \<Rightarrow> ('n, 'ks, 'kp, 'ds, 'dp, 'f, 'c) endpoint" where
  "sweep_start ep = ep\<lparr>ep_sweep := SweepChecking (ep_conns ep) []\<rparr>"

definition sweep_check ::
  "instant \<Rightarrow> ('n, 'ks, 'kp, 'ds, 'dp, 'f, 'c) endpoint \<Rightarrow> ('n, 'ks, 'kp, 'ds, 'dp, 'f, 'c) endpoint" where
  "sweep_check now ep =
     (case ep_sweep ep of
        SweepChecking ((a, i) # rest) stale \<Rightarrow>
          let c = ep_store ep ! i
          in ep\<lparr>ep_sweep := SweepChecking rest (if is_closed c \<or> is_stale now c then stale @ [a] else stale)\<rparr>
      | SweepChecking [] stale \<Rightarrow> ep\<lparr>ep_sweep := if stale = [] then SweepWaiting else SweepRemoving stale\<rparr>
      | _ \<Rightarrow> ep)"

definition sweep_remove :: "('n, 'ks, 'kp, 'ds, 'dp, 'f, 'c) endpoint \<Rightarrow> ('n, 'ks, 'kp, 'ds, 'dp, 'f, 'c) endpoint" where
  "sweep_remove ep =
     (case ep_sweep ep of
        SweepRemoving stale \<Rightarrow> ep\<lparr>ep_conns := fold AList.delete stale (ep_conns ep), ep_sweep := SweepWaiting\<rparr>
      | _ \<Rightarrow> ep)"

text \<open>One sweep, when nothing else runs in between: the closed and stale connections leave the table.\<close>

definition sweep :: "instant \<Rightarrow> ('n, 'ks, 'kp, 'ds, 'dp, 'f, 'c) endpoint \<Rightarrow> ('n, 'ks, 'kp, 'ds, 'dp, 'f, 'c) endpoint" where
  "sweep now ep = sweep_remove ((sweep_check now ^^ (length (ep_conns ep) + 1)) (sweep_start ep))"

end
