(* ===== verification/Seam_Api.thy ===== *)
theory Seam_Api
  imports Endpoint
begin

text \<open>
  The client and server interface of \<^verbatim>\<open>api.rs\<close>: the operations of an established connection and of its write half, the
  client that drives a handshake to its end, the server task with its table of connections, and the symmetric peer. A
  method of a connection runs under its lock and is a function of the connection; \<^verbatim>\<open>expect\<close> on a missing session is
  a panic.
\<close>

type_synonym ('n, 'ks, 'kp, 'ds, 'dp, 'f, 'c) conn_result =
  "((seam_error + unit) \<times> ('n, 'ks, 'kp, 'ds, 'dp, 'f, 'c) connection) outcome"

section \<open>Operations of a connection\<close>

definition conn_open_stream ::
  "('n, 'ks, 'kp, 'ds, 'dp, 'f, 'c) connection \<Rightarrow> (sid \<times> ('n, 'ks, 'kp, 'ds, 'dp, 'f, 'c) connection) outcome" where
  "conn_open_stream c =
     (case conn_session c of
        None \<Rightarrow> Panic
      | Some s \<Rightarrow> obind (open_stream s) (\<lambda>(i, s'). Return (i, c\<lparr>conn_session := Some s'\<rparr>)))"

definition conn_write ::
  "('n, 'ks, 'kp, 'ds, 'dp, 'f, 'c) deps \<Rightarrow> env \<Rightarrow> sid \<Rightarrow> bytes \<Rightarrow> ('n, 'ks, 'kp, 'ds, 'dp, 'f, 'c) connection \<Rightarrow>
     ('n, 'ks, 'kp, 'ds, 'dp, 'f, 'c) conn_result" where
  "conn_write D E i dat c =
     (case conn_session c of
        None \<Rightarrow> Panic
      | Some s \<Rightarrow>
          (case session_send s i dat of
             (Inl e, s') \<Rightarrow> Return (Inl e, c\<lparr>conn_session := Some s'\<rparr>)
           | (Inr _, s') \<Rightarrow> conn_flush D E (c\<lparr>conn_session := Some s'\<rparr>)))"

definition conn_read ::
  "sid \<Rightarrow> nat \<Rightarrow> ('n, 'ks, 'kp, 'ds, 'dp, 'f, 'c) connection \<Rightarrow>
     ((seam_error + bytes) \<times> ('n, 'ks, 'kp, 'ds, 'dp, 'f, 'c) connection) outcome" where
  "conn_read i mx c =
     (case conn_session c of
        None \<Rightarrow> Panic
      | Some s \<Rightarrow>
          obind (session_read s i [] mx) (\<lambda>(r, out, s').
            Return (case r of Inl e \<Rightarrow> Inl e | Inr _ \<Rightarrow> Inr out, c\<lparr>conn_session := Some s'\<rparr>)))"

text \<open>The next event, if one has been sent.\<close>

definition read_event ::
  "('n, 'ks, 'kp, 'ds, 'dp, 'f, 'c) connection \<Rightarrow> (session_event \<times> ('n, 'ks, 'kp, 'ds, 'dp, 'f, 'c) connection) option" where
  "read_event c = (case event_tx c of [] \<Rightarrow> None | ev # evs \<Rightarrow> Some (ev, c\<lparr>event_tx := evs\<rparr>))"

text \<open>\<open>None\<close> means that the eviction loop of the datagram queue does not end.\<close>

definition conn_send_datagram ::
  "('n, 'ks, 'kp, 'ds, 'dp, 'f, 'c) deps \<Rightarrow> env \<Rightarrow> bytes \<Rightarrow> ('n, 'ks, 'kp, 'ds, 'dp, 'f, 'c) connection \<Rightarrow>
     ('n, 'ks, 'kp, 'ds, 'dp, 'f, 'c) conn_result option" where
  "conn_send_datagram D E dat c =
     (case conn_session c of
        None \<Rightarrow> Some Panic
      | Some s \<Rightarrow>
          (case session_send_datagram s dat of
             None \<Rightarrow> None
           | Some (Inl e, s') \<Rightarrow> Some (Return (Inl e, c\<lparr>conn_session := Some s'\<rparr>))
           | Some (Inr _, s') \<Rightarrow> Some (conn_flush D E (c\<lparr>conn_session := Some s'\<rparr>))))"

definition conn_recv_datagram ::
  "('n, 'ks, 'kp, 'ds, 'dp, 'f, 'c) connection \<Rightarrow> bytes option \<times> ('n, 'ks, 'kp, 'ds, 'dp, 'f, 'c) connection" where
  "conn_recv_datagram c =
     (case conn_session c of
        None \<Rightarrow> (None, c)
      | Some s \<Rightarrow> (case session_recv_datagram s of (r, s') \<Rightarrow> (r, c\<lparr>conn_session := Some s'\<rparr>)))"

definition conn_session_id :: "('n, 'ks, 'kp, 'ds, 'dp, 'f, 'c) connection \<Rightarrow> u64" where
  "conn_session_id c = (case conn_session c of None \<Rightarrow> 0 | Some s \<Rightarrow> ss_id s)"

text \<open>\<^verbatim>\<open>tick\<close> stops at the first error; \<open>ips\<close> are the local addresses for a migration.\<close>

definition conn_tick ::
  "('n, 'ks, 'kp, 'ds, 'dp, 'f, 'c) deps \<Rightarrow> env \<Rightarrow> (socket_addr option \<times> u64) list \<Rightarrow>
     ('n, 'ks, 'kp, 'ds, 'dp, 'f, 'c) connection \<Rightarrow> ('n, 'ks, 'kp, 'ds, 'dp, 'f, 'c) conn_result" where
  "conn_tick D E ips c =
     obind (conn_flush D E (maybe_queue_ping (e_now E) c)) (\<lambda>(r1, c1).
       case r1 of Inl e \<Rightarrow> Return (Inl e, c1) | Inr _ \<Rightarrow>
       Return (case retransmit_expired D E c1 of (Inl e, c2) \<Rightarrow> (Inl e, c2) | (Inr _, c2) \<Rightarrow>
         (case maybe_send_chaff D E c2 of (Inl e, c3) \<Rightarrow> (Inl e, c3) | (Inr _, c3) \<Rightarrow>
         (case maybe_send_probe D E c3 of (Inl e, c4) \<Rightarrow> (Inl e, c4) | (Inr _, c4) \<Rightarrow>
         maybe_migrate D E ips c4))))"

definition connection_metrics ::
  "('n, 'ks, 'kp, 'ds, 'dp, 'f, 'c) deps \<Rightarrow> ('n, 'ks, 'kp, 'ds, 'dp, 'f, 'c) connection \<Rightarrow> duration \<times> nat \<times> u64" where
  "connection_metrics D c =
     ((case conn_session c of None \<Rightarrow> 0 | Some s \<Rightarrow> micros (arq_srtt (ss_arq s) div 1000)), path_mtu (prober c), available (d_cc D) (cc c))"

definition set_migration_enabled ::
  "bool \<Rightarrow> ('n, 'ks, 'kp, 'ds, 'dp, 'f, 'c) connection \<Rightarrow> ('n, 'ks, 'kp, 'ds, 'dp, 'f, 'c) connection" where
  "set_migration_enabled b c = c\<lparr>migration_enabled := b\<rparr>"

section \<open>The write half\<close>

text \<open>The same operations where a missing session is an error value, and where a failed read is an empty one.\<close>

definition writer_write ::
  "('n, 'ks, 'kp, 'ds, 'dp, 'f, 'c) deps \<Rightarrow> env \<Rightarrow> sid \<Rightarrow> bytes \<Rightarrow> ('n, 'ks, 'kp, 'ds, 'dp, 'f, 'c) connection \<Rightarrow>
     ('n, 'ks, 'kp, 'ds, 'dp, 'f, 'c) conn_result" where
  "writer_write D E i dat c =
     (case conn_session c of
        None \<Rightarrow> Return (Inl (HandshakeFailed ''not connected''), c)
      | Some s \<Rightarrow>
          (case session_send s i dat of
             (Inl e, s') \<Rightarrow> Return (Inl e, c\<lparr>conn_session := Some s'\<rparr>)
           | (Inr _, s') \<Rightarrow> conn_flush D E (c\<lparr>conn_session := Some s'\<rparr>)))"

definition writer_read ::
  "sid \<Rightarrow> nat \<Rightarrow> ('n, 'ks, 'kp, 'ds, 'dp, 'f, 'c) connection \<Rightarrow>
     (bytes \<times> ('n, 'ks, 'kp, 'ds, 'dp, 'f, 'c) connection) outcome" where
  "writer_read i mx c =
     (case conn_session c of
        None \<Rightarrow> Return ([], c)
      | Some s \<Rightarrow> obind (session_read s i [] mx) (\<lambda>(_, out, s'). Return (out, c\<lparr>conn_session := Some s'\<rparr>)))"

definition writer_send_datagram ::
  "('n, 'ks, 'kp, 'ds, 'dp, 'f, 'c) deps \<Rightarrow> env \<Rightarrow> bytes \<Rightarrow> ('n, 'ks, 'kp, 'ds, 'dp, 'f, 'c) connection \<Rightarrow>
     ('n, 'ks, 'kp, 'ds, 'dp, 'f, 'c) conn_result option" where
  "writer_send_datagram D E dat c =
     (case conn_session c of
        None \<Rightarrow> Some (Return (Inl (HandshakeFailed ''not connected''), c))
      | Some s \<Rightarrow>
          (case session_send_datagram s dat of
             None \<Rightarrow> None
           | Some (Inl e, s') \<Rightarrow> Some (Return (Inl e, c\<lparr>conn_session := Some s'\<rparr>))
           | Some (Inr _, s') \<Rightarrow> Some (conn_flush D E (c\<lparr>conn_session := Some s'\<rparr>))))"

definition send_fin ::
  "('n, 'ks, 'kp, 'ds, 'dp, 'f, 'c) deps \<Rightarrow> env \<Rightarrow> sid \<Rightarrow> ('n, 'ks, 'kp, 'ds, 'dp, 'f, 'c) connection \<Rightarrow>
     ('n, 'ks, 'kp, 'ds, 'dp, 'f, 'c) connection outcome" where
  "send_fin D E i c =
     (let c1 = (case conn_session c of None \<Rightarrow> c | Some s \<Rightarrow> c\<lparr>conn_session := Some (finish_stream s i)\<rparr>)
      in obind (conn_flush D E c1) (\<lambda>(_, c2). Return c2))"

section \<open>The client\<close>

text \<open>What the socket returns within the handshake time-out, in turn; after the last arrival nothing comes any more.\<close>

datatype arrival = Datagram bytes | SocketError string

fun drive_handshake ::
  "('n, 'ks, 'kp, 'ds, 'dp, 'f, 'c) deps \<Rightarrow> (env \<times> arrival) list \<Rightarrow> ('n, 'ks, 'kp, 'ds, 'dp, 'f, 'c) connection \<Rightarrow>
     (seam_error + ('n, 'ks, 'kp, 'ds, 'dp, 'f, 'c) connection) outcome option" where
  "drive_handshake D [] c =
     Some (Return (if is_established c then Inr c else Inl (HandshakeFailed ''handshake timed out'')))"
| "drive_handshake D ((E, a) # incoming) c =
     (if is_established c then Some (Return (Inr c))
      else case a of
          SocketError e \<Rightarrow> Some (Return (Inl (HandshakeFailed e)))
        | Datagram b \<Rightarrow>
            (case on_packet D E b c of
               None \<Rightarrow> None
             | Some Panic \<Rightarrow> Some Panic
             | Some (Return (Inl e, _)) \<Rightarrow> Some (Return (Inl e))
             | Some (Return (Inr _, c')) \<Rightarrow> drive_handshake D incoming c'))"

definition try_connect ::
  "('n, 'ks, 'kp, 'ds, 'dp, 'f, 'c) deps \<Rightarrow> env \<Rightarrow> 'c \<Rightarrow> socket_addr \<Rightarrow> socket_addr \<Rightarrow> ('ks, 'kp, 'ds, 'dp) identity_keypair \<Rightarrow>
     bytes \<Rightarrow> 'kp \<Rightarrow> cipher_suite \<Rightarrow> (env \<times> arrival) list \<Rightarrow>
     (seam_error + ('n, 'ks, 'kp, 'ds, 'dp, 'f, 'c) connection) outcome option" where
  "try_connect D E default_cc sock remote ident server_x25519 kem_pk preferred incoming =
     (case connect D E default_cc sock remote ident server_x25519 kem_pk preferred of
        Inl e \<Rightarrow> Some (Return (Inl e))
      | Inr c \<Rightarrow> drive_handshake D incoming c)"

text \<open>One entry of \<open>tries\<close> for each attempt: its environment and its incoming.\<close>

fun connect_loop ::
  "('n, 'ks, 'kp, 'ds, 'dp, 'f, 'c) deps \<Rightarrow> 'c \<Rightarrow> socket_addr \<Rightarrow> socket_addr \<Rightarrow> ('ks, 'kp, 'ds, 'dp) identity_keypair \<Rightarrow>
     bytes \<Rightarrow> 'kp \<Rightarrow> cipher_suite \<Rightarrow> (env \<times> (env \<times> arrival) list) list \<Rightarrow> seam_error option \<Rightarrow>
     (seam_error + ('n, 'ks, 'kp, 'ds, 'dp, 'f, 'c) connection) outcome option" where
  "connect_loop D default_cc sock remote ident x kem_pk preferred [] last_err =
     Some (Return (Inl (case last_err of None \<Rightarrow> HandshakeFailed ''handshake exhausted retries'' | Some e \<Rightarrow> e)))"
| "connect_loop D default_cc sock remote ident x kem_pk preferred ((E, incoming) # tries) last_err =
     (case try_connect D E default_cc sock remote ident x kem_pk preferred incoming of
        Some (Return (Inl e)) \<Rightarrow> connect_loop D default_cc sock remote ident x kem_pk preferred tries (Some e)
      | r \<Rightarrow> r)"

definition client_connect ::
  "('n, 'ks, 'kp, 'ds, 'dp, 'f, 'c) deps \<Rightarrow> 'c \<Rightarrow> socket_addr \<Rightarrow> socket_addr \<Rightarrow> ('ks, 'kp, 'ds, 'dp) identity_keypair \<Rightarrow>
     bytes \<Rightarrow> 'kp \<Rightarrow> cipher_suite \<Rightarrow> (nat \<Rightarrow> env \<times> (env \<times> arrival) list) \<Rightarrow>
     (seam_error + ('n, 'ks, 'kp, 'ds, 'dp, 'f, 'c) connection) outcome option" where
  "client_connect D default_cc sock remote ident x kem_pk preferred tries =
     connect_loop D default_cc sock remote ident x kem_pk preferred (map tries [0..<3]) None"

text \<open>One turn of the client's receive task: \<open>None\<close> when the task ends.\<close>

definition client_recv ::
  "('n, 'ks, 'kp, 'ds, 'dp, 'f, 'c) deps \<Rightarrow> env \<Rightarrow> bytes \<Rightarrow> ('n, 'ks, 'kp, 'ds, 'dp, 'f, 'c) connection \<Rightarrow>
     ('n, 'ks, 'kp, 'ds, 'dp, 'f, 'c) connection outcome option option" where
  "client_recv D E b c =
     (if is_closed c then None
      else Some (map_option (\<lambda>r. obind r (\<lambda>(_, c'). Return c')) (on_packet D E b c)))"

section \<open>The server\<close>

text \<open>The state of the receive task. Its connections are shared with the application once they are accepted, so they
  live in a store; the event receivers it holds are represented by the addresses they belong to.\<close>

record ('n, 'ks, 'kp, 'ds, 'dp, 'f, 'c) server =
  sv_socket :: socket_addr
  sv_identity :: "('ks, 'kp, 'ds, 'dp) identity_keypair"
  sv_cookies :: cookie_factory
  sv_ticket_key :: ticket_key
  sv_cipher :: cipher_suite
  sv_conns :: "(socket_addr \<times> nat) list"
  sv_store :: "('n, 'ks, 'kp, 'ds, 'dp, 'f, 'c) connection list"
  pending_events :: "socket_addr list"
  delivered :: "socket_addr list"
  sv_accepted :: "nat list"

definition server_bind ::
  "string + socket_addr \<Rightarrow> bytes \<Rightarrow> bytes \<Rightarrow> ('ks, 'kp, 'ds, 'dp) identity_keypair \<Rightarrow> cipher_suite \<Rightarrow>
     seam_error + ('n, 'ks, 'kp, 'ds, 'dp, 'f, 'c) server" where
  "server_bind sock secret ticket_secret ident preferred =
     (case sock of
        Inl e \<Rightarrow> Inl (HandshakeFailed e)
      | Inr a \<Rightarrow>
          Inr \<lparr>sv_socket = a, sv_identity = ident, sv_cookies = cookie_factory_new secret,
               sv_ticket_key = ticket_key_new ticket_secret, sv_cipher = preferred, sv_conns = [], sv_store = [],
               pending_events = [], delivered = [], sv_accepted = []\<rparr>)"

text \<open>A packet for a connection of the table: it is handled, a connection that became established is handed to the
  application once, and a closed one leaves the table.\<close>

definition server_known ::
  "('n, 'ks, 'kp, 'ds, 'dp, 'f, 'c) deps \<Rightarrow> env \<Rightarrow> socket_addr \<Rightarrow> nat \<Rightarrow> bytes \<Rightarrow>
     ('n, 'ks, 'kp, 'ds, 'dp, 'f, 'c) server \<Rightarrow> ('n, 'ks, 'kp, 'ds, 'dp, 'f, 'c) server outcome option" where
  "server_known D E remote i pkt sv =
     (let was_established = is_established (sv_store sv ! i) in
      case on_packet D E pkt (sv_store sv ! i) of
        None \<Rightarrow> None
      | Some Panic \<Rightarrow> Some Panic
      | Some (Return (_, c)) \<Rightarrow>
          let sv1 = sv\<lparr>sv_store := (sv_store sv)[i := c]\<rparr>;
              sv2 = (if \<not> was_established \<and> is_established c \<and> remote \<notin> set (delivered sv1)
                     then (let sv' = sv1\<lparr>delivered := remote # delivered sv1\<rparr>
                           in if remote \<in> set (pending_events sv')
                              then sv'\<lparr>pending_events := removeAll remote (pending_events sv'), sv_accepted := sv_accepted sv' @ [i]\<rparr>
                              else sv')
                     else sv1);
              sv3 = (if is_closed c
                     then sv2\<lparr>sv_conns := AList.delete remote (sv_conns sv2), delivered := removeAll remote (delivered sv2)\<rparr>
                     else sv2)
          in Some (Return sv3))"

definition server_unknown ::
  "('n, 'ks, 'kp, 'ds, 'dp, 'f, 'c) deps \<Rightarrow> env \<Rightarrow> 'c \<Rightarrow> socket_addr \<Rightarrow>
     ('n, 'ks, 'kp, 'ds, 'dp, 'f, 'c) server \<Rightarrow> ('n, 'ks, 'kp, 'ds, 'dp, 'f, 'c) server" where
  "server_unknown D E default_cc remote sv =
     (case accept_challenge D E default_cc (sv_socket sv) remote (sv_identity sv) (sv_cookies sv) (Some (sv_ticket_key sv)) (sv_cipher sv) of
        Inl _ \<Rightarrow> sv
      | Inr c \<Rightarrow>
          sv\<lparr>pending_events := List.insert remote (pending_events sv), sv_store := sv_store sv @ [c],
             sv_conns := AList.update remote (length (sv_store sv)) (sv_conns sv)\<rparr>)"

definition server_packet ::
  "('n, 'ks, 'kp, 'ds, 'dp, 'f, 'c) deps \<Rightarrow> env \<Rightarrow> 'c \<Rightarrow> socket_addr \<Rightarrow> bytes \<Rightarrow>
     ('n, 'ks, 'kp, 'ds, 'dp, 'f, 'c) server \<Rightarrow> ('n, 'ks, 'kp, 'ds, 'dp, 'f, 'c) server outcome option" where
  "server_packet D E default_cc remote pkt sv =
     (case map_of (sv_conns sv) remote of
        Some i \<Rightarrow> server_known D E remote i pkt sv
      | None \<Rightarrow> Some (Return (server_unknown D E default_cc remote sv)))"

definition server_sweep ::
  "instant \<Rightarrow> ('n, 'ks, 'kp, 'ds, 'dp, 'f, 'c) server \<Rightarrow> ('n, 'ks, 'kp, 'ds, 'dp, 'f, 'c) server" where
  "server_sweep now sv =
     (let stale = map fst (filter (\<lambda>(_, i). is_closed (sv_store sv ! i) \<or> is_stale now (sv_store sv ! i)) (sv_conns sv))
      in sv\<lparr>sv_conns := fold AList.delete stale (sv_conns sv), pending_events := filter (\<lambda>a. a \<notin> set stale) (pending_events sv),
            delivered := filter (\<lambda>a. a \<notin> set stale) (delivered sv)\<rparr>)"

section \<open>The symmetric peer\<close>

definition PEER_MAGIC :: bytes where
  "PEER_MAGIC = as_bytes ''SEAM-PEER-NONCE-v1''"

text \<open>The nonce of the peer from the datagrams that arrive, at most one for each of the fifty probes.\<close>

fun peer_nonce :: "(bytes \<times> socket_addr) option list \<Rightarrow> (bytes \<times> socket_addr) option" where
  "peer_nonce [] = None"
| "peer_nonce (None # rest) = peer_nonce rest"
| "peer_nonce (Some (b, from) # rest) =
     (let b' = take 64 b
      in if length b' = length PEER_MAGIC + 8 \<and> take (length PEER_MAGIC) b' = PEER_MAGIC
         then Some (drop (length PEER_MAGIC) b', from) else peer_nonce rest)"

fun bytes_le :: "bytes \<Rightarrow> bytes \<Rightarrow> bool" where
  "bytes_le [] ys = True"
| "bytes_le (x # xs) [] = False"
| "bytes_le (x # xs) (y # ys) = (x < y \<or> x = y \<and> bytes_le xs ys)"

definition initiator_message :: string where
  "initiator_message =
     ''symmetric initiator requires peer KEM key '' @ [CHR 0xE2, CHR 0x80, CHR 0x94] @
     '' use Client::connect with the peer's published KEM public key''"

text \<open>The responder handles packets until it is established: unlike the client, it looks at the phase after a packet only.\<close>

fun drive_peer ::
  "('n, 'ks, 'kp, 'ds, 'dp, 'f, 'c) deps \<Rightarrow> (env \<times> arrival) list \<Rightarrow> ('n, 'ks, 'kp, 'ds, 'dp, 'f, 'c) connection \<Rightarrow>
     (seam_error + ('n, 'ks, 'kp, 'ds, 'dp, 'f, 'c) connection) outcome option" where
  "drive_peer D [] c = Some (Return (Inl (HandshakeFailed ''peer handshake timeout'')))"
| "drive_peer D ((E, a) # incoming) c =
     (case a of
        SocketError e \<Rightarrow> Some (Return (Inl (HandshakeFailed e)))
      | Datagram b \<Rightarrow>
          (case on_packet D E b c of
             None \<Rightarrow> None
           | Some Panic \<Rightarrow> Some Panic
           | Some (Return (Inl e, _)) \<Rightarrow> Some (Return (Inl e))
           | Some (Return (Inr _, c')) \<Rightarrow>
               if is_established c' then Some (Return (Inr c')) else drive_peer D incoming c'))"

text \<open>For an IPv6 remote, parsing the literal \<^verbatim>\<open>:::0\<close> as a socket address fails and the \<^verbatim>\<open>unwrap\<close> panics; \<open>sock\<close> is the
  socket bound for an IPv4 remote.\<close>

definition peer_connect ::
  "('n, 'ks, 'kp, 'ds, 'dp, 'f, 'c) deps \<Rightarrow> env \<Rightarrow> 'c \<Rightarrow> string + socket_addr \<Rightarrow> socket_addr \<Rightarrow>
     ('ks, 'kp, 'ds, 'dp) identity_keypair \<Rightarrow> cipher_suite \<Rightarrow> bytes \<Rightarrow> bytes \<Rightarrow> bytes \<Rightarrow> (bytes \<times> socket_addr) option list \<Rightarrow>
     (env \<times> arrival) list \<Rightarrow> (seam_error + ('n, 'ks, 'kp, 'ds, 'dp, 'f, 'c) connection) outcome option" where
  "peer_connect D E default_cc sock remote ident cipher local_nonce secret ticket_secret probes incoming =
     (case sa_ip remote of
        V6 _ \<Rightarrow> Some Panic
      | V4 _ \<Rightarrow>
          (case sock of
             Inl e \<Rightarrow> Some (Return (Inl (HandshakeFailed e)))
           | Inr local \<Rightarrow>
               (case e_net_error E (local, remote, PEER_MAGIC @ local_nonce) of
                  Some e \<Rightarrow> Some (Return (Inl (HandshakeFailed e)))
                | None \<Rightarrow>
                    (case peer_nonce (take 50 probes) of
                       None \<Rightarrow> Some (Return (Inl (HandshakeFailed ''symmetric peer: no nonce from peer'')))
                     | Some (remote_nonce, resolved_remote) \<Rightarrow>
                         if bytes_le local_nonce remote_nonce
                         then Some (Return (Inl (HandshakeFailed initiator_message)))
                         else
                           (case accept_challenge D E default_cc local resolved_remote ident (cookie_factory_new secret)
                                   (Some (ticket_key_new ticket_secret)) cipher of
                              Inl e \<Rightarrow> Some (Return (Inl e))
                            | Inr c \<Rightarrow> drive_peer D incoming c)))))"

end
