(* ===== verification/Connection_Facts.thy ===== *)
theory Connection_Facts
  imports Connection Session_Transfer
begin

text \<open>
  What the connection guarantees: the exchange of cookie and handshake packets brings both ends to matching
  sessions; a session exists exactly from the end of the handshake on; a wrong cookie costs the server nothing; the
  congestion window is respected. And what it does not: a forged third message ends the handshake, control packets behind a blocked data
  packet are lost, and migration is never started.
\<close>

section \<open>The network answers\<close>

definition net_up :: "env \<Rightarrow> bool" where
  "net_up E \<longleftrightarrow> (\<forall>w. e_net_error E w = None)"

lemma send_to_up: "net_up E \<Longrightarrow> send_to E sock b c = (Inr (), c\<lparr>outbox := outbox c @ [(sock, conn_remote c, b)]\<rparr>)"
  by (simp add: send_to_def net_up_def)

lemma send_to_cases:
  obtains e where "send_to E sock b c = (Inl e, c)"
  | "send_to E sock b c = (Inr (), c\<lparr>outbox := outbox c @ [(sock, conn_remote c, b)]\<rparr>)"
  by (cases "e_net_error E (sock, conn_remote c, b)") (simp_all add: send_to_def)

text \<open>The peer's address, and what the handshake leaves in a connection: the peer's key, and the secrets it clears when it is done.\<close>

definition hs_view :: "('n, 'ks, 'kp, 'ds, 'dp, 'f, 'c) connection \<Rightarrow> _" where
  "hs_view c = (conn_remote c, phase c, peer_pubkey c, server_identity c, conn_cookies c, server_kem_pk c)"

lemma hs_view_updates [simp]:
  "hs_view (c\<lparr>conn_session := a1\<rparr>) = hs_view c" "hs_view (c\<lparr>fec_enc := a2\<rparr>) = hs_view c"
  "hs_view (c\<lparr>fec_group_id := a3\<rparr>) = hs_view c" "hs_view (c\<lparr>outbox := a4\<rparr>) = hs_view c"
  "hs_view (c\<lparr>send_counter := a5\<rparr>) = hs_view c" "hs_view (c\<lparr>cc := a6\<rparr>) = hs_view c"
  "hs_view (c\<lparr>tar := a7\<rparr>) = hs_view c" "hs_view (c\<lparr>event_tx := a8\<rparr>) = hs_view c"
  "hs_view (c\<lparr>last_recv := a9\<rparr>) = hs_view c"
  by (simp_all add: hs_view_def)

lemma send_to_fields [simp]:
  "cc (snd (send_to E sock b c)) = cc c" "phase (snd (send_to E sock b c)) = phase c"
  "conn_session (snd (send_to E sock b c)) = conn_session c" "prober (snd (send_to E sock b c)) = prober c"
  "migration_sockets (snd (send_to E sock b c)) = migration_sockets c" "hs_view (snd (send_to E sock b c)) = hs_view c"
  by (simp_all add: send_to_def hs_view_def split: option.split)

section \<open>The handshake over connections\<close>

text \<open>A Noise message is at most 65535 bytes long.\<close>

definition noise_bounded :: "'n noise_lib \<Rightarrow> bool" where
  "noise_bounded N \<longleftrightarrow> (\<forall>n p m n'. noise_write_message N n p = (Inr m, n') \<longrightarrow> length m \<le> 65535)"

text \<open>The datagram sent last.\<close>

definition last_sent :: "('n, 'ks, 'kp, 'ds, 'dp, 'f, 'c) connection \<Rightarrow> bytes" where
  "last_sent c = snd (snd (last (outbox c)))"

lemma cookie_echo_fields:
  assumes "length cookie = 32" and "length m \<le> 65535"
  defines "buf \<equiv> PKT_COOKIE_ECHO # cookie @ u16_to_le (of_nat (length m)) @ m"
  shows "length buf = 35 + length m" and "buf ! 0 = PKT_COOKIE_ECHO" and "slice buf 1 33 = cookie"
    and "unat (of_le [buf ! 33, buf ! 34] :: u16) = length m" and "slice buf 35 (35 + length m) = m"
proof -
  obtain a b where ab: "u16_to_le (of_nat (length m)) = [a, b]"
    by (metis (no_types, lifting) One_nat_def Suc_1 length_0_conv length_Suc_conv length_le_bytes)
  show "length buf = 35 + length m" "buf ! 0 = PKT_COOKIE_ECHO" using assms(1) by (simp_all add: buf_def)
  show "slice buf 1 33 = cookie" using assms(1) by (simp add: buf_def slice_def)
  have "[buf ! 33, buf ! 34] = u16_to_le (of_nat (length m))"
    using assms(1) by (simp add: buf_def ab nth_append nth_Cons')
  then show "unat (of_le [buf ! 33, buf ! 34] :: u16) = length m"
    using assms(2) by (simp add: codec_simps unat_of_nat_id)
  show "slice buf 35 (35 + length m) = m" using assms(1) by (simp add: buf_def slice_def ab)
qed

lemma finish_handshake_session:
  assumes "conn_ticket_key c = None"
  defines "rl \<equiv> if server_identity c \<noteq> None then Server else Client"
  shows "\<exists>c'. finish_handshake D E res c = Return c' \<and> phase c' = Established \<and> outbox c' = outbox c \<and>
    peer_pubkey c' = Some (peer_static_pubkey res) \<and>
    conn_session c' = Some (session_with_role (hr_session_id res) rl
      (encoder_new (case rl of Client \<Rightarrow> keys_c2s res | Server \<Rightarrow> keys_s2c res) (hr_session_id res))
      (decoder_new (case rl of Client \<Rightarrow> keys_s2c res | Server \<Rightarrow> keys_c2s res)))"
  using assms(1) by (auto simp: finish_handshake_def issue_ticket_def rl_def Let_def split: if_splits)

text \<open>The exchange: the client connects, the server answers with a challenge, and each side is handed the other's
  last datagram until the third handshake message. Each call has its own environment.\<close>

definition establish ::
  "('n, 'ks, 'kp, 'ds, 'dp, 'f, 'c) deps \<Rightarrow> (nat \<Rightarrow> env) \<Rightarrow> ('n, 'ks, 'kp, 'ds, 'dp, 'f, 'c) connection \<Rightarrow>
     ('n, 'ks, 'kp, 'ds, 'dp, 'f, 'c) connection \<Rightarrow>
     (('n, 'ks, 'kp, 'ds, 'dp, 'f, 'c) connection \<times> ('n, 'ks, 'kp, 'ds, 'dp, 'f, 'c) connection) option" where
  "establish D E c0 s0 =
     (case on_packet D (E 0) (last_sent s0) c0 of Some (Return (_, c1)) \<Rightarrow>
     (case on_packet D (E 1) (last_sent c1) s0 of Some (Return (_, s1)) \<Rightarrow>
     (case on_packet D (E 2) (last_sent s1) c1 of Some (Return (_, c2)) \<Rightarrow>
     (case on_packet D (E 3) (last_sent c2) s1 of Some (Return (_, s2)) \<Rightarrow> Some (c2, s2)
      | _ \<Rightarrow> None) | _ \<Rightarrow> None) | _ \<Rightarrow> None) | _ \<Rightarrow> None)"


lemma connect_state:
  assumes "connect D E dcc sock remote local_id server_x kem_pk pref = Inr c"
  obtains hs where "client_hs c = Some hs" "ch_preferred_cipher hs = pref" "server_kem_pk c = Some kem_pk"
    "phase c = ClientWaitChallenge" "server_identity c = None" "conn_ticket_key c = None"
proof -
  obtain hs where hs: "client_new_with_cipher (d_noise D) (e_random E) local_id server_x pref = Inr hs"
    using assms by (auto simp: connect_def split: prod.splits sum.splits)
  then have "ch_preferred_cipher hs = pref" by (auto simp: client_new_with_cipher_def split: sum.splits)
  with hs that [of hs] assms show thesis
    by (auto simp: connect_def new_base_def new_base_with_tar_def send_to_def split: option.splits)
qed

lemma accept_state:
  assumes "accept_challenge D E dcc sock remote ident factory tk pref = Inr c"
  shows "phase c = ServerWaitCookie" "server_identity c = Some ident" "conn_cookies c = Some factory" "conn_ticket_key c = tk"
    "server_preferred_cipher c = pref" "conn_remote c = remote"
    "last_sent c = PKT_COOKIE_CHALLENGE # cookie_generate (d_prims D) (e_unix_secs E) factory (addr_bytes remote)"
  using assms
  by (auto simp: accept_challenge_def new_base_def new_base_with_tar_def send_to_def Let_def last_sent_def split: option.splits)

lemma client_answers_challenge:
  assumes "phase c = ClientWaitChallenge" "client_hs c = Some hs" "server_kem_pk c = Some kem_pk" "net_up E" "length cookie = 32"
    and "write_msg1 (d_noise D) (d_pq D) hs kem_pk [] = (Inr (), m1, hs')"
  shows "\<exists>c'. on_packet D E (PKT_COOKIE_CHALLENGE # cookie) c = Some (Return (Inr (), c')) \<and> phase c' = ClientWaitMsg2 \<and>
    client_hs c' = Some hs' \<and> server_identity c' = server_identity c \<and> conn_ticket_key c' = conn_ticket_key c \<and>
    last_sent c' = PKT_COOKIE_ECHO # cookie @ u16_to_le (of_nat (length m1)) @ m1"
  using assms by (simp add: on_packet_def client_rx_challenge_def slice_def send_to_up last_sent_def)

lemma server_answers_echo:
  assumes "phase s = ServerWaitCookie" "conn_cookies s = Some f" "server_identity s = Some ident" "net_up E"
    and "length cookie = 32" "length m1 \<le> 65535"
    and "cookie_verify (d_prims D) (e_unix_secs E) f (addr_bytes (conn_remote s)) cookie"
    and "server_new_with_cipher (d_noise D) (e_random E) ident (server_preferred_cipher s) = Inr hs"
    and "read_msg1 (d_noise D) hs m1 = (Inr agreed, hs1)"
    and "write_msg2 (d_noise D) (d_pq D) hs1 (id_kem_pk ident) agreed [] = (Inr (), m2, hs2)"
  shows "\<exists>s'. on_packet D E (PKT_COOKIE_ECHO # cookie @ u16_to_le (of_nat (length m1)) @ m1) s = Some (Return (Inr (), s')) \<and>
    phase s' = ServerWaitMsg3 \<and> server_hs s' = Some hs2 \<and> agreed_cipher s' = agreed \<and> server_identity s' = Some ident \<and>
    conn_ticket_key s' = conn_ticket_key s \<and> last_sent s' = PKT_HANDSHAKE_MSG # m2"
  using assms cookie_echo_fields [OF assms(5,6)]
  by (simp add: on_packet_def server_rx_cookie_echo_def send_to_up last_sent_def Let_def del: append.simps)

lemma client_answers_msg2:
  assumes "phase c = ClientWaitMsg2" "client_hs c = Some hs" "server_identity c = None" "conn_ticket_key c = None" "net_up E"
    and "read_msg2 (d_noise D) (d_pq D) hs m2 = (Inr (kem_pk, agreed), hs')"
    and "write_msg3_and_finish (d_prims D) (d_noise D) (d_pq D) (e_random E) hs' kem_pk agreed [] = Return (Inr res, m3)"
  shows "\<exists>c'. on_packet D E (PKT_HANDSHAKE_MSG # m2) c = Some (Return (Inr (), c')) \<and> phase c' = Established \<and>
    last_sent c' = PKT_HANDSHAKE_MSG # m3 \<and>
    conn_session c' = Some (session_with_role (hr_session_id res) Client
      (encoder_new (keys_c2s res) (hr_session_id res)) (decoder_new (keys_s2c res)))"
proof -
  let ?c = "c\<lparr>client_hs := None, outbox := outbox c @ [(conn_socket c, conn_remote c, PKT_HANDSHAKE_MSG # m3)]\<rparr>"
  obtain c' where "finish_handshake D E res ?c = Return c'" "phase c' = Established" "outbox c' = outbox ?c"
    "conn_session c' = Some (session_with_role (hr_session_id res) Client
      (encoder_new (keys_c2s res) (hr_session_id res)) (decoder_new (keys_s2c res)))"
    using finish_handshake_session [of ?c D E res] assms by auto
  with assms show ?thesis
    by (simp add: on_packet_def client_rx_msg2_def strip_type_def send_to_up last_sent_def)
qed

lemma encode_keeps_keys: "encode P e t p out = (r, out', e') \<Longrightarrow> encoder_keys e' = encoder_keys e"
  by (auto simp: encode_def Let_def split: if_splits sum.splits option.splits prod.splits)

text \<open>A ticket can be issued, if one is to be.\<close>

definition ticket_ready :: "('n, 'ks, 'kp, 'ds, 'dp, 'f, 'c) deps \<Rightarrow> env \<Rightarrow> ticket_key option \<Rightarrow> bool" where
  "ticket_ready D E tk \<longleftrightarrow> (\<forall>k. tk = Some k \<longrightarrow> aead_lawful (d_prims D) \<and> length (tk_key k) = 32 \<and> length (e_random E) = 12)"

lemma issue_ticket_returns:
  assumes "ticket_ready D E (conn_ticket_key c)" and "keys_ok (keys_c2s res)" and "keys_ok (keys_s2c res)"
    and "conn_session c = Some s"
  obtains c' s' where "issue_ticket D E res c = Return c'" "hs_view c' = hs_view c" "conn_session c' = Some s'"
    "ss_role s' = ss_role s" "ss_id s' = ss_id s" "ss_decoder s' = ss_decoder s"
    "encoder_keys (ss_encoder s') = encoder_keys (ss_encoder s)"
proof (cases "conn_ticket_key c")
  case None
  then show thesis using that [of c s] assms(4) by (simp add: issue_ticket_def)
next
  case (Some k)
  obtain ct where "issue (d_prims D) (e_unix_secs E) (e_random E) k (hr_session_id res) (keys_c2s res) (keys_s2c res) = Return ct"
    using assms(1) Some by (auto simp: ticket_ready_def elim!: issued_ticket [OF _ _ _ assms(2,3)])
  moreover obtain r out e where "encode (d_prims D) (ss_encoder s) SessionTicket ct (replicate (32 + length ct + 16) 0) = (r, out, e)"
    by (metis surj_pair)
  moreover from encode_keeps_keys [OF this] have "encoder_keys e = encoder_keys (ss_encoder s)" .
  ultimately show thesis
    using Some assms(4) that [of "_" "s\<lparr>ss_encoder := e\<rparr>"] by (cases r) (simp_all add: issue_ticket_def encode_raw_def)
qed

lemma server_answers_msg3:
  assumes "phase s = ServerWaitMsg3" "server_hs s = Some hs" "server_identity s = Some ident" "ticket_ready D E (conn_ticket_key s)"
    and "read_msg3_and_finish (d_prims D) (d_noise D) (d_pq D) hs (id_kem_sk ident) (agreed_cipher s) m3 = Return (Inr res)"
    and keys: "keys_ok (keys_c2s res)" "keys_ok (keys_s2c res)"
  shows "\<exists>s' ss. on_packet D E (PKT_HANDSHAKE_MSG # m3) s = Some (Return (Inr (), s')) \<and> phase s' = Established \<and>
    conn_session s' = Some ss \<and> ss_role ss = Server \<and> ss_id ss = hr_session_id res \<and>
    encoder_keys (ss_encoder ss) = keys_s2c res \<and> ss_decoder ss = decoder_new (keys_c2s res)"
proof -
  define s0 where "s0 = session_with_role (hr_session_id res) Server (encoder_new (keys_s2c res) (hr_session_id res))
    (decoder_new (keys_c2s res))"
  obtain t where fin: "finish_handshake D E res (s\<lparr>server_hs := None\<rparr>) = issue_ticket D E res (s\<lparr>server_hs := None,
      conn_session := Some s0, peer_pubkey := Some (peer_static_pubkey res), phase := Established, chaff := chaff_enable (chaff s),
      server_identity := None, conn_cookies := None, server_kem_pk := None, tar := t\<rparr>)" (is "_ = issue_ticket D E res ?s")
    using assms(3) by (simp add: finish_handshake_def s0_def Let_def)
  have "ticket_ready D E (conn_ticket_key ?s)" "conn_session ?s = Some s0" using assms(4) by simp_all
  then obtain s' ss where "issue_ticket D E res ?s = Return s'" "hs_view s' = hs_view ?s" "conn_session s' = Some ss"
    "ss_role ss = ss_role s0" "ss_id ss = ss_id s0" "ss_decoder ss = ss_decoder s0"
    "encoder_keys (ss_encoder ss) = encoder_keys (ss_encoder s0)"
    by (rule issue_ticket_returns [OF _ keys])
  with assms fin show ?thesis
    by (simp add: on_packet_def server_rx_msg3_def strip_type_def hs_view_def s0_def session_with_role_def session_with_limits_def
        encoder_new_def)
qed

text \<open>Sessions whose directions fit together.\<close>

definition sessions_match :: "session \<Rightarrow> session \<Rightarrow> bool" where
  "sessions_match cs ss \<longleftrightarrow>
     ss_role cs = Client \<and> ss_role ss = Server \<and> ss_id cs = ss_id ss \<and>
     encoder_keys (ss_encoder cs) = decoder_keys (ss_decoder ss) \<and> encoder_keys (ss_encoder ss) = decoder_keys (ss_decoder cs) \<and>
     keys_ok (encoder_keys (ss_encoder cs)) \<and> keys_ok (encoder_keys (ss_encoder ss))"

definition results_match :: "handshake_result \<Rightarrow> handshake_result \<Rightarrow> bool" where
  "results_match rc rs \<longleftrightarrow> keys_c2s rc = keys_c2s rs \<and> keys_s2c rc = keys_s2c rs \<and> hr_session_id rc = hr_session_id rs \<and>
     keys_ok (keys_c2s rc) \<and> keys_ok (keys_s2c rc)"

lemma finish_pair:
  assumes "length hash = 32" and "kdf_lawful P"
  shows "\<exists>rc rs. finish P hash kc shared sp agreed = Return (Inr rc) \<and> finish P hash ks shared sp agreed = Return (Inr rs) \<and>
    results_match rc rs"
  using keys_ok_directional [OF assms(2)] by (simp add: finish_ok [OF assms(1)] results_match_def)

lemma sessions_from_results:
  "results_match rc rs \<Longrightarrow> ss_role ss = Server \<Longrightarrow> ss_id ss = hr_session_id rs \<Longrightarrow>
     encoder_keys (ss_encoder ss) = keys_s2c rs \<Longrightarrow> ss_decoder ss = decoder_new (keys_c2s rs) \<Longrightarrow>
     sessions_match (session_with_role (hr_session_id rc) Client (encoder_new (keys_c2s rc) (hr_session_id rc)) (decoder_new (keys_s2c rc))) ss"
  by (clarsimp simp: results_match_def sessions_match_def session_with_role_def session_with_limits_def encoder_new_def decoder_new_def)

lemma handshake_steps:
  assumes laws: "pq_lawful (d_pq D)" "kdf_lawful (d_prims D)" "noise_bounded (d_noise D)" and up: "\<And>i. net_up (E i)"
    and client: "connect D Ec dcc csock saddr cid server_x (id_kem_pk ident) pref = Inr c0"
    and server: "accept_challenge D Es dcc' ssock caddr ident (cookie_factory_new secret) tk spref = Inr s0"
    and ticket: "ticket_ready D (E 3) tk"
    and kem: "kem_pair (d_pq D) (id_kem_sk ident) (id_kem_pk ident)"
    and responder: "noise_responder (d_noise D) (e_random (E 1)) (id_x25519_secret ident) = Inr ns"
    and agrees: "\<And>hs. client_hs c0 = Some hs \<Longrightarrow> noise_agrees (d_noise D) (ch_noise hs) ns"
    and fresh: "unat (e_unix_secs (E 1)) div 30 \<in> {unat (e_unix_secs Es) div 30, unat (e_unix_secs Es) div 30 + 1}"
  shows "\<exists>c1 s1 c2 s2 cs ss.
    on_packet D (E 0) (last_sent s0) c0 = Some (Return (Inr (), c1)) \<and> on_packet D (E 1) (last_sent c1) s0 = Some (Return (Inr (), s1)) \<and>
    on_packet D (E 2) (last_sent s1) c1 = Some (Return (Inr (), c2)) \<and> on_packet D (E 3) (last_sent c2) s1 = Some (Return (Inr (), s2)) \<and>
    phase c1 = ClientWaitMsg2 \<and> phase s1 = ServerWaitMsg3 \<and> phase c2 = Established \<and> phase s2 = Established \<and>
    conn_session c2 = Some cs \<and> conn_session s2 = Some ss \<and> sessions_match cs ss"
proof -
  obtain ch where ch: "client_hs c0 = Some ch" "ch_preferred_cipher ch = pref" "server_kem_pk c0 = Some (id_kem_pk ident)"
    "phase c0 = ClientWaitChallenge" "server_identity c0 = None" "conn_ticket_key c0 = None"
    by (rule connect_state [OF client])
  note st = accept_state [OF server]
  define sh where "sh = \<lparr>sh_noise = ns, sh_preferred_cipher = spref\<rparr>"
  define cookie where "cookie = cookie_generate (d_prims D) (e_unix_secs Es) (cookie_factory_new secret) (addr_bytes caddr)"
  have cookie: "length cookie = 32" using laws(2) by (simp add: cookie_def cookie_generate_def cookie_compute_def kdf_lawful_def)
  have new: "server_new_with_cipher (d_noise D) (e_random (E 1)) ident (server_preferred_cipher s0) = Inr sh"
    using responder st(5) by (simp add: server_new_with_cipher_def sh_def)
  have "noise_agrees (d_noise D) (ch_noise ch) (sh_noise sh)" using agrees [OF ch(1)] by (simp add: sh_def)
  then obtain m1 c1 s1 m2 s2 c2 m3 hash sp kc ks p1 agreed where m: "length hash = 32"
    "write_msg1 (d_noise D) (d_pq D) ch (id_kem_pk ident) [] = (Inr (), m1, ch\<lparr>ch_noise := c1\<rparr>)"
    "noise_write_message (d_noise D) (ch_noise ch) p1 = (Inr m1, c1)"
    "read_msg1 (d_noise D) sh m1 = (Inr agreed, sh\<lparr>sh_noise := s1\<rparr>)"
    "write_msg2 (d_noise D) (d_pq D) (sh\<lparr>sh_noise := s1\<rparr>) (id_kem_pk ident) agreed [] = (Inr (), m2, sh\<lparr>sh_noise := s2\<rparr>)"
    "read_msg2 (d_noise D) (d_pq D) (ch\<lparr>ch_noise := c1\<rparr>) m2 = (Inr (id_kem_pk ident, agreed), ch\<lparr>ch_noise := c2\<rparr>)"
    "write_msg3_and_finish (d_prims D) (d_noise D) (d_pq D) (e_random (E 2)) (ch\<lparr>ch_noise := c2\<rparr>) (id_kem_pk ident) agreed [] =
      obind (finish (d_prims D) hash kc (snd (kem_encaps (d_pq D) (e_random (E 2)) (id_kem_pk ident))) sp agreed) (\<lambda>r. Return (r, m3))"
    "read_msg3_and_finish (d_prims D) (d_noise D) (d_pq D) (sh\<lparr>sh_noise := s2\<rparr>) (id_kem_sk ident) agreed m3 =
      finish (d_prims D) hash ks (snd (kem_encaps (d_pq D) (e_random (E 2)) (id_kem_pk ident))) sp agreed"
    by (rule handshake_messages [OF _ laws(1) kem refl])
  have len: "length m1 \<le> 65535" using laws(3) m(3) by (auto simp: noise_bounded_def)
  have ok: "cookie_verify (d_prims D) (e_unix_secs (E 1)) (cookie_factory_new secret) (addr_bytes (conn_remote s0)) cookie"
    using fresh st(6) by (auto simp: cookie_def intro: cookie_accepted)
  from client_answers_challenge [OF ch(4,1,3) up [of 0] cookie m(2)] obtain ca where ca:
    "on_packet D (E 0) (last_sent s0) c0 = Some (Return (Inr (), ca))" "phase ca = ClientWaitMsg2"
    "client_hs ca = Some (ch\<lparr>ch_noise := c1\<rparr>)" "server_identity ca = None" "conn_ticket_key ca = None"
    "last_sent ca = PKT_COOKIE_ECHO # cookie @ u16_to_le (of_nat (length m1)) @ m1"
    using ch(5,6) st(7) by (auto simp: cookie_def)
  from server_answers_echo [OF st(1,3,2) up [of 1] cookie len ok new m(4,5)] obtain sa where sa:
    "on_packet D (E 1) (last_sent ca) s0 = Some (Return (Inr (), sa))" "phase sa = ServerWaitMsg3"
    "server_hs sa = Some (sh\<lparr>sh_noise := s2\<rparr>)" "agreed_cipher sa = agreed" "server_identity sa = Some ident"
    "conn_ticket_key sa = tk" "last_sent sa = PKT_HANDSHAKE_MSG # m2"
    using st(4) ca(6) by auto
  obtain rc rs where r: "finish (d_prims D) hash kc (snd (kem_encaps (d_pq D) (e_random (E 2)) (id_kem_pk ident))) sp agreed = Return (Inr rc)"
    "finish (d_prims D) hash ks (snd (kem_encaps (d_pq D) (e_random (E 2)) (id_kem_pk ident))) sp agreed = Return (Inr rs)"
    "results_match rc rs" using finish_pair [OF m(1) laws(2)] by blast
  from client_answers_msg2 [OF ca(2,3,4,5) up [of 2] m(6), of rc m3] m(7) r(1) sa(7) obtain cb where cb:
    "on_packet D (E 2) (last_sent sa) ca = Some (Return (Inr (), cb))" "phase cb = Established" "last_sent cb = PKT_HANDSHAKE_MSG # m3"
    "conn_session cb = Some (session_with_role (hr_session_id rc) Client (encoder_new (keys_c2s rc) (hr_session_id rc)) (decoder_new (keys_s2c rc)))"
    by auto
  from server_answers_msg3 [OF sa(2,3,5), of D "E 3" m3 rs] m(8) r(2,3) sa(4,6) cb(3) ticket obtain sb ss where
    "on_packet D (E 3) (last_sent cb) sa = Some (Return (Inr (), sb))" "phase sb = Established"
    "conn_session sb = Some ss" "ss_role ss = Server" "ss_id ss = hr_session_id rs"
    "encoder_keys (ss_encoder ss) = keys_s2c rs" "ss_decoder ss = decoder_new (keys_c2s rs)"
    by (auto simp: results_match_def)
  with ca(1,2) sa(1,2) cb(1,2,4) r(3) show ?thesis
    by (intro exI [of _ ca] exI [of _ sa] exI [of _ cb] exI [of _ sb] exI conjI) (auto intro: sessions_from_results)
qed

text \<open>C1: Connecting works. A client that knows the server's keys connects; the server challenges it; each end is handed the
  other's datagrams. When the network carries them, the echo comes back within the lifetime of its cookie
  and the Noise states agree, the four packets bring both connections to the established phase without an error or panic, with
  sessions of the same identifier whose directions use each other's keys.\<close>

theorem connection_established:
  assumes laws: "pq_lawful (d_pq D)" "kdf_lawful (d_prims D)" "noise_bounded (d_noise D)" and up: "\<And>i. net_up (E i)"
    and client: "connect D Ec dcc csock saddr cid server_x (id_kem_pk ident) pref = Inr c0"
    and server: "accept_challenge D Es dcc' ssock caddr ident (cookie_factory_new secret) tk spref = Inr s0"
    and ticket: "ticket_ready D (E 3) tk"
    and kem: "kem_pair (d_pq D) (id_kem_sk ident) (id_kem_pk ident)"
    and responder: "noise_responder (d_noise D) (e_random (E 1)) (id_x25519_secret ident) = Inr ns"
    and agrees: "\<And>hs. client_hs c0 = Some hs \<Longrightarrow> noise_agrees (d_noise D) (ch_noise hs) ns"
    and fresh: "unat (e_unix_secs (E 1)) div 30 \<in> {unat (e_unix_secs Es) div 30, unat (e_unix_secs Es) div 30 + 1}"
  shows "\<exists>c s cs ss. establish D E c0 s0 = Some (c, s) \<and> phase c = Established \<and> phase s = Established \<and>
    conn_session c = Some cs \<and> conn_session s = Some ss \<and> sessions_match cs ss"
proof -
  obtain c1 s1 c2 s2 cs ss where
    "on_packet D (E 0) (last_sent s0) c0 = Some (Return (Inr (), c1))" "on_packet D (E 1) (last_sent c1) s0 = Some (Return (Inr (), s1))"
    "on_packet D (E 2) (last_sent s1) c1 = Some (Return (Inr (), c2))" "on_packet D (E 3) (last_sent c2) s1 = Some (Return (Inr (), s2))"
    "phase c2 = Established" "phase s2 = Established" "conn_session c2 = Some cs" "conn_session s2 = Some ss" "sessions_match cs ss"
    using handshake_steps [where E = E, OF laws up client server ticket kem responder agrees fresh] by blast
  then show ?thesis by (simp add: establish_def)
qed


definition demo_deps :: "(unit, bytes, unit, unit, unit, rat, aimd) deps" where
  "demo_deps =
     \<lparr>d_prims = demo_prims, d_noise = demo_noise, d_pq = demo_pq, d_f64 = rat_floats, d_f32 = rat_floats,
      d_cc = aimd_methods, d_exp_sample = id\<rparr>"

definition demo_env :: env where
  "demo_env =
     \<lparr>e_now = 0, e_unix_secs = 1000, e_unix_us = 0, e_random = [], e_hash_order = (\<lambda>s. map fst (ss_streams s)),
      e_net_error = (\<lambda>_. None)\<rparr>"

definition demo_identity :: "(bytes, unit, unit, unit) identity_keypair" where
  "demo_identity =
     \<lparr>id_x25519_secret = replicate 32 1, id_x25519_public = replicate 32 1, id_kem_pk = (), id_kem_sk = replicate 64 0,
      id_mldsa_sk = (), id_mldsa_pk = ()\<rparr>"

definition demo_addr :: "u16 \<Rightarrow> socket_addr" where
  "demo_addr port = socket_addr_new (V4 0x7F000001) port"

lemma net_up_demo: "net_up demo_env"
  by (simp add: net_up_def demo_env_def)

lemma demo_connects:
  obtains c0 s0 where
    "connect demo_deps demo_env aimd_new (demo_addr 1) (demo_addr 2) demo_identity [] () Aes256Gcm = Inr c0"
    "accept_challenge demo_deps demo_env aimd_new (demo_addr 2) (demo_addr 1) demo_identity (cookie_factory_new (replicate 32 5))
       None Aes256Gcm = Inr s0"
  by (simp add: connect_def accept_challenge_def send_to_up [OF net_up_demo] client_new_with_cipher_def demo_deps_def demo_noise_def)

lemmas demo_laws = ticket_ready_def demo_deps_def pq_lawful_def demo_prims_lawful net_up_demo noise_bounded_def demo_noise_def noise_agrees_def
  demo_identity_def demo_pq_def kem_pair_def pq_sizes

lemma demo_handshake:
  assumes "connect demo_deps demo_env aimd_new (demo_addr 1) (demo_addr 2) demo_identity [] () Aes256Gcm = Inr c0"
    and "accept_challenge demo_deps demo_env aimd_new (demo_addr 2) (demo_addr 1) demo_identity (cookie_factory_new (replicate 32 5))
      None Aes256Gcm = Inr s0"
  shows "\<exists>c1 b c2. on_packet demo_deps demo_env (last_sent s0) c0 = Some (Return (Inr (), c1)) \<and>
    on_packet demo_deps demo_env b c1 = Some (Return (Inr (), c2)) \<and> phase c2 = Established"
proof -
  have "\<exists>c1 s1 c2 s2 cs ss.
    on_packet demo_deps demo_env (last_sent s0) c0 = Some (Return (Inr (), c1)) \<and> on_packet demo_deps demo_env (last_sent c1) s0 = Some (Return (Inr (), s1)) \<and>
    on_packet demo_deps demo_env (last_sent s1) c1 = Some (Return (Inr (), c2)) \<and> on_packet demo_deps demo_env (last_sent c2) s1 = Some (Return (Inr (), s2)) \<and>
    phase c1 = ClientWaitMsg2 \<and> phase s1 = ServerWaitMsg3 \<and> phase c2 = Established \<and> phase s2 = Established \<and>
    conn_session c2 = Some cs \<and> conn_session s2 = Some ss \<and> sessions_match cs ss"
    by (rule handshake_steps [where ns = "()" and D = demo_deps and ident = demo_identity and E = "\<lambda>_. demo_env", OF _ _ _ _ _ assms(2)])
      (use assms(1) in \<open>simp_all add: demo_laws split: if_splits\<close>)
  then show ?thesis by blast
qed

theorem connection_established_witness:
  "\<exists>c0 s0 c s cs ss.
     connect demo_deps demo_env aimd_new (demo_addr 1) (demo_addr 2) demo_identity [] () Aes256Gcm = Inr c0 \<and>
     accept_challenge demo_deps demo_env aimd_new (demo_addr 2) (demo_addr 1) demo_identity (cookie_factory_new (replicate 32 5))
       None Aes256Gcm = Inr s0 \<and>
     establish demo_deps (\<lambda>_. demo_env) c0 s0 = Some (c, s) \<and> phase c = Established \<and> phase s = Established \<and>
     conn_session c = Some cs \<and> conn_session s = Some ss \<and> sessions_match cs ss"
proof -
  obtain c0 s0 where c0: "connect demo_deps demo_env aimd_new (demo_addr 1) (demo_addr 2) demo_identity [] () Aes256Gcm = Inr c0"
    and s0: "accept_challenge demo_deps demo_env aimd_new (demo_addr 2) (demo_addr 1) demo_identity
      (cookie_factory_new (replicate 32 5)) None Aes256Gcm = Inr s0" by (rule demo_connects)
  have "\<exists>c s cs ss. establish demo_deps (\<lambda>_. demo_env) c0 s0 = Some (c, s) \<and> phase c = Established \<and> phase s = Established \<and>
     conn_session c = Some cs \<and> conn_session s = Some ss \<and> sessions_match cs ss"
    by (rule connection_established [where ns = "()" and D = demo_deps and ident = demo_identity, OF _ _ _ _ _ s0])
      (use c0 in \<open>simp_all add: demo_laws split: if_splits\<close>)
  with c0 s0 show ?thesis by blast
qed

section \<open>Cookies and forged packets\<close>

text \<open>Before the cookie is verified, nothing of a packet reaches the connection: it is refused, and the server has
  neither sent anything nor changed.\<close>

theorem cookie_guards_server:
  assumes "phase s = ServerWaitCookie" and "conn_cookies s = Some f" and "buf \<noteq> []"
    and "length buf < 35 \<or> \<not> cookie_verify (d_prims D) (e_unix_secs E) f (addr_bytes (conn_remote s)) (slice buf 1 33)"
  shows "\<exists>e. on_packet D E buf s = Some (Return (Inl e, s))"
  using assms by (auto simp: on_packet_def server_rx_cookie_echo_def Let_def)

text \<open>A third message that does not verify ends the handshake for good: the handshake state has been taken, so the genuine
  message is refused as well.\<close>

theorem forged_msg3_kills_handshake:
  assumes "phase s = ServerWaitMsg3" and "server_hs s = Some hs" and "server_identity s = Some ident"
    and "read_msg3_and_finish (d_prims D) (d_noise D) (d_pq D) hs (id_kem_sk ident) (agreed_cipher s) m = Return (Inl e)"
  shows "\<exists>s'. on_packet D E (PKT_HANDSHAKE_MSG # m) s = Some (Return (Inl e, s')) \<and> phase s' = ServerWaitMsg3 \<and>
    (\<forall>E' buf. buf \<noteq> [] \<longrightarrow> (\<exists>e'. on_packet D E' buf s' = Some (Return (Inl e', s'))))"
  using assms by (auto simp: on_packet_def server_rx_msg3_def strip_type_def Let_def split: sum.split)

section \<open>A blocked data packet\<close>

text \<open>When the first packet of a flush is data and the congestion window has no room, nothing is sent: neither that
  packet nor the control packets behind it, although the session has already forgotten those.\<close>

theorem blocked_flush_sends_nothing:
  assumes "conn_session c = Some s" and "flush (d_prims D) (e_now E) (e_hash_order E s) s = Return (Inr (tp # tps), s')"
    and "\<not> is_control tp"
    and "\<not> admitted D (length (fst (shape_packet (tar c) (pkt_bytes tp)))) c"
  shows "\<exists>c'. conn_flush D E c = Return (Inr (), c') \<and> outbox c' = outbox c \<and> conn_session c' = Some s'"
  using assms by (simp add: conn_flush_def split_beta Let_def admitted_def)

section \<open>The congestion window\<close>

lemma fold_send_to_fields [simp]:
  "cc (foldl (\<lambda>c rep. snd (send_to E (conn_socket c) (f rep) c)) c reps) = cc c"
  "phase (foldl (\<lambda>c rep. snd (send_to E (conn_socket c) (f rep) c)) c reps) = phase c"
  "conn_session (foldl (\<lambda>c rep. snd (send_to E (conn_socket c) (f rep) c)) c reps) = conn_session c"
  "prober (foldl (\<lambda>c rep. snd (send_to E (conn_socket c) (f rep) c)) c reps) = prober c"
  "migration_sockets (foldl (\<lambda>c rep. snd (send_to E (conn_socket c) (f rep) c)) c reps) = migration_sockets c"
  "hs_view (foldl (\<lambda>c rep. snd (send_to E (conn_socket c) (f rep) c)) c reps) = hs_view c"
  by (induction reps arbitrary: c) simp_all

lemma fec_after_send_fields:
  "fec_after_send E k r b c = Return c' \<Longrightarrow> cc c' = cc c \<and> phase c' = phase c \<and> conn_session c' = conn_session c \<and>
     prober c' = prober c \<and> migration_sockets c' = migration_sockets c \<and> hs_view c' = hs_view c"
  by (auto simp: fec_after_send_def Let_def obind_Return split: option.splits)

lemma fec_step_fields:
  "fec_step E fec b c = Return c' \<Longrightarrow> cc c' = cc c \<and> phase c' = phase c \<and> conn_session c' = conn_session c \<and>
     prober c' = prober c \<and> migration_sockets c' = migration_sockets c \<and> hs_view c' = hs_view c"
  by (auto simp: fec_step_def split: option.splits prod.splits dest: fec_after_send_fields)

text \<open>An invariant of the steps of the loop is one of the loop.\<close>

lemma flush_loop_inv:
  assumes run: "flush_loop D E fec tps c = Return (r, c')" and "I c"
    and shape: "\<And>c t. I c \<Longrightarrow> I (c\<lparr>last_send := e_now E, tar := t\<rparr>)"
    and count: "\<And>c n. I c \<Longrightarrow> I (c\<lparr>send_counter := n\<rparr>)"
    and send: "\<And>c o'. I c \<Longrightarrow> I (c\<lparr>outbox := o'\<rparr>)"
    and account: "\<And>c n. I c \<Longrightarrow> admitted D n c \<Longrightarrow> I (account_send D E n c)"
    and fec_ok: "\<And>c b c'. I c \<Longrightarrow> fec_step E fec b c = Return c' \<Longrightarrow> I c'"
  shows "I c'"
  using run \<open>I c\<close>
proof (induction tps arbitrary: c)
  case (Cons tp tps)
  obtain w t where wt: "shape_packet (tar c) (pkt_bytes tp) = (w, t)" by force
  define c1 where "c1 = c\<lparr>last_send := e_now E, tar := t\<rparr>"
  define c2 where "c2 = c1\<lparr>outbox := outbox c1 @ [(conn_socket c1, conn_remote c1, w)]\<rparr>"
  have I1: "I c1" using shape Cons.prems(2) by (simp add: c1_def)
  have I2: "I c2" unfolding c2_def using send I1 by blast
  have adm: "admitted D n c2 = admitted D n c1" for n by (simp add: admitted_def c2_def)
  note run' = Cons.prems(1) [unfolded flush_loop.simps wt Let_def prod.case, folded c1_def]
  show ?case
  proof (cases rule: send_to_cases [of E "conn_socket c1" w c1])
    case (1 e)
    then show ?thesis using run' I1 by (auto split: if_splits)
  next
    case 2
    then have s: "send_to E (conn_socket c1) w c1 = (Inr (), c2)" by (simp add: c2_def)
    consider (control) "is_control tp" | (blocked) "\<not> is_control tp" "\<not> admitted D (length w) c1"
      | (data) "\<not> is_control tp" "admitted D (length w) c1" by blast
    then show ?thesis
    proof cases
      case control
      then show ?thesis using run' s Cons.IH count [OF I2] by simp
    next
      case blocked
      then show ?thesis using run' I1 by simp
    next
      case data
      then obtain c3 where "fec_step E fec (pkt_bytes tp) (account_send D E (length w) c2) = Return c3"
        "flush_loop D E fec tps c3 = Return (r, c')" using run' s by (auto simp: obind_Return)
      with Cons.IH fec_ok account [OF I2] data adm show ?thesis by blast
    qed
  qed
qed simp

lemma conn_flush_cases:
  assumes "conn_flush D E c = Return (r, c')"
  obtains (idle) "conn_session c = None" "c' = c"
  | (nothing) s s' where "conn_session c = Some s" "c' = c\<lparr>conn_session := Some s'\<rparr>"
  | (packets) s s' fec ps where "conn_session c = Some s" "flush_loop D E fec ps (c\<lparr>conn_session := Some s'\<rparr>) = Return (r, c')"
proof (cases "conn_session c")
  case None
  then have "c' = c" using assms by (simp add: conn_flush_def)
  then show thesis by (rule idle [OF None])
next
  case (Some s)
  with assms obtain res s' where f: "flush (d_prims D) (e_now E) (e_hash_order E s) s = Return (res, s')"
    and rest: "(case res of Inl e \<Rightarrow> Return (Inl e, c\<lparr>conn_session := Some s'\<rparr>)
      | Inr packets \<Rightarrow> if packets = [] then Return (Inr (), c\<lparr>conn_session := Some s'\<rparr>)
          else flush_loop D E (fec_parameters (arb_mode (conn_arbiter c))) packets (c\<lparr>conn_session := Some s'\<rparr>)) = Return (r, c')"
    by (auto simp: conn_flush_def obind_Return)
  show thesis
  proof (cases res)
    case (Inl e)
    then have "c' = c\<lparr>conn_session := Some s'\<rparr>" using rest by simp
    with Some show thesis by (rule nothing)
  next
    case (Inr ps)
    show thesis
    proof (cases "ps = []")
      case True
      then have "c' = c\<lparr>conn_session := Some s'\<rparr>" using rest Inr by simp
      with Some show thesis by (rule nothing)
    next
      case False
      then have "flush_loop D E (fec_parameters (arb_mode (conn_arbiter c))) ps (c\<lparr>conn_session := Some s'\<rparr>) = Return (r, c')"
        using rest Inr by simp
      with Some show thesis by (rule packets)
    qed
  qed
qed

text \<open>What a flush sends, by itself. A packet goes out as the traffic shaping makes it; each data packet that goes out counts
  with the length of that form, a control packet counts nothing, and after a data packet the repair symbols of a
  complete group may follow, uncounted, when error correction is on. The packets that are not sent are the last ones.\<close>

definition wire_form :: "tar_state \<Rightarrow> tagged_packet \<Rightarrow> bytes \<Rightarrow> bool" where
  "wire_form t tp w \<longleftrightarrow>
     (\<exists>t'. tar_cfg t' = tar_cfg t \<and> obfuscation_secret t' = obfuscation_secret t \<and> fst (shape_packet t' (pkt_bytes tp)) = w)"

inductive flush_sends :: "tar_state \<Rightarrow> bool \<Rightarrow> tagged_packet list \<Rightarrow> bytes list \<Rightarrow> nat \<Rightarrow> tagged_packet list \<Rightarrow> bool" for t fec where
  stop: "flush_sends t fec tps [] 0 tps"
| control: "is_control tp \<Longrightarrow> wire_form t tp w \<Longrightarrow> flush_sends t fec tps out n rest \<Longrightarrow> flush_sends t fec (tp # tps) (w # out) n rest"
| data: "\<not> is_control tp \<Longrightarrow> wire_form t tp w \<Longrightarrow> fec \<or> reps = [] \<Longrightarrow> flush_sends t fec tps out n rest \<Longrightarrow>
    flush_sends t fec (tp # tps) (w # map repair_to_bytes reps @ out) (unat (of_nat (length w) :: u64) + n) rest"

definition to_peer :: "('n, 'ks, 'kp, 'ds, 'dp, 'f, 'c) connection \<Rightarrow> bytes \<Rightarrow> socket_addr \<times> socket_addr \<times> bytes" where
  "to_peer c b = (conn_socket c, conn_remote c, b)"

text \<open>The state of the shaping, the peer and the controllers, as far as sending depends on them.\<close>

definition same_path :: "('n, 'ks, 'kp, 'ds, 'dp, 'f, 'c) connection \<Rightarrow> ('n, 'ks, 'kp, 'ds, 'dp, 'f, 'c) connection \<Rightarrow> bool" where
  "same_path c c' \<longleftrightarrow> tar_cfg (tar c') = tar_cfg (tar c) \<and> obfuscation_secret (tar c') = obfuscation_secret (tar c) \<and> to_peer c' = to_peer c"

lemma wire_form_same: "same_path c c' \<Longrightarrow> wire_form (tar c') = wire_form (tar c)"
  by (simp add: same_path_def wire_form_def fun_eq_iff)

lemma flush_sends_same: "same_path c c' \<Longrightarrow> flush_sends (tar c') fec tps out n rest \<Longrightarrow> flush_sends (tar c) fec tps out n rest"
  by (rotate_tac, induction rule: flush_sends.induct) (auto simp: wire_form_same intro: flush_sends.intros)

lemma shape_packet_keeps:
  "shape_packet t b = (w, t') \<Longrightarrow> tar_cfg t' = tar_cfg t \<and> obfuscation_secret t' = obfuscation_secret t"
  by (auto simp: shape_packet_def tar_jitter_delay_def maybe_pad_def Let_def split: prod.splits if_splits)

lemma on_real_send_keeps [simp]:
  "tar_cfg (on_real_send now t n) = tar_cfg t" "obfuscation_secret (on_real_send now t n) = obfuscation_secret t"
  by (simp_all add: on_real_send_def Let_def split: option.split)

lemma repairs_sent:
  "\<exists>reps'. foldl (\<lambda>c rep. snd (send_to E (conn_socket c) (repair_to_bytes rep) c)) c reps =
     c\<lparr>outbox := outbox c @ map (to_peer c) (map repair_to_bytes reps')\<rparr>"
proof (induction reps rule: rev_induct)
  case Nil
  then show ?case by (intro exI [of _ "[]"]) simp
next
  case (snoc rep reps)
  then obtain reps' where IH: "foldl (\<lambda>c rep. snd (send_to E (conn_socket c) (repair_to_bytes rep) c)) c reps =
    c\<lparr>outbox := outbox c @ map (to_peer c) (map repair_to_bytes reps')\<rparr>" by blast
  show ?case
  proof (cases "e_net_error E (conn_socket c, conn_remote c, repair_to_bytes rep)")
    case None
    with IH show ?thesis by (intro exI [of _ "reps' @ [rep]"]) (simp add: send_to_def to_peer_def)
  qed (use IH in \<open>auto simp: send_to_def\<close>)
qed

lemma fec_step_sends:
  assumes "fec_step E fec b c = Return c'"
  shows "\<exists>reps. (fec \<noteq> None \<or> reps = []) \<and> outbox c' = outbox c @ map (to_peer c) (map repair_to_bytes reps) \<and> same_path c c' \<and>
    cc c' = cc c \<and> bbr_ctl c' = bbr_ctl c"
proof (cases fec)
  case None
  then show ?thesis using assms by (intro exI [of _ "[]"]) (simp add: fec_step_def same_path_def)
next
  case (Some kr)
  from assms Some obtain res enc' where c': "c' = (case res of None \<Rightarrow> c\<lparr>fec_enc := Some enc'\<rparr>
      | Some repairs \<Rightarrow> foldl (\<lambda>c rep. snd (send_to E (conn_socket c) (repair_to_bytes rep) c))
          (c\<lparr>fec_enc := Some enc', fec_group_id := fec_group_id c + 1\<rparr>) repairs)"
    by (auto simp: fec_step_def fec_after_send_def Let_def obind_Return split: prod.splits)
  show ?thesis
  proof (cases res)
    case None
    then show ?thesis using c' by (intro exI [of _ "[]"]) (simp add: same_path_def to_peer_def fun_eq_iff)
  next
    case (Some repairs)
    obtain reps' where "c' = c\<lparr>fec_enc := Some enc', fec_group_id := fec_group_id c + 1,
        outbox := outbox c @ map (to_peer (c\<lparr>fec_enc := Some enc', fec_group_id := fec_group_id c + 1\<rparr>)) (map repair_to_bytes reps')\<rparr>"
      using repairs_sent [of E "c\<lparr>fec_enc := Some enc', fec_group_id := fec_group_id c + 1\<rparr>" repairs] c' Some by auto
    then show ?thesis using \<open>fec = Some kr\<close> by (intro exI [of _ reps']) (simp add: same_path_def to_peer_def fun_eq_iff)
  qed
qed

context congestion_control
begin

text \<open>An admitted data packet fits, and is counted with its length.\<close>

lemma admitted_send:
  assumes "d_cc D = M" and "admitted D n c"
  shows "unat (bytes_in_flight M (cc (account_send D E n c))) = unat (bytes_in_flight M (cc c)) + unat (of_nat n :: u64)"
    and "unat (of_nat n :: u64) = 0 \<or> bytes_in_flight M (cc (account_send D E n c)) \<le> cwnd M (cc (account_send D E n c))"
    and "cwnd M (cc (account_send D E n c)) = cwnd M (cc c)"
proof -
  have cc': "cc (account_send D E n c) = cc_on_send M (of_nat n) (cc c)" using assms(1) by (simp add: account_send_def)
  have room: "of_nat n \<le> available M (cc c)" using assms by (simp add: admitted_def not_less)
  show "unat (bytes_in_flight M (cc (account_send D E n c))) = unat (bytes_in_flight M (cc c)) + unat (of_nat n :: u64)"
  proof (cases "of_nat n = (0 :: u64)")
    case True
    then show ?thesis using unsigned_less [of "bytes_in_flight M (cc c)", where 'a = nat] by (simp add: cc' send_flight sat_add_def)
  next
    case False
    then show ?thesis using guarded_send(2) [OF room] by (simp add: cc' word_gt_0)
  qed
  show "unat (of_nat n :: u64) = 0 \<or> bytes_in_flight M (cc (account_send D E n c)) \<le> cwnd M (cc (account_send D E n c))"
    using guarded_send(1) [OF room] by (auto simp: cc' word_gt_0 unat_eq_0)
  show "cwnd M (cc (account_send D E n c)) = cwnd M (cc c)" by (simp add: cc' send_cwnd)
qed

text \<open>The account of a flush: what it sent, what it counted, and why it stopped.\<close>

definition flush_account ::
  "('n, 'ks, 'kp, 'ds, 'dp, 'f, 'c) deps \<Rightarrow> bool \<Rightarrow> tagged_packet list \<Rightarrow> ('n, 'ks, 'kp, 'ds, 'dp, 'f, 'c) connection \<Rightarrow>
     seam_error + unit \<Rightarrow> ('n, 'ks, 'kp, 'ds, 'dp, 'f, 'c) connection \<Rightarrow> bool" where
  "flush_account D fec tps c r c' \<longleftrightarrow>
     (\<exists>out n rest. flush_sends (tar c) fec tps out n rest \<and> outbox c' = outbox c @ map (to_peer c) out \<and>
        unat (bytes_in_flight M (cc c')) = unat (bytes_in_flight M (cc c)) + n \<and> cwnd M (cc c') = cwnd M (cc c) \<and>
        (n = 0 \<or> bytes_in_flight M (cc c') \<le> cwnd M (cc c')) \<and>
        (r = Inr () \<longrightarrow> rest = [] \<or> \<not> is_control (hd rest) \<and> (\<exists>w. wire_form (tar c) (hd rest) w \<and> \<not> admitted D (length w) c')))"

lemma flush_account_stop:
  assumes "same_path c c'" "outbox c' = outbox c" "cc c' = cc c"
    and "r = Inr () \<longrightarrow> tps = [] \<or> \<not> is_control (hd tps) \<and> (\<exists>w. wire_form (tar c) (hd tps) w \<and> \<not> admitted D (length w) c')"
  shows "flush_account D fec tps c r c'"
  using assms flush_sends.stop [of "tar c" fec tps] unfolding flush_account_def by fastforce

lemma flush_account_control:
  assumes "same_path c c1" "outbox c1 = outbox c @ [to_peer c w]" "cc c1 = cc c" "is_control tp" "wire_form (tar c) tp w"
    and "flush_account D fec tps c1 r c'"
  shows "flush_account D fec (tp # tps) c r c'"
proof -
  from assms(6) obtain out n rest where rest: "flush_sends (tar c1) fec tps out n rest" "outbox c' = outbox c1 @ map (to_peer c1) out"
    "unat (bytes_in_flight M (cc c')) = unat (bytes_in_flight M (cc c1)) + n" "cwnd M (cc c') = cwnd M (cc c1)"
    "n = 0 \<or> bytes_in_flight M (cc c') \<le> cwnd M (cc c')"
    "r = Inr () \<longrightarrow> rest = [] \<or> \<not> is_control (hd rest) \<and> (\<exists>w. wire_form (tar c1) (hd rest) w \<and> \<not> admitted D (length w) c')"
    unfolding flush_account_def by blast
  have "flush_sends (tar c) fec (tp # tps) (w # out) n rest"
    by (rule flush_sends.control [OF assms(4,5) flush_sends_same [OF assms(1) rest(1)]])
  moreover have "to_peer c1 = to_peer c" using assms(1) by (simp add: same_path_def)
  ultimately show ?thesis using assms(2,3) rest(2-6) wire_form_same [OF assms(1)] unfolding flush_account_def by fastforce
qed

lemma flush_account_data:
  assumes "same_path c c1" "outbox c1 = outbox c @ map (to_peer c) (w # map repair_to_bytes reps)" "fec \<or> reps = []"
    and "unat (bytes_in_flight M (cc c1)) = unat (bytes_in_flight M (cc c)) + unat (of_nat (length w) :: u64)"
    and "unat (of_nat (length w) :: u64) = 0 \<or> bytes_in_flight M (cc c1) \<le> cwnd M (cc c1)" "cwnd M (cc c1) = cwnd M (cc c)"
    and "\<not> is_control tp" "wire_form (tar c) tp w" and "flush_account D fec tps c1 r c'"
  shows "flush_account D fec (tp # tps) c r c'"
proof -
  from assms(9) obtain out n rest where rest: "flush_sends (tar c1) fec tps out n rest" "outbox c' = outbox c1 @ map (to_peer c1) out"
    "unat (bytes_in_flight M (cc c')) = unat (bytes_in_flight M (cc c1)) + n" "cwnd M (cc c') = cwnd M (cc c1)"
    "n = 0 \<or> bytes_in_flight M (cc c') \<le> cwnd M (cc c')"
    "r = Inr () \<longrightarrow> rest = [] \<or> \<not> is_control (hd rest) \<and> (\<exists>w. wire_form (tar c1) (hd rest) w \<and> \<not> admitted D (length w) c')"
    unfolding flush_account_def by blast
  let ?n = "unat (of_nat (length w) :: u64) + n"
  have "flush_sends (tar c) fec (tp # tps) (w # map repair_to_bytes reps @ out) ?n rest"
    by (rule flush_sends.data [OF assms(7,8,3) flush_sends_same [OF assms(1) rest(1)]])
  moreover have "outbox c' = outbox c @ map (to_peer c) (w # map repair_to_bytes reps @ out)"
    using rest(2) assms(1,2) by (simp add: same_path_def)
  moreover have "?n = 0 \<or> bytes_in_flight M (cc c') \<le> cwnd M (cc c')"
  proof (cases "n = 0")
    case True
    then have "bytes_in_flight M (cc c') = bytes_in_flight M (cc c1)" using rest(3) by (simp add: word_unat_eq_iff)
    with assms(5) True rest(4) show ?thesis by auto
  qed (use rest(5) in simp)
  moreover have "unat (bytes_in_flight M (cc c')) = unat (bytes_in_flight M (cc c)) + ?n" "cwnd M (cc c') = cwnd M (cc c)"
    using rest(3,4) assms(4,6) by simp_all
  moreover note rest(6) [unfolded wire_form_same [OF assms(1)]]
  ultimately show ?thesis unfolding flush_account_def by blast
qed

lemma flush_loop_account:
  fixes c :: "('n, 'ks, 'kp, 'ds, 'dp, 'f, 'c) connection"
  assumes "d_cc D = M" and "flush_loop D E fec tps c = Return (r, c')"
  shows "flush_account D (fec \<noteq> None) tps c r c'"
  using assms(2)
proof (induction tps arbitrary: c)
  case Nil
  then show ?case by (intro flush_account_stop) (auto simp: same_path_def)
next
  case (Cons tp tps)
  obtain w t where wt: "shape_packet (tar c) (pkt_bytes tp) = (w, t)" by force
  define c1 where "c1 = c\<lparr>last_send := e_now E, tar := t\<rparr>"
  define c2 where "c2 = c1\<lparr>outbox := outbox c1 @ [(conn_socket c1, conn_remote c1, w)]\<rparr>"
  have wf: "wire_form (tar c) tp w" using wt by (metis wire_form_def fst_conv)
  have same: "same_path c c1" "same_path c (c2\<lparr>send_counter := k\<rparr>)" "same_path c (account_send D E n c2)" for k n
    using shape_packet_keeps [OF wt] by (simp_all add: same_path_def c1_def c2_def account_send_def to_peer_def fun_eq_iff)
  have box: "outbox c2 = outbox c @ [to_peer c w]" "outbox c1 = outbox c" "cc c2 = cc c" "cc c1 = cc c"
    by (simp_all add: c2_def c1_def to_peer_def)
  note run = Cons.prems [unfolded flush_loop.simps wt Let_def prod.case, folded c1_def]
  consider (blocked) "\<not> is_control tp" "\<not> admitted D (length w) c1" "r = Inr ()" "c' = c1"
    | (failed) e where "r = Inl e" "c' = c1"
    | (control) "is_control tp" "flush_loop D E fec tps (c2\<lparr>send_counter := send_counter c2 + 1\<rparr>) = Return (r, c')"
    | (data) c3 where "\<not> is_control tp" "admitted D (length w) c1" "flush_loop D E fec tps c3 = Return (r, c')"
        "fec_step E fec (pkt_bytes tp) (account_send D E (length w) c2) = Return c3"
    using run by (cases rule: send_to_cases [of E "conn_socket c1" w c1]) (auto simp: c2_def obind_Return split: if_splits)
  then show ?case
  proof cases
    case blocked
    then show ?thesis using same(1) box wf by (intro flush_account_stop) auto
  next
    case failed
    then show ?thesis using same(1) box by (intro flush_account_stop) auto
  next
    case control
    show ?thesis by (rule flush_account_control [OF same(2) _ _ control(1) wf Cons.IH [OF control(2)]]) (simp_all add: box)
  next
    case data
    from fec_step_sends [OF data(4)] obtain reps where reps: "fec \<noteq> None \<or> reps = []"
      "outbox c3 = outbox c2 @ map (to_peer (account_send D E (length w) c2)) (map repair_to_bytes reps)"
      "same_path (account_send D E (length w) c2) c3" "cc c3 = cc (account_send D E (length w) c2)"
      by (auto simp: account_send_def)
    have same3: "same_path c c3" using same(3) [of "length w"] reps(3) by (simp add: same_path_def)
    have "outbox c3 = outbox c @ map (to_peer c) (w # map repair_to_bytes reps)"
      using reps(2) same(3) [of "length w"] box by (simp add: same_path_def)
    moreover have "admitted D (length w) c2" using data(2) by (simp add: admitted_def c2_def)
    note sent = admitted_send [OF assms(1) this, where E = E]
    ultimately show ?thesis
      by (intro flush_account_data [OF same3 _ reps(1) _ _ _ data(1) wf Cons.IH [OF data(3)]])
        (simp_all add: reps(4) box)
  qed
qed

lemma conn_flush_account:
  assumes "d_cc D = M" and "conn_session c = Some s" and "flush (d_prims D) (e_now E) (e_hash_order E s) s = Return (Inr ps, s')"
    and "conn_flush D E c = Return (r, c')"
  shows "flush_account D (fec_parameters (arb_mode (conn_arbiter c)) \<noteq> None) ps c r c'"
proof (cases "ps = []")
  case True
  with assms show ?thesis by (intro flush_account_stop) (auto simp: conn_flush_def same_path_def to_peer_def)
next
  case False
  with assms have "flush_loop D E (fec_parameters (arb_mode (conn_arbiter c))) ps (c\<lparr>conn_session := Some s'\<rparr>) = Return (r, c')"
    by (simp add: conn_flush_def)
  from flush_loop_account [OF assms(1) this] show ?thesis by (simp add: flush_account_def to_peer_def [abs_def])
qed

end





section \<open>The life of a connection\<close>

inductive conn_step ::
  "('n, 'ks, 'kp, 'ds, 'dp, 'f, 'c) deps \<Rightarrow> ('n, 'ks, 'kp, 'ds, 'dp, 'f, 'c) connection \<Rightarrow>
     ('n, 'ks, 'kp, 'ds, 'dp, 'f, 'c) connection \<Rightarrow> bool" for D where
  packet: "on_packet D E buf c = Some (Return (r, c')) \<Longrightarrow> conn_step D c c'"
| flushed: "conn_flush D E c = Return (r, c') \<Longrightarrow> conn_step D c c'"
| cover: "conn_step D c (snd (maybe_send_cover D E c))"
| chaffed: "conn_step D c (snd (maybe_send_chaff D E c))"
| probed: "conn_step D c (snd (maybe_send_probe D E c))"
| migrated: "conn_step D c (snd (maybe_migrate D E ips c))"
| retransmitted: "conn_step D c (snd (retransmit_expired D E c))"
| ticked: "conn_step D c (tick_fec D c)"
| pinged: "conn_step D c (maybe_queue_ping now c)"
| closed: "conn_step D c (close c)"
| reconfigured: "conn_step D c (set_tar_config cfg c)"
| replaced: "conn_step D c (set_congestion_controller new_cc c)"
| application: "conn_session c = Some s \<Longrightarrow> conn_step D c (c\<lparr>conn_session := Some s'\<rparr>)"

text \<open>A connection as its two constructors make it, after any steps.\<close>

inductive conn_reachable ::
  "('n, 'ks, 'kp, 'ds, 'dp, 'f, 'c) deps \<Rightarrow> ('n, 'ks, 'kp, 'ds, 'dp, 'f, 'c) connection \<Rightarrow> bool" for D where
  connected: "connect_with_tar D E dcc sock remote ident x kem_pk pref cfg = Inr c \<Longrightarrow> conn_reachable D c"
| accepted: "accept_challenge D E dcc sock remote ident factory tk pref = Inr c \<Longrightarrow> conn_reachable D c"
| step: "conn_reachable D c \<Longrightarrow> conn_step D c c' \<Longrightarrow> conn_reachable D c'"

definition conn_ok :: "('n, 'ks, 'kp, 'ds, 'dp, 'f, 'c) connection \<Rightarrow> bool" where
  "conn_ok c \<longleftrightarrow>
     (phase c = Established \<longrightarrow> conn_session c \<noteq> None \<and> peer_pubkey c \<noteq> None \<and>
        server_identity c = None \<and> conn_cookies c = None \<and> server_kem_pk c = None) \<and>
     (phase c \<in> {ClientWaitChallenge, ClientWaitMsg2, ServerWaitCookie, ServerWaitMsg3} \<longrightarrow> conn_session c = None) \<and>
     consecutive_timeouts (prober c) = 0 \<and> migration_sockets c = []"

text \<open>What most operations leave alone.\<close>

definition keeps ::
  "('n, 'ks, 'kp, 'ds, 'dp, 'f, 'c) connection \<Rightarrow> ('n, 'ks, 'kp, 'ds, 'dp, 'f, 'c) connection \<Rightarrow> bool" where
  "keeps c c' \<longleftrightarrow> hs_view c' = hs_view c \<and> (conn_session c' = None \<longleftrightarrow> conn_session c = None) \<and>
     consecutive_timeouts (prober c') = consecutive_timeouts (prober c) \<and> migration_sockets c' = migration_sockets c"

lemma keeps_refl [simp]: "keeps c c"
  by (simp add: keeps_def)

lemma keeps_trans: "keeps a b \<Longrightarrow> keeps b c \<Longrightarrow> keeps a c"
  by (simp add: keeps_def)

lemma keeps_ok: "keeps c c' \<Longrightarrow> conn_ok c \<Longrightarrow> conn_ok c'"
  by (simp add: keeps_def conn_ok_def hs_view_def)

lemma send_to_keeps [simp]: "keeps c (snd (send_to E sock b c'')) \<longleftrightarrow> keeps c c''"
  by (simp add: keeps_def)

lemma conn_flush_keeps:
  assumes "conn_flush D E c = Return (r, c')"
  shows "keeps c c'"
proof (cases rule: conn_flush_cases [OF assms])
  case (3 s s' fec ps)
  show ?thesis
  proof (rule flush_loop_inv [OF 3(2), where I = "keeps c"])
    show "keeps c (c\<lparr>conn_session := Some s'\<rparr>)" using 3(1) by (simp add: keeps_def hs_view_def)
  qed (auto simp: keeps_def hs_view_def account_send_def dest!: fec_step_fields)
qed (auto simp: keeps_def hs_view_def)

lemma timers_keep:
  "keeps c (snd (maybe_send_cover D E c))" "keeps c (snd (maybe_send_chaff D E c))" "keeps c (tick_fec D c)"
  "keeps c (maybe_queue_ping now c)" "keeps c (set_tar_config cfg c)" "keeps c (snd (maybe_send_probe D E c))"
  "keeps c (set_congestion_controller new_cc c)"
  by (auto simp: keeps_def hs_view_def set_congestion_controller_def maybe_send_cover_def maybe_send_chaff_def tick_fec_def maybe_queue_ping_def
      set_tar_config_def maybe_send_probe_def build_probe_def Let_def split_beta send_to_def split: option.split sum.split)

lemma retransmit_loop_keeps: "keeps c (snd (retransmit_loop E xs c))"
proof (induction xs arbitrary: c)
  case (Cons x xs)
  then show ?case
    by (auto simp: keeps_def hs_view_def Let_def split_beta send_to_def split: option.split)
qed simp

lemma retransmit_expired_keeps: "keeps c (snd (retransmit_expired D E c))"
proof (cases "conn_session c")
  case (Some s)
  define c1 where "c1 = c\<lparr>conn_session := Some (snd (drain_retransmits (e_now E) s))\<rparr>"
  define c2 where "c2 = (if fst (drain_retransmits (e_now E) s) \<noteq> [] then c1\<lparr>cc := cc_on_timeout (d_cc D) (cc c1)\<rparr> else c1)"
  have "keeps c c2" using Some by (simp add: c1_def c2_def keeps_def)
  moreover have "retransmit_expired D E c = retransmit_loop E (fst (drain_retransmits (e_now E) s)) c2"
    using Some by (simp add: retransmit_expired_def split_beta Let_def c1_def c2_def)
  ultimately show ?thesis using retransmit_loop_keeps keeps_trans by metis
qed (simp add: retransmit_expired_def)

lemma send_path_response_keeps: "keeps c (snd (send_path_response D E nonce c))"
  by (auto simp: keeps_def hs_view_def send_path_response_def send_to_def split: option.split sum.split prod.split)

lemma dispatch_events_keeps: "migration_sockets c = [] \<Longrightarrow> keeps c (snd (dispatch_events D E evs c))"
proof (induction evs arbitrary: c)
  case (Cons ev evs)
  have next_one: "keeps c (snd (dispatch_events D E evs c'))" if "keeps c c'" for c'
    using Cons.prems that by (intro keeps_trans [OF that] Cons.IH) (simp add: keeps_def)
  show ?case
  proof (cases ev)
    case (PathChallengeReceived nonce)
    obtain r c' where r: "send_path_response D E nonce c = (r, c')" by force
    with send_path_response_keeps [of c D E nonce] have "keeps c c'" by simp
    with r next_one PathChallengeReceived show ?thesis by (simp split: sum.split)
  qed (use Cons.prems next_one in \<open>simp_all add: on_path_response_def keeps_def\<close>)
qed simp

lemma feed_controllers_keeps: "keeps c (feed_controllers D E c)"
  by (auto simp: keeps_def hs_view_def feed_controllers_def Let_def split: option.split prod.split)

lemma on_data_packet_keeps:
  assumes "migration_sockets c = []" and "on_data_packet D E buf c = Some (Return (r, c'))"
  shows "keeps c c'"
proof (cases "conn_session c")
  case None
  then show ?thesis using assms(2) by (auto simp: on_data_packet_def keeps_def)
next
  case (Some s)
  define c0 where "c0 s' = c\<lparr>last_recv := e_now E, conn_session := Some s'\<rparr>" for s' :: session
  have c0: "keeps c (c0 s')" "migration_sockets (c0 s') = []" for s'
    using Some assms(1) by (simp_all add: c0_def keeps_def)
  have fed: "keeps c (feed_controllers D E c1)" if "dispatch_events D E evs (c0 s') = (Inr (), c1)" for evs s' c1
    using dispatch_events_keeps [OF c0(2), of s' D E evs] that c0(1) feed_controllers_keeps keeps_trans by (metis snd_conv)
  have "keeps c c1" if "dispatch_events D E evs (c0 s') = (r', c1)" for evs s' r' c1
    using dispatch_events_keeps [OF c0(2), of s' D E evs] that c0(1) keeps_trans by (metis snd_conv)
  with Some assms(2) c0 show ?thesis
    by (auto simp: on_data_packet_def Let_def c0_def [symmetric] split: option.splits sum.splits prod.splits if_splits
        intro: fed conn_flush_keeps keeps_trans [OF fed])
qed

lemma issue_ticket_keeps:
  assumes "issue_ticket D E res c = Return c'"
  shows "keeps c c'"
proof (cases "conn_session c")
  case (Some s)
  have "keeps c (case encode_raw (d_prims D) s SessionTicket ticket (replicate (32 + length ticket + 16) 0) of
      (Inr n, out, s') \<Rightarrow> snd (send_to E (conn_socket c) (take n out) (c\<lparr>conn_session := Some s'\<rparr>))
    | (Inl _, _, s') \<Rightarrow> c\<lparr>conn_session := Some s'\<rparr>)" for ticket
    using Some by (simp add: keeps_def split: prod.split sum.split)
  with Some assms show ?thesis by (auto simp: issue_ticket_def obind_Return split: option.splits)
qed (use assms in \<open>auto simp: issue_ticket_def obind_Return split: option.splits\<close>)

lemma finish_handshake_ok:
  assumes "finish_handshake D E res c = Return c'" and "consecutive_timeouts (prober c) = 0" and "migration_sockets c = []"
  shows "conn_ok c'"
proof -
  obtain s t where "issue_ticket D E res (c\<lparr>conn_session := Some s, peer_pubkey := Some (peer_static_pubkey res),
      phase := Established, chaff := chaff_enable (chaff c), server_identity := None, conn_cookies := None,
      server_kem_pk := None, tar := t\<rparr>) = Return c'" (is "issue_ticket D E res ?c = _")
    using assms(1) by (force simp: finish_handshake_def Let_def split_beta)
  moreover have "conn_ok ?c" using assms(2,3) by (simp add: conn_ok_def)
  ultimately show ?thesis using issue_ticket_keeps keeps_ok by blast
qed

lemma client_rx_challenge_ok: "conn_ok c \<Longrightarrow> phase c = ClientWaitChallenge \<Longrightarrow> conn_ok (snd (client_rx_challenge D E buf c))"
  by (auto simp: client_rx_challenge_def conn_ok_def Let_def send_to_def split: option.splits prod.splits sum.splits)

lemma server_rx_cookie_echo_ok: "conn_ok c \<Longrightarrow> phase c = ServerWaitCookie \<Longrightarrow> conn_ok (snd (server_rx_cookie_echo D E buf c))"
  by (auto simp: server_rx_cookie_echo_def conn_ok_def Let_def send_to_def split: option.splits prod.splits sum.splits)

text \<open>How the two handlers that may end the handshake end.\<close>

lemma client_rx_msg2_cases:
  assumes "client_rx_msg2 D E buf c = Return (r, c')"
  obtains (refused) "c' = c" | (taken) h where "c' = c\<lparr>client_hs := h\<rparr>"
  | (finished) res q where "finish_handshake D E res (c\<lparr>client_hs := None, outbox := q\<rparr>) = Return c'"
proof (cases "strip_type buf PKT_HANDSHAKE_MSG")
  case (Inl e)
  then show thesis using assms refused by (simp add: client_rx_msg2_def)
next
  case (Inr m)
  show thesis
  proof (cases "client_hs c")
    case None
    then show thesis using assms Inr refused by (simp add: client_rx_msg2_def)
  next
    case (Some hs)
    obtain x hs' where x: "read_msg2 (d_noise D) (d_pq D) hs m = (x, hs')" by force
    show thesis
    proof (cases x)
      case (Inl e)
      then have "c' = c\<lparr>client_hs := Some hs'\<rparr>" using assms Inr Some x by (simp add: client_rx_msg2_def)
      then show thesis by (rule taken)
    next
      case y: (Inr y)
      obtain kem_pk agreed where y': "y = (kem_pk, agreed)" by force
      with y assms Inr Some x obtain w m3 where
        "write_msg3_and_finish (d_prims D) (d_noise D) (d_pq D) (e_random E) hs' kem_pk agreed [] = Return (w, m3)"
        and rest: "(case w of Inl e \<Rightarrow> Return (Inl e, c\<lparr>client_hs := None\<rparr>)
          | Inr res \<Rightarrow> (case send_to E (conn_socket (c\<lparr>client_hs := None\<rparr>)) (PKT_HANDSHAKE_MSG # m3) (c\<lparr>client_hs := None\<rparr>) of
              (Inl e, c2) \<Rightarrow> Return (Inl e, c2)
            | (Inr _, c2) \<Rightarrow> obind (finish_handshake D E res c2) (\<lambda>c3. Return (Inr (), c3)))) = Return (r, c')"
        by (auto simp: client_rx_msg2_def obind_Return Let_def)
      then show thesis using taken finished
        by (cases w) (auto simp: send_to_def obind_Return split: option.splits)
    qed
  qed
qed

lemma server_rx_msg3_cases:
  assumes "server_rx_msg3 D E buf c = Return (r, c')"
  obtains (refused) "c' = c" | (taken) "c' = c\<lparr>server_hs := None\<rparr>"
  | (finished) res where "finish_handshake D E res (c\<lparr>server_hs := None\<rparr>) = Return c'"
proof (cases "strip_type buf PKT_HANDSHAKE_MSG")
  case (Inl e)
  then show thesis using assms refused by (simp add: server_rx_msg3_def)
next
  case (Inr m)
  show thesis
  proof (cases "server_hs c = None \<or> server_identity c = None")
    case True
    then show thesis using assms Inr refused taken by (auto simp: server_rx_msg3_def Let_def split: option.splits)
  next
    case False
    then obtain hs ident where "server_hs c = Some hs" "server_identity c = Some ident" by auto
    with assms Inr obtain w where "(case w of Inl e \<Rightarrow> Return (Inl e, c\<lparr>server_hs := None\<rparr>)
        | Inr res \<Rightarrow> obind (finish_handshake D E res (c\<lparr>server_hs := None\<rparr>)) (\<lambda>c'. Return (Inr (), c'))) = Return (r, c')"
      by (auto simp: server_rx_msg3_def obind_Return Let_def)
    then show thesis using taken finished by (cases w) (auto simp: obind_Return)
  qed
qed

lemma client_rx_msg2_ok:
  assumes "conn_ok c" and "phase c = ClientWaitMsg2" and "client_rx_msg2 D E buf c = Return (r, c')"
  shows "conn_ok c'"
  using assms(3)
proof (cases rule: client_rx_msg2_cases)
  case finished
  show ?thesis by (rule finish_handshake_ok [OF finished]) (use assms(1) in \<open>simp_all add: conn_ok_def\<close>)
qed (use assms(1) in \<open>simp_all add: conn_ok_def\<close>)

lemma server_rx_msg3_ok:
  assumes "conn_ok c" and "phase c = ServerWaitMsg3" and "server_rx_msg3 D E buf c = Return (r, c')"
  shows "conn_ok c'"
  using assms(3)
proof (cases rule: server_rx_msg3_cases)
  case finished
  show ?thesis by (rule finish_handshake_ok [OF finished]) (use assms(1) in \<open>simp_all add: conn_ok_def\<close>)
qed (use assms(1) in \<open>simp_all add: conn_ok_def\<close>)

lemma on_packet_ok:
  assumes "conn_ok c" and "on_packet D E buf c = Some (Return (r, c'))"
  shows "conn_ok c'"
proof (cases "buf = []")
  case False
  have "migration_sockets c = []" using assms(1) by (simp add: conn_ok_def)
  with False assms show ?thesis
    using client_rx_challenge_ok [of c D E buf] server_rx_cookie_echo_ok [of c D E buf]
    by (cases "phase c")
      (auto simp: on_packet_def intro: client_rx_msg2_ok server_rx_msg3_ok keeps_ok dest: on_data_packet_keeps)
qed (use assms in \<open>simp add: on_packet_def\<close>)

lemma maybe_migrate_idle: "conn_ok c \<Longrightarrow> maybe_migrate D E ips c = (Inr (), c)"
  by (simp add: conn_ok_def maybe_migrate_def should_migrate_def MIGRATION_THRESHOLD_def)

lemma conn_step_cases:
  assumes "conn_step D c c'"
  obtains (kept) "keeps c c'" | (packet) E buf r where "on_packet D E buf c = Some (Return (r, c'))"
  | (migrated) E ips where "c' = snd (maybe_migrate D E ips c)" | (closed) "c' = close c"
  using assms
proof cases
  case (flushed E r)
  then show thesis using conn_flush_keeps kept by blast
next
  case (application s s')
  then show thesis using kept by (simp add: keeps_def)
qed (simp_all add: kept packet migrated closed timers_keep retransmit_expired_keeps)

lemma conn_step_ok:
  assumes "conn_step D c c'" and "conn_ok c"
  shows "conn_ok c'"
  using assms(1)
proof (cases rule: conn_step_cases)
  case kept
  then show ?thesis using assms(2) by (rule keeps_ok)
next
  case packet
  with assms(2) show ?thesis by (rule on_packet_ok)
qed (use assms(2) in \<open>simp_all add: maybe_migrate_idle close_def conn_ok_def\<close>)

text \<open>A connection stays with its peer.\<close>

lemma keeps_remote: "keeps c c' \<Longrightarrow> conn_remote c' = conn_remote c"
  by (simp add: keeps_def hs_view_def)

lemma send_to_remote [simp]: "conn_remote (snd (send_to E sock b c)) = conn_remote c"
  by (simp add: send_to_def split: option.split)

lemma finish_handshake_remote: "finish_handshake D E res c = Return c' \<Longrightarrow> conn_remote c' = conn_remote c"
  by (auto simp: finish_handshake_def Let_def split_beta dest!: issue_ticket_keeps keeps_remote)

lemma on_packet_remote:
  assumes "conn_ok c" and "on_packet D E buf c = Some (Return (r, c'))"
  shows "conn_remote c' = conn_remote c"
proof (cases "buf = []")
  case False
  have "conn_remote (snd (client_rx_challenge D E buf c)) = conn_remote c"
    by (simp add: client_rx_challenge_def Let_def send_to_def split: option.split prod.split sum.split)
  moreover have "conn_remote (snd (server_rx_cookie_echo D E buf c)) = conn_remote c"
    by (simp add: server_rx_cookie_echo_def Let_def send_to_def split: option.split prod.split sum.split)
  moreover have "client_rx_msg2 D E buf c = Return (r, c') \<Longrightarrow> conn_remote c' = conn_remote c"
    by (erule client_rx_msg2_cases) (auto dest: finish_handshake_remote)
  moreover have "server_rx_msg3 D E buf c = Return (r, c') \<Longrightarrow> conn_remote c' = conn_remote c"
    by (erule server_rx_msg3_cases) (auto dest: finish_handshake_remote)
  moreover have "migration_sockets c = []" using assms(1) by (simp add: conn_ok_def)
  then have "on_data_packet D E buf c = Some (Return (r, c')) \<Longrightarrow> conn_remote c' = conn_remote c"
    by (intro keeps_remote on_data_packet_keeps)
  ultimately show ?thesis using assms(2) False by (auto simp: on_packet_def split: conn_phase.splits)
qed (use assms(2) in \<open>simp add: on_packet_def\<close>)

lemma conn_step_remote:
  assumes "conn_step D c c'" and "conn_ok c"
  shows "conn_remote c' = conn_remote c"
  using assms(1)
proof (cases rule: conn_step_cases)
  case packet
  with assms(2) show ?thesis by (rule on_packet_remote)
qed (use assms(2) keeps_remote in \<open>auto simp: maybe_migrate_idle close_def\<close>)

lemma conn_reachable_ok: "conn_reachable D c \<Longrightarrow> conn_ok c"
proof (induction rule: conn_reachable.induct)
  case (connected E dcc sock remote ident x kem_pk pref cfg c)
  then show ?case
    by (auto simp: connect_with_tar_def send_to_def conn_ok_def new_base_with_tar_def prober_new_def split: option.splits sum.splits)
next
  case (accepted E dcc sock remote ident factory tk pref c)
  then show ?case
    by (auto simp: accept_challenge_def new_base_def new_base_with_tar_def send_to_def conn_ok_def prober_new_def Let_def
        split: option.splits)
qed (rule conn_step_ok)

text \<open>C11: A session exists from the end of the handshake on. Of a connection made by either constructor, after any
  packets, flushes, timers and calls: while it waits for a handshake packet it has no session; once it is
  established it has one, knows the peer's key, and has dropped its cookie secret, its identity and the server's
  KEM key.\<close>

theorem connection_phases:
  assumes "conn_reachable D c"
  shows "(phase c \<in> {ClientWaitChallenge, ClientWaitMsg2, ServerWaitCookie, ServerWaitMsg3} \<longrightarrow> conn_session c = None) \<and>
    (is_established c \<longrightarrow> conn_session c \<noteq> None \<and> peer_pubkey c \<noteq> None \<and>
      server_identity c = None \<and> conn_cookies c = None \<and> server_kem_pk c = None)"
  using conn_reachable_ok [OF assms] by (simp add: conn_ok_def is_established_def)

theorem connection_phases_witness:
  "\<exists>c. conn_reachable demo_deps c \<and> is_established c \<and> conn_session c \<noteq> None \<and> peer_pubkey c \<noteq> None"
proof -
  obtain c0 s0 where c0: "connect demo_deps demo_env aimd_new (demo_addr 1) (demo_addr 2) demo_identity [] () Aes256Gcm = Inr c0"
    and s0: "accept_challenge demo_deps demo_env aimd_new (demo_addr 2) (demo_addr 1) demo_identity
      (cookie_factory_new (replicate 32 5)) None Aes256Gcm = Inr s0" by (rule demo_connects)
  obtain c1 b c where run: "on_packet demo_deps demo_env (last_sent s0) c0 = Some (Return (Inr (), c1))"
    "on_packet demo_deps demo_env b c1 = Some (Return (Inr (), c))" "phase c = Established"
    using demo_handshake [OF c0 s0] by blast
  have "conn_reachable demo_deps c0"
    using c0 by (intro conn_reachable.connected [where E = demo_env]) (simp add: connect_def connect_with_tar_def new_base_def)
  moreover note run(1,2)
  ultimately have "conn_reachable demo_deps c" by (meson conn_reachable.step conn_step.packet)
  then show ?thesis using connection_phases [of demo_deps c] run(3) by (auto simp: is_established_def)
qed

text \<open>Nothing a connection does records a probe as lost, so the failure count stays zero and migration never starts.\<close>

theorem migration_never_starts:
  assumes "conn_reachable D c"
  shows "maybe_migrate D E ips c = (Inr (), c)" and "migration_sockets c = []"
  using conn_reachable_ok [OF assms] by (simp_all add: maybe_migrate_idle, simp add: conn_ok_def)

end
