(* ===== verification/Endpoint_Facts.thy ===== *)
theory Endpoint_Facts
  imports Endpoint Connection_Facts
begin

text \<open>
  What the endpoint guarantees: connections are found under the address of their peer, the table stays within its limit,
  a sweep removes the stale connections and no other, and the limiter bounds the rate of new connections of an address.
  And what it does not: a packet without a cookie takes a slot of the table, and a sweep that is
  overtaken by the receive task evicts a fresh connection.
\<close>

section \<open>The rate limiter\<close>

text \<open>The tokens an address has at a time, with exact arithmetic.\<close>

definition per_second :: "u32 \<Rightarrow> rat" where
  "per_second n = of_nat (unat n)"

definition refill :: "u32 \<Rightarrow> duration \<Rightarrow> rat" where
  "refill n d = of_nat d / 1000000000 * per_second n"

definition tokens_at :: "u32 \<Rightarrow> ip_addr \<Rightarrow> instant \<Rightarrow> (ip_addr \<times> rat \<times> instant) list \<Rightarrow> rat" where
  "tokens_at n ip now tbl =
     (case map_of tbl ip of None \<Rightarrow> per_second n | Some (b, t) \<Rightarrow> min (b + refill n (now - t)) (per_second n))"

definition rate_ok :: "u32 \<Rightarrow> instant \<Rightarrow> (ip_addr \<times> rat \<times> instant) list \<Rightarrow> bool" where
  "rate_ok n now tbl \<longleftrightarrow> distinct (map fst tbl) \<and> (\<forall>(ip, b, t) \<in> set tbl. 0 \<le> b \<and> b \<le> per_second n \<and> t \<le> now)"

lemma per_second_nonneg [simp]: "0 \<le> per_second n"
  unfolding per_second_def by (rule of_nat_0_le_iff)

lemma rat_per_second: "f_of_nat rat_floats (unat n) = per_second n"
  unfolding per_second_def by (simp add: rat_floats_def)

lemma refill_nonneg [simp]: "0 \<le> refill n d"
  by (simp add: refill_def)

lemma refill_mono: "d \<le> d' \<Longrightarrow> refill n d \<le> refill n d'"
  unfolding refill_def by (intro mult_right_mono divide_right_mono) simp_all

lemma refill_add: "refill n (d + d') = refill n d + refill n d'"
  by (simp add: refill_def add_divide_distrib distrib_right)

lemma refill_second: "secs 1 \<le> d \<Longrightarrow> per_second n \<le> refill n d"
  using refill_mono [of "secs 1" d n] by (simp add: refill_def secs_def)

lemma tokens_nonneg: "rate_ok n now tbl \<Longrightarrow> 0 \<le> tokens_at n ip t tbl"
  by (fastforce simp: tokens_at_def rate_ok_def split: option.split dest: map_of_SomeD)

lemma tokens_le: "tokens_at n ip t tbl \<le> per_second n"
  by (auto simp: tokens_at_def split: option.split)

lemma min_grow: "0 \<le> z \<Longrightarrow> x \<le> y + z \<Longrightarrow> min (b + x) r \<le> min (b + y) r + (z :: rat)"
  by (auto simp: min_def)

lemma tokens_grow:
  assumes "t \<le> t'"
  shows "tokens_at n ip t' tbl \<le> tokens_at n ip t tbl + refill n (t' - t)"
proof (cases "map_of tbl ip")
  case (Some v)
  obtain b u where v: "v = (b, u)" by force
  have "refill n (t' - u) \<le> refill n (t - u) + refill n (t' - t)"
    unfolding refill_add [symmetric] by (rule refill_mono) (use assms in simp)
  from min_grow [OF refill_nonneg this] show ?thesis using Some v by (simp add: tokens_at_def)
qed (simp add: tokens_at_def)

text \<open>Dropping an entry that was last used two minutes ago changes nothing: its bucket is full again.\<close>

lemma rate_table_cases:
  "fst (rate_table now (tbl, lc)) = tbl \<or>
     fst (rate_table now (tbl, lc)) = filter (\<lambda>(_, _, t). (now - t) div secs 1 < 120) tbl"
  by (simp add: rate_table_def)

lemma tokens_after_drop:
  assumes "rate_ok n now tbl" and "now \<le> t"
  shows "tokens_at n ip t (fst (rate_table now (tbl, lc))) = tokens_at n ip t tbl"
proof (cases "map_of tbl ip")
  case None
  then show ?thesis
    using rate_table_cases [of now tbl lc] assms(1) by (auto simp: tokens_at_def rate_ok_def map_of_filter_pair)
next
  case (Some v)
  obtain b u where v: "v = (b, u)" by force
  with Some assms(1) have "0 \<le> b" "u \<le> now" by (auto simp: rate_ok_def dest!: map_of_SomeD)
  have full: "min (b + refill n (t - u)) (per_second n) = per_second n" if "\<not> (now - u) div secs 1 < 120"
  proof -
    have "secs 1 \<le> t - u" using that assms(2) by (cases "now - u < secs 1") auto
    then have "per_second n \<le> refill n (t - u)" by (rule refill_second)
    with \<open>0 \<le> b\<close> show ?thesis by simp
  qed
  show ?thesis
    using rate_table_cases [of now tbl lc] assms(1) Some v full
    by (auto simp: tokens_at_def rate_ok_def map_of_filter_pair)
qed

lemma rate_ok_drop: "rate_ok n now tbl \<Longrightarrow> rate_ok n now (fst (rate_table now (tbl, lc)))"
  using rate_table_cases [of now tbl lc] by (auto simp: rate_ok_def distinct_map_filter)

text \<open>One attempt costs its address a token if it passes, and no address anything else.\<close>

lemma rate_limit_step:
  assumes ok: "rate_ok n now tbl" and run: "rate_limit rat_floats n ip now (tbl, lc) = (passed, tbl', lc')"
  shows "rate_ok n now tbl'" and "tokens_at n ip' now tbl' = tokens_at n ip' now tbl - (if passed \<and> ip' = ip then 1 else 0)"
proof -
  define tbl0 where "tbl0 = fst (rate_table now (tbl, lc))"
  have ok0: "rate_ok n now tbl0" and tok0: "tokens_at n i now tbl0 = tokens_at n i now tbl" for i
    using rate_ok_drop [OF ok] tokens_after_drop [OF ok] by (simp_all add: tbl0_def)
  define tokens where "tokens = tokens_at n ip now tbl0"
  have tokens: "bucket_take rat_floats (per_second n) now (case map_of tbl0 ip of None \<Rightarrow> (per_second n, now) | Some b \<Rightarrow> b) =
      (if tokens < 1 then (False, tokens, now) else (True, tokens - 1, now))"
    by (auto simp: bucket_take_def tokens_def tokens_at_def rat_floats_def as_secs_f64_def refill_def Let_def split: option.split)
  then have tbl': "passed \<longleftrightarrow> 1 \<le> tokens" "tbl' = AList.update ip (if passed then tokens - 1 else tokens, now) tbl0"
    using run
    by (auto simp: rate_limit_def split_beta Let_def tbl0_def [symmetric] rat_per_second split: if_splits)
  have range: "0 \<le> tokens" "tokens \<le> per_second n" using tokens_nonneg [OF ok0] tokens_le by (simp_all add: tokens_def)
  then show "rate_ok n now tbl'"
    using ok0 tbl' by (auto simp: rate_ok_def distinct_update dest!: set_alist_update [THEN subsetD])
  show "tokens_at n ip' now tbl' = tokens_at n ip' now tbl - (if passed \<and> ip' = ip then 1 else 0)"
    unfolding tok0 [symmetric] using range
    by (auto simp: tbl'(2) tokens_at_def [of _ _ _ "AList.update _ _ _"] update_conv refill_def tokens_def)
      (simp_all add: tokens_at_def refill_def)
qed

text \<open>The limiter over a sequence of attempts, each an address and a time.\<close>

fun rate_run :: "u32 \<Rightarrow> (ip_addr \<times> instant) list \<Rightarrow> (ip_addr \<times> rat \<times> instant) list \<times> instant \<Rightarrow> bool list" where
  "rate_run n [] rt = []"
| "rate_run n ((ip, now) # xs) rt = (let (ok, rt') = rate_limit rat_floats n ip now rt in ok # rate_run n xs rt')"

definition passes :: "ip_addr \<Rightarrow> (ip_addr \<times> instant) list \<Rightarrow> bool list \<Rightarrow> nat" where
  "passes ip xs oks = length (filter (\<lambda>((ip', _), ok). ip' = ip \<and> ok) (zip xs oks))"

lemma rate_run_passes:
  assumes "rate_ok n t0 tbl" and "sorted (t0 # map snd xs)"
  shows "of_nat (passes ip xs (rate_run n xs (tbl, lc))) \<le> tokens_at n ip t0 tbl + refill n (last (t0 # map snd xs) - t0)"
  using assms
proof (induction xs arbitrary: t0 tbl lc)
  case Nil
  then show ?case using tokens_nonneg by (simp add: passes_def refill_def)
next
  case (Cons x xs)
  obtain ip' now where x: "x = (ip', now)" by force
  obtain ok tbl' lc' where run: "rate_limit rat_floats n ip' now (tbl, lc) = (ok, tbl', lc')" by (metis surj_pair)
  have le: "t0 \<le> now" "sorted (now # map snd xs)" using Cons.prems(2) x by auto
  have ok0: "rate_ok n now tbl" using Cons.prems(1) le(1) by (fastforce simp: rate_ok_def)
  note step = rate_limit_step [OF ok0 run]
  let ?l = "last (now # map snd xs)"
  have "now \<le> ?l" using le(2) by (cases xs rule: rev_cases) (auto simp: sorted_append)
  then have "refill n (?l - t0) = refill n (now - t0) + refill n (?l - now)"
    using le(1) by (simp flip: refill_add)
  moreover have "of_nat (passes ip xs (rate_run n xs (tbl', lc'))) \<le> tokens_at n ip now tbl' + refill n (?l - now)"
    by (rule Cons.IH [OF step(1) le(2)])
  moreover have "passes ip (x # xs) (rate_run n (x # xs) (tbl, lc)) =
      (if ok \<and> ip = ip' then 1 else 0) + passes ip xs (rate_run n xs (tbl', lc'))"
    using run x by (auto simp: passes_def)
  ultimately show ?case using tokens_grow [OF le(1), of n ip tbl] step(2) [of ip] x by auto
qed

text \<open>The rate limiter limits. With exact arithmetic, whatever the attempts of all addresses, one address gets at most
  its burst plus its rate times the time that has passed: over any run of attempts in the order of time, at most
  \<open>n + n * d\<close> new connections in \<open>d\<close> seconds, also when its entry is dropped and made anew in between.\<close>

theorem rate_limit_bounds:
  assumes "sorted (map snd xs)" and "xs \<noteq> []"
  shows "of_nat (passes ip xs (rate_run n xs ([], t0))) \<le>
    per_second n + per_second n * (of_nat (snd (last xs) - snd (hd xs)) / 1000000000)"
proof -
  obtain x ys where xs: "xs = x # ys" using assms(2) by (cases xs) auto
  have "rate_ok n (snd x) []" by (simp add: rate_ok_def)
  moreover have "last (snd x # map snd xs) = snd (last xs)" using assms(2) by (simp add: last_map)
  ultimately show ?thesis
    using rate_run_passes [of n "snd x" "[]" xs ip t0] assms(1) xs by (simp add: tokens_at_def refill_def mult.commute)
qed

theorem rate_limit_bounds_witness:
  "rat_of_nat (passes (V4 1) [(V4 1, 0), (V4 2, 5), (V4 1, secs 3)] (rate_run 1 [(V4 1, 0), (V4 2, 5), (V4 1, secs 3)] ([], 0))) \<le> 4"
  using rate_limit_bounds [of "[(V4 1, 0), (V4 2, 5), (V4 1, secs 3)]" "V4 1" 1 0] by (simp add: secs_def per_second_def)

section \<open>The table\<close>

text \<open>The runs of an endpoint, with the number of outgoing connections that were opened.\<close>

inductive ep_reachable ::
  "('n, 'ks, 'kp, 'ds, 'dp, 'f, 'c) deps \<Rightarrow> nat \<Rightarrow> ('n, 'ks, 'kp, 'ds, 'dp, 'f, 'c) endpoint \<Rightarrow> bool" for D where
  bound: "bind_with_config now sock secret ident cfg = Inr ep \<Longrightarrow> ep_reachable D 0 ep"
| connecting: "ep_reachable D n ep \<Longrightarrow> endpoint_connect D E dcc remote x kem_pk pref ep = (r, ep') \<Longrightarrow> ep_reachable D (Suc n) ep'"
| received: "ep_reachable D n ep \<Longrightarrow> ep_recv ep = RecvReady \<Longrightarrow> ep_reachable D n (recv_lookup D E dcc remote pkt ep)"
| dispatched: "ep_reachable D n ep \<Longrightarrow> ep_recv ep = RecvDispatch remote i pkt \<Longrightarrow> recv_dispatch D E remote i pkt ep = Some ep' \<Longrightarrow>
    ep_reachable D n ep'"
| removed: "ep_reachable D n ep \<Longrightarrow> ep_recv ep = RecvRemove remote \<Longrightarrow> ep_reachable D n (recv_remove remote ep)"
| sweeping: "ep_reachable D n ep \<Longrightarrow> ep_sweep ep = SweepWaiting \<Longrightarrow> ep_reachable D n (sweep_start ep)"
| checked: "ep_reachable D n ep \<Longrightarrow> ep_reachable D n (sweep_check now ep)"
| swept: "ep_reachable D n ep \<Longrightarrow> ep_reachable D n (sweep_remove ep)"
| used: "ep_reachable D n ep \<Longrightarrow> i < length (ep_store ep) \<Longrightarrow> conn_step D (ep_store ep ! i) c \<Longrightarrow>
    ep_reachable D n (ep\<lparr>ep_store := (ep_store ep)[i := c]\<rparr>)"

text \<open>An address leads to a connection with that peer.\<close>

definition leads_to :: "('n, 'ks, 'kp, 'ds, 'dp, 'f, 'c) connection list \<Rightarrow> socket_addr \<times> nat \<Rightarrow> bool" where
  "leads_to cs ai \<longleftrightarrow> snd ai < length cs \<and> conn_remote (cs ! snd ai) = fst ai"

definition ep_ok :: "('n, 'ks, 'kp, 'ds, 'dp, 'f, 'c) deps \<Rightarrow> nat \<Rightarrow> ('n, 'ks, 'kp, 'ds, 'dp, 'f, 'c) endpoint \<Rightarrow> bool" where
  "ep_ok D n ep \<longleftrightarrow>
     distinct (map fst (ep_conns ep)) \<and> length (ep_conns ep) \<le> max_connections (ep_config ep) + n \<and>
     (\<forall>c \<in> set (ep_store ep). conn_reachable D c) \<and> (\<forall>ai \<in> set (ep_conns ep). leads_to (ep_store ep) ai) \<and>
     (\<forall>remote i pkt. ep_recv ep = RecvDispatch remote i pkt \<longrightarrow> leads_to (ep_store ep) (remote, i)) \<and>
     (\<forall>todo stale. ep_sweep ep = SweepChecking todo stale \<longrightarrow> (\<forall>ai \<in> set todo. leads_to (ep_store ep) ai))"

lemma connect_remote: "connect D E dcc sock remote ident x kem_pk pref = Inr c \<Longrightarrow> conn_remote c = remote"
  by (auto simp: connect_def new_base_def new_base_with_tar_def send_to_def split: option.splits sum.splits)

lemma connect_reachable: "connect D E dcc sock remote ident x kem_pk pref = Inr c \<Longrightarrow> conn_reachable D c"
  by (rule conn_reachable.connected [where cfg = tar_config_disabled]) (simp add: connect_def connect_with_tar_def new_base_def)

text \<open>The store grows, and its connections keep their peers.\<close>

definition store_le ::
  "('n, 'ks, 'kp, 'ds, 'dp, 'f, 'c) connection list \<Rightarrow> ('n, 'ks, 'kp, 'ds, 'dp, 'f, 'c) connection list \<Rightarrow> bool" where
  "store_le cs cs' \<longleftrightarrow> length cs \<le> length cs' \<and> (\<forall>i < length cs. conn_remote (cs' ! i) = conn_remote (cs ! i))"

lemma leads_to_mono: "store_le cs cs' \<Longrightarrow> leads_to cs ai \<Longrightarrow> leads_to cs' ai"
  by (simp add: store_le_def leads_to_def)

lemma add_conn_ok:
  assumes "ep_ok D n ep" and "conn_reachable D c" and "conn_remote c = remote"
    and "length (ep_conns ep) < max_connections (ep_config ep) + m" and "n \<le> m"
  shows "ep_ok D m (add_conn remote c ep)" and "leads_to (ep_store (add_conn remote c ep)) (remote, length (ep_store ep))"
proof -
  have le: "store_le (ep_store ep) (ep_store (add_conn remote c ep))" by (simp add: store_le_def add_conn_def nth_append)
  show new: "leads_to (ep_store (add_conn remote c ep)) (remote, length (ep_store ep))"
    using assms(3) by (simp add: leads_to_def add_conn_def)
  show "ep_ok D m (add_conn remote c ep)"
    using assms(1,2,4,5) new leads_to_mono [OF le] unfolding ep_ok_def
    by (auto simp: add_conn_def distinct_update length_alist_update dest!: set_alist_update [THEN subsetD])
qed

lemma accept_reachable: "accept_challenge D E dcc sock remote ident f tk pref = Inr c \<Longrightarrow> conn_reachable D c"
  by (rule conn_reachable.accepted)

lemma recv_lookup_ok:
  assumes "ep_ok D n ep" and "ep_recv ep = RecvReady"
  shows "ep_ok D n (recv_lookup D E dcc remote pkt ep)"
proof (cases "map_of (ep_conns ep) remote")
  case (Some i)
  then have "leads_to (ep_store ep) (remote, i)" using assms(1) by (auto simp: ep_ok_def dest!: map_of_SomeD)
  with assms(1) Some show ?thesis by (auto simp: recv_lookup_def ep_ok_def)
next
  case None
  obtain ok tbl lc where r: "rate_limit (d_f64 D) (max_new_conns_per_sec_per_ip (ep_config ep)) (sa_ip remote) (e_now E)
      (ip_rate ep, last_cleanup ep) = (ok, tbl, lc)" by (metis surj_pair)
  let ?ep1 = "ep\<lparr>ip_rate := tbl, last_cleanup := lc\<rparr>"
  have ok1: "ep_ok D n ?ep1" using assms(1) by (auto simp: ep_ok_def)
  show ?thesis
  proof (cases "length (ep_conns ep) < max_connections (ep_config ep) \<and> ok")
    case False
    then show ?thesis using None r ok1 assms(1) by (auto simp: recv_lookup_def Let_def)
  next
    case room: True
    show ?thesis
    proof (cases "accept_challenge D E dcc (ep_socket ?ep1) remote (ep_identity ?ep1) (ep_cookies ?ep1) None cipher_suite_default")
      case (Inl e)
      then show ?thesis using None r room ok1 by (simp add: recv_lookup_def Let_def)
    next
      case (Inr c)
      have "ep_ok D n (add_conn remote c ?ep1)" "leads_to (ep_store (add_conn remote c ?ep1)) (remote, length (ep_store ?ep1))"
        by (rule add_conn_ok [OF ok1 accept_reachable [OF Inr] accept_state(6) [OF Inr], of n]; use room in simp)+
      then show ?thesis using None r room Inr by (auto simp: recv_lookup_def Let_def ep_ok_def)
    qed
  qed
qed

text \<open>A connection that takes a step is still where it was.\<close>

lemma store_update_ok:
  assumes "ep_ok D n ep" and "i < length (ep_store ep)" and "conn_step D (ep_store ep ! i) c"
  shows "ep_ok D n (ep\<lparr>ep_store := (ep_store ep)[i := c]\<rparr>)"
proof -
  have reach: "conn_reachable D (ep_store ep ! i)" using assms(1,2) by (simp add: ep_ok_def)
  have "conn_remote c = conn_remote (ep_store ep ! i)"
    by (rule conn_step_remote [OF assms(3) conn_reachable_ok [OF reach]])
  then have "store_le (ep_store ep) ((ep_store ep)[i := c])"
    using assms(2) by (simp add: store_le_def nth_list_update)
  from leads_to_mono [OF this] show ?thesis
    using assms(1) conn_reachable.step [OF reach assms(3)]
    by (auto simp: ep_ok_def simp del: split_paired_All split_paired_all dest!: set_update_subset_insert [THEN subsetD])
qed

lemma recv_dispatch_ok:
  assumes "ep_ok D n ep" and "ep_recv ep = RecvDispatch remote i pkt" and "recv_dispatch D E remote i pkt ep = Some ep'"
  shows "ep_ok D n ep'"
proof (cases "on_packet D E pkt (ep_store ep ! i)")
  case None
  then show ?thesis using assms(3) by (simp add: recv_dispatch_def)
next
  case (Some res)
  show ?thesis
  proof (cases res)
    case Panic
    then show ?thesis using assms(1,3) Some by (auto simp: recv_dispatch_def ep_ok_def)
  next
    case (Return rc)
    obtain r c where rc: "rc = (r, c)" by force
    have "i < length (ep_store ep)" using assms(1,2) by (auto simp: ep_ok_def leads_to_def)
    then have "ep_ok D n (ep\<lparr>ep_store := (ep_store ep)[i := c]\<rparr>)"
      using assms(1) Some Return rc by (blast intro: store_update_ok conn_step.packet)
    then show ?thesis using assms(3) Some Return rc by (auto simp: recv_dispatch_def ep_ok_def split: if_splits)
  qed
qed

lemma delete_ok:
  assumes "ep_ok D n ep" and "set m \<subseteq> set (ep_conns ep)" and "distinct (map fst m)" and "length m \<le> length (ep_conns ep)"
  shows "ep_ok D n (ep\<lparr>ep_conns := m\<rparr>)"
  using assms by (auto simp: ep_ok_def)

lemma ep_reachable_ok: "ep_reachable D n ep \<Longrightarrow> ep_ok D n ep"
proof (induction rule: ep_reachable.induct)
  case (bound now sock secret ident cfg ep)
  then show ?case by (auto simp: bind_with_config_def ep_ok_def split: sum.splits)
next
  case (connecting n ep E dcc remote x kem_pk pref r ep')
  show ?case
  proof (cases "connect D E dcc (ep_socket ep) remote (ep_identity ep) x kem_pk pref")
    case (Inl e)
    then show ?thesis using connecting by (auto simp: endpoint_connect_def ep_ok_def)
  next
    case (Inr c)
    then show ?thesis
      using connecting add_conn_ok(1) [OF connecting.IH connect_reachable [OF Inr] connect_remote [OF Inr], of "Suc n"]
      by (auto simp: endpoint_connect_def ep_ok_def [of D n ep])
  qed
next
  case (removed n ep remote)
  then have "distinct (map fst (ep_conns ep))" by (simp add: ep_ok_def)
  then have "ep_ok D n (ep\<lparr>ep_conns := AList.delete remote (ep_conns ep)\<rparr>)"
    using removed.IH by (intro delete_ok distinct_delete) (auto simp: set_alist_delete AList.delete_eq)
  then show ?case by (auto simp: recv_remove_def ep_ok_def)
next
  case (sweeping n ep)
  then show ?case by (auto simp: sweep_start_def ep_ok_def)
next
  case (checked n ep now)
  then show ?case
    by (auto simp: sweep_check_def ep_ok_def Let_def split: sweep_pc.split list.split)
next
  case (swept n ep)
  then have "distinct (map fst (ep_conns ep))" by (simp add: ep_ok_def)
  then have "ep_ok D n (ep\<lparr>ep_conns := fold AList.delete ks (ep_conns ep)\<rparr>)" for ks
    using swept.IH fold_delete by (intro delete_ok) auto
  then show ?case using swept.IH by (auto simp: sweep_remove_def ep_ok_def split: sweep_pc.split)
qed (blast intro: recv_lookup_ok recv_dispatch_ok store_update_ok)+

text \<open>C12: The table is sound under every interleaving. Whatever the receive task, the clean-up task, the application and the
  connections do, and in whatever order, an address has at most one entry, its entry leads to a
  connection with that peer, a packet in the hands of the receive task goes to a connection with its sender,
  and the table holds no more entries than the limit plus the outgoing connections.\<close>

theorem endpoint_table_sound:
  assumes "ep_reachable D n ep"
  shows "distinct (map fst (ep_conns ep)) \<and> length (ep_conns ep) \<le> max_connections (ep_config ep) + n \<and>
    (\<forall>(remote, i) \<in> set (ep_conns ep). i < length (ep_store ep) \<and> conn_remote (ep_store ep ! i) = remote) \<and>
    (\<forall>remote i pkt. ep_recv ep = RecvDispatch remote i pkt \<longrightarrow> i < length (ep_store ep) \<and> conn_remote (ep_store ep ! i) = remote)"
  using ep_reachable_ok [OF assms] by (auto simp: ep_ok_def leads_to_def)

theorem endpoint_table_sound_witness:
  "\<exists>ep :: (unit, bytes, unit, unit, unit, rat, aimd) endpoint. ep_reachable demo_deps 0 ep \<and> ep_recv ep \<noteq> RecvReady \<and>
     length (ep_conns ep) = 1 \<and> (\<forall>(remote, i) \<in> set (ep_conns ep). conn_remote (ep_store ep ! i) = remote)"
proof -
  obtain ep0 :: "(unit, bytes, unit, unit, unit, rat, aimd) endpoint" where ep0:
    "bind_with_config 0 (Inr (demo_addr 9)) (replicate 32 5) demo_identity endpoint_config_default = Inr ep0"
    by (simp add: bind_with_config_def)
  define ep where "ep = recv_lookup demo_deps demo_env aimd_new (demo_addr 1) [PKT_COOKIE_REQ] ep0"
  have "ep_reachable demo_deps 0 ep"
    unfolding ep_def by (rule received [OF bound [OF ep0]]) (use ep0 in \<open>auto simp: bind_with_config_def\<close>)
  moreover have "rate_limit rat_floats 10 ip 0 ([], 0) = (True, [(ip, 9, 0)], 0)" for ip
    by (simp add: rate_limit_def rate_table_def bucket_take_def rat_floats_def as_secs_f64_def)
  with ep0 have "ep_recv ep \<noteq> RecvReady" "length (ep_conns ep) = 1"
    by (auto simp: ep_def bind_with_config_def recv_lookup_def endpoint_config_default_def DEFAULT_MAX_CONNECTIONS_def
        demo_deps_def demo_env_def accept_challenge_def send_to_def add_conn_def)
  ultimately show ?thesis using endpoint_table_sound [of demo_deps 0 ep] by auto
qed

section \<open>Sweeping\<close>

definition evictable :: "instant \<Rightarrow> ('n, 'ks, 'kp, 'ds, 'dp, 'f, 'c) endpoint \<Rightarrow> socket_addr \<times> nat \<Rightarrow> bool" where
  "evictable now ep ai \<longleftrightarrow> is_closed (ep_store ep ! snd ai) \<or> is_stale now (ep_store ep ! snd ai)"

lemma sweep_checks:
  "(sweep_check now ^^ length todo) (ep\<lparr>ep_sweep := SweepChecking todo stale\<rparr>) =
     ep\<lparr>ep_sweep := SweepChecking [] (stale @ map fst (filter (evictable now ep) todo))\<rparr>"
proof (induction todo arbitrary: stale)
  case (Cons ai todo)
  obtain a i where ai: "ai = (a, i)" by force
  have "sweep_check now (ep\<lparr>ep_sweep := SweepChecking (ai # todo) stale\<rparr>) =
      ep\<lparr>ep_sweep := SweepChecking todo (stale @ map fst (filter (evictable now ep) [ai]))\<rparr>"
    by (simp add: sweep_check_def ai evictable_def)
  then show ?case using Cons.IH by (simp add: funpow_Suc_right del: funpow.simps)
qed simp

text \<open>A sweep that is not interrupted removes exactly the connections that are closed or have been silent for too
  long; the others keep their entries, and no connection is changed.\<close>

theorem sweep_exact:
  assumes "distinct (map fst (ep_conns ep))" and "ep_sweep ep = SweepWaiting"
  shows "sweep now ep = ep\<lparr>ep_conns := filter (\<lambda>ai. \<not> evictable now ep ai) (ep_conns ep)\<rparr>"
proof -
  define stale where "stale = map fst (filter (evictable now ep) (ep_conns ep))"
  have "(sweep_check now ^^ (length (ep_conns ep) + 1)) (sweep_start ep) =
      sweep_check now (ep\<lparr>ep_sweep := SweepChecking [] stale\<rparr>)"
    using sweep_checks [where now = now and todo = "ep_conns ep" and ep = ep and stale = "[]"] by (simp add: sweep_start_def stale_def)
  moreover have "filter (\<lambda>e. fst e \<notin> set stale) (ep_conns ep) = filter (\<lambda>ai. \<not> evictable now ep ai) (ep_conns ep)"
    by (rule filter_cong) (use assms(1) in \<open>auto simp: stale_def dest: eq_key_imp_eq_value\<close>)
  ultimately show ?thesis
    using fold_delete [OF assms(1), of stale] assms(2)
    by (cases "stale = []") (auto simp: sweep_def sweep_check_def sweep_remove_def intro!: endpoint.equality)
qed

section \<open>New addresses\<close>

text \<open>The first packet of an address, whatever it contains, takes a slot of the table; when the slots are taken, the packets
  of all other new addresses are dropped.\<close>

theorem first_packet_takes_slot:
  assumes "map_of (ep_conns ep) remote = None" and "net_up E"
    and "fst (rate_limit (d_f64 D) (max_new_conns_per_sec_per_ip (ep_config ep)) (sa_ip remote) (e_now E) (ip_rate ep, last_cleanup ep))"
  shows "length (ep_conns (recv_lookup D E dcc remote pkt ep)) = min (Suc (length (ep_conns ep))) (max (length (ep_conns ep)) (max_connections (ep_config ep)))"
    and "length (ep_conns ep) \<ge> max_connections (ep_config ep) \<Longrightarrow> recv_lookup D E dcc remote pkt ep = ep"
proof -
  have new: "remote \<notin> fst ` set (ep_conns ep)" using assms(1) by (simp add: map_of_eq_None_iff)
  with assms show "length (ep_conns (recv_lookup D E dcc remote pkt ep)) = min (Suc (length (ep_conns ep))) (max (length (ep_conns ep)) (max_connections (ep_config ep)))"
    by (simp add: recv_lookup_def split_beta Let_def accept_challenge_def send_to_up add_conn_def length_alist_update min_def max_def)
  show "length (ep_conns ep) \<ge> max_connections (ep_config ep) \<Longrightarrow> recv_lookup D E dcc remote pkt ep = ep"
    using assms(1) by (simp add: recv_lookup_def)
qed

text \<open>A sweep that is overtaken: it finds the connection of an address closed; before it takes the lock of the table, the
  receive task removes that connection and accepts a new one from the same address; the sweep then evicts the new one, which
  the application has been handed and whose packets no longer reach it.\<close>

theorem sweep_evicts_fresh_connection:
  fixes ep :: "('n, 'ks, 'kp, 'ds, 'dp, 'f, 'c) endpoint"
  assumes "ep_conns ep = [(a, 0)]" and "ep_store ep = [c]" and "is_closed c" and "ep_recv ep = RecvReady"
    and "max_connections (ep_config ep) > 0" and "net_up E"
    and "fst (rate_limit (d_f64 D) (max_new_conns_per_sec_per_ip (ep_config ep)) (sa_ip a) (e_now E) (ip_rate ep, last_cleanup ep))"
  defines "ep1 \<equiv> sweep_check (e_now E) (sweep_check (e_now E) (sweep_start ep))"
  shows "\<exists>ep2 ep3. recv_turn D E dcc a [PKT_COOKIE_REQ] ep1 = Some ep2 \<and> recv_turn D E dcc a [PKT_COOKIE_REQ] ep2 = Some ep3 \<and>
    map_of (ep_conns ep3) a = Some 1 \<and> phase (ep_store ep3 ! 1) = ServerWaitCookie \<and> 1 \<in> set (accept_rx ep3) \<and>
    map_of (ep_conns (sweep_remove ep3)) a = None"
proof -
  have ep1: "ep1 = ep\<lparr>ep_sweep := SweepRemoving [a]\<rparr>"
    using assms by (simp add: ep1_def sweep_start_def sweep_check_def)
  define ep2 where "ep2 = ep\<lparr>ep_sweep := SweepRemoving [a], ep_conns := [], ep_recv := RecvReady\<rparr>"
  have "on_packet D E [PKT_COOKIE_REQ] c = Some (Return (Inr (), c))"
    using assms(3) by (auto simp: is_closed_def on_packet_def)
  then have one: "recv_turn D E dcc a [PKT_COOKIE_REQ] ep1 = Some ep2"
    using assms(1-4) unfolding ep1 ep2_def
    by (auto simp: recv_turn_def recv_lookup_def recv_dispatch_def recv_remove_def intro!: endpoint.equality)
  obtain tbl lc where rate: "rate_limit (d_f64 D) (max_new_conns_per_sec_per_ip (ep_config ep)) (sa_ip a) (e_now E)
      (ip_rate ep, last_cleanup ep) = (True, tbl, lc)" using assms(7) by (metis prod.collapse)
  obtain n where n: "accept_challenge D E dcc (ep_socket ep) a (ep_identity ep) (ep_cookies ep) None cipher_suite_default = Inr n"
    using assms(6) by (simp add: accept_challenge_def send_to_up Let_def)
  have refused: "on_packet D E [PKT_COOKIE_REQ] n = Some (Return (Inl (HandshakeFailed ''expected cookie echo''), n))"
    using accept_state(1) [OF n] by (simp add: on_packet_def server_rx_cookie_echo_def)
  define ep3 where "ep3 = ep2\<lparr>ip_rate := tbl, last_cleanup := lc, ep_store := [c, n], ep_conns := [(a, 1)],
    accept_rx := accept_rx ep @ [1], ep_recv := RecvReady\<rparr>"
  have "recv_turn D E dcc a [PKT_COOKIE_REQ] ep2 = Some ep3"
    using assms(2,5) rate n refused accept_state(1) [OF n] unfolding ep3_def ep2_def
    by (simp add: recv_turn_def recv_lookup_def recv_dispatch_def add_conn_def is_closed_def)
  moreover have "map_of (ep_conns ep3) a = Some 1" "phase (ep_store ep3 ! 1) = ServerWaitCookie" "1 \<in> set (accept_rx ep3)"
    "map_of (ep_conns (sweep_remove ep3)) a = None"
    using accept_state(1) [OF n] by (simp_all add: ep3_def ep2_def sweep_remove_def)
  ultimately show ?thesis using one by blast
qed

end
