(* ===== verification/Api_Facts.thy ===== *)
theory Api_Facts
  imports Seam_Api Endpoint_Facts
begin

text \<open>
  What the interface guarantees: a server hands out established connections, each of them once; a client that returns a connection
  has completed the handshake. And what it does not: one stray datagram ends an attempt to
  connect, and of two symmetric peers at most one ever gets a connection.
\<close>

section \<open>The server\<close>

inductive server_reachable ::
  "('n, 'ks, 'kp, 'ds, 'dp, 'f, 'c) deps \<Rightarrow> ('n, 'ks, 'kp, 'ds, 'dp, 'f, 'c) server \<Rightarrow> bool" for D where
  bound: "server_bind sock secret ticket_secret ident pref = Inr sv \<Longrightarrow> server_reachable D sv"
| received: "server_reachable D sv \<Longrightarrow> server_packet D E dcc remote pkt sv = Some (Return sv') \<Longrightarrow> server_reachable D sv'"
| swept: "server_reachable D sv \<Longrightarrow> server_reachable D (server_sweep now sv)"
| used: "server_reachable D sv \<Longrightarrow> i \<in> set (sv_accepted sv) \<Longrightarrow> conn_step D (sv_store sv ! i) c \<Longrightarrow>
    server_reachable D (sv\<lparr>sv_store := (sv_store sv)[i := c]\<rparr>)"

text \<open>The handshake of a connection is over.\<close>

definition completed :: "('n, 'ks, 'kp, 'ds, 'dp, 'f, 'c) connection \<Rightarrow> bool" where
  "completed c \<longleftrightarrow> is_established c \<or> is_closed c"

lemma completed_phase: "completed c \<longleftrightarrow> phase c \<in> {Established, Draining, PhaseClosed}"
  by (auto simp: completed_def is_established_def is_closed_def)

lemma conn_step_completed:
  assumes "conn_step D c c'" and "conn_ok c" and "completed c"
  shows "completed c'"
  using assms(1)
proof (cases rule: conn_step_cases)
  case kept
  then show ?thesis using assms(3) by (simp add: completed_phase keeps_def hs_view_def)
next
  case (packet E buf r)
  then have "keeps c c'"
    using assms(2,3) by (auto simp: completed_phase on_packet_def conn_ok_def intro: on_data_packet_keeps split: if_splits)
  then show ?thesis using assms(3) by (simp add: completed_phase keeps_def hs_view_def)
qed (use assms(2,3) in \<open>simp_all add: maybe_migrate_idle close_def completed_phase\<close>)

text \<open>Only a packet of the handshake establishes a connection.\<close>

lemma newly_established:
  assumes "on_packet D E pkt c = Some (Return (r, c'))" and "\<not> is_established c" and "is_established c'"
  shows "\<not> completed c"
  using assms by (auto simp: completed_def is_closed_def on_packet_def is_established_def split: if_splits)

definition sv_ok :: "('n, 'ks, 'kp, 'ds, 'dp, 'f, 'c) deps \<Rightarrow> ('n, 'ks, 'kp, 'ds, 'dp, 'f, 'c) server \<Rightarrow> bool" where
  "sv_ok D sv \<longleftrightarrow>
     distinct (map fst (sv_conns sv)) \<and> (\<forall>c \<in> set (sv_store sv). conn_reachable D c) \<and>
     (\<forall>ai \<in> set (sv_conns sv). leads_to (sv_store sv) ai) \<and> distinct (sv_accepted sv) \<and>
     (\<forall>i \<in> set (sv_accepted sv). i < length (sv_store sv) \<and> completed (sv_store sv ! i))"

lemma sv_store_update:
  assumes "sv_ok D sv" and "i < length (sv_store sv)" and "conn_step D (sv_store sv ! i) c"
  shows "sv_ok D (sv\<lparr>sv_store := (sv_store sv)[i := c]\<rparr>)"
proof -
  have reach: "conn_reachable D (sv_store sv ! i)" using assms(1,2) by (simp add: sv_ok_def)
  note ok = conn_reachable_ok [OF reach]
  have "conn_remote c = conn_remote (sv_store sv ! i)" by (rule conn_step_remote [OF assms(3) ok])
  then have "store_le (sv_store sv) ((sv_store sv)[i := c])"
    using assms(2) by (simp add: store_le_def nth_list_update)
  note mono = leads_to_mono [OF this]
  have "completed ((sv_store sv)[i := c] ! j)" if "j < length (sv_store sv)" "completed (sv_store sv ! j)" for j
    using that conn_step_completed [OF assms(3) ok] by (cases "i = j") simp_all
  then show ?thesis
    using assms(1) mono conn_reachable.step [OF reach assms(3)]
    by (auto simp: sv_ok_def simp del: split_paired_All split_paired_all dest!: set_update_subset_insert [THEN subsetD])
qed

lemma server_known_ok:
  assumes "sv_ok D sv" and "map_of (sv_conns sv) remote = Some i" and "server_known D E remote i pkt sv = Some (Return sv')"
  shows "sv_ok D sv'"
proof -
  have i: "i < length (sv_store sv)" using assms(1,2) by (auto simp: sv_ok_def leads_to_def dest!: map_of_SomeD)
  obtain r c where c: "on_packet D E pkt (sv_store sv ! i) = Some (Return (r, c))"
    using assms(3) by (auto simp: server_known_def Let_def split: option.splits outcome.splits)
  define sv1 where "sv1 = sv\<lparr>sv_store := (sv_store sv)[i := c]\<rparr>"
  have ok1: "sv_ok D sv1" unfolding sv1_def by (rule sv_store_update [OF assms(1) i conn_step.packet [OF c]])
  have new: "i \<notin> set (sv_accepted sv)" if "\<not> is_established (sv_store sv ! i)" "is_established c"
    using newly_established [OF c that] assms(1) by (auto simp: sv_ok_def)
  define sv2 where "sv2 = (if \<not> is_established (sv_store sv ! i) \<and> is_established c \<and> remote \<notin> set (server.delivered sv1)
    then (let s = sv1\<lparr>delivered := remote # server.delivered sv1\<rparr>
          in if remote \<in> set (pending_events s)
             then s\<lparr>pending_events := removeAll remote (pending_events s), sv_accepted := sv_accepted s @ [i]\<rparr> else s)
    else sv1)"
  have ok2: "sv_ok D sv2"
    using ok1 new i by (auto simp: sv2_def Let_def sv_ok_def sv1_def completed_def)
  have "sv_ok D (sv2\<lparr>sv_conns := AList.delete remote (sv_conns sv2), delivered := d\<rparr>)" for d
    using ok2 by (auto simp: sv_ok_def set_alist_delete distinct_delete)
  moreover have "sv' = (if is_closed c
      then sv2\<lparr>sv_conns := AList.delete remote (sv_conns sv2), delivered := removeAll remote (server.delivered sv2)\<rparr> else sv2)"
    using assms(3) unfolding server_known_def c Let_def sv2_def sv1_def option.case outcome.case prod.case option.inject outcome.inject
    by (rule sym)
  ultimately show ?thesis using ok2 by simp
qed

lemma server_unknown_ok:
  assumes "sv_ok D sv"
  shows "sv_ok D (server_unknown D E dcc remote sv)"
proof (cases "accept_challenge D E dcc (sv_socket sv) remote (sv_identity sv) (sv_cookies sv) (Some (sv_ticket_key sv)) (sv_cipher sv)")
  case (Inl e)
  then show ?thesis using assms by (simp add: server_unknown_def)
next
  case (Inr c)
  let ?st = "sv_store sv @ [c]"
  have "store_le (sv_store sv) ?st" by (simp add: store_le_def nth_append)
  note mono = leads_to_mono [OF this]
  have "leads_to ?st (remote, length (sv_store sv))" using accept_state(6) [OF Inr] by (simp add: leads_to_def)
  with assms Inr mono show ?thesis
    by (auto simp: server_unknown_def sv_ok_def distinct_update nth_append intro: accept_reachable [OF Inr]
        simp del: split_paired_All split_paired_all dest!: set_alist_update [THEN subsetD])
qed

lemma server_reachable_ok: "server_reachable D sv \<Longrightarrow> sv_ok D sv"
proof (induction rule: server_reachable.induct)
  case (bound sock secret ticket_secret ident pref sv)
  then show ?case by (auto simp: server_bind_def sv_ok_def split: sum.splits)
next
  case (received sv E dcc remote pkt sv')
  then show ?case
    using server_known_ok [OF received.IH, of remote _ E pkt sv'] server_unknown_ok [OF received.IH]
    by (auto simp: server_packet_def split: option.splits)
next
  case (swept sv now)
  then have "distinct (map fst (sv_conns sv))" by (simp add: sv_ok_def)
  from swept.IH fold_delete [OF this] show ?case by (auto simp: server_sweep_def Let_def sv_ok_def distinct_map_filter)
next
  case (used sv i c)
  then show ?case using sv_store_update by (auto simp: sv_ok_def [of D sv] intro: sv_store_update)
qed

text \<open>C28: A server hands out connections with a completed handshake, and each of them once. Whatever packets arrive from
  whom, whatever the application does with the connections it has, and however often the table is swept: a connection in the
  accept channel is established, unless it has been closed since, and is in the channel once; an address of the table leads
  to a connection with that peer.\<close>

theorem server_accepts_completed:
  assumes "server_reachable D sv"
  shows "distinct (sv_accepted sv) \<and>
    (\<forall>i \<in> set (sv_accepted sv). i < length (sv_store sv) \<and> (is_established (sv_store sv ! i) \<or> is_closed (sv_store sv ! i))) \<and>
    (\<forall>(remote, i) \<in> set (sv_conns sv). i < length (sv_store sv) \<and> conn_remote (sv_store sv ! i) = remote)"
  using server_reachable_ok [OF assms] by (auto simp: sv_ok_def completed_def leads_to_def)

section \<open>Client and server\<close>

text \<open>What the server makes of the three packets of a client.\<close>

lemma server_run:
  assumes sv: "server_bind (Inr sock) secret ticket_secret ident pref = Inr sv"
    and s0: "accept_challenge D E0 dcc sock remote ident (cookie_factory_new secret) (Some (ticket_key_new ticket_secret)) pref = Inr s0"
    and s1: "on_packet D E1 m1 s0 = Some (Return (r1, s1))" "phase s1 = ServerWaitMsg3"
    and s2: "on_packet D E2 m2 s1 = Some (Return (r2, s2))" "phase s2 = Established"
  shows "\<exists>sv1 sv2 sv3. server_packet D E0 dcc remote m0 sv = Some (Return sv1) \<and> server_packet D E1 dcc remote m1 sv1 = Some (Return sv2) \<and>
    server_packet D E2 dcc remote m2 sv2 = Some (Return sv3) \<and> sv_store sv1 = [s0] \<and> sv_store sv2 = [s1] \<and> sv_store sv3 = [s2] \<and>
    sv_accepted sv3 = [0]"
proof -
  have st: "sv_socket sv = sock" "sv_identity sv = ident" "sv_cookies sv = cookie_factory_new secret"
    "sv_ticket_key sv = ticket_key_new ticket_secret" "sv_cipher sv = pref" "sv_conns sv = []" "sv_store sv = []"
    "pending_events sv = []" "server.delivered sv = []" "sv_accepted sv = []"
    using sv by (auto simp: server_bind_def)
  define sv1 where "sv1 = sv\<lparr>pending_events := [remote], sv_store := [s0], sv_conns := [(remote, 0)]\<rparr>"
  define sv2 where "sv2 = sv1\<lparr>sv_store := [s1]\<rparr>"
  define sv3 where "sv3 = sv2\<lparr>sv_store := [s2], delivered := [remote], pending_events := [], sv_accepted := [0]\<rparr>"
  have p0: "phase s0 = ServerWaitCookie" by (rule accept_state(1) [OF s0])
  have "server_packet D E0 dcc remote m0 sv = Some (Return sv1)"
    using s0 st by (simp add: server_packet_def server_unknown_def sv1_def)
  moreover have "server_packet D E1 dcc remote m1 sv1 = Some (Return sv2)"
    using s1 p0 st by (simp add: server_packet_def server_known_def sv1_def sv2_def is_established_def is_closed_def)
  moreover have "server_packet D E2 dcc remote m2 sv2 = Some (Return sv3)"
    using s1(2) s2 st by (simp add: server_packet_def server_known_def sv1_def sv2_def sv3_def is_established_def is_closed_def)
  ultimately show ?thesis by (auto simp: sv1_def sv2_def sv3_def)
qed

text \<open>A call of \<^verbatim>\<open>Client::connect\<close> whose first attempt succeeds does not try again.\<close>

lemma client_connect_first:
  assumes "try_connect D Ec dcc sock remote ident x kem_pk pref incoming = Some (Return (Inr c))"
  shows "client_connect D dcc sock remote ident x kem_pk pref (\<lambda>_. (Ec, incoming)) = Some (Return (Inr c))"
  using assms by (simp add: client_connect_def upt_conv_Cons)

text \<open>C3: A client reaches a server. A client that knows the server's keys calls \<^verbatim>\<open>Client::connect\<close>; the network carries what it
  sends to a server that has just been bound, and the answers back: \<open>c0\<close> is the client after its first packet, \<open>c1\<close> the client after
  the cookie challenge and \<open>c\<close> the connection the call returns, and each packet the server receives is the one the client sent
  last in that state. When the network sends, the cookie is echoed within its lifetime and the Noise states agree, the call returns an
  established connection at its first attempt, the server puts one in its accept channel, and their sessions match; the
  session ticket the server issues does not get in the way.\<close>

theorem client_reaches_server:
  assumes laws: "pq_lawful (d_pq D)" "kdf_lawful (d_prims D)" "noise_bounded (d_noise D)" and up: "\<And>i. net_up (E i)"
    and bound: "server_bind (Inr saddr) secret ticket_secret ident spref = Inr sv"
    and ticket: "aead_lawful (d_prims D)" "length ticket_secret = 32" "length (e_random (E 3)) = 12"
    and client: "connect D Ec dcc caddr saddr cid server_x (id_kem_pk ident) pref = Inr c0"
    and kem: "kem_pair (d_pq D) (id_kem_sk ident) (id_kem_pk ident)"
    and responder: "noise_responder (d_noise D) (e_random (E 1)) (id_x25519_secret ident) = Inr ns"
    and agrees: "\<And>hs. client_hs c0 = Some hs \<Longrightarrow> noise_agrees (d_noise D) (ch_noise hs) ns"
    and fresh: "unat (e_unix_secs (E 1)) div 30 \<in> {unat (e_unix_secs (E 4)) div 30, unat (e_unix_secs (E 4)) div 30 + 1}"
  shows "\<exists>sv1 sv2 sv3 c1 c cs ss.
    server_packet D (E 4) dcc' caddr (last_sent c0) sv = Some (Return sv1) \<and>
    on_packet D (E 0) (last_sent (sv_store sv1 ! 0)) c0 = Some (Return (Inr (), c1)) \<and>
    server_packet D (E 1) dcc' caddr (last_sent c1) sv1 = Some (Return sv2) \<and>
    on_packet D (E 2) (last_sent (sv_store sv2 ! 0)) c1 = Some (Return (Inr (), c)) \<and>
    server_packet D (E 3) dcc' caddr (last_sent c) sv2 = Some (Return sv3) \<and>
    client_connect D dcc caddr saddr cid server_x (id_kem_pk ident) pref
      (\<lambda>_. (Ec, [(E 0, Datagram (last_sent (sv_store sv1 ! 0))), (E 2, Datagram (last_sent (sv_store sv2 ! 0)))])) =
      Some (Return (Inr c)) \<and>
    is_established c \<and> sv_accepted sv3 = [0] \<and> is_established (sv_store sv3 ! 0) \<and>
    conn_session c = Some cs \<and> conn_session (sv_store sv3 ! 0) = Some ss \<and> sessions_match cs ss"
proof -
  let ?tk = "ticket_key_new ticket_secret"
  obtain s0 where s0: "accept_challenge D (E 4) dcc' saddr caddr ident (cookie_factory_new secret) (Some ?tk) spref = Inr s0"
    using up by (simp add: accept_challenge_def send_to_up Let_def)
  have "ticket_ready D (E 3) (Some ?tk)" using ticket by (simp add: ticket_ready_def ticket_key_new_def)
  with handshake_steps [where E = E, OF laws up client s0 _ kem responder agrees fresh] obtain c1 s1 c2 s2 cs ss where
    run: "on_packet D (E 0) (last_sent s0) c0 = Some (Return (Inr (), c1))" "on_packet D (E 1) (last_sent c1) s0 = Some (Return (Inr (), s1))"
      "on_packet D (E 2) (last_sent s1) c1 = Some (Return (Inr (), c2))" "on_packet D (E 3) (last_sent c2) s1 = Some (Return (Inr (), s2))"
    and ph: "phase c1 = ClientWaitMsg2" "phase s1 = ServerWaitMsg3" "phase c2 = Established" "phase s2 = Established"
    and ss: "conn_session c2 = Some cs" "conn_session s2 = Some ss" "sessions_match cs ss" by blast
  obtain sv1 sv2 sv3 where sv: "server_packet D (E 4) dcc' caddr (last_sent c0) sv = Some (Return sv1)"
    "server_packet D (E 1) dcc' caddr (last_sent c1) sv1 = Some (Return sv2)"
    "server_packet D (E 3) dcc' caddr (last_sent c2) sv2 = Some (Return sv3)"
    "sv_store sv1 = [s0]" "sv_store sv2 = [s1]" "sv_store sv3 = [s2]" "sv_accepted sv3 = [0]"
    using server_run [OF bound s0 run(2) ph(2) run(4) ph(4)] by blast
  have "phase c0 = ClientWaitChallenge" by (rule connect_state [OF client])
  then have "try_connect D Ec dcc caddr saddr cid server_x (id_kem_pk ident) pref
      [(E 0, Datagram (last_sent s0)), (E 2, Datagram (last_sent s1))] = Some (Return (Inr c2))"
    using client run ph by (simp add: try_connect_def is_established_def)
  from client_connect_first [OF this] sv run ph ss show ?thesis
    by (intro exI [of _ sv1] exI [of _ sv2] exI [of _ sv3] exI [of _ c1] exI [of _ c2] exI [of _ cs] exI [of _ ss])
      (simp add: is_established_def)
qed

definition demo_envs :: "nat \<Rightarrow> env" where
  "demo_envs i = (if i = 3 then demo_env\<lparr>e_random := replicate 12 0\<rparr> else demo_env)"

lemma net_up_demo_envs: "net_up (demo_envs i)"
  using net_up_demo by (simp add: demo_envs_def net_up_def)

lemma demo_env_laws:
  "pq_lawful (d_pq demo_deps)" "kdf_lawful (d_prims demo_deps)" "noise_bounded (d_noise demo_deps)" "aead_lawful (d_prims demo_deps)"
  "kem_pair (d_pq demo_deps) (id_kem_sk demo_identity) (id_kem_pk demo_identity)"
  "noise_responder (d_noise demo_deps) r x = Inr ()" "noise_agrees (d_noise demo_deps) n ()"
  "length (replicate 32 (6 :: u8)) = 32" "length (e_random (demo_envs 3)) = 12"
  "unat (e_unix_secs (demo_envs 1)) div 30 \<in> {unat (e_unix_secs (demo_envs 4)) div 30, unat (e_unix_secs (demo_envs 4)) div 30 + 1}"
  by (simp_all add: demo_laws demo_envs_def split: if_splits)

lemma demo_starts:
  obtains c0 and sv :: "(unit, bytes, unit, unit, unit, rat, aimd) server" where
    "connect demo_deps demo_env aimd_new (demo_addr 1) (demo_addr 2) demo_identity [] (id_kem_pk demo_identity) Aes256Gcm = Inr c0"
    "server_bind (Inr (demo_addr 2)) (replicate 32 5) (replicate 32 6) demo_identity Aes256Gcm = Inr sv"
  by (rule demo_connects) (simp add: server_bind_def)

theorem client_reaches_server_witness:
  "\<exists>(sv :: (unit, bytes, unit, unit, unit, rat, aimd) server) c0 sv1 sv2 sv3
     (c1 :: (unit, bytes, unit, unit, unit, rat, aimd) connection) c cs ss.
    server_bind (Inr (demo_addr 2)) (replicate 32 5) (replicate 32 6) demo_identity Aes256Gcm = Inr sv \<and>
    connect demo_deps demo_env aimd_new (demo_addr 1) (demo_addr 2) demo_identity [] (id_kem_pk demo_identity) Aes256Gcm = Inr c0 \<and>
    server_packet demo_deps (demo_envs 4) aimd_new (demo_addr 1) (last_sent c0) sv = Some (Return sv1) \<and>
    server_packet demo_deps (demo_envs 1) aimd_new (demo_addr 1) (last_sent c1) sv1 = Some (Return sv2) \<and>
    server_packet demo_deps (demo_envs 3) aimd_new (demo_addr 1) (last_sent c) sv2 = Some (Return sv3) \<and>
    client_connect demo_deps aimd_new (demo_addr 1) (demo_addr 2) demo_identity [] (id_kem_pk demo_identity) Aes256Gcm
      (\<lambda>_. (demo_env, [(demo_envs 0, Datagram (last_sent (sv_store sv1 ! 0))), (demo_envs 2, Datagram (last_sent (sv_store sv2 ! 0)))])) =
      Some (Return (Inr c)) \<and>
    is_established c \<and> sv_accepted sv3 = [0] \<and>
    conn_session c = Some cs \<and> conn_session (sv_store sv3 ! 0) = Some ss \<and> sessions_match cs ss"
proof (rule demo_starts)
  fix c0 and sv :: "(unit, bytes, unit, unit, unit, rat, aimd) server"
  assume c0: "connect demo_deps demo_env aimd_new (demo_addr 1) (demo_addr 2) demo_identity [] (id_kem_pk demo_identity) Aes256Gcm = Inr c0"
    and sv: "server_bind (Inr (demo_addr 2)) (replicate 32 5) (replicate 32 6) demo_identity Aes256Gcm = Inr sv"
  from client_reaches_server [where E = demo_envs and dcc' = aimd_new,
      OF demo_env_laws(1-3) net_up_demo_envs sv demo_env_laws(4,8,9) c0 demo_env_laws(5-7,10)]
  show ?thesis by (elim exE conjE) (intro exI conjI, (rule sv | rule c0 | assumption)+)
qed

theorem server_accepts_completed_witness:
  "\<exists>sv :: (unit, bytes, unit, unit, unit, rat, aimd) server. server_reachable demo_deps sv \<and> sv_accepted sv = [0] \<and>
     (is_established (sv_store sv ! 0) \<or> is_closed (sv_store sv ! 0))"
proof (rule demo_starts)
  fix c0 and sv :: "(unit, bytes, unit, unit, unit, rat, aimd) server"
  assume c0: "connect demo_deps demo_env aimd_new (demo_addr 1) (demo_addr 2) demo_identity [] (id_kem_pk demo_identity) Aes256Gcm = Inr c0"
    and sv: "server_bind (Inr (demo_addr 2)) (replicate 32 5) (replicate 32 6) demo_identity Aes256Gcm = Inr sv"
  let ?tk = "ticket_key_new (replicate 32 6)"
  obtain s0 where s0: "accept_challenge demo_deps (demo_envs 4) aimd_new (demo_addr 2) (demo_addr 1) demo_identity
      (cookie_factory_new (replicate 32 5)) (Some ?tk) Aes256Gcm = Inr s0"
    using net_up_demo_envs by (simp add: accept_challenge_def send_to_up Let_def)
  have tk: "ticket_ready demo_deps (demo_envs 3) (Some ?tk)"
    using demo_env_laws(4,8,9) by (simp add: ticket_ready_def ticket_key_new_def)
  obtain c1 s1 c2 s2 where run: "on_packet demo_deps (demo_envs 1) (last_sent (c1 :: (unit, bytes, unit, unit, unit, rat, aimd) connection)) s0 = Some (Return (Inr (), s1))"
    "on_packet demo_deps (demo_envs 3) (last_sent (c2 :: (unit, bytes, unit, unit, unit, rat, aimd) connection)) s1 = Some (Return (Inr (), s2))"
    "phase s1 = ServerWaitMsg3" "phase s2 = Established"
    using handshake_steps [where E = demo_envs, OF demo_env_laws(1-3) net_up_demo_envs c0 s0 tk demo_env_laws(5-7,10)] by blast
  from server_run [OF sv s0 run(1,3,2,4)] obtain sv1 sv2 sv3 where
    "server_packet demo_deps (demo_envs 4) aimd_new (demo_addr 1) [] sv = Some (Return sv1)"
    "server_packet demo_deps (demo_envs 1) aimd_new (demo_addr 1) (last_sent c1) sv1 = Some (Return sv2)"
    "server_packet demo_deps (demo_envs 3) aimd_new (demo_addr 1) (last_sent c2) sv2 = Some (Return sv3)" "sv_accepted sv3 = [0]"
    by blast
  then have "server_reachable demo_deps sv3" "sv_accepted sv3 = [0]" by (meson bound [OF sv] received)+
  with server_accepts_completed [of demo_deps sv3] show ?thesis by auto
qed

section \<open>The client\<close>

text \<open>A client that returns a connection has completed the handshake with it.\<close>

lemma drive_handshake_established: "drive_handshake D incoming c = Some (Return (Inr c')) \<Longrightarrow> is_established c'"
  by (induction D incoming c rule: drive_handshake.induct)
    (auto split: if_splits arrival.splits option.splits outcome.splits sum.splits)

theorem client_connect_established:
  assumes "client_connect D dcc sock remote ident x kem_pk pref tries = Some (Return (Inr c))"
  shows "is_established c"
proof -
  have "is_established c" if "connect_loop D dcc sock remote ident x kem_pk pref ts err = Some (Return (Inr c))" for ts err
    using that
  proof (induction ts arbitrary: err)
    case (Cons t ts)
    then show ?case
      by (cases t) (auto simp: try_connect_def dest: drive_handshake_established split: option.splits outcome.splits sum.splits)
  qed simp
  with assms show ?thesis by (simp add: client_connect_def)
qed

text \<open>The datagram may come from anyone: whatever does not parse as the packet the client waits for ends the attempt.\<close>

theorem stray_datagram_ends_attempt:
  assumes "phase c = ClientWaitChallenge" and "b \<noteq> []" and "b ! 0 \<noteq> PKT_COOKIE_CHALLENGE"
  shows "drive_handshake D ((E, Datagram b) # incoming) c = Some (Return (Inl (HandshakeFailed ''expected cookie challenge'')))"
  using assms by (simp add: is_established_def on_packet_def client_rx_challenge_def)

section \<open>The symmetric peer\<close>

lemma bytes_le_total: "bytes_le a b \<or> bytes_le b a"
  by (induction a b rule: bytes_le.induct) auto

lemma peer_connect_responds:
  "peer_connect D E dcc sock remote ident cipher a secret ts probes incoming = Some (Return (Inr c)) \<Longrightarrow>
     peer_nonce (take 50 probes) = Some (b, from) \<Longrightarrow> \<not> bytes_le a b"
  by (auto simp: peer_connect_def split: ip_addr.splits sum.splits option.splits if_splits)

text \<open>Of two peers that have exchanged their nonces, at most one returns a connection: the one that should initiate
  always fails. An IPv6 address makes a peer panic.\<close>

theorem symmetric_peers_never_connect:
  assumes "peer_nonce (take 50 p1) = Some (b, f1)" and "peer_nonce (take 50 p2) = Some (a, f2)"
  shows "\<not> (peer_connect D E1 dcc1 s1 r1 i1 cipher a sec1 t1 p1 in1 = Some (Return (Inr c1)) \<and>
            peer_connect D E2 dcc2 s2 r2 i2 cipher b sec2 t2 p2 in2 = Some (Return (Inr c2)))"
  using bytes_le_total [of a b] by (auto dest: peer_connect_responds [OF _ assms(1)] peer_connect_responds [OF _ assms(2)])

theorem symmetric_peer_ipv6_panics:
  "sa_ip remote = V6 w \<Longrightarrow> peer_connect D E dcc sock remote ident cipher a secret ts probes incoming = Some Panic"
  by (simp add: peer_connect_def)

end
