(* ===== verification/Seam_Mux.thy ===== *)
theory Seam_Mux
  imports Seam_Api
begin

text \<open>
  The multiplexer of \<^verbatim>\<open>tunnel.rs\<close>: one task turns the events of a connection into byte streams, one task for each stream
  writes what the application hands it, and a stream is read and written through a pair of unbounded channels. The channels are
  shared by their two ends, so they live in stores and the ends are indices.
\<close>

text \<open>The channel a stream is read from, and whether its sender still exists.\<close>

record data_chan =
  dc_queue :: "bytes list"
  dc_open :: bool

text \<open>The channel a stream is written to, and whether its two ends still exist; the task that reads it.\<close>

record write_chan =
  wc_sid :: sid
  wc_queue :: "bytes list"
  wc_tx_open :: bool
  wc_rx_open :: bool

record ('n, 'ks, 'kp, 'ds, 'dp, 'f, 'c) mux =
  mx_conn :: "('n, 'ks, 'kp, 'ds, 'dp, 'f, 'c) connection"
  data_chans :: "data_chan list"
  write_chans :: "write_chan list"
  stream_senders :: "(sid \<times> nat) list"
  pending_receivers :: "(sid \<times> nat) list"
  pending_streams :: "sid list"
  pending_permits :: nat
  pending_closed :: bool
  mx_datagrams :: "bytes list"

record mux_stream =
  ms_sid :: sid
  ms_write_tx :: "nat option"
  ms_data_rx :: nat
  read_buf :: bytes

definition mux_new :: "('n, 'ks, 'kp, 'ds, 'dp, 'f, 'c) connection \<Rightarrow> ('n, 'ks, 'kp, 'ds, 'dp, 'f, 'c) mux" where
  "mux_new c =
     \<lparr>mx_conn = c, data_chans = [], write_chans = [], stream_senders = [], pending_receivers = [], pending_streams = [],
      pending_permits = 0, pending_closed = False, mx_datagrams = []\<rparr>"

section \<open>Channels\<close>

definition chan_push :: "nat \<Rightarrow> bytes \<Rightarrow> data_chan list \<Rightarrow> data_chan list" where
  "chan_push k dat cs = cs[k := (cs ! k)\<lparr>dc_queue := dc_queue (cs ! k) @ [dat]\<rparr>]"

definition chan_close :: "nat \<Rightarrow> data_chan list \<Rightarrow> data_chan list" where
  "chan_close k cs = cs[k := (cs ! k)\<lparr>dc_open := False\<rparr>]"

text \<open>A new sender for a stream; a sender it replaces is dropped.\<close>

definition insert_sender ::
  "sid \<Rightarrow> ('n, 'ks, 'kp, 'ds, 'dp, 'f, 'c) mux \<Rightarrow> nat \<times> ('n, 'ks, 'kp, 'ds, 'dp, 'f, 'c) mux" where
  "insert_sender i m =
     (let k = length (data_chans m);
          cs = data_chans m @ [\<lparr>dc_queue = [], dc_open = True\<rparr>];
          cs' = (case map_of (stream_senders m) i of None \<Rightarrow> cs | Some old \<Rightarrow> chan_close old cs)
      in (k, m\<lparr>data_chans := cs', stream_senders := AList.update i k (stream_senders m)\<rparr>))"

definition drop_sender :: "sid \<Rightarrow> ('n, 'ks, 'kp, 'ds, 'dp, 'f, 'c) mux \<Rightarrow> ('n, 'ks, 'kp, 'ds, 'dp, 'f, 'c) mux" where
  "drop_sender i m =
     (case map_of (stream_senders m) i of
        None \<Rightarrow> m
      | Some k \<Rightarrow> m\<lparr>data_chans := chan_close k (data_chans m), stream_senders := AList.delete i (stream_senders m)\<rparr>)"

text \<open>A stream with its write channel and the task behind it.\<close>

definition spawn_writer ::
  "sid \<Rightarrow> nat \<Rightarrow> ('n, 'ks, 'kp, 'ds, 'dp, 'f, 'c) mux \<Rightarrow> mux_stream \<times> ('n, 'ks, 'kp, 'ds, 'dp, 'f, 'c) mux" where
  "spawn_writer i k m =
     (\<lparr>ms_sid = i, ms_write_tx = Some (length (write_chans m)), ms_data_rx = k, read_buf = []\<rparr>,
      m\<lparr>write_chans := write_chans m @ [\<lparr>wc_sid = i, wc_queue = [], wc_tx_open = True, wc_rx_open = True\<rparr>]\<rparr>)"

section \<open>Opening and accepting\<close>

definition mux_open_stream ::
  "('n, 'ks, 'kp, 'ds, 'dp, 'f, 'c) mux \<Rightarrow> (mux_stream \<times> ('n, 'ks, 'kp, 'ds, 'dp, 'f, 'c) mux) outcome" where
  "mux_open_stream m =
     obind (conn_open_stream (mx_conn m)) (\<lambda>(i, c).
       let (k, m1) = insert_sender i (m\<lparr>mx_conn := c\<rparr>) in Return (spawn_writer i k m1))"

datatype 'a ready = Ready 'a | Pending

definition accept_stream ::
  "('n, 'ks, 'kp, 'ds, 'dp, 'f, 'c) mux \<Rightarrow> mux_stream option ready \<times> ('n, 'ks, 'kp, 'ds, 'dp, 'f, 'c) mux" where
  "accept_stream m =
     (if pending_closed m then (Ready None, m)
      else if pending_permits m = 0 then (Pending, m)
      else
        let m1 = m\<lparr>pending_permits := pending_permits m - 1\<rparr> in
        case pending_streams m1 of
          [] \<Rightarrow> (Ready None, m1)
        | i # is \<Rightarrow>
            let m2 = m1\<lparr>pending_streams := is\<rparr> in
            case map_of (pending_receivers m2) i of
              None \<Rightarrow> (Ready None, m2)
            | Some k \<Rightarrow>
                let (st, m3) = spawn_writer i k (m2\<lparr>pending_receivers := AList.delete i (pending_receivers m2)\<rparr>)
                in (Ready (Some st), m3))"

section \<open>The event task\<close>

text \<open>The datagram loop ends when the queue is empty; the fuel is its length.\<close>

primrec drain_datagrams ::
  "nat \<Rightarrow> ('n, 'ks, 'kp, 'ds, 'dp, 'f, 'c) mux \<Rightarrow> ('n, 'ks, 'kp, 'ds, 'dp, 'f, 'c) mux" where
  "drain_datagrams 0 m = m"
| "drain_datagrams (Suc n) m =
     (case conn_recv_datagram (mx_conn m) of
        (None, c) \<Rightarrow> m\<lparr>mx_conn := c\<rparr>
      | (Some dg, c) \<Rightarrow> drain_datagrams n (m\<lparr>mx_conn := c, mx_datagrams := mx_datagrams m @ [dg]\<rparr>))"

definition datagrams_waiting :: "('n, 'ks, 'kp, 'ds, 'dp, 'f, 'c) connection \<Rightarrow> nat" where
  "datagrams_waiting c = (case conn_session c of None \<Rightarrow> 0 | Some s \<Rightarrow> length (recv_queue (ss_datagrams s)))"

definition mux_event ::
  "session_event \<Rightarrow> ('n, 'ks, 'kp, 'ds, 'dp, 'f, 'c) mux \<Rightarrow> ('n, 'ks, 'kp, 'ds, 'dp, 'f, 'c) mux outcome" where
  "mux_event ev m =
     (case ev of
        NewStream i \<Rightarrow>
          let (k, m1) = insert_sender i m
          in Return (m1\<lparr>pending_receivers := AList.update i k (pending_receivers m1),
                        pending_streams := pending_streams m1 @ [i], pending_permits := pending_permits m1 + 1\<rparr>)
      | DataAvailable i \<Rightarrow>
          obind (writer_read i 65536 (mx_conn m)) (\<lambda>(dat, c).
            let m1 = m\<lparr>mx_conn := c\<rparr>
            in Return (if dat = [] then m1
                 else case map_of (stream_senders m1) i of
                     None \<Rightarrow> m1
                   | Some k \<Rightarrow> m1\<lparr>data_chans := chan_push k dat (data_chans m1)\<rparr>))
      | FinishedStream i \<Rightarrow> Return (drop_sender i m)
      | Closed \<Rightarrow> Return (m\<lparr>pending_closed := True\<rparr>)
      | DatagramReceived \<Rightarrow> Return (drain_datagrams (Suc (datagrams_waiting (mx_conn m))) m)
      | TicketReceived _ \<Rightarrow> Return m
      | PathChallengeReceived _ \<Rightarrow> Return m
      | PathResponseReceived _ \<Rightarrow> Return m)"

text \<open>The task handles the events in turn and ends after \<open>Closed\<close>.\<close>

fun event_loop ::
  "session_event list \<Rightarrow> ('n, 'ks, 'kp, 'ds, 'dp, 'f, 'c) mux \<Rightarrow> ('n, 'ks, 'kp, 'ds, 'dp, 'f, 'c) mux outcome" where
  "event_loop [] m = Return m"
| "event_loop (ev # evs) m = obind (mux_event ev m) (\<lambda>m'. if ev = Closed then Return m' else event_loop evs m')"

section \<open>The write task\<close>

definition write_end ::
  "('n, 'ks, 'kp, 'ds, 'dp, 'f, 'c) deps \<Rightarrow> env \<Rightarrow> nat \<Rightarrow> ('n, 'ks, 'kp, 'ds, 'dp, 'f, 'c) mux \<Rightarrow>
     ('n, 'ks, 'kp, 'ds, 'dp, 'f, 'c) mux outcome" where
  "write_end D E w m =
     (let ch = write_chans m ! w
      in obind (send_fin D E (wc_sid ch) (mx_conn m)) (\<lambda>c.
           Return (m\<lparr>mx_conn := c, write_chans := (write_chans m)[w := ch\<lparr>wc_queue := [], wc_rx_open := False\<rparr>]\<rparr>)))"

text \<open>One turn of the task behind write channel \<open>w\<close>: it waits, writes one piece, or sends the FIN and ends.\<close>

definition write_turn ::
  "('n, 'ks, 'kp, 'ds, 'dp, 'f, 'c) deps \<Rightarrow> env \<Rightarrow> nat \<Rightarrow> ('n, 'ks, 'kp, 'ds, 'dp, 'f, 'c) mux \<Rightarrow>
     ('n, 'ks, 'kp, 'ds, 'dp, 'f, 'c) mux outcome" where
  "write_turn D E w m =
     (let ch = write_chans m ! w in
      if \<not> wc_rx_open ch then Return m
      else case wc_queue ch of
          [] \<Rightarrow> if wc_tx_open ch then Return m else write_end D E w m
        | dat # rest \<Rightarrow>
            let m1 = m\<lparr>write_chans := (write_chans m)[w := ch\<lparr>wc_queue := rest\<rparr>]\<rparr>
            in obind (writer_write D E (wc_sid ch) dat (mx_conn m1)) (\<lambda>(r, c).
                 case r of
                   Inr _ \<Rightarrow> Return (m1\<lparr>mx_conn := c\<rparr>)
                 | Inl _ \<Rightarrow> write_end D E w (m1\<lparr>mx_conn := c\<rparr>)))"

section \<open>Reading and writing a stream\<close>

text \<open>A read into a buffer with room for \<open>n\<close> bytes: the bytes put there, or nothing to read yet; no bytes mean the end.\<close>

definition poll_read ::
  "nat \<Rightarrow> mux_stream \<Rightarrow> data_chan list \<Rightarrow> bytes ready \<times> mux_stream \<times> data_chan list" where
  "poll_read n st cs =
     (if read_buf st \<noteq> [] then (Ready (take n (read_buf st)), st\<lparr>read_buf := drop n (read_buf st)\<rparr>, cs)
      else
        let ch = cs ! ms_data_rx st in
        case dc_queue ch of
          dat # rest \<Rightarrow>
            (Ready (take n dat), if length dat > n then st\<lparr>read_buf := read_buf st @ drop n dat\<rparr> else st,
             cs[ms_data_rx st := ch\<lparr>dc_queue := rest\<rparr>])
        | [] \<Rightarrow> if dc_open ch then (Pending, st, cs) else (Ready [], st, cs))"

definition poll_write :: "bytes \<Rightarrow> mux_stream \<Rightarrow> write_chan list \<Rightarrow> (string + nat) \<times> write_chan list" where
  "poll_write b st ws =
     (case ms_write_tx st of
        Some w \<Rightarrow>
          if wc_rx_open (ws ! w) then (Inr (length b), ws[w := (ws ! w)\<lparr>wc_queue := wc_queue (ws ! w) @ [b]\<rparr>])
          else (Inl ''stream closed'', ws)
      | None \<Rightarrow> (Inl ''stream shut down'', ws))"

definition poll_shutdown :: "mux_stream \<Rightarrow> write_chan list \<Rightarrow> mux_stream \<times> write_chan list" where
  "poll_shutdown st ws =
     (st\<lparr>ms_write_tx := None\<rparr>,
      case ms_write_tx st of None \<Rightarrow> ws | Some w \<Rightarrow> ws[w := (ws ! w)\<lparr>wc_tx_open := False\<rparr>])"

end
