(* ===== verification/Mux_Facts.thy ===== *)
theory Mux_Facts
  imports Seam_Mux Connection_Facts
begin

text \<open>
  What the multiplexer guarantees: the bytes of a stream reach its reader once and in order, whatever the other streams
  do. And what it does not: a write that meets a full flow-control window drops the rest of the stream although it
  was accepted, and a FIN that overtakes data drops that data.
\<close>

section \<open>Reading\<close>

text \<open>What a stream's reader has yet to see.\<close>

definition unread :: "mux_stream \<Rightarrow> data_chan list \<Rightarrow> bytes" where
  "unread st cs = read_buf st @ concat (dc_queue (cs ! ms_data_rx st))"

definition got :: "bytes ready \<Rightarrow> bytes" where
  "got r = (case r of Ready b \<Rightarrow> b | Pending \<Rightarrow> [])"

text \<open>A read neither loses nor repeats nor invents a byte, and touches no other channel.\<close>

lemma poll_read_conserves:
  assumes "poll_read n st cs = (r, st', cs')" and "ms_data_rx st < length cs"
  shows "got r @ unread st' cs' = unread st cs" and "ms_data_rx st' = ms_data_rx st" and "ms_sid st' = ms_sid st"
    and "length cs' = length cs" and "k \<noteq> ms_data_rx st \<Longrightarrow> cs' ! k = cs ! k"
  using assms by (auto simp: poll_read_def unread_def got_def Let_def split: if_splits list.splits)

text \<open>Every sender has a channel of its own.\<close>

definition senders_ok :: "('n, 'ks, 'kp, 'ds, 'dp, 'f, 'c) mux \<Rightarrow> bool" where
  "senders_ok m \<longleftrightarrow> distinct (map snd (stream_senders m)) \<and> distinct (map fst (stream_senders m)) \<and>
     (\<forall>k \<in> snd ` set (stream_senders m). k < length (data_chans m))"

definition attached :: "mux_stream \<Rightarrow> ('n, 'ks, 'kp, 'ds, 'dp, 'f, 'c) mux \<Rightarrow> bool" where
  "attached st m \<longleftrightarrow> map_of (stream_senders m) (ms_sid st) = Some (ms_data_rx st)"

lemma attached_valid: "senders_ok m \<Longrightarrow> attached st m \<Longrightarrow> ms_data_rx st < length (data_chans m)"
  by (force simp: senders_ok_def attached_def dest: map_of_SomeD)

lemma attached_other:
  assumes "senders_ok m" and "attached st m" and "map_of (stream_senders m) i = Some k" and "i \<noteq> ms_sid st"
  shows "k \<noteq> ms_data_rx st"
proof
  assume "k = ms_data_rx st"
  with assms(2,3) have "(i, k) \<in> set (stream_senders m)" "(ms_sid st, k) \<in> set (stream_senders m)"
    by (auto simp: attached_def dest: map_of_SomeD)
  with assms(1,4) show False
    unfolding senders_ok_def by (metis (no_types) Pair_inject distinct_map inj_on_eq_iff snd_conv)
qed

text \<open>The bytes an event takes from the session for a stream.\<close>

definition taken :: "session_event \<Rightarrow> sid \<Rightarrow> ('n, 'ks, 'kp, 'ds, 'dp, 'f, 'c) mux \<Rightarrow> bytes" where
  "taken ev i m =
     (if ev = DataAvailable i then (case writer_read i 65536 (mx_conn m) of Return (dat, _) \<Rightarrow> dat | Panic \<Rightarrow> []) else [])"

lemma senders_update:
  assumes "senders_ok m" and "k = length (data_chans m)"
  shows "distinct (map snd (AList.update i k (stream_senders m)))"
proof -
  have "k \<notin> snd ` set (stream_senders m)" using assms by (auto simp: senders_ok_def)
  moreover have "distinct (map snd xs) \<Longrightarrow> k \<notin> snd ` set xs \<Longrightarrow> distinct (map snd (AList.update i k xs))" for xs
    by (induction xs) (auto dest!: set_alist_update [THEN subsetD])
  ultimately show ?thesis using assms(1) by (simp add: senders_ok_def)
qed

lemma insert_sender_ok:
  assumes "senders_ok m" and "attached st m" and "i \<noteq> ms_sid st" and "insert_sender i m = (k, m')"
  shows "senders_ok m'" and "attached st m'" and "unread st (data_chans m') = unread st (data_chans m)"
proof -
  have k: "k = length (data_chans m)" using assms(4) by (auto simp: insert_sender_def Let_def)
  have len: "length (data_chans m') = Suc (length (data_chans m))" and snd': "stream_senders m' = AList.update i k (stream_senders m)"
    using assms(4) by (auto simp: insert_sender_def Let_def chan_close_def split: option.splits)
  show "senders_ok m'"
    using assms(1) senders_update [OF assms(1) k] unfolding senders_ok_def len snd'
    by (auto simp: distinct_update k less_Suc_eq dest!: set_alist_update [THEN subsetD])
  show "attached st m'" using assms(2,3) by (simp add: attached_def snd' update_conv)
  have "ms_data_rx st < length (data_chans m)" by (rule attached_valid [OF assms(1,2)])
  then show "unread st (data_chans m') = unread st (data_chans m)"
    using assms(4) attached_other [OF assms(1,2) _ assms(3)]
    by (auto simp: insert_sender_def Let_def chan_close_def unread_def nth_append split: option.splits)
qed

lemma drain_datagrams_fields:
  "data_chans (drain_datagrams n m) = data_chans m" "stream_senders (drain_datagrams n m) = stream_senders m"
  by (induction n arbitrary: m) (auto split: prod.split option.split)

lemma mux_event_ok:
  assumes "senders_ok m" and "attached st m" and "mux_event ev m = Return m'"
    and "ev \<noteq> NewStream (ms_sid st)" and "ev \<noteq> FinishedStream (ms_sid st)"
  shows "senders_ok m'" and "attached st m'"
    and "unread st (data_chans m') = unread st (data_chans m) @ taken ev (ms_sid st) m"
proof -
  have "senders_ok m' \<and> attached st m' \<and> unread st (data_chans m') = unread st (data_chans m) @ taken ev (ms_sid st) m"
  proof (cases ev)
    case (NewStream i)
    obtain k m1 where ins: "insert_sender i m = (k, m1)" by force
    have "i \<noteq> ms_sid st" using assms(4) NewStream by simp
    note one = insert_sender_ok [OF assms(1,2) this ins]
    have "m' = m1\<lparr>pending_receivers := AList.update i k (pending_receivers m1),
        pending_streams := pending_streams m1 @ [i], pending_permits := pending_permits m1 + 1\<rparr>"
      using assms(3) ins NewStream by (simp add: mux_event_def)
    with one NewStream show ?thesis by (simp add: senders_ok_def attached_def taken_def)
  next
    case (DataAvailable i)
    obtain dat c where r: "writer_read i 65536 (mx_conn m) = Return (dat, c)"
      using assms(3) DataAvailable by (auto simp: mux_event_def obind_Return)
    have valid: "ms_data_rx st < length (data_chans m)" by (rule attached_valid [OF assms(1,2)])
    have m': "m' = (let m1 = m\<lparr>mx_conn := c\<rparr> in if dat = [] then m1 else case map_of (stream_senders m1) i of
        None \<Rightarrow> m1 | Some k \<Rightarrow> m1\<lparr>data_chans := chan_push k dat (data_chans m1)\<rparr>)"
      using assms(3) DataAvailable r by (simp add: mux_event_def Let_def)
    then have "senders_ok m'" using assms(1) by (auto simp: senders_ok_def Let_def chan_push_def split: option.split)
    moreover have "attached st m'" using assms(2) m' by (auto simp: attached_def Let_def split: option.split)
    moreover have "unread st (data_chans m') = unread st (data_chans m) @ taken ev (ms_sid st) m"
    proof (cases "i = ms_sid st")
      case True
      then have "map_of (stream_senders m) i = Some (ms_data_rx st)" using assms(2) by (simp add: attached_def)
      with True m' DataAvailable r valid show ?thesis by (simp add: taken_def unread_def chan_push_def Let_def)
    next
      case False
      with m' DataAvailable attached_other [OF assms(1,2) _ False] show ?thesis
        by (auto simp: taken_def unread_def chan_push_def Let_def split: option.split)
    qed
    ultimately show ?thesis by blast
  next
    case (FinishedStream i)
    then have i: "i \<noteq> ms_sid st" and m': "m' = drop_sender i m" using assms(3,5) by (simp_all add: mux_event_def)
    then have "senders_ok m'"
      using assms(1) by (auto simp: drop_sender_def senders_ok_def chan_close_def AList.delete_eq distinct_map_filter split: option.split)
    moreover have "attached st m'"
      using assms(2) i m' by (auto simp: attached_def drop_sender_def delete_conv' split: option.split)
    moreover have "unread st (data_chans m') = unread st (data_chans m)"
      using i m' attached_other [OF assms(1,2)] by (auto simp: drop_sender_def unread_def chan_close_def split: option.split)
    ultimately show ?thesis using FinishedStream by (simp add: taken_def)
  next
    case DatagramReceived
    then have "m' = drain_datagrams (Suc (datagrams_waiting (mx_conn m))) m" using assms(3) by (simp add: mux_event_def del: drain_datagrams.simps)
    with assms(1,2) DatagramReceived show ?thesis
      by (simp only: senders_ok_def attached_def drain_datagrams_fields) (simp add: taken_def)
  next
    case Closed
    then have "m' = m\<lparr>pending_closed := True\<rparr>" using assms(3) by (simp add: mux_event_def)
    with assms(1,2) Closed show ?thesis by (simp add: senders_ok_def attached_def taken_def)
  qed (use assms in \<open>simp_all add: mux_event_def taken_def\<close>)
  then show "senders_ok m'" and "attached st m'"
    and "unread st (data_chans m') = unread st (data_chans m) @ taken ev (ms_sid st) m" by blast+
qed

section \<open>Runs\<close>

text \<open>The event task and the reader of one stream take turns: the bytes the reader got, and the bytes the session gave for
  its stream.\<close>

datatype mux_op = Handle session_event | Read nat

fun mux_run ::
  "mux_op list \<Rightarrow> mux_stream \<Rightarrow> ('n, 'ks, 'kp, 'ds, 'dp, 'f, 'c) mux \<Rightarrow>
     (bytes \<times> bytes \<times> mux_stream \<times> ('n, 'ks, 'kp, 'ds, 'dp, 'f, 'c) mux) outcome" where
  "mux_run [] st m = Return ([], [], st, m)"
| "mux_run (Handle ev # ops) st m =
     obind (mux_event ev m) (\<lambda>m'. obind (mux_run ops st m') (\<lambda>(out, inp, st', m'').
       Return (out, taken ev (ms_sid st) m @ inp, st', m'')))"
| "mux_run (Read n # ops) st m =
     (let (r, st1, cs) = poll_read n st (data_chans m)
      in obind (mux_run ops st1 (m\<lparr>data_chans := cs\<rparr>)) (\<lambda>(out, inp, st', m'). Return (got r @ out, inp, st', m')))"

text \<open>C4: A multiplexed stream delivers its bytes once and in order. In a multiplexer that sends to each stream
  through a channel of its own that exists (\<open>senders_ok\<close>), for a stream whose handle reads that channel (\<open>attached\<close>):
  however the events of all streams, the datagrams and
  the reads of the stream interleave, and whatever the sizes of the reads, as long as the stream is not reported new or finished again, the
  bytes its reader got, followed by those still buffered for it, are those that were buffered before followed by those the session
  has given out for it.\<close>

theorem mux_delivers_in_order:
  assumes "mux_run ops st m = Return (out, inp, st', m')" and "senders_ok m" and "attached st m"
    and "\<forall>ev. Handle ev \<in> set ops \<longrightarrow> ev \<noteq> NewStream (ms_sid st) \<and> ev \<noteq> FinishedStream (ms_sid st)"
  shows "out @ unread st' (data_chans m') = unread st (data_chans m) @ inp"
  using assms
proof (induction ops st m arbitrary: out inp st' m' rule: mux_run.induct)
  case (2 ev ops st m)
  from "2.prems"(1) obtain m1 inp1 where m1: "mux_event ev m = Return m1" "mux_run ops st m1 = Return (out, inp1, st', m')"
    "inp = taken ev (ms_sid st) m @ inp1" by (auto simp: obind_Return)
  have "ev \<noteq> NewStream (ms_sid st)" "ev \<noteq> FinishedStream (ms_sid st)" using "2.prems"(4) by auto
  note one = mux_event_ok [OF "2.prems"(2,3) m1(1) this]
  have "out @ unread st' (data_chans m') = unread st (data_chans m1) @ inp1"
    by (rule "2.IH" [OF m1(2) one(1,2)]) (use "2.prems"(4) in simp)
  with one(3) m1(3) show ?case by simp
next
  case (3 n ops st m)
  obtain r st1 cs where p: "poll_read n st (data_chans m) = (r, st1, cs)" by (metis surj_pair)
  note read = poll_read_conserves [OF p attached_valid [OF "3.prems"(2,3)]]
  from "3.prems"(1) p obtain out1 where out1: "mux_run ops st1 (m\<lparr>data_chans := cs\<rparr>) = Return (out1, inp, st', m')" "out = got r @ out1"
    by (auto simp: obind_Return)
  have "senders_ok (m\<lparr>data_chans := cs\<rparr>)" "attached st1 (m\<lparr>data_chans := cs\<rparr>)"
    using "3.prems"(2,3) read(2-4) by (simp_all add: senders_ok_def attached_def)
  with "3.IH" [OF _ _ refl out1(1)] p "3.prems"(4) read(3)
  have "out1 @ unread st' (data_chans m') = unread st1 cs @ inp" by simp
  with read(1) out1(2) show ?case by simp
qed simp

theorem mux_delivers_in_order_witness:
  "\<forall>c :: (unit, bytes, unit, unit, unit, rat, aimd) connection. \<exists>out inp st' m'.
     mux_run [Read 2, Handle (NewStream 9), Handle Closed, Read 5] \<lparr>ms_sid = 1, ms_write_tx = None, ms_data_rx = 0, read_buf = []\<rparr>
       ((mux_new c)\<lparr>data_chans := [\<lparr>dc_queue = [[1, 2, 3], [4]], dc_open = True\<rparr>], stream_senders := [(1, 0)]\<rparr>) = Return (out, inp, st', m') \<and>
     out @ unread st' (data_chans m') = [1, 2, 3, 4] @ inp \<and> out = [1, 2, 3]"
proof
  fix c :: "(unit, bytes, unit, unit, unit, rat, aimd) connection"
  let ?st = "\<lparr>ms_sid = 1, ms_write_tx = None, ms_data_rx = 0, read_buf = []\<rparr>"
  let ?m = "(mux_new c)\<lparr>data_chans := [\<lparr>dc_queue = [[1, 2, 3], [4]], dc_open = True\<rparr>], stream_senders := [(1, 0)]\<rparr>"
  let ?ops = "[Read 2, Handle (NewStream 9), Handle Closed, Read 5]"
  obtain out inp st' m' where run: "mux_run ?ops ?st ?m = Return (out, inp, st', m')" and "out = [1, 2, 3]"
    by (simp add: poll_read_def mux_event_def insert_sender_def mux_new_def got_def)
  moreover have "out @ unread st' (data_chans m') = unread ?st (data_chans ?m) @ inp"
    by (rule mux_delivers_in_order [OF run]) (auto simp: senders_ok_def attached_def)
  ultimately show "\<exists>out inp st' m'. mux_run ?ops ?st ?m = Return (out, inp, st', m') \<and>
      out @ unread st' (data_chans m') = [1, 2, 3, 4] @ inp \<and> out = [1, 2, 3]"
    by (intro exI [of _ out] exI [of _ inp] exI [of _ st'] exI [of _ m']) (simp add: unread_def)
qed

section \<open>Writing\<close>

text \<open>A write that does not fit the flow-control window ends the stream: \<^verbatim>\<open>poll_write\<close> has reported the bytes as written, but
  they and everything queued behind them are dropped, and the peer is told that the stream is complete.\<close>

theorem blocked_write_truncates:
  assumes ch: "w < length (write_chans m)" "write_chans m ! w = \<lparr>wc_sid = i, wc_queue = dat # rest, wc_tx_open = b, wc_rx_open = True\<rparr>"
    and s: "conn_session (mx_conn m) = Some s" "session_send s i dat = (Inl (FlowControlBlocked x y), s')"
    and fin: "send_fin D E i ((mx_conn m)\<lparr>conn_session := Some s'\<rparr>) = Return c"
  shows "write_turn D E w m = Return (m\<lparr>mx_conn := c,
    write_chans := (write_chans m)[w := \<lparr>wc_sid = i, wc_queue = [], wc_tx_open = b, wc_rx_open = False\<rparr>]\<rparr>)"
  using assms by (simp add: write_turn_def writer_write_def write_end_def)

text \<open>One write larger than the initial window of 16 MiB suffices.\<close>

lemma large_write_blocks:
  assumes "DEFAULT_WINDOW < of_nat (length dat)"
  shows "\<exists>x y. session_send (session_with_role n r e d) i dat = (Inl (FlowControlBlocked x y), session_with_role n r e d)"
  using assms by (simp add: session_send_def session_with_role_def session_with_limits_def flow_new_def flow_reserve_def)

section \<open>A FIN that overtakes data\<close>

text \<open>The session reports a stream finished when the frame with the FIN arrives, also when data before it is missing.\<close>

theorem early_fin_finishes:
  assumes "length frame \<ge> 16" and "length frame \<ge> 16 + unat (of_le (slice frame 2 4) :: u16)" and "frame ! 1 AND 1 \<noteq> 0"
    and "handle_data_frame s frame = (Inr evs, s')"
  shows "FinishedStream (of_le (slice frame 4 8)) \<in> set evs"
  using assms by (auto simp: handle_data_frame_def Let_def split: if_splits sum.splits prod.splits)

text \<open>The multiplexer then drops the sender: the data that fills the gap is taken from the session and thrown away.\<close>

theorem finished_stream_drops_data:
  assumes "senders_ok m" and "map_of (stream_senders m) i = Some k"
    and "writer_read i 65536 (mx_conn m) = Return (dat, c)"
  shows "\<exists>m'. event_loop [FinishedStream i, DataAvailable i] m = Return m' \<and> mx_conn m' = c \<and>
    dc_queue (data_chans m' ! k) = dc_queue (data_chans m ! k) \<and> \<not> dc_open (data_chans m' ! k)"
proof -
  have "k < length (data_chans m)" using assms(1,2) by (force simp: senders_ok_def dest: map_of_SomeD)
  moreover have "map_of (AList.delete i (stream_senders m)) i = None" by (simp add: delete_conv')
  ultimately show ?thesis
    using assms(2,3) by (simp add: mux_event_def drop_sender_def chan_close_def Let_def)
qed

end
