(* ===== verification/Nat_Traversal.thy ===== *)
theory Nat_Traversal
  imports Net_Addr
begin

text \<open>
  The STUN client and the hole puncher of \<^verbatim>\<open>transport/nat.rs\<close>: the binding request, the parser of the response, the retries, and the wait for a probe.
  What the sockets return is an argument. The parser is compared with a message built as RFC 5389 lays it
  out.
\<close>

definition STUN_MAGIC :: u32 where "STUN_MAGIC = 0x2112A442"
definition STUN_BINDING_REQUEST :: u16 where "STUN_BINDING_REQUEST = 0x0001"
definition STUN_BINDING_RESPONSE :: u16 where "STUN_BINDING_RESPONSE = 0x0101"
definition STUN_ATTR_MAPPED_ADDRESS :: u16 where "STUN_ATTR_MAPPED_ADDRESS = 0x0001"
definition STUN_ATTR_XOR_MAPPED_ADDRESS :: u16 where "STUN_ATTR_XOR_MAPPED_ADDRESS = 0x0020"
definition STUN_HEADER_LEN :: nat where "STUN_HEADER_LEN = 20"
definition STUN_RETRIES :: nat where "STUN_RETRIES = 3"

lemmas stun_constants = STUN_MAGIC_def STUN_BINDING_REQUEST_def STUN_BINDING_RESPONSE_def STUN_ATTR_MAPPED_ADDRESS_def
  STUN_ATTR_XOR_MAPPED_ADDRESS_def STUN_HEADER_LEN_def STUN_RETRIES_def

section \<open>Messages\<close>

definition build_binding_request :: "bytes \<Rightarrow> bytes" where
  "build_binding_request txn_id = u16_to_be STUN_BINDING_REQUEST @ u16_to_be 0 @ u32_to_be STUN_MAGIC @ txn_id"

definition parse_mapped_address :: "bytes \<Rightarrow> bool \<Rightarrow> u32 \<Rightarrow> socket_addr option" where
  "parse_mapped_address dat xored magic =
     (if length dat < 4 then None
      else
        let family = dat ! 1;
            raw_port = of_be (slice dat 2 4) :: u16;
            port = (if xored then raw_port XOR ucast (drop_bit 16 magic) else raw_port)
        in if family = 1
           then if length dat < 8 then None
                else let raw_ip = of_be (slice dat 4 8) :: u32
                     in Some (socket_addr_new (V4 (if xored then raw_ip XOR magic else raw_ip)) port)
           else if family = 2
           then if length dat < 20 then None
                else let raw = slice dat 4 20;
                         raw' = (if xored then map2 (XOR) (take 4 raw) (u32_to_be magic) @ drop 4 raw else raw)
                     in Some (socket_addr_new (V6 (of_be raw')) port)
           else None)"

text \<open>The attribute loop, up to the position \<open>lim\<close>: the last MAPPED-ADDRESS and the last XOR-MAPPED-ADDRESS.\<close>

function parse_attrs ::
  "bytes \<Rightarrow> nat \<Rightarrow> nat \<Rightarrow> socket_addr option \<times> socket_addr option \<Rightarrow> socket_addr option \<times> socket_addr option" where
  "parse_attrs dat lim pos found =
     (if pos + 4 \<le> lim
      then
        let attr_type = of_be (slice dat pos (pos + 2)) :: u16;
            len = unat (of_be (slice dat (pos + 2) (pos + 4)) :: u16);
            value_start = pos + 4; value_end = value_start + len
        in if value_end > length dat then found
           else parse_attrs dat lim (value_start + (len + 3) div 4 * 4)
             (if attr_type = STUN_ATTR_MAPPED_ADDRESS
              then (parse_mapped_address (slice dat value_start value_end) False STUN_MAGIC, snd found)
              else if attr_type = STUN_ATTR_XOR_MAPPED_ADDRESS
              then (fst found, parse_mapped_address (slice dat value_start value_end) True STUN_MAGIC)
              else found)
      else found)"
  by pat_completeness auto

termination by (relation "measure (\<lambda>(_, lim, pos, _). lim + 4 - pos)") auto

declare parse_attrs.simps [simp del]

definition parse_binding_response :: "bytes \<Rightarrow> bytes \<Rightarrow> socket_addr option" where
  "parse_binding_response dat expected_txn =
     (if length dat < STUN_HEADER_LEN then None
      else if (of_be (slice dat 0 2) :: u16) \<noteq> STUN_BINDING_RESPONSE then None
      else
        let attr_len = unat (of_be (slice dat 2 4) :: u16)
        in if (of_be (slice dat 4 8) :: u32) \<noteq> STUN_MAGIC then None
           else if slice dat 8 20 \<noteq> expected_txn then None
           else if length dat < STUN_HEADER_LEN + attr_len then None
           else case parse_attrs dat (STUN_HEADER_LEN + attr_len) STUN_HEADER_LEN (None, None) of
               (mapped, xor_mapped) \<Rightarrow> (case xor_mapped of Some a \<Rightarrow> Some a | None \<Rightarrow> mapped))"

section \<open>Discovery\<close>

text \<open>What one attempt meets: an error of the send, or what the socket returns in time, if anything.\<close>

datatype stun_attempt = SendFailed string | Received bytes socket_addr | NoAnswer

fun discover_loop :: "socket_addr \<Rightarrow> bytes \<Rightarrow> stun_attempt list \<Rightarrow> string + socket_addr option" where
  "discover_loop server txn_id [] = Inr None"
| "discover_loop server txn_id (a # as) =
     (case a of
        SendFailed e \<Rightarrow> Inl (''STUN: send failed: '' @ e)
      | NoAnswer \<Rightarrow> discover_loop server txn_id as
      | Received b from \<Rightarrow>
          if from = server
          then (case parse_binding_response (take 2048 b) txn_id of
                  Some ext \<Rightarrow> Inr (Some ext)
                | None \<Rightarrow> discover_loop server txn_id as)
          else discover_loop server txn_id as)"

definition discover_on_resolved :: "string \<Rightarrow> socket_addr \<Rightarrow> bytes \<Rightarrow> (nat \<Rightarrow> stun_attempt) \<Rightarrow> string + socket_addr" where
  "discover_on_resolved server_name server txn_id attempts =
     (case discover_loop server txn_id (map attempts [0..<STUN_RETRIES]) of
        Inl e \<Rightarrow> Inl e
      | Inr (Some ext) \<Rightarrow> Inr ext
      | Inr None \<Rightarrow> Inl (''STUN: no response from '' @ server_name @ '' after '' @ show_nat STUN_RETRIES @ '' attempts''))"

section \<open>Hole punching\<close>

record hole_puncher =
  hp_sock :: socket_addr
  our_external :: socket_addr

definition from_socket :: "socket_addr \<Rightarrow> socket_addr \<Rightarrow> hole_puncher" where
  "from_socket sock ext = \<lparr>hp_sock = sock, our_external = ext\<rparr>"

definition PUNCH_PROBE :: bytes where "PUNCH_PROBE = as_bytes ''SEAM-PUNCH-PROBE-v1''"

text \<open>The datagrams and errors that arrive within five seconds, in turn.\<close>

fun await_probe :: "(string + bytes \<times> socket_addr) list \<Rightarrow> string + socket_addr" where
  "await_probe [] = Inl (''hole punch timeout '' @ [CHR 0xE2, CHR 0x80, CHR 0x94] @ '' no probe received from peer'')"
| "await_probe (Inl e # rest) = Inl (''hole punch failed: punch recv: '' @ e)"
| "await_probe (Inr (b, from) # rest) = (if take 256 b = PUNCH_PROBE then Inr from else await_probe rest)"

definition punch ::
  "hole_puncher \<Rightarrow> socket_addr \<Rightarrow> (string + bytes \<times> socket_addr) list \<Rightarrow> string + (socket_addr \<times> socket_addr \<times> socket_addr)" where
  "punch h peer incoming =
     (case await_probe incoming of Inl e \<Rightarrow> Inl e | Inr verified \<Rightarrow> Inr (hp_sock h, our_external h, verified))"

section \<open>The parser against the format\<close>

text \<open>RFC 5389: a type, a length, the value, padded to a multiple of four; a header with the total length.\<close>

definition stun_attr :: "u16 \<times> bytes \<Rightarrow> bytes" where
  "stun_attr a = u16_to_be (fst a) @ u16_to_be (of_nat (length (snd a))) @ snd a @
     replicate ((length (snd a) + 3) div 4 * 4 - length (snd a)) 0"

definition stun_response :: "bytes \<Rightarrow> (u16 \<times> bytes) list \<Rightarrow> bytes" where
  "stun_response txn as =
     (let body = concat (map stun_attr as)
      in u16_to_be STUN_BINDING_RESPONSE @ u16_to_be (of_nat (length body)) @ u32_to_be STUN_MAGIC @ txn @ body)"

text \<open>What the attributes say, one after the other.\<close>

definition attr_says :: "u16 \<times> bytes \<Rightarrow> socket_addr option \<times> socket_addr option \<Rightarrow> socket_addr option \<times> socket_addr option" where
  "attr_says a found =
     (if fst a = STUN_ATTR_MAPPED_ADDRESS then (parse_mapped_address (snd a) False STUN_MAGIC, snd found)
      else if fst a = STUN_ATTR_XOR_MAPPED_ADDRESS then (fst found, parse_mapped_address (snd a) True STUN_MAGIC)
      else found)"

lemma length_stun_attr: "length (stun_attr a) = 4 + (length (snd a) + 3) div 4 * 4"
  by (simp add: stun_attr_def)

lemma parse_attrs_exact:
  assumes "\<forall>a \<in> set as. length (snd a) < 2 ^ 16"
  shows "parse_attrs (pre @ concat (map stun_attr as)) (length (pre @ concat (map stun_attr as))) (length pre) found = fold attr_says as found"
  using assms
proof (induction as arbitrary: pre found)
  case Nil
  then show ?case by (simp add: parse_attrs.simps)
next
  case (Cons a as)
  let ?rest = "concat (map stun_attr as)"
  define d p n where "d = pre @ stun_attr a @ ?rest" and "p = length pre" and "n = length (snd a)"
  have n: "n < 2 ^ 16" using Cons.prems by (simp add: n_def)
  have ty: "slice d p (p + 2) = u16_to_be (fst a)" and le: "slice d (p + 2) (p + 4) = u16_to_be (of_nat n)"
    and va: "slice d (p + 4) (p + 4 + n) = snd a"
    by (simp_all add: slice_def stun_attr_def d_def p_def n_def)
  have len: "unat (of_be (u16_to_be (of_nat n)) :: u16) = n" using n by (simp add: unat_of_nat_id)
  have kind: "(of_be (u16_to_be (fst a)) :: u16) = fst a" by simp
  have room: "p + 4 \<le> length d" "\<not> p + 4 + n > length d"
    by (simp_all add: d_def p_def n_def length_stun_attr)
  have "parse_attrs d (length d) p found = parse_attrs d (length d) (p + 4 + (n + 3) div 4 * 4) (attr_says a found)"
    by (subst parse_attrs.simps) (simp only: Let_def ty le va len kind room if_True if_False attr_says_def)
  then have step: "parse_attrs d (length d) p found = parse_attrs d (length d) (length (pre @ stun_attr a)) (attr_says a found)"
    by (simp add: length_stun_attr p_def n_def add.assoc)
  have "parse_attrs ((pre @ stun_attr a) @ ?rest) (length ((pre @ stun_attr a) @ ?rest)) (length (pre @ stun_attr a)) (attr_says a found) =
      fold attr_says as (attr_says a found)"
    by (rule Cons.IH) (use Cons.prems in simp)
  with step show ?case by (simp add: d_def p_def)
qed

text \<open>The parser reads a response exactly as it was laid out.\<close>

lemma parse_binding_response_exact:
  assumes "length txn = 12" and "length (concat (map stun_attr as)) < 2 ^ 16"
  shows "parse_binding_response (stun_response txn as) txn =
    (case fold attr_says as (None, None) of (mapped, xor_mapped) \<Rightarrow> (case xor_mapped of Some a \<Rightarrow> Some a | None \<Rightarrow> mapped))"
proof -
  let ?body = "concat (map stun_attr as)"
  define pre where "pre = u16_to_be STUN_BINDING_RESPONSE @ u16_to_be (of_nat (length ?body)) @ u32_to_be STUN_MAGIC @ txn"
  have resp: "stun_response txn as = pre @ ?body" by (simp add: stun_response_def pre_def Let_def)
  have pre: "length pre = 20" using assms(1) by (simp add: pre_def)
  have fields: "slice (pre @ ?body) 0 2 = u16_to_be STUN_BINDING_RESPONSE" "slice (pre @ ?body) 2 4 = u16_to_be (of_nat (length ?body))"
    "slice (pre @ ?body) 4 8 = u32_to_be STUN_MAGIC" "slice (pre @ ?body) 8 20 = txn"
    using assms(1) by (simp_all add: slice_def pre_def)
  have "length (snd a) \<le> length ?body" if "a \<in> set as" for a
  proof -
    have "length (snd a) \<le> length (stun_attr a)" by (simp add: length_stun_attr)
    also have "\<dots> \<le> length ?body" using that by (induction as) auto
    finally show ?thesis .
  qed
  then have small: "\<forall>a \<in> set as. length (snd a) < 2 ^ 16" using assms(2) by (meson le_less_trans)
  have "unat (of_nat (length ?body) :: u16) = length ?body" using assms(2) by (simp add: unat_of_nat_id)
  with parse_attrs_exact [OF small, of pre "(None, None)"] pre show ?thesis
    unfolding resp parse_binding_response_def STUN_HEADER_LEN_def fields by (simp add: codec_simps)
qed

text \<open>The value of an address attribute; the XOR form hides the address as RFC 5389 says, with the transaction identifier for
  the last twelve bytes of an IPv6 address.\<close>

definition xor_address :: "bytes \<Rightarrow> socket_addr \<Rightarrow> bytes" where
  "xor_address txn a =
     [0, case sa_ip a of V4 _ \<Rightarrow> 1 | V6 _ \<Rightarrow> 2] @ u16_to_be (sa_port a XOR 0x2112) @
     (case sa_ip a of
        V4 ip \<Rightarrow> u32_to_be (ip XOR STUN_MAGIC)
      | V6 ip \<Rightarrow> map2 (XOR) (rev (le_bytes 16 ip)) (u32_to_be STUN_MAGIC @ txn))"

lemma magic_port: "ucast (drop_bit 16 STUN_MAGIC) = (0x2112 :: u16)"
  by (simp add: STUN_MAGIC_def drop_bit_eq_div unsigned_word_eqI)

lemma parse_xor_v4: "parse_mapped_address (xor_address txn (socket_addr_new (V4 ip) port)) True STUN_MAGIC = Some (socket_addr_new (V4 ip) port)"
proof -
  let ?d = "[0, 1] @ u16_to_be (port XOR 0x2112) @ u32_to_be (ip XOR STUN_MAGIC)"
  have "slice ?d 2 4 = u16_to_be (port XOR 0x2112)" "slice ?d 4 8 = u32_to_be (ip XOR STUN_MAGIC)"
    by (simp_all add: slice_def)
  then show ?thesis
    by (simp add: parse_mapped_address_def xor_address_def socket_addr_new_def magic_port codec_simps xor.assoc)
qed

text \<open>The STUN client learns the address the server saw. A binding response laid out as RFC 5389 says, with the
  client's transaction identifier and one XOR-MAPPED-ADDRESS of an IPv4 endpoint among any other attributes of any
  other types and lengths, is parsed to that endpoint; with another transaction identifier it is refused.\<close>

theorem stun_learns_ipv4_address:
  assumes "length txn = 12" and "length (stun_response txn (before @ [(STUN_ATTR_XOR_MAPPED_ADDRESS, xor_address txn a)] @ after)) < 2 ^ 16"
    and "a = socket_addr_new (V4 ip) port" and "\<forall>(t, v) \<in> set after. t \<noteq> STUN_ATTR_XOR_MAPPED_ADDRESS"
  defines "resp \<equiv> stun_response txn (before @ [(STUN_ATTR_XOR_MAPPED_ADDRESS, xor_address txn a)] @ after)"
  shows "parse_binding_response resp txn = Some a \<and> (\<forall>txn'. txn' \<noteq> txn \<longrightarrow> parse_binding_response resp txn' = None)"
proof
  let ?as = "before @ [(STUN_ATTR_XOR_MAPPED_ADDRESS, xor_address txn a)] @ after"
  have "length (concat (map stun_attr ?as)) < 2 ^ 16" using assms(2) by (simp add: stun_response_def Let_def)
  note exact = parse_binding_response_exact [OF assms(1) this]
  have last_xor: "snd (fold attr_says after found) = snd found" for found
    using assms(4) by (induction after arbitrary: found) (auto simp: attr_says_def)
  have "snd (fold attr_says ?as (None, None)) = Some a"
    using last_xor assms(3) by (simp add: attr_says_def parse_xor_v4 stun_constants(4,5))
  then show "parse_binding_response resp txn = Some a"
    unfolding resp_def exact by (auto split: prod.split)
  have "slice resp 8 20 = txn" using assms(1) by (simp add: slice_def resp_def stun_response_def Let_def)
  then show "\<forall>txn'. txn' \<noteq> txn \<longrightarrow> parse_binding_response resp txn' = None" by (simp add: parse_binding_response_def Let_def)
qed

theorem stun_learns_ipv4_address_witness:
  "parse_binding_response (stun_response (replicate 12 7) ([(0x8022, [1, 2, 3])] @
     [(STUN_ATTR_XOR_MAPPED_ADDRESS, xor_address (replicate 12 7) (socket_addr_new (V4 0x01020304) 5678))] @ [])) (replicate 12 7) =
   Some (socket_addr_new (V4 0x01020304) 5678)"
  using stun_learns_ipv4_address [where txn = "replicate 12 7" and before = "[(0x8022, [1, 2, 3])]" and after = "[]"
      and a = "socket_addr_new (V4 0x01020304) 5678" and ip = "0x01020304" and port = 5678]
  by (simp add: stun_response_def stun_attr_def xor_address_def socket_addr_new_def Let_def)

text \<open>An IPv6 address is read correctly only if the transaction identifier, which the parser leaves out, is zero.\<close>

lemma of_be_inj: "length b = 16 \<Longrightarrow> of_be b = (w :: 128 word) \<longleftrightarrow> b = rev (le_bytes 16 w)"
  using le_bytes_of_le [of "rev b" 16, where 'a = 128] of_le_le_bytes [of 16 w] by (auto simp: of_be_def)

lemma map2_xor_same: "length x = length y \<Longrightarrow> map2 (XOR) (map2 (XOR) x y) y = (x :: bytes)"
  by (induction x y rule: list_induct2) (simp_all add: xor.assoc)

lemma map2_xor_zero: "length x = length y \<Longrightarrow> map2 (XOR) x y = (x :: bytes) \<longleftrightarrow> y = replicate (length y) 0"
proof (induction x y rule: list_induct2)
  case (Cons a x b y)
  have "a XOR (a XOR b) = b" by (simp add: xor.assoc [symmetric])
  then have "b = 0" if "a XOR b = a" using that by simp
  then have "a XOR b = a \<longleftrightarrow> b = 0" by auto
  with Cons show ?case by simp
qed simp

theorem stun_ipv6_wrong_address:
  assumes "length txn = 12"
  shows "parse_mapped_address (xor_address txn (socket_addr_new (V6 ip) port)) True STUN_MAGIC = Some (socket_addr_new (V6 ip) port) \<longleftrightarrow>
    txn = replicate 12 0"
proof -
  define bs where "bs = rev (le_bytes 16 ip)"
  define m where "m = u32_to_be STUN_MAGIC"
  have len: "length bs = 16" "length m = 4" by (simp_all add: bs_def m_def)
  have split: "map2 (XOR) bs (m @ txn) = map2 (XOR) (take 4 bs) m @ map2 (XOR) (drop 4 bs) txn"
    using zip_append2 [of bs m txn] len by simp
  let ?d = "[0, 2] @ u16_to_be (port XOR 0x2112) @ map2 (XOR) bs (m @ txn)"
  have "slice ?d 2 4 = u16_to_be (port XOR 0x2112)" "slice ?d 4 20 = map2 (XOR) bs (m @ txn)"
    using len assms by (simp_all add: slice_def)
  then have "parse_mapped_address ?d True STUN_MAGIC =
      Some (socket_addr_new (V6 (of_be (take 4 bs @ map2 (XOR) (drop 4 bs) txn))) port)"
    using len assms by (simp add: parse_mapped_address_def split m_def [symmetric] map2_xor_same magic_port xor.assoc)
  moreover have "xor_address txn (socket_addr_new (V6 ip) port) = ?d"
    by (simp add: xor_address_def socket_addr_new_def bs_def m_def)
  moreover have "of_be (take 4 bs @ map2 (XOR) (drop 4 bs) txn) = ip \<longleftrightarrow> take 4 bs @ map2 (XOR) (drop 4 bs) txn = take 4 bs @ drop 4 bs"
    unfolding append_take_drop_id using len assms by (simp add: of_be_inj bs_def)
  moreover have "map2 (XOR) (drop 4 bs) txn = drop 4 bs \<longleftrightarrow> txn = replicate 12 0"
    using map2_xor_zero [of "drop 4 bs" txn] len assms by simp
  ultimately show ?thesis by (simp only: same_append_eq option.inject) (simp add: socket_addr_new_def)
qed

section \<open>Discovery and punching\<close>

text \<open>An address is learned from the server only, and from an answer to this request.\<close>

theorem discovery_trusts_server_only:
  assumes "discover_on_resolved name server txn attempts = Inr ext"
  shows "\<exists>i < STUN_RETRIES. \<exists>b. attempts i = Received b server \<and> parse_binding_response (take 2048 b) txn = Some ext"
proof -
  have "\<exists>x \<in> set xs. \<exists>b. x = Received b server \<and> parse_binding_response (take 2048 b) txn = Some ext"
    if "discover_loop server txn xs = Inr (Some ext)" for xs
    using that by (induction xs) (auto split: stun_attempt.splits if_splits option.splits)
  moreover have "discover_loop server txn (map attempts [0..<STUN_RETRIES]) = Inr (Some ext)"
    using assms by (simp add: discover_on_resolved_def split: sum.splits option.splits)
  ultimately obtain x b where "x \<in> attempts ` {0..<STUN_RETRIES}" "x = Received b server"
    "parse_binding_response (take 2048 b) txn = Some ext"
    by (metis list.set_map atLeastLessThan_upt)
  then show ?thesis by (metis (no_types, lifting) atLeastLessThan_iff imageE)
qed

text \<open>The peer that punching verifies is whoever sent the first probe, not the peer that was asked for.\<close>

theorem punch_accepts_any_sender:
  "\<exists>sock ext. punch h peer (Inr (PUNCH_PROBE, stranger) # rest) = Inr (sock, ext, stranger)"
proof -
  have "length PUNCH_PROBE \<le> 256" by (simp add: PUNCH_PROBE_def as_bytes_def)
  then show ?thesis by (simp add: punch_def)
qed

end
