(* ===== verification/Frame_Proto.thy ===== *)
theory Frame_Proto
  imports Seam_Api
begin

text \<open>
  \<^verbatim>\<open>bin/seam/proto.rs\<close>: length-prefixed frames on a stream. A waiting task gives up the connection's lock, so that
  other tasks change the connection before it is woken: a turn carries what they did, as a function of the connection. \<open>None\<close> is a task
  that still waits when the turns end.
\<close>

definition HELLO :: u8 where "HELLO = 0x01"
definition FILE_INFO :: u8 where "FILE_INFO = 0x02"
definition DATA :: u8 where "DATA = 0x03"
definition DONE :: u8 where "DONE = 0x04"
definition ACK :: u8 where "ACK = 0x05"
definition RESUME :: u8 where "RESUME = 0x06"
definition LS :: u8 where "LS = 0x07"
definition ENTRY :: u8 where "ENTRY = 0x08"
definition CHECKSUM :: u8 where "CHECKSUM = 0x09"
definition PARALLEL_INIT :: u8 where "PARALLEL_INIT = 0x0a"
definition CHUNK_INFO :: u8 where "CHUNK_INFO = 0x0b"
definition BYE :: u8 where "BYE = 0x0c"
definition LS_PATH :: u8 where "LS_PATH = 0x0d"
definition GET_PATH :: u8 where "GET_PATH = 0x0e"
definition STAT_PATH :: u8 where "STAT_PATH = 0x0f"
definition TOKEN :: u8 where "TOKEN = 0xf0"
definition COMPRESS_NONE :: u8 where "COMPRESS_NONE = 0"
definition COMPRESS_ZSTD :: u8 where "COMPRESS_ZSTD = 1"

lemmas frame_types = HELLO_def FILE_INFO_def DATA_def DONE_def ACK_def RESUME_def LS_def ENTRY_def CHECKSUM_def PARALLEL_INIT_def
  CHUNK_INFO_def BYE_def LS_PATH_def GET_PATH_def STAT_PATH_def TOKEN_def COMPRESS_NONE_def COMPRESS_ZSTD_def

section \<open>Sending\<close>

definition show_error :: "seam_error \<Rightarrow> string" where
  "show_error e =
     (case e of
        AuthFailed \<Rightarrow> ''authentication failed''
      | Replay n \<Rightarrow> ''replay detected: packet '' @ show_nat (unat n) @ '' already received''
      | TooOld n \<Rightarrow> ''packet too old: '' @ show_nat (unat n)
      | BufferTooSmall need have_n \<Rightarrow> ''buffer too small: need '' @ show_nat need @ '', have '' @ show_nat have_n
      | InvalidPktType t \<Rightarrow> ''invalid packet type: '' @ show_nat (unat t)
      | HandshakeFailed m \<Rightarrow> ''handshake failed: '' @ m
      | FlowControlBlocked avail req \<Rightarrow>
          ''flow control blocked: requested '' @ show_nat (unat req) @ '' but only '' @ show_nat (unat avail) @ '' available''
      | UnknownStream i \<Rightarrow> ''unknown stream '' @ show_nat (unat i)
      | StreamFinished i \<Rightarrow> ''stream '' @ show_nat (unat i) @ '' is already finished''
      | ProtocolViolation m \<Rightarrow> ''protocol violation: '' @ m
      | PacketTooLarge have_n mx \<Rightarrow> ''packet too large: '' @ show_nat have_n @ '' bytes exceeds maximum '' @ show_nat mx)"

definition frame_bytes :: "bytes \<Rightarrow> bytes" where
  "frame_bytes payload = u32_to_be (of_nat (length payload)) @ payload"

text \<open>One attempt after the other, two milliseconds apart; each meets the connection as the other tasks left it.\<close>

fun send_frame ::
  "('n, 'ks, 'kp, 'ds, 'dp, 'f, 'c) deps \<Rightarrow> sid \<Rightarrow> bytes \<Rightarrow>
     ((('n, 'ks, 'kp, 'ds, 'dp, 'f, 'c) connection \<Rightarrow> ('n, 'ks, 'kp, 'ds, 'dp, 'f, 'c) connection) \<times> env) list \<Rightarrow>
     ('n, 'ks, 'kp, 'ds, 'dp, 'f, 'c) connection \<Rightarrow> ((string + unit) \<times> ('n, 'ks, 'kp, 'ds, 'dp, 'f, 'c) connection) outcome option" where
  "send_frame D i payload [] c = None"
| "send_frame D i payload ((g, E) # rest) c =
     (case conn_write D E i (frame_bytes payload) (g c) of
        Panic \<Rightarrow> Some Panic
      | Return (Inr _, c') \<Rightarrow> Some (Return (Inr (), c'))
      | Return (Inl e, c') \<Rightarrow>
          (case e of
             FlowControlBlocked _ _ \<Rightarrow> send_frame D i payload rest c'
           | _ \<Rightarrow> Some (Return (Inl (show_error e), c'))))"

section \<open>Receiving\<close>

definition take_frame :: "bytes \<Rightarrow> (bytes \<times> bytes) option" where
  "take_frame buf =
     (if length buf \<ge> 4
      then let len = unat (of_be (take 4 buf) :: u32)
           in if length buf \<ge> 4 + len then Some (slice buf 4 (4 + len), drop (4 + len) buf) else None
      else None)"

text \<open>What wakes a reader: the event channel, or the timer.\<close>

datatype wake = Event | Timer env "(socket_addr option \<times> u64) list"

type_synonym 'c turn = "('c \<Rightarrow> 'c) \<times> wake"

text \<open>What an event means to the reader of a stream: bytes, the end, or nothing.\<close>

datatype 'c news = Got "seam_error + bytes" 'c | Finished 'c | Gone 'c | Nothing 'c

definition next_news ::
  "('n, 'ks, 'kp, 'ds, 'dp, 'f, 'c) deps \<Rightarrow> sid \<Rightarrow> wake \<Rightarrow> ('n, 'ks, 'kp, 'ds, 'dp, 'f, 'c) connection \<Rightarrow>
     ('n, 'ks, 'kp, 'ds, 'dp, 'f, 'c) connection news outcome" where
  "next_news D i w c =
     (case w of
        Timer E ips \<Rightarrow> obind (conn_tick D E ips c) (\<lambda>(_, c'). Return (Nothing c'))
      | Event \<Rightarrow>
          (case read_event c of
             None \<Rightarrow> Return (Nothing c)
           | Some (ev, c') \<Rightarrow>
               if ev = DataAvailable i then obind (conn_read i 65536 c') (\<lambda>(r, c''). Return (Got r c''))
               else if ev = FinishedStream i then Return (Finished c')
               else if ev = Closed then Return (Gone c')
               else Return (Nothing c')))"

definition closed_message :: "sid \<Rightarrow> string" where
  "closed_message i = ''stream '' @ show_nat (unat i) @ '' closed before frame complete''"

fun read_frame ::
  "('n, 'ks, 'kp, 'ds, 'dp, 'f, 'c) deps \<Rightarrow> sid \<Rightarrow> ('n, 'ks, 'kp, 'ds, 'dp, 'f, 'c) connection turn list \<Rightarrow> bytes \<Rightarrow>
     ('n, 'ks, 'kp, 'ds, 'dp, 'f, 'c) connection \<Rightarrow>
     ((string + bytes) \<times> ('n, 'ks, 'kp, 'ds, 'dp, 'f, 'c) connection turn list \<times> bytes \<times>
        ('n, 'ks, 'kp, 'ds, 'dp, 'f, 'c) connection) outcome option" where
  "read_frame D i turns buf c =
     (case take_frame buf of
        Some (fr, buf') \<Rightarrow> Some (Return (Inr fr, turns, buf', c))
      | None \<Rightarrow>
          (case turns of
             [] \<Rightarrow> None
           | (g, w) # rest \<Rightarrow>
               (case next_news D i w (g c) of
                  Panic \<Rightarrow> Some Panic
                | Return (Got (Inl e) c') \<Rightarrow> Some (Return (Inl (show_error e), rest, buf, c'))
                | Return (Got (Inr dat) c') \<Rightarrow> read_frame D i rest (buf @ dat) c'
                | Return (Finished c') \<Rightarrow> Some (Return (Inl (closed_message i), rest, buf, c'))
                | Return (Gone c') \<Rightarrow> Some (Return (Inl ''connection closed'', rest, buf, c'))
                | Return (Nothing c') \<Rightarrow> read_frame D i rest buf c')))"

declare read_frame.simps [simp del]

text \<open>The same, except that the end of the stream between two frames is not an error.\<close>

fun read_frame_opt ::
  "('n, 'ks, 'kp, 'ds, 'dp, 'f, 'c) deps \<Rightarrow> sid \<Rightarrow> ('n, 'ks, 'kp, 'ds, 'dp, 'f, 'c) connection turn list \<Rightarrow> bytes \<Rightarrow>
     ('n, 'ks, 'kp, 'ds, 'dp, 'f, 'c) connection \<Rightarrow>
     ((string + bytes option) \<times> ('n, 'ks, 'kp, 'ds, 'dp, 'f, 'c) connection turn list \<times> bytes \<times>
        ('n, 'ks, 'kp, 'ds, 'dp, 'f, 'c) connection) outcome option" where
  "read_frame_opt D i turns buf c =
     (case take_frame buf of
        Some (fr, buf') \<Rightarrow> Some (Return (Inr (Some fr), turns, buf', c))
      | None \<Rightarrow>
          (case turns of
             [] \<Rightarrow> None
           | (g, w) # rest \<Rightarrow>
               (case next_news D i w (g c) of
                  Panic \<Rightarrow> Some Panic
                | Return (Got (Inl e) c') \<Rightarrow> Some (Return (Inl (show_error e), rest, buf, c'))
                | Return (Got (Inr dat) c') \<Rightarrow> read_frame_opt D i rest (buf @ dat) c'
                | Return (Finished c') \<Rightarrow>
                    Some (Return (if buf = [] then Inr None else Inl (closed_message i), rest, buf, c'))
                | Return (Gone c') \<Rightarrow>
                    Some (Return (if buf = [] then Inr None else Inl ''connection closed before frame complete'', rest, buf, c'))
                | Return (Nothing c') \<Rightarrow> read_frame_opt D i rest buf c')))"

declare read_frame_opt.simps [simp del]

fun wait_for_stream ::
  "(('n, 'ks, 'kp, 'ds, 'dp, 'f, 'c) connection \<Rightarrow> ('n, 'ks, 'kp, 'ds, 'dp, 'f, 'c) connection) list \<Rightarrow>
     ('n, 'ks, 'kp, 'ds, 'dp, 'f, 'c) connection \<Rightarrow>
     ((string + sid) \<times> (('n, 'ks, 'kp, 'ds, 'dp, 'f, 'c) connection \<Rightarrow> ('n, 'ks, 'kp, 'ds, 'dp, 'f, 'c) connection) list \<times>
        ('n, 'ks, 'kp, 'ds, 'dp, 'f, 'c) connection) option" where
  "wait_for_stream [] c = None"
| "wait_for_stream (g # rest) c =
     (case read_event (g c) of
        None \<Rightarrow> wait_for_stream rest (g c)
      | Some (NewStream i, c') \<Rightarrow> Some (Inr i, rest, c')
      | Some (Closed, c') \<Rightarrow> Some (Inl ''connection closed before stream opened'', rest, c')
      | Some (_, c') \<Rightarrow> wait_for_stream rest c')"

section \<open>Frames survive every cut\<close>

text \<open>The bytes of a stream that a run of turns delivers; \<open>None\<close> if it meets an error or the end.\<close>

fun stream_bytes ::
  "('n, 'ks, 'kp, 'ds, 'dp, 'f, 'c) deps \<Rightarrow> sid \<Rightarrow> ('n, 'ks, 'kp, 'ds, 'dp, 'f, 'c) connection turn list \<Rightarrow>
     ('n, 'ks, 'kp, 'ds, 'dp, 'f, 'c) connection \<Rightarrow> bytes option" where
  "stream_bytes D i [] c = Some []"
| "stream_bytes D i ((g, w) # rest) c =
     (case next_news D i w (g c) of
        Return (Got (Inr dat) c') \<Rightarrow> map_option ((@) dat) (stream_bytes D i rest c')
      | Return (Nothing c') \<Rightarrow> stream_bytes D i rest c'
      | _ \<Rightarrow> None)"

text \<open>One frame after the other, as a caller reads them.\<close>

fun read_frames ::
  "('n, 'ks, 'kp, 'ds, 'dp, 'f, 'c) deps \<Rightarrow> sid \<Rightarrow> nat \<Rightarrow> ('n, 'ks, 'kp, 'ds, 'dp, 'f, 'c) connection turn list \<Rightarrow> bytes \<Rightarrow>
     ('n, 'ks, 'kp, 'ds, 'dp, 'f, 'c) connection \<Rightarrow>
     ((string + bytes list) \<times> ('n, 'ks, 'kp, 'ds, 'dp, 'f, 'c) connection turn list \<times> bytes \<times>
        ('n, 'ks, 'kp, 'ds, 'dp, 'f, 'c) connection) outcome option" where
  "read_frames D i 0 turns buf c = Some (Return (Inr [], turns, buf, c))"
| "read_frames D i (Suc k) turns buf c =
     (case read_frame D i turns buf c of
        Some (Return (Inr fr, turns', buf', c')) \<Rightarrow>
          (case read_frames D i k turns' buf' c' of
             Some (Return (Inr frs, r)) \<Rightarrow> Some (Return (Inr (fr # frs), r))
           | other \<Rightarrow> other)
      | Some (Return (Inl e, r)) \<Rightarrow> Some (Return (Inl e, r))
      | Some Panic \<Rightarrow> Some Panic
      | None \<Rightarrow> None)"

text \<open>A buffer that starts with a frame yields it; a proper prefix of a frame yields nothing.\<close>

lemma length_frame_bytes [simp]: "length (frame_bytes p) = 4 + length p"
  by (simp add: frame_bytes_def)

lemma frame_len:
  assumes "length p < 2 ^ 32" and "buf @ r = frame_bytes p @ r'" and "4 \<le> length buf"
  shows "unat (of_be (take 4 buf) :: u32) = length p"
proof -
  have "take 4 buf = take 4 (frame_bytes p @ r')" using assms(2,3) by (metis take_append take_0 append_Nil2 diff_is_0_eq)
  also have "\<dots> = u32_to_be (of_nat (length p))" by (simp add: frame_bytes_def)
  finally show ?thesis using assms(1) by (simp add: codec_simps unat_of_nat_id)
qed

lemma take_frame_bytes:
  assumes "length p < 2 ^ 32"
  shows "take_frame (frame_bytes p @ r) = Some (p, r)"
  using frame_len [OF assms, of "frame_bytes p @ r" "[]" r]
  by (simp add: take_frame_def slice_def) (simp add: frame_bytes_def)

lemma take_frame_prefix:
  assumes "length p < 2 ^ 32" and "buf @ r = frame_bytes p @ r'" and "length buf < length (frame_bytes p)"
  shows "take_frame buf = None"
  using frame_len [OF assms(1,2)] assms(3) by (auto simp: take_frame_def Let_def)

text \<open>A reader in the middle of a stream gets the next frame, whole, and leaves what follows it.\<close>

lemma read_frame_next:
  assumes "stream_bytes D i turns c = Some bs" and "buf @ bs = frame_bytes p @ r" and "length p < 2 ^ 32"
  shows "\<exists>turns' buf' c' bs'. read_frame D i turns buf c = Some (Return (Inr p, turns', buf', c')) \<and>
    stream_bytes D i turns' c' = Some bs' \<and> buf' @ bs' = r"
  using assms
proof (induction turns arbitrary: buf c bs)
  case Nil
  then have "take_frame buf = Some (p, r)" by (simp add: take_frame_bytes)
  with Nil.prems show ?case by (auto simp: read_frame.simps)
next
  case (Cons turn rest)
  obtain g w where turn: "turn = (g, w)" by (cases turn)
  show ?case
  proof (cases "length buf < length (frame_bytes p)")
    case True
    note none = take_frame_prefix [OF Cons.prems(3,2) True]
    from Cons.prems(1) turn consider
      (data) dat c' bs' where "next_news D i w (g c) = Return (Got (Inr dat) c')" "stream_bytes D i rest c' = Some bs'" "bs = dat @ bs'"
    | (quiet) c' where "next_news D i w (g c) = Return (Nothing c')" "stream_bytes D i rest c' = Some bs"
      by (auto split: outcome.splits news.splits sum.splits)
    then show ?thesis
    proof cases
      case data
      then show ?thesis using Cons.IH [OF data(2), of "buf @ dat"] Cons.prems(2,3) none turn
        by (subst read_frame.simps) simp
    next
      case quiet
      then show ?thesis using Cons.IH [OF quiet(2) Cons.prems(2,3)] none turn
        by (subst read_frame.simps) simp
    qed
  next
    case False
    define buf' where "buf' = drop (length (frame_bytes p)) buf"
    have "take (length (frame_bytes p)) (buf @ bs) = frame_bytes p" using Cons.prems(2) by simp
    then have "take (length (frame_bytes p)) buf = frame_bytes p" using False by simp
    then have buf': "buf = frame_bytes p @ buf'" unfolding buf'_def by (metis append_take_drop_id)
    then have r: "buf' @ bs = r" using Cons.prems(2) by simp
    from buf' have "read_frame D i (turn # rest) buf c = Some (Return (Inr p, turn # rest, buf', c))"
      by (subst read_frame.simps) (simp add: take_frame_bytes [OF Cons.prems(3)])
    with Cons.prems(1) r show ?thesis by blast
  qed
qed

text \<open>C5: Frames survive every cut of the stream. Whatever other tasks do to the connection in between, and however its packets cut the
  stream, if what a run of events and timers delivers continues the buffer to a sequence of frames, then reading that many
  frames returns their payloads, each whole and in order, and leaves the bytes after the last of them to the next
  read.\<close>

theorem frames_survive_cuts:
  assumes "stream_bytes D i turns c = Some bs" and "buf @ bs = concat (map frame_bytes ps) @ r" and "\<forall>p \<in> set ps. length p < 2 ^ 32"
  shows "\<exists>turns' buf' c' bs'. read_frames D i (length ps) turns buf c = Some (Return (Inr ps, turns', buf', c')) \<and>
    stream_bytes D i turns' c' = Some bs' \<and> buf' @ bs' = r"
  using assms
proof (induction ps arbitrary: turns buf c bs)
  case (Cons p ps)
  obtain turns1 buf1 c1 bs1 where one: "read_frame D i turns buf c = Some (Return (Inr p, turns1, buf1, c1))"
    and bs1: "stream_bytes D i turns1 c1 = Some bs1" "buf1 @ bs1 = concat (map frame_bytes ps) @ r"
    using read_frame_next [OF Cons.prems(1), of buf p "concat (map frame_bytes ps) @ r"] Cons.prems(2,3) by auto
  from Cons.IH [OF bs1] Cons.prems(3) one show ?case by auto
qed simp

text \<open>Two frames in pieces: the reader starts with a part of a length, an event of another stream interrupts it, and the next
  piece ends after the second frame has begun.\<close>

definition piece ::
  "bytes \<Rightarrow> session \<Rightarrow> ('n, 'ks, 'kp, 'ds, 'dp, 'f, 'c) connection \<Rightarrow> ('n, 'ks, 'kp, 'ds, 'dp, 'f, 'c) connection" where
  "piece b s c = c\<lparr>event_tx := [DataAvailable 1], conn_session := Some (s\<lparr>ss_streams := [(1, (stream_new 1)\<lparr>recv_buf := [(0, b)]\<rparr>)]\<rparr>)\<rparr>"

lemma piece_news: "length b < 65536 \<Longrightarrow> \<exists>c'. next_news D 1 Event (piece b s c) = Return (Got (Inr b) c')"
  by (simp add: next_news_def piece_def read_event_def conn_read_def session_read_def stream_read_def stream_new_def Let_def)

lemma small_frames: "frame_bytes [7, 8, 9] = [0, 0, 0, 3, 7, 8, 9]" "frame_bytes [] = [0, 0, 0, 0]"
  by (simp_all add: frame_bytes_def u32_to_be_def le_bytes_def upt_conv_Cons drop_bit_eq_div)

theorem frames_survive_cuts_witness:
  "\<forall>(D :: (unit, bytes, unit, unit, unit, rat, aimd) deps) c s. \<exists>turns' buf' c' bs'.
     read_frames D 1 (length [[7, 8, 9] :: bytes, []])
       [(piece [0, 3, 7] s, Event), (\<lambda>c. c\<lparr>event_tx := [NewStream 5]\<rparr>, Event), (piece [8, 9, 0, 0, 0, 0, 4] s, Event)] [0, 0] c =
       Some (Return (Inr [[7, 8, 9], []], turns', buf', c')) \<and>
     stream_bytes D 1 turns' c' = Some bs' \<and> buf' @ bs' = [4]"
proof (intro allI)
  fix D :: "(unit, bytes, unit, unit, unit, rat, aimd) deps" and c s
  let ?turns = "[(piece [0, 3, 7] s, Event), (\<lambda>c. c\<lparr>event_tx := [NewStream 5]\<rparr>, Event), (piece [8, 9, 0, 0, 0, 0, 4] s, Event)]"
  obtain c1 where c1: "next_news D 1 Event (piece [0, 3, 7] s c) = Return (Got (Inr [0, 3, 7]) c1)"
    using piece_news [of "[0, 3, 7]" D s c] by auto
  have c2: "next_news D 1 Event (c1\<lparr>event_tx := [NewStream 5]\<rparr>) = Return (Nothing (c1\<lparr>event_tx := []\<rparr>))"
    by (simp add: next_news_def read_event_def)
  obtain c3 where c3: "next_news D 1 Event (piece [8, 9, 0, 0, 0, 0, 4] s (c1\<lparr>event_tx := []\<rparr>)) = Return (Got (Inr [8, 9, 0, 0, 0, 0, 4]) c3)"
    using piece_news [of "[8, 9, 0, 0, 0, 0, 4]" D s "c1\<lparr>event_tx := []\<rparr>"] by auto
  have bs: "stream_bytes D 1 ?turns c = Some [0, 3, 7, 8, 9, 0, 0, 0, 0, 4]" by (simp add: c1 c2 c3)
  show "\<exists>turns' buf' c' bs'. read_frames D 1 (length [[7, 8, 9] :: bytes, []]) ?turns [0, 0] c = Some (Return (Inr [[7, 8, 9], []], turns', buf', c')) \<and>
     stream_bytes D 1 turns' c' = Some bs' \<and> buf' @ bs' = [4]"
    by (rule frames_survive_cuts [OF bs]) (simp_all add: small_frames)
qed

end
