(* ===== verification/File_Store.thy ===== *)
theory File_Store
  imports Frame_Proto
begin

text \<open>
  What the commands that move files use of the operating system and of their libraries: names as the bytes of a Rust string, paths
  as lists of components, a file system of regular files, the calls that may fail, compression, and the incremental hashes of
  \<^verbatim>\<open>bin/seam/copy.rs\<close>. Compression, hash functions and the failures of calls are the fields of the record \<open>host\<close>, an argument of the definitions.
\<close>

section \<open>Names and paths\<close>

definition continuation :: "u8 \<Rightarrow> bool" where
  "continuation b \<longleftrightarrow> 0x80 \<le> b \<and> b \<le> 0xBF"

text \<open>The bytes \<^verbatim>\<open>String::from_utf8\<close> accepts.\<close>

fun utf8_valid :: "bytes \<Rightarrow> bool" where
  "utf8_valid [] \<longleftrightarrow> True"
| "utf8_valid (b # bs) \<longleftrightarrow>
     (if b < 0x80 then utf8_valid bs
      else case bs of [] \<Rightarrow> False | c # cs \<Rightarrow>
        if 0xC2 \<le> b \<and> b \<le> 0xDF then continuation c \<and> utf8_valid cs
        else case cs of [] \<Rightarrow> False | d # ds \<Rightarrow>
          if 0xE0 \<le> b \<and> b \<le> 0xEF
          then continuation c \<and> continuation d \<and> (b = 0xE0 \<longrightarrow> 0xA0 \<le> c) \<and> (b = 0xED \<longrightarrow> c \<le> 0x9F) \<and> utf8_valid ds
          else case ds of [] \<Rightarrow> False | e # es \<Rightarrow>
            0xF0 \<le> b \<and> b \<le> 0xF4 \<and> continuation c \<and> continuation d \<and> continuation e \<and>
            (b = 0xF0 \<longrightarrow> 0x90 \<le> c) \<and> (b = 0xF4 \<longrightarrow> c \<le> 0x8F) \<and> utf8_valid es)"

fun contains :: "bytes \<Rightarrow> bytes \<Rightarrow> bool" where
  "contains pat [] \<longleftrightarrow> pat = []"
| "contains pat (b # bs) \<longleftrightarrow> take (length pat) (b # bs) = pat \<or> contains pat bs"

definition is_absolute :: "bytes \<Rightarrow> bool" where
  "is_absolute name \<longleftrightarrow> take 1 name = [0x2F]"

fun split_on :: "'a \<Rightarrow> 'a list \<Rightarrow> 'a list list" where
  "split_on x [] = [[]]"
| "split_on x (y # ys) = (if x = y then [] # split_on x ys else (case split_on x ys of [] \<Rightarrow> [[y]] | p # ps \<Rightarrow> (y # p) # ps))"

type_synonym fpath = "bytes list"

text \<open>\<^verbatim>\<open>Path::components\<close> of a relative path: empty parts and single dots do not count.\<close>

definition components :: "bytes \<Rightarrow> fpath" where
  "components name = filter (\<lambda>p. p \<noteq> [] \<and> p \<noteq> [0x2E]) (split_on 0x2F name)"

definition path_join :: "fpath \<Rightarrow> bytes \<Rightarrow> fpath" where
  "path_join dir name = (if is_absolute name then components name else dir @ components name)"

definition parent :: "fpath \<Rightarrow> fpath option" where
  "parent p = (if p = [] then None else Some (butlast p))"

text \<open>\<^verbatim>\<open>file_name().unwrap_or_default()\<close>, extended and set again.\<close>

definition with_suffix :: "fpath \<Rightarrow> bytes \<Rightarrow> fpath" where
  "with_suffix p ext = (if p = [] then [ext] else butlast p @ [last p @ ext])"

section \<open>Files\<close>

type_synonym fs = "fpath \<Rightarrow> bytes option"

datatype fs_call = CreateDirAll fpath | OpenWrite fpath | WriteAll fpath | Rename fpath fpath | Metadata bytes | OpenRead bytes | SetLen fpath

record host =
  h_zstd_encode :: "bytes \<Rightarrow> string + bytes"
  h_zstd_decode :: "bytes \<Rightarrow> string + bytes"
  h_blake3 :: "bytes \<Rightarrow> bytes"
  h_sha256 :: "bytes \<Rightarrow> bytes"
  h_fs_err :: "fs_call \<Rightarrow> string option"

text \<open>\<^verbatim>\<open>OpenOptions::write(true).create(true).truncate(b)\<close>, and writing at a position.\<close>

definition fs_open :: "bool \<Rightarrow> fpath \<Rightarrow> fs \<Rightarrow> fs" where
  "fs_open trunc p f = f(p \<mapsto> (case f p of Some old \<Rightarrow> if trunc then [] else old | None \<Rightarrow> []))"

definition write_at :: "nat \<Rightarrow> bytes \<Rightarrow> bytes \<Rightarrow> bytes" where
  "write_at pos new old = take pos (resize old (max pos (length old)) 0) @ new @ drop (pos + length new) old"

definition fs_write :: "fpath \<Rightarrow> nat \<Rightarrow> bytes \<Rightarrow> fs \<Rightarrow> fs" where
  "fs_write p pos new f = f(p \<mapsto> write_at pos new (case f p of Some old \<Rightarrow> old | None \<Rightarrow> []))"

definition fs_remove :: "fpath \<Rightarrow> fs \<Rightarrow> fs" where
  "fs_remove p f = f(p := None)"

definition fs_rename :: "fpath \<Rightarrow> fpath \<Rightarrow> fs \<Rightarrow> fs" where
  "fs_rename p q f = (f(p := None))(q := f p)"

section \<open>Hashing\<close>

text \<open>An incremental hasher holds what it has been fed.\<close>

datatype hasher = Blake3 bytes | Sha256 bytes

definition hasher_new :: "bool \<Rightarrow> hasher" where
  "hasher_new fips_mode = (if fips_mode then Sha256 [] else Blake3 [])"

fun hasher_update :: "bytes \<Rightarrow> hasher \<Rightarrow> hasher" where
  "hasher_update dat (Blake3 b) = Blake3 (b @ dat)"
| "hasher_update dat (Sha256 b) = Sha256 (b @ dat)"

fun hasher_finalize :: "host \<Rightarrow> hasher \<Rightarrow> bytes" where
  "hasher_finalize H (Blake3 b) = h_blake3 H b"
| "hasher_finalize H (Sha256 b) = h_sha256 H b"

definition digest :: "host \<Rightarrow> bool \<Rightarrow> bytes \<Rightarrow> bytes" where
  "digest H fips b = hasher_finalize H (hasher_update b (hasher_new fips))"

lemma hasher_update_append [simp]: "hasher_update b (hasher_update a h) = hasher_update (a @ b) h"
  by (cases h) simp_all

lemma hasher_update_Nil [simp]: "hasher_update [] h = h"
  by (cases h) simp_all

section \<open>Text\<close>

definition NEWLINE :: u8 where "NEWLINE = 10"

definition whitespace :: "u8 \<Rightarrow> bool" where
  "whitespace b \<longleftrightarrow> b \<in> {9, 10, 11, 12, 13, 32}"

definition trim :: "bytes \<Rightarrow> bytes" where
  "trim b = rev (dropWhile whitespace (rev (dropWhile whitespace b)))"

datatype json = JStr string | JNum int | JBool bool | JArr "json list" | JObj "(string \<times> json) list"

text \<open>The JSON and hex libraries: an object is printed with its fields in the order given, and parsed to a map.\<close>

record text_lib =
  t_print :: "json \<Rightarrow> bytes"
  t_parse :: "bytes \<Rightarrow> json option"
  t_hex :: "bytes \<Rightarrow> string"
  t_unhex :: "string \<Rightarrow> bytes option"

section \<open>Lemmas\<close>

lemma write_at_end [simp]: "write_at (length old) new old = old @ new"
  by (simp add: write_at_def)

lemma fs_write_end: "f p = Some old \<Longrightarrow> fs_write p (length old) new f = f(p \<mapsto> old @ new)"
  by (simp add: fs_write_def)

text \<open>A name that passes the checks of the receivers stays below the directory it is joined to.\<close>

lemma split_on_dotdot: "\<not> contains [x, x] name \<Longrightarrow> x \<noteq> y \<Longrightarrow> [x, x] \<notin> set (split_on y name)"
proof -
  have take2: "take 2 name = [x, x]" if "split_on y name = [x, x] # ps" for name ps
    using that by (cases name; cases "tl name") (auto split: if_splits list.splits)
  show "\<not> contains [x, x] name \<Longrightarrow> x \<noteq> y \<Longrightarrow> [x, x] \<notin> set (split_on y name)"
  proof (induction name)
    case (Cons z name)
    then have ih: "[x, x] \<notin> set (split_on y name)" by simp
    show ?case
    proof
      assume "[x, x] \<in> set (split_on y (z # name))"
      with ih obtain ps where "split_on y (z # name) = [x, x] # ps" by (auto split: if_splits list.splits)
      from take2 [OF this] Cons.prems(1) show False by simp
    qed
  qed simp
qed

lemma safe_name_components:
  assumes "\<not> contains [0x2E, 0x2E] name" and "\<not> is_absolute name"
  shows "path_join dir name = dir @ components name" and "[0x2E, 0x2E] \<notin> set (components name)"
    and "[] \<notin> set (components name)"
  using assms split_on_dotdot [of "0x2E :: u8" name "0x2F"] by (auto simp: path_join_def components_def)

lemma split_on_end: "x \<notin> set xs \<Longrightarrow> split_on x (xs @ [x]) = [xs, []]"
  by (induction xs) auto

end
