(* ===== verification/File_Transfer.thy ===== *)
theory File_Transfer
  imports File_Store
begin

text \<open>
  The transfer of files by \<^verbatim>\<open>seam cp\<close>: the sender of \<^verbatim>\<open>bin/seam/copy.rs\<close> and the receiver of \<^verbatim>\<open>bin/seam/recv.rs\<close>. Both are cut at
  \<^verbatim>\<open>read_frame\<close>: between two frames they run without waiting, so each is a function from where it waits and the frame it gets to
  where it waits next and the frames it sends. \<^verbatim>\<open>Frame_Proto\<close> is what brings the frames whole and in order.
\<close>

datatype xfer_error =
    FileInfoTooShort | NameTruncated | NotUtf8 | DangerousName bytes | ExpectedData | IntegrityFailed bytes
  | ExpectedHello u8 | EmptyFrame | UnexpectedFrame u8 | ParallelInitTooShort | Io string | Zstd string
  | ExpectedAck | ReceiverMismatch bytes | ExpectedChunkInfo nat | ChunkNameTruncated nat | ChunkExpectedData nat
  | ChunkMismatch nat | MissingChecksum nat | ParallelChunkFailed | ConnectionClosed

text \<open>A frame on the control stream, all that the chunk streams of a parallel transfer carry, one list of frames each, or the end of the
  connection.\<close>

datatype msg = Ctrl bytes | Chunks "bytes list list" | Hangup

section \<open>Receiving a file\<close>

definition dangerous :: "bytes \<Rightarrow> bool" where
  "dangerous name \<longleftrightarrow> contains [0x2E, 0x2E] name \<or> is_absolute name"

definition parse_file_info :: "bytes \<Rightarrow> xfer_error + u64 \<times> bytes" where
  "parse_file_info fr =
     (if length fr < 11 then Inl FileInfoTooShort
      else
        let fsize = of_be (slice fr 1 9);
            name_len = unat (of_be (slice fr 9 11) :: u16)
        in if length fr < 11 + name_len then Inl NameTruncated
           else
             let name = slice fr 11 (11 + name_len)
             in if \<not> utf8_valid name then Inl NotUtf8
                else if dangerous name then Inl (DangerousName name)
                else Inr (fsize, name))"

record rx_file =
  rf_name :: bytes
  rf_size :: u64
  rf_out :: fpath
  rf_partial :: fpath
  rf_pos :: nat
  rf_received :: u64
  rf_hasher :: hasher

definition partial_path :: "fpath \<Rightarrow> nat option \<Rightarrow> fpath" where
  "partial_path out idx =
     with_suffix out (as_bytes ''.seam-partial'' @ (case idx of Some i \<Rightarrow> as_bytes (''.p'' @ show_nat i) | None \<Rightarrow> []))"

text \<open>Up to the first \<^verbatim>\<open>read_frame\<close>: the frames sent, and the open file. A partial file that cannot be removed is truncated.\<close>

definition receive_file_begin ::
  "host \<Rightarrow> fpath \<Rightarrow> bool \<Rightarrow> nat option \<Rightarrow> bytes \<Rightarrow> fs \<Rightarrow> msg list \<times> (xfer_error + rx_file) \<times> fs" where
  "receive_file_begin H dest fips idx info f =
     (case parse_file_info info of
        Inl e \<Rightarrow> ([], Inl e, f)
      | Inr (fsize, name) \<Rightarrow>
          let out = path_join dest name in
          (case (case parent out of Some d \<Rightarrow> h_fs_err H (CreateDirAll d) | None \<Rightarrow> None) of
             Some e \<Rightarrow> ([], Inl (Io e), f)
           | None \<Rightarrow>
               let part = partial_path out idx;
                   partial_size = (case f part of Some b \<Rightarrow> of_nat (length b) | None \<Rightarrow> 0) :: u64;
                   resuming = (partial_size > 0 \<and> partial_size < fsize);
                   resume_from = (if resuming then partial_size else 0);
                   sent = (if resuming then [Ctrl (RESUME # u64_to_be partial_size)] else []);
                   f1 = (if resuming then f else fs_remove part f)
               in (case h_fs_err H (OpenWrite part) of
                     Some e \<Rightarrow> (sent, Inl (Io e), f1)
                   | None \<Rightarrow>
                       (sent,
                        Inr \<lparr>rf_name = name, rf_size = fsize, rf_out = out, rf_partial = part, rf_pos = unat resume_from,
                             rf_received = resume_from, rf_hasher = hasher_new fips\<rparr>,
                        fs_open (resume_from = 0) part f1))))"

definition unpack :: "host \<Rightarrow> bool \<Rightarrow> bytes \<Rightarrow> xfer_error + bytes" where
  "unpack H compress raw =
     (if compress then (case h_zstd_decode H raw of Inl e \<Rightarrow> Inl (Zstd e) | Inr b \<Rightarrow> Inr b) else Inr raw)"

definition receive_file_data :: "host \<Rightarrow> bool \<Rightarrow> rx_file \<Rightarrow> bytes \<Rightarrow> fs \<Rightarrow> (xfer_error + rx_file) \<times> fs" where
  "receive_file_data H compress rf fr f =
     (if fr = [] \<or> hd fr \<noteq> DATA then (Inl ExpectedData, f)
      else case unpack H compress (tl fr) of
          Inl e \<Rightarrow> (Inl e, f)
        | Inr raw \<Rightarrow>
            (case h_fs_err H (WriteAll (rf_partial rf)) of
               Some e \<Rightarrow> (Inl (Io e), f)
             | None \<Rightarrow>
                 (Inr (rf\<lparr>rf_hasher := hasher_update raw (rf_hasher rf), rf_pos := rf_pos rf + length raw,
                          rf_received := rf_received rf + of_nat (length raw)\<rparr>),
                  fs_write (rf_partial rf) (rf_pos rf) raw f)))"

definition promote :: "host \<Rightarrow> rx_file \<Rightarrow> msg list \<Rightarrow> fs \<Rightarrow> msg list \<times> (xfer_error + unit) \<times> fs" where
  "promote H rf reply f =
     (case h_fs_err H (Rename (rf_partial rf) (rf_out rf)) of
        Some e \<Rightarrow> ([], Inl (Io e), f)
      | None \<Rightarrow> (reply, Inr (), fs_rename (rf_partial rf) (rf_out rf) f))"

definition receive_file_checksum :: "host \<Rightarrow> nat option \<Rightarrow> rx_file \<Rightarrow> bytes \<Rightarrow> fs \<Rightarrow> msg list \<times> (xfer_error + unit) \<times> fs" where
  "receive_file_checksum H idx rf fr f =
     (if length fr = 33 \<and> hd fr = CHECKSUM
      then if hasher_finalize H (rf_hasher rf) = tl fr
           then if idx \<noteq> None \<and> f (rf_out rf) \<noteq> None
                then ([Ctrl [ACK]], Inr (), fs_remove (rf_partial rf) f)
                else promote H rf [Ctrl [ACK]] f
           else ([], Inl (IntegrityFailed (rf_name rf)), fs_remove (rf_partial rf) f)
      else promote H rf [] f)"

section \<open>Pulling a file\<close>

text \<open>The receiver of \<^verbatim>\<open>copy.rs\<close>, for a pull: it stages a file only if it was asked to resume, and otherwise writes to the file itself;
  \<open>rf_partial\<close> is the file being written.\<close>

definition pull_file_begin ::
  "host \<Rightarrow> fpath \<Rightarrow> bool \<Rightarrow> bool \<Rightarrow> bytes \<Rightarrow> fs \<Rightarrow> msg list \<times> (xfer_error + rx_file) \<times> fs" where
  "pull_file_begin H dest fips resume info f =
     (case parse_file_info info of
        Inl e \<Rightarrow> ([], Inl e, f)
      | Inr (fsize, name) \<Rightarrow>
          let out = path_join dest name in
          (case (case parent out of Some d \<Rightarrow> h_fs_err H (CreateDirAll d) | None \<Rightarrow> None) of
             Some e \<Rightarrow> ([], Inl (Io e), f)
           | None \<Rightarrow>
               let part = partial_path out None;
                   partial_size = (case f part of Some b \<Rightarrow> of_nat (length b) | None \<Rightarrow> 0) :: u64;
                   resuming = (resume \<and> partial_size > 0 \<and> partial_size < fsize);
                   resume_from = (if resuming then partial_size else 0);
                   sent = (if resuming then [Ctrl (RESUME # u64_to_be partial_size)] else []);
                   f1 = (if resume \<and> \<not> resuming then fs_remove part f else f);
                   write_path = (if resume then part else out)
               in (case h_fs_err H (OpenWrite write_path) of
                     Some e \<Rightarrow> (sent, Inl (Io e), f1)
                   | None \<Rightarrow>
                       (sent,
                        Inr \<lparr>rf_name = name, rf_size = fsize, rf_out = out, rf_partial = write_path, rf_pos = unat resume_from,
                             rf_received = resume_from, rf_hasher = hasher_new fips\<rparr>,
                        fs_open (resume_from = 0) write_path f1))))"

definition pull_file_checksum :: "host \<Rightarrow> bool \<Rightarrow> rx_file \<Rightarrow> bytes \<Rightarrow> fs \<Rightarrow> msg list \<times> (xfer_error + unit) \<times> fs" where
  "pull_file_checksum H resume rf fr f =
     (if length fr = 33 \<and> hd fr = CHECKSUM
      then if hasher_finalize H (rf_hasher rf) = tl fr
           then if resume then promote H rf [Ctrl [ACK]] f else ([Ctrl [ACK]], Inr (), f)
           else ([], Inl (IntegrityFailed (rf_name rf)), if resume then fs_remove (rf_partial rf) f else f)
      else if resume \<and> f (rf_partial rf) \<noteq> None then promote H rf [] f
      else ([], Inr (), f))"

section \<open>Receiving in parallel\<close>

definition parse_chunk_info :: "nat \<Rightarrow> bytes \<Rightarrow> xfer_error + u64 \<times> u64 \<times> bytes" where
  "parse_chunk_info i fr =
     (if length fr < 21 \<or> hd fr \<noteq> CHUNK_INFO then Inl (ExpectedChunkInfo i)
      else
        let offset = of_be (slice fr 3 11); chunk_size = of_be (slice fr 11 19);
            name_len = unat (of_be (slice fr 19 21) :: u16)
        in if length fr < 21 + name_len then Inl (ChunkNameTruncated i)
           else
             let name = slice fr 21 (21 + name_len)
             in if \<not> utf8_valid name then Inl NotUtf8
                else if dangerous name then Inl (DangerousName name)
                else Inr (offset, chunk_size, name))"

text \<open>The header frame of every chunk stream; \<open>None\<close> while one of them has not arrived.\<close>

fun read_chunk_infos :: "nat \<Rightarrow> bytes list list \<Rightarrow> (xfer_error + (u64 \<times> u64 \<times> bytes) list) option" where
  "read_chunk_infos i [] = Some (Inr [])"
| "read_chunk_infos i ([] # _) = None"
| "read_chunk_infos i ((fr # _) # css) =
     (case parse_chunk_info i fr of
        Inl e \<Rightarrow> Some (Inl e)
      | Inr info \<Rightarrow>
          (case read_chunk_infos (Suc i) css of
             Some (Inr infos) \<Rightarrow> Some (Inr (info # infos))
           | other \<Rightarrow> other))"

text \<open>One chunk: data until the announced size is reached, then its checksum. Without a result the receiver waits for another frame; what has been written
  stays.\<close>

fun receive_chunk ::
  "host \<Rightarrow> bool \<Rightarrow> nat \<Rightarrow> fpath \<Rightarrow> bytes list \<Rightarrow> u64 \<Rightarrow> u64 \<Rightarrow> nat \<Rightarrow> hasher \<Rightarrow> fs \<Rightarrow> (xfer_error + unit) option \<times> fs" where
  "receive_chunk H compress i out [] chunk_size recvd pos h f = (None, f)"
| "receive_chunk H compress i out (fr # frs) chunk_size recvd pos h f =
     (if recvd < chunk_size
      then if fr = [] \<or> hd fr \<noteq> DATA then (Some (Inl (ChunkExpectedData i)), f)
           else case unpack H compress (tl fr) of
               Inl e \<Rightarrow> (Some (Inl e), f)
             | Inr raw \<Rightarrow>
                 (case h_fs_err H (WriteAll out) of
                    Some e \<Rightarrow> (Some (Inl (Io e)), f)
                  | None \<Rightarrow> receive_chunk H compress i out frs chunk_size (recvd + of_nat (length raw)) (pos + length raw)
                      (hasher_update raw h) (fs_write out pos raw f))
      else if length fr = 33 \<and> hd fr = CHECKSUM
      then if hasher_finalize H h = tl fr then (Some (Inr ()), f) else (Some (Inl (ChunkMismatch i)), f)
      else (Some (Inl (MissingChecksum i)), f))"

fun receive_chunks ::
  "host \<Rightarrow> bool \<Rightarrow> bool \<Rightarrow> nat \<Rightarrow> fpath \<Rightarrow> (bytes list \<times> u64 \<times> u64 \<times> bytes) list \<Rightarrow> fs \<Rightarrow> (xfer_error + unit) option \<times> bytes list list \<times> fs" where
  "receive_chunks H compress fips i out [] f = (Some (Inr ()), [], f)"
| "receive_chunks H compress fips i out ((frs, offset, chunk_size, _) # rest) f =
     (case h_fs_err H (OpenWrite out) of
        Some e \<Rightarrow> (Some (Inl (Io e)), [], f)
      | None \<Rightarrow>
          (case receive_chunk H compress i out frs chunk_size 0 (unat offset) (hasher_new fips) f of
             (Some (Inr _), f') \<Rightarrow>
               (case receive_chunks H compress fips (Suc i) out rest f' of (r, acks, f'') \<Rightarrow> (r, [[ACK]] # acks, f''))
           | (r, f') \<Rightarrow> (r, [], f')))"

definition total_size :: "(u64 \<times> u64 \<times> bytes) list \<Rightarrow> u64" where
  "total_size infos = foldr (\<lambda>(offset, chunk_size, _) m. max (offset + chunk_size) m) infos 0"

text \<open>Without a chunk, the name of the file is read out of range.\<close>

definition receive_parallel ::
  "host \<Rightarrow> bool \<Rightarrow> bool \<Rightarrow> fpath \<Rightarrow> bytes list list \<Rightarrow> fs \<Rightarrow> ((xfer_error + unit) option \<times> bytes list list \<times> fs) outcome" where
  "receive_parallel H compress fips dest css f =
     (case read_chunk_infos 0 css of
        None \<Rightarrow> Return (None, [], f)
      | Some (Inl e) \<Rightarrow> Return (Some (Inl e), [], f)
      | Some (Inr []) \<Rightarrow> Panic
      | Some (Inr infos) \<Rightarrow>
          let out = path_join dest (snd (snd (hd infos))) in
          (case (case parent out of Some d \<Rightarrow> h_fs_err H (CreateDirAll d) | None \<Rightarrow> None) of
             Some e \<Rightarrow> Return (Some (Inl (Io e)), [], f)
           | None \<Rightarrow>
               (case h_fs_err H (OpenWrite out) of
                  Some e \<Rightarrow> Return (Some (Inl (Io e)), [], f)
                | None \<Rightarrow>
                    let f1 = fs_open True out f in
                    (case h_fs_err H (SetLen out) of
                       Some e \<Rightarrow> Return (Some (Inl (Io e)), [], f1)
                     | None \<Rightarrow>
                         Return (receive_chunks H compress fips 0 out (zip (map tl css) infos)
                           (f1(out \<mapsto> replicate (unat (total_size infos)) 0)))))))"

section \<open>The receiver\<close>

text \<open>A receiver whose chunk streams do not carry all they announce is left \<open>InChunks\<close>, where only the end of the connection reaches it.\<close>

datatype rx_pc = AwaitHello | InRound bool | InFile bool rx_file | AwaitChunks bool nat | InChunks | RxStopped "xfer_error + unit" | RxPanicked

definition first_or_0 :: "bytes \<Rightarrow> u8" where
  "first_or_0 b = (case b of [] \<Rightarrow> 0 | x # _ \<Rightarrow> x)"

definition round_frame ::
  "host \<Rightarrow> fpath \<Rightarrow> bool \<Rightarrow> bool \<Rightarrow> nat option \<Rightarrow> bool \<Rightarrow> bytes \<Rightarrow> fs \<Rightarrow> rx_pc \<times> msg list \<times> fs" where
  "round_frame H dest fips once idx compress fr f =
     (if fr = [] then (RxStopped (Inl EmptyFrame), [], f)
      else if hd fr = FILE_INFO
      then (case receive_file_begin H dest fips idx fr f of
              (sent, Inl e, f') \<Rightarrow> (RxStopped (Inl e), sent, f')
            | (sent, Inr rf, f') \<Rightarrow> (InFile compress rf, sent, f'))
      else if hd fr = PARALLEL_INIT
      then if length fr < 2 then (RxStopped (Inl ParallelInitTooShort), [], f)
           else (AwaitChunks compress (unat (fr ! 1)), [], f)
      else if hd fr = DONE then (if once then RxStopped (Inr ()) else AwaitHello, [], f)
      else (RxStopped (Inl (UnexpectedFrame (hd fr))), [], f))"

definition file_frame :: "host \<Rightarrow> nat option \<Rightarrow> bool \<Rightarrow> rx_file \<Rightarrow> bytes \<Rightarrow> fs \<Rightarrow> rx_pc \<times> msg list \<times> fs" where
  "file_frame H idx compress rf fr f =
     (if rf_received rf < rf_size rf
      then (case receive_file_data H compress rf fr f of
              (Inl e, f') \<Rightarrow> (RxStopped (Inl e), [], f')
            | (Inr rf', f') \<Rightarrow> (InFile compress rf', [], f'))
      else (case receive_file_checksum H idx rf fr f of
              (sent, Inl e, f') \<Rightarrow> (RxStopped (Inl e), sent, f')
            | (sent, Inr _, f') \<Rightarrow> (InRound compress, sent, f')))"

text \<open>One message; a receiver that waits for another kind goes on waiting.\<close>

definition recv_msg ::
  "host \<Rightarrow> fpath \<Rightarrow> bool \<Rightarrow> bool \<Rightarrow> nat option \<Rightarrow> rx_pc \<Rightarrow> msg \<Rightarrow> fs \<Rightarrow> rx_pc \<times> msg list \<times> fs" where
  "recv_msg H dest fips once idx pc m f =
     (case (pc, m) of
        (AwaitHello, Ctrl fr) \<Rightarrow>
          if fr \<noteq> [] \<and> hd fr = BYE then (RxStopped (Inr ()), [], f)
          else if fr = [] \<or> hd fr \<noteq> HELLO then (RxStopped (Inl (ExpectedHello (first_or_0 fr))), [], f)
          else (InRound (length fr > 1 \<and> fr ! 1 = COMPRESS_ZSTD), [Ctrl [ACK]], f)
      | (InRound compress, Ctrl fr) \<Rightarrow> round_frame H dest fips once idx compress fr f
      | (InFile compress rf, Ctrl fr) \<Rightarrow> file_frame H idx compress rf fr f
      | (AwaitChunks compress n, Chunks css) \<Rightarrow>
          (case (if length css < n then Return (None, [], f) else receive_parallel H compress fips dest (take n css) f) of
             Panic \<Rightarrow> (RxPanicked, [], f)
           | Return (None, acks, f') \<Rightarrow> (InChunks, [Chunks acks], f')
           | Return (Some (Inl e), acks, f') \<Rightarrow> (RxStopped (Inl e), [Chunks acks], f')
           | Return (Some (Inr _), acks, f') \<Rightarrow> (InRound compress, [Chunks acks], f'))
      | (AwaitHello, Hangup) \<Rightarrow> (RxStopped (Inr ()), [], f)
      | (InRound _, Hangup) \<Rightarrow> (RxStopped (Inl ConnectionClosed), [], f)
      | (InFile _ _, Hangup) \<Rightarrow> (RxStopped (Inl ConnectionClosed), [], f)
      | (AwaitChunks _ _, Hangup) \<Rightarrow> (RxStopped (Inl ConnectionClosed), [], f)
      | (InChunks, Hangup) \<Rightarrow> (RxStopped (Inl ConnectionClosed), [], f)
      | _ \<Rightarrow> (pc, [], f))"

section \<open>Sending\<close>

definition CHUNK :: nat where "CHUNK = 32 * 1024"

definition pack :: "host \<Rightarrow> bool \<Rightarrow> bytes \<Rightarrow> xfer_error + bytes" where
  "pack H compress raw =
     (if compress then (case h_zstd_encode H raw of Inl e \<Rightarrow> Inl (Zstd e) | Inr b \<Rightarrow> Inr b) else Inr raw)"

definition file_info_frame :: "bytes \<Rightarrow> u64 \<Rightarrow> bytes" where
  "file_info_frame name fsize = FILE_INFO # u64_to_be fsize @ u16_to_be (of_nat (length name)) @ name @ u32_to_be 0"

text \<open>The frames of the loop and, unless it fails, the hasher; \<open>avail\<close> is what there is to read, of which each read returns as much as
  fits the buffer.\<close>

function send_loop ::
  "host \<Rightarrow> bool \<Rightarrow> u64 \<Rightarrow> u64 \<Rightarrow> bytes \<Rightarrow> hasher \<Rightarrow> bytes list \<times> (xfer_error + hasher)" where
  "send_loop H compress sent fsize avail h =
     (if sent < fsize \<and> avail \<noteq> []
      then let raw = take CHUNK avail in
           (case pack H compress raw of
              Inl e \<Rightarrow> ([], Inl e)
            | Inr payload \<Rightarrow>
                (case send_loop H compress (sent + of_nat (length raw)) fsize (drop CHUNK avail) (hasher_update raw h) of
                   (frs, r) \<Rightarrow> ((DATA # payload) # frs, r)))
      else ([], Inr h))"
  by pat_completeness auto

termination by (relation "measure (\<lambda>(_, _, _, _, avail, _). length avail)") (auto simp: CHUNK_def)

declare send_loop.simps [simp del]

definition send_body :: "host \<Rightarrow> bool \<Rightarrow> bool \<Rightarrow> u64 \<Rightarrow> u64 \<Rightarrow> bytes \<Rightarrow> bytes list \<times> xfer_error option" where
  "send_body H compress fips sent fsize avail =
     (case send_loop H compress sent fsize avail (hasher_new fips) of
        (frs, Inl e) \<Rightarrow> (frs, Some e)
      | (frs, Inr h) \<Rightarrow> (frs @ [CHECKSUM # hasher_finalize H h], None))"

text \<open>Where the sender waits: for the reply to its greeting, for the position to resume from, for the reply to a file, for those of the chunks.\<close>

datatype tx_pc =
    AwaitHelloAck | AwaitResume "bytes \<times> bytes" "(bytes \<times> bytes) list" | AwaitReply bytes "(bytes \<times> bytes) list"
  | AwaitChunkAcks nat | TxStopped "xfer_error + unit"

definition send_rest :: "host \<Rightarrow> bool \<Rightarrow> bool \<Rightarrow> u64 \<Rightarrow> bytes \<times> bytes \<Rightarrow> (bytes \<times> bytes) list \<Rightarrow> tx_pc \<times> msg list" where
  "send_rest H compress fips sent file_entry rest =
     (case file_entry of (name, content) \<Rightarrow>
        (case send_body H compress fips sent (of_nat (length content)) (drop (unat sent) content) of
           (frs, Some e) \<Rightarrow> (TxStopped (Inl e), map Ctrl frs)
         | (frs, None) \<Rightarrow> (AwaitReply name rest, map Ctrl frs)))"

fun send_files :: "host \<Rightarrow> bool \<Rightarrow> bool \<Rightarrow> bool \<Rightarrow> (bytes \<times> bytes) list \<Rightarrow> tx_pc \<times> msg list" where
  "send_files H compress resume fips [] = (TxStopped (Inr ()), [Ctrl [DONE]])"
| "send_files H compress resume fips ((name, content) # rest) =
     (let info = file_info_frame name (of_nat (length content)) in
      case h_fs_err H (Metadata name) of
        Some e \<Rightarrow> (TxStopped (Inl (Io e)), [])
      | None \<Rightarrow>
          (case h_fs_err H (OpenRead name) of
             Some e \<Rightarrow> (TxStopped (Inl (Io e)), [Ctrl info])
           | None \<Rightarrow>
               if resume then (AwaitResume (name, content) rest, [Ctrl info])
               else (case send_rest H compress fips 0 (name, content) rest of (pc, ms) \<Rightarrow> (pc, Ctrl info # ms))))"

text \<open>A file of \<open>n\<close> chunks; each chunk stream carries its header, its data and its checksum.\<close>

definition chunk_info_frame :: "u8 \<Rightarrow> u8 \<Rightarrow> u64 \<Rightarrow> u64 \<Rightarrow> bytes \<Rightarrow> bytes" where
  "chunk_info_frame i n offset chunk_size name =
     CHUNK_INFO # i # n # u64_to_be offset @ u64_to_be chunk_size @ u16_to_be (of_nat (length name)) @ name"

definition chunk_bounds :: "nat \<Rightarrow> nat \<Rightarrow> nat \<Rightarrow> u64 \<times> u64" where
  "chunk_bounds fsize n i =
     (let chunk_size = of_nat ((fsize + n - 1) div n) :: u64; offset = of_nat i * chunk_size
      in (offset, min chunk_size (sat_sub (of_nat fsize) offset)))"

fun send_chunks :: "host \<Rightarrow> bool \<Rightarrow> bool \<Rightarrow> bytes \<Rightarrow> bytes \<Rightarrow> nat \<Rightarrow> nat list \<Rightarrow> bytes list list \<times> xfer_error option" where
  "send_chunks H compress fips name content n [] = ([], None)"
| "send_chunks H compress fips name content n (i # is) =
     (case chunk_bounds (length content) n i of (offset, this_chunk) \<Rightarrow>
        let info = chunk_info_frame (of_nat i) (of_nat n) offset this_chunk name in
        case h_fs_err H (OpenRead name) of
          Some e \<Rightarrow> ([[info]], Some (Io e))
        | None \<Rightarrow>
            (case send_body H compress fips 0 this_chunk (slice content (unat offset) (unat offset + unat this_chunk)) of
               (frs, Some e) \<Rightarrow> ([info # frs], Some e)
             | (frs, None) \<Rightarrow>
                 (case send_chunks H compress fips name content n is of (css, r) \<Rightarrow> ((info # frs) # css, r))))"

definition send_file_parallel :: "host \<Rightarrow> bool \<Rightarrow> bool \<Rightarrow> bytes \<Rightarrow> bytes \<Rightarrow> nat \<Rightarrow> tx_pc \<times> msg list" where
  "send_file_parallel H compress fips name content parallel =
     (let n = max 1 (min 8 parallel) in
      case h_fs_err H (Metadata name) of
        Some e \<Rightarrow> (TxStopped (Inl (Io e)), [])
      | None \<Rightarrow>
          (case send_chunks H compress fips name content n [0..<n] of
             (css, Some e) \<Rightarrow> (TxStopped (Inl e), [Ctrl [PARALLEL_INIT, of_nat n], Chunks css])
           | (css, None) \<Rightarrow> (AwaitChunkAcks n, [Ctrl [PARALLEL_INIT, of_nat n], Chunks css])))"

definition push_start :: "bool \<Rightarrow> tx_pc \<times> msg list" where
  "push_start compress = (AwaitHelloAck, [Ctrl [HELLO, if compress then COMPRESS_ZSTD else COMPRESS_NONE]])"

definition is_ack :: "bytes \<Rightarrow> bool" where
  "is_ack fr \<longleftrightarrow> fr \<noteq> [] \<and> hd fr = ACK"

definition resume_offset :: "u64 \<Rightarrow> bytes \<Rightarrow> u64" where
  "resume_offset fsize resp =
     (if resp \<noteq> [] \<and> hd resp = RESUME \<and> length resp \<ge> 9
      then let offset = of_be (slice resp 1 9) in if offset > 0 \<and> offset < fsize then offset else 0
      else 0)"

definition push_msg ::
  "host \<Rightarrow> bool \<Rightarrow> bool \<Rightarrow> nat \<Rightarrow> bool \<Rightarrow> (bytes \<times> bytes) list \<Rightarrow> tx_pc \<Rightarrow> msg \<Rightarrow> tx_pc \<times> msg list" where
  "push_msg H compress resume parallel fips files pc m =
     (case (pc, m) of
        (AwaitHelloAck, Ctrl fr) \<Rightarrow>
          if \<not> is_ack fr then (TxStopped (Inl ExpectedAck), [])
          else if parallel > 1 \<and> length files = 1
          then send_file_parallel H compress fips (fst (hd files)) (snd (hd files)) parallel
          else send_files H compress resume fips files
      | (AwaitResume (name, content) rest, Ctrl fr) \<Rightarrow>
          send_rest H compress fips (resume_offset (of_nat (length content)) fr) (name, content) rest
      | (AwaitReply name rest, Ctrl fr) \<Rightarrow>
          if \<not> is_ack fr then (TxStopped (Inl (ReceiverMismatch name)), []) else send_files H compress resume fips rest
      | (AwaitChunkAcks n, Chunks css) \<Rightarrow>
          if \<forall>frs \<in> set css. frs \<noteq> [] \<and> is_ack (hd frs)
          then if length css < n then (AwaitChunkAcks n, []) else (TxStopped (Inr ()), [Ctrl [DONE]])
          else (TxStopped (Inl ParallelChunkFailed), [])
      | (TxStopped _, _) \<Rightarrow> (pc, [])
      | (_, Hangup) \<Rightarrow> (TxStopped (Inl ConnectionClosed), [])
      | _ \<Rightarrow> (pc, []))"

end
