(* ===== verification/Duplex.thy ===== *)
theory Duplex
  imports Main
begin

text \<open>
  Two programs that talk over a connection, each cut where it waits for a frame: a program is a function from its state and the
  frame it gets to its new state and the frames it sends, and the connection is a queue in either direction. Steps of the two sides commute, so if one run
  ends then every run ends, in the same state. \<^verbatim>\<open>Dir_Sync_Facts\<close> uses this for the two ends of a synchronisation.
\<close>

section \<open>Runs with commuting steps\<close>

lemma diamond_step:
  assumes diamond: "\<forall>a b c. r a b \<longrightarrow> r a c \<longrightarrow> b = c \<or> (\<exists>d. r b d \<and> r c d)"
    and normal: "\<forall>b. \<not> r n b" and "(r ^^ k) a n" and "r a b"
  shows "\<exists>k'. k = Suc k' \<and> (r ^^ k') b n"
  using assms(3,4)
proof (induction k arbitrary: a b)
  case 0
  then show ?case using normal by simp
next
  case (Suc k)
  obtain c where c: "r a c" "(r ^^ k) c n" using relpowp_Suc_D2 [OF Suc.prems(1)] by blast
  show ?case
  proof (cases "b = c")
    case False
    then obtain d where d: "r b d" "r c d" using diamond Suc.prems(2) c(1) by blast
    then obtain k' where "k = Suc k'" "(r ^^ k') d n" using Suc.IH [OF c(2)] by blast
    with d(1) show ?thesis by (metis relpowp_Suc_I2)
  qed (use c in simp)
qed

text \<open>If the steps of a system commute and one run ends, then every run ends, in the same state after as many steps.\<close>

lemma diamond_runs:
  assumes diamond: "\<forall>a b c. r a b \<longrightarrow> r a c \<longrightarrow> b = c \<or> (\<exists>d. r b d \<and> r c d)"
    and normal: "\<forall>b. \<not> r n b" and "(r ^^ k) a n" and "(r ^^ j) a b"
  shows "j \<le> k \<and> (r ^^ (k - j)) b n"
  using assms(4)
proof (induction j arbitrary: b)
  case 0
  then show ?case using assms(3) by simp
next
  case (Suc j)
  obtain c where c: "(r ^^ j) a c" "r c b" using Suc.prems by auto
  from Suc.IH [OF c(1)] diamond_step [OF diamond normal _ c(2)] obtain k' where "k - j = Suc k'" "(r ^^ k') b n" "j \<le> k" by blast
  moreover have "k - Suc j = k'" using \<open>k - j = Suc k'\<close> by simp
  ultimately show ?case by simp
qed

section \<open>Two programs and two queues\<close>

record ('l, 'r, 'm) duplex =
  d_left :: 'l
  d_right :: 'r
  d_to_right :: "'m list"
  d_to_left :: "'m list"

inductive duplex_step ::
  "('l \<Rightarrow> 'm \<Rightarrow> 'l \<times> 'm list) \<Rightarrow> ('r \<Rightarrow> 'm \<Rightarrow> 'r \<times> 'm list) \<Rightarrow> ('l, 'r, 'm) duplex \<Rightarrow> ('l, 'r, 'm) duplex \<Rightarrow> bool" for L R where
  right_step: "d_to_right s = m # ms \<Longrightarrow> R (d_right s) m = (r, out) \<Longrightarrow>
    duplex_step L R s (s\<lparr>d_right := r, d_to_right := ms, d_to_left := d_to_left s @ out\<rparr>)"
| left_step: "d_to_left s = m # ms \<Longrightarrow> L (d_left s) m = (l, out) \<Longrightarrow>
    duplex_step L R s (s\<lparr>d_left := l, d_to_left := ms, d_to_right := d_to_right s @ out\<rparr>)"

lemma duplex_commute:
  assumes "d_to_right a = m # ms" and "R (d_right a) m = (r, out)" and "d_to_left a = m' # ms'" and "L (d_left a) m' = (l, out')"
  shows "\<exists>d. duplex_step L R (a\<lparr>d_right := r, d_to_right := ms, d_to_left := d_to_left a @ out\<rparr>) d \<and>
    duplex_step L R (a\<lparr>d_left := l, d_to_left := ms', d_to_right := d_to_right a @ out'\<rparr>) d"
proof (intro exI conjI)
  let ?b = "a\<lparr>d_right := r, d_to_right := ms, d_to_left := d_to_left a @ out\<rparr>"
  let ?c = "a\<lparr>d_left := l, d_to_left := ms', d_to_right := d_to_right a @ out'\<rparr>"
  let ?d = "a\<lparr>d_left := l, d_right := r, d_to_right := ms @ out', d_to_left := ms' @ out\<rparr>"
  show "duplex_step L R ?b ?d" using left_step [of ?b m' "ms' @ out" L l out' R] assms by (cases a) simp
  show "duplex_step L R ?c ?d" using right_step [of ?c m "ms @ out'" R r out L] assms by (cases a) simp
qed

lemma duplex_diamond:
  "\<forall>a b c. duplex_step L R a b \<longrightarrow> duplex_step L R a c \<longrightarrow> b = c \<or> (\<exists>d. duplex_step L R b d \<and> duplex_step L R c d)"
proof (intro allI impI)
  fix a b c assume ab: "duplex_step L R a b" and ac: "duplex_step L R a c"
  from ab show "b = c \<or> (\<exists>d. duplex_step L R b d \<and> duplex_step L R c d)"
  proof (cases rule: duplex_step.cases)
    case (right_step m ms r out)
    with ac show ?thesis by (cases rule: duplex_step.cases) (use duplex_commute [where R = R and L = L, OF right_step(2,3)] in auto)
  next
    case (left_step m ms l out)
    from ac show ?thesis
    proof (cases rule: duplex_step.cases)
      case (right_step m ms r out)
      with duplex_commute [where R = R and L = L, OF right_step(2,3) left_step(2,3)] left_step(1) show ?thesis by blast
    qed (use left_step in auto)
  qed
qed

text \<open>Every run reaches the state \<open>n\<close>, after the same number of steps, and stops there.\<close>

definition ends_in ::
  "('l \<Rightarrow> 'm \<Rightarrow> 'l \<times> 'm list) \<Rightarrow> ('r \<Rightarrow> 'm \<Rightarrow> 'r \<times> 'm list) \<Rightarrow> ('l, 'r, 'm) duplex \<Rightarrow> ('l, 'r, 'm) duplex \<Rightarrow> bool" where
  "ends_in L R a n \<longleftrightarrow> (\<forall>b. \<not> duplex_step L R n b) \<and>
     (\<exists>k. \<forall>j b. (duplex_step L R ^^ j) a b \<longrightarrow> j \<le> k \<and> (duplex_step L R ^^ (k - j)) b n)"

definition reaches ::
  "('l \<Rightarrow> 'm \<Rightarrow> 'l \<times> 'm list) \<Rightarrow> ('r \<Rightarrow> 'm \<Rightarrow> 'r \<times> 'm list) \<Rightarrow> ('l, 'r, 'm) duplex \<Rightarrow> ('l, 'r, 'm) duplex \<Rightarrow> bool" where
  "reaches L R a b \<longleftrightarrow> (duplex_step L R)\<^sup>*\<^sup>* a b"

lemma ends_inI: "reaches L R a n \<Longrightarrow> d_to_right n = [] \<Longrightarrow> d_to_left n = [] \<Longrightarrow> ends_in L R a n"
proof -
  assume "reaches L R a n" and idle: "d_to_right n = []" "d_to_left n = []"
  then obtain k where k: "(duplex_step L R ^^ k) a n" by (auto simp: reaches_def dest: rtranclp_imp_relpowp)
  have normal: "\<forall>b. \<not> duplex_step L R n b" using idle by (auto elim: duplex_step.cases)
  have "\<forall>j b. (duplex_step L R ^^ j) a b \<longrightarrow> j \<le> k \<and> (duplex_step L R ^^ (k - j)) b n"
    using diamond_runs [OF duplex_diamond normal k] by blast
  with normal show ?thesis unfolding ends_in_def by blast
qed

lemma reaches_refl [simp]: "reaches L R a a" by (simp add: reaches_def)

lemma reaches_trans: "reaches L R a b \<Longrightarrow> reaches L R b c \<Longrightarrow> reaches L R a c" by (simp add: reaches_def)

text \<open>A program that takes the frames that wait for it, one after the other.\<close>

fun feed_all_frames :: "('s \<Rightarrow> 'm \<Rightarrow> 's \<times> 'm list) \<Rightarrow> 's \<Rightarrow> 'm list \<Rightarrow> 's \<times> 'm list" where
  "feed_all_frames P s [] = (s, [])"
| "feed_all_frames P s (m # ms) = (case P s m of (s1, out1) \<Rightarrow> (case feed_all_frames P s1 ms of (s2, out2) \<Rightarrow> (s2, out1 @ out2)))"

lemma feed_all_frames_append:
  "feed_all_frames P s (ms @ ms') =
     (case feed_all_frames P s ms of (s1, out1) \<Rightarrow> (case feed_all_frames P s1 ms' of (s2, out2) \<Rightarrow> (s2, out1 @ out2)))"
  by (induction ms arbitrary: s) (simp_all split: prod.splits)

lemma reaches_right:
  assumes "feed_all_frames R r ms = (r', out)"
  shows "reaches L R \<lparr>d_left = l, d_right = r, d_to_right = ms @ rest, d_to_left = u\<rparr>
    \<lparr>d_left = l, d_right = r', d_to_right = rest, d_to_left = u @ out\<rparr>"
  using assms
proof (induction ms arbitrary: r out u)
  case (Cons m ms)
  obtain r1 out1 out2 where one: "R r m = (r1, out1)" "feed_all_frames R r1 ms = (r', out2)" "out = out1 @ out2"
    using Cons.prems by (auto split: prod.splits)
  have "duplex_step L R \<lparr>d_left = l, d_right = r, d_to_right = (m # ms) @ rest, d_to_left = u\<rparr>
      \<lparr>d_left = l, d_right = r1, d_to_right = ms @ rest, d_to_left = u @ out1\<rparr>"
    using right_step [of "\<lparr>d_left = l, d_right = r, d_to_right = (m # ms) @ rest, d_to_left = u\<rparr>" m "ms @ rest"] one(1) by simp
  with Cons.IH [OF one(2), of "u @ out1"] one(3) show ?case
    unfolding reaches_def by (metis append.assoc converse_rtranclp_into_rtranclp)
qed simp

lemma reaches_left:
  assumes "feed_all_frames L l ms = (l', out)"
  shows "reaches L R \<lparr>d_left = l, d_right = r, d_to_right = d, d_to_left = ms @ rest\<rparr>
    \<lparr>d_left = l', d_right = r, d_to_right = d @ out, d_to_left = rest\<rparr>"
  using assms
proof (induction ms arbitrary: l out d)
  case (Cons m ms)
  obtain l1 out1 out2 where one: "L l m = (l1, out1)" "feed_all_frames L l1 ms = (l', out2)" "out = out1 @ out2"
    using Cons.prems by (auto split: prod.splits)
  have "duplex_step L R \<lparr>d_left = l, d_right = r, d_to_right = d, d_to_left = (m # ms) @ rest\<rparr>
      \<lparr>d_left = l1, d_right = r, d_to_right = d @ out1, d_to_left = ms @ rest\<rparr>"
    using left_step [of "\<lparr>d_left = l, d_right = r, d_to_right = d, d_to_left = (m # ms) @ rest\<rparr>" m "ms @ rest"] one(1) by simp
  with Cons.IH [OF one(2), of "d @ out1"] one(3) show ?case
    unfolding reaches_def by (metis append.assoc converse_rtranclp_into_rtranclp)
qed simp

text \<open>The two directions are alike.\<close>

definition mirror :: "('l, 'r, 'm) duplex \<Rightarrow> ('r, 'l, 'm) duplex" where
  "mirror s = \<lparr>d_left = d_right s, d_right = d_left s, d_to_right = d_to_left s, d_to_left = d_to_right s\<rparr>"

lemma mirror_step: "duplex_step L R a b \<Longrightarrow> duplex_step R L (mirror a) (mirror b)"
proof (induction rule: duplex_step.induct)
  case (right_step s m ms r out)
  then show ?case using left_step [of "mirror s" m ms R r out L] by (cases s) (simp add: mirror_def)
next
  case (left_step s m ms l out)
  then show ?case using right_step [of "mirror s" m ms L l out R] by (cases s) (simp add: mirror_def)
qed

lemma mirror_reaches: "reaches L R a b \<Longrightarrow> reaches R L (mirror a) (mirror b)"
  unfolding reaches_def by (induction rule: rtranclp_induct) (auto intro: rtranclp.rtrancl_into_rtrancl mirror_step)

section \<open>Items with acknowledgements\<close>

text \<open>
  A sender that sends one item after the other and waits for the acknowledgement of each. The contract: the receiver, idle, takes all the frames of an item that
  \<open>ok\<close> allows, applies the item and acknowledges it; the sender, on an acknowledgement, goes on with the next item or finishes.
\<close>

locale item_transfer =
  fixes sender :: "'l \<Rightarrow> 'm \<Rightarrow> 'l \<times> 'm list"
    and receiver :: "'r \<Rightarrow> 'm \<Rightarrow> 'r \<times> 'm list"
    and awaiting :: "'i \<Rightarrow> 'i list \<Rightarrow> 'l"
    and finished :: 'l
    and frames :: "'i \<Rightarrow> 'm list"
    and closing :: "'m list"
    and idle :: "'s \<Rightarrow> 'r"
    and ack :: 'm
    and apply_item :: "'i \<Rightarrow> 's \<Rightarrow> 's"
    and ok :: "'i \<Rightarrow> bool"
  assumes takes: "ok i \<Longrightarrow> feed_all_frames receiver (idle s) (frames i) = (idle (apply_item i s), [ack])"
    and goes_on: "ok j \<Longrightarrow> sender (awaiting i (j # js)) ack = (awaiting j js, frames j)"
    and finishes: "sender (awaiting i []) ack = (finished, closing)"
begin

lemma all_items:
  assumes "\<forall>j \<in> set (i # js). ok j"
  shows "reaches sender receiver \<lparr>d_left = awaiting i js, d_right = idle s, d_to_right = frames i, d_to_left = []\<rparr>
    \<lparr>d_left = finished, d_right = idle (fold apply_item (i # js) s), d_to_right = closing, d_to_left = []\<rparr>"
  using assms
proof (induction js arbitrary: i s)
  case Nil
  have "reaches sender receiver \<lparr>d_left = awaiting i [], d_right = idle s, d_to_right = frames i, d_to_left = []\<rparr>
      \<lparr>d_left = awaiting i [], d_right = idle (apply_item i s), d_to_right = [], d_to_left = [ack]\<rparr>"
    using reaches_right [OF takes, of i sender "awaiting i []" s "[]" "[]"] Nil by simp
  moreover have "reaches sender receiver \<lparr>d_left = awaiting i [], d_right = idle (apply_item i s), d_to_right = [], d_to_left = [ack]\<rparr>
      \<lparr>d_left = finished, d_right = idle (apply_item i s), d_to_right = closing, d_to_left = []\<rparr>"
    using reaches_left [of sender "awaiting i []" "[ack]" finished closing receiver "idle (apply_item i s)" "[]" "[]"] by (simp add: finishes)
  ultimately have "reaches sender receiver \<lparr>d_left = awaiting i [], d_right = idle s, d_to_right = frames i, d_to_left = []\<rparr>
      \<lparr>d_left = finished, d_right = idle (apply_item i s), d_to_right = closing, d_to_left = []\<rparr>"
    by (rule reaches_trans)
  then show ?case by simp
next
  case (Cons j js)
  have "reaches sender receiver \<lparr>d_left = awaiting i (j # js), d_right = idle s, d_to_right = frames i, d_to_left = []\<rparr>
      \<lparr>d_left = awaiting i (j # js), d_right = idle (apply_item i s), d_to_right = [], d_to_left = [ack]\<rparr>"
    using reaches_right [OF takes, of i sender "awaiting i (j # js)" s "[]" "[]"] Cons.prems by simp
  moreover have "reaches sender receiver \<lparr>d_left = awaiting i (j # js), d_right = idle (apply_item i s), d_to_right = [], d_to_left = [ack]\<rparr>
      \<lparr>d_left = awaiting j js, d_right = idle (apply_item i s), d_to_right = frames j, d_to_left = []\<rparr>"
    using reaches_left [of sender "awaiting i (j # js)" "[ack]" "awaiting j js" "frames j" receiver "idle (apply_item i s)" "[]" "[]"] Cons.prems
    by (simp add: goes_on)
  moreover have "reaches sender receiver \<lparr>d_left = awaiting j js, d_right = idle (apply_item i s), d_to_right = frames j, d_to_left = []\<rparr>
      \<lparr>d_left = finished, d_right = idle (fold apply_item (i # j # js) s), d_to_right = closing, d_to_left = []\<rparr>"
    using Cons.IH [of j "apply_item i s"] Cons.prems by simp
  ultimately show ?case by (blast intro: reaches_trans)
qed

end

end
