(* ===== verification/File_Transfer_Facts.thy ===== *)
theory File_Transfer_Facts
  imports File_Transfer Duplex
begin

text \<open>
  What the transfer of files guarantees: every run of sender and receiver against each other ends with the files in place; a
  receiver writes below its directory only. And what it does not: a resumed file is not checked before the point of resumption, a
  sender that offers to resume waits forever if there is nothing to resume, and a partial file makes an ordinary transfer
  put a wrong file into place.
\<close>

section \<open>Sender and receiver together\<close>

record push_cfg =
  pc_host :: host
  pc_dest :: fpath
  pc_fips :: bool
  pc_once :: bool
  pc_compress :: bool
  pc_resume :: bool
  pc_parallel :: nat
  pc_files :: "(bytes \<times> bytes) list"

record xfer =
  x_tx :: tx_pc
  x_rx :: rx_pc
  x_down :: "msg list"
  x_up :: "msg list"
  x_fs :: fs

abbreviation rx :: "push_cfg \<Rightarrow> rx_pc \<Rightarrow> msg \<Rightarrow> fs \<Rightarrow> rx_pc \<times> msg list \<times> fs" where
  "rx C \<equiv> recv_msg (pc_host C) (pc_dest C) (pc_fips C) (pc_once C) None"

abbreviation tx :: "push_cfg \<Rightarrow> tx_pc \<Rightarrow> msg \<Rightarrow> tx_pc \<times> msg list" where
  "tx C \<equiv> push_msg (pc_host C) (pc_compress C) (pc_resume C) (pc_parallel C) (pc_fips C) (pc_files C)"

inductive xfer_step :: "push_cfg \<Rightarrow> xfer \<Rightarrow> xfer \<Rightarrow> bool" for C where
  to_rx: "x_down s = m # ms \<Longrightarrow> rx C (x_rx s) m (x_fs s) = (pc, out, f) \<Longrightarrow>
    xfer_step C s (s\<lparr>x_rx := pc, x_down := ms, x_up := x_up s @ out, x_fs := f\<rparr>)"
| to_tx: "x_up s = m # ms \<Longrightarrow> tx C (x_tx s) m = (pc, out) \<Longrightarrow>
    xfer_step C s (s\<lparr>x_tx := pc, x_up := ms, x_down := x_down s @ out\<rparr>)"

inductive_cases xfer_stepE: "xfer_step C s t"

definition xfer_init :: "push_cfg \<Rightarrow> fs \<Rightarrow> xfer" where
  "xfer_init C f = \<lparr>x_tx = fst (push_start (pc_compress C)), x_rx = AwaitHello, x_down = snd (push_start (pc_compress C)), x_up = [], x_fs = f\<rparr>"

lemma xfer_commute:
  assumes "x_down a = m # ms" and "rx C (x_rx a) m (x_fs a) = (pc, out, f)" and "x_up a = m' # ms'" and "tx C (x_tx a) m' = (pc', out')"
  shows "\<exists>d. xfer_step C (a\<lparr>x_rx := pc, x_down := ms, x_up := x_up a @ out, x_fs := f\<rparr>) d \<and>
    xfer_step C (a\<lparr>x_tx := pc', x_up := ms', x_down := x_down a @ out'\<rparr>) d"
proof (intro exI conjI)
  let ?b = "a\<lparr>x_rx := pc, x_down := ms, x_up := x_up a @ out, x_fs := f\<rparr>"
  let ?c = "a\<lparr>x_tx := pc', x_up := ms', x_down := x_down a @ out'\<rparr>"
  let ?d = "a\<lparr>x_tx := pc', x_rx := pc, x_down := ms @ out', x_up := ms' @ out, x_fs := f\<rparr>"
  show "xfer_step C ?b ?d"
    using to_tx [of ?b m' "ms' @ out" C pc' out'] assms by (cases a) simp
  show "xfer_step C ?c ?d"
    using to_rx [of ?c m "ms @ out'" C pc out f] assms by (cases a) simp
qed

lemma xfer_diamond: "\<forall>a b c. xfer_step C a b \<longrightarrow> xfer_step C a c \<longrightarrow> b = c \<or> (\<exists>d. xfer_step C b d \<and> xfer_step C c d)"
proof (intro allI impI)
  fix a b c assume ab: "xfer_step C a b" and ac: "xfer_step C a c"
  from ab show "b = c \<or> (\<exists>d. xfer_step C b d \<and> xfer_step C c d)"
  proof (cases rule: xfer_step.cases)
    case (to_rx m ms pc out f)
    with ac show ?thesis by (cases rule: xfer_step.cases) (use xfer_commute [OF to_rx(2,3)] in auto)
  next
    case (to_tx m ms pc out)
    from ac show ?thesis
    proof (cases rule: xfer_step.cases)
      case (to_rx m ms pc out f)
      with xfer_commute [OF to_rx(2,3) to_tx(2,3)] to_tx(1) show ?thesis by blast
    qed (use to_tx in auto)
  qed
qed

text \<open>A receiver that takes the messages that wait for it, one after the other.\<close>

fun feed :: "push_cfg \<Rightarrow> rx_pc \<Rightarrow> msg list \<Rightarrow> fs \<Rightarrow> rx_pc \<times> msg list \<times> fs" where
  "feed C pc [] f = (pc, [], f)"
| "feed C pc (m # ms) f =
     (case rx C pc m f of (pc1, out1, f1) \<Rightarrow> (case feed C pc1 ms f1 of (pc2, out2, f2) \<Rightarrow> (pc2, out1 @ out2, f2)))"

lemma feed_append:
  "feed C pc (ms @ ms') f =
     (case feed C pc ms f of (pc1, out1, f1) \<Rightarrow> (case feed C pc1 ms' f1 of (pc2, out2, f2) \<Rightarrow> (pc2, out1 @ out2, f2)))"
  by (induction ms arbitrary: pc f) (simp_all split: prod.splits)

lemma feed_steps:
  assumes "x_down s = ms @ rest" and "feed C (x_rx s) ms (x_fs s) = (pc, out, f)"
  shows "(xfer_step C ^^ length ms) s (s\<lparr>x_rx := pc, x_down := rest, x_up := x_up s @ out, x_fs := f\<rparr>)"
  using assms
proof (induction ms arbitrary: s out)
  case (Cons m ms)
  obtain pc1 out1 f1 out2 where one: "rx C (x_rx s) m (x_fs s) = (pc1, out1, f1)" and two: "feed C pc1 ms f1 = (pc, out2, f)"
    and out: "out = out1 @ out2" using Cons.prems(2) by (auto split: prod.splits)
  let ?s = "s\<lparr>x_rx := pc1, x_down := ms @ rest, x_up := x_up s @ out1, x_fs := f1\<rparr>"
  have "xfer_step C s ?s" using Cons.prems(1) one by (intro to_rx) simp_all
  moreover have "(xfer_step C ^^ length ms) ?s (?s\<lparr>x_rx := pc, x_down := rest, x_up := x_up ?s @ out2, x_fs := f\<rparr>)"
    by (rule Cons.IH) (simp_all add: two)
  ultimately have "(xfer_step C ^^ Suc (length ms)) s (?s\<lparr>x_rx := pc, x_down := rest, x_up := x_up ?s @ out2, x_fs := f\<rparr>)"
    by (rule relpowp_Suc_I2)
  with out show ?case by (simp del: relpowp.simps)
qed simp

section \<open>One file\<close>

text \<open>What the transfer relies on: no call of the operating system fails, digests have 32 bytes, and compression can be undone.\<close>

definition host_ok :: "push_cfg \<Rightarrow> bool" where
  "host_ok C \<longleftrightarrow> (\<forall>c. h_fs_err (pc_host C) c = None) \<and>
     (\<forall>b. length (h_blake3 (pc_host C) b) = 32 \<and> length (h_sha256 (pc_host C) b) = 32) \<and>
     (pc_compress C \<longrightarrow> (\<forall>b. \<exists>z. h_zstd_encode (pc_host C) b = Inr z \<and> h_zstd_decode (pc_host C) z = Inr b))"

definition good_file :: "bytes \<times> bytes \<Rightarrow> bool" where
  "good_file e \<longleftrightarrow> utf8_valid (fst e) \<and> \<not> dangerous (fst e) \<and> length (fst e) < 2 ^ 16 \<and> length (snd e) < 2 ^ 64"

abbreviation out_of :: "push_cfg \<Rightarrow> bytes \<Rightarrow> fpath" where
  "out_of C name \<equiv> path_join (pc_dest C) name"

abbreviation part_of :: "push_cfg \<Rightarrow> bytes \<Rightarrow> fpath" where
  "part_of C name \<equiv> partial_path (out_of C name) None"

definition rx_at :: "push_cfg \<Rightarrow> bytes \<Rightarrow> u64 \<Rightarrow> u64 \<Rightarrow> rx_file" where
  "rx_at C name fsize from =
     \<lparr>rf_name = name, rf_size = fsize, rf_out = out_of C name, rf_partial = part_of C name, rf_pos = unat from, rf_received = from,
      rf_hasher = hasher_new (pc_fips C)\<rparr>"

lemma partial_neq [simp]: "partial_path out idx \<noteq> out"
proof -
  have "with_suffix out ext \<noteq> out" if "ext \<noteq> []" for ext
    using that by (cases out rule: rev_cases) (auto simp: with_suffix_def)
  then show ?thesis by (simp add: partial_path_def as_bytes_def)
qed

lemma parse_info:
  assumes "good_file (name, content)"
  shows "parse_file_info (file_info_frame name (of_nat (length content))) = Inr (of_nat (length content), name)"
proof -
  let ?fr = "file_info_frame name (of_nat (length content))"
  have "slice ?fr 1 9 = u64_to_be (of_nat (length content))" "slice ?fr 9 11 = u16_to_be (of_nat (length name))"
    "slice ?fr 11 (11 + length name) = name"
    by (simp_all add: slice_def file_info_frame_def)
  moreover have "length ?fr = 15 + length name" by (simp add: file_info_frame_def)
  moreover have "unat (of_nat (length name) :: u16) = length name" using assms by (simp add: good_file_def unat_of_nat_id)
  ultimately show ?thesis using assms by (simp add: parse_file_info_def good_file_def Let_def codec_simps)
qed

lemma begin_fresh:
  assumes "host_ok C" and "good_file (name, content)" and "f (part_of C name) = None"
  shows "receive_file_begin (pc_host C) (pc_dest C) (pc_fips C) None (file_info_frame name (of_nat (length content))) f =
    ([], Inr (rx_at C name (of_nat (length content)) 0), f(part_of C name \<mapsto> []))"
  using assms parse_info [OF assms(2)]
  by (simp add: receive_file_begin_def host_ok_def rx_at_def Let_def fs_open_def fs_remove_def split: option.split)

lemma begin_partial:
  assumes "host_ok C" and "good_file (name, content)" and "f (part_of C name) = Some p" and "p \<noteq> []" and "length p < length content"
  shows "receive_file_begin (pc_host C) (pc_dest C) (pc_fips C) None (file_info_frame name (of_nat (length content))) f =
    ([Ctrl (RESUME # u64_to_be (of_nat (length p)))], Inr (rx_at C name (of_nat (length content)) (of_nat (length p))), f)"
proof -
  have "unat (of_nat (length p) :: u64) = length p" "unat (of_nat (length content) :: u64) = length content"
    using assms(2,5) by (simp_all add: good_file_def unat_of_nat_id)
  then have "(of_nat (length p) :: u64) > 0" "(of_nat (length p) :: u64) < of_nat (length content)"
    using assms(4,5) by (simp_all add: word_less_nat_alt)
  moreover from this have "(of_nat (length p) :: u64) \<noteq> 0" by auto
  moreover have "f(part_of C name \<mapsto> p) = f" using assms(3) by auto
  ultimately show ?thesis using assms(1,3) parse_info [OF assms(2)]
    by (simp add: receive_file_begin_def host_ok_def rx_at_def Let_def fs_open_def split: option.split)
qed

lemma pack_unpack:
  assumes "host_ok C"
  obtains z where "pack (pc_host C) (pc_compress C) raw = Inr z" and "unpack (pc_host C) (pc_compress C) z = Inr raw"
proof (cases "pc_compress C")
  case True
  then obtain z where "h_zstd_encode (pc_host C) raw = Inr z" "h_zstd_decode (pc_host C) z = Inr raw"
    using assms by (simp add: host_ok_def) blast
  with True that [of z] show thesis by (simp add: pack_def unpack_def)
qed (use that [of raw] in \<open>simp add: pack_def unpack_def\<close>)

text \<open>One turn of the sender's loop.\<close>

lemma send_loop_turn:
  assumes "host_ok C" and "unat sent + length avail = unat fsize" and "avail \<noteq> []"
    and "send_loop (pc_host C) (pc_compress C) sent fsize avail h = (frs, r)"
  obtains z frs' where "frs = (DATA # z) # frs'" and "unpack (pc_host C) (pc_compress C) z = Inr (take CHUNK avail)"
    and "send_loop (pc_host C) (pc_compress C) (sent + of_nat (length (take CHUNK avail))) fsize (drop CHUNK avail) (hasher_update (take CHUNK avail) h) = (frs', r)"
    and "sent < fsize" and "unat (sent + of_nat (length (take CHUNK avail))) + length (drop CHUNK avail) = unat fsize"
    and "length (drop CHUNK avail) < length avail"
proof -
  let ?raw = "take CHUNK avail" and ?n = "length (take CHUNK avail)"
  have pos: "0 < length avail" "0 < CHUNK" using assms(3) by (simp_all add: CHUNK_def)
  then have lt: "sent < fsize" using assms(2) unfolding word_less_nat_alt by linarith
  have n: "?n \<le> length avail" "length (drop CHUNK avail) < length avail" using pos by auto
  have "unat (of_nat ?n :: u64) = ?n" by (rule unat_of_nat_id) (use n(1) assms(2) unsigned_less [of fsize, where 'a = nat] in simp)
  then have sum: "unat (sent + of_nat ?n) = unat sent + ?n"
    using n(1) assms(2) unsigned_less [of fsize, where 'a = nat] by (subst unat_add_lem [THEN iffD1]) simp_all
  obtain z where z: "pack (pc_host C) (pc_compress C) ?raw = Inr z" "unpack (pc_host C) (pc_compress C) z = Inr ?raw"
    by (rule pack_unpack [OF assms(1)])
  obtain frs' r' where rec: "send_loop (pc_host C) (pc_compress C) (sent + of_nat ?n) fsize (drop CHUNK avail) (hasher_update ?raw h) = (frs', r')"
    by fastforce
  have "frs = (DATA # z) # frs'" "r = r'"
    using assms(3,4) lt z rec by (simp_all add: send_loop.simps [of _ _ sent])
  moreover have "unat (sent + of_nat ?n) + length (drop CHUNK avail) = unat fsize" using sum assms(2) by simp
  ultimately show thesis using that z(2) rec lt n(2) by blast
qed

text \<open>What the sender's loop sends, the receiver appends to the file it is writing.\<close>

lemma send_loop_feed:
  assumes "host_ok C" and "rf_received rf = sent" and "rf_size rf = fsize" and "unat sent + length avail = unat fsize"
    and "f (rf_partial rf) = Some old" and "length old = rf_pos rf"
    and "send_loop (pc_host C) (pc_compress C) sent fsize avail h = (frs, r)"
  shows "r = Inr (hasher_update avail h) \<and> feed C (InFile (pc_compress C) rf) (map Ctrl frs) f =
    (InFile (pc_compress C) (rf\<lparr>rf_hasher := hasher_update avail (rf_hasher rf), rf_pos := rf_pos rf + length avail, rf_received := fsize\<rparr>),
     [], f(rf_partial rf \<mapsto> old @ avail))"
  using assms
proof (induction "length avail" arbitrary: sent avail h rf f old frs r rule: less_induct)
  case less
  show ?case
  proof (cases "avail = []")
    case True
    with less.prems have "sent = fsize" by (simp add: word_unat_eq_iff)
    with less.prems True have "f(rf_partial rf \<mapsto> old) = f" "frs = []" "r = Inr h" by (auto simp: send_loop.simps)
    with less.prems True \<open>sent = fsize\<close> show ?thesis by simp
  next
    case False
    let ?raw = "take CHUNK avail" and ?n = "length (take CHUNK avail)"
    obtain z frs' where turn: "frs = (DATA # z) # frs'" "unpack (pc_host C) (pc_compress C) z = Inr ?raw"
      "send_loop (pc_host C) (pc_compress C) (sent + of_nat ?n) fsize (drop CHUNK avail) (hasher_update ?raw h) = (frs', r)"
      "sent < fsize" "unat (sent + of_nat ?n) + length (drop CHUNK avail) = unat fsize" "length (drop CHUNK avail) < length avail"
      by (rule send_loop_turn [OF less.prems(1,4) False less.prems(7)])
    let ?rf = "rf\<lparr>rf_hasher := hasher_update ?raw (rf_hasher rf), rf_pos := rf_pos rf + ?n, rf_received := sent + of_nat ?n\<rparr>"
    let ?f = "f(rf_partial rf \<mapsto> old @ ?raw)"
    have one: "rx C (InFile (pc_compress C) rf) (Ctrl (DATA # z)) f = (InFile (pc_compress C) ?rf, [], ?f)"
      using less.prems(1-3,5,6) turn(2,4) fs_write_end [of f "rf_partial rf" old ?raw]
      by (simp add: recv_msg_def file_frame_def receive_file_data_def host_ok_def)
    have "r = Inr (hasher_update (drop CHUNK avail) (hasher_update ?raw h)) \<and> feed C (InFile (pc_compress C) ?rf) (map Ctrl frs') ?f =
      (InFile (pc_compress C) (?rf\<lparr>rf_hasher := hasher_update (drop CHUNK avail) (rf_hasher ?rf), rf_pos := rf_pos ?rf + length (drop CHUNK avail), rf_received := fsize\<rparr>),
        [], ?f(rf_partial ?rf \<mapsto> (old @ ?raw) @ drop CHUNK avail))"
      by (rule less.hyps [OF turn(6) less.prems(1) _ _ turn(5) _ _ turn(3)]) (use less.prems(2,3,6) in simp_all)
    moreover have "rf_pos rf + ?n + length (drop CHUNK avail) = rf_pos rf + length avail" by simp
    ultimately show ?thesis unfolding turn(1) using one by (simp del: length_take length_drop)
  qed
qed

text \<open>The body of a file, its checksum included.\<close>

lemma digest_length: "host_ok C \<Longrightarrow> length (hasher_finalize (pc_host C) h) = 32"
  by (cases h) (simp_all add: host_ok_def)

lemma send_body_feed:
  assumes "host_ok C" and "rf = rx_at C name fsize sent" and "unat sent + length avail = unat fsize"
    and "f (part_of C name) = Some old" and "length old = unat sent"
  shows "\<exists>frs. send_body (pc_host C) (pc_compress C) (pc_fips C) sent fsize avail = (frs, None) \<and>
    feed C (InFile (pc_compress C) rf) (map Ctrl frs) f =
      (InRound (pc_compress C), [Ctrl [ACK]], f(part_of C name := None, out_of C name \<mapsto> old @ avail))"
proof -
  obtain frs r where loop: "send_loop (pc_host C) (pc_compress C) sent fsize avail (hasher_new (pc_fips C)) = (frs, r)" by fastforce
  let ?h = "hasher_update avail (hasher_new (pc_fips C))"
  define rf' where "rf' = rf\<lparr>rf_hasher := ?h, rf_pos := rf_pos rf + length avail, rf_received := fsize\<rparr>"
  have fed: "r = Inr ?h" "feed C (InFile (pc_compress C) rf) (map Ctrl frs) f = (InFile (pc_compress C) rf', [], f(part_of C name \<mapsto> old @ avail))"
    using send_loop_feed [OF assms(1) _ _ assms(3), of rf f old] loop assms(2,4,5) by (simp_all add: rx_at_def rf'_def)
  let ?sum = "CHECKSUM # hasher_finalize (pc_host C) ?h"
  have "rx C (InFile (pc_compress C) rf') (Ctrl ?sum) (f(part_of C name \<mapsto> old @ avail)) =
      (InRound (pc_compress C), [Ctrl [ACK]], f(part_of C name := None, out_of C name \<mapsto> old @ avail))"
    using assms(1,2) digest_length [OF assms(1), of ?h]
    by (simp add: recv_msg_def file_frame_def receive_file_checksum_def rf'_def rx_at_def promote_def fs_rename_def host_ok_def fun_upd_twist)
  with fed loop show ?thesis by (simp add: send_body_def feed_append)
qed

text \<open>A whole file, from its announcement to the receiver's acknowledgement, with and without something to resume.\<close>

lemma send_file_feed:
  assumes "host_ok C" and "good_file (name, content)" and "f (part_of C name) = None"
  shows "\<exists>ms. send_files (pc_host C) (pc_compress C) False (pc_fips C) ((name, content) # rest) = (AwaitReply name rest, ms) \<and>
    feed C (InRound (pc_compress C)) ms f =
      (InRound (pc_compress C), [Ctrl [ACK]], f(part_of C name := None, out_of C name \<mapsto> content))"
proof -
  let ?info = "file_info_frame name (of_nat (length content))"
  have len: "unat (of_nat (length content) :: u64) = length content" using assms(2) by (simp add: good_file_def unat_of_nat_id)
  obtain frs where frs: "send_body (pc_host C) (pc_compress C) (pc_fips C) 0 (of_nat (length content)) content = (frs, None)"
    "feed C (InFile (pc_compress C) (rx_at C name (of_nat (length content)) 0)) (map Ctrl frs) (f(part_of C name \<mapsto> [])) =
      (InRound (pc_compress C), [Ctrl [ACK]], f(part_of C name := None, out_of C name \<mapsto> content))"
    using send_body_feed [OF assms(1) refl, of 0 content "of_nat (length content)" "f(part_of C name \<mapsto> [])" name "[]"] len by auto
  have "rx C (InRound (pc_compress C)) (Ctrl ?info) f =
      (InFile (pc_compress C) (rx_at C name (of_nat (length content)) 0), [], f(part_of C name \<mapsto> []))"
    using begin_fresh [where f = f, OF assms] by (simp add: recv_msg_def round_frame_def file_info_frame_def)
  with frs assms(1) show ?thesis by (simp add: send_rest_def host_ok_def)
qed

lemma resume_file_feed:
  assumes "host_ok C" and "good_file (name, content)" and "f (part_of C name) = Some p" and "p \<noteq> []" and "length p < length content"
  shows "\<exists>ms. send_rest (pc_host C) (pc_compress C) (pc_fips C) (of_nat (length p)) (name, content) rest = (AwaitReply name rest, ms) \<and>
    feed C (InFile (pc_compress C) (rx_at C name (of_nat (length content)) (of_nat (length p)))) ms f =
      (InRound (pc_compress C), [Ctrl [ACK]], f(part_of C name := None, out_of C name \<mapsto> p @ drop (length p) content))"
proof -
  have len: "unat (of_nat (length content) :: u64) = length content" "unat (of_nat (length p) :: u64) = length p"
    using assms(2,5) by (simp_all add: good_file_def unat_of_nat_id)
  then show ?thesis
    using send_body_feed [OF assms(1) refl, of "of_nat (length p)" "drop (length p) content" "of_nat (length content)" f name p] assms(3,5)
    by (auto simp: send_rest_def)
qed

section \<open>A whole push\<close>

definition xfer_done :: "push_cfg \<Rightarrow> fs \<Rightarrow> xfer" where
  "xfer_done C f = \<lparr>x_tx = TxStopped (Inr ()), x_rx = (if pc_once C then RxStopped (Inr ()) else AwaitHello), x_down = [], x_up = [], x_fs = f\<rparr>"

definition stored :: "push_cfg \<Rightarrow> (bytes \<times> bytes) list \<Rightarrow> fs \<Rightarrow> fs" where
  "stored C files f = fold (\<lambda>(name, content) f. f(out_of C name \<mapsto> content)) files f"

text \<open>No partial files are in the way, and no file is itself the partial file of another.\<close>

definition undisturbed :: "push_cfg \<Rightarrow> (bytes \<times> bytes) list \<Rightarrow> fs \<Rightarrow> bool" where
  "undisturbed C files f \<longleftrightarrow>
     (\<forall>e \<in> set files. f (part_of C (fst e)) = None \<and> (\<forall>e' \<in> set files. part_of C (fst e) \<noteq> out_of C (fst e')))"

lemma rx_done: "rx C (InRound b) (Ctrl [DONE]) f = (if pc_once C then RxStopped (Inr ()) else AwaitHello, [], f)"
  by (simp add: recv_msg_def round_frame_def frame_types)

lemma feed_all:
  assumes "feed C (x_rx s) (x_down s) (x_fs s) = (pc, out, f)"
  shows "\<exists>k. (xfer_step C ^^ k) s (s\<lparr>x_rx := pc, x_down := [], x_up := x_up s @ out, x_fs := f\<rparr>)"
  using feed_steps [of s "x_down s" "[]", OF _ assms] by auto

lemma relpowp_chain: "(r ^^ k) a b \<Longrightarrow> r b c \<Longrightarrow> (r ^^ l) c d \<Longrightarrow> \<exists>m. (r ^^ m) a d"
  by (metis relpowp_Suc_I2 relpowp_trans)

lemma push_files_run:
  assumes "host_ok C" and "\<forall>e \<in> set files. good_file e" and "undisturbed C files f" and "\<not> pc_resume C"
    and "send_files (pc_host C) (pc_compress C) False (pc_fips C) files = (pc, ms)"
  shows "\<exists>k. (xfer_step C ^^ k) \<lparr>x_tx = pc, x_rx = InRound (pc_compress C), x_down = ms, x_up = [], x_fs = f\<rparr> (xfer_done C (stored C files f))"
  using assms(2,3,5)
proof (induction files arbitrary: f pc ms)
  case Nil
  let ?s = "\<lparr>x_tx = pc, x_rx = InRound (pc_compress C), x_down = ms, x_up = [], x_fs = f\<rparr>"
  have "xfer_step C ?s (xfer_done C f)"
    using to_rx [of ?s "Ctrl [DONE]" "[]" C] Nil.prems(3) by (simp add: rx_done xfer_done_def)
  then show ?case by (metis relpowp_1 stored_def fold_simps(1))
next
  case (Cons e files)
  obtain name content where e: "e = (name, content)" by (cases e)
  let ?s = "\<lparr>x_tx = pc, x_rx = InRound (pc_compress C), x_down = ms, x_up = [], x_fs = f\<rparr>"
  let ?f = "f(out_of C name \<mapsto> content)"
  have none: "f (part_of C name) = None" using Cons.prems(2) e by (simp add: undisturbed_def)
  obtain ms' where "send_files (pc_host C) (pc_compress C) False (pc_fips C) (e # files) = (AwaitReply name files, ms')"
    and fed: "feed C (InRound (pc_compress C)) ms' f = (InRound (pc_compress C), [Ctrl [ACK]], f(part_of C name := None, out_of C name \<mapsto> content))"
    using send_file_feed [where f = f, OF assms(1) _ none] Cons.prems(1) e by fastforce
  with Cons.prems(3) have pc: "pc = AwaitReply name files" "ms = ms'" by simp_all
  have clean: "f(part_of C name := None) = f" using none by auto
  let ?t = "?s\<lparr>x_down := [], x_up := [Ctrl [ACK]], x_fs := ?f\<rparr>"
  obtain k where run: "(xfer_step C ^^ k) ?s ?t"
    using feed_all [of C ?s] fed pc clean by auto
  obtain pc2 ms2 where rest_files: "send_files (pc_host C) (pc_compress C) False (pc_fips C) files = (pc2, ms2)" by fastforce
  let ?u = "\<lparr>x_tx = pc2, x_rx = InRound (pc_compress C), x_down = ms2, x_up = [], x_fs = ?f\<rparr>"
  have step: "xfer_step C ?t ?u"
    using to_tx [of ?t "Ctrl [ACK]" "[]" C pc2 ms2] rest_files pc assms(4) by (simp add: push_msg_def is_ack_def)
  have "undisturbed C files ?f" using Cons.prems(2) e by (auto simp: undisturbed_def)
  then obtain l where "(xfer_step C ^^ l) ?u (xfer_done C (stored C files ?f))"
    using Cons.IH [OF _ _ rest_files, of ?f] Cons.prems(1) by (metis list.set_intros(2))
  with relpowp_chain [OF run step] show ?case by (simp add: stored_def e)
qed

text \<open>Every run from the start ends after the same number of steps in the same state, where nothing more can happen.\<close>

definition runs_end_in :: "push_cfg \<Rightarrow> fs \<Rightarrow> xfer \<Rightarrow> bool" where
  "runs_end_in C f n \<longleftrightarrow>
     (\<exists>k. \<forall>j s. (xfer_step C ^^ j) (xfer_init C f) s \<longrightarrow> j \<le> k \<and> (xfer_step C ^^ (k - j)) s n) \<and> (\<forall>t. \<not> xfer_step C n t)"

lemma runs_end_inI:
  assumes "(xfer_step C ^^ k) (xfer_init C f) n" and "x_down n = []" and "x_up n = []"
  shows "runs_end_in C f n"
proof -
  have "\<forall>t. \<not> xfer_step C n t" using assms(2,3) by (auto elim: xfer_stepE)
  with diamond_runs [OF xfer_diamond this assms(1)] show ?thesis unfolding runs_end_in_def by blast
qed

text \<open>The greeting.\<close>

lemma greeting_run:
  assumes "tx C AwaitHelloAck (Ctrl [ACK]) = (pc, ms)"
  shows "\<exists>k. (xfer_step C ^^ k) (xfer_init C f) \<lparr>x_tx = pc, x_rx = InRound (pc_compress C), x_down = ms, x_up = [], x_fs = f\<rparr>"
proof -
  let ?s = "\<lparr>x_tx = AwaitHelloAck, x_rx = InRound (pc_compress C), x_down = [], x_up = [Ctrl [ACK]], x_fs = f\<rparr>"
  have "xfer_step C (xfer_init C f) ?s"
    using to_rx [of "xfer_init C f" "Ctrl [HELLO, if pc_compress C then COMPRESS_ZSTD else COMPRESS_NONE]" "[]" C]
    by (cases "pc_compress C") (simp_all add: xfer_init_def push_start_def recv_msg_def frame_types)
  moreover have "xfer_step C ?s \<lparr>x_tx = pc, x_rx = InRound (pc_compress C), x_down = ms, x_up = [], x_fs = f\<rparr>"
    using to_tx [of ?s "Ctrl [ACK]" "[]" C pc ms] assms by simp
  ultimately show ?thesis by (metis relpowp_1 relpowp_Suc_I)
qed

text \<open>C6: Pushing files ends with the files in place, whatever the order in which sender and receiver run. With a file system on which no
  call fails, digests of 32 bytes and a compression that can be undone, with names that the receiver admits, and without partial files in the
  way, every run of a push that neither resumes (\<^verbatim>\<open>--resume\<close>) nor sends a single file over parallel streams (\<^verbatim>\<open>--parallel\<close> above 1
  with one file: that form is a different one, see \<open>parallel_transfer_pads\<close>) takes a bounded number of steps, and when it cannot go on the sender has succeeded, the receiver is ready for
  the next round or done, no message is left, and the receiver's file system has changed by exactly the files sent, each with its content.\<close>

theorem push_delivers:
  assumes "host_ok C" and "\<forall>e \<in> set (pc_files C). good_file e" and "undisturbed C (pc_files C) f" and "\<not> pc_resume C"
    and "pc_parallel C \<le> 1 \<or> length (pc_files C) \<noteq> 1"
  shows "runs_end_in C f (xfer_done C (stored C (pc_files C) f))"
proof -
  obtain pc ms where files: "send_files (pc_host C) (pc_compress C) False (pc_fips C) (pc_files C) = (pc, ms)" by fastforce
  with assms(4,5) have "tx C AwaitHelloAck (Ctrl [ACK]) = (pc, ms)" by (auto simp: push_msg_def is_ack_def)
  from greeting_run [OF this] push_files_run [OF assms(1,2,3,4) files]
  obtain k where "(xfer_step C ^^ k) (xfer_init C f) (xfer_done C (stored C (pc_files C) f))" by (metis relpowp_trans)
  then show ?thesis by (rule runs_end_inI) (simp_all add: xfer_done_def)
qed

definition demo_host :: host where
  "demo_host = \<lparr>h_zstd_encode = Inr, h_zstd_decode = Inr, h_blake3 = (\<lambda>b. replicate 32 (sum_list b)), h_sha256 = (\<lambda>b. replicate 32 (sum_list b)),
     h_fs_err = (\<lambda>_. None)\<rparr>"

definition demo_push :: "bool \<Rightarrow> (bytes \<times> bytes) list \<Rightarrow> push_cfg" where
  "demo_push resume files = \<lparr>pc_host = demo_host, pc_dest = [[100]], pc_fips = False, pc_once = True, pc_compress = True, pc_resume = resume,
     pc_parallel = 1, pc_files = files\<rparr>"

lemma demo_push_ok: "host_ok (demo_push resume files)"
  by (simp add: host_ok_def demo_push_def demo_host_def)

theorem push_delivers_witness:
  "runs_end_in (demo_push False [([97], [1, 2, 3]), ([98], [])]) Map.empty
     (xfer_done (demo_push False [([97], [1, 2, 3]), ([98], [])]) [[[100], [97]] \<mapsto> [1, 2, 3], [[100], [98]] \<mapsto> []])"
proof -
  let ?C = "demo_push False [([97], [1, 2, 3]), ([98], [])]"
  have "undisturbed ?C (pc_files ?C) Map.empty"
    by (simp add: undisturbed_def demo_push_def path_join_def is_absolute_def components_def partial_path_def with_suffix_def as_bytes_def)
  moreover have "\<forall>e \<in> set (pc_files ?C). good_file e"
    by (simp add: demo_push_def good_file_def dangerous_def is_absolute_def)
  moreover have "stored ?C (pc_files ?C) Map.empty = [[[100], [97]] \<mapsto> [1, 2, 3], [[100], [98]] \<mapsto> []]"
    by (simp add: stored_def demo_push_def path_join_def is_absolute_def components_def)
  ultimately show ?thesis
    using push_delivers [OF demo_push_ok [of False "[([97], [1, 2, 3]), ([98], [])]"], of Map.empty] by (simp add: demo_push_def)
qed

section \<open>Resuming\<close>

text \<open>With something to resume, both sides report success, although the checksum covers only what was sent now: the first part of
  the file is whatever the partial file held.\<close>

theorem resumed_part_unchecked:
  assumes "host_ok C" and "pc_files C = [(name, content)]" and "good_file (name, content)" and "pc_resume C" and "pc_parallel C \<le> 1"
    and "f (part_of C name) = Some p" and "p \<noteq> []" and "length p < length content"
  shows "runs_end_in C f (xfer_done C (f(part_of C name := None, out_of C name \<mapsto> p @ drop (length p) content)))"
proof -
  let ?info = "file_info_frame name (of_nat (length content))" and ?r = "RESUME # u64_to_be (of_nat (length p))"
  let ?rf = "rx_at C name (of_nat (length content)) (of_nat (length p))"
  let ?f = "f(part_of C name := None, out_of C name \<mapsto> p @ drop (length p) content)"
  let ?st = "\<lambda>t r d u f. \<lparr>x_tx = t, x_rx = r, x_down = d, x_up = u, x_fs = f\<rparr>"
  have len: "unat (of_nat (length content) :: u64) = length content" "unat (of_nat (length p) :: u64) = length p"
    using assms(3,8) by (simp_all add: good_file_def unat_of_nat_id)
  have "tx C AwaitHelloAck (Ctrl [ACK]) = (AwaitResume (name, content) [], [Ctrl ?info])"
    using assms(1,2,4,5) by (simp add: push_msg_def is_ack_def host_ok_def)
  from greeting_run [OF this] obtain k0 where
    g: "(xfer_step C ^^ k0) (xfer_init C f) (?st (AwaitResume (name, content) []) (InRound (pc_compress C)) [Ctrl ?info] [] f)" by blast
  have "rx C (InRound (pc_compress C)) (Ctrl ?info) f = (InFile (pc_compress C) ?rf, [Ctrl ?r], f)"
    using begin_partial [where f = f, OF assms(1,3,6-8)] by (simp add: recv_msg_def round_frame_def file_info_frame_def)
  then have s1: "xfer_step C (?st (AwaitResume (name, content) []) (InRound (pc_compress C)) [Ctrl ?info] [] f)
      (?st (AwaitResume (name, content) []) (InFile (pc_compress C) ?rf) [] [Ctrl ?r] f)"
    using to_rx [of "?st (AwaitResume (name, content) []) (InRound (pc_compress C)) [Ctrl ?info] [] f"] by simp
  have "slice ?r 1 9 = u64_to_be (of_nat (length p))" by (simp add: slice_def)
  then have off: "resume_offset (of_nat (length content)) ?r = of_nat (length p)"
    using assms(7,8) len by (simp add: resume_offset_def codec_simps word_less_nat_alt)
  obtain ms where ms: "send_rest (pc_host C) (pc_compress C) (pc_fips C) (of_nat (length p)) (name, content) [] = (AwaitReply name [], ms)"
    "feed C (InFile (pc_compress C) ?rf) ms f = (InRound (pc_compress C), [Ctrl [ACK]], ?f)"
    using resume_file_feed [where f = f and rest = "[]", OF assms(1,3,6-8)] by blast
  have s2: "xfer_step C (?st (AwaitResume (name, content) []) (InFile (pc_compress C) ?rf) [] [Ctrl ?r] f)
      (?st (AwaitReply name []) (InFile (pc_compress C) ?rf) ms [] f)"
    using to_tx [of "?st (AwaitResume (name, content) []) (InFile (pc_compress C) ?rf) [] [Ctrl ?r] f"] ms(1) off by (simp add: push_msg_def)
  obtain k1 where k1: "(xfer_step C ^^ k1) (?st (AwaitReply name []) (InFile (pc_compress C) ?rf) ms [] f)
      (?st (AwaitReply name []) (InRound (pc_compress C)) [] [Ctrl [ACK]] ?f)"
    using feed_all [of C "?st (AwaitReply name []) (InFile (pc_compress C) ?rf) ms [] f"] ms(2) by auto
  have s3: "xfer_step C (?st (AwaitReply name []) (InRound (pc_compress C)) [] [Ctrl [ACK]] ?f)
      (?st (TxStopped (Inr ())) (InRound (pc_compress C)) [Ctrl [DONE]] [] ?f)"
    using to_tx [of "?st (AwaitReply name []) (InRound (pc_compress C)) [] [Ctrl [ACK]] ?f"] by (simp add: push_msg_def is_ack_def)
  have s4: "xfer_step C (?st (TxStopped (Inr ())) (InRound (pc_compress C)) [Ctrl [DONE]] [] ?f) (xfer_done C ?f)"
    using to_rx [of "?st (TxStopped (Inr ())) (InRound (pc_compress C)) [Ctrl [DONE]] [] ?f"] by (simp add: rx_done xfer_done_def)
  obtain k2 where "(xfer_step C ^^ k2) (xfer_init C f) (?st (AwaitReply name []) (InFile (pc_compress C) ?rf) ms [] f)"
    using relpowp_Suc_I [OF relpowp_Suc_I [OF g s1] s2] by blast
  from relpowp_trans [OF this k1] s3 s4 obtain k where "(xfer_step C ^^ k) (xfer_init C f) (xfer_done C ?f)"
    by (meson relpowp_Suc_I)
  then show ?thesis by (rule runs_end_inI) (simp_all add: xfer_done_def)
qed

text \<open>With nothing to resume the receiver does not answer, and the sender waits for an answer: neither side ever goes on.\<close>

theorem resume_waits_forever:
  assumes "host_ok C" and "pc_files C = (name, content) # rest" and "good_file (name, content)" and "pc_resume C"
    and "pc_parallel C \<le> 1" and "f (part_of C name) = None"
  shows "runs_end_in C f \<lparr>x_tx = AwaitResume (name, content) rest, x_rx = InFile (pc_compress C) (rx_at C name (of_nat (length content)) 0),
    x_down = [], x_up = [], x_fs = f(part_of C name \<mapsto> [])\<rparr>"
proof -
  let ?info = "file_info_frame name (of_nat (length content))"
  let ?s = "\<lparr>x_tx = AwaitResume (name, content) rest, x_rx = InRound (pc_compress C), x_down = [Ctrl ?info], x_up = [], x_fs = f\<rparr>"
  have "tx C AwaitHelloAck (Ctrl [ACK]) = (AwaitResume (name, content) rest, [Ctrl ?info])"
    using assms(1,2,4,5) by (simp add: push_msg_def is_ack_def host_ok_def)
  from greeting_run [OF this] obtain k where k: "(xfer_step C ^^ k) (xfer_init C f) ?s" by blast
  have "rx C (InRound (pc_compress C)) (Ctrl ?info) f = (InFile (pc_compress C) (rx_at C name (of_nat (length content)) 0), [], f(part_of C name \<mapsto> []))"
    using begin_fresh [where f = f, OF assms(1,3,6)] by (simp add: recv_msg_def round_frame_def file_info_frame_def)
  then have "xfer_step C ?s (?s\<lparr>x_rx := InFile (pc_compress C) (rx_at C name (of_nat (length content)) 0), x_down := [], x_fs := f(part_of C name \<mapsto> [])\<rparr>)"
    using to_rx [of ?s] by simp
  from runs_end_inI [OF relpowp_Suc_I [OF k this]] show ?thesis by simp
qed

text \<open>A partial file left behind by an earlier transfer is resumed by the receiver, whether or not the sender resumes. A sender that does not
  sends the whole file: the receiver has enough after a part of it, takes the next frame of data for the checksum of an older sender,
  and puts a file into place, unchecked, that is the old part followed by the beginning of the new file. Here the old part
  and the rest have the size of one frame each.\<close>

lemma two_frames:
  assumes "host_ok C" and "length c1 = CHUNK" and "length c2 = CHUNK"
  shows "\<exists>z1 z2 d. unpack (pc_host C) (pc_compress C) z1 = Inr c1 \<and>
    send_body (pc_host C) (pc_compress C) (pc_fips C) 0 (of_nat (length (c1 @ c2))) (c1 @ c2) = ([DATA # z1, DATA # z2, CHECKSUM # d], None)"
proof -
  obtain z1 where z1: "pack (pc_host C) (pc_compress C) c1 = Inr z1" "unpack (pc_host C) (pc_compress C) z1 = Inr c1"
    by (rule pack_unpack [OF assms(1)])
  obtain z2 where z2: "pack (pc_host C) (pc_compress C) c2 = Inr z2" by (rule pack_unpack [OF assms(1)])
  have "c1 @ c2 \<noteq> []" "c2 \<noteq> []" using assms(2,3) by (auto simp: CHUNK_def)
  moreover have "take CHUNK (c1 @ c2) = c1" "drop CHUNK (c1 @ c2) = c2" "take CHUNK c2 = c2" "drop CHUNK c2 = []" using assms(2,3) by simp_all
  moreover have "(0 :: u64) < of_nat (length (c1 @ c2))" "(0 :: u64) + of_nat (length c1) < of_nat (length (c1 @ c2))"
    using assms(2,3) by (simp_all add: CHUNK_def)
  moreover have "send_loop (pc_host C) (pc_compress C) a b [] h = ([], Inr h)" for a b h by (simp add: send_loop.simps)
  ultimately have "send_loop (pc_host C) (pc_compress C) (0 + of_nat (length c1)) (of_nat (length (c1 @ c2))) c2 h = ([DATA # z2], Inr (hasher_update c2 h))"
    and chunks: "c1 @ c2 \<noteq> []" "take CHUNK (c1 @ c2) = c1" "drop CHUNK (c1 @ c2) = c2" "(0 :: u64) < of_nat (length (c1 @ c2))" for h
    using z2 by (simp_all only: send_loop.simps [of _ _ _ _ c2] Let_def simp_thms if_True sum.case prod.case)
  then have "send_loop (pc_host C) (pc_compress C) 0 (of_nat (length (c1 @ c2))) (c1 @ c2) h =
      ([DATA # z1, DATA # z2], Inr (hasher_update (c1 @ c2) h))" for h
    using z1(1) by (subst send_loop.simps) (simp only: chunks Let_def simp_thms if_True sum.case prod.case hasher_update_append)
  with z1(2) show ?thesis by (auto simp: send_body_def)
qed

theorem stale_partial_corrupts:
  assumes "host_ok C" and "pc_files C = [(name, c1 @ c2)]" and "good_file (name, c1 @ c2)" and "\<not> pc_resume C" and "pc_parallel C \<le> 1"
    and "f (part_of C name) = Some p" and "length p = CHUNK" and "length c1 = CHUNK" and "length c2 = CHUNK"
  shows "runs_end_in C f \<lparr>x_tx = TxStopped (Inl (ReceiverMismatch name)), x_rx = RxStopped (Inl (UnexpectedFrame CHECKSUM)), x_down = [], x_up = [],
    x_fs = f(part_of C name := None, out_of C name \<mapsto> p @ c1)\<rparr>"
proof -
  let ?info = "file_info_frame name (of_nat (length (c1 @ c2)))" and ?r = "RESUME # u64_to_be (of_nat (length p))"
  let ?n = "of_nat (length (c1 @ c2)) :: u64"
  obtain z1 z2 d where z: "unpack (pc_host C) (pc_compress C) z1 = Inr c1"
    and body: "send_body (pc_host C) (pc_compress C) (pc_fips C) 0 ?n (c1 @ c2) = ([DATA # z1, DATA # z2, CHECKSUM # d], None)"
    using two_frames [OF assms(1,8,9)] by blast
  let ?ms = "[Ctrl ?info, Ctrl (DATA # z1), Ctrl (DATA # z2), Ctrl (CHECKSUM # d)]"
  let ?s = "\<lparr>x_tx = AwaitReply name [], x_rx = InRound (pc_compress C), x_down = ?ms, x_up = [], x_fs = f\<rparr>"
  have "tx C AwaitHelloAck (Ctrl [ACK]) = (AwaitReply name [], ?ms)"
    using assms(1,2,4,5) body by (simp add: push_msg_def is_ack_def host_ok_def send_rest_def)
  from greeting_run [OF this] obtain k where k: "(xfer_step C ^^ k) (xfer_init C f) ?s" by blast
  have p: "p \<noteq> []" "length p < length (c1 @ c2)" using assms(7-9) by (auto simp: CHUNK_def)
  have "rx C (InRound (pc_compress C)) (Ctrl ?info) f = (InFile (pc_compress C) (rx_at C name ?n (of_nat (length p))), [Ctrl ?r], f)"
    using begin_partial [where f = f, OF assms(1,3,6) p] by (simp add: recv_msg_def round_frame_def file_info_frame_def)
  moreover define rf where "rf = (rx_at C name ?n (of_nat (length p)))\<lparr>rf_hasher := hasher_update c1 (hasher_new (pc_fips C)),
      rf_pos := length p + length c1, rf_received := of_nat (length p) + of_nat (length c1)\<rparr>"
  moreover have "rx C (InFile (pc_compress C) (rx_at C name ?n (of_nat (length p)))) (Ctrl (DATA # z1)) f =
      (InFile (pc_compress C) rf, [], f(part_of C name \<mapsto> p @ c1))"
    using z assms(1,6-9) fs_write_end [of f "part_of C name" p c1]
    by (simp add: recv_msg_def file_frame_def receive_file_data_def host_ok_def rx_at_def rf_def CHUNK_def)
  moreover have "rx C (InFile (pc_compress C) rf) (Ctrl (DATA # z2)) (f(part_of C name \<mapsto> p @ c1)) =
      (InRound (pc_compress C), [], f(part_of C name := None, out_of C name \<mapsto> p @ c1))"
    using assms(1,7-9) by (simp add: recv_msg_def file_frame_def receive_file_checksum_def promote_def host_ok_def rx_at_def rf_def CHUNK_def
        frame_types fs_rename_def fun_upd_twist)
  moreover have "rx C (InRound b) (Ctrl (CHECKSUM # d)) g = (RxStopped (Inl (UnexpectedFrame CHECKSUM)), [], g)" for b g
    by (simp add: recv_msg_def round_frame_def frame_types)
  ultimately have "feed C (InRound (pc_compress C)) ?ms f =
      (RxStopped (Inl (UnexpectedFrame CHECKSUM)), [Ctrl ?r], f(part_of C name := None, out_of C name \<mapsto> p @ c1))" by simp
  with feed_all [of C ?s] obtain l where l: "(xfer_step C ^^ l) ?s (?s\<lparr>x_rx := RxStopped (Inl (UnexpectedFrame CHECKSUM)), x_down := [],
      x_up := [Ctrl ?r], x_fs := f(part_of C name := None, out_of C name \<mapsto> p @ c1)\<rparr>)" by auto
  let ?t = "?s\<lparr>x_rx := RxStopped (Inl (UnexpectedFrame CHECKSUM)), x_down := [], x_up := [Ctrl ?r],
      x_fs := f(part_of C name := None, out_of C name \<mapsto> p @ c1)\<rparr>"
  have "tx C (AwaitReply name []) (Ctrl ?r) = (TxStopped (Inl (ReceiverMismatch name)), [])"
    by (simp add: push_msg_def is_ack_def frame_types)
  then have "xfer_step C ?t (?t\<lparr>x_tx := TxStopped (Inl (ReceiverMismatch name)), x_up := []\<rparr>)" using to_tx [of ?t] by simp
  moreover have "(xfer_step C ^^ (k + l)) (xfer_init C f) ?t" by (rule relpowp_trans [OF k l])
  ultimately have "(xfer_step C ^^ Suc (k + l)) (xfer_init C f) (?t\<lparr>x_tx := TxStopped (Inl (ReceiverMismatch name)), x_up := []\<rparr>)"
    by (intro relpowp_Suc_I)
  from runs_end_inI [OF this] show ?thesis by simp
qed

text \<open>A pull that does not resume has no staging file: when the checksum shows that the data is wrong, it is already in place.\<close>

theorem pull_leaves_corrupt_file:
  assumes "pull_file_begin H dest fips False info f = (sent, Inr rf, f1)" and "receive_file_data H compress rf fr f1 = (Inr rf', f2)"
    and "unpack H compress (tl fr) = Inr raw" and "hasher_finalize H (rf_hasher rf') \<noteq> d" and "length d = 32"
  shows "pull_file_checksum H False rf' (CHECKSUM # d) f2 = ([], Inl (IntegrityFailed (rf_name rf)), f2) \<and> f2 (rf_out rf) = Some raw"
proof -
  have rf: "rf_partial rf = rf_out rf" "rf_pos rf = 0" "f1 (rf_out rf) = Some []"
    using assms(1) by (auto simp: pull_file_begin_def Let_def fs_open_def split: sum.splits option.splits)
  with assms(2,3) have "rf_name rf' = rf_name rf" "f2 (rf_out rf) = Some raw"
    by (auto simp: receive_file_data_def fs_write_def write_at_def split: if_splits sum.splits option.splits)
  with assms(4,5) show ?thesis by (simp add: pull_file_checksum_def)
qed

end
