(* ===== verification/Receiver_Facts.thy ===== *)
theory Receiver_Facts
  imports File_Transfer_Facts
begin

text \<open>
  Two more facts about the transfer of files: whatever a sender sends, a receiver writes below its directory, but for one staging file beside
  it; and what a parallel transfer puts into place, which is the file followed by the zeros that chunks beyond its
  end ask for.
\<close>

section \<open>Where a receiver writes\<close>

definition below :: "fpath \<Rightarrow> fpath \<Rightarrow> bool" where
  "below dir q \<longleftrightarrow> (\<exists>cs. q = dir @ cs \<and> [0x2E, 0x2E] \<notin> set cs)"

text \<open>A name without a component, such as the empty one, names the directory itself; its staging file is beside the directory.\<close>

definition may_write :: "fpath \<Rightarrow> nat option \<Rightarrow> fpath \<Rightarrow> bool" where
  "may_write dest idx q \<longleftrightarrow> below dest q \<or> q = partial_path dest idx"

definition rx_safe :: "fpath \<Rightarrow> nat option \<Rightarrow> rx_pc \<Rightarrow> bool" where
  "rx_safe dest idx pc \<longleftrightarrow>
     (case pc of InFile _ rf \<Rightarrow> below dest (rf_out rf) \<and> rf_partial rf = partial_path (rf_out rf) idx | _ \<Rightarrow> True)"

definition only_at :: "(fpath \<Rightarrow> bool) \<Rightarrow> fs \<Rightarrow> fs \<Rightarrow> bool" where
  "only_at P f f' \<longleftrightarrow> (\<forall>q. f' q \<noteq> f q \<longrightarrow> P q)"

lemma only_at_refl [simp]: "only_at P f f"
  by (simp add: only_at_def)

lemma only_at_trans: "only_at P f g \<Longrightarrow> only_at P g h \<Longrightarrow> only_at P f h"
  unfolding only_at_def by metis

lemma only_at_upd: "P p \<Longrightarrow> only_at P f (f(p := x))"
  by (simp add: only_at_def)

lemma only_at_fs:
  "P p \<Longrightarrow> only_at P f (fs_open b p f)" "P p \<Longrightarrow> only_at P f (fs_write p n dat f)" "P p \<Longrightarrow> only_at P f (fs_remove p f)"
  "P p \<Longrightarrow> P q \<Longrightarrow> only_at P f (fs_rename p q f)" "P p \<Longrightarrow> only_at P f (fs_open b p (fs_remove p f))"
  by (auto simp: only_at_def fs_open_def fs_write_def fs_remove_def fs_rename_def)

lemma safe_name_below: "\<not> dangerous name \<Longrightarrow> below dest (path_join dest name)"
  using safe_name_components(1) [of name dest] safe_name_components(2) [of name] by (auto simp: below_def dangerous_def)

lemma partial_may_write:
  assumes "below dest out"
  shows "may_write dest idx (partial_path out idx)" and "may_write dest idx out"
proof -
  obtain cs where cs: "out = dest @ cs" "[0x2E, 0x2E] \<notin> set cs" using assms by (auto simp: below_def)
  show "may_write dest idx (partial_path out idx)"
  proof (cases cs rule: rev_cases)
    case (snoc ds d)
    define ext where "ext = as_bytes ''.seam-partial'' @ (case idx of Some i \<Rightarrow> as_bytes (''.p'' @ show_nat i) | None \<Rightarrow> [])"
    have "length (as_bytes ''.seam-partial'') = 13" by (simp add: as_bytes_def)
    then have "length (d @ ext) > 2" by (simp add: ext_def)
    then have "d @ ext \<noteq> [0x2E, 0x2E]" by (metis length_Cons list.size(3) numeral_2_eq_2 less_irrefl)
    moreover have "partial_path out idx = dest @ ds @ [d @ ext]" by (simp add: partial_path_def with_suffix_def cs snoc ext_def butlast_append)
    ultimately show ?thesis using cs(2) snoc by (auto simp: may_write_def below_def)
  qed (simp add: may_write_def cs)
  show "may_write dest idx out" using assms by (simp add: may_write_def)
qed

lemma begin_safe:
  assumes "receive_file_begin H dest fips idx fr f = (sent, r, f')"
  shows "only_at (may_write dest idx) f f'" and "r = Inr rf \<Longrightarrow> rx_safe dest idx (InFile b rf)"
proof -
  show "only_at (may_write dest idx) f f'" and "r = Inr rf \<Longrightarrow> rx_safe dest idx (InFile b rf)"
  proof (atomize (full), cases "parse_file_info fr")
    case (Inr x)
    obtain n name where x: "x = (n, name)" by (cases x)
    have "\<not> dangerous name" using Inr x by (auto simp: parse_file_info_def Let_def split: if_splits)
    then have "below dest (path_join dest name)" by (rule safe_name_below)
    with partial_may_write [OF this, of idx] assms Inr x
    show "only_at (may_write dest idx) f f' \<and> (r = Inr rf \<longrightarrow> rx_safe dest idx (InFile b rf))"
      by (auto simp: receive_file_begin_def Let_def rx_safe_def split: option.splits if_splits intro!: only_at_fs)
  qed (use assms in \<open>auto simp: receive_file_begin_def\<close>)
qed

lemma receive_chunk_at:
  "receive_chunk H c i out frs n k pos h f = (r, f') \<Longrightarrow> only_at (\<lambda>q. q = out) f f'"
  by (induction H c i out frs n k pos h f rule: receive_chunk.induct)
    (auto split: if_splits sum.splits option.splits intro: only_at_trans only_at_fs)

lemma receive_chunks_at:
  "receive_chunks H c fips i out infos f = (r, acks, f') \<Longrightarrow> only_at (\<lambda>q. q = out) f f'"
proof (induction infos arbitrary: i f r acks)
  case (Cons x infos)
  obtain frs offset chunk_size name where x: "x = (frs, offset, chunk_size, name)" by (cases x)
  from Cons.prems x show ?case
    by (auto split: option.splits sum.splits prod.splits dest!: receive_chunk_at Cons.IH intro: only_at_trans)
qed simp

lemma chunk_names_safe:
  "read_chunk_infos i css = Some (Inr infos) \<Longrightarrow> x \<in> set infos \<Longrightarrow> \<not> dangerous (snd (snd x))"
proof (induction css arbitrary: i infos)
  case (Cons frs css)
  then obtain fr rest info infos' where "frs = fr # rest" "parse_chunk_info i fr = Inr info" "read_chunk_infos (Suc i) css = Some (Inr infos')"
    "infos = info # infos'" by (cases frs) (auto split: sum.splits option.splits)
  moreover from this(2) have "\<not> dangerous (snd (snd info))" by (auto simp: parse_chunk_info_def Let_def split: if_splits)
  ultimately show ?case using Cons by auto
qed simp

lemma receive_parallel_safe:
  assumes "receive_parallel H c fips dest css f = Return (r, acks, g)"
  shows "only_at (may_write dest idx) f g"
proof (cases "read_chunk_infos 0 css")
  case (Some res)
  then show ?thesis
  proof (cases res)
    case (Inr infos)
    show ?thesis
    proof (cases infos)
      case (Cons x xs)
      let ?out = "path_join dest (snd (snd x))"
      have "may_write dest idx ?out"
        using chunk_names_safe [of 0 css infos x] Some Inr Cons by (intro partial_may_write safe_name_below) simp
      moreover have "only_at (\<lambda>q. q = ?out) f g"
      proof -
        let ?f1 = "\<lambda>n. (fs_open True ?out f)(?out \<mapsto> replicate n 0)"
        consider "g = f" | "g = fs_open True ?out f" | n xs where "receive_chunks H c fips 0 ?out xs (?f1 n) = (r, acks, g)"
          using assms Some Inr Cons by (simp add: receive_parallel_def Let_def split: option.splits)
        then show ?thesis
        proof cases
          case 3
          have "only_at (\<lambda>q. q = ?out) f (?f1 n)" by (simp add: only_at_def fs_open_def)
          with receive_chunks_at [OF 3] show ?thesis by (blast intro: only_at_trans)
        qed (simp_all add: only_at_fs)
      qed
      ultimately show ?thesis by (auto simp: only_at_def)
    qed (use assms Some Inr in \<open>simp add: receive_parallel_def\<close>)
  qed (use assms in \<open>simp add: receive_parallel_def\<close>)
qed (use assms in \<open>simp add: receive_parallel_def\<close>)

text \<open>One message keeps a receiver safe and changes only files it may write.\<close>

lemma recv_msg_safe:
  assumes "recv_msg H dest fips once idx pc m f = (pc', out, f')" and "rx_safe dest idx pc"
  shows "rx_safe dest idx pc' \<and> only_at (may_write dest idx) f f'"
proof (cases pc)
  case (InRound c)
  then show ?thesis
  proof (cases m)
    case (Ctrl fr)
    obtain sent r g where b: "receive_file_begin H dest fips idx fr f = (sent, r, g)" by (metis surj_pair)
    from assms(1) InRound Ctrl begin_safe [OF b] show ?thesis
      by (auto simp: recv_msg_def round_frame_def b rx_safe_def split: if_splits sum.splits)
  qed (use assms InRound in \<open>auto simp: recv_msg_def rx_safe_def\<close>)
next
  case (InFile c rf)
  with assms(2) have "may_write dest idx (rf_partial rf)" "may_write dest idx (rf_out rf)"
    using partial_may_write by (auto simp: rx_safe_def)
  with assms InFile show ?thesis
    by (auto simp: recv_msg_def file_frame_def receive_file_data_def receive_file_checksum_def promote_def rx_safe_def
        split: msg.splits if_splits sum.splits option.splits intro!: only_at_fs)
next
  case (AwaitChunks c n)
  then show ?thesis
  proof (cases m)
    case (Chunks css)
    with assms(1) AwaitChunks show ?thesis
      by (auto simp: recv_msg_def rx_safe_def split: if_splits option.splits outcome.splits sum.splits dest: receive_parallel_safe)
  qed (use assms AwaitChunks in \<open>auto simp: recv_msg_def rx_safe_def\<close>)
qed (use assms in \<open>auto simp: recv_msg_def rx_safe_def split: msg.splits if_splits\<close>)

text \<open>A receiver that takes whatever arrives.\<close>

fun recv_all :: "host \<Rightarrow> fpath \<Rightarrow> bool \<Rightarrow> bool \<Rightarrow> nat option \<Rightarrow> rx_pc \<Rightarrow> msg list \<Rightarrow> fs \<Rightarrow> rx_pc \<times> fs" where
  "recv_all H dest fips once idx pc [] f = (pc, f)"
| "recv_all H dest fips once idx pc (m # ms) f =
     (case recv_msg H dest fips once idx pc m f of (pc', _, f') \<Rightarrow> recv_all H dest fips once idx pc' ms f')"

text \<open>C29: A receiver writes below its directory. Whatever messages a sender sends, however long, malformed or hostile, in whatever order, and whichever
  calls of the operating system fail: the only files the receiver creates, changes, renames or removes lie below its directory, with no step up
  in their path, or are the staging file that a name without components gives the directory itself.\<close>

theorem receiver_stays_below:
  assumes "recv_all H dest fips once idx AwaitHello ms f = (pc, f')" and "f' q \<noteq> f q"
  shows "below dest q \<or> q = partial_path dest idx"
proof -
  have "only_at (may_write dest idx) f f'" if "recv_all H dest fips once idx pc0 ms f = (pc, f')" and "rx_safe dest idx pc0" for pc0
    using that
  proof (induction ms arbitrary: pc0 f)
    case (Cons m ms)
    obtain pc1 out1 f1 where one: "recv_msg H dest fips once idx pc0 m f = (pc1, out1, f1)" by (metis surj_pair)
    with recv_msg_safe [OF one Cons.prems(2)] Cons show ?case by (auto intro: only_at_trans)
  qed simp
  from this [OF assms(1)] assms(2) show ?thesis by (auto simp: rx_safe_def only_at_def may_write_def)
qed

text \<open>The exception is real: an announced file with an empty name is staged beside the directory.\<close>

theorem receiver_stays_below_witness:
  "recv_all demo_host [[100]] False True None AwaitHello [Ctrl [HELLO], Ctrl (file_info_frame [] 3), Ctrl (DATA # [1, 2])] Map.empty =
     (InFile False \<lparr>rf_name = [], rf_size = 3, rf_out = [[100]], rf_partial = partial_path [[100]] None, rf_pos = 2, rf_received = 2,
        rf_hasher = Blake3 [1, 2]\<rparr>, [partial_path [[100]] None \<mapsto> [1, 2]]) \<and>
   (below [[100]] (partial_path [[100]] None) \<or> partial_path [[100]] None = partial_path [[100]] None) \<and> \<not> below [[100]] (partial_path [[100]] None)"
proof -
  have "parse_file_info (file_info_frame [] (of_nat (length [0, 0, 0 :: u8]))) = Inr (of_nat (length [0, 0, 0 :: u8]), [])"
    by (rule parse_info) (simp add: good_file_def dangerous_def is_absolute_def)
  then have info: "parse_file_info (file_info_frame [] 3) = Inr (3, [])" by simp
  let ?rx = "recv_msg demo_host [[100]] False True None" and ?part = "partial_path [[100]] None"
  let ?rf = "\<lparr>rf_name = [], rf_size = 3, rf_out = [[100]], rf_partial = ?part, rf_pos = 0, rf_received = 0, rf_hasher = Blake3 []\<rparr>"
  have "hd (file_info_frame [] 3) = FILE_INFO" "file_info_frame [] 3 \<noteq> []" by (simp_all add: file_info_frame_def)
  then have "?rx (InRound False) (Ctrl (file_info_frame [] 3)) Map.empty = (InFile False ?rf, [], [?part \<mapsto> []])"
    by (simp add: recv_msg_def round_frame_def receive_file_begin_def info demo_host_def path_join_def is_absolute_def components_def parent_def
        fs_open_def fs_remove_def hasher_new_def Let_def)
  moreover have "?rx AwaitHello (Ctrl [HELLO]) Map.empty = (InRound False, [Ctrl [ACK]], Map.empty)"
    by (simp add: recv_msg_def frame_types)
  moreover have "?rx (InFile False ?rf) (Ctrl (DATA # [1, 2])) [?part \<mapsto> []] =
      (InFile False (?rf\<lparr>rf_pos := 2, rf_received := 2, rf_hasher := Blake3 [1, 2]\<rparr>), [], [?part \<mapsto> [1, 2]])"
    by (simp add: recv_msg_def file_frame_def receive_file_data_def unpack_def demo_host_def fs_write_def write_at_def)
  ultimately have run: "recv_all demo_host [[100]] False True None AwaitHello [Ctrl [HELLO], Ctrl (file_info_frame [] 3), Ctrl (DATA # [1, 2])] Map.empty =
     (InFile False \<lparr>rf_name = [], rf_size = 3, rf_out = [[100]], rf_partial = partial_path [[100]] None, rf_pos = 2, rf_received = 2,
        rf_hasher = Blake3 [1, 2]\<rparr>, [partial_path [[100]] None \<mapsto> [1, 2]])"
    by simp
  have "\<not> below [[100]] (partial_path [[100]] None)" by (auto simp: below_def partial_path_def with_suffix_def as_bytes_def)
  with run receiver_stays_below [OF run, of "partial_path [[100]] None"] show ?thesis by simp
qed

section \<open>Parallel transfers\<close>

lemma write_at_inside: "pos + length new \<le> length old \<Longrightarrow> write_at pos new old = take pos old @ new @ drop (pos + length new) old"
  by (simp add: write_at_def max_absorb2)

lemma write_at_append:
  assumes "pos + length (a @ b) \<le> length old"
  shows "write_at (pos + length a) b (write_at pos a old) = write_at pos (a @ b) old"
proof -
  have "pos + length a \<le> length old" using assms by simp
  then have "write_at pos a old = take pos old @ a @ drop (pos + length a) old" by (rule write_at_inside)
  then show ?thesis using assms by (simp add: write_at_inside ac_simps)
qed

text \<open>A chunk is written at its place.\<close>

lemma receive_chunk_sent:
  assumes "host_ok C" and "unat recvd + length avail = unat fsize" and "f out = Some old" and "pos + length avail \<le> length old"
    and "send_loop (pc_host C) (pc_compress C) recvd fsize avail h = (frs, r)"
  shows "r = Inr (hasher_update avail h) \<and>
    receive_chunk (pc_host C) (pc_compress C) i out (frs @ [CHECKSUM # hasher_finalize (pc_host C) (hasher_update avail h)]) fsize recvd pos h f =
      (Some (Inr ()), f(out \<mapsto> write_at pos avail old))"
  using assms
proof (induction "length avail" arbitrary: recvd avail h f old pos frs r rule: less_induct)
  case less
  show ?case
  proof (cases "avail = []")
    case True
    with less.prems have eq: "recvd = fsize" by (simp add: word_unat_eq_iff)
    have "f(out \<mapsto> write_at pos [] old) = f" using less.prems(3,4) True by (auto simp: write_at_inside)
    with less.prems True eq show ?thesis by (simp add: send_loop.simps digest_length)
  next
    case False
    let ?raw = "take CHUNK avail" and ?n = "length (take CHUNK avail)"
    obtain z frs' where turn: "frs = (DATA # z) # frs'" "unpack (pc_host C) (pc_compress C) z = Inr ?raw"
      "send_loop (pc_host C) (pc_compress C) (recvd + of_nat ?n) fsize (drop CHUNK avail) (hasher_update ?raw h) = (frs', r)"
      "recvd < fsize" "unat (recvd + of_nat ?n) + length (drop CHUNK avail) = unat fsize" "length (drop CHUNK avail) < length avail"
      by (rule send_loop_turn [OF less.prems(1,2) False less.prems(5)])
    have all: "?raw @ drop CHUNK avail = avail" by simp
    have written: "write_at (pos + ?n) (drop CHUNK avail) (write_at pos ?raw old) = write_at pos avail old"
      using write_at_append [of pos ?raw "drop CHUNK avail" old] less.prems(4) all by simp
    have fits: "pos + ?n + length (drop CHUNK avail) \<le> length (write_at pos ?raw old)"
      using less.prems(4) by (simp add: write_at_inside)
    from less.hyps [where f = "f(out \<mapsto> write_at pos ?raw old)", OF turn(6) less.prems(1) turn(5) _ fits turn(3)] written all less.prems(1,3) turn(2,4)
    show ?thesis unfolding turn(1) by (simp add: fs_write_def host_ok_def del: length_take)
  qed
qed

text \<open>The layout of the chunks: \<open>c\<close> bytes each, the last ones fewer or none. \<open>chunk_end\<close> is where a chunk ends, and where it starts if it is empty.\<close>

definition chunk_width :: "nat \<Rightarrow> nat \<Rightarrow> nat" where
  "chunk_width len n = (len + n - 1) div n"

definition chunk_end :: "nat \<Rightarrow> nat \<Rightarrow> nat \<Rightarrow> nat" where
  "chunk_end c len i = i * c + min c (len - i * c)"

definition parallel_length :: "nat \<Rightarrow> nat \<Rightarrow> nat" where
  "parallel_length len n = max len ((n - 1) * chunk_width len n)"

text \<open>The file after the first \<open>k\<close> chunks.\<close>

definition chunked :: "nat \<Rightarrow> nat \<Rightarrow> bytes \<Rightarrow> nat \<Rightarrow> bytes" where
  "chunked c t content k = take (k * c) content @ replicate (t - min (k * c) (length content)) 0"

lemma chunk_width_covers:
  assumes "0 < n"
  shows "len \<le> n * chunk_width len n" and "(n - 1) * chunk_width len n < len + n"
proof -
  define q where "q = (len + n - 1) div n"
  have m: "(len + n - 1) mod n < n" using assms by simp
  have e: "n * q + (len + n - 1) mod n = len + n - 1" by (simp add: q_def)
  show "len \<le> n * chunk_width len n" using m e assms unfolding chunk_width_def q_def [symmetric] by linarith
  have "(n - 1) * q \<le> n * q" by simp
  then show "(n - 1) * chunk_width len n < len + n" using e assms unfolding chunk_width_def q_def [symmetric] by linarith
qed

lemma write_chunk:
  assumes "i * c \<le> t" and "length content \<le> t"
  shows "write_at (i * c) (slice content (i * c) (chunk_end c (length content) i)) (chunked c t content i) = chunked c t content (Suc i)"
proof (cases "i * c < length content")
  case True
  have sl: "slice content (i * c) (chunk_end c (length content) i) = take c (drop (i * c) content)"
    by (simp add: slice_def chunk_end_def min_def)
  have "Suc i * c = i * c + c" by simp
  then have "take (Suc i * c) content = take (i * c) content @ take c (drop (i * c) content)" by (simp only: take_add)
  with True assms show ?thesis unfolding sl
    by (subst write_at_inside) (auto simp: chunked_def min_def add.commute)
next
  case False
  then show ?thesis using assms by (simp add: slice_def chunked_def write_at_inside replicate_add [symmetric])
qed

lemma length_chunked: "length content \<le> t \<Longrightarrow> length (chunked c t content k) = t"
  by (simp add: chunked_def)

lemma chunk_bounds_nat:
  assumes "i < n" and "len + n < 2 ^ 64" and "c = chunk_width len n"
  shows "chunk_bounds len n i = (of_nat (i * c), of_nat (min c (len - i * c)))" and "i * c < 2 ^ 64" and "i * c \<le> parallel_length len n"
proof -
  have a: "i * c \<le> (n - 1) * c" using assms(1) by (intro mult_right_mono) auto
  moreover have "(n - 1) * c < len + n" unfolding assms(3) by (rule chunk_width_covers(2)) (use assms(1) in simp)
  ultimately show small: "i * c < 2 ^ 64" using assms(2) by linarith
  show "i * c \<le> parallel_length len n" unfolding parallel_length_def assms(3) [symmetric] using a by (rule max.coboundedI2)
  have c: "c \<le> len + n" using assms(3) by (simp add: chunk_width_def) (metis diff_le_self div_le_dividend le_trans)
  have "unat (of_nat i * of_nat c :: u64) = i * c" unfolding of_nat_mult [symmetric] by (rule unat_of_nat_id) (use small in simp)
  moreover have "unat (of_nat c :: u64) = c" "unat (of_nat len :: u64) = len" using c assms(2) by (simp_all add: unat_of_nat_id)
  ultimately have "min (of_nat c) (sat_sub (of_nat len) (of_nat i * of_nat c)) = (of_nat (min c (len - i * c)) :: u64)"
    by (intro word_unat_eq_iff [THEN iffD2]) (use c assms(2) in \<open>simp add: unat_sat_sub unat_of_nat_id min_def word_le_nat_alt\<close>)
  then show "chunk_bounds len n i = (of_nat (i * c), of_nat (min c (len - i * c)))"
    by (simp add: chunk_bounds_def Let_def assms(3) chunk_width_def)
qed

lemma parse_chunk_frame:
  assumes "good_file (name, content)"
  shows "parse_chunk_info i (chunk_info_frame a b offset this name) = Inr (offset, this, name)"
proof -
  let ?fr = "chunk_info_frame a b offset this name"
  have "slice ?fr 3 11 = u64_to_be offset" "slice ?fr 11 19 = u64_to_be this" "slice ?fr 19 21 = u16_to_be (of_nat (length name))"
    "slice ?fr 21 (21 + length name) = name"
    by (simp_all add: slice_def chunk_info_frame_def)
  moreover have "length ?fr = 21 + length name" "hd ?fr = CHUNK_INFO" by (simp_all add: chunk_info_frame_def)
  moreover have "unat (of_nat (length name) :: u16) = length name" using assms by (simp add: good_file_def unat_of_nat_id)
  ultimately show ?thesis using assms by (simp add: parse_chunk_info_def good_file_def Let_def codec_simps)
qed

text \<open>What the headers of the chunk streams from \<open>i\<close> on announce.\<close>

definition chunk_table :: "nat \<Rightarrow> nat \<Rightarrow> bytes \<Rightarrow> nat \<Rightarrow> nat \<Rightarrow> (u64 \<times> u64 \<times> bytes) list" where
  "chunk_table c len name i n = map (\<lambda>j. (of_nat (j * c), of_nat (min c (len - j * c)), name)) [i..<n]"

lemma chunk_table_simps:
  "chunk_table c len name n n = []"
  "i < n \<Longrightarrow> chunk_table c len name i n = (of_nat (i * c), of_nat (min c (len - i * c)), name) # chunk_table c len name (Suc i) n"
  by (simp_all add: chunk_table_def upt_conv_Cons)

text \<open>Every chunk arrives at its place.\<close>

lemma chunks_arrive:
  assumes "host_ok C" and "good_file (name, content)" and "length content + n < 2 ^ 64" and "c = chunk_width (length content) n"
    and "t = parallel_length (length content) n" and "i \<le> n" and "f out = Some (chunked c t content i)"
  shows "\<exists>css. send_chunks (pc_host C) (pc_compress C) (pc_fips C) name content n [i..<n] = (css, None) \<and> length css = n - i \<and>
    read_chunk_infos i css = Some (Inr (chunk_table c (length content) name i n)) \<and>
    receive_chunks (pc_host C) (pc_compress C) (pc_fips C) i out
      (zip (map tl css) (chunk_table c (length content) name i n)) f =
      (Some (Inr ()), replicate (n - i) [[ACK]], f(out \<mapsto> chunked c t content n))"
  using assms(6,7)
proof (induction "n - i" arbitrary: i f)
  case 0
  then have "f(out \<mapsto> chunked c t content n) = f" by auto
  with 0 show ?case by (simp add: chunk_table_simps)
next
  case (Suc m)
  then have i: "i < n" and upt: "[i..<n] = i # [Suc i..<n]" by (auto simp: upt_conv_Cons)
  let ?o = "of_nat (i * c) :: u64" and ?s = "of_nat (min c (length content - i * c)) :: u64" and ?cl = "length content"
  note b = chunk_bounds_nat [OF i assms(3,4)]
  have len: "?cl \<le> t" by (simp add: assms(5) parallel_length_def)
  have o: "unat ?o = i * c" and s: "unat ?s = min c (?cl - i * c)"
    by (rule unat_of_nat_id, use b(2) assms(3) in simp)+
  let ?avail = "slice content (i * c) (chunk_end c ?cl i)"
  have avail: "slice content (unat ?o) (unat ?o + unat ?s) = ?avail" unfolding o s chunk_end_def ..
  have la: "length ?avail = min c (?cl - i * c)" by (simp add: chunk_end_def)
  then have all: "unat (0 :: u64) + length ?avail = unat ?s" unfolding s by simp
  have "i * c + min c (?cl - i * c) \<le> max (i * c) ?cl" by linarith
  then have fits: "i * c + length ?avail \<le> length (chunked c t content i)"
    using b(3) len assms(5) unfolding la length_chunked [OF len] by linarith
  obtain frs r where loop: "send_loop (pc_host C) (pc_compress C) 0 ?s ?avail (hasher_new (pc_fips C)) = (frs, r)" by fastforce
  note chunk = receive_chunk_sent [where f = f, OF assms(1) all Suc.prems(2) fits loop, of i]
  let ?d = "hasher_finalize (pc_host C) (hasher_update ?avail (hasher_new (pc_fips C)))"
  let ?info = "chunk_info_frame (of_nat i) (of_nat n) ?o ?s name"
  obtain css where css: "send_chunks (pc_host C) (pc_compress C) (pc_fips C) name content n [Suc i..<n] = (css, None)" "length css = n - Suc i"
    "read_chunk_infos (Suc i) css = Some (Inr (chunk_table c ?cl name (Suc i) n))"
    "receive_chunks (pc_host C) (pc_compress C) (pc_fips C) (Suc i) out
      (zip (map tl css) (chunk_table c ?cl name (Suc i) n)) (f(out \<mapsto> chunked c t content (Suc i))) =
      (Some (Inr ()), replicate (n - Suc i) [[ACK]], f(out \<mapsto> chunked c t content n))"
  proof -
    have "m = n - Suc i" "Suc i \<le> n" using Suc.hyps(2) i by simp_all
    from Suc.hyps(1) [OF this, of "f(out \<mapsto> chunked c t content (Suc i))"] show thesis using that by (simp del: upt_Suc) blast
  qed
  have w: "write_at (i * c) ?avail (chunked c t content i) = chunked c t content (Suc i)"
    by (rule write_chunk) (use b(3) len assms(5) in simp_all)
  have "send_chunks (pc_host C) (pc_compress C) (pc_fips C) name content n [i..<n] = ((?info # frs @ [CHECKSUM # ?d]) # css, None)"
    using chunk loop css(1) assms(1) b(1) avail unfolding upt by (simp add: send_body_def host_ok_def Let_def del: of_nat_mult)
  moreover have "read_chunk_infos i ((?info # frs @ [CHECKSUM # ?d]) # css) =
      Some (Inr (chunk_table c ?cl name i n))"
    by (simp add: parse_chunk_frame [OF assms(2)] css(3) chunk_table_simps(2) [OF i] del: of_nat_mult)
  moreover have "replicate (n - i) [[ACK]] = [[ACK]] # replicate (n - Suc i) [[ACK]]"
    using i by (metis Suc_diff_Suc replicate_Suc)
  ultimately show ?case using css(2,4) chunk assms(1) w o i unfolding upt
    by (intro exI [of _ "(?info # frs @ [CHECKSUM # ?d]) # css"]) (simp add: host_ok_def chunk_table_simps(2) del: of_nat_mult)
qed

text \<open>The length announced by the chunks is that of the longest of them.\<close>

lemma foldr_max_mono:
  fixes g :: "nat \<Rightarrow> nat"
  assumes "mono g"
  shows "foldr (\<lambda>i m. max (g i) m) [0..<Suc k] 0 = g k"
proof -
  have "foldr (\<lambda>i m. max (g i) m) [0..<Suc k] a = max (g k) a" for a
  proof (induction k arbitrary: a)
    case (Suc k)
    have "g k \<le> g (Suc k)" using assms by (simp add: mono_def)
    moreover have "foldr (\<lambda>i m. max (g i) m) [0..<Suc (Suc k)] a = foldr (\<lambda>i m. max (g i) m) [0..<Suc k] (max (g (Suc k)) a)"
      by (simp only: upt_Suc_append foldr_append) simp
    ultimately show ?case unfolding Suc.IH by simp
  qed simp
  from this [of 0] show ?thesis by simp
qed

lemma total_size_chunks:
  assumes "0 < n" and "len + n < 2 ^ 64" and "c = chunk_width len n"
  shows "unat (total_size (chunk_table c len name 0 n)) = parallel_length len n"
proof -
  have le: "chunk_end c len j < 2 ^ 64" if "j < n" for j
  proof -
    have "chunk_end c len j \<le> max (j * c) len" unfolding chunk_end_def by linarith
    moreover have "max (j * c) len < 2 ^ 64" using chunk_bounds_nat(2) [OF that assms(2,3)] assms(2) by simp
    ultimately show ?thesis by (rule le_less_trans)
  qed
  have "unat (foldr (\<lambda>j m. max (of_nat (j * c) + of_nat (min c (len - j * c))) m) js (0 :: u64)) = foldr (\<lambda>j m. max (chunk_end c len j) m) js 0"
    if "\<forall>j \<in> set js. j < n" for js
    using that
  proof (induction js)
    case (Cons j js)
    have "(of_nat (j * c) + of_nat (min c (len - j * c)) :: u64) = of_nat (chunk_end c len j)" by (simp only: chunk_end_def of_nat_add)
    moreover have "unat (of_nat (chunk_end c len j) :: u64) = chunk_end c len j" by (rule unat_of_nat_id) (use le Cons.prems in simp)
    ultimately show ?case using Cons by (simp add: max_def word_le_nat_alt)
  qed simp
  then have "unat (total_size (chunk_table c len name 0 n)) =
      foldr (\<lambda>j m. max (chunk_end c len j) m) [0..<n] 0"
    by (simp add: total_size_def chunk_table_def foldr_map comp_def del: of_nat_mult)
  also have "\<dots> = chunk_end c len (n - 1)"
  proof -
    have "mono (chunk_end c len)"
    proof (rule monoI)
      fix x y :: nat assume "x \<le> y"
      then have "x * c \<le> y * c" by simp
      then show "chunk_end c len x \<le> chunk_end c len y" unfolding chunk_end_def by linarith
    qed
    from foldr_max_mono [OF this, of "n - 1"] show ?thesis using assms(1) by simp
  qed
  also have "\<dots> = parallel_length len n"
  proof -
    have "n * c = (n - 1) * c + c" using assms(1) by (metis Suc_pred' mult_Suc add.commute)
    with chunk_width_covers(1) [OF assms(1), of len] show ?thesis unfolding chunk_end_def parallel_length_def assms(3) [symmetric] by linarith
  qed
  finally show ?thesis .
qed

text \<open>What a receiver of all chunks puts into place.\<close>

lemma receive_parallel_sent:
  assumes "host_ok C" and "good_file (name, content)" and "0 < n" and "length content + n < 2 ^ 64"
  shows "\<exists>css. send_chunks (pc_host C) (pc_compress C) (pc_fips C) name content n [0..<n] = (css, None) \<and> length css = n \<and>
    receive_parallel (pc_host C) (pc_compress C) (pc_fips C) (pc_dest C) css f =
      Return (Some (Inr ()), replicate n [[ACK]], f(out_of C name \<mapsto> content @ replicate (parallel_length (length content) n - length content) 0))"
proof -
  let ?len = "length content" and ?out = "out_of C name"
  define c t where "c = chunk_width ?len n" and "t = parallel_length ?len n"
  let ?tab = "chunk_table c ?len name 0 n"
  let ?f = "(fs_open True ?out f)(?out \<mapsto> replicate (unat (total_size ?tab)) 0)"
  have tot: "unat (total_size ?tab) = t" unfolding t_def by (rule total_size_chunks [OF assms(3,4) c_def])
  have "?f ?out = Some (chunked c t content 0)" by (simp add: chunked_def tot)
  from chunks_arrive [where f = ?f, OF assms(1,2,4) c_def t_def _ this] obtain css where
    css: "send_chunks (pc_host C) (pc_compress C) (pc_fips C) name content n [0..<n] = (css, None)" "length css = n"
      "read_chunk_infos 0 css = Some (Inr ?tab)"
      "receive_chunks (pc_host C) (pc_compress C) (pc_fips C) 0 ?out (zip (map tl css) ?tab) ?f =
        (Some (Inr ()), replicate n [[ACK]], ?f(?out \<mapsto> chunked c t content n))" by auto
  obtain x where tab: "?tab = (of_nat (0 * c), x, name) # chunk_table c ?len name (Suc 0) n" using assms(3) chunk_table_simps(2) by blast
  have "chunked c t content n = content @ replicate (t - ?len) 0"
    using chunk_width_covers(1) [OF assms(3), of ?len] by (simp add: chunked_def c_def min_absorb2)
  moreover have "?f(?out \<mapsto> y) = f(?out \<mapsto> y)" for y by (simp add: fs_open_def)
  moreover have "receive_parallel (pc_host C) (pc_compress C) (pc_fips C) (pc_dest C) css f =
      Return (Some (Inr ()), replicate n [[ACK]], ?f(?out \<mapsto> chunked c t content n))"
    using assms(1) css(4) unfolding receive_parallel_def css(3) by (simp add: tab host_ok_def Let_def split: option.split)
  ultimately show ?thesis using css(1,2) by (simp add: t_def)
qed

text \<open>What a parallel transfer delivers. A file pushed in \<open>n\<close> chunk streams arrives, in every run, with its bytes in place, and both sides report
  success; but the receiver's file is as long as the furthest offset that a chunk announces, so it is the file followed by zeros. It is the
  file exactly if the last chunk does not start behind its end.\<close>

theorem parallel_transfer_pads:
  assumes "host_ok C" and "pc_files C = [(name, content)]" and "good_file (name, content)" and "1 < pc_parallel C" and "pc_parallel C \<le> 8"
    and "length content + 8 < 2 ^ 64"
  defines "pad \<equiv> (pc_parallel C - 1) * chunk_width (length content) (pc_parallel C) - length content"
  shows "runs_end_in C f (xfer_done C (f(out_of C name \<mapsto> content @ replicate pad 0)))"
proof -
  let ?n = "pc_parallel C" and ?c = "pc_compress C"
  let ?g = "f(out_of C name \<mapsto> content @ replicate pad 0)"
  let ?init = "Ctrl [PARALLEL_INIT, of_nat ?n]" and ?acks = "Chunks (replicate ?n [[ACK]])"
  have pad: "parallel_length (length content) ?n - length content = pad" by (simp add: parallel_length_def pad_def)
  obtain css where css: "send_chunks (pc_host C) ?c (pc_fips C) name content ?n [0..<?n] = (css, None)" "length css = ?n"
    "receive_parallel (pc_host C) ?c (pc_fips C) (pc_dest C) css f = Return (Some (Inr ()), replicate ?n [[ACK]], ?g)"
    using receive_parallel_sent [OF assms(1,3), of ?n f] assms(4-6) pad by auto
  have "tx C AwaitHelloAck (Ctrl [ACK]) = (AwaitChunkAcks ?n, [?init, Chunks css])"
    using assms(1,2,4,5) css(1) by (simp add: push_msg_def is_ack_def send_file_parallel_def host_ok_def Let_def max_absorb2 min_absorb2)
  from greeting_run [OF this] obtain k where
    k: "(xfer_step C ^^ k) (xfer_init C f) \<lparr>x_tx = AwaitChunkAcks ?n, x_rx = InRound ?c, x_down = [?init, Chunks css], x_up = [], x_fs = f\<rparr>" (is "(_ ^^ _) _ ?s") by blast
  have "unat (of_nat ?n :: u8) = ?n" by (rule unat_of_nat_id) (use assms(5) in simp)
  then have "feed C (InRound ?c) [?init, Chunks css] f = (InRound ?c, [?acks], ?g)"
    using css(2,3) by (simp add: recv_msg_def round_frame_def frame_types)
  with feed_all [of C ?s] obtain l where l: "(xfer_step C ^^ l) ?s (?s\<lparr>x_down := [], x_up := [?acks], x_fs := ?g\<rparr>)" by auto
  let ?t = "?s\<lparr>x_down := [], x_up := [?acks], x_fs := ?g\<rparr>"
  have "tx C (AwaitChunkAcks ?n) ?acks = (TxStopped (Inr ()), [Ctrl [DONE]])" by (simp add: push_msg_def is_ack_def)
  then have s1: "xfer_step C ?t (?t\<lparr>x_tx := TxStopped (Inr ()), x_up := [], x_down := [Ctrl [DONE]]\<rparr>)" using to_tx [of ?t] by simp
  let ?u = "?t\<lparr>x_tx := TxStopped (Inr ()), x_up := [], x_down := [Ctrl [DONE]]\<rparr>"
  have s2: "xfer_step C ?u (xfer_done C ?g)" using to_rx [of ?u "Ctrl [DONE]" "[]"] by (simp add: rx_done xfer_done_def)
  have "(xfer_step C ^^ (k + l)) (xfer_init C f) ?t" by (rule relpowp_trans [OF k l])
  from relpowp_Suc_I [OF relpowp_Suc_I [OF this s1] s2] show ?thesis by (rule runs_end_inI) (simp_all add: xfer_done_def)
qed

text \<open>A file of one byte in three streams arrives with a zero behind it.\<close>

theorem parallel_transfer_pads_witness:
  "runs_end_in ((demo_push False [([97], [7])])\<lparr>pc_parallel := 3\<rparr>) Map.empty
     (xfer_done ((demo_push False [([97], [7])])\<lparr>pc_parallel := 3\<rparr>) [[[100], [97]] \<mapsto> [7, 0]])"
proof -
  let ?C = "(demo_push False [([97], [7])])\<lparr>pc_parallel := 3\<rparr>"
  have "host_ok ?C" using demo_push_ok [of False "[([97], [7])]"] by (simp add: host_ok_def)
  then have "runs_end_in ?C Map.empty (xfer_done ?C (Map.empty(out_of ?C [97] \<mapsto> [7] @ replicate ((pc_parallel ?C - 1) * chunk_width (length [7 :: u8]) (pc_parallel ?C) - length [7 :: u8]) 0)))"
    by (rule parallel_transfer_pads) (simp_all add: demo_push_def good_file_def dangerous_def is_absolute_def)
  moreover have "out_of ?C [97] = [[100], [97]]" by (simp add: demo_push_def path_join_def is_absolute_def components_def)
  ultimately show ?thesis by (simp add: demo_push_def chunk_width_def)
qed

end
