(* ===== verification/Dir_Sync.thy ===== *)
theory Dir_Sync
  imports File_Transfer Duplex
begin

text \<open>
  \<^verbatim>\<open>bin/seam/sync.rs\<close>: the synchronisation of a directory, its manifests, and the two ends of a push and of a pull. The ends are cut at
  \<^verbatim>\<open>read_frame\<close> as in \<^verbatim>\<open>File_Transfer\<close>; \<open>None\<close> is the end of the connection. What a walk over a directory finds is the argument \<open>walk\<close>: the relative names of its
  regular files with their paths.
\<close>

section \<open>Constants and manifests\<close>

definition SYNC_MANIFEST :: u8 where "SYNC_MANIFEST = 0x20"
definition SYNC_FILE :: u8 where "SYNC_FILE = 0x21"
definition SYNC_FILE_DATA :: u8 where "SYNC_FILE_DATA = 0x22"
definition SYNC_FILE_ACK :: u8 where "SYNC_FILE_ACK = 0x23"
definition SYNC_DELETE :: u8 where "SYNC_DELETE = 0x24"
definition SYNC_DONE :: u8 where "SYNC_DONE = 0x25"
definition SYNC_HASH_LEN :: nat where "SYNC_HASH_LEN = 32"
definition SYNC_CHUNK :: nat where "SYNC_CHUNK = 32 * 1024"
definition MIN_ENTRY_LEN :: nat where "MIN_ENTRY_LEN = 4 + 8 + SYNC_HASH_LEN"

lemmas sync_tags = SYNC_MANIFEST_def SYNC_FILE_def SYNC_FILE_DATA_def SYNC_FILE_ACK_def SYNC_DELETE_def SYNC_DONE_def CHECKSUM_def

record manifest_entry =
  me_path :: bytes
  me_size :: u64
  me_hash :: bytes

datatype sync_error =
    ExpectedManifest | ManifestTooShort | ImplausibleCount nat nat | TruncatedAtPathLen | TruncatedAtPath | PathNotUtf8
  | HeaderTooShort | HeaderTruncated | DangerousPath bytes | EmptyFrameIn bytes | ChecksumBeforeData bytes | ExpectedFileData u8
  | HashMismatch bytes | ExpectedChecksum | IntegrityCheckFailed bytes | EmptyFrameError | UnexpectedSyncFrame u8 | SyncIo string
  | SyncXfer xfer_error | SyncClosed

definition encode_entry :: "manifest_entry \<Rightarrow> bytes" where
  "encode_entry e = u32_to_be (of_nat (length (me_path e))) @ me_path e @ u64_to_be (me_size e) @ me_hash e"

definition encode_manifest :: "manifest_entry list \<Rightarrow> bytes" where
  "encode_manifest entries = SYNC_MANIFEST # u32_to_be (of_nat (length entries)) @ concat (map encode_entry entries)"

fun decode_entries :: "nat \<Rightarrow> bytes \<Rightarrow> nat \<Rightarrow> sync_error + manifest_entry list" where
  "decode_entries 0 dat pos = Inr []"
| "decode_entries (Suc n) dat pos =
     (if pos + 4 > length dat then Inl TruncatedAtPathLen
      else
        let path_len = unat (of_be (slice dat pos (pos + 4)) :: u32); p = pos + 4
        in if p + path_len + 8 + SYNC_HASH_LEN > length dat then Inl TruncatedAtPath
           else if \<not> utf8_valid (slice dat p (p + path_len)) then Inl PathNotUtf8
           else
             let q = p + path_len;
                 e = \<lparr>me_path = slice dat p q, me_size = of_be (slice dat q (q + 8)), me_hash = slice dat (q + 8) (q + 8 + SYNC_HASH_LEN)\<rparr>
             in case decode_entries n dat (q + 8 + SYNC_HASH_LEN) of Inl err \<Rightarrow> Inl err | Inr es \<Rightarrow> Inr (e # es))"

definition decode_manifest :: "bytes \<Rightarrow> sync_error + manifest_entry list" where
  "decode_manifest frame =
     (if frame = [] \<or> hd frame \<noteq> SYNC_MANIFEST then Inl ExpectedManifest
      else
        let dat = tl frame
        in if length dat < 4 then Inl ManifestTooShort
           else
             let count = unat (of_be (slice dat 0 4) :: u32)
             in if count > length dat div MIN_ENTRY_LEN then Inl (ImplausibleCount count (length dat))
                else decode_entries count dat 4)"

function hash_loop :: "bytes \<Rightarrow> hasher \<Rightarrow> hasher" where
  "hash_loop rest h = (if rest = [] then h else hash_loop (drop SYNC_CHUNK rest) (hasher_update (take SYNC_CHUNK rest) h))"
  by pat_completeness auto

termination by (relation "measure (\<lambda>(rest, _). length rest)") (auto simp: SYNC_CHUNK_def)

declare hash_loop.simps [simp del]

definition hash_file :: "host \<Rightarrow> bool \<Rightarrow> bytes \<Rightarrow> bytes option \<Rightarrow> sync_error + bytes" where
  "hash_file H fips_mode name content =
     (case h_fs_err H (OpenRead name) of
        Some e \<Rightarrow> Inl (SyncIo e)
      | None \<Rightarrow>
          (case content of
             None \<Rightarrow> Inl (SyncIo ''not found'')
           | Some b \<Rightarrow> Inr (hasher_finalize H (hash_loop b (hasher_new fips_mode)))))"

type_synonym walk = "fpath \<Rightarrow> fs \<Rightarrow> (bytes \<times> fpath) list"

fun manifest_of :: "host \<Rightarrow> bool \<Rightarrow> fs \<Rightarrow> (bytes \<times> fpath) list \<Rightarrow> sync_error + manifest_entry list" where
  "manifest_of H fips_mode f [] = Inr []"
| "manifest_of H fips_mode f ((rel, path) # rest) =
     (case h_fs_err H (Metadata rel) of
        Some e \<Rightarrow> Inl (SyncIo e)
      | None \<Rightarrow>
          (case hash_file H fips_mode rel (f path) of
             Inl e \<Rightarrow> Inl e
           | Inr hash \<Rightarrow>
               (case manifest_of H fips_mode f rest of
                  Inl e \<Rightarrow> Inl e
                | Inr es \<Rightarrow> Inr (\<lparr>me_path = rel, me_size = of_nat (length (case f path of Some b \<Rightarrow> b | None \<Rightarrow> [])), me_hash = hash\<rparr> # es))))"

text \<open>A directory that does not exist has nothing to walk over.\<close>

definition build_manifest :: "host \<Rightarrow> bool \<Rightarrow> walk \<Rightarrow> fpath \<Rightarrow> fs \<Rightarrow> sync_error + manifest_entry list" where
  "build_manifest H fips_mode walk dir f = manifest_of H fips_mode f (walk dir f)"

section \<open>The manifest cache\<close>

record cached_entry =
  ce_path :: bytes
  ce_size :: u64
  ce_hash_hex :: string
  ce_mtime_sec :: u64

record cached_manifest =
  cm_version :: u8
  cm_cached_at :: u64
  cm_host :: bytes
  cm_remote_dir :: bytes
  cm_entries :: "cached_entry list"

definition manifest_cache_key :: "text_lib \<Rightarrow> host \<Rightarrow> bytes \<Rightarrow> bytes \<Rightarrow> string" where
  "manifest_cache_key T H host_name remote_dir = t_hex T (take 8 (h_sha256 H (host_name @ [0x3A] @ remote_dir)))"

text \<open>The record that \<^verbatim>\<open>save_manifest_cache\<close> writes, and what \<^verbatim>\<open>cached_to_manifest\<close> makes of it.\<close>

definition save_manifest_cache :: "text_lib \<Rightarrow> u64 \<Rightarrow> bytes \<Rightarrow> bytes \<Rightarrow> manifest_entry list \<Rightarrow> cached_manifest" where
  "save_manifest_cache T cached_at host_name remote_dir entries =
     \<lparr>cm_version = 1, cm_cached_at = cached_at, cm_host = host_name, cm_remote_dir = remote_dir,
      cm_entries = map (\<lambda>e. \<lparr>ce_path = me_path e, ce_size = me_size e, ce_hash_hex = t_hex T (me_hash e), ce_mtime_sec = 0\<rparr>) entries\<rparr>"

definition cached_entry_of :: "text_lib \<Rightarrow> cached_entry \<Rightarrow> manifest_entry option" where
  "cached_entry_of T e =
     (case t_unhex T (ce_hash_hex e) of
        None \<Rightarrow> None
      | Some b \<Rightarrow> if length b \<noteq> SYNC_HASH_LEN then None else Some \<lparr>me_path = ce_path e, me_size = ce_size e, me_hash = b\<rparr>)"

definition cached_to_manifest :: "text_lib \<Rightarrow> cached_manifest \<Rightarrow> manifest_entry list" where
  "cached_to_manifest T c = List.map_filter (cached_entry_of T) (cm_entries c)"

definition format_duration :: "nat \<Rightarrow> string" where
  "format_duration n =
     (if n < 60 then show_nat n @ ''s''
      else if n < 3600 then show_nat (n div 60) @ ''m''
      else if n < 86400 then show_nat (n div 3600) @ ''h''
      else show_nat (n div 86400) @ ''d'')"

section \<open>Sending\<close>

definition sync_header :: "manifest_entry \<Rightarrow> bytes" where
  "sync_header e = SYNC_FILE # u32_to_be (of_nat (length (me_path e))) @ me_path e @ u64_to_be (me_size e)"

function sync_loop :: "host \<Rightarrow> bool \<Rightarrow> u64 \<Rightarrow> u64 \<Rightarrow> bytes \<Rightarrow> hasher \<Rightarrow> bytes list \<times> (sync_error + hasher)" where
  "sync_loop H compress sent fsize avail h =
     (if sent < fsize \<and> avail \<noteq> []
      then let raw = take SYNC_CHUNK avail in
           (case pack H compress raw of
              Inl e \<Rightarrow> ([], Inl (SyncXfer e))
            | Inr payload \<Rightarrow>
                (case sync_loop H compress (sent + of_nat (length raw)) fsize (drop SYNC_CHUNK avail) (hasher_update raw h) of
                   (frs, r) \<Rightarrow> ((SYNC_FILE_DATA # payload) # frs, r)))
      else ([], Inr h))"
  by pat_completeness auto

termination by (relation "measure (\<lambda>(_, _, _, _, avail, _). length avail)") (auto simp: SYNC_CHUNK_def)

declare sync_loop.simps [simp del]

record sync_cfg =
  sc_host :: host
  sc_walk :: walk
  sc_dir :: fpath
  sc_fips :: bool
  sc_compress :: bool
  sc_delete :: bool

text \<open>Up to the wait for the acknowledgement.\<close>

definition send_sync_file :: "sync_cfg \<Rightarrow> fs \<Rightarrow> manifest_entry \<Rightarrow> bytes list \<times> sync_error option" where
  "send_sync_file C f e =
     (case h_fs_err (sc_host C) (OpenRead (me_path e)) of
        Some err \<Rightarrow> ([sync_header e], Some (SyncIo err))
      | None \<Rightarrow>
          (case f (path_join (sc_dir C) (me_path e)) of
             None \<Rightarrow> ([sync_header e], Some (SyncIo ''not found''))
           | Some content \<Rightarrow>
               (case sync_loop (sc_host C) (sc_compress C) 0 (me_size e) content (hasher_new (sc_fips C)) of
                  (frs, Inl err) \<Rightarrow> (sync_header e # frs, Some err)
                | (frs, Inr h) \<Rightarrow> (sync_header e # frs @ [CHECKSUM # hasher_finalize (sc_host C) h], None))))"

definition path_index :: "manifest_entry list \<Rightarrow> (bytes \<times> manifest_entry) list" where
  "path_index es = fold (\<lambda>e. AList.update (me_path e) e) es []"

definition differing :: "manifest_entry list \<Rightarrow> manifest_entry list \<Rightarrow> manifest_entry list" where
  "differing own peer =
     filter (\<lambda>e. case map_of (path_index peer) (me_path e) of None \<Rightarrow> True | Some pe \<Rightarrow> me_hash pe \<noteq> me_hash e) own"

definition only_in :: "manifest_entry list \<Rightarrow> manifest_entry list \<Rightarrow> bytes list" where
  "only_in peer own = map me_path (filter (\<lambda>e. me_path e \<notin> me_path ` set own) peer)"

definition delete_frame :: "bytes \<Rightarrow> bytes" where
  "delete_frame path = SYNC_DELETE # u32_to_be (of_nat (length path)) @ path"

definition push_closing :: "sync_cfg \<Rightarrow> manifest_entry list \<Rightarrow> manifest_entry list \<Rightarrow> bytes list" where
  "push_closing C local_manifest remote_manifest =
     [SYNC_DONE] # (if sc_delete C then map delete_frame (only_in remote_manifest local_manifest) else []) @ [[SYNC_DONE]]"

section \<open>Receiving\<close>

record sync_file =
  sf_path :: bytes
  sf_size :: u64
  sf_out :: fpath
  sf_received :: u64
  sf_pos :: nat
  sf_hasher :: hasher

definition parse_sync_header :: "bytes \<Rightarrow> sync_error + bytes \<times> u64" where
  "parse_sync_header fr =
     (if length fr < 13 then Inl HeaderTooShort
      else
        let path_len = unat (of_be (slice fr 1 5) :: u32)
        in if length fr < 5 + path_len + 8 then Inl HeaderTruncated
           else
             let path = slice fr 5 (5 + path_len)
             in if \<not> utf8_valid path then Inl PathNotUtf8
                else if dangerous path then Inl (DangerousPath path)
                else Inr (path, of_be (slice fr (5 + path_len) (5 + path_len + 8))))"

definition recv_sync_begin :: "sync_cfg \<Rightarrow> bytes \<Rightarrow> fs \<Rightarrow> (sync_error + sync_file) \<times> fs" where
  "recv_sync_begin C fr f =
     (case parse_sync_header fr of
        Inl e \<Rightarrow> (Inl e, f)
      | Inr (path, fsize) \<Rightarrow>
          let out = path_join (sc_dir C) path in
          (case (case parent out of Some d \<Rightarrow> h_fs_err (sc_host C) (CreateDirAll d) | None \<Rightarrow> None) of
             Some e \<Rightarrow> (Inl (SyncIo e), f)
           | None \<Rightarrow>
               (case h_fs_err (sc_host C) (OpenWrite out) of
                  Some e \<Rightarrow> (Inl (SyncIo e), f)
                | None \<Rightarrow>
                    (Inr \<lparr>sf_path = path, sf_size = fsize, sf_out = out, sf_received = 0, sf_pos = 0, sf_hasher = hasher_new (sc_fips C)\<rparr>,
                     fs_open True out f))))"

definition recv_sync_data :: "sync_cfg \<Rightarrow> sync_file \<Rightarrow> bytes \<Rightarrow> fs \<Rightarrow> (sync_error + sync_file) \<times> fs" where
  "recv_sync_data C sf fr f =
     (if fr = [] then (Inl (EmptyFrameIn (sf_path sf)), f)
      else if hd fr = CHECKSUM then (Inl (ChecksumBeforeData (sf_path sf)), f)
      else if hd fr \<noteq> SYNC_FILE_DATA then (Inl (ExpectedFileData (hd fr)), f)
      else case unpack (sc_host C) (sc_compress C) (tl fr) of
          Inl e \<Rightarrow> (Inl (SyncXfer e), f)
        | Inr raw \<Rightarrow>
            (case h_fs_err (sc_host C) (WriteAll (sf_out sf)) of
               Some e \<Rightarrow> (Inl (SyncIo e), f)
             | None \<Rightarrow>
                 (Inr (sf\<lparr>sf_received := sf_received sf + of_nat (length raw), sf_pos := sf_pos sf + length raw,
                          sf_hasher := hasher_update raw (sf_hasher sf)\<rparr>),
                  fs_write (sf_out sf) (sf_pos sf) raw f)))"

definition recv_sync_checksum :: "sync_cfg \<Rightarrow> sync_file \<Rightarrow> bytes \<Rightarrow> sync_error + bytes" where
  "recv_sync_checksum C sf fr =
     (if length fr = 1 + SYNC_HASH_LEN \<and> hd fr = CHECKSUM
      then if hasher_finalize (sc_host C) (sf_hasher sf) = tl fr then Inr [SYNC_FILE_ACK] else Inl (HashMismatch (sf_path sf))
      else Inl ExpectedChecksum)"

definition recv_delete :: "sync_cfg \<Rightarrow> bytes \<Rightarrow> fs \<Rightarrow> (sync_error + unit) \<times> fs" where
  "recv_delete C fr f =
     (if length fr < 5 then (Inr (), f)
      else
        let path_len = unat (of_be (slice fr 1 5) :: u32)
        in if length fr < 5 + path_len then (Inr (), f)
           else
             let path = slice fr 5 (5 + path_len)
             in if \<not> utf8_valid path then (Inl PathNotUtf8, f)
                else if dangerous path then (Inr (), f)
                else (Inr (), fs_remove (path_join (sc_dir C) path) f))"

definition delete_local :: "sync_cfg \<Rightarrow> manifest_entry list \<Rightarrow> manifest_entry list \<Rightarrow> fs \<Rightarrow> fs" where
  "delete_local C local_manifest remote_manifest f =
     fold (\<lambda>p. fs_remove (path_join (sc_dir C) p)) (only_in local_manifest remote_manifest) f"

section \<open>The two ends\<close>

text \<open>Where an end waits. The client of a push and the remote end of a pull send files: \<open>AwaitPeer\<close> is the wait for the other manifest, \<open>AwaitAck\<close> for an
  acknowledgement, with the files left and the frames that follow them. The other two ends receive: before the manifest of
  the remote end of a pull, between files, in a file, and among the commands to delete. Both remote ends first wait for the client to open a stream
  (\<open>AwaitStream\<close>, for a push or not); a stream opens on their side with the first data on it, since opening one sends nothing.\<close>

datatype sync_pc =
    AwaitPeer bool "manifest_entry list"
  | AwaitAck manifest_entry "manifest_entry list" "bytes list"
  | AwaitStream bool | AwaitRemoteManifest
  | BetweenFiles "(manifest_entry list \<times> manifest_entry list) option"
  | InSyncFile "(manifest_entry list \<times> manifest_entry list) option" sync_file
  | Deleting
  | SyncStopped "sync_error + unit"

type_synonym sync_state = "sync_pc \<times> fs"

fun send_next :: "sync_cfg \<Rightarrow> fs \<Rightarrow> manifest_entry list \<Rightarrow> bytes list \<Rightarrow> sync_pc \<times> bytes list" where
  "send_next C f [] closing = (SyncStopped (Inr ()), closing)"
| "send_next C f (e # es) closing =
     (case send_sync_file C f e of
        (frs, Some err) \<Rightarrow> (SyncStopped (Inl err), frs)
      | (frs, None) \<Rightarrow> (AwaitAck e es closing, frs))"

definition push_client_start :: "sync_cfg \<Rightarrow> fs \<Rightarrow> sync_state \<times> bytes list" where
  "push_client_start C f =
     (case build_manifest (sc_host C) (sc_fips C) (sc_walk C) (sc_dir C) f of
        Inl e \<Rightarrow> ((SyncStopped (Inl e), f), [])
      | Inr m \<Rightarrow> ((AwaitPeer True m, f), [encode_manifest m]))"

text \<open>The client of a pull opens its stream and waits; the remote ends wait for a stream.\<close>

definition pull_client_start :: "fs \<Rightarrow> sync_state" where
  "pull_client_start f = (AwaitRemoteManifest, f)"

definition remote_start :: "bool \<Rightarrow> fs \<Rightarrow> sync_state" where
  "remote_start is_push f = (AwaitStream is_push, f)"

definition sender_frame :: "sync_cfg \<Rightarrow> sync_pc \<Rightarrow> bytes \<Rightarrow> fs \<Rightarrow> sync_pc \<times> bytes list" where
  "sender_frame C pc fr f =
     (case pc of
        AwaitPeer is_push own \<Rightarrow>
          (case decode_manifest fr of
             Inl e \<Rightarrow> (SyncStopped (Inl e), [])
           | Inr peer \<Rightarrow> send_next C f (differing own peer) (if is_push then push_closing C own peer else [[SYNC_DONE]]))
      | AwaitAck e es closing \<Rightarrow>
          if fr = [] \<or> hd fr \<noteq> SYNC_FILE_ACK then (SyncStopped (Inl (IntegrityCheckFailed (me_path e))), [])
          else send_next C f es closing
      | _ \<Rightarrow> (pc, []))"

text \<open>On the remote end of a push the frames \<open>BetweenFiles\<close> carry no manifests, on the client of a pull both.\<close>

definition files_done :: "sync_cfg \<Rightarrow> (manifest_entry list \<times> manifest_entry list) option \<Rightarrow> fs \<Rightarrow> sync_state" where
  "files_done C manifests f =
     (case manifests of
        None \<Rightarrow> (if sc_delete C then Deleting else SyncStopped (Inr ()), f)
      | Some (local_manifest, remote_manifest) \<Rightarrow>
          (SyncStopped (Inr ()), if sc_delete C then delete_local C local_manifest remote_manifest f else f))"

definition between_frame :: "sync_cfg \<Rightarrow> (manifest_entry list \<times> manifest_entry list) option \<Rightarrow> bytes \<Rightarrow> fs \<Rightarrow> sync_state" where
  "between_frame C manifests fr f =
     (if fr = [] then (SyncStopped (Inl EmptyFrameError), f)
      else if hd fr = SYNC_FILE
      then (case recv_sync_begin C fr f of
              (Inl e, f') \<Rightarrow> (SyncStopped (Inl e), f')
            | (Inr sf, f') \<Rightarrow> (InSyncFile manifests sf, f'))
      else if hd fr = SYNC_DONE then files_done C manifests f
      else (SyncStopped (Inl (UnexpectedSyncFrame (hd fr))), f))"

definition in_file_frame :: "sync_cfg \<Rightarrow> (manifest_entry list \<times> manifest_entry list) option \<Rightarrow> sync_file \<Rightarrow> bytes \<Rightarrow> fs \<Rightarrow> sync_state \<times> bytes list" where
  "in_file_frame C manifests sf fr f =
     (if sf_received sf < sf_size sf
      then (case recv_sync_data C sf fr f of
              (Inl e, f') \<Rightarrow> ((SyncStopped (Inl e), f'), [])
            | (Inr sf', f') \<Rightarrow> ((InSyncFile manifests sf', f'), []))
      else (case recv_sync_checksum C sf fr of
              Inl e \<Rightarrow> ((SyncStopped (Inl e), f), [])
            | Inr ack \<Rightarrow> ((BetweenFiles manifests, f), [ack])))"

definition deleting_frame :: "sync_cfg \<Rightarrow> bytes \<Rightarrow> fs \<Rightarrow> sync_state" where
  "deleting_frame C fr f =
     (if fr = [] then (SyncStopped (Inl EmptyFrameError), f)
      else if hd fr = SYNC_DELETE
      then (case recv_delete C fr f of (Inl e, f') \<Rightarrow> (SyncStopped (Inl e), f') | (Inr _, f') \<Rightarrow> (Deleting, f'))
      else if hd fr = SYNC_DONE then (SyncStopped (Inr ()), f)
      else (Deleting, f))"

definition client_manifest_frame :: "sync_cfg \<Rightarrow> bytes \<Rightarrow> fs \<Rightarrow> sync_state \<times> bytes list" where
  "client_manifest_frame C fr f =
     (case decode_manifest fr of
        Inl e \<Rightarrow> ((SyncStopped (Inl e), f), [])
      | Inr _ \<Rightarrow>
          (case build_manifest (sc_host C) (sc_fips C) (sc_walk C) (sc_dir C) f of
             Inl e \<Rightarrow> ((SyncStopped (Inl e), f), [])
           | Inr m \<Rightarrow> ((BetweenFiles None, f), [encode_manifest m])))"

text \<open>The stream has opened, and the first frame on it follows.\<close>

definition stream_opened :: "sync_cfg \<Rightarrow> bool \<Rightarrow> bytes \<Rightarrow> fs \<Rightarrow> sync_state \<times> bytes list" where
  "stream_opened C is_push fr f =
     (case h_fs_err (sc_host C) (CreateDirAll (sc_dir C)) of
        Some e \<Rightarrow> ((SyncStopped (Inl (SyncIo e)), f), [])
      | None \<Rightarrow>
          if is_push then client_manifest_frame C fr f
          else
            (case build_manifest (sc_host C) (sc_fips C) (sc_walk C) (sc_dir C) f of
               Inl e \<Rightarrow> ((SyncStopped (Inl e), f), [])
             | Inr m \<Rightarrow> (case sender_frame C (AwaitPeer False m) fr f of (pc', out) \<Rightarrow> ((pc', f), encode_manifest m # out))))"

definition remote_manifest_frame :: "sync_cfg \<Rightarrow> bytes \<Rightarrow> fs \<Rightarrow> sync_state \<times> bytes list" where
  "remote_manifest_frame C fr f =
     (case decode_manifest fr of
        Inl e \<Rightarrow> ((SyncStopped (Inl e), f), [])
      | Inr remote_manifest \<Rightarrow>
          (case h_fs_err (sc_host C) (CreateDirAll (sc_dir C)) of
             Some e \<Rightarrow> ((SyncStopped (Inl (SyncIo e)), f), [])
           | None \<Rightarrow>
               (case build_manifest (sc_host C) (sc_fips C) (sc_walk C) (sc_dir C) f of
                  Inl e \<Rightarrow> ((SyncStopped (Inl e), f), [])
                | Inr m \<Rightarrow> ((BetweenFiles (Some (m, remote_manifest)), f), [encode_manifest m]))))"

definition sync_msg :: "sync_cfg \<Rightarrow> sync_state \<Rightarrow> bytes option \<Rightarrow> sync_state \<times> bytes option list" where
  "sync_msg C s m =
     (case s of (pc, f) \<Rightarrow>
        case (pc, m) of
          (SyncStopped _, _) \<Rightarrow> (s, [])
        | (_, None) \<Rightarrow> ((SyncStopped (Inl SyncClosed), f), [])
        | (AwaitStream is_push, Some fr) \<Rightarrow> map_prod id (map Some) (stream_opened C is_push fr f)
        | (AwaitRemoteManifest, Some fr) \<Rightarrow> map_prod id (map Some) (remote_manifest_frame C fr f)
        | (BetweenFiles ms, Some fr) \<Rightarrow> (between_frame C ms fr f, [])
        | (InSyncFile ms sf, Some fr) \<Rightarrow> map_prod id (map Some) (in_file_frame C ms sf fr f)
        | (Deleting, Some fr) \<Rightarrow> (deleting_frame C fr f, [])
        | (_, Some fr) \<Rightarrow> (case sender_frame C pc fr f of (pc', out) \<Rightarrow> ((pc', f), map Some out)))"

end
