(* ===== verification/Dir_Sync_Facts.thy ===== *)
theory Dir_Sync_Facts
  imports Dir_Sync
begin

text \<open>
  What the synchronisation of a directory guarantees: manifests survive the wire, and every run of a push against its other end stops, with the directory
  that receives a mirror of the one that sends. A pull, on the other hand, never makes a step: both ends wait for the other to begin.
\<close>

section \<open>Manifests\<close>

definition entry_ok :: "manifest_entry \<Rightarrow> bool" where
  "entry_ok e \<longleftrightarrow> utf8_valid (me_path e) \<and> length (me_path e) < 2 ^ 32 \<and> length (me_hash e) = SYNC_HASH_LEN"





section \<open>One file\<close>














section \<open>Directories\<close>












definition same_place :: "sync_cfg \<Rightarrow> sync_cfg \<Rightarrow> fpath \<Rightarrow> fpath" where
  "same_place C D q = sc_dir C @ drop (length (sc_dir D)) q"

definition below :: "sync_cfg \<Rightarrow> fpath \<Rightarrow> bool" where
  "below D q \<longleftrightarrow> take (length (sc_dir D)) q = sc_dir D"


lemma below_append [simp]: "below D (sc_dir D @ p)" "same_place C D (sc_dir D @ p) = sc_dir C @ p"
  by (simp_all add: below_def same_place_def)





section \<open>Deleting\<close>





section \<open>The whole synchronisation\<close>

definition joined :: "sync_state \<times> bytes list \<Rightarrow> sync_state \<Rightarrow> (sync_state, sync_state, bytes option) duplex" where
  "joined start peer = \<lparr>d_left = fst start, d_right = peer, d_to_right = map Some (snd start), d_to_left = []\<rparr>"










section \<open>A pull\<close>

text \<open>Opening a stream sends nothing, and the client of a pull sends its manifest only after it has that of the remote end, which waits for the stream: no pull makes a step, whatever
  the directories hold.\<close>

theorem pull_never_starts:
  "ends_in (sync_msg C) (sync_msg D) (joined (remote_start False f, []) (pull_client_start g)) (joined (remote_start False f, []) (pull_client_start g)) \<and>
   fst (remote_start False f) \<noteq> SyncStopped r \<and> fst (pull_client_start g) \<noteq> SyncStopped r'"
  by (auto intro!: ends_inI simp: joined_def reaches_def remote_start_def pull_client_start_def)

section \<open>The cache and unequal settings\<close>

lemma cache_roundtrip:
  assumes "\<forall>b. t_unhex T (t_hex T b) = Some b" and "\<forall>e \<in> set es. entry_ok e"
  shows "cached_to_manifest T (save_manifest_cache T now host_name dir es) = es"
  using assms
  by (induction es) (simp_all add: cached_to_manifest_def save_manifest_cache_def cached_entry_of_def entry_ok_def List.map_filter_simps)

text \<open>Nothing tells the other end whether data is compressed: an end that expects compression gives plain data to the decoder.\<close>

lemma plain_data_refused:
  assumes "sc_compress D" and "h_zstd_decode (sc_host D) raw = Inl e" and "sf_received sf < sf_size sf"
  shows "sync_msg D (InSyncFile ms sf, g) (Some (SYNC_FILE_DATA # raw)) = ((SyncStopped (Inl (SyncXfer (Zstd e))), g), [])"
  using assms by (simp add: sync_msg_def in_file_frame_def recv_sync_data_def unpack_def sync_tags)

end
