(* ===== verification/Pools.thy ===== *)
theory Pools
  imports Float_Ops
begin

text \<open>
  The buffer pools of \<^verbatim>\<open>transport/pool.rs\<close> and \<^verbatim>\<open>bufpool.rs\<close> and the statistics record of \<^verbatim>\<open>transport/stats.rs\<close>. The handles of a pool share its buffers
  behind a lock or a channel, so a pool is one value that the calls of all handles update. What both pools promise is the locale \<open>buffer_source\<close>.
\<close>

section \<open>The contract of a pool\<close>

datatype 'b pool_op = Take | Give 'b

locale buffer_source =
  fixes take_buf :: "'p \<Rightarrow> 'b \<times> 'p"
    and give_buf :: "'b \<Rightarrow> 'p \<Rightarrow> 'p"
    and inv :: "'p \<Rightarrow> bool"
    and handed_out :: "'b \<Rightarrow> bool"
    and may_give :: "'b \<Rightarrow> bool"
  assumes take_ok: "inv p \<Longrightarrow> take_buf p = (b, p') \<Longrightarrow> handed_out b \<and> inv p'"
    and give_ok: "inv p \<Longrightarrow> may_give b \<Longrightarrow> inv (give_buf b p)"
begin

definition pool_run :: "'b pool_op list \<Rightarrow> 'p \<Rightarrow> 'b list \<times> 'p" where
  "pool_run ops p = fold (\<lambda>op (out, p). case op of Take \<Rightarrow> (case take_buf p of (b, p') \<Rightarrow> (out @ [b], p')) | Give b \<Rightarrow> (out, give_buf b p)) ops ([], p)"

lemma run_ok:
  assumes "inv p" and "\<forall>b. Give b \<in> set ops \<longrightarrow> may_give b" and "pool_run ops p = (out, p')"
  shows "inv p' \<and> (\<forall>b \<in> set out. handed_out b)"
proof -
  have "inv p' \<and> (\<forall>b \<in> set out'. handed_out b)"
    if "fold (\<lambda>op (out, p). case op of Take \<Rightarrow> (case take_buf p of (b, p') \<Rightarrow> (out @ [b], p')) | Give b \<Rightarrow> (out, give_buf b p)) ops (out, p) = (out', p')"
      and "inv p" and "\<forall>b \<in> set out. handed_out b" and "\<forall>b. Give b \<in> set ops \<longrightarrow> may_give b" for out p out'
    using that
  proof (induction ops arbitrary: out p)
    case (Cons op ops)
    show ?case
    proof (cases op)
      case Take
      obtain b q where t: "take_buf p = (b, q)" by fastforce
      with Cons.prems(2) take_ok have "handed_out b" "inv q" by blast+
      with Cons.IH [of "out @ [b]" q] Cons.prems Take t show ?thesis by auto
    next
      case (Give b)
      with Cons.IH [of out "give_buf b p"] Cons.prems give_ok show ?thesis by auto
    qed
  qed simp
  from this [of "[]" p out] assms show ?thesis by (simp add: pool_run_def)
qed

end

section \<open>The pool of vectors\<close>

text \<open>A vector of bytes with its capacity. An allocation returns at least the capacity asked for; how much is the argument \<open>alloc\<close>.\<close>

record vec_u8 =
  vec_bytes :: bytes
  vec_capacity :: nat

record buffer_pool =
  bp_inner :: "vec_u8 list"
  bp_buf_capacity :: nat
  bp_max_pool_size :: nat

definition buffer_pool_new :: "nat \<Rightarrow> nat \<Rightarrow> buffer_pool" where
  "buffer_pool_new buf_capacity max_pool_size = \<lparr>bp_inner = [], bp_buf_capacity = buf_capacity, bp_max_pool_size = max_pool_size\<rparr>"

definition buffer_pool_default :: buffer_pool where
  "buffer_pool_default = buffer_pool_new 1500 256"

definition with_capacity :: "(nat \<Rightarrow> nat) \<Rightarrow> nat \<Rightarrow> vec_u8" where
  "with_capacity alloc n = \<lparr>vec_bytes = [], vec_capacity = alloc n\<rparr>"

definition pool_acquire :: "(nat \<Rightarrow> nat) \<Rightarrow> buffer_pool \<Rightarrow> vec_u8 \<times> buffer_pool" where
  "pool_acquire alloc p =
     (if bp_inner p = [] then (with_capacity alloc (bp_buf_capacity p), p)
      else
        let buf = (last (bp_inner p))\<lparr>vec_bytes := []\<rparr>; p' = p\<lparr>bp_inner := butlast (bp_inner p)\<rparr>
        in if vec_capacity buf \<ge> bp_buf_capacity p then (buf, p') else (with_capacity alloc (bp_buf_capacity p), p'))"

definition pool_release :: "vec_u8 \<Rightarrow> buffer_pool \<Rightarrow> buffer_pool" where
  "pool_release buf p =
     (if vec_capacity buf < bp_buf_capacity p then p
      else if length (bp_inner p) < bp_max_pool_size p then p\<lparr>bp_inner := bp_inner p @ [buf]\<rparr>
      else p)"

definition pool_len :: "buffer_pool \<Rightarrow> nat" where
  "pool_len p = length (bp_inner p)"

definition pool_ok :: "nat \<Rightarrow> nat \<Rightarrow> buffer_pool \<Rightarrow> bool" where
  "pool_ok cap limit p \<longleftrightarrow> bp_buf_capacity p = cap \<and> bp_max_pool_size p = limit \<and> pool_len p \<le> limit \<and>
     (\<forall>b \<in> set (bp_inner p). cap \<le> vec_capacity b)"

section \<open>The pool of fixed buffers\<close>

text \<open>A channel of \<open>POOL_SIZE\<close> places that is full at first; \<open>fp_open\<close> is false once the pool is gone and only its buffers are left.\<close>

definition POOL_SIZE :: nat where "POOL_SIZE = 256"
definition BUF_SIZE :: nat where "BUF_SIZE = 1500"

record fixed_pool =
  fp_channel :: "bytes list"
  fp_open :: bool

definition fixed_pool_new :: fixed_pool where
  "fixed_pool_new = \<lparr>fp_channel = replicate POOL_SIZE (replicate BUF_SIZE 0), fp_open = True\<rparr>"

definition fixed_get :: "fixed_pool \<Rightarrow> bytes \<times> fixed_pool" where
  "fixed_get p =
     (case fp_channel p of
        [] \<Rightarrow> (replicate BUF_SIZE 0, p)
      | b # bs \<Rightarrow> (b, p\<lparr>fp_channel := bs\<rparr>))"

text \<open>The drop of a buffer: \<^verbatim>\<open>try_send\<close> fails on a full or closed channel, and the buffer is freed.\<close>

definition fixed_drop :: "bytes \<Rightarrow> fixed_pool \<Rightarrow> fixed_pool" where
  "fixed_drop b p = (if fp_open p \<and> length (fp_channel p) < POOL_SIZE then p\<lparr>fp_channel := fp_channel p @ [b]\<rparr> else p)"

definition fixed_ok :: "fixed_pool \<Rightarrow> bool" where
  "fixed_ok p \<longleftrightarrow> length (fp_channel p) \<le> POOL_SIZE \<and> (\<forall>b \<in> set (fp_channel p). length b = BUF_SIZE)"

section \<open>Both keep the contract\<close>

interpretation vectors: buffer_source "pool_acquire (\<lambda>n. n + extra)" pool_release "pool_ok cap limit"
  "\<lambda>b. vec_bytes b = [] \<and> cap \<le> vec_capacity b" "\<lambda>_. True"
  for extra cap limit
proof unfold_locales
  fix p b p' assume ok: "pool_ok cap limit p" and t: "pool_acquire (\<lambda>n. n + extra) p = (b, p')"
  have sub: "set (butlast (bp_inner p)) \<subseteq> set (bp_inner p)" by (auto dest: in_set_butlastD)
  show "(vec_bytes b = [] \<and> cap \<le> vec_capacity b) \<and> pool_ok cap limit p'"
    using ok t sub by (auto simp: pool_acquire_def with_capacity_def pool_ok_def pool_len_def Let_def split: if_splits)
next
  fix p b assume "pool_ok cap limit p"
  then show "pool_ok cap limit (pool_release b p)" by (auto simp: pool_release_def pool_ok_def pool_len_def)
qed

interpretation arrays: buffer_source fixed_get fixed_drop fixed_ok "\<lambda>b. length b = BUF_SIZE" "\<lambda>b. length b = BUF_SIZE"
proof unfold_locales
  show "fixed_ok p \<Longrightarrow> fixed_get p = (b, p') \<Longrightarrow> length b = BUF_SIZE \<and> fixed_ok p'" for p b p'
    by (auto simp: fixed_get_def fixed_ok_def split: list.splits)
  show "fixed_ok p \<Longrightarrow> length b = BUF_SIZE \<Longrightarrow> fixed_ok (fixed_drop b p)" for p b
    by (auto simp: fixed_drop_def fixed_ok_def)
qed

text \<open>The calls of all handles of a pool, one after the other.\<close>

fun pool_calls :: "nat \<Rightarrow> vec_u8 pool_op list \<Rightarrow> buffer_pool \<Rightarrow> vec_u8 list \<times> buffer_pool" where
  "pool_calls extra [] p = ([], p)"
| "pool_calls extra (Take # ops) p =
     (case pool_acquire (\<lambda>n. n + extra) p of (b, p') \<Rightarrow> (case pool_calls extra ops p' of (out, q) \<Rightarrow> (b # out, q)))"
| "pool_calls extra (Give b # ops) p = pool_calls extra ops (pool_release b p)"

lemma fold_calls:
  "fold (\<lambda>op (out, p). case op of Take \<Rightarrow> (case pool_acquire (\<lambda>n. n + extra) p of (b, p') \<Rightarrow> (out @ [b], p')) | Give b \<Rightarrow> (out, pool_release b p)) ops (out, p) =
     (case pool_calls extra ops p of (out', q) \<Rightarrow> (out @ out', q))"
  by (induction extra ops p arbitrary: out rule: pool_calls.induct) (simp_all split: prod.splits)

text \<open>C32: A buffer from the pool is always empty and large enough. Through any sequence of calls of any handles, whatever vectors are handed back, with whatever content and
  capacity: every vector the pool hands out is empty and has at least the promised capacity, every vector it keeps has that capacity, and it never keeps more
  than its limit.\<close>

theorem pool_buffers_typed:
  assumes "pool_calls extra ops (buffer_pool_new cap limit) = (out, p)"
  shows "(\<forall>b \<in> set out. vec_bytes b = [] \<and> cap \<le> vec_capacity b) \<and> pool_len p \<le> limit \<and> (\<forall>b \<in> set (bp_inner p). cap \<le> vec_capacity b)"
proof -
  have new: "pool_ok cap limit (buffer_pool_new cap limit)" by (simp add: pool_ok_def buffer_pool_new_def pool_len_def)
  have run: "vectors.pool_run extra ops (buffer_pool_new cap limit) = (out, p)"
    using fold_calls [of extra ops "[]" "buffer_pool_new cap limit"] assms by (simp add: vectors.pool_run_def)
  from vectors.run_ok [OF new _ run] show ?thesis by (simp add: pool_ok_def)
qed

theorem pool_buffers_typed_witness:
  "pool_calls 0 [Give \<lparr>vec_bytes = [1, 2], vec_capacity = 9\<rparr>, Take, Take, Give \<lparr>vec_bytes = [], vec_capacity = 3\<rparr>] (buffer_pool_new 8 4) =
     ([\<lparr>vec_bytes = [], vec_capacity = 9\<rparr>, \<lparr>vec_bytes = [], vec_capacity = 8\<rparr>], buffer_pool_new 8 4) \<and> pool_len (buffer_pool_new 8 4) \<le> 4"
proof -
  have run: "pool_calls 0 [Give \<lparr>vec_bytes = [1, 2], vec_capacity = 9\<rparr>, Take, Take, Give \<lparr>vec_bytes = [], vec_capacity = 3\<rparr>] (buffer_pool_new 8 4) =
     ([\<lparr>vec_bytes = [], vec_capacity = 9\<rparr>, \<lparr>vec_bytes = [], vec_capacity = 8\<rparr>], buffer_pool_new 8 4)"
    by (simp add: buffer_pool_new_def pool_acquire_def pool_release_def with_capacity_def)
  from run pool_buffers_typed [OF run] show ?thesis by simp
qed

text \<open>A fixed buffer comes back with what its last user left in it.\<close>

lemma fixed_buffer_keeps_content:
  assumes "fp_open p" and "fp_channel p = []"
  shows "fst (fixed_get (fixed_drop b p)) = b"
  using assms by (simp add: fixed_get_def fixed_drop_def POOL_SIZE_def)

lemma fixed_new_ok: "fixed_ok fixed_pool_new"
  by (simp add: fixed_ok_def fixed_pool_new_def)

lemmas fixed_run_ok = arrays.run_ok [OF fixed_new_ok]

section \<open>Statistics\<close>

record connection_stats =
  st_bytes_sent :: u64
  st_bytes_recv :: u64
  st_packets_sent :: u64
  st_packets_recv :: u64
  st_packets_lost :: u64
  st_retransmits :: u64
  st_fec_recovered :: u64
  st_fec_unrecoverable :: u64
  st_cwnd_bytes :: u64
  st_bytes_in_flight :: u64
  st_srtt :: duration
  st_rttvar :: duration
  st_min_rtt :: duration
  st_max_rtt :: duration
  st_streams_opened :: u64
  st_streams_closed :: u64
  st_active_streams :: u32
  st_datagrams_sent :: u64
  st_datagrams_recv :: u64
  st_datagrams_dropped :: u64
  st_handshake_duration_us :: u64
  st_cookie_challenges_issued :: u64
  st_cookie_failures :: u64
  st_path_mtu :: u32
  st_current_cc :: string

definition stats_new :: connection_stats where
  "stats_new =
     \<lparr>st_bytes_sent = 0, st_bytes_recv = 0, st_packets_sent = 0, st_packets_recv = 0, st_packets_lost = 0, st_retransmits = 0, st_fec_recovered = 0,
      st_fec_unrecoverable = 0, st_cwnd_bytes = 0, st_bytes_in_flight = 0, st_srtt = 0, st_rttvar = 0, st_min_rtt = 0, st_max_rtt = 0,
      st_streams_opened = 0, st_streams_closed = 0, st_active_streams = 0, st_datagrams_sent = 0, st_datagrams_recv = 0, st_datagrams_dropped = 0,
      st_handshake_duration_us = 0, st_cookie_challenges_issued = 0, st_cookie_failures = 0, st_path_mtu = 0, st_current_cc = []\<rparr>"

definition record_rtt :: "duration \<Rightarrow> connection_stats \<Rightarrow> connection_stats" where
  "record_rtt rtt s =
     (let s1 = (if st_min_rtt s = 0 \<or> rtt < st_min_rtt s then s\<lparr>st_min_rtt := rtt\<rparr> else s)
      in if rtt > st_max_rtt s1 then s1\<lparr>st_max_rtt := rtt\<rparr> else s1)"

definition loss_rate :: "'f float_ops \<Rightarrow> connection_stats \<Rightarrow> 'f" where
  "loss_rate F s = f_div F (f_of_u64 F (st_packets_lost s)) (f_of_u64 F (max (st_packets_sent s) 1))"

definition retransmit_rate :: "'f float_ops \<Rightarrow> connection_stats \<Rightarrow> 'f" where
  "retransmit_rate F s = f_div F (f_of_u64 F (st_retransmits s)) (f_of_u64 F (max (st_packets_sent s) 1))"

definition goodput_bytes :: "connection_stats \<Rightarrow> u64" where
  "goodput_bytes s = sat_sub (st_bytes_sent s) (sat_mul (st_retransmits s) 1400)"

lemma record_rtt_step:
  "st_min_rtt (record_rtt r s) = (if st_min_rtt s = 0 then r else min r (st_min_rtt s))" "st_max_rtt (record_rtt r s) = max r (st_max_rtt s)"
  by (simp_all add: record_rtt_def Let_def min_def max_def)

lemma rtt_extremes:
  assumes "rtts \<noteq> []" and "0 \<notin> set rtts"
  shows "st_min_rtt (fold record_rtt rtts stats_new) = Min (set rtts) \<and> st_max_rtt (fold record_rtt rtts stats_new) = Max (set rtts)"
  using assms
proof (induction rtts rule: rev_induct)
  case (snoc r rs)
  show ?case
  proof (cases "rs = []")
    case False
    with snoc have ih: "st_min_rtt (fold record_rtt rs stats_new) = Min (set rs)" "st_max_rtt (fold record_rtt rs stats_new) = Max (set rs)" by simp_all
    moreover have "Min (set rs) \<noteq> 0" using False snoc.prems Min_in [of "set rs"] by (metis List.finite_set Un_iff set_append set_empty)
    ultimately show ?thesis using False by (simp add: record_rtt_step min.commute max.commute del: Min_eq_iff Max_eq_iff neq0_conv)
  qed (simp add: record_rtt_step stats_new_def)
qed simp

text \<open>A round trip time of zero is taken for none at all.\<close>

lemma zero_rtt_forgotten: "0 < r \<Longrightarrow> st_min_rtt (fold record_rtt [0, r] stats_new) = r"
  by (simp add: record_rtt_def stats_new_def Let_def)

end
