(* ===== verification/Remote_Mount.thy ===== *)
theory Remote_Mount
  imports File_Transfer
begin

text \<open>
  \<^verbatim>\<open>bin/seam/mount.rs\<close>: a directory served over a connection and mounted on the other side. The server answers one request per stream; the client side turns the
  calls of the kernel into requests, with a table of inodes and a table of open files. What the server's operating system says about a path is the record
  \<open>export\<close>. A request and its answers are the argument \<open>remote\<close> of the client: the frames that arrive on the stream, and the error that follows them if the connection
  is lost; without one, a client that wants another frame waits, which is the value \<open>None\<close>. Every request opens a stream of the connection, no stream is ever given back, and
  opening one beyond the limit of the session panics; the serving side opens none, so the streams are counted on the client.
\<close>

section \<open>Text that may not be UTF-8\<close>

text \<open>\<^verbatim>\<open>String::from_utf8_lossy\<close>: every longest beginning of a character that is not completed becomes one replacement character.\<close>

definition utf8_width :: "u8 \<Rightarrow> nat" where
  "utf8_width b =
     (if b < 0x80 then 1 else if 0xC2 \<le> b \<and> b \<le> 0xDF then 2 else if 0xE0 \<le> b \<and> b \<le> 0xEF then 3 else if 0xF0 \<le> b \<and> b \<le> 0xF4 then 4 else 0)"

definition second_ok :: "u8 \<Rightarrow> u8 \<Rightarrow> bool" where
  "second_ok b c \<longleftrightarrow> continuation c \<and> (b = 0xE0 \<longrightarrow> 0xA0 \<le> c) \<and> (b = 0xED \<longrightarrow> c \<le> 0x9F) \<and> (b = 0xF0 \<longrightarrow> 0x90 \<le> c) \<and> (b = 0xF4 \<longrightarrow> c \<le> 0x8F)"

definition good_tail :: "u8 \<Rightarrow> bytes \<Rightarrow> nat" where
  "good_tail b bs =
     (case bs of [] \<Rightarrow> 0 | c # cs \<Rightarrow> if second_ok b c then 1 + length (takeWhile continuation (take (utf8_width b - 2) cs)) else 0)"

definition replacement :: bytes where "replacement = [0xEF, 0xBF, 0xBD]"

function utf8_lossy :: "bytes \<Rightarrow> bytes" where
  "utf8_lossy [] = []"
| "utf8_lossy (b # bs) =
     (if utf8_width b = 1 then b # utf8_lossy bs
      else if utf8_width b = 0 then replacement @ utf8_lossy bs
      else if good_tail b bs = utf8_width b - 1 then b # take (utf8_width b - 1) bs @ utf8_lossy (drop (utf8_width b - 1) bs)
      else replacement @ utf8_lossy (drop (good_tail b bs) bs))"
  by pat_completeness auto

termination by (relation "measure length") auto

section \<open>The server\<close>

record export =
  ex_meta :: "bytes \<Rightarrow> (u64 \<times> u32) option"
  ex_dir :: "bytes \<Rightarrow> (bytes \<times> (u64 \<times> u32) option) list option"
  ex_open :: "bytes \<Rightarrow> bytes option"
  ex_blake3 :: "bytes \<Rightarrow> bytes"

definition starts_with :: "bytes \<Rightarrow> bytes \<Rightarrow> bool" where
  "starts_with b pre \<longleftrightarrow> take (length pre) b = pre"

definition validate_path :: "bytes \<Rightarrow> bytes \<Rightarrow> bytes option" where
  "validate_path root_dir requested =
     (if contains [0x2E, 0x2E] requested then None else if \<not> starts_with requested root_dir then None else Some requested)"

definition base_name :: "bytes \<Rightarrow> bytes" where
  "base_name path = (if components path = [] then [] else last (components path))"

definition build_entry_frame :: "bytes \<Rightarrow> u64 \<Rightarrow> u32 \<Rightarrow> bytes" where
  "build_entry_frame name fsize mode = ENTRY # u16_to_be (of_nat (length name)) @ name @ u64_to_be fsize @ u32_to_be mode"

definition handle_stat_path :: "export \<Rightarrow> bytes \<Rightarrow> bytes \<Rightarrow> bytes list" where
  "handle_stat_path X root_dir path_bytes =
     (case validate_path root_dir (utf8_lossy path_bytes) of
        None \<Rightarrow> [[DONE]]
      | Some path \<Rightarrow>
          (case ex_meta X path of Some (fsize, mode) \<Rightarrow> [build_entry_frame (base_name path) fsize mode] | None \<Rightarrow> []) @ [[DONE]])"

definition dir_frames :: "(bytes \<times> (u64 \<times> u32) option) list \<Rightarrow> bytes list" where
  "dir_frames es = List.map_filter (\<lambda>(name, meta). map_option (\<lambda>(fsize, mode). build_entry_frame (utf8_lossy name) fsize mode) meta) es"

definition handle_ls_path :: "export \<Rightarrow> bytes \<Rightarrow> bytes \<Rightarrow> bytes list" where
  "handle_ls_path X root_dir path_bytes =
     (case validate_path root_dir (utf8_lossy path_bytes) of
        None \<Rightarrow> [[DONE]]
      | Some path \<Rightarrow> (case ex_dir X path of Some es \<Rightarrow> dir_frames es | None \<Rightarrow> []) @ [[DONE]])"

definition GET_CHUNK :: nat where "GET_CHUNK = 32 * 1024"

function get_loop :: "u64 \<Rightarrow> u64 \<Rightarrow> bytes \<Rightarrow> bytes list \<times> bytes" where
  "get_loop sent fsize avail =
     (if sent < fsize \<and> avail \<noteq> []
      then let chunk = take GET_CHUNK avail in
           (case get_loop (sent + of_nat (length chunk)) fsize (drop GET_CHUNK avail) of (frs, hashed) \<Rightarrow> ((DATA # chunk) # frs, chunk @ hashed))
      else ([], []))"
  by pat_completeness auto

termination by (relation "measure (\<lambda>(_, _, avail). length avail)") (auto simp: GET_CHUNK_def)

declare get_loop.simps [simp del]

text \<open>An error ends the answer where it is; the server only prints it.\<close>

definition handle_get_path :: "export \<Rightarrow> bytes \<Rightarrow> bytes \<Rightarrow> bytes list" where
  "handle_get_path X root_dir path_bytes =
     (case validate_path root_dir (utf8_lossy path_bytes) of
        None \<Rightarrow> []
      | Some path \<Rightarrow>
          (case ex_meta X path of
             None \<Rightarrow> []
           | Some (fsize, _) \<Rightarrow>
               let info = file_info_frame (base_name path) fsize in
               (case ex_open X path of
                  None \<Rightarrow> [info]
                | Some content \<Rightarrow> (case get_loop 0 fsize content of (frs, hashed) \<Rightarrow> info # frs @ [CHECKSUM # ex_blake3 X hashed]))))"

definition serve_request :: "export \<Rightarrow> bytes \<Rightarrow> bytes \<Rightarrow> bytes list" where
  "serve_request X root_dir frame =
     (if frame = [] then []
      else if hd frame = STAT_PATH then handle_stat_path X root_dir (tl frame)
      else if hd frame = LS_PATH then handle_ls_path X root_dir (tl frame)
      else if hd frame = GET_PATH then handle_get_path X root_dir (tl frame)
      else [])"

section \<open>Requests of the client\<close>

type_synonym remote = "bytes \<Rightarrow> bytes list \<times> string option"

record remote_entry =
  re_name :: bytes
  re_size :: u64
  re_mode :: u32

definition parse_entry :: "bytes \<Rightarrow> string + remote_entry" where
  "parse_entry frame =
     (if length frame < 3 then Inl ''ENTRY frame too short''
      else
        let name_len = unat (of_be (slice frame 1 3) :: u16)
        in if length frame < 3 + name_len + 8 + 4 then Inl ''ENTRY frame truncated''
           else Inr \<lparr>re_name = utf8_lossy (slice frame 3 (3 + name_len)), re_size = of_be (slice frame (3 + name_len) (3 + name_len + 8)),
                     re_mode = of_be (slice frame (3 + name_len + 8) (3 + name_len + 12))\<rparr>)"

text \<open>The next frame, or why there is none.\<close>

definition next_frame :: "bytes list \<times> string option \<Rightarrow> (string + bytes \<times> (bytes list \<times> string option)) option" where
  "next_frame r = (case r of (fr # frs, e) \<Rightarrow> Some (Inr (fr, frs, e)) | ([], Some e) \<Rightarrow> Some (Inl e) | ([], None) \<Rightarrow> None)"

text \<open>\<^verbatim>\<open>SeamConn::open_stream\<close> with the default limit, by the number of streams the session has.\<close>

definition STREAM_LIMIT :: nat where "STREAM_LIMIT = 1024"

definition request_stream :: "nat \<Rightarrow> nat outcome" where
  "request_stream n = (if n \<ge> STREAM_LIMIT then Panic else Return (n + 1))"

definition stat_answer :: "remote \<Rightarrow> bytes \<Rightarrow> (string + remote_entry option) option" where
  "stat_answer remote path =
     (case next_frame (remote (STAT_PATH # path)) of
        None \<Rightarrow> None
      | Some (Inl e) \<Rightarrow> Some (Inl e)
      | Some (Inr (frame, _)) \<Rightarrow>
          if frame \<noteq> [] \<and> hd frame = ENTRY
          then (case parse_entry frame of Inl e \<Rightarrow> Some (Inl e) | Inr ent \<Rightarrow> Some (Inr (Some ent)))
          else Some (Inr None))"

definition stat_path :: "remote \<Rightarrow> nat \<Rightarrow> bytes \<Rightarrow> ((string + remote_entry option) option \<times> nat) outcome" where
  "stat_path remote n path = obind (request_stream n) (\<lambda>n'. Return (stat_answer remote path, n'))"

fun ls_loop :: "bytes list \<Rightarrow> string option \<Rightarrow> (string + remote_entry list) option" where
  "ls_loop [] e = (case e of Some err \<Rightarrow> Some (Inl err) | None \<Rightarrow> None)"
| "ls_loop (frame # frs) e =
     (if frame \<noteq> [] \<and> hd frame = ENTRY
      then (case parse_entry frame of
              Inl err \<Rightarrow> Some (Inl err)
            | Inr ent \<Rightarrow>
                (case ls_loop frs e of
                   None \<Rightarrow> None
                 | Some (Inl err) \<Rightarrow> Some (Inl err)
                 | Some (Inr es) \<Rightarrow> Some (Inr (ent # es))))
      else Some (Inr []))"

definition ls_path :: "remote \<Rightarrow> nat \<Rightarrow> bytes \<Rightarrow> ((string + remote_entry list) option \<times> nat) outcome" where
  "ls_path remote n path = obind (request_stream n) (\<lambda>n'. Return (case remote (LS_PATH # path) of (frs, e) \<Rightarrow> ls_loop frs e, n'))"

definition get_checksum :: "(bytes \<Rightarrow> bytes) \<Rightarrow> bytes \<Rightarrow> bytes \<Rightarrow> string + bytes" where
  "get_checksum blake3 content frame =
     (if length frame = 33 \<and> hd frame = CHECKSUM \<and> blake3 content \<noteq> tl frame then Inl ''checksum mismatch'' else Inr content)"

fun get_data :: "(bytes \<Rightarrow> bytes) \<Rightarrow> u64 \<Rightarrow> bytes \<Rightarrow> bytes list \<Rightarrow> string option \<Rightarrow> (string + bytes) option" where
  "get_data blake3 fsize content [] e = (case e of Some err \<Rightarrow> Some (Inl err) | None \<Rightarrow> None)"
| "get_data blake3 fsize content (frame # frs) e =
     (if of_nat (length content) < fsize
      then if frame = [] \<or> hd frame \<noteq> DATA then Some (Inl ''expected DATA frame'') else get_data blake3 fsize (content @ tl frame) frs e
      else Some (get_checksum blake3 content frame))"

definition get_answer :: "(bytes \<Rightarrow> bytes) \<Rightarrow> remote \<Rightarrow> bytes \<Rightarrow> (string + bytes) option" where
  "get_answer blake3 remote path =
     (case next_frame (remote (GET_PATH # path)) of
        None \<Rightarrow> None
      | Some (Inl e) \<Rightarrow> Some (Inl e)
      | Some (Inr (info, frs, e)) \<Rightarrow>
          if info = [] \<or> hd info \<noteq> FILE_INFO \<or> length info < 11 then Some (Inl ''expected FILE_INFO response'')
          else get_data blake3 (of_be (slice info 1 9)) [] frs e)"

definition get_path :: "(bytes \<Rightarrow> bytes) \<Rightarrow> remote \<Rightarrow> nat \<Rightarrow> bytes \<Rightarrow> ((string + bytes) option \<times> nat) outcome" where
  "get_path blake3 remote n path = obind (request_stream n) (\<lambda>n'. Return (get_answer blake3 remote path, n'))"

section \<open>Inodes\<close>

record inode_table =
  it_next_ino :: u64
  it_ino_to_path :: "(u64 \<times> bytes) list"
  it_path_to_ino :: "(bytes \<times> u64) list"

definition inode_table_new :: "bytes \<Rightarrow> inode_table" where
  "inode_table_new root_path = \<lparr>it_next_ino = 2, it_ino_to_path = [(1, root_path)], it_path_to_ino = [(root_path, 1)]\<rparr>"

definition path_for :: "inode_table \<Rightarrow> u64 \<Rightarrow> bytes option" where
  "path_for t ino = map_of (it_ino_to_path t) ino"

definition ino_for_path :: "inode_table \<Rightarrow> bytes \<Rightarrow> u64 \<times> inode_table" where
  "ino_for_path t path =
     (case map_of (it_path_to_ino t) path of
        Some ino \<Rightarrow> (ino, t)
      | None \<Rightarrow>
          let ino = it_next_ino t
          in (ino, t\<lparr>it_next_ino := it_next_ino t + 1, it_ino_to_path := AList.update ino path (it_ino_to_path t),
                     it_path_to_ino := AList.update path ino (it_path_to_ino t)\<rparr>))"

definition join_path :: "bytes \<Rightarrow> bytes \<Rightarrow> bytes" where
  "join_path par name = (if par \<noteq> [] \<and> last par = 0x2F then par @ name else par @ 0x2F # name)"

datatype file_type = Directory | RegularFile

definition mode_to_kind_and_perm :: "u32 \<Rightarrow> file_type \<times> u16" where
  "mode_to_kind_and_perm mode = (if and mode 0xF000 = 0x4000 then Directory else RegularFile, ucast (and mode 0xFFF))"

record file_attr =
  fa_ino :: u64
  fa_size :: u64
  fa_blocks :: u64
  fa_kind :: file_type
  fa_perm :: u16
  fa_nlink :: u32

text \<open>The times and the owner are those of the client process.\<close>

definition make_attr :: "u64 \<Rightarrow> remote_entry \<Rightarrow> file_attr" where
  "make_attr ino ent =
     (case mode_to_kind_and_perm (re_mode ent) of (kind, perm) \<Rightarrow>
        \<lparr>fa_ino = ino, fa_size = re_size ent, fa_blocks = of_nat ((unat (re_size ent) + 511) div 512), fa_kind = kind,
         fa_perm = (if perm \<noteq> 0 then perm else if kind = Directory then 0x1ED else 0x1A4), fa_nlink = (if kind = Directory then 2 else 1)\<rparr>)"

section \<open>The file system\<close>

datatype errno = ENOENT | EINVAL | EIO | EBADF

datatype fuse_reply =
    REntry file_attr | RAttr file_attr | RError errno | RDir "(u64 \<times> nat \<times> file_type \<times> bytes) list" | ROpened u64 | RData bytes | ROk

record seam_fs =
  ms_inodes :: inode_table
  ms_open_files :: "(u64 \<times> bytes) list"
  ms_next_fh :: u64
  ms_streams :: nat

definition seam_fs_new :: "bytes \<Rightarrow> seam_fs" where
  "seam_fs_new root_dir = \<lparr>ms_inodes = inode_table_new root_dir, ms_open_files = [], ms_next_fh = 1, ms_streams = 0\<rparr>"

text \<open>A call of the kernel is answered, or panics with the thread that serves the kernel, or waits for ever.\<close>

type_synonym fuse_result = "(fuse_reply \<times> seam_fs) outcome option"

text \<open>A request of the client (\<^verbatim>\<open>block_on_conn\<close>), and what is done with its answer.\<close>

definition with_request :: "('r option \<times> nat) outcome \<Rightarrow> ('r \<Rightarrow> seam_fs \<Rightarrow> fuse_reply \<times> seam_fs) \<Rightarrow> seam_fs \<Rightarrow> fuse_result" where
  "with_request req f s =
     (case req of
        Panic \<Rightarrow> Some Panic
      | Return (None, _) \<Rightarrow> None
      | Return (Some res, n) \<Rightarrow> Some (Return (f res (s\<lparr>ms_streams := n\<rparr>))))"

definition fs_lookup :: "remote \<Rightarrow> u64 \<Rightarrow> bytes \<Rightarrow> seam_fs \<Rightarrow> fuse_result" where
  "fs_lookup remote parent_ino name s =
     (case path_for (ms_inodes s) parent_ino of
        None \<Rightarrow> Some (Return (RError ENOENT, s))
      | Some parent_path \<Rightarrow>
          if \<not> utf8_valid name then Some (Return (RError EINVAL, s))
          else
            with_request (stat_path remote (ms_streams s) (join_path parent_path name)) (\<lambda>res s. case res of
               Inr (Some ent) \<Rightarrow>
                 (case ino_for_path (ms_inodes s) (join_path parent_path name) of (ino, t) \<Rightarrow>
                    (REntry (make_attr ino ent), s\<lparr>ms_inodes := t\<rparr>))
             | Inr None \<Rightarrow> (RError ENOENT, s)
             | Inl _ \<Rightarrow> (RError EIO, s)) s)"

definition fs_getattr :: "remote \<Rightarrow> u64 \<Rightarrow> seam_fs \<Rightarrow> fuse_result" where
  "fs_getattr remote ino s =
     (case path_for (ms_inodes s) ino of
        None \<Rightarrow> Some (Return (RError ENOENT, s))
      | Some path \<Rightarrow>
          with_request (stat_path remote (ms_streams s) path) (\<lambda>res s. case res of
             Inr (Some ent) \<Rightarrow> (RAttr (make_attr ino ent), s)
           | Inr None \<Rightarrow> (RError ENOENT, s)
           | Inl _ \<Rightarrow> (RError EIO, s)) s)"

fun number_entries :: "bytes \<Rightarrow> remote_entry list \<Rightarrow> inode_table \<Rightarrow> (u64 \<times> file_type \<times> bytes) list \<times> inode_table" where
  "number_entries path [] t = ([], t)"
| "number_entries path (ent # es) t =
     (case ino_for_path t (join_path path (re_name ent)) of (ino, t1) \<Rightarrow>
        (case number_entries path es t1 of (all, t2) \<Rightarrow>
           ((ino, fst (mode_to_kind_and_perm (re_mode ent)), re_name ent) # all, t2)))"

text \<open>\<open>room\<close> is the number of entries the reply has room for.\<close>

definition fs_readdir :: "remote \<Rightarrow> u64 \<Rightarrow> nat \<Rightarrow> nat \<Rightarrow> seam_fs \<Rightarrow> fuse_result" where
  "fs_readdir remote ino offset room s =
     (case path_for (ms_inodes s) ino of
        None \<Rightarrow> Some (Return (RError ENOENT, s))
      | Some path \<Rightarrow>
          with_request (ls_path remote (ms_streams s) path) (\<lambda>res s. case res of
             Inl _ \<Rightarrow> (RError EIO, s)
           | Inr entries \<Rightarrow>
               (case number_entries path entries (ms_inodes s) of (numbered, t) \<Rightarrow>
                  let all = (ino, Directory, [0x2E]) # (ino, Directory, [0x2E, 0x2E]) # numbered;
                      listed = map (\<lambda>(i, e_ino, kind, name). (e_ino, i + 1, kind, name)) (List.enumerate 0 all)
                  in (RDir (take room (drop offset listed)), s\<lparr>ms_inodes := t\<rparr>))) s)"

definition fs_open_file :: "(bytes \<Rightarrow> bytes) \<Rightarrow> remote \<Rightarrow> u64 \<Rightarrow> seam_fs \<Rightarrow> fuse_result" where
  "fs_open_file blake3 remote ino s =
     (case path_for (ms_inodes s) ino of
        None \<Rightarrow> Some (Return (RError ENOENT, s))
      | Some path \<Rightarrow>
          with_request (get_path blake3 remote (ms_streams s) path) (\<lambda>res s. case res of
             Inr content \<Rightarrow>
               (ROpened (ms_next_fh s), s\<lparr>ms_next_fh := ms_next_fh s + 1, ms_open_files := AList.update (ms_next_fh s) content (ms_open_files s)\<rparr>)
           | Inl _ \<Rightarrow> (RError EIO, s)) s)"

definition fs_read :: "u64 \<Rightarrow> u64 \<Rightarrow> u32 \<Rightarrow> seam_fs \<Rightarrow> fuse_reply" where
  "fs_read fh offset n s =
     (case map_of (ms_open_files s) fh of
        None \<Rightarrow> RError EBADF
      | Some content \<Rightarrow>
          if unat offset \<ge> length content then RData []
          else RData (slice content (unat offset) (min (unat offset + unat n) (length content))))"

definition fs_release :: "u64 \<Rightarrow> seam_fs \<Rightarrow> fuse_reply \<times> seam_fs" where
  "fs_release fh s = (ROk, s\<lparr>ms_open_files := AList.delete fh (ms_open_files s)\<rparr>)"

text \<open>The calls of the kernel, each with the other side as it is at that time.\<close>

datatype fuse_call = Lookup u64 bytes | Getattr u64 | Readdir u64 nat nat | Open u64 | Read u64 u64 u32 | Release u64

definition fuse_step :: "(bytes \<Rightarrow> bytes) \<Rightarrow> remote \<times> fuse_call \<Rightarrow> seam_fs \<Rightarrow> fuse_result" where
  "fuse_step blake3 rc s =
     (case rc of (remote, call) \<Rightarrow>
        case call of
          Lookup p name \<Rightarrow> fs_lookup remote p name s
        | Getattr ino \<Rightarrow> fs_getattr remote ino s
        | Readdir ino offset room \<Rightarrow> fs_readdir remote ino offset room s
        | Open ino \<Rightarrow> fs_open_file blake3 remote ino s
        | Read fh offset n \<Rightarrow> Some (Return (fs_read fh offset n s, s))
        | Release fh \<Rightarrow> Some (Return (fs_release fh s)))"

fun fuse_run :: "(bytes \<Rightarrow> bytes) \<Rightarrow> (remote \<times> fuse_call) list \<Rightarrow> seam_fs \<Rightarrow> seam_fs outcome option" where
  "fuse_run blake3 [] s = Some (Return s)"
| "fuse_run blake3 (c # cs) s =
     (case fuse_step blake3 c s of
        None \<Rightarrow> None
      | Some Panic \<Rightarrow> Some Panic
      | Some (Return (_, s')) \<Rightarrow> fuse_run blake3 cs s')"

end
