(* ===== verification/Proxy_Forward.thy ===== *)
theory Proxy_Forward
  imports Remote_Mount
begin

text \<open>
  The commands that connect to a third host through the peer: the SOCKS5 proxy of \<^verbatim>\<open>bin/seam/proxy.rs\<close>, the port forwarding of \<^verbatim>\<open>bin/seam/forward.rs\<close> with its
  relay, and the services of \<^verbatim>\<open>bin/seam/serve.rs\<close>. A handler is a function of all the bytes it will ever read; a \<^verbatim>\<open>read_exact\<close> beyond them fails. What
  \<^verbatim>\<open>TcpStream::connect\<close> makes of a target is the argument \<open>dial\<close>. What a handler does not read before it connects the two sides is what it passes on.
\<close>

section \<open>Reading\<close>

definition read_exact :: "nat \<Rightarrow> bytes \<Rightarrow> (bytes \<times> bytes) option" where
  "read_exact n inp = (if length inp < n then None else Some (take n inp, drop n inp))"

section \<open>The connect header\<close>

definition connect_header :: "bytes \<Rightarrow> u16 \<Rightarrow> bytes" where
  "connect_header host_bytes port = u16_to_be (of_nat (length host_bytes)) @ host_bytes @ u16_to_be port"

definition frame_header :: "bytes \<Rightarrow> bytes" where
  "frame_header header = u32_to_be (of_nat (length header)) @ header"

datatype header_error = HeaderEof | InvalidHeaderLength nat | ShortHeader | TruncatedHeader | HostNotUtf8

definition read_header :: "bytes \<Rightarrow> header_error + bytes \<times> bytes" where
  "read_header inp =
     (case read_exact 4 inp of
        None \<Rightarrow> Inl HeaderEof
      | Some (len_buf, rest) \<Rightarrow>
          let header_len = unat (of_be len_buf :: u32)
          in if \<not> (4 \<le> header_len \<and> header_len \<le> 4096) then Inl (InvalidHeaderLength header_len)
             else case read_exact header_len rest of None \<Rightarrow> Inl HeaderEof | Some (header, rest') \<Rightarrow> Inr (header, rest'))"

definition parse_header :: "bytes \<Rightarrow> header_error + bytes \<times> u16" where
  "parse_header header =
     (if length header < 4 then Inl ShortHeader
      else
        let host_len = unat (of_be (slice header 0 2) :: u16)
        in if length header < 2 + host_len + 2 then Inl TruncatedHeader
           else
             let h = slice header 2 (2 + host_len)
             in if \<not> utf8_valid h then Inl HostNotUtf8
                else Inr (h, of_be (slice header (2 + host_len) (2 + host_len + 2))))"

definition target_of :: "bytes \<Rightarrow> u16 \<Rightarrow> bytes" where
  "target_of h port = h @ 0x3A # as_bytes (show_nat (unat port))"

text \<open>The receiving end of a stream: the target, whether it was reached, what is written back first, and what is passed on to the target.\<close>

datatype relay = Refused header_error | Unreachable bytes | Bridged bytes bytes

definition forward_recv :: "(bytes \<Rightarrow> bool) \<Rightarrow> bytes \<Rightarrow> relay" where
  "forward_recv dial inp =
     (case read_header inp of
        Inl e \<Rightarrow> Refused e
      | Inr (header, rest) \<Rightarrow>
          (case parse_header header of
             Inl e \<Rightarrow> Refused e
           | Inr (h, port) \<Rightarrow> if dial (target_of h port) then Bridged (target_of h port) rest else Unreachable (target_of h port)))"

section \<open>Port forwarding\<close>

text \<open>The decimal numbers of \<^verbatim>\<open>parse::<u16>\<close>: an optional plus sign, digits, and no overflow.\<close>

definition digit_value :: "u8 \<Rightarrow> nat option" where
  "digit_value b = (if 0x30 \<le> b \<and> b \<le> 0x39 then Some (unat b - 48) else None)"

fun parse_digits :: "nat \<Rightarrow> nat \<Rightarrow> bytes \<Rightarrow> nat option" where
  "parse_digits limit acc [] = Some acc"
| "parse_digits limit acc (b # bs) =
     (case digit_value b of
        None \<Rightarrow> None
      | Some d \<Rightarrow> if acc * 10 + d < limit then parse_digits limit (acc * 10 + d) bs else None)"

definition parse_unsigned :: "nat \<Rightarrow> bytes \<Rightarrow> nat option" where
  "parse_unsigned limit s =
     (let digits = (if s \<noteq> [] \<and> hd s = 0x2B then tl s else s)
      in if digits = [] then None else parse_digits limit 0 digits)"

definition parse_u16 :: "bytes \<Rightarrow> u16 option" where
  "parse_u16 s = map_option of_nat (parse_unsigned (2 ^ 16) s)"

definition split_once :: "u8 \<Rightarrow> bytes \<Rightarrow> (bytes \<times> bytes) option" where
  "split_once c s = (if c \<in> set s then Some (takeWhile (\<lambda>b. b \<noteq> c) s, tl (dropWhile (\<lambda>b. b \<noteq> c) s)) else None)"

definition rsplit_once :: "u8 \<Rightarrow> bytes \<Rightarrow> (bytes \<times> bytes) option" where
  "rsplit_once c s = (case split_once c (rev s) of None \<Rightarrow> None | Some (b, a) \<Rightarrow> Some (rev a, rev b))"

datatype spec_error = BadSpec | InvalidLocalPort bytes | EmptyHost | InvalidRemotePort bytes

definition parse_forward_spec :: "bytes \<Rightarrow> spec_error + u16 \<times> bytes \<times> u16" where
  "parse_forward_spec spec =
     (case split_once 0x3A spec of
        None \<Rightarrow> Inl BadSpec
      | Some (local_str, rest) \<Rightarrow>
          (case parse_u16 local_str of
             None \<Rightarrow> Inl (InvalidLocalPort local_str)
           | Some local_port \<Rightarrow>
               (case rsplit_once 0x3A rest of
                  None \<Rightarrow> Inl BadSpec
                | Some (remote_host, remote_port_str) \<Rightarrow>
                    if remote_host = [] then Inl EmptyHost
                    else (case parse_u16 remote_port_str of
                            None \<Rightarrow> Inl (InvalidRemotePort remote_port_str)
                          | Some remote_port \<Rightarrow> Inr (local_port, remote_host, remote_port)))))"

definition parse_fwd_spec :: "bytes \<Rightarrow> spec_error + bytes option \<times> bytes \<times> u16" where
  "parse_fwd_spec spec =
     (case rsplit_once 0x3A spec of
        None \<Rightarrow> Inl BadSpec
      | Some (userhost, port_str) \<Rightarrow>
          (case parse_u16 port_str of
             None \<Rightarrow> Inl (InvalidRemotePort port_str)
           | Some remote_port \<Rightarrow>
               (case split_once 0x40 userhost of
                  Some (user, h) \<Rightarrow> Inr (Some user, h, remote_port)
                | None \<Rightarrow> Inr (None, userhost, remote_port))))"

text \<open>What the client writes to a new stream ahead of the data of a TCP connection, and what a relay writes to the stream of the next hop.\<close>

definition forward_client :: "bytes \<Rightarrow> u16 \<Rightarrow> bytes \<Rightarrow> bytes" where
  "forward_client remote_host remote_port tcp = frame_header (connect_header remote_host remote_port) @ tcp"

definition hop_recv :: "bytes \<Rightarrow> header_error + bytes" where
  "hop_recv inp = (case read_header inp of Inl e \<Rightarrow> Inl e | Inr (header, rest) \<Rightarrow> Inr (frame_header header @ rest))"

section \<open>The SOCKS5 proxy\<close>

definition SOCKS5_VERSION :: u8 where "SOCKS5_VERSION = 0x05"
definition NO_AUTH :: u8 where "NO_AUTH = 0x00"
definition AUTH_NONE_ACCEPTABLE :: u8 where "AUTH_NONE_ACCEPTABLE = 0xFF"
definition CMD_CONNECT :: u8 where "CMD_CONNECT = 0x01"
definition ATYP_IPV4 :: u8 where "ATYP_IPV4 = 0x01"
definition ATYP_DOMAIN :: u8 where "ATYP_DOMAIN = 0x03"
definition ATYP_IPV6 :: u8 where "ATYP_IPV6 = 0x04"
definition REP_SUCCESS :: u8 where "REP_SUCCESS = 0x00"
definition REP_GENERAL_FAILURE :: u8 where "REP_GENERAL_FAILURE = 0x01"
definition REP_CMD_NOT_SUPPORTED :: u8 where "REP_CMD_NOT_SUPPORTED = 0x07"
definition REP_ATYP_NOT_SUPPORTED :: u8 where "REP_ATYP_NOT_SUPPORTED = 0x08"

lemmas socks_bytes = SOCKS5_VERSION_def NO_AUTH_def AUTH_NONE_ACCEPTABLE_def CMD_CONNECT_def ATYP_IPV4_def ATYP_DOMAIN_def ATYP_IPV6_def REP_SUCCESS_def
  REP_GENERAL_FAILURE_def REP_CMD_NOT_SUPPORTED_def REP_ATYP_NOT_SUPPORTED_def

datatype socks_error = SocksEof | NotSocks5 u8 | AuthRequired | RequestVersion | NotConnect u8 | BadDomain | BadAtyp u8 | RemoteFailed

definition socks5_reply :: "u8 \<Rightarrow> bytes" where
  "socks5_reply rep = [SOCKS5_VERSION, rep, 0, ATYP_IPV4] @ replicate 4 0 @ replicate 2 0"

text \<open>What is written to the client, and either the error or what is left of the input.\<close>

definition socks5_negotiate :: "bytes \<Rightarrow> bytes \<times> (socks_error + bytes)" where
  "socks5_negotiate inp =
     (case read_exact 2 inp of
        None \<Rightarrow> ([], Inl SocksEof)
      | Some (header, rest) \<Rightarrow>
          if header ! 0 \<noteq> SOCKS5_VERSION then ([], Inl (NotSocks5 (header ! 0)))
          else (case read_exact (unat (header ! 1)) rest of
                  None \<Rightarrow> ([], Inl SocksEof)
                | Some (methods, rest') \<Rightarrow>
                    if NO_AUTH \<notin> set methods then ([SOCKS5_VERSION, AUTH_NONE_ACCEPTABLE], Inl AuthRequired)
                    else ([SOCKS5_VERSION, NO_AUTH], Inr rest')))"

definition socks5_address :: "u8 \<Rightarrow> bytes \<Rightarrow> bytes \<times> (socks_error + bytes \<times> bytes)" where
  "socks5_address atyp inp =
     (if atyp = ATYP_IPV4
      then (case read_exact 4 inp of None \<Rightarrow> ([], Inl SocksEof) | Some (addr, rest) \<Rightarrow> ([], Inr (as_bytes (show_v4 (of_be addr)), rest)))
      else if atyp = ATYP_DOMAIN
      then (case read_exact 1 inp of
              None \<Rightarrow> ([], Inl SocksEof)
            | Some (len, rest) \<Rightarrow>
                (case read_exact (unat (len ! 0)) rest of
                   None \<Rightarrow> ([], Inl SocksEof)
                 | Some (domain, rest') \<Rightarrow> if utf8_valid domain then ([], Inr (domain, rest')) else ([], Inl BadDomain)))
      else if atyp = ATYP_IPV6
      then (case read_exact 16 inp of None \<Rightarrow> ([], Inl SocksEof) | Some (addr, rest) \<Rightarrow> ([], Inr (as_bytes (show_v6 (of_be addr)), rest)))
      else (socks5_reply REP_ATYP_NOT_SUPPORTED, Inl (BadAtyp atyp)))"

definition socks5_request :: "bytes \<Rightarrow> bytes \<times> (socks_error + bytes \<times> u16 \<times> bytes)" where
  "socks5_request inp =
     (case read_exact 4 inp of
        None \<Rightarrow> ([], Inl SocksEof)
      | Some (req_head, rest) \<Rightarrow>
          if req_head ! 0 \<noteq> SOCKS5_VERSION then ([], Inl RequestVersion)
          else if req_head ! 1 \<noteq> CMD_CONNECT then (socks5_reply REP_CMD_NOT_SUPPORTED, Inl (NotConnect (req_head ! 1)))
          else (case socks5_address (req_head ! 3) rest of
                  (out, Inl e) \<Rightarrow> (out, Inl e)
                | (out, Inr (target_host, rest')) \<Rightarrow>
                    (case read_exact 2 rest' of
                       None \<Rightarrow> (out, Inl SocksEof)
                     | Some (port, data_bytes) \<Rightarrow> (out, Inr (target_host, of_be port, data_bytes)))))"

text \<open>A whole client: what is written to it, and either the error or the header written to the stream and what is passed on after it. The answer of the other
  end to the header is the argument \<open>remote\<close>, \<open>None\<close> if its stream ends without one.\<close>

definition handle_socks5_client :: "(bytes \<Rightarrow> u8 option) \<Rightarrow> bytes \<Rightarrow> bytes \<times> (socks_error + bytes \<times> bytes)" where
  "handle_socks5_client remote inp =
     (case socks5_negotiate inp of
        (out, Inl e) \<Rightarrow> (out, Inl e)
      | (out, Inr rest) \<Rightarrow>
          (case socks5_request rest of
             (out', Inl e) \<Rightarrow> (out @ out', Inl e)
           | (out', Inr (target_host, target_port, data_bytes)) \<Rightarrow>
               let framed = frame_header (connect_header target_host target_port)
               in case remote framed of
                    None \<Rightarrow> (out @ out', Inl SocksEof)
                  | Some rep \<Rightarrow>
                      if rep \<noteq> REP_SUCCESS then (out @ out' @ socks5_reply REP_GENERAL_FAILURE, Inl RemoteFailed)
                      else (out @ out' @ socks5_reply REP_SUCCESS, Inr (framed, data_bytes))))"

text \<open>The other end answers and, if it reached the target, passes on what follows.\<close>

definition proxy_recv :: "(bytes \<Rightarrow> bool) \<Rightarrow> bytes \<Rightarrow> u8 option \<times> relay" where
  "proxy_recv dial inp =
     (case forward_recv dial inp of
        Refused e \<Rightarrow> (None, Refused e)
      | Unreachable t \<Rightarrow> (Some REP_GENERAL_FAILURE, Unreachable t)
      | Bridged t rest \<Rightarrow> (Some REP_SUCCESS, Bridged t rest))"

section \<open>The services of a server\<close>

definition SVC_SHELL :: u8 where "SVC_SHELL = 0x01"
definition SVC_FORWARD :: u8 where "SVC_FORWARD = 0x02"
definition SVC_INFO :: u8 where "SVC_INFO = 0x03"
definition SVC_PING :: u8 where "SVC_PING = 0x04"
definition SHELL_ERR :: u8 where "SHELL_ERR = 0x02"
definition SHELL_EXIT :: u8 where "SHELL_EXIT = 0x01"
definition SHELL_STDIN :: u8 where "SHELL_STDIN = 0x10"
definition SHELL_STDIN_EOF :: u8 where "SHELL_STDIN_EOF = 0x11"

definition shell_error :: "bytes \<Rightarrow> bytes" where
  "shell_error msg = (let len = min (length msg) 65535 in SHELL_ERR # u16_to_be (of_nat len) @ take len msg)"

fun read_args :: "nat \<Rightarrow> bytes \<Rightarrow> (bytes list \<times> bytes) option" where
  "read_args 0 inp = Some ([], inp)"
| "read_args (Suc n) inp =
     (case read_exact 1 inp of
        None \<Rightarrow> None
      | Some (len, rest) \<Rightarrow>
          (case read_exact (unat (len ! 0)) rest of
             None \<Rightarrow> None
           | Some (arg, rest') \<Rightarrow> map_option (apfst ((#) (utf8_lossy arg))) (read_args n rest')))"

text \<open>The command a shell request names; \<open>shell\<close> is the login shell of the environment.\<close>

definition serve_shell :: "bytes \<Rightarrow> bytes \<Rightarrow> (bool \<times> bytes list \<times> bytes) option" where
  "serve_shell shell inp =
     (case read_exact 1 inp of
        None \<Rightarrow> None
      | Some (pty, r1) \<Rightarrow>
          (case read_exact 1 r1 of
             None \<Rightarrow> None
           | Some (cnt, r2) \<Rightarrow>
               (case read_args (unat (cnt ! 0)) r2 of
                  None \<Rightarrow> None
                | Some (command, rest) \<Rightarrow> Some (pty ! 0 \<noteq> 0, if command = [] then [shell, as_bytes ''-l''] else command, rest))))"

text \<open>The input of a plain shell: frames of data until the end mark, an unknown tag or the end of the stream.\<close>

function shell_stdin :: "bytes \<Rightarrow> bytes" where
  "shell_stdin inp =
     (case inp of
        [] \<Rightarrow> []
      | tag # rest \<Rightarrow>
          if tag \<noteq> SHELL_STDIN then []
          else (case read_exact 2 rest of
                  None \<Rightarrow> []
                | Some (len_buf, r1) \<Rightarrow>
                    (case read_exact (unat (of_be len_buf :: u16)) r1 of
                       None \<Rightarrow> []
                     | Some (dat, r2) \<Rightarrow> dat @ shell_stdin r2)))"
  by pat_completeness auto

termination by (relation "measure length") (auto simp: read_exact_def split: if_splits)

declare shell_stdin.simps [simp del]

definition stdin_frame :: "bytes \<Rightarrow> bytes" where
  "stdin_frame dat = SHELL_STDIN # u16_to_be (of_nat (length dat)) @ dat"

datatype service = NoService | Unknown u8 | ShellDisabled bytes | Shell "(bool \<times> bytes list \<times> bytes) option" | Forward relay | Info | Ping bytes

definition serve_ping :: "bytes \<Rightarrow> bytes" where
  "serve_ping inp = (case read_exact 4 inp of Some (b, _) \<Rightarrow> b | None \<Rightarrow> [])"

definition dispatch_stream :: "bytes \<Rightarrow> (bytes \<Rightarrow> bool) \<Rightarrow> bool \<Rightarrow> bytes \<Rightarrow> service" where
  "dispatch_stream shell dial no_shell inp =
     (case inp of
        [] \<Rightarrow> NoService
      | svc # rest \<Rightarrow>
          if svc = SVC_SHELL
          then if no_shell then ShellDisabled (shell_error (as_bytes ''shell service is disabled on this server'')) else Shell (serve_shell shell rest)
          else if svc = SVC_FORWARD then Forward (forward_recv dial rest)
          else if svc = SVC_INFO then Info
          else if svc = SVC_PING then Ping (serve_ping rest)
          else Unknown svc)"

end
