(* ===== verification/Known_Hosts.thy ===== *)
theory Known_Hosts
  imports File_Store "HOL-Library.List_Lexorder"
begin

text \<open>
  \<^verbatim>\<open>bin/seam/known_hosts.rs\<close>: the table of pinned server identities, its text file, and trust on first use. Text is a list of Unicode code points, and
  \<open>None\<close> is a file that does not exist or cannot be read as text. An operation reads the file and later replaces it. It asks for a lock on a second file, but goes on without one when
  the lock cannot be had, so what it read (\<open>seen\<close>) need not be what the file holds when it writes (\<open>text\<close>); the last part of this theory runs operations of several processes
  against each other. The failures of taking the lock and of writing are arguments. The printed warnings are left out.
\<close>

type_synonym ustr = "nat list"
type_synonym pins = "(ustr \<times> ustr) list"

definition ustr :: "string \<Rightarrow> ustr" where "ustr s = map of_char s"

definition LF :: nat where "LF = 10"
definition SPACE :: nat where "SPACE = 32"
definition HASH_SIGN :: nat where "HASH_SIGN = 35"

definition is_whitespace :: "nat \<Rightarrow> bool" where
  "is_whitespace c \<longleftrightarrow> 9 \<le> c \<and> c \<le> 13 \<or> 0x2000 \<le> c \<and> c \<le> 0x200A \<or>
     c \<in> {32, 0x85, 0xA0, 0x1680, 0x2028, 0x2029, 0x202F, 0x205F, 0x3000}"

definition trim_ws :: "ustr \<Rightarrow> ustr" where
  "trim_ws b = rev (dropWhile is_whitespace (rev (dropWhile is_whitespace b)))"

definition fingerprint :: "text_lib \<Rightarrow> host \<Rightarrow> bytes \<Rightarrow> ustr" where
  "fingerprint T H x25519_pub = ustr (t_hex T (h_sha256 H x25519_pub))"

definition short_fp :: "ustr \<Rightarrow> ustr" where
  "short_fp fp = take (min (length fp) 32) fp"

section \<open>The file\<close>

definition load_line :: "ustr \<Rightarrow> pins \<Rightarrow> pins" where
  "load_line line pins =
     (let l = trim_ws line in
      if l = [] \<or> hd l = HASH_SIGN then pins
      else let h = takeWhile (\<lambda>b. b \<noteq> SPACE) l; rest = dropWhile (\<lambda>b. b \<noteq> SPACE) l
           in if rest = [] then pins else AList.update h (trim_ws (tl rest)) pins)"

definition load_pins :: "ustr option \<Rightarrow> pins" where
  "load_pins text = (case text of None \<Rightarrow> [] | Some t \<Rightarrow> fold load_line (split_on LF t) [])"

definition header_lines :: "ustr list" where
  "header_lines =
     [ustr ''# Seam known_hosts '' @ [0x2014] @ ustr '' DO NOT EDIT manually unless you know what you are doing.'',
      ustr ''# Format: <host> <sha256-of-x25519-public-key-hex>'']"

definition pin_line :: "ustr \<times> ustr \<Rightarrow> ustr" where
  "pin_line e = fst e @ [SPACE] @ snd e"

definition pins_text :: "pins \<Rightarrow> ustr" where
  "pins_text pins = concat (map (\<lambda>l. l @ [LF]) (header_lines @ map pin_line (sort_key fst pins)))"

text \<open>The write to a temporary file and the rename are one step; an error leaves the file as it was.\<close>

definition save_pins :: "string option \<Rightarrow> pins \<Rightarrow> ustr option \<Rightarrow> (ustr + unit) \<times> ustr option" where
  "save_pins err pins text = (case err of Some e \<Rightarrow> (Inl (ustr e), text) | None \<Rightarrow> (Inr (), Some (pins_text pins)))"

text \<open>What becomes of the request for the lock: an error in creating the lock file or its directory is returned; when \<^verbatim>\<open>flock\<close> fails, and on systems without it,
  the operation runs all the same.\<close>

datatype lock_outcome = is_LockError: LockError string | Locked | Unlocked

definition with_pins_lock :: "lock_outcome \<Rightarrow> (ustr option \<Rightarrow> ustr option \<Rightarrow> (ustr + 'a) \<times> ustr option) \<Rightarrow> ustr option \<Rightarrow> ustr option \<Rightarrow> (ustr + 'a) \<times> ustr option" where
  "with_pins_lock lock f seen text =
     (case lock of
        LockError e \<Rightarrow> (Inl (ustr e), text)
      | Unlocked \<Rightarrow> f seen text
      | Locked \<Rightarrow> f seen text)"

section \<open>Trust on first use\<close>

datatype pin_policy = Enforce | TrustOnFirstUse | InsecureIgnore

definition mismatch_message :: "ustr \<Rightarrow> ustr" where
  "mismatch_message h = ustr ''server identity mismatch for '' @ h @ ustr '': remote host identification has changed''"

definition verify_or_pin_locked :: "string option \<Rightarrow> ustr \<Rightarrow> ustr \<Rightarrow> ustr option \<Rightarrow> ustr option \<Rightarrow> (ustr + unit) \<times> ustr option" where
  "verify_or_pin_locked err h fp seen text =
     (let pins = load_pins seen in
      case map_of pins h of
        Some pinned \<Rightarrow> if pinned = fp then (Inr (), text) else (Inl (mismatch_message h), text)
      | None \<Rightarrow> (case save_pins err (AList.update h fp pins) text of (_, text') \<Rightarrow> (Inr (), text')))"

definition verify_or_pin ::
  "text_lib \<Rightarrow> host \<Rightarrow> lock_outcome \<Rightarrow> string option \<Rightarrow> ustr \<Rightarrow> bytes \<Rightarrow> pin_policy \<Rightarrow> ustr option \<Rightarrow> ustr option \<Rightarrow> (ustr + unit) \<times> ustr option" where
  "verify_or_pin T H lock err h key policy seen text =
     (if policy = InsecureIgnore then (Inr (), text)
      else with_pins_lock lock (verify_or_pin_locked err h (fingerprint T H key)) seen text)"

definition remove_pin :: "lock_outcome \<Rightarrow> string option \<Rightarrow> ustr \<Rightarrow> ustr option \<Rightarrow> ustr option \<Rightarrow> (ustr + bool) \<times> ustr option" where
  "remove_pin lock err h =
     with_pins_lock lock (\<lambda>seen text.
       let pins = load_pins seen in
       if map_of pins h \<noteq> None
       then (case save_pins err (AList.delete h pins) text of (Inl e, t) \<Rightarrow> (Inl e, t) | (Inr _, t) \<Rightarrow> (Inr True, t))
       else (Inr False, text))"

definition list_pins :: "ustr option \<Rightarrow> pins" where
  "list_pins text = sort_key fst (load_pins text)"

section \<open>The file holds the table\<close>

text \<open>What an entry must be like to survive in the file, and what every entry read from a file is like.\<close>

definition host_name_ok :: "ustr \<Rightarrow> bool" where
  "host_name_ok h \<longleftrightarrow> h \<noteq> [] \<and> \<not> is_whitespace (hd h) \<and> hd h \<noteq> HASH_SIGN \<and> SPACE \<notin> set h \<and> LF \<notin> set h"

definition pin_text_ok :: "ustr \<Rightarrow> bool" where
  "pin_text_ok fp \<longleftrightarrow> fp \<noteq> [] \<and> \<not> is_whitespace (hd fp) \<and> \<not> is_whitespace (last fp) \<and> LF \<notin> set fp"

definition pins_ok :: "pins \<Rightarrow> bool" where
  "pins_ok pins \<longleftrightarrow> distinct (map fst pins) \<and> (\<forall>e \<in> set pins. host_name_ok (fst e) \<and> pin_text_ok (snd e))"

lemma trim_id: "b \<noteq> [] \<Longrightarrow> \<not> is_whitespace (hd b) \<Longrightarrow> \<not> is_whitespace (last b) \<Longrightarrow> trim_ws b = b"
proof -
  have drop_id: "dropWhile is_whitespace x = x" if "x \<noteq> []" "\<not> is_whitespace (hd x)" for x using that by (cases x) auto
  assume "b \<noteq> []" "\<not> is_whitespace (hd b)" "\<not> is_whitespace (last b)"
  with drop_id [of b] drop_id [of "rev b"] show "trim_ws b = b" by (simp add: trim_ws_def hd_rev)
qed

lemma trim_ends:
  assumes "trim_ws b \<noteq> []"
  shows "\<not> is_whitespace (hd (trim_ws b))" and "\<not> is_whitespace (last (trim_ws b))" and "set (trim_ws b) \<subseteq> set b"
proof -
  let ?a = "dropWhile is_whitespace b"
  have a: "trim_ws b = rev (dropWhile is_whitespace (rev ?a))" by (simp add: trim_ws_def)
  then have ne: "dropWhile is_whitespace (rev ?a) \<noteq> []" using assms by simp
  from hd_dropWhile [OF this] ne show "\<not> is_whitespace (last (trim_ws b))" by (simp add: a last_rev)
  obtain ys where ys: "?a = trim_ws b @ ys"
    unfolding a by (metis rev_append rev_rev_ident takeWhile_dropWhile_id)
  then have "?a \<noteq> []" "hd ?a = hd (trim_ws b)" using assms by (auto simp del: dropWhile_eq_Nil_conv)
  with hd_dropWhile [of is_whitespace b] show "\<not> is_whitespace (hd (trim_ws b))" by simp
  show "set (trim_ws b) \<subseteq> set b" unfolding a by (auto dest!: set_dropWhileD)
qed

lemma trim_empty: "trim_ws b = [] \<longleftrightarrow> (\<forall>x \<in> set b. is_whitespace x)"
proof
  assume "trim_ws b = []"
  then have all: "\<forall>x \<in> set (dropWhile is_whitespace b). is_whitespace x" by (simp add: trim_ws_def dropWhile_eq_Nil_conv)
  have "dropWhile is_whitespace b = []"
  proof (rule ccontr)
    assume ne: "dropWhile is_whitespace b \<noteq> []"
    from hd_dropWhile [OF this] all list.set_sel(1) [OF ne] show False by blast
  qed
  then show "\<forall>x \<in> set b. is_whitespace x" by (simp add: dropWhile_eq_Nil_conv)
next
  assume "\<forall>x \<in> set b. is_whitespace x"
  then have "dropWhile is_whitespace b = []" by (simp add: dropWhile_eq_Nil_conv)
  then show "trim_ws b = []" unfolding trim_ws_def by (metis dropWhile.simps(1) rev.simps(1))
qed

lemma whitespace_marks: "is_whitespace SPACE" "is_whitespace LF" "\<not> is_whitespace HASH_SIGN"
  by (simp_all add: is_whitespace_def SPACE_def LF_def HASH_SIGN_def)

text \<open>Whatever the file says, the table read from it is in order.\<close>

lemma load_line_ok:
  assumes "pins_ok pins" and "LF \<notin> set line"
  shows "pins_ok (load_line line pins)"
proof -
  let ?l = "trim_ws line" and ?h = "takeWhile (\<lambda>b. b \<noteq> SPACE) (trim_ws line)" and ?r = "dropWhile (\<lambda>b. b \<noteq> SPACE) (trim_ws line)"
  show ?thesis
  proof (cases "?l = [] \<or> hd ?l = HASH_SIGN \<or> ?r = []")
    case False
    then have ne: "?l \<noteq> []" and "?r \<noteq> []" by auto
    note ends = trim_ends [OF ne]
    obtain r where r: "?r = SPACE # r" using \<open>?r \<noteq> []\<close> hd_dropWhile [of "\<lambda>b. b \<noteq> SPACE" ?l] by (cases ?r) auto
    have whole: "?l = ?h @ SPACE # r" using r by (metis takeWhile_dropWhile_id)
    have "hd ?l \<noteq> SPACE" using ends(1) whitespace_marks(1) by metis
    then have h: "?h \<noteq> []" "hd ?h = hd ?l" using ne by (cases ?l; simp)+
    have "host_name_ok ?h" unfolding host_name_ok_def
      using h ends(1,3) False assms(2) by (auto dest: set_takeWhileD)
    moreover have "pin_text_ok (trim_ws r)"
    proof -
      have "r \<noteq> []" using whole ends(2) whitespace_marks(1) by (metis last_snoc)
      then have "last r = last ?l" using whole by (metis last_ConsR last_appendR list.distinct(1))
      then have "\<not> is_whitespace (last r)" using ends(2) by simp
      then have "trim_ws r \<noteq> []" using \<open>r \<noteq> []\<close> trim_empty by (metis last_in_set)
      moreover have "set r \<subseteq> set ?r" unfolding r by auto
      then have "LF \<notin> set r" using ends(3) assms(2) by (blast dest: set_dropWhileD)
      ultimately show ?thesis using trim_ends [of r] by (auto simp: pin_text_ok_def)
    qed
    ultimately show ?thesis using assms(1) False r
      by (auto simp: load_line_def Let_def pins_ok_def distinct_update dest!: set_alist_update [THEN subsetD])
  qed (use assms in \<open>auto simp: load_line_def Let_def\<close>)
qed

lemma split_on_parts: "l \<in> set (split_on x t) \<Longrightarrow> x \<notin> set l"
  by (induction t arbitrary: l) (auto split: if_splits list.splits)

lemma load_pins_ok: "pins_ok (load_pins text)"
proof -
  have "pins_ok (fold load_line ls pins)" if "\<forall>l \<in> set ls. LF \<notin> set l" and "pins_ok pins" for ls pins
    using that by (induction ls arbitrary: pins) (simp_all add: load_line_ok)
  moreover have "pins_ok []" by (simp add: pins_ok_def)
  ultimately show ?thesis using split_on_parts [of _ LF] by (simp add: load_pins_def split: option.split)
qed

text \<open>What was saved is what is loaded.\<close>

lemma split_on_lines: "\<forall>l \<in> set ls. x \<notin> set l \<Longrightarrow> split_on x (concat (map (\<lambda>l. l @ [x]) ls)) = ls @ [[]]"
proof (induction ls)
  case (Cons l ls)
  have "split_on x (l @ x # t) = l # split_on x t" if "x \<notin> set l" for l t using that by (induction l) auto
  with Cons show ?case by simp
qed simp

lemma load_pin_line:
  assumes "host_name_ok h" and "pin_text_ok fp"
  shows "load_line (pin_line (h, fp)) pins = AList.update h fp pins"
proof -
  have "trim_ws (h @ SPACE # fp) = h @ SPACE # fp" "trim_ws fp = fp"
    using assms by (auto simp: host_name_ok_def pin_text_ok_def intro!: trim_id)
  moreover have "takeWhile (\<lambda>b. b \<noteq> SPACE) (h @ SPACE # fp) = h" "dropWhile (\<lambda>b. b \<noteq> SPACE) (h @ SPACE # fp) = SPACE # fp"
    using assms(1) by (auto simp: host_name_ok_def takeWhile_append dropWhile_append)
  ultimately show ?thesis using assms(1) by (simp add: load_line_def pin_line_def host_name_ok_def)
qed

lemma load_saved:
  assumes "pins_ok pins"
  shows "map_of (load_pins (Some (pins_text pins))) = map_of pins"
proof -
  let ?es = "sort_key fst pins"
  have ok: "\<forall>e \<in> set ?es. host_name_ok (fst e) \<and> pin_text_ok (snd e)" and d: "distinct (map fst ?es)"
    using assms by (simp_all add: pins_ok_def distinct_map)
  have hdr: "\<forall>l \<in> set header_lines. LF \<notin> set l" "load_line [] pins = pins" "fold load_line header_lines pins = pins" for pins
    by (simp_all add: header_lines_def ustr_def LF_def load_line_def trim_ws_def is_whitespace_def HASH_SIGN_def)
  have "fold load_line (map pin_line es) pins = fold (\<lambda>(h, fp). AList.update h fp) es pins" if "\<forall>e \<in> set es. host_name_ok (fst e) \<and> pin_text_ok (snd e)" for es pins
    using that by (induction es arbitrary: pins) (auto simp: load_pin_line)
  moreover have "split_on LF (pins_text pins) = header_lines @ map pin_line ?es @ [[]]"
    unfolding pins_text_def using ok hdr(1) split_on_lines [of "header_lines @ map pin_line ?es" LF]
    by (fastforce simp: pin_line_def host_name_ok_def pin_text_ok_def SPACE_def LF_def)
  ultimately have "load_pins (Some (pins_text pins)) = fold (\<lambda>(h, fp). AList.update h fp) ?es []"
    using ok hdr(2,3) by (simp add: load_pins_def)
  moreover have "map_of (fold (\<lambda>(h, fp). AList.update h fp) es m) = map_of m ++ map_of es" if "distinct (map fst es)" for es m :: pins
    using that by (induction es arbitrary: m) (auto simp: update_conv' map_add_upd_left dom_map_of_conv_image_fst)
  moreover have "map_of ?es = map_of pins" by (rule map_of_eqI) (use assms d in \<open>auto simp: pins_ok_def map_of_eq_Some_iff distinct_map\<close>)
  ultimately show ?thesis using d by simp
qed

section \<open>Several processes\<close>

text \<open>An operation begins by reading the file and ends by writing it, with any steps of other operations in between. One that holds the lock begins only when no other does; one
  that could not get it does not wait.\<close>

datatype pin_op = Verify ustr bytes pin_policy lock_outcome "string option" | Remove ustr lock_outcome "string option"


definition op_lock :: "pin_op \<Rightarrow> lock_outcome" where
  "op_lock op = (case op of Verify _ _ _ lock _ \<Rightarrow> lock | Remove _ lock _ \<Rightarrow> lock)"

definition pin_step :: "text_lib \<Rightarrow> host \<Rightarrow> pin_op \<Rightarrow> ustr option \<Rightarrow> ustr option \<Rightarrow> bool \<times> ustr option" where
  "pin_step T H op seen text =
     (case op of
        Verify h key policy lock err \<Rightarrow> (case verify_or_pin T H lock err h key policy seen text of (r, t) \<Rightarrow> (r = Inr (), t))
      | Remove h lock err \<Rightarrow> (case remove_pin lock err h seen text of (r, t) \<Rightarrow> (r = Inr True, t)))"

datatype pin_event = Began pin_op | Ended pin_op bool

type_synonym pin_race = "ustr option \<times> (pin_op \<times> ustr option) list"

inductive race_step :: "text_lib \<Rightarrow> host \<Rightarrow> pin_race \<Rightarrow> pin_event \<Rightarrow> pin_race \<Rightarrow> bool" for T H where
  begins: "op_lock op = Locked \<longrightarrow> Locked \<notin> op_lock ` fst ` set active \<Longrightarrow>
    race_step T H (text, active) (Began op) (text, (op, text) # active)"
| ends: "pin_step T H op seen text = (r, text') \<Longrightarrow>
    race_step T H (text, before @ (op, seen) # after) (Ended op r) (text', before @ after)"

inductive race_run :: "text_lib \<Rightarrow> host \<Rightarrow> pin_race \<Rightarrow> pin_event list \<Rightarrow> pin_race \<Rightarrow> bool" for T H where
  none: "race_run T H s [] s"
| more: "race_step T H s ev s' \<Longrightarrow> race_run T H s' evs s'' \<Longrightarrow> race_run T H s (ev # evs) s''"

section \<open>A pin holds\<close>

lemma pins_ok_update: "pins_ok pins \<Longrightarrow> host_name_ok h \<Longrightarrow> pin_text_ok fp \<Longrightarrow> pins_ok (AList.update h fp pins)"
  by (auto simp: pins_ok_def distinct_update dest!: set_alist_update [THEN subsetD])


definition pinned :: "ustr \<Rightarrow> ustr \<Rightarrow> ustr option \<Rightarrow> bool" where
  "pinned h fp text \<longleftrightarrow> map_of (load_pins text) h = Some fp"








section \<open>What the lock is for\<close>

text \<open>As long as nobody runs without the lock, an operation that holds it writes over what it has read: the operations take effect one after the other.\<close>

theorem lock_serialises:
  assumes "race_run T H (text, []) evs (t, active)" and "\<forall>op. Began op \<in> set evs \<longrightarrow> op_lock op \<noteq> Unlocked"
    and "(op, seen) \<in> set active" and "op_lock op = Locked"
  shows "seen = t"
proof -
  define fresh where "fresh s \<longleftrightarrow> (\<forall>a \<in> set (snd s). op_lock (fst a) \<noteq> Unlocked \<and> (op_lock (fst a) = Locked \<longrightarrow> snd a = fst s)) \<and>
      length (filter (\<lambda>a. op_lock (fst a) = Locked) (snd s)) \<le> 1" for s :: pin_race
  have "fresh s'" if "race_run T H s evs s'" "fresh s" "\<forall>op. Began op \<in> set evs \<longrightarrow> op_lock op \<noteq> Unlocked" for s s' evs
    using that
  proof (induction rule: race_run.induct)
    case (more s ev s' evs s'')
    from more.hyps(1) have "fresh s'"
    proof cases
      case (begins op active "text")
      then show ?thesis using more.prems by (auto simp: fresh_def filter_empty_conv image_iff)
    next
      case (ends op seen "text" r text' before after)
      show ?thesis
      proof (cases "op_lock op = Locked")
        case True
        then have "\<forall>a \<in> set (before @ after). op_lock (fst a) \<noteq> Locked"
          using more.prems(1) ends by (auto simp: fresh_def filter_empty_conv)
        then show ?thesis using more.prems(1) ends by (auto simp: fresh_def filter_empty_conv)
      next
        case False
        moreover have "op_lock op \<noteq> Unlocked" using more.prems(1) ends by (auto simp: fresh_def)
        ultimately obtain e where "op_lock op = LockError e" by (cases "op_lock op") auto
        then have "text' = text" using ends(4)
          by (auto simp: pin_step_def op_lock_def verify_or_pin_def remove_pin_def with_pins_lock_def split: pin_op.splits if_splits)
        then show ?thesis using more.prems(1) ends False by (auto simp: fresh_def)
      qed
    qed
    then show ?case using more.IH more.prems(2) by simp
  qed
  from this [OF assms(1) _ assms(2)] assms(3,4) show ?thesis by (auto simp: fresh_def)
qed

text \<open>Without the lock, two processes that meet a host for the first time both accept the key they are offered, whichever it is, and only one of the two pins remains.\<close>

theorem unlocked_first_use_races:
  assumes "\<forall>key. pin_text_ok (fingerprint T H key)" and "host_name_ok h" and "map_of (load_pins text) h = None"
  shows "\<exists>t. race_run T H (text, [])
      [Began (Verify h key Enforce Unlocked None), Began (Verify h key' Enforce Unlocked None),
       Ended (Verify h key Enforce Unlocked None) True, Ended (Verify h key' Enforce Unlocked None) True] (t, []) \<and>
    pinned h (fingerprint T H key') t"
proof -
  let ?o = "Verify h key Enforce Unlocked None" and ?o' = "Verify h key' Enforce Unlocked None"
  let ?t = "\<lambda>key. Some (pins_text (AList.update h (fingerprint T H key) (load_pins text)))"
  have step: "pin_step T H (Verify h key Enforce Unlocked None) text u = (True, ?t key)" for key u
    using assms(3) by (simp add: pin_step_def verify_or_pin_def with_pins_lock_def verify_or_pin_locked_def save_pins_def Let_def)
  note b = race_step.begins [where T = T and H = H] and e = race_step.ends [where T = T and H = H]
  have "race_run T H (text, []) [Began ?o, Began ?o', Ended ?o True, Ended ?o' True] (?t key', [])"
    using b [of ?o "[]" "text"] b [of ?o' "[(?o, text)]" "text"] e [OF step [of key "text"], of "[(?o', text)]" "[]"] e [OF step [of key' "?t key"], of "[]" "[]"]
    by (auto simp: op_lock_def intro!: race_run.intros)
  moreover have "pinned h (fingerprint T H key') (?t key')"
    using load_saved [OF pins_ok_update [OF load_pins_ok assms(2)]] assms(1) by (simp add: pinned_def update_conv')
  ultimately show ?thesis by blast
qed

end
