(* ===== verification/Share_Link.thy ===== *)
theory Share_Link
  imports Proxy_Forward Known_Hosts
begin

text \<open>
  \<^verbatim>\<open>bin/seam/share.rs\<close>: the downloads of a shared path, limited by a token and a count; \<^verbatim>\<open>bin/seam/connect.rs\<close>: the line by which a remote end announces itself, and the
  quoting of arguments for a shell; \<^verbatim>\<open>bin/seam/ssh.rs\<close>: the remote part of a path. Text that may contain any character is a list of code points; text that is only
  cut at ASCII characters is a list of bytes.
\<close>

section \<open>Tokens and durations\<close>

definition constant_time_eq :: "bytes \<Rightarrow> bytes \<Rightarrow> bool" where
  "constant_time_eq a b =
     (if length a \<noteq> length b then False else fold (\<lambda>(x, y) diff. or diff (Bit_Operations.xor x y)) (zip a b) 0 = 0)"

definition parse_u64 :: "bytes \<Rightarrow> u64 option" where
  "parse_u64 s = map_option of_nat (parse_unsigned (2 ^ 64) s)"

definition strip_suffix :: "u8 \<Rightarrow> bytes \<Rightarrow> bytes option" where
  "strip_suffix c s = (if s \<noteq> [] \<and> last s = c then Some (butlast s) else None)"

definition parse_duration :: "bytes \<Rightarrow> u64 option" where
  "parse_duration s =
     (case strip_suffix 0x73 s of
        Some n \<Rightarrow> parse_u64 n
      | None \<Rightarrow>
          (case strip_suffix 0x6D s of
             Some n \<Rightarrow> map_option (\<lambda>v. v * 60) (parse_u64 n)
           | None \<Rightarrow>
               (case strip_suffix 0x68 s of
                  Some n \<Rightarrow> map_option (\<lambda>v. v * 3600) (parse_u64 n)
                | None \<Rightarrow>
                    (case strip_suffix 0x64 s of
                       Some n \<Rightarrow> map_option (\<lambda>v. v * 86400) (parse_u64 n)
                     | None \<Rightarrow> parse_u64 s))))"

section \<open>Sharing\<close>

datatype share_error = ExpectedToken | TokenTruncated | TokenNotUtf8 | InvalidToken | NoneRemaining

definition check_token :: "bytes \<Rightarrow> bytes \<Rightarrow> share_error + unit" where
  "check_token expected frame =
     (if frame = [] \<or> hd frame \<noteq> TOKEN \<or> length frame < 3 then Inl ExpectedToken
      else
        let token_len = unat (of_be (slice frame 1 3) :: u16)
        in if length frame < 3 + token_len then Inl TokenTruncated
           else if \<not> utf8_valid (slice frame 3 (3 + token_len)) then Inl TokenNotUtf8
           else if \<not> constant_time_eq (slice frame 3 (3 + token_len)) expected then Inl InvalidToken
           else Inr ())"

text \<open>The shared counter is updated in one step.\<close>

definition admit :: "bytes \<Rightarrow> bytes \<Rightarrow> nat \<Rightarrow> (share_error + unit) \<times> nat" where
  "admit expected frame remaining =
     (case check_token expected frame of
        Inl e \<Rightarrow> (Inl e, remaining)
      | Inr _ \<Rightarrow> if remaining > 0 then (Inr (), remaining - 1) else (Inl NoneRemaining, remaining))"

text \<open>The server: the counter, the connections it is sending to, those it has sent everything, those whose frame was accepted so far, and whether its loop still runs. A
  connection sends its first frame, a transfer ends, or the loop looks at the counter and at
  whether the timer has run out or the socket is gone; when the loop ends the process ends.\<close>

record share_state =
  ss_remaining :: nat
  ss_serving :: "nat list"
  ss_complete :: "nat list"
  ss_admitted :: "(nat \<times> bytes) list"
  ss_running :: bool

datatype share_event = FirstFrame nat bytes | TransferEnds nat | LoopTurn bool

definition share_start :: "nat \<Rightarrow> share_state" where
  "share_start limit = \<lparr>ss_remaining = limit, ss_serving = [], ss_complete = [], ss_admitted = [], ss_running = True\<rparr>"

definition share_step :: "bytes \<Rightarrow> share_event \<Rightarrow> share_state \<Rightarrow> share_state" where
  "share_step token ev s =
     (if \<not> ss_running s then s
      else case ev of
          FirstFrame i frame \<Rightarrow>
            (case admit token frame (ss_remaining s) of
               (Inl _, r) \<Rightarrow> s\<lparr>ss_remaining := r\<rparr>
             | (Inr _, r) \<Rightarrow> s\<lparr>ss_remaining := r, ss_serving := i # ss_serving s, ss_admitted := (i, frame) # ss_admitted s\<rparr>)
        | TransferEnds i \<Rightarrow>
            if i \<in> set (ss_serving s) then s\<lparr>ss_serving := remove1 i (ss_serving s), ss_complete := i # ss_complete s\<rparr> else s
        | LoopTurn expired \<Rightarrow> if ss_remaining s = 0 \<or> expired then s\<lparr>ss_running := False, ss_serving := []\<rparr> else s)"

definition token_frame :: "bytes \<Rightarrow> bytes" where
  "token_frame token = TOKEN # u16_to_be (of_nat (length token)) @ token"

section \<open>The line of a remote end\<close>

fun split_ws :: "ustr \<Rightarrow> ustr \<Rightarrow> ustr list" where
  "split_ws acc [] = (if acc = [] then [] else [rev acc])"
| "split_ws acc (c # cs) = (if is_whitespace c then (if acc = [] then split_ws [] cs else rev acc # split_ws [] cs) else split_ws (c # acc) cs)"

definition strip_prefix :: "ustr \<Rightarrow> ustr \<Rightarrow> ustr option" where
  "strip_prefix p s = (if take (length p) s = p then Some (drop (length p) s) else None)"

definition ascii_bytes :: "ustr \<Rightarrow> bytes option" where
  "ascii_bytes s = (if \<forall>c \<in> set s. c < 128 then Some (map of_nat s) else None)"

definition parse_num :: "nat \<Rightarrow> ustr \<Rightarrow> nat option" where
  "parse_num limit v = (case ascii_bytes v of None \<Rightarrow> None | Some b \<Rightarrow> parse_unsigned limit b)"

datatype line_error = BadPort | BadX25519 | X25519Length | BadKem | InvalidKem | MissingPort | MissingX25519 | MissingKem

definition line_hex :: "text_lib \<Rightarrow> ustr \<Rightarrow> bytes option" where
  "line_hex T v = (case ascii_bytes v of None \<Rightarrow> None | Some b \<Rightarrow> t_unhex T (map (\<lambda>x. char_of (unat x)) b))"

record 'k seam_line =
  sl_port :: "u16 option"
  sl_x25519 :: "bytes option"
  sl_kem :: "'k option"

definition line_part :: "text_lib \<Rightarrow> (bytes \<Rightarrow> 'k option) \<Rightarrow> ustr \<Rightarrow> 'k seam_line \<Rightarrow> line_error + 'k seam_line" where
  "line_part T kem_of part l =
     (case strip_prefix (ustr ''PORT='') part of
        Some v \<Rightarrow>
          (case parse_num (2 ^ 16) v of None \<Rightarrow> Inl BadPort | Some p \<Rightarrow> Inr (l\<lparr>sl_port := Some (of_nat p)\<rparr>))
      | None \<Rightarrow>
          (case strip_prefix (ustr ''X25519='') part of
             Some v \<Rightarrow>
               (case line_hex T v of
                  None \<Rightarrow> Inl BadX25519
                | Some b \<Rightarrow> if length b = 32 then Inr (l\<lparr>sl_x25519 := Some b\<rparr>) else Inl X25519Length)
           | None \<Rightarrow>
               (case strip_prefix (ustr ''KEM='') part of
                  Some v \<Rightarrow>
                    (case line_hex T v of
                       None \<Rightarrow> Inl BadKem
                     | Some b \<Rightarrow> (case kem_of b of None \<Rightarrow> Inl InvalidKem | Some k \<Rightarrow> Inr (l\<lparr>sl_kem := Some k\<rparr>)))
                | None \<Rightarrow> Inr l)))"

fun line_parts :: "text_lib \<Rightarrow> (bytes \<Rightarrow> 'k option) \<Rightarrow> ustr list \<Rightarrow> 'k seam_line \<Rightarrow> line_error + 'k seam_line" where
  "line_parts T kem_of [] l = Inr l"
| "line_parts T kem_of (p # ps) l = (case line_part T kem_of p l of Inl e \<Rightarrow> Inl e | Inr l' \<Rightarrow> line_parts T kem_of ps l')"

definition parse_seam_line :: "text_lib \<Rightarrow> (bytes \<Rightarrow> 'k option) \<Rightarrow> ustr \<Rightarrow> line_error + u16 \<times> bytes \<times> 'k" where
  "parse_seam_line T kem_of line =
     (case line_parts T kem_of (drop 1 (split_ws [] line)) \<lparr>sl_port = None, sl_x25519 = None, sl_kem = None\<rparr> of
        Inl e \<Rightarrow> Inl e
      | Inr l \<Rightarrow>
          (case sl_port l of
             None \<Rightarrow> Inl MissingPort
           | Some p \<Rightarrow>
               (case sl_x25519 l of
                  None \<Rightarrow> Inl MissingX25519
                | Some x \<Rightarrow> (case sl_kem l of None \<Rightarrow> Inl MissingKem | Some k \<Rightarrow> Inr (p, x, k)))))"

fun find_token :: "ustr list \<Rightarrow> ustr option" where
  "find_token [] = None"
| "find_token (p # ps) = (case strip_prefix (ustr ''TOKEN='') p of Some v \<Rightarrow> Some v | None \<Rightarrow> find_token ps)"

definition extract_token :: "ustr \<Rightarrow> ustr option" where
  "extract_token line = find_token (drop 1 (split_ws [] line))"

text \<open>What \<^verbatim>\<open>share.rs\<close> tells the recipient to pass on, and, without the token, what every remote end prints.\<close>

definition announce :: "text_lib \<Rightarrow> u16 \<Rightarrow> bytes \<Rightarrow> bytes \<Rightarrow> ustr option \<Rightarrow> ustr" where
  "announce T port x25519 kem token =
     ustr (''SEAM PORT='' @ show_nat (unat port) @ '' X25519='' @ t_hex T x25519 @ '' KEM='' @ t_hex T kem) @
     (case token of Some t \<Rightarrow> ustr '' TOKEN='' @ t | None \<Rightarrow> [])"

section \<open>Quoting\<close>

definition QUOTE :: u8 where "QUOTE = 0x27"
definition BACKSLASH :: u8 where "BACKSLASH = 0x5C"

definition shell_quote :: "bytes \<Rightarrow> bytes" where
  "shell_quote s = [QUOTE] @ concat (map (\<lambda>b. if b = QUOTE then [QUOTE, BACKSLASH, QUOTE, QUOTE] else [b]) s) @ [QUOTE]"

section \<open>Remote paths\<close>

definition parse_userhost :: "bytes \<Rightarrow> bytes option \<times> bytes" where
  "parse_userhost s = (case split_once 0x40 s of Some (u, h) \<Rightarrow> (Some u, h) | None \<Rightarrow> (None, s))"

record remote_info =
  ri_host :: bytes
  ri_user :: "bytes option"
  ri_ssh_port :: "u16 option"

definition remote_target :: "remote_info \<Rightarrow> bytes" where
  "remote_target r = (case ri_user r of Some u \<Rightarrow> u @ 0x40 # ri_host r | None \<Rightarrow> ri_host r)"

text \<open>The lines of \<^verbatim>\<open>ssh -G\<close>: the last of each kind counts. \<open>None\<close> is a command that failed.\<close>

definition config_line :: "bytes \<Rightarrow> bytes option \<times> u16 option \<times> bytes option \<Rightarrow> bytes option \<times> u16 option \<times> bytes option" where
  "config_line line c =
     (case c of (user, port, hostname) \<Rightarrow>
        let after = (\<lambda>k. if take (length (as_bytes k)) line = as_bytes k then Some (drop (length (as_bytes k)) line) else None)
        in case after ''hostname '' of
             Some v \<Rightarrow> (user, port, Some v)
           | None \<Rightarrow>
               (case after ''user '' of
                  Some v \<Rightarrow> (Some v, port, hostname)
                | None \<Rightarrow> (case after ''port '' of Some v \<Rightarrow> (user, parse_u16 v, hostname) | None \<Rightarrow> (user, port, hostname))))"

definition strip_cr :: "bytes \<Rightarrow> bytes" where
  "strip_cr line = (if line \<noteq> [] \<and> last line = 0x0D then butlast line else line)"

text \<open>The lines of a text: a carriage return before the line feed belongs to the line's end, one at the end of the text does not.\<close>

definition text_lines :: "bytes \<Rightarrow> bytes list" where
  "text_lines t = (let parts = split_on NEWLINE t in map strip_cr (butlast parts) @ (if last parts = [] then [] else [last parts]))"

definition resolve_ssh_config :: "bytes option \<Rightarrow> bytes option \<times> u16 option \<times> bytes option" where
  "resolve_ssh_config out =
     (case out of None \<Rightarrow> (None, None, None) | Some text \<Rightarrow> fold config_line (text_lines (utf8_lossy text)) (None, None, None))"

definition parse_remote :: "(bytes \<Rightarrow> bytes option) \<Rightarrow> bytes \<Rightarrow> (remote_info \<times> bytes) option" where
  "parse_remote ssh_g s =
     (case split_once 0x3A s of
        None \<Rightarrow> None
      | Some (host_part, path) \<Rightarrow>
          if length host_part = 1 then None
          else
            (case parse_userhost host_part of (explicit_user, h) \<Rightarrow>
               (case resolve_ssh_config (ssh_g h) of (cfg_user, cfg_port, cfg_hostname) \<Rightarrow>
                  Some (\<lparr>ri_host = (case cfg_hostname of Some n \<Rightarrow> n | None \<Rightarrow> h),
                         ri_user = (case explicit_user of Some u \<Rightarrow> Some u | None \<Rightarrow> cfg_user), ri_ssh_port = cfg_port\<rparr>, path))))"

end
