(* ===== verification/Settings.thy ===== *)
theory Settings
  imports Share_Link Multipath
begin

text \<open>
  \<^verbatim>\<open>bin/seam/config.rs\<close>: the tool's configuration, its defaults, the commands that print, read and change it, and the file it is kept in. Text is a list of code
  points; the TOML library is a parameter that turns a configuration into the bytes of a file and back.
\<close>

record config =
  cc :: ustr
  compress :: bool
  identity_file :: "ustr option"
  cipher_name :: ustr
  max_connections :: nat
  listen_port :: u16
  fec_k :: "u8 option"
  fec_r :: "u8 option"
  fips_mode :: bool
  relays :: "ustr list"
  traffic_padding :: "bool option"
  cover_traffic_kbps :: u32
  timing_jitter_ms :: u32
  obfuscate_headers :: bool
  multipath_addrs :: ustr
  multipath_mode :: ustr
  ratchet_epoch_packets :: u64
  ratchet_epoch_seconds :: u64
  stun_server :: "ustr option"
  connection_migration :: bool
  max_bandwidth :: "ustr option"

definition config_default :: config where
  "config_default =
     \<lparr>cc = ustr ''cubic'', compress = True, identity_file = None, cipher_name = ustr ''chacha20poly1305'', max_connections = 1024, listen_port = 0,
      fec_k = None, fec_r = None, fips_mode = False, relays = [], traffic_padding = None, cover_traffic_kbps = 0, timing_jitter_ms = 0,
      obfuscate_headers = False, multipath_addrs = [], multipath_mode = ustr ''round-robin'', ratchet_epoch_packets = 1000, ratchet_epoch_seconds = 30,
      stun_server = None, connection_migration = True, max_bandwidth = None\<rparr>"

definition ascii_lower :: "nat \<Rightarrow> nat" where
  "ascii_lower c = (if 65 \<le> c \<and> c \<le> 90 then c + 32 else c)"

definition eq_ignore_ascii_case :: "ustr \<Rightarrow> ustr \<Rightarrow> bool" where
  "eq_ignore_ascii_case a b \<longleftrightarrow> map ascii_lower a = map ascii_lower b"

text \<open>The environment variable is \<open>None\<close> when it is not set.\<close>

definition effective_fips_mode :: "ustr option \<Rightarrow> bool \<Rightarrow> bool \<Rightarrow> bool" where
  "effective_fips_mode env config_fips cli_fips \<longleftrightarrow>
     cli_fips \<or> (case env of Some v \<Rightarrow> v = ustr ''1'' \<or> eq_ignore_ascii_case v (ustr ''true'') | None \<Rightarrow> False) \<or> config_fips"

definition effective_traffic_padding :: "config \<Rightarrow> bool \<Rightarrow> bool" where
  "effective_traffic_padding c fips_active = (case traffic_padding c of Some v \<Rightarrow> v | None \<Rightarrow> fips_active)"

section \<open>Reading and printing values\<close>

datatype config_key =
  KCc | KCompress | KIdentity | KCipher | KMaxConnections | KListenPort | KFecK | KFecR | KFipsMode | KRelays | KTrafficPadding | KCoverTrafficKbps
| KTimingJitterMs | KObfuscate | KMultipathAddrs | KMultipathMode | KRatchetEpochPackets | KRatchetEpochSeconds

definition key_table :: "(string \<times> config_key) list" where
  "key_table =
     [(''cc'', KCc), (''compress'', KCompress), (''identity'', KIdentity), (''cipher'', KCipher), (''max_connections'', KMaxConnections),
      (''listen_port'', KListenPort), (''fec_k'', KFecK), (''fec_r'', KFecR), (''fips_mode'', KFipsMode), (''relays'', KRelays),
      (''traffic_padding'', KTrafficPadding), (''cover_traffic_kbps'', KCoverTrafficKbps), (''timing_jitter_ms'', KTimingJitterMs),
      (''obfuscate'', KObfuscate), (''multipath_addrs'', KMultipathAddrs), (''multipath_mode'', KMultipathMode),
      (''ratchet_epoch_packets'', KRatchetEpochPackets), (''ratchet_epoch_seconds'', KRatchetEpochSeconds)]"

definition key_of :: "ustr \<Rightarrow> config_key option" where
  "key_of key = map_of (map (apfst ustr) key_table) key"

definition show_bool :: "bool \<Rightarrow> ustr" where
  "show_bool b = ustr (if b then ''true'' else ''false'')"

definition show_num :: "nat \<Rightarrow> ustr" where
  "show_num n = ustr (show_nat n)"

definition parse_bool :: "ustr \<Rightarrow> bool option" where
  "parse_bool v = (if v = ustr ''true'' then Some True else if v = ustr ''false'' then Some False else None)"

definition path_join :: "ustr \<Rightarrow> ustr \<Rightarrow> ustr" where
  "path_join base n = (if base \<noteq> [] \<and> last base = 47 then base @ n else base @ 47 # n)"

definition seam_dir :: "ustr option \<Rightarrow> ustr" where
  "seam_dir config_dir = path_join (case config_dir of Some d \<Rightarrow> d | None \<Rightarrow> ustr ''.'') (ustr ''seam'')"

definition identity_path :: "ustr option \<Rightarrow> config \<Rightarrow> ustr" where
  "identity_path config_dir c = (case identity_file c of Some p \<Rightarrow> p | None \<Rightarrow> path_join (seam_dir config_dir) (ustr ''identity''))"

text \<open>The lines \<^verbatim>\<open>config get\<close> prints.\<close>

fun get_value :: "ustr option \<Rightarrow> config \<Rightarrow> config_key \<Rightarrow> ustr list" where
  "get_value dir c KCc = [cc c]"
| "get_value dir c KCompress = [show_bool (compress c)]"
| "get_value dir c KIdentity = [identity_path dir c]"
| "get_value dir c KCipher = [cipher_name c]"
| "get_value dir c KMaxConnections = [show_num (max_connections c)]"
| "get_value dir c KListenPort = [show_num (unat (listen_port c))]"
| "get_value dir c KFecK = [case fec_k c of Some v \<Rightarrow> show_num (unat v) | None \<Rightarrow> ustr ''auto'']"
| "get_value dir c KFecR = [case fec_r c of Some v \<Rightarrow> show_num (unat v) | None \<Rightarrow> ustr ''auto'']"
| "get_value dir c KFipsMode = [show_bool (fips_mode c)]"
| "get_value dir c KRelays = relays c"
| "get_value dir c KTrafficPadding = [case traffic_padding c of Some v \<Rightarrow> show_bool v | None \<Rightarrow> ustr ''auto'']"
| "get_value dir c KCoverTrafficKbps = [show_num (unat (cover_traffic_kbps c))]"
| "get_value dir c KTimingJitterMs = [show_num (unat (timing_jitter_ms c))]"
| "get_value dir c KObfuscate = [show_bool (obfuscate_headers c)]"
| "get_value dir c KMultipathAddrs = [multipath_addrs c]"
| "get_value dir c KMultipathMode = [multipath_mode c]"
| "get_value dir c KRatchetEpochPackets = [show_num (unat (ratchet_epoch_packets c))]"
| "get_value dir c KRatchetEpochSeconds = [show_num (unat (ratchet_epoch_seconds c))]"

datatype config_error = ReadFailed ustr | ParseFailed | SerializeFailed | CreateDirFailed ustr | WriteTmpFailed ustr | RenameFailed ustr | UnknownKey ustr
  | BadValue config_key | OutOfRange config_key

definition ascii_string :: "ustr \<Rightarrow> string option" where
  "ascii_string v = (if \<forall>c \<in> set v. c < 128 then Some (map char_of v) else None)"

fun set_value :: "config_key \<Rightarrow> ustr \<Rightarrow> config \<Rightarrow> config_error + config" where
  "set_value KCc v c = (if v \<noteq> ustr ''cubic'' \<and> v \<noteq> ustr ''bbr'' then Inl (OutOfRange KCc) else Inr (c\<lparr>cc := v\<rparr>))"
| "set_value KCompress v c = (case parse_bool v of None \<Rightarrow> Inl (BadValue KCompress) | Some b \<Rightarrow> Inr (c\<lparr>compress := b\<rparr>))"
| "set_value KIdentity v c = Inr (c\<lparr>identity_file := Some v\<rparr>)"
| "set_value KCipher v c =
     (if v \<noteq> ustr ''chacha20poly1305'' \<and> v \<noteq> ustr ''aes256gcm'' then Inl (OutOfRange KCipher) else Inr (c\<lparr>cipher_name := v\<rparr>))"
| "set_value KMaxConnections v c =
     (case parse_num (2 ^ 64) v of
        None \<Rightarrow> Inl (BadValue KMaxConnections)
      | Some n \<Rightarrow> if n = 0 then Inl (OutOfRange KMaxConnections) else Inr (c\<lparr>max_connections := n\<rparr>))"
| "set_value KListenPort v c =
     (case parse_num (2 ^ 16) v of None \<Rightarrow> Inl (BadValue KListenPort) | Some p \<Rightarrow> Inr (c\<lparr>listen_port := of_nat p\<rparr>))"
| "set_value KFecK v c =
     (if v = ustr ''auto'' \<or> v = ustr ''0'' then (if v = ustr ''0'' then Inr (c\<lparr>fec_k := Some 0\<rparr>) else Inr (c\<lparr>fec_k := None\<rparr>))
      else (case parse_num (2 ^ 8) v of
              None \<Rightarrow> Inl (BadValue KFecK)
            | Some k \<Rightarrow> if k = 1 then Inl (OutOfRange KFecK) else Inr (c\<lparr>fec_k := Some (of_nat k)\<rparr>)))"
| "set_value KFecR v c =
     (if v = ustr ''auto'' then Inr (c\<lparr>fec_r := None\<rparr>)
      else (case parse_num (2 ^ 8) v of
              None \<Rightarrow> Inl (BadValue KFecR)
            | Some r \<Rightarrow> if r = 0 then Inl (OutOfRange KFecR) else Inr (c\<lparr>fec_r := Some (of_nat r)\<rparr>)))"
| "set_value KFipsMode v c = (case parse_bool v of None \<Rightarrow> Inl (BadValue KFipsMode) | Some b \<Rightarrow> Inr (c\<lparr>fips_mode := b\<rparr>))"
| "set_value KRelays v c =
     (if trim_ws v = [] then Inr (c\<lparr>relays := []\<rparr>)
      else Inr (c\<lparr>relays := filter (\<lambda>s. s \<noteq> []) (map trim_ws (split_on 44 v))\<rparr>))"
| "set_value KTrafficPadding v c =
     (if v = ustr ''auto'' then Inr (c\<lparr>traffic_padding := None\<rparr>)
      else (case parse_bool v of None \<Rightarrow> Inl (BadValue KTrafficPadding) | Some b \<Rightarrow> Inr (c\<lparr>traffic_padding := Some b\<rparr>)))"
| "set_value KCoverTrafficKbps v c =
     (case parse_num (2 ^ 32) v of None \<Rightarrow> Inl (BadValue KCoverTrafficKbps) | Some n \<Rightarrow> Inr (c\<lparr>cover_traffic_kbps := of_nat n\<rparr>))"
| "set_value KTimingJitterMs v c =
     (case parse_num (2 ^ 32) v of
        None \<Rightarrow> Inl (BadValue KTimingJitterMs)
      | Some ms \<Rightarrow> if ms > 5000 then Inl (OutOfRange KTimingJitterMs) else Inr (c\<lparr>timing_jitter_ms := of_nat ms\<rparr>))"
| "set_value KObfuscate v c = (case parse_bool v of None \<Rightarrow> Inl (BadValue KObfuscate) | Some b \<Rightarrow> Inr (c\<lparr>obfuscate_headers := b\<rparr>))"
| "set_value KMultipathAddrs v c = Inr (c\<lparr>multipath_addrs := v\<rparr>)"
| "set_value KMultipathMode v c =
     (if Option.bind (ascii_string (trim_ws v)) scheduler_parse = None then Inl (OutOfRange KMultipathMode) else Inr (c\<lparr>multipath_mode := v\<rparr>))"
| "set_value KRatchetEpochPackets v c =
     (case parse_num (2 ^ 64) v of
        None \<Rightarrow> Inl (BadValue KRatchetEpochPackets)
      | Some n \<Rightarrow> if n = 0 then Inl (OutOfRange KRatchetEpochPackets) else Inr (c\<lparr>ratchet_epoch_packets := of_nat n\<rparr>))"
| "set_value KRatchetEpochSeconds v c =
     (case parse_num (2 ^ 64) v of
        None \<Rightarrow> Inl (BadValue KRatchetEpochSeconds)
      | Some n \<Rightarrow> if n = 0 then Inl (OutOfRange KRatchetEpochSeconds) else Inr (c\<lparr>ratchet_epoch_seconds := of_nat n\<rparr>))"

section \<open>The file\<close>

record toml_lib =
  to_toml :: "config \<Rightarrow> bytes option"
  of_toml :: "bytes \<Rightarrow> config option"

text \<open>What the operating system answers: errors of reading, of creating the directory, of writing the temporary file (with what is left of it) and of renaming.\<close>

record config_io =
  read_err :: "ustr option"
  mkdir_err :: "ustr option"
  write_err :: "(ustr \<times> bytes option) option"
  rename_err :: "ustr option"

record config_files =
  config_file :: "bytes option"
  config_tmp :: "bytes option"

definition load_config :: "toml_lib \<Rightarrow> config_io \<Rightarrow> config_files \<Rightarrow> config_error + config" where
  "load_config L io fs =
     (case config_file fs of
        None \<Rightarrow> Inr config_default
      | Some content \<Rightarrow>
          (case read_err io of
             Some e \<Rightarrow> Inl (ReadFailed e)
           | None \<Rightarrow>
               if \<not> utf8_valid content then Inl (ReadFailed (ustr ''stream did not contain valid UTF-8''))
               else (case of_toml L content of None \<Rightarrow> Inl ParseFailed | Some c \<Rightarrow> Inr c)))"

definition save_config :: "toml_lib \<Rightarrow> config_io \<Rightarrow> config \<Rightarrow> config_files \<Rightarrow> (config_error + unit) \<times> config_files" where
  "save_config L io c fs =
     (case mkdir_err io of
        Some e \<Rightarrow> (Inl (CreateDirFailed e), fs)
      | None \<Rightarrow>
          (case to_toml L c of
             None \<Rightarrow> (Inl SerializeFailed, fs)
           | Some content \<Rightarrow>
               (case write_err io of
                  Some (e, left_over) \<Rightarrow> (Inl (WriteTmpFailed e), fs\<lparr>config_tmp := left_over\<rparr>)
                | None \<Rightarrow>
                    (case rename_err io of
                       Some e \<Rightarrow> (Inl (RenameFailed e), fs\<lparr>config_tmp := Some content\<rparr>)
                     | None \<Rightarrow> (Inr (), fs\<lparr>config_file := Some content, config_tmp := None\<rparr>)))))"

definition config_get :: "toml_lib \<Rightarrow> config_io \<Rightarrow> ustr option \<Rightarrow> ustr \<Rightarrow> config_files \<Rightarrow> config_error + ustr list" where
  "config_get L io dir key fs =
     (case load_config L io fs of
        Inl e \<Rightarrow> Inl e
      | Inr c \<Rightarrow> (case key_of key of None \<Rightarrow> Inl (UnknownKey key) | Some k \<Rightarrow> Inr (get_value dir c k)))"

definition config_set :: "toml_lib \<Rightarrow> config_io \<Rightarrow> ustr \<Rightarrow> ustr \<Rightarrow> config_files \<Rightarrow> (config_error + unit) \<times> config_files" where
  "config_set L io key v fs =
     (case load_config L io fs of
        Inl e \<Rightarrow> (Inl e, fs)
      | Inr c \<Rightarrow>
          (case key_of key of
             None \<Rightarrow> (Inl (UnknownKey key), fs)
           | Some k \<Rightarrow> (case set_value k v c of Inl e \<Rightarrow> (Inl e, fs) | Inr c' \<Rightarrow> save_config L io c' fs)))"

definition config_init :: "toml_lib \<Rightarrow> config_io \<Rightarrow> config_files \<Rightarrow> (config_error + unit) \<times> config_files" where
  "config_init L io fs = (if config_file fs \<noteq> None then (Inr (), fs) else save_config L io config_default fs)"

section \<open>The listing\<close>

text \<open>The debug form of a string; which characters count as printable is a table of the Unicode standard.\<close>

definition escape_char :: "(nat \<Rightarrow> bool) \<Rightarrow> nat \<Rightarrow> ustr" where
  "escape_char printable ch =
     (if ch = 0 then ustr [CHR 0x5C, CHR ''0'']
      else if ch = 9 then ustr [CHR 0x5C, CHR ''t'']
      else if ch = 13 then ustr [CHR 0x5C, CHR ''r'']
      else if ch = 10 then ustr [CHR 0x5C, CHR ''n'']
      else if ch = 0x22 \<or> ch = 0x5C then [0x5C, ch]
      else if printable ch then [ch]
      else ustr [CHR 0x5C, CHR ''u'', CHR 0x7B] @ ustr (show_hex ch) @ [0x7D])"

definition debug_text :: "(nat \<Rightarrow> bool) \<Rightarrow> ustr \<Rightarrow> ustr" where
  "debug_text printable s = [0x22] @ concat (map (escape_char printable) s) @ [0x22]"

fun join_with :: "ustr \<Rightarrow> ustr list \<Rightarrow> ustr" where
  "join_with sep [] = []"
| "join_with sep [x] = x"
| "join_with sep (x # y # ys) = x @ sep @ join_with sep (y # ys)"

definition setting_line :: "string \<Rightarrow> ustr \<Rightarrow> ustr" where
  "setting_line label v = ustr label @ ustr ''= '' @ v"

definition print_lines :: "(nat \<Rightarrow> bool) \<Rightarrow> ustr option \<Rightarrow> config \<Rightarrow> ustr list" where
  "print_lines printable dir c =
     [ustr ''# config path: '' @ path_join (seam_dir dir) (ustr ''config.toml''), [],
      setting_line ''cc              '' (cc c),
      setting_line ''compress        '' (show_bool (compress c)),
      setting_line ''identity        '' (case identity_file c of Some p \<Rightarrow> p | None \<Rightarrow> identity_path dir c),
      setting_line ''cipher          '' (cipher_name c),
      setting_line ''max_connections '' (show_num (max_connections c)),
      setting_line ''listen_port     '' (if listen_port c = 0 then ustr ''0 (OS-assigned)'' else show_num (unat (listen_port c))),
      setting_line ''fec_k           '' (case fec_k c of Some v \<Rightarrow> show_num (unat v) | None \<Rightarrow> ustr ''auto''),
      setting_line ''fec_r           '' (case fec_r c of Some v \<Rightarrow> show_num (unat v) | None \<Rightarrow> ustr ''auto''),
      setting_line ''fips_mode       '' (show_bool (fips_mode c)),
      setting_line ''relays          ''
        (if relays c = [] then ustr ''[]'' else ustr ''['' @ join_with (ustr '', '') (map (debug_text printable) (relays c)) @ ustr '']''),
      [], ustr ''# Traffic Analysis Resistance'',
      setting_line ''traffic_padding     ''
        (case traffic_padding c of Some v \<Rightarrow> show_bool v | None \<Rightarrow> ustr ''auto (true in FIPS mode, false otherwise)''),
      setting_line ''cover_traffic_kbps  ''
        (if cover_traffic_kbps c = 0 then ustr ''0 (disabled)'' else show_num (unat (cover_traffic_kbps c)) @ ustr '' kbps''),
      setting_line ''timing_jitter_ms    ''
        (if timing_jitter_ms c = 0 then ustr ''0 (disabled)'' else show_num (unat (timing_jitter_ms c)) @ ustr '' ms''),
      setting_line ''obfuscate           '' (show_bool (obfuscate_headers c)),
      [], ustr ''# Multi-path Transport'',
      setting_line ''multipath_addrs     '' (if multipath_addrs c = [] then ustr ''(disabled)'' else multipath_addrs c),
      setting_line ''multipath_mode      '' (multipath_mode c),
      [], ustr ''# Double Ratchet (per-epoch forward secrecy)'',
      setting_line ''ratchet_epoch_packets '' (show_num (unat (ratchet_epoch_packets c))),
      setting_line ''ratchet_epoch_seconds '' (show_num (unat (ratchet_epoch_seconds c)))]"

definition config_print :: "toml_lib \<Rightarrow> config_io \<Rightarrow> (nat \<Rightarrow> bool) \<Rightarrow> ustr option \<Rightarrow> config_files \<Rightarrow> config_error + ustr list" where
  "config_print L io printable dir fs = (case load_config L io fs of Inl e \<Rightarrow> Inl e | Inr c \<Rightarrow> Inr (print_lines printable dir c))"

end
