(* ===== verification/Proxy_Facts.thy ===== *)
theory Proxy_Facts
  imports Proxy_Forward
begin

text \<open>
  What the proxy and the port forwarding guarantee: the host and port that are dialled are those that were asked for, through any number of relays, and the data that
  follows the request goes to that target from its first byte on.
\<close>

section \<open>Text that is ASCII\<close>

definition ascii :: "string \<Rightarrow> bool" where
  "ascii s \<longleftrightarrow> (\<forall>c \<in> set s. of_char c < (128 :: nat))"

lemma ascii_append [simp]: "ascii (s @ t) \<longleftrightarrow> ascii s \<and> ascii t" and ascii_Nil [simp]: "ascii []"
  and ascii_Cons [simp]: "ascii (c # s) \<longleftrightarrow> of_char c < (128 :: nat) \<and> ascii s"
  by (auto simp: ascii_def)

lemma ascii_utf8: "ascii s \<Longrightarrow> utf8_valid (as_bytes s)"
proof (induction s)
  case (Cons c s)
  have c: "of_char c < (128 :: nat)" using Cons.prems by (simp add: ascii_def)
  have "unat (of_char c :: u8) = (of_char c :: nat)"
    unfolding of_nat_of_char [symmetric, where 'a = "8 word"] by (rule unat_of_nat_id) (use c in simp)
  with c have "(of_char c :: u8) < 0x80" by (simp add: word_less_nat_alt)
  with Cons show ?case by (simp add: as_bytes_def ascii_def)
qed (simp add: as_bytes_def)

lemma ascii_nat: "ascii (show_nat n)" and length_nat: "length (show_nat n) \<le> n + 1"
proof (induction n rule: show_nat.induct)
  case (1 n)
  have "of_char (char_of (48 + m) :: char) < (128 :: nat)" if "m < 10" for m :: nat using that by simp
  then have digit: "ascii [char_of (48 + m)]" if "m < 10" for m :: nat using that by (simp add: ascii_def)
  { case 1 show ?case using "1.IH"(1) digit [of n] digit [of "n mod 10"] by (subst show_nat.simps) simp }
  { case 2
    show ?case
    proof (cases "n < 10")
      case False
      then have "length (show_nat (n div 10)) \<le> n div 10 + 1" using "1.IH"(2) by simp
      moreover have "n div 10 + 2 \<le> n + 1" using False by linarith
      ultimately show ?thesis using False by (subst show_nat.simps) simp
    qed (simp add: show_nat.simps) }
qed

lemma ascii_hex_digit: "n < 16 \<Longrightarrow> ascii [hex_digit n]"
  by (simp add: ascii_def hex_digit_def)

lemma ascii_hex: "ascii (show_hex n)"
proof (induction n rule: show_hex.induct)
  case (1 n)
  then show ?case using ascii_hex_digit [of n] ascii_hex_digit [of "n mod 16"] by (subst show_hex.simps) simp
qed

lemma length_hex: "n < 16 ^ k \<Longrightarrow> length (show_hex n) \<le> max 1 k"
proof (induction k arbitrary: n)
  case 0
  then show ?case by (simp add: show_hex.simps)
next
  case (Suc k)
  show ?case
  proof (cases "n < 16")
    case False
    have "n div 16 < 16 ^ k" using Suc.prems by (simp add: less_mult_imp_div_less mult.commute)
    moreover from this have "k \<noteq> 0" using False by (cases k) (auto simp: div_eq_0_iff)
    ultimately show ?thesis using Suc.IH [of "n div 16"] False by (subst show_hex.simps) (simp add: max_def split: if_splits)
  qed (simp add: show_hex.simps)
qed

lemma ascii_join: "ascii sep \<Longrightarrow> \<forall>x \<in> set xs. ascii x \<Longrightarrow> ascii (join sep xs)"
  by (induction sep xs rule: join.induct) auto

lemma length_join: "\<forall>x \<in> set xs. length x \<le> n \<Longrightarrow> length (join sep xs) \<le> length xs * (n + length sep)"
  by (induction sep xs rule: join.induct) (auto simp: algebra_simps)

lemma v4_text: "ascii (show_v4 a)" "length (show_v4 a) < 2000"
proof -
  have "\<forall>x \<in> set (map show_nat (v4_octets a)). ascii x \<and> length x \<le> 256"
  proof
    fix x assume "x \<in> set (map show_nat (v4_octets a))"
    then obtain b :: u8 where x: "x = show_nat (unat b)" by (auto simp: v4_octets_def)
    have "unat b < 256" using unsigned_less [of b, where 'a = nat] by simp
    then show "ascii x \<and> length x \<le> 256" using ascii_nat [of "unat b"] length_nat [of "unat b"] x by simp
  qed
  moreover have "length (map show_nat (v4_octets a)) = 4" by (simp add: v4_octets_def)
  moreover have "ascii ''.''" by (simp add: ascii_def)
  ultimately show "ascii (show_v4 a)" "length (show_v4 a) < 2000"
    using ascii_join [of "''.''"] length_join [of "map show_nat (v4_octets a)" 256 "''.''"] by (auto simp: show_v4_def)
qed

lemma v6_text: "ascii (show_v6 a)" "length (show_v6 a) < 2100"
proof -
  have segs: "\<forall>x \<in> set (map show_hex xs). ascii x \<and> length x \<le> 4" if "set xs \<subseteq> set (v6_segments a)" for xs
  proof
    fix x assume "x \<in> set (map show_hex xs)"
    with that obtain i where x: "x = show_hex (unat (drop_bit (16 * (7 - i)) a AND 0xFFFF))" by (auto simp: v6_segments_def)
    have "(drop_bit (16 * (7 - i)) a AND 0xFFFF) \<le> 0xFFFF" by (rule word_and_le1)
    then have "unat (drop_bit (16 * (7 - i)) a AND 0xFFFF) < 16 ^ 4" by (simp add: word_le_nat_alt)
    then show "ascii x \<and> length x \<le> 4" using ascii_hex length_hex [of _ 4] x by fastforce
  qed
  have len: "length (v6_segments a) = 8" by (simp add: v6_segments_def)
  have colon: "ascii '':''" "ascii ''::''" "ascii ''::ffff:''" by (simp_all add: ascii_def)
  have part: "ascii (join '':'' (map show_hex xs))" "length (join '':'' (map show_hex xs)) \<le> 40"
    if "set xs \<subseteq> set (v6_segments a)" "length xs \<le> 8" for xs
    using segs [OF that(1)] ascii_join [OF colon(1)] length_join [of "map show_hex xs" 4 "'':''"] that(2) by fastforce+
  have "ascii (join '':'' (map show_hex (take s (v6_segments a))))" "length (join '':'' (map show_hex (take s (v6_segments a)))) \<le> 40"
    "ascii (join '':'' (map show_hex (drop s (v6_segments a))))" "length (join '':'' (map show_hex (drop s (v6_segments a)))) \<le> 40"
    "ascii (join '':'' (map show_hex (v6_segments a)))" "length (join '':'' (map show_hex (v6_segments a))) \<le> 40" for s
    using part [of "take s (v6_segments a)"] part [of "drop s (v6_segments a)"] part [of "v6_segments a"] len set_take_subset [of s "v6_segments a"] set_drop_subset [of s "v6_segments a"] by auto
  note parts = this
  show "ascii (show_v6 a)" using parts v4_text colon by (simp add: show_v6_def Let_def split: prod.split)
  obtain st ln where span: "zero_span 0 (v6_segments a) (0, 0) (0, 0) = (st, ln)" by fastforce
  then show "length (show_v6 a) < 2100" using parts(2) [of st] parts(4) [of "st + ln"] parts(6) v4_text(2) [of "ucast a"]
    by (simp add: show_v6_def Let_def)
qed

section \<open>The connect header\<close>

definition host_ok :: "bytes \<Rightarrow> bool" where
  "host_ok h \<longleftrightarrow> utf8_valid h \<and> length h \<le> 4092"

lemma header_read:
  assumes "length h \<le> 4092"
  shows "read_header (frame_header (connect_header h port) @ rest) = Inr (connect_header h port, rest)"
proof -
  have "length (connect_header h port) = length h + 4" by (simp add: connect_header_def)
  moreover have "unat (of_nat (length h + 4) :: u32) = length h + 4" by (rule unat_of_nat_id) (use assms in simp)
  ultimately show ?thesis using assms
    by (simp add: read_header_def read_exact_def frame_header_def codec_simps Let_def)
qed

lemma header_parsed_back:
  assumes "host_ok h"
  shows "Proxy_Forward.parse_header (connect_header h port) = Inr (h, port)"
proof -
  let ?c = "connect_header h port" and ?n = "length h"
  have "slice ?c 0 2 = u16_to_be (of_nat ?n)" "slice ?c 2 (2 + ?n) = h" by (simp_all add: connect_header_def slice_def)
  moreover have "slice ?c (2 + ?n) (2 + ?n + 2) = u16_to_be port" by (simp add: connect_header_def slice_def)
  moreover have "unat (of_nat ?n :: u16) = ?n" by (rule unat_of_nat_id) (use assms in \<open>simp add: host_ok_def\<close>)
  moreover have "length ?c = ?n + 4" by (simp add: connect_header_def)
  ultimately show ?thesis using assms by (simp add: Proxy_Forward.parse_header_def Let_def host_ok_def)
qed

lemma forward_reaches:
  assumes "host_ok h"
  shows "forward_recv dial (forward_client h port tcp) = (if dial (target_of h port) then Bridged (target_of h port) tcp else Unreachable (target_of h port))"
  using assms header_read [of h port tcp] header_parsed_back [OF assms, of port] by (simp add: forward_recv_def forward_client_def host_ok_def)

text \<open>A relay passes the header and the data on as they are, so any number of them makes no difference.\<close>

lemma hop_transparent:
  assumes "host_ok h"
  shows "hop_recv (forward_client h port tcp) = Inr (forward_client h port tcp)"
  using assms header_read [of h port tcp] by (simp add: hop_recv_def forward_client_def host_ok_def)

section \<open>A request through the proxy\<close>

datatype socks_dest = Dest4 u32 | Dest6 "128 word" | DestName bytes

definition dest_bytes :: "socks_dest \<Rightarrow> bytes" where
  "dest_bytes d =
     (case d of
        Dest4 a \<Rightarrow> ATYP_IPV4 # u32_to_be a
      | Dest6 a \<Rightarrow> ATYP_IPV6 # rev (le_bytes 16 a)
      | DestName n \<Rightarrow> ATYP_DOMAIN # of_nat (length n) # n)"

definition dest_host :: "socks_dest \<Rightarrow> bytes" where
  "dest_host d = (case d of Dest4 a \<Rightarrow> as_bytes (show_v4 a) | Dest6 a \<Rightarrow> as_bytes (show_v6 a) | DestName n \<Rightarrow> n)"

definition dest_ok :: "socks_dest \<Rightarrow> bool" where
  "dest_ok d \<longleftrightarrow> (case d of DestName n \<Rightarrow> utf8_valid n \<and> length n < 256 | _ \<Rightarrow> True)"

definition socks_input :: "bytes \<Rightarrow> u8 \<Rightarrow> socks_dest \<Rightarrow> u16 \<Rightarrow> bytes \<Rightarrow> bytes" where
  "socks_input methods rsv d port dat =
     [SOCKS5_VERSION, of_nat (length methods)] @ methods @ [SOCKS5_VERSION, CMD_CONNECT, rsv] @ dest_bytes d @ u16_to_be port @ dat"

lemma dest_host_ok: "dest_ok d \<Longrightarrow> host_ok (dest_host d)"
proof -
  have "length (show_v4 a) \<le> 4092" "length (show_v6 b) \<le> 4092" for a b using v4_text(2) [of a] v6_text(2) [of b] by simp_all
  then show "dest_ok d \<Longrightarrow> host_ok (dest_host d)"
    using v4_text(1) v6_text(1) ascii_utf8 by (cases d) (auto simp: dest_ok_def host_ok_def dest_host_def as_bytes_def)
qed

lemma negotiated:
  assumes "length methods < 256" and "NO_AUTH \<in> set methods"
  shows "socks5_negotiate ([SOCKS5_VERSION, of_nat (length methods)] @ methods @ rest) = ([SOCKS5_VERSION, NO_AUTH], Inr rest)"
proof -
  have "unat (of_nat (length methods) :: u8) = length methods" by (rule unat_of_nat_id) (use assms(1) in simp)
  then show ?thesis using assms(2) by (simp add: socks5_negotiate_def read_exact_def)
qed

lemma requested:
  assumes "dest_ok d"
  shows "socks5_request ([SOCKS5_VERSION, CMD_CONNECT, rsv] @ dest_bytes d @ u16_to_be port @ dat) = ([], Inr (dest_host d, port, dat))"
proof (cases d)
  case (Dest4 a)
  then show ?thesis by (simp add: socks5_request_def socks5_address_def read_exact_def dest_bytes_def dest_host_def codec_simps)
next
  case (Dest6 a)
  have "of_be (rev (le_bytes 16 a)) = a" by (simp add: of_be_def of_le_le_bytes)
  with Dest6 show ?thesis by (simp add: socks5_request_def socks5_address_def read_exact_def dest_bytes_def dest_host_def ATYP_IPV4_def ATYP_DOMAIN_def ATYP_IPV6_def)
next
  case (DestName n)
  then have "unat (of_nat (length n) :: u8) = length n" "utf8_valid n" using assms by (simp_all add: dest_ok_def unat_of_nat_id)
  with DestName show ?thesis
    by (simp add: socks5_request_def socks5_address_def read_exact_def dest_bytes_def dest_host_def ATYP_IPV4_def ATYP_DOMAIN_def)
qed

text \<open>C33: The proxy connects a client to what it asked for. For a client that offers no authentication among its methods and asks to connect to an IPv4 or IPv6 address or to
  a name of valid text, with any port and any data after the request: the other end dials exactly the text of that address or name with that port; if it reaches it,
  the client is told so and the target gets the data from its first byte on, and if not, the client gets a failure; nothing else is ever dialled.\<close>

theorem proxy_connects_requested:
  assumes "length methods < 256" and "NO_AUTH \<in> set methods" and "dest_ok d"
  shows "let target = target_of (dest_host d) port; framed = frame_header (connect_header (dest_host d) port) in
    handle_socks5_client (\<lambda>header. fst (proxy_recv dial header)) (socks_input methods rsv d port dat) =
      (if dial target then ([SOCKS5_VERSION, NO_AUTH] @ socks5_reply REP_SUCCESS, Inr (framed, dat))
       else ([SOCKS5_VERSION, NO_AUTH] @ socks5_reply REP_GENERAL_FAILURE, Inl RemoteFailed)) \<and>
    snd (proxy_recv dial (framed @ dat)) = (if dial target then Bridged target dat else Unreachable target)"
proof -
  note ok = dest_host_ok [OF assms(3)]
  have recv: "forward_recv dial (frame_header (connect_header (dest_host d) port) @ x) =
      (if dial (target_of (dest_host d) port) then Bridged (target_of (dest_host d) port) x else Unreachable (target_of (dest_host d) port))" for x
    using forward_reaches [OF ok, of dial port x] by (simp add: forward_client_def)
  have "socks5_negotiate (socks_input methods rsv d port dat) =
      ([SOCKS5_VERSION, NO_AUTH], Inr ([SOCKS5_VERSION, CMD_CONNECT, rsv] @ dest_bytes d @ u16_to_be port @ dat))"
    unfolding socks_input_def by (rule negotiated [OF assms(1,2)])
  then show ?thesis using requested [OF assms(3), of rsv port dat] recv [of "[]"] recv [of dat]
    by (simp add: handle_socks5_client_def proxy_recv_def Let_def REP_SUCCESS_def REP_GENERAL_FAILURE_def)
qed

theorem proxy_connects_requested_witness:
  "handle_socks5_client (\<lambda>header. fst (proxy_recv (\<lambda>t. t = target_of [97] 80) header)) (socks_input [NO_AUTH] 0 (DestName [97]) 80 [1, 2]) =
     ([SOCKS5_VERSION, NO_AUTH] @ socks5_reply REP_SUCCESS, Inr (frame_header (connect_header [97] 80), [1, 2]))"
proof -
  have "dest_ok (DestName [97])" by (simp add: dest_ok_def)
  then show ?thesis
    using proxy_connects_requested [of "[NO_AUTH]" "DestName [97]" 80 "\<lambda>t. t = target_of [97] 80" 0 "[1, 2]"] by (simp add: Let_def dest_host_def)
qed

section \<open>Shells\<close>

text \<open>The standard input of a shell arrives as it was sent, in whatever pieces.\<close>

lemma stdin_arrives:
  assumes "\<forall>d \<in> set ds. length d < 2 ^ 16" and "rest = [] \<or> hd rest \<noteq> SHELL_STDIN"
  shows "shell_stdin (concat (map stdin_frame ds) @ rest) = concat ds"
  using assms(1)
proof (induction ds)
  case Nil
  then show ?case using assms(2) by (cases rest) (simp_all add: shell_stdin.simps)
next
  case (Cons d ds)
  have "unat (of_nat (length d) :: u16) = length d" by (rule unat_of_nat_id) (use Cons.prems in simp)
  then have "shell_stdin (stdin_frame d @ x) = d @ shell_stdin x" for x by (subst shell_stdin.simps) (simp add: stdin_frame_def read_exact_def)
  with Cons show ?case by simp
qed

end
