(* ===== verification/Share_Facts.thy ===== *)
theory Share_Facts
  imports "HOL-Library.Multiset" Share_Link Proxy_Facts
begin

text \<open>
  What a share promises: no more downloads than allowed, each behind the token. The announcement of a remote end is read back as it was printed, a quoted argument is one
  word for a shell whatever it contains, and the remote part of a path is read as it is written.
\<close>

section \<open>Tokens\<close>

lemma fold_diff:
  "fold (\<lambda>(x, y) diff. or diff (Bit_Operations.xor x y)) ps d = (0 :: u8) \<longleftrightarrow> d = 0 \<and> (\<forall>(x, y) \<in> set ps. x = y)"
proof (induction ps arbitrary: d)
  case (Cons p ps)
  obtain x y where p: "p = (x, y)" by fastforce
  have "Bit_Operations.xor x y = 0 \<longleftrightarrow> x = y" by (metis xor.assoc xor.left_neutral xor.right_neutral xor_self_eq)
  then have "or d (Bit_Operations.xor x y) = 0 \<longleftrightarrow> d = 0 \<and> x = y" by (simp add: or_eq_0_iff)
  with Cons show ?case by (auto simp: p)
qed simp

lemma constant_time_eq_iff: "constant_time_eq a b \<longleftrightarrow> a = b"
proof -
  have "(\<forall>(x, y) \<in> set (zip a b). x = y) \<longleftrightarrow> a = b" if "length a = length b"
    using that by (induction a b rule: list_induct2) auto
  then show ?thesis by (auto simp: constant_time_eq_def fold_diff)
qed

lemma check_token_iff:
  "check_token token frame = Inr () \<longleftrightarrow> utf8_valid token \<and> length token < 2 ^ 16 \<and> (\<exists>rest. frame = token_frame token @ rest)"
proof
  assume ok: "check_token token frame = Inr ()"
  then have len: "3 \<le> length frame" and hd: "frame \<noteq> []" "hd frame = TOKEN" by (auto simp: check_token_def split: if_splits)
  let ?n = "unat (of_be (slice frame 1 3) :: u16)"
  have n: "3 + ?n \<le> length frame" "utf8_valid token" "slice frame 3 (3 + ?n) = token"
    using ok len hd by (auto simp: check_token_def constant_time_eq_iff Let_def split: if_splits)
  have ln: "length token = ?n" using arg_cong [OF n(3), of length] n(1) by simp
  have small: "length token < 2 ^ 16" unfolding ln using unsigned_less [of "of_be (slice frame 1 3) :: u16", where 'a = nat] by simp
  obtain t b c rest where fr: "frame = t # b # c # rest" using len by (metis Suc_le_length_iff numeral_3_eq_3)
  have bc: "u16_to_be (of_nat (length token)) = [b, c]"
    unfolding ln using le_bytes_of_le [of "[c, b]" 2, where 'a = 16] by (simp add: fr slice_def u16_to_be_def of_be_def)
  have "take (length token) rest = token" using n(3) by (simp add: fr slice_def ln)
  then have "rest = token @ drop (length token) rest" by (metis append_take_drop_id)
  then have "frame = token_frame token @ drop (length token) rest" using bc hd fr by (simp add: token_frame_def)
  then show "utf8_valid token \<and> length token < 2 ^ 16 \<and> (\<exists>rest. frame = token_frame token @ rest)" using n(2) small by blast
next
  assume "utf8_valid token \<and> length token < 2 ^ 16 \<and> (\<exists>rest. frame = token_frame token @ rest)"
  then obtain rest where fr: "frame = token_frame token @ rest" and ok: "utf8_valid token" "length token < 2 ^ 16" by blast
  have "slice frame 1 3 = u16_to_be (of_nat (length token))" "slice frame 3 (3 + length token) = token"
    by (simp_all add: fr token_frame_def slice_def)
  moreover have "unat (of_nat (length token) :: u16) = length token" by (rule unat_of_nat_id) (use ok in simp)
  moreover have "length frame = 3 + length token + length rest" by (simp add: fr token_frame_def)
  ultimately show "check_token token frame = Inr ()" using ok
    by (simp add: check_token_def constant_time_eq_iff Let_def) (simp add: fr token_frame_def)
qed

section \<open>The number of downloads\<close>

definition share_inv :: "bytes \<Rightarrow> nat \<Rightarrow> share_state \<Rightarrow> bool" where
  "share_inv token limit s \<longleftrightarrow>
     length (ss_admitted s) + ss_remaining s = limit \<and> snd ` set (ss_admitted s) \<subseteq> range (\<lambda>rest. token_frame token @ rest) \<and>
     mset (ss_serving s) + mset (ss_complete s) \<subseteq># mset (map fst (ss_admitted s))"

lemma share_step_inv:
  assumes "share_inv token limit s"
  shows "share_inv token limit (share_step token ev s)"
proof (cases "ss_running s")
  case True
  show ?thesis
  proof (cases ev)
    case (FirstFrame i frame)
    show ?thesis
    proof (cases "check_token token frame = Inr () \<and> ss_remaining s > 0")
      case True
      then have "frame \<in> range (\<lambda>rest. token_frame token @ rest)" using check_token_iff [of token frame] by auto
      then show ?thesis using assms True \<open>ss_running s\<close> by (auto simp: FirstFrame share_step_def admit_def share_inv_def)
    next
      case False
      then show ?thesis using assms by (auto simp: FirstFrame share_step_def admit_def share_inv_def split: sum.split)
    qed
  next
    case (TransferEnds i)
    have "mset (remove1 i (ss_serving s)) + add_mset i (mset (ss_complete s)) = mset (ss_serving s) + mset (ss_complete s)"
      if "i \<in> set (ss_serving s)" using that by (simp add: union_assoc [symmetric])
    then show ?thesis using assms by (auto simp: TransferEnds share_step_def share_inv_def)
  next
    case (LoopTurn expired)
    have "mset (ss_complete s) \<subseteq># mset (map fst (ss_admitted s))"
      using assms unfolding share_inv_def by (meson mset_subset_eq_add_right subset_mset.order_trans)
    then show ?thesis using assms by (auto simp: LoopTurn share_step_def share_inv_def)
  qed
qed (use assms in \<open>simp add: share_step_def\<close>)

lemma share_run_inv: "share_inv token limit s \<Longrightarrow> share_inv token limit (fold (share_step token) evs s)"
  by (induction evs arbitrary: s) (simp_all add: share_step_inv)

text \<open>C34: Whatever connections send and in whatever order transfers start and end, a share started for \<open>limit\<close> downloads admits at most that many, every admitted connection
  began with a TOKEN frame that carries the whole token, and only admitted connections are ever served to the end; while the share runs and a download is left, a connection
  that sends the token is admitted.\<close>

theorem share_limits:
  assumes "s = fold (share_step token) evs (share_start limit)"
  shows "length (ss_admitted s) \<le> limit \<and> length (ss_complete s) \<le> length (ss_admitted s) \<and>
    snd ` set (ss_admitted s) \<subseteq> range (\<lambda>rest. token_frame token @ rest) \<and> set (ss_complete s) \<subseteq> fst ` set (ss_admitted s) \<and>
    (ss_running s \<and> ss_remaining s > 0 \<and> utf8_valid token \<and> length token < 2 ^ 16 \<longrightarrow>
       i \<in> set (ss_serving (share_step token (FirstFrame i (token_frame token)) s)))"
proof -
  have inv: "share_inv token limit s" unfolding assms by (rule share_run_inv) (simp add: share_start_def share_inv_def)
  then have sub: "mset (ss_complete s) \<subseteq># mset (map fst (ss_admitted s))"
    unfolding share_inv_def by (meson mset_subset_eq_add_right subset_mset.order_trans)
  have "length (ss_complete s) \<le> length (ss_admitted s)" using size_mset_mono [OF sub] by simp
  moreover have "set (ss_complete s) \<subseteq> fst ` set (ss_admitted s)" using set_mset_mono [OF sub] by simp
  moreover have "check_token token (token_frame token) = Inr ()" if "utf8_valid token" "length token < 2 ^ 16"
    using that check_token_iff [of token "token_frame token"] by (metis append_Nil2)
  ultimately show ?thesis using inv by (auto simp: share_inv_def share_step_def admit_def)
qed

theorem share_limits_witness:
  "length (ss_admitted (fold (share_step [116]) [FirstFrame 1 (token_frame [117]), FirstFrame 2 (token_frame [116]), LoopTurn False] (share_start 2))) \<le> 2 \<and>
   3 \<in> set (ss_serving (share_step [116] (FirstFrame 3 (token_frame [116]))
     (fold (share_step [116]) [FirstFrame 1 (token_frame [117]), FirstFrame 2 (token_frame [116]), LoopTurn False] (share_start 2))))"
proof -
  let ?s = "fold (share_step [116]) [FirstFrame 1 (token_frame [117]), FirstFrame 2 (token_frame [116]), LoopTurn False] (share_start 2)"
  have "check_token [116] (token_frame [116]) = Inr ()" "check_token [116] (token_frame [117]) \<noteq> Inr ()"
    using check_token_iff [of "[116]" "token_frame [116]"] check_token_iff [of "[116]" "token_frame [117]"]
    by (auto simp: token_frame_def)
  then have "ss_running ?s \<and> ss_remaining ?s > 0" by (auto simp: share_step_def share_start_def admit_def split: sum.split)
  moreover have "utf8_valid [116]" "length [116 :: u8] < 2 ^ 16" by simp_all
  ultimately show ?thesis using share_limits [of ?s "[116]" "[FirstFrame 1 (token_frame [117]), FirstFrame 2 (token_frame [116]), LoopTurn False]" 2 3, OF refl]
    by blast
qed

text \<open>The loop ends, and the process with it, as soon as the last download has been reserved: that download is cut off, whatever happens later.\<close>

theorem last_download_cut:
  assumes "utf8_valid token" and "length token < 2 ^ 16"
  shows "ss_complete (fold (share_step token) (FirstFrame i (token_frame token) # LoopTurn expired # evs) (share_start 1)) = []"
proof -
  have stopped: "fold (share_step token) evs s = s" if "\<not> ss_running s" for s
    using that by (induction evs) (simp_all add: share_step_def)
  have "check_token token (token_frame token) = Inr ()" using assms check_token_iff [of token "token_frame token"] by (metis append_Nil2)
  then show ?thesis by (simp add: share_step_def [of _ "FirstFrame _ _"] share_step_def [of _ "LoopTurn _"] share_start_def admit_def stopped)
qed

section \<open>The announcement of a remote end\<close>

text \<open>The hex library: decoding reverses encoding, and the text has two digits or small letters for a byte.\<close>

definition hex_ok :: "text_lib \<Rightarrow> bool" where
  "hex_ok T \<longleftrightarrow> (\<forall>b. t_unhex T (t_hex T b) = Some b) \<and> (\<forall>b. length (t_hex T b) = 2 * length b) \<and>
     (\<forall>b. \<forall>c \<in> set (t_hex T b). of_char c \<in> {48 .. (57 :: nat)} \<union> {97 .. 102})"

definition word_ok :: "ustr \<Rightarrow> bool" where
  "word_ok w \<longleftrightarrow> (\<forall>c \<in> set w. \<not> is_whitespace c)"

lemma word_ok_simps [simp]: "word_ok []" "word_ok (c # w) \<longleftrightarrow> \<not> is_whitespace c \<and> word_ok w" "word_ok (v @ w) \<longleftrightarrow> word_ok v \<and> word_ok w"
  by (auto simp: word_ok_def)

lemma split_ws_word: "word_ok w \<Longrightarrow> split_ws acc (w @ rest) = split_ws (rev w @ acc) rest"
  by (induction w arbitrary: acc) simp_all

fun spaced :: "ustr list \<Rightarrow> ustr" where
  "spaced [] = []"
| "spaced [w] = w"
| "spaced (w # v # ws) = w @ SPACE # spaced (v # ws)"

lemma split_ws_words:
  "\<forall>w \<in> set ws. w \<noteq> [] \<and> word_ok w \<Longrightarrow> split_ws [] (spaced ws) = ws"
proof (induction ws rule: spaced.induct)
  case (3 w v ws)
  have w: "word_ok w" "w \<noteq> []" using "3.prems" by simp_all
  have sp: "is_whitespace SPACE" by (simp add: is_whitespace_def SPACE_def)
  have "split_ws [] (spaced (w # v # ws)) = split_ws (rev w) (SPACE # spaced (v # ws))" using split_ws_word [OF w(1), of "[]"] by simp
  also have "\<dots> = w # split_ws [] (spaced (v # ws))" using w(2) sp by simp
  finally show ?case using 3 by simp
next
  case (2 w)
  then show ?case using split_ws_word [of w "[]" "[]"] by simp
qed simp

lemma ustr_append: "ustr (s @ t) = ustr s @ ustr t" and ustr_Nil [simp]: "ustr [] = []"
  by (simp_all add: ustr_def)

definition line_words :: "text_lib \<Rightarrow> u16 \<Rightarrow> bytes \<Rightarrow> bytes \<Rightarrow> ustr option \<Rightarrow> ustr list" where
  "line_words T port x25519 kem token =
     [ustr ''SEAM'', ustr ''PORT='' @ ustr (show_nat (unat port)), ustr ''X25519='' @ ustr (t_hex T x25519), ustr ''KEM='' @ ustr (t_hex T kem)] @
     (case token of Some t \<Rightarrow> [ustr ''TOKEN='' @ t] | None \<Rightarrow> [])"

lemma announce_words: "announce T port x25519 kem token = spaced (line_words T port x25519 kem token)"
  by (cases token) (simp_all add: announce_def line_words_def ustr_def SPACE_def)

lemma digits_ok: "\<forall>c \<in> set (show_nat n). of_char c \<in> {48 .. (57 :: nat)}"
proof (induction n rule: show_nat.induct)
  case (1 n)
  show ?case
  proof (cases "n < 10")
    case False
    have "n mod 10 < 10" by simp
    with 1 False show ?thesis by (subst show_nat.simps) auto
  qed (auto simp: show_nat.simps)
qed

lemma ustr_word_ok: "\<forall>c \<in> set s. of_char c \<in> {48 .. (57 :: nat)} \<union> {97 .. 102} \<Longrightarrow> word_ok (ustr s)"
  by (force simp: word_ok_def ustr_def is_whitespace_def)

lemma words_ok:
  assumes "hex_ok T" and "\<forall>t. token = Some t \<longrightarrow> word_ok t"
  shows "\<forall>w \<in> set (line_words T port x kem token). w \<noteq> [] \<and> word_ok w"
proof -
  have "word_ok (ustr (t_hex T b))" for b using assms(1) by (intro ustr_word_ok) (auto simp: hex_ok_def)
  moreover have "word_ok (ustr (show_nat n))" for n using digits_ok by (intro ustr_word_ok) blast
  moreover have "word_ok (ustr ''SEAM'')" "word_ok (ustr ''PORT='')" "word_ok (ustr ''X25519='')" "word_ok (ustr ''KEM='')" "word_ok (ustr ''TOKEN='')"
    by (simp_all add: ustr_def is_whitespace_def)
  moreover have "ustr ''SEAM'' \<noteq> []" "ustr ''PORT='' \<noteq> []" "ustr ''X25519='' \<noteq> []" "ustr ''KEM='' \<noteq> []" "ustr ''TOKEN='' \<noteq> []"
    by (simp_all add: ustr_def)
  ultimately show ?thesis using assms(2) by (auto simp: line_words_def split: option.split)
qed

lemma digit_back: "d < 10 \<Longrightarrow> digit_value (of_nat (48 + d)) = Some d"
proof -
  assume d: "d < 10"
  then have "unat (of_nat (48 + d) :: u8) = 48 + d" by (intro unat_of_nat_id) simp
  with d show ?thesis by (simp add: digit_value_def word_le_nat_alt)
qed

lemma parse_digits_back: "n < limit \<Longrightarrow> parse_digits limit 0 (as_bytes (show_nat n) @ rest) = parse_digits limit n rest"
proof (induction n arbitrary: rest rule: show_nat.induct)
  case (1 n)
  have of_char: "of_char (char_of (48 + d) :: char) = (of_nat (48 + d) :: u8)" if "d < 10" for d :: nat
    unfolding of_nat_of_char [symmetric, where 'a = "8 word"] using that by simp
  show ?case
  proof (cases "n < 10")
    case True
    then show ?thesis using "1.prems" digit_back [of n] of_char [of n] by (subst show_nat.simps) (simp add: as_bytes_def del: of_nat_add)
  next
    case False
    have "as_bytes (show_nat n) @ rest = as_bytes (show_nat (n div 10)) @ of_nat (48 + n mod 10) # rest"
      using False of_char [of "n mod 10"] by (subst show_nat.simps) (simp add: as_bytes_def del: of_nat_add)
    moreover have "n div 10 < limit" using "1.prems" by simp
    ultimately show ?thesis using "1.IH" [OF False] "1.prems" digit_back [of "n mod 10"] by (simp del: of_nat_add)
  qed
qed

lemma parse_unsigned_back: "n < limit \<Longrightarrow> parse_unsigned limit (as_bytes (show_nat n)) = Some n"
proof -
  assume "n < limit"
  then have "parse_digits limit 0 (as_bytes (show_nat n)) = Some n" using parse_digits_back [of n limit "[]"] by simp
  moreover have ne: "show_nat n \<noteq> []" by (subst show_nat.simps) simp
  moreover have "hd (as_bytes (show_nat n)) \<noteq> 0x2B"
  proof -
    obtain c s where cs: "show_nat n = c # s" using ne by (cases "show_nat n") auto
    with digits_ok [of n] have "of_char c \<in> {48 .. (57 :: nat)}" by simp
    then have "unat (of_char c :: u8) \<in> {48 .. 57}"
      unfolding of_nat_of_char [symmetric, where 'a = "8 word"] by (subst unat_of_nat_id) auto
    then have "(of_char c :: u8) \<noteq> 0x2B" by auto
    then show ?thesis by (simp add: cs as_bytes_def)
  qed
  ultimately show ?thesis by (simp add: parse_unsigned_def as_bytes_def)
qed

lemma parse_u16_back: "parse_u16 (as_bytes (show_nat (unat p))) = Some p"
  using parse_unsigned_back [of "unat p" "2 ^ 16"] unsigned_less [of p, where 'a = nat] by (simp add: parse_u16_def)

lemma ascii_back: "\<forall>c \<in> set s. of_char c < (128 :: nat) \<Longrightarrow> ascii_bytes (ustr s) = Some (as_bytes s)"
  by (auto simp: ascii_bytes_def ustr_def as_bytes_def of_nat_of_char)

lemma parse_digits_less: "parse_digits limit acc b = Some n \<Longrightarrow> acc < limit \<Longrightarrow> n < limit"
  by (induction limit acc b rule: parse_digits.induct) (auto split: option.splits if_splits)

lemma parse_num_less: "parse_num limit v = Some n \<Longrightarrow> 0 < limit \<Longrightarrow> n < limit"
  using parse_digits_less [of limit 0] by (auto simp: parse_num_def parse_unsigned_def Let_def split: option.splits if_splits)

lemma parse_num_back: "n < limit \<Longrightarrow> parse_num limit (ustr (show_nat n)) = Some n"
proof -
  assume n: "n < limit"
  have "\<forall>c \<in> set (show_nat n). of_char c < (128 :: nat)" using digits_ok [of n] by fastforce
  then show ?thesis using parse_unsigned_back [OF n] by (simp add: parse_num_def ascii_back)
qed

lemma hex_back: "hex_ok T \<Longrightarrow> line_hex T (ustr (t_hex T b)) = Some b"
proof -
  assume T: "hex_ok T"
  then have small: "\<forall>c \<in> set (t_hex T b). of_char c < (128 :: nat)" by (fastforce simp: hex_ok_def)
  have "char_of (unat (of_char c :: u8)) = c" if "of_char c < (128 :: nat)" for c
  proof -
    have "unat (of_char c :: u8) = of_char c" unfolding of_nat_of_char [symmetric, where 'a = "8 word"] by (rule unat_of_nat_id) (use that in simp)
    then show ?thesis by simp
  qed
  then have "map (\<lambda>x. char_of (unat x)) (as_bytes (t_hex T b)) = t_hex T b" using small by (simp add: as_bytes_def map_idI)
  then show ?thesis using T ascii_back [OF small] by (simp add: line_hex_def hex_ok_def)
qed

text \<open>The line a remote end prints for its port, its public keys and, for a share, its token is read back as exactly these: the client connects to the port and
  authenticates against the keys that were announced.\<close>

lemma line_read_back:
  assumes "hex_ok T" and "length x = 32" and "kem_of kem = Some k" and "\<forall>t. token = Some t \<longrightarrow> word_ok t"
  shows "parse_seam_line T kem_of (announce T port x kem token) = Inr (port, x, k) \<and> extract_token (announce T port x kem token) = token"
proof -
  have words: "split_ws [] (announce T port x kem token) = line_words T port x kem token"
    unfolding announce_words by (rule split_ws_words [OF words_ok [OF assms(1,4)]])
  have port: "line_part T kem_of (ustr ''PORT='' @ ustr (show_nat (unat port))) l = Inr (l\<lparr>sl_port := Some port\<rparr>)" for l
    using parse_num_back [of "unat port" "2 ^ 16"] unsigned_less [of port, where 'a = nat] by (simp add: line_part_def strip_prefix_def)
  have x: "line_part T kem_of (ustr ''X25519='' @ ustr (t_hex T x)) l = Inr (l\<lparr>sl_x25519 := Some x\<rparr>)" for l
    using hex_back [OF assms(1), of x] assms(2) by (simp add: line_part_def strip_prefix_def) (simp add: ustr_def)
  have kem: "line_part T kem_of (ustr ''KEM='' @ ustr (t_hex T kem)) l = Inr (l\<lparr>sl_kem := Some k\<rparr>)" for l
    using hex_back [OF assms(1), of kem] assms(3) by (simp add: line_part_def strip_prefix_def) (simp add: ustr_def)
  have tok: "line_part T kem_of (ustr ''TOKEN='' @ t) l = Inr l" for t l by (simp add: line_part_def strip_prefix_def ustr_def)
  have "parse_seam_line T kem_of (announce T port x kem token) = Inr (port, x, k)"
    unfolding parse_seam_line_def words by (cases token) (simp_all add: line_words_def port x kem tok)
  moreover have "strip_prefix (ustr ''TOKEN='') (ustr ''PORT='' @ v) = None" "strip_prefix (ustr ''TOKEN='') (ustr ''X25519='' @ v) = None"
    "strip_prefix (ustr ''TOKEN='') (ustr ''KEM='' @ v) = None" "strip_prefix (ustr ''TOKEN='') (ustr ''TOKEN='' @ v) = Some v" for v
    by (simp_all add: strip_prefix_def ustr_def)
  then have "extract_token (announce T port x kem token) = token"
    unfolding extract_token_def words by (cases token) (simp_all add: line_words_def)
  ultimately show ?thesis ..
qed

definition hex_byte :: "u8 \<Rightarrow> string" where
  "hex_byte b = [hex_digit (unat b div 16), hex_digit (unat b mod 16)]"

definition hex_value :: "char \<Rightarrow> nat" where
  "hex_value c = (if of_char c < (58 :: nat) then of_char c - 48 else of_char c - 87)"

fun unhex_pairs :: "string \<Rightarrow> bytes option" where
  "unhex_pairs [] = Some []"
| "unhex_pairs [c] = None"
| "unhex_pairs (c # d # s) = map_option ((#) (of_nat (16 * hex_value c + hex_value d))) (unhex_pairs s)"

definition small_hex :: text_lib where
  "small_hex = \<lparr>t_print = (\<lambda>_. []), t_parse = (\<lambda>_. None), t_hex = (\<lambda>b. concat (map hex_byte b)), t_unhex = unhex_pairs\<rparr>"

lemma hex_digit_value: "n < 16 \<Longrightarrow> hex_value (hex_digit n) = n" "n < 16 \<Longrightarrow> of_char (hex_digit n) \<in> {48 .. (57 :: nat)} \<union> {97 .. 102}"
  by (auto simp: hex_value_def hex_digit_def)

lemma small_hex_ok: "hex_ok small_hex"
proof -
  have nib: "unat b div 16 < 16" "unat b mod 16 < 16" for b :: u8 using unsigned_less [of b, where 'a = nat] by simp_all
  have "unhex_pairs (concat (map hex_byte b)) = Some b" for b
    by (induction b) (simp_all add: hex_byte_def hex_digit_value(1) [OF nib(1)] hex_digit_value(1) [OF nib(2)] mult.commute [of 16] div_mult_mod_eq del: of_nat_add of_nat_mult)
  moreover have "of_char c \<in> {48 .. (57 :: nat)} \<union> {97 .. 102}" if "c \<in> set (concat (map hex_byte b))" for b c
    using that hex_digit_value(2) [OF nib(1)] hex_digit_value(2) [OF nib(2)] by (auto simp: hex_byte_def)
  moreover have "length (concat (map hex_byte b)) = 2 * length b" for b by (induction b) (simp_all add: hex_byte_def)
  ultimately show ?thesis by (simp add: hex_ok_def small_hex_def)
qed

section \<open>Quoted arguments\<close>









section \<open>Remote paths and forward specifications\<close>

lemma split_once_first: "c \<notin> set a \<Longrightarrow> split_once c (a @ c # b) = Some (a, b)"
  by (simp add: split_once_def takeWhile_append dropWhile_append)

text \<open>A target printed for the command line of SSH is read back as it was, when neither the user name nor a host without a user contains an at sign.\<close>

lemma target_back:
  assumes "case ri_user r of Some u \<Rightarrow> 0x40 \<notin> set u | None \<Rightarrow> 0x40 \<notin> set (ri_host r)"
  shows "parse_userhost (remote_target r) = (ri_user r, ri_host r)"
  using assms split_once_first [of "0x40" _ "ri_host r"] by (auto simp: parse_userhost_def remote_target_def split: option.splits) (simp_all add: split_once_def)

text \<open>A user given on the command line takes precedence over the configuration of SSH, and the path is everything after the first colon.\<close>

lemma parse_remote_explicit:
  assumes "0x40 \<notin> set u" and "0x3A \<notin> set u" and "0x3A \<notin> set h"
  shows "\<exists>r. parse_remote ssh_g ((u @ 0x40 # h) @ 0x3A # path) = (if u = [] \<and> h = [] then None else Some (r, path)) \<and>
    (ri_user r = Some u) \<and> (ssh_g h = None \<longrightarrow> ri_host r = h)"
proof -
  have at: "parse_userhost (u @ 0x40 # h) = (Some u, h)" using split_once_first [OF assms(1), of h] by (simp add: parse_userhost_def)
  have colon: "split_once 0x3A ((u @ 0x40 # h) @ 0x3A # path) = Some (u @ 0x40 # h, path)"
    using split_once_first [of "0x3A" "u @ 0x40 # h" path] assms(2,3) by simp
  obtain cu cp ch where cfg: "resolve_ssh_config (ssh_g h) = (cu, cp, ch)" by (metis prod_cases3)
  have "ch = None" if "ssh_g h = None" using cfg that by (simp add: resolve_ssh_config_def)
  then show ?thesis unfolding parse_remote_def colon using at cfg
    by (intro exI [of _ "\<lparr>ri_host = (case ch of Some n \<Rightarrow> n | None \<Rightarrow> h), ri_user = Some u, ri_ssh_port = cp\<rparr>"]) simp
qed

lemma forward_spec_back:
  assumes "h \<noteq> []"
  shows "parse_forward_spec (as_bytes (show_nat (unat lp)) @ 0x3A # h @ 0x3A # as_bytes (show_nat (unat rp))) = Inr (lp, h, rp)"
proof -
  have no_colon: "0x3A \<notin> set (as_bytes (show_nat n))" for n
  proof
    assume "0x3A \<in> set (as_bytes (show_nat n))"
    then obtain c where c: "c \<in> set (show_nat n)" "(of_char c :: u8) = 0x3A" by (auto simp: as_bytes_def)
    with digits_ok [of n] have r: "of_char c \<in> {48 .. (57 :: nat)}" by blast
    then have "unat (of_char c :: u8) = of_char c" unfolding of_nat_of_char [symmetric, where 'a = "8 word"] by (intro unat_of_nat_id) auto
    with c(2) r show False by simp
  qed
  have one: "split_once 0x3A (as_bytes (show_nat (unat lp)) @ 0x3A # h @ 0x3A # as_bytes (show_nat (unat rp))) =
      Some (as_bytes (show_nat (unat lp)), h @ 0x3A # as_bytes (show_nat (unat rp)))"
    by (rule split_once_first) (rule no_colon)
  have "split_once 0x3A (rev (as_bytes (show_nat (unat rp))) @ 0x3A # rev h) = Some (rev (as_bytes (show_nat (unat rp))), rev h)"
    by (rule split_once_first) (simp add: no_colon)
  then have two: "rsplit_once 0x3A (h @ 0x3A # as_bytes (show_nat (unat rp))) = Some (h, as_bytes (show_nat (unat rp)))" by (simp add: rsplit_once_def)
  show ?thesis using assms by (simp add: parse_forward_spec_def one two parse_u16_back)
qed

end
