(* ===== verification/Settings_Facts.thy ===== *)
theory Settings_Facts
  imports Settings Share_Facts
begin

text \<open>
  The configuration stays within the ranges the commands check, a change reaches one key only and survives in the file, and what \<^verbatim>\<open>config get\<close> prints for a key can
  be given back to \<^verbatim>\<open>config set\<close>.
\<close>

definition mode_ok :: "ustr \<Rightarrow> bool" where
  "mode_ok v \<longleftrightarrow> Option.bind (ascii_string (trim_ws v)) scheduler_parse \<noteq> None"

definition relay_ok :: "ustr \<Rightarrow> bool" where
  "relay_ok r \<longleftrightarrow> r \<noteq> [] \<and> trim_ws r = r \<and> 44 \<notin> set r"

definition config_valid :: "config \<Rightarrow> bool" where
  "config_valid c \<longleftrightarrow>
     cc c \<in> {ustr ''cubic'', ustr ''bbr''} \<and> cipher_name c \<in> {ustr ''chacha20poly1305'', ustr ''aes256gcm''} \<and>
     0 < max_connections c \<and> max_connections c < 2 ^ 64 \<and> fec_k c \<noteq> Some 1 \<and> fec_r c \<noteq> Some 0 \<and>
     (\<forall>r \<in> set (relays c). relay_ok r) \<and> unat (timing_jitter_ms c) \<le> 5000 \<and>
     mode_ok (multipath_mode c) \<and> ratchet_epoch_packets c \<noteq> 0 \<and> ratchet_epoch_seconds c \<noteq> 0"

lemma of_nat_eq_0: "n < 2 ^ LENGTH('a) \<Longrightarrow> (of_nat n :: 'a::len word) = 0 \<longleftrightarrow> n = 0"
  using unat_of_nat_id [of n, where 'a = 'a] unat_eq_zero [of "of_nat n :: 'a word"] by simp

lemma of_nat_eq_1: "n < 256 \<Longrightarrow> (of_nat n :: u8) = 1 \<longleftrightarrow> n = 1"
  using unat_of_nat_id [of n, where 'a = 8] by (auto simp: word_unat_eq_iff)

lemma trim_ws_idem: "trim_ws (trim_ws s) = trim_ws s"
proof (cases "trim_ws s = []")
  case True
  show ?thesis unfolding True by (simp add: trim_ws_def)
next
  case False
  then show ?thesis using trim_ends [of s] trim_id by blast
qed

lemma ascii_string_ustr: "ascii s \<Longrightarrow> ascii_string (ustr s) = Some s"
  by (auto simp: ascii_string_def ustr_def ascii_def o_def)

lemma default_valid: "config_valid config_default"
proof -
  have "trim_ws (ustr ''round-robin'') = ustr ''round-robin''" by (simp add: ustr_def trim_ws_def is_whitespace_def)
  then have "mode_ok (ustr ''round-robin'')" using ascii_string_ustr [of "''round-robin''"]
    by (simp add: mode_ok_def scheduler_parse_def Multipath.trim_def is_space_def to_lower_def)
  then show ?thesis by (simp add: config_valid_def config_default_def)
qed

lemma set_value_valid:
  assumes "config_valid c" and "set_value k v c = Inr c'"
  shows "config_valid c'"
proof -
  note bounds = parse_num_less [of "2 ^ 64" v, simplified] parse_num_less [of "2 ^ 8" v, simplified]
  have relay: "relay_ok r" if r: "r \<in> set (filter (\<lambda>s. s \<noteq> []) (map trim_ws (split_on 44 v)))" for r
  proof -
    obtain p where p: "p \<in> set (split_on 44 v)" "r = trim_ws p" "r \<noteq> []" using r by auto
    then have "set r \<subseteq> set p" using trim_ends(3) [of p] by simp
    then show ?thesis using p(2,3) split_on_parts [OF p(1)] trim_ws_idem [of p] by (auto simp: relay_ok_def)
  qed
  have small: "unat (of_nat ms :: u32) = ms" if "\<not> 5000 < ms" for ms by (rule unat_of_nat_id) (use that in simp)
  have nz: "n < 18446744073709551616 \<Longrightarrow> (of_nat n :: u64) = 0 \<longleftrightarrow> n = 0" "n < 256 \<Longrightarrow> (of_nat n :: u8) = 0 \<longleftrightarrow> n = 0" for n
    using of_nat_eq_0 [of n, where 'a = 64] of_nat_eq_0 [of n, where 'a = 8] by simp_all
  show ?thesis using assms
    by (cases k; clarsimp simp: config_valid_def mode_ok_def relay small nz bounds of_nat_eq_1 split: option.split_asm if_split_asm)
qed

lemma set_value_other:
  assumes "set_value k v c = Inr c'" and "k \<noteq> k'"
  shows "get_value dir c' k' = get_value dir c k'"
  using assms by (cases k; clarsimp split: option.split_asm if_split_asm; cases k'; simp add: identity_path_def)

lemma num_back: "n < limit \<Longrightarrow> parse_num limit (show_num n) = Some n"
  by (simp add: show_num_def parse_num_back)

lemma parse_bool_back [simp]: "parse_bool (show_bool b) = Some b"
  by (simp add: parse_bool_def show_bool_def ustr_def)

lemma show_num_not: "show_num n \<noteq> ustr ''auto''" "show_num n = ustr ''0'' \<longleftrightarrow> n = 0"
proof -
  show "show_num n \<noteq> ustr ''auto''"
  proof
    assume "show_num n = ustr ''auto''"
    then have "97 \<in> set (show_num n)" by (simp add: ustr_def)
    then show False using digits_ok [of n] by (force simp: show_num_def ustr_def)
  qed
  have "parse_num (Suc n) (show_num n) = Some n" "parse_num (Suc n) (show_num 0) = Some 0" by (simp_all add: num_back)
  moreover have "show_num 0 = ustr ''0''" by (simp add: show_num_def show_nat.simps ustr_def)
  ultimately show "show_num n = ustr ''0'' \<longleftrightarrow> n = 0" by auto
qed

lemma num_word_back:
  "parse_num (2 ^ 16) (show_num (unat (p :: u16))) = Some (unat p)" "parse_num (2 ^ 32) (show_num (unat (w :: u32))) = Some (unat w)"
  "parse_num (2 ^ 64) (show_num (unat (q :: u64))) = Some (unat q)" "parse_num (2 ^ 8) (show_num (unat (b :: u8))) = Some (unat b)"
  using unsigned_less [of p, where 'a = nat] unsigned_less [of w, where 'a = nat] unsigned_less [of q, where 'a = nat] unsigned_less [of b, where 'a = nat]
  by (simp_all add: num_back)

text \<open>What \<^verbatim>\<open>config get\<close> prints for a key of a valid configuration, except the identity path and the list of relays, is one line, and \<^verbatim>\<open>config set\<close> accepts it as
  the value of that key and changes nothing.\<close>

theorem config_get_set:
  assumes "config_valid c" and "k \<noteq> KIdentity" and "k \<noteq> KRelays"
  shows "\<exists>v. get_value dir c k = [v] \<and> set_value k v c = Inr c"
proof (cases k)
  case KFecK
  show ?thesis
  proof (cases "fec_k c")
    case (Some b)
    then have "unat b \<noteq> 1" using assms(1) by (auto simp: config_valid_def word_unat_eq_iff)
    moreover have "c\<lparr>fec_k := Some b\<rparr> = c" using Some by simp
    ultimately show ?thesis using KFecK Some num_word_back(4) [of b] show_num_not [of "unat b"] by (auto simp: unat_eq_zero)
  qed (simp add: KFecK ustr_def)
next
  case KFecR
  show ?thesis
  proof (cases "fec_r c")
    case (Some b)
    then have "unat b \<noteq> 0" using assms(1) by (auto simp: config_valid_def unat_eq_zero)
    moreover have "c\<lparr>fec_r := Some b\<rparr> = c" using Some by simp
    ultimately show ?thesis using KFecR Some num_word_back(4) [of b] show_num_not(1) [of "unat b"] by auto
  qed (simp add: KFecR ustr_def)
next
  case KTrafficPadding
  have "show_bool b \<noteq> ustr ''auto''" for b by (simp add: show_bool_def ustr_def)
  then show ?thesis using KTrafficPadding by (cases "traffic_padding c") auto
next
  case KMaxConnections
  then show ?thesis using assms(1) num_back [of "max_connections c" "2 ^ 64"] by (simp add: config_valid_def)
next
  case KMultipathAddrs
  then show ?thesis by simp
next
  case KMultipathMode
  then show ?thesis using assms by (simp add: config_valid_def mode_ok_def)
qed ((insert assms, auto simp: num_word_back [simplified] config_valid_def unat_eq_zero)[1])+

theorem config_get_set_witness:
  "\<exists>v. get_value None config_default KFecK = [v] \<and> set_value KFecK v config_default = Inr config_default"
  by (rule config_get_set [OF default_valid]) simp_all

text \<open>The meaning of the values, stated by itself: what \<^verbatim>\<open>config get\<close> has to print for a key after it was given a value, \<open>None\<close> for a value that the key does not take. A name or a
  path is printed as it was given, a number in decimal digits, a list of relays as its entries.\<close>

definition number_shown :: "nat \<Rightarrow> nat \<Rightarrow> ustr \<Rightarrow> ustr list option" where
  "number_shown least limit v =
     (case parse_num limit v of None \<Rightarrow> None | Some n \<Rightarrow> if n < least then None else Some [show_num n])"

definition one_of :: "string list \<Rightarrow> ustr \<Rightarrow> ustr list option" where
  "one_of names v = (if v \<in> ustr ` set names then Some [v] else None)"

fun value_shown :: "config_key \<Rightarrow> ustr \<Rightarrow> ustr list option" where
  "value_shown KCc v = one_of [''cubic'', ''bbr''] v"
| "value_shown KCompress v = one_of [''true'', ''false''] v"
| "value_shown KIdentity v = Some [v]"
| "value_shown KCipher v = one_of [''chacha20poly1305'', ''aes256gcm''] v"
| "value_shown KMaxConnections v = number_shown 1 (2 ^ 64) v"
| "value_shown KListenPort v = number_shown 0 (2 ^ 16) v"
| "value_shown KFecK v =
     (if v = ustr ''auto'' then Some [v] else if parse_num (2 ^ 8) v = Some 1 then None else number_shown 0 (2 ^ 8) v)"
| "value_shown KFecR v = (if v = ustr ''auto'' then Some [v] else number_shown 1 (2 ^ 8) v)"
| "value_shown KFipsMode v = one_of [''true'', ''false''] v"
| "value_shown KRelays v = Some (filter (\<lambda>s. s \<noteq> []) (map trim_ws (split_on 44 v)))"
| "value_shown KTrafficPadding v = one_of [''true'', ''false'', ''auto''] v"
| "value_shown KCoverTrafficKbps v = number_shown 0 (2 ^ 32) v"
| "value_shown KTimingJitterMs v = (if number_shown 5001 (2 ^ 32) v \<noteq> None then None else number_shown 0 (2 ^ 32) v)"
| "value_shown KObfuscate v = one_of [''true'', ''false''] v"
| "value_shown KMultipathAddrs v = Some [v]"
| "value_shown KMultipathMode v = (if mode_ok v then Some [v] else None)"
| "value_shown KRatchetEpochPackets v = number_shown 1 (2 ^ 64) v"
| "value_shown KRatchetEpochSeconds v = number_shown 1 (2 ^ 64) v"

lemma of_parsed:
  "parse_num (2 ^ LENGTH('a)) v = Some n \<Longrightarrow> unat (of_nat n :: 'a::len word) = n"
  using parse_num_less [of "2 ^ LENGTH('a)" v n] by (simp add: unat_of_nat_id)

lemma split_on_subset: "p \<in> set (split_on x v) \<Longrightarrow> c \<in> set p \<Longrightarrow> c \<in> set v"
proof (induction v arbitrary: p)
  case (Cons y v)
  show ?case
  proof (cases "split_on x v")
    case parts: (Cons q qs)
    have "c \<in> set v" if "c \<in> set q" using Cons.IH [of q] parts that by simp
    then show ?thesis using parts Cons.IH Cons.prems by (auto split: if_splits)
  qed (use Cons.prems in \<open>auto split: if_splits\<close>)
qed simp

lemma blank_parts: "trim_ws v = [] \<Longrightarrow> p \<in> set (split_on 44 v) \<Longrightarrow> trim_ws p = []"
proof -
  assume blank: "trim_ws v = []" and p: "p \<in> set (split_on 44 v)"
  have white: "\<forall>c \<in> set v. is_whitespace c" using blank trim_empty [of v] by blast
  have "set p \<subseteq> set v" using split_on_subset [OF p] by blast
  then show "trim_ws p = []" using white trim_empty [of p] by blast
qed

lemma zero_shown: "ustr ''0'' = show_num 0"
  by (simp add: show_num_def show_nat.simps ustr_def)

lemma set_value_shown:
  assumes "set_value k v c = Inr c'"
  shows "value_shown k v = Some (get_value dir c' k)"
proof -
  have auto: "parse_bool (ustr ''auto'') = None" "ustr ''auto'' \<noteq> show_num 0" using show_num_not(1) [of 0] by (simp_all add: parse_bool_def ustr_def)
  have bool: "v = show_bool b" if "parse_bool v = Some b" for b using that by (auto simp: parse_bool_def show_bool_def split: if_splits)
  have relays: "filter (\<lambda>s. s \<noteq> []) (map trim_ws (split_on 44 v)) = []" if "trim_ws v = []" using blank_parts [OF that] by (auto simp: filter_empty_conv)
  have zero: "parse_num (2 ^ 8) (show_num 0) = Some 0" by (simp add: num_back)
  note words = of_parsed [where 'a = 8, simplified] of_parsed [where 'a = 16, simplified] of_parsed [where 'a = 32, simplified] of_parsed [where 'a = 64, simplified]
  show ?thesis using assms zero
    by (cases k; clarsimp simp: one_of_def number_shown_def zero_shown words auto relays identity_path_def mode_ok_def split: option.split_asm if_split_asm;
        (auto dest!: bool simp: show_bool_def)?)
qed

text \<open>C38: A change that the tool reports as done is in the file, and a change that fails, in whatever step, leaves the configuration file as it was. Starting from a file that gives a valid configuration (\<open>config_valid\<close>, as every configuration the
  tool wrote is): after a change that succeeded, the value is one the key takes, and whenever reading works \<^verbatim>\<open>config get\<close> prints it for that key (a name or path as it was given, a number in
  decimal digits, a list as its entries) and prints for every other key what it printed before; the configuration is valid again. The TOML library is assumed to read back what it wrote.\<close>

theorem config_set_persists:
  assumes "\<forall>c t. to_toml L c = Some t \<longrightarrow> utf8_valid t \<and> of_toml L t = Some c"
    and "load_config L io fs = Inr c" and "config_valid c" and "config_set L io key v fs = (r, fs')" and "read_err io' = None"
  shows "case r of
      Inl e \<Rightarrow> config_file fs' = config_file fs
    | Inr _ \<Rightarrow> \<exists>k vs c'. key_of key = Some k \<and> value_shown k v = Some vs \<and> config_get L io' dir key fs' = Inr vs \<and>
        (\<forall>key'. key_of key' \<noteq> Some k \<longrightarrow> config_get L io' dir key' fs' = config_get L io dir key' fs) \<and>
        load_config L io' fs' = Inr c' \<and> config_valid c'"
proof (cases r)
  case (Inl e)
  then show ?thesis using assms(2,4) by (auto simp: config_set_def save_config_def split: option.splits sum.splits)
next
  case (Inr u)
  have "key_of key \<noteq> None" using assms(2,4) Inr by (auto simp: config_set_def split: option.splits)
  then obtain k where k: "key_of key = Some k" by blast
  then obtain c' where c': "set_value k v c = Inr c'" "save_config L io c' fs = (Inr u, fs')"
    using assms(2,4) Inr by (auto simp: config_set_def split: sum.splits)
  then obtain t where t: "to_toml L c' = Some t" "config_file fs' = Some t" by (auto simp: save_config_def split: option.splits)
  have load: "load_config L io' fs' = Inr c'" using assms(1,5) t by (simp add: load_config_def)
  have "config_get L io' dir key' fs' = config_get L io dir key' fs" if "key_of key' \<noteq> Some k" for key'
    using that load assms(2) set_value_other [OF c'(1), of _ dir] by (auto simp: config_get_def split: option.splits)
  moreover have "config_get L io' dir key fs' = Inr (get_value dir c' k)" using load k by (simp add: config_get_def)
  ultimately show ?thesis using Inr k load set_value_valid [OF assms(3) c'(1)] set_value_shown [OF c'(1), of dir] by simp
qed

definition fixed_port :: config where
  "fixed_port = config_default\<lparr>listen_port := 7474\<rparr>"

definition tiny_toml :: toml_lib where
  "tiny_toml = \<lparr>to_toml = (\<lambda>c. if c = config_default then Some [48] else if c = fixed_port then Some [49] else None),
     of_toml = (\<lambda>t. if t = [48] then Some config_default else if t = [49] then Some fixed_port else None)\<rparr>"

definition quiet_io :: config_io where
  "quiet_io = \<lparr>read_err = None, mkdir_err = None, write_err = None, rename_err = None\<rparr>"

theorem config_set_persists_witness:
  "config_get tiny_toml quiet_io None (ustr ''listen_port'')
     (snd (config_set tiny_toml quiet_io (ustr ''listen_port'') (ustr ''7474'') \<lparr>config_file = None, config_tmp = None\<rparr>)) = Inr [ustr ''7474'']"
proof -
  let ?fs = "\<lparr>config_file = None, config_tmp = None\<rparr>"
  have laws: "\<forall>c t. to_toml tiny_toml c = Some t \<longrightarrow> utf8_valid t \<and> of_toml tiny_toml t = Some c" by (auto simp: tiny_toml_def split: if_splits)
  have load: "load_config tiny_toml quiet_io ?fs = Inr config_default" by (simp add: load_config_def)
  have key: "key_of (ustr ''listen_port'') = Some KListenPort" by (simp add: key_of_def key_table_def ustr_def)
  have "show_num 7474 = ustr ''7474''" by (simp add: show_num_def show_nat.simps ustr_def)
  then have port: "set_value KListenPort (ustr ''7474'') config_default = Inr fixed_port"
    using num_back [of 7474 "2 ^ 16"] by (simp add: fixed_port_def)
  have quiet: "read_err quiet_io = None" "mkdir_err quiet_io = None" "write_err quiet_io = None" "rename_err quiet_io = None" by (simp_all add: quiet_io_def)
  obtain r fs' where run: "config_set tiny_toml quiet_io (ustr ''listen_port'') (ustr ''7474'') ?fs = (r, fs')" by fastforce
  moreover have "fixed_port \<noteq> config_default" by (simp add: fixed_port_def config_default_def)
  then have "to_toml tiny_toml fixed_port = Some [49]" by (simp add: tiny_toml_def)
  ultimately have "r = Inr ()" by (simp add: config_set_def load key port save_config_def quiet del: set_value.simps)
  moreover have "value_shown KListenPort (ustr ''7474'') = Some [ustr ''7474'']"
    using num_back [of 7474 "2 ^ 16"] \<open>show_num 7474 = _\<close> by (simp add: number_shown_def)
  ultimately show ?thesis using run config_set_persists [OF laws load default_valid run quiet(1), of None] key by auto
qed

end
