(* ===== verification/Audit_Log.thy ===== *)
theory Audit_Log
  imports File_Store "HOL-Library.Char_ord" "HOL-Library.List_Lexorder"
begin

text \<open>
  \<^verbatim>\<open>bin/seam/audit.rs\<close>: the audit log, a text file with a JSON object per line, each with a hash chained to the line before, and the
  time stamps it carries. The calendar computation is compared with counting days. The JSON library is a parameter.
\<close>

section \<open>Time stamps\<close>

text \<open>The values stay far below \<open>2 ^ 64\<close> for the days of a 64-bit number of seconds, and no difference is negative.\<close>

definition days_to_ymd :: "nat \<Rightarrow> nat \<times> nat \<times> nat" where
  "days_to_ymd days =
     (let z = days + 719468;
          era = z div 146097;
          doe = z - era * 146097;
          yoe = (doe - doe div 1460 + doe div 36524 - doe div 146096) div 365;
          y = yoe + era * 400;
          doy = doe - (365 * yoe + yoe div 4 - yoe div 100);
          mp = (5 * doy + 2) div 153;
          d = doy - (153 * mp + 2) div 5 + 1;
          m = (if mp < 10 then mp + 3 else mp - 9);
          y' = (if m \<le> 2 then y + 1 else y)
      in (y', m, d))"

definition pad_left :: "nat \<Rightarrow> string \<Rightarrow> string" where
  "pad_left n s = replicate (n - length s) CHR ''0'' @ s"

definition now_rfc3339 :: "u64 \<Rightarrow> string" where
  "now_rfc3339 secs_since_epoch =
     (let s = unat secs_since_epoch;
          sec = s mod 60; mins = (s div 60) mod 60; hour = (s div 3600) mod 24; days = s div 86400
      in case days_to_ymd days of (year, month, day) \<Rightarrow>
        pad_left 4 (show_nat year) @ ''-'' @ pad_left 2 (show_nat month) @ ''-'' @ pad_left 2 (show_nat day) @ ''T'' @
        pad_left 2 (show_nat hour) @ '':'' @ pad_left 2 (show_nat mins) @ '':'' @ pad_left 2 (show_nat sec) @ ''Z'')"

text \<open>The Gregorian calendar, one day after the other.\<close>

definition leap :: "nat \<Rightarrow> bool" where
  "leap y \<longleftrightarrow> y mod 4 = 0 \<and> (y mod 100 \<noteq> 0 \<or> y mod 400 = 0)"

definition month_days :: "nat \<Rightarrow> nat \<Rightarrow> nat" where
  "month_days y m = (if m = 2 then if leap y then 29 else 28 else if m \<in> {4, 6, 9, 11} then 30 else 31)"

definition next_day :: "nat \<times> nat \<times> nat \<Rightarrow> nat \<times> nat \<times> nat" where
  "next_day date =
     (case date of (y, m, d) \<Rightarrow>
        if d < month_days y m then (y, m, d + 1)
        else if m < 12 then (y, m + 1, 1)
        else (y + 1, 1, 1))"

text \<open>A day in an era of 400 years from March on: the century \<open>c\<close>, the group of four years \<open>q\<close>, the year \<open>r\<close> of it, and the day \<open>k\<close> of that year.\<close>

definition era_day :: "nat \<Rightarrow> nat \<Rightarrow> nat \<Rightarrow> nat \<Rightarrow> nat" where
  "era_day c q r k = 36524 * c + 1461 * q + 365 * r + k"

definition era_ok :: "nat \<Rightarrow> nat \<Rightarrow> nat \<Rightarrow> nat \<Rightarrow> bool" where
  "era_ok c q r k \<longleftrightarrow> c \<le> 3 \<and> q \<le> 24 \<and> r \<le> 3 \<and> k \<le> 365 \<and> (k = 365 \<longrightarrow> r = 3 \<and> (q < 24 \<or> c = 3))"

lemma era_year:
  assumes "era_ok c q r k" and "doe = era_day c q r k"
  shows "(doe - doe div 1460 + doe div 36524 - doe div 146096) div 365 = 100 * c + 4 * q + r"
proof -
  have bnd: "c \<le> 3" "q \<le> 24" "r \<le> 3" "k \<le> 365" and last_day: "k = 365 \<Longrightarrow> r = 3 \<and> (q < 24 \<or> c = 3)"
    using assms(1) by (simp_all add: era_ok_def)
  have doe: "doe = 36524 * c + 1461 * q + 365 * r + k" using assms(2) by (simp add: era_day_def)
  define e where "e = (24 * c + q + 365 * r + k) div 1460"
  have "doe = 1460 * (25 * c + q) + (24 * c + q + 365 * r + k)" using assms(2) by (simp add: era_day_def)
  then have a: "doe div 1460 = 25 * c + q + e" by (simp add: e_def)
  define g where "g = doe div 146096"
  have "doe \<le> 146096" using bnd doe by linarith
  then have g0: "g = 0" if "doe \<noteq> 146096" unfolding g_def using that by (intro div_less) linarith
  have b: "doe div 36524 = c + g"
  proof (cases "doe = 146096")
    case True
    then have "c = 3" using bnd doe by linarith
    with True show ?thesis by (simp add: g_def)
  next
    case False
    then have "1461 * q + 365 * r + k < 36524" using bnd doe last_day by (cases "k = 365"; cases "q < 24"; linarith)
    moreover have "doe = 36524 * c + (1461 * q + 365 * r + k)" using assms(2) by (simp add: era_day_def)
    ultimately show ?thesis using False g0 by simp
  qed
  have e: "e \<le> k" "k - e < 365"
  proof -
    have "24 * c + q + 365 * r + k < 1460 * 2" using bnd by linarith
    then have "e \<le> 1" unfolding e_def by simp
    moreover have "e = 0" if "k = 0" unfolding e_def using bnd that by (intro div_less) linarith
    moreover have "e \<ge> 1" if "k = 365" unfolding e_def using last_day [OF that] that by (simp add: div_greater_zero_iff Suc_le_eq)
    ultimately show "e \<le> k" "k - e < 365" using bnd(4) by linarith+
  qed
  have "doe - doe div 1460 + doe div 36524 - g = 365 * (100 * c + 4 * q + r) + (k - e)"
    unfolding a b using e(1) assms(2) by (simp add: era_day_def)
  then show ?thesis using e(2) by (simp add: g_def)
qed

text \<open>The date of the day \<open>k\<close> of the year \<open>Y\<close> that begins in March.\<close>

definition civil :: "nat \<Rightarrow> nat \<Rightarrow> nat \<times> nat \<times> nat" where
  "civil Y k =
     (let mp = (5 * k + 2) div 153; m = (if mp < 10 then mp + 3 else mp - 9)
      in (if m \<le> 2 then Y + 1 else Y, m, k - (153 * mp + 2) div 5 + 1))"

lemma less_div_5: "(k :: nat) < x div 5 \<longleftrightarrow> 5 * k + 5 \<le> x"
  by presburger

lemma month_index:
  fixes mp k :: nat
  shows "(153 * mp + 2) div 5 \<le> k \<Longrightarrow> k < (153 * (mp + 1) + 2) div 5 \<Longrightarrow> (5 * k + 2) div 153 = mp"
  unfolding less_div_5 by (intro div_nat_eqI; simp; linarith)

lemma civil_month:
  assumes "(153 * mp + 2) div 5 \<le> k" and "k < (153 * (mp + 1) + 2) div 5" and "mp \<le> 11"
  shows "civil Y k = (if mp < 10 then Y else Y + 1, if mp < 10 then mp + 3 else mp - 9, k - (153 * mp + 2) div 5 + 1)"
  using month_index [OF assms(1,2)] assms(3) unfolding civil_def by (auto simp: Let_def)

text \<open>One day on: within a month, to the next month, and to the next March.\<close>

lemma civil_next:
  assumes "k < 364 \<or> k = 364 \<and> leap (Y + 1)"
  shows "next_day (civil Y k) = civil Y (k + 1)"
proof -
  define mp where "mp = (5 * k + 2) div 153"
  obtain i where "153 * mp + i = 5 * k + 2" "i < 153" unfolding mp_def by (metis mult_div_mod_eq mod_less_divisor zero_less_numeral)
  note i = this
  have lo: "(153 * mp + 2) div 5 \<le> k" using i by linarith
  have hi: "k < (153 * (mp + 1) + 2) div 5" unfolding less_div_5 using i by (simp; linarith)
  have m12: "mp \<le> 11" unfolding mp_def using assms by linarith
  note here = civil_month [OF lo hi m12, of Y]
  from m12 have mp: "mp = 0 \<or> mp = 1 \<or> mp = 2 \<or> mp = 3 \<or> mp = 4 \<or> mp = 5 \<or> mp = 6 \<or> mp = 7 \<or> mp = 8 \<or> mp = 9 \<or> mp = 10 \<or> mp = 11"
    by (simp add: eval_nat_numeral le_Suc_eq)
  show ?thesis
  proof (cases "k + 1 < (153 * (mp + 1) + 2) div 5")
    case True
    have next_here: "civil Y (k + 1) = (if mp < 10 then Y else Y + 1, if mp < 10 then mp + 3 else mp - 9, k + 1 - (153 * mp + 2) div 5 + 1)"
      by (rule civil_month) (use lo True m12 in linarith)+
    show ?thesis using mp lo True assms unfolding here next_here
      by (elim disjE) (auto simp: next_day_def month_days_def)
  next
    case False
    then have k: "k + 1 = (153 * (mp + 1) + 2) div 5" using hi by linarith
    have "(153 * (mp + 1) + 2) div 5 < (153 * (mp + 1 + 1) + 2) div 5"
      unfolding less_div_5 using times_div_less_eq_dividend [of 5 "153 * (mp + 1) + 2"] by (simp only: distrib_left; linarith)
    moreover have "mp + 1 \<le> 11"
    proof (rule ccontr)
      assume "\<not> mp + 1 \<le> 11"
      then have "mp = 11" using m12 by simp
      with k assms show False by simp
    qed
    ultimately have next_there: "civil Y (k + 1) = (if mp + 1 < 10 then Y else Y + 1, if mp + 1 < 10 then mp + 1 + 3 else mp + 1 - 9, k + 1 - (153 * (mp + 1) + 2) div 5 + 1)"
      using civil_month [of "mp + 1" "k + 1" Y] k by simp
    show ?thesis using mp k assms unfolding here next_there
      by (elim disjE) (auto simp: next_day_def month_days_def)
  qed
qed

lemma civil_new_year:
  assumes "k = (if leap (Y + 1) then 365 else 364)"
  shows "next_day (civil Y k) = civil (Y + 1) 0"
  using assms by (simp add: civil_def next_day_def month_days_def)

text \<open>Every day has its place in an era, and counting days from the beginning of 1970 leads to the date of that place.\<close>

lemma leap_march:
  assumes "c \<le> 3" and "q \<le> 24" and "r \<le> 3"
  shows "leap (400 * era + 100 * c + 4 * q + r + 1) \<longleftrightarrow> r = 3 \<and> (q < 24 \<or> c = 3)"
proof -
  have a: "(400 * era + 100 * c + 4 * q + r + 1) mod 4 = (r + 1) mod 4"
    and b: "(400 * era + 100 * c + 4 * q + r + 1) mod 100 = (4 * q + r + 1) mod 100"
    and d: "(400 * era + 100 * c + 4 * q + r + 1) mod 400 = (100 * c + 4 * q + r + 1) mod 400"
    using mod_mult_self1 [of "r + 1" "100 * era + 25 * c + q" 4] mod_mult_self1 [of "4 * q + r + 1" "4 * era + c" 100]
      mod_mult_self1 [of "100 * c + 4 * q + r + 1" era 400] by (simp_all add: algebra_simps)
  have r: "(r + 1) mod 4 = 0 \<longleftrightarrow> r = 3" using assms(3) by presburger
  show ?thesis
  proof (cases "r = 3")
    case True
    have "(4 * q + r + 1) mod 100 = 0 \<longleftrightarrow> q = 24" unfolding True using assms(2) by presburger
    moreover have "(100 * c + 4 * q + r + 1) mod 400 = 0 \<longleftrightarrow> c = 3" if "q = 24" unfolding True that using assms(1) by presburger
    ultimately show ?thesis unfolding leap_def a b d r using True assms(2) by (cases "q = 24") simp_all
  qed (simp add: leap_def a r del: One_nat_def)
qed

lemma counting_places:
  "\<exists>era c q r k. era_ok c q r k \<and> n + 719468 = 146097 * era + era_day c q r k \<and>
     (next_day ^^ n) (1970, 1, 1) = civil (400 * era + 100 * c + 4 * q + r) k"
proof (induction n)
  case 0
  show ?case
    by (rule exI [of _ 4], rule exI [of _ 3], rule exI [of _ 17], rule exI [of _ 1], rule exI [of _ 306])
      (simp add: era_ok_def era_day_def civil_def)
next
  case (Suc n)
  then obtain era c q r k where ok: "era_ok c q r k" and n: "n + 719468 = 146097 * era + era_day c q r k"
    and date: "(next_day ^^ n) (1970, 1, 1) = civil (400 * era + 100 * c + 4 * q + r) k" by blast
  let ?Y = "400 * era + 100 * c + 4 * q + r"
  have bnd: "c \<le> 3" "q \<le> 24" "r \<le> 3" "k \<le> 365" "k = 365 \<Longrightarrow> leap (?Y + 1)" and leap: "leap (?Y + 1) \<longleftrightarrow> r = 3 \<and> (q < 24 \<or> c = 3)"
    using ok leap_march [of c q r era] by (simp_all add: era_ok_def)
  show ?case
  proof (cases "k < 364 \<or> k = 364 \<and> leap (?Y + 1)")
    case True
    then have "era_ok c q r (k + 1)" using bnd leap by (auto simp: era_ok_def)
    moreover have "Suc n + 719468 = 146097 * era + era_day c q r (k + 1)" using n by (simp add: era_day_def)
    moreover have "(next_day ^^ Suc n) (1970, 1, 1) = civil ?Y (k + 1)" using date civil_next [OF True] by simp
    ultimately show ?thesis by blast
  next
    case False
    then have "k = 364 \<or> k = 365" using bnd(4) by linarith
    then have k: "k = (if leap (?Y + 1) then 365 else 364)" using False bnd(5) by auto
    then have date': "(next_day ^^ Suc n) (1970, 1, 1) = civil (?Y + 1) 0" using date civil_new_year [OF k] by simp
    consider "r < 3" | "r = 3" "q < 24" | "r = 3" "q = 24" "c < 3" | "r = 3" "q = 24" "c = 3" using bnd by linarith
    then obtain era' c' q' r' where "era_ok c' q' r' 0" "Suc n + 719468 = 146097 * era' + era_day c' q' r' 0"
      "400 * era' + 100 * c' + 4 * q' + r' = ?Y + 1"
    proof cases
      case 1
      then show thesis using that [of c q "r + 1" era] n k bnd leap by (simp add: era_ok_def era_day_def)
    next
      case 2
      then show thesis using that [of c "q + 1" 0 era] n k bnd leap by (simp add: era_ok_def era_day_def)
    next
      case 3
      then show thesis using that [of "c + 1" 0 0 era] n k bnd leap by (simp add: era_ok_def era_day_def)
    next
      case 4
      then show thesis using that [of 0 0 0 "era + 1"] n k bnd leap by (simp add: era_ok_def era_day_def)
    qed
    with date' show ?thesis by metis
  qed
qed

text \<open>The date in a time stamp is the calendar's. For every number of days, the closed formula gives the date that is reached from 1 January 1970 by
  going on that many days in the Gregorian calendar, one after the other.\<close>

theorem days_to_ymd_is_calendar: "days_to_ymd n = (next_day ^^ n) (1970, 1, 1)"
proof -
  obtain era c q r k where ok: "era_ok c q r k" and n: "n + 719468 = 146097 * era + era_day c q r k"
    and date: "(next_day ^^ n) (1970, 1, 1) = civil (400 * era + 100 * c + 4 * q + r) k" using counting_places by blast
  let ?doe = "era_day c q r k" and ?y = "100 * c + 4 * q + r"
  have bnd: "c \<le> 3" "q \<le> 24" "r \<le> 3" "k \<le> 365" using ok by (simp_all add: era_ok_def)
  then have "?doe < 146097" unfolding era_day_def by linarith
  then have era: "(n + 719468) div 146097 = era" "n + 719468 - era * 146097 = ?doe" unfolding n by simp_all
  have "?y div 4 = 25 * c + q" "?y div 100 = c" by (intro div_nat_eqI; use bnd in simp; fail)+
  then have doy: "?doe - (365 * ?y + ?y div 4 - ?y div 100) = k" by (simp add: era_day_def)
  show ?thesis unfolding date days_to_ymd_def Let_def era era_year [OF ok refl] doy civil_def
    by (simp only: add.commute mult.commute add.assoc add.left_commute)
qed

section \<open>The chained log\<close>

record audit_entry =
  ae_ts :: string
  ae_subcommand :: string
  ae_remote :: string
  ae_args :: "string list"
  ae_exit_code :: "int option"
  ae_bytes_tx :: "u64 option"
  ae_fips_mode :: bool
  ae_pid :: u32

text \<open>The fields in the order of the struct; the optional ones are left out when absent.\<close>

definition entry_fields :: "audit_entry \<Rightarrow> (string \<times> json) list" where
  "entry_fields e =
     [(''ts'', JStr (ae_ts e)), (''subcommand'', JStr (ae_subcommand e)), (''remote'', JStr (ae_remote e)), (''args'', JArr (map JStr (ae_args e)))] @
     (case ae_exit_code e of Some c \<Rightarrow> [(''exit_code'', JNum c)] | None \<Rightarrow> []) @
     (case ae_bytes_tx e of Some b \<Rightarrow> [(''bytes_tx'', JNum (uint b))] | None \<Rightarrow> []) @
     [(''fips_mode'', JBool (ae_fips_mode e)), (''pid'', JNum (uint (ae_pid e)))]"

definition read_last_line :: "bytes \<Rightarrow> bytes option" where
  "read_last_line text =
     (if text = [] then None
      else let rest = drop (length text - 2048) text
           in if \<not> utf8_valid rest then None
              else let trimmed = rev (dropWhile (\<lambda>b. b = NEWLINE) (rev rest))
                   in Some (rev (takeWhile (\<lambda>b. b \<noteq> NEWLINE) (rev trimmed))))"

definition object_field :: "string \<Rightarrow> json \<Rightarrow> json option" where
  "object_field k v = (case v of JObj fs \<Rightarrow> map_of fs k | _ \<Rightarrow> None)"

definition hash_field :: "json \<Rightarrow> string option" where
  "hash_field v = (case object_field ''hash'' v of Some (JStr h) \<Rightarrow> Some h | _ \<Rightarrow> None)"

definition unhex_32 :: "text_lib \<Rightarrow> string \<Rightarrow> bytes option" where
  "unhex_32 T h = (case t_unhex T h of Some b \<Rightarrow> if length b = 32 then Some b else None | None \<Rightarrow> None)"

definition prev_hash :: "text_lib \<Rightarrow> bytes \<Rightarrow> bytes" where
  "prev_hash T text =
     (case read_last_line text of
        None \<Rightarrow> replicate 32 0
      | Some line \<Rightarrow>
          (case t_parse T line of
             None \<Rightarrow> replicate 32 0
           | Some v \<Rightarrow>
               (case hash_field v of
                  None \<Rightarrow> replicate 32 0
                | Some h \<Rightarrow> (case unhex_32 T h of Some b \<Rightarrow> b | None \<Rightarrow> replicate 32 0))))"

definition with_hash :: "bytes \<Rightarrow> string \<Rightarrow> bytes" where
  "with_hash line h =
     (if line \<noteq> [] \<and> last line = 0x7D then butlast line @ as_bytes ('',\"hash\":\"'') @ as_bytes h @ as_bytes (''\"}'') else line)"

text \<open>The log after the call, or the error that \<^verbatim>\<open>log\<close> prints and forgets.\<close>

definition append_entry :: "text_lib \<Rightarrow> host \<Rightarrow> fpath \<Rightarrow> audit_entry \<Rightarrow> bytes \<Rightarrow> string + bytes" where
  "append_entry T H path e text =
     (case (case parent path of Some d \<Rightarrow> h_fs_err H (CreateDirAll d) | None \<Rightarrow> None) of
        Some err \<Rightarrow> Inl err
      | None \<Rightarrow>
          let entry_json = t_print T (JObj (entry_fields e));
              h = h_blake3 H (prev_hash T text @ entry_json);
              line = with_hash entry_json (t_hex T h) @ [NEWLINE]
          in case h_fs_err H (OpenWrite path) of
               Some err \<Rightarrow> Inl err
             | None \<Rightarrow> (case h_fs_err H (WriteAll path) of Some err \<Rightarrow> Inl err | None \<Rightarrow> Inr (text @ line)))"

section \<open>Verification of the log\<close>

record verdict =
  v_prev :: bytes
  v_total :: nat
  v_ok :: nat
  v_skipped :: nat
  v_failed :: nat

definition verify_line :: "text_lib \<Rightarrow> host \<Rightarrow> bytes \<Rightarrow> verdict \<Rightarrow> verdict" where
  "verify_line T H line v =
     (let raw = trim line in
      if raw = [] then v
      else
        let v1 = v\<lparr>v_total := v_total v + 1\<rparr> in
        case t_parse T raw of
          None \<Rightarrow> v1\<lparr>v_failed := v_failed v + 1\<rparr>
        | Some val \<Rightarrow>
            (case hash_field val of
               None \<Rightarrow> v1\<lparr>v_skipped := v_skipped v + 1, v_prev := replicate 32 0\<rparr>
             | Some stored \<Rightarrow>
                 let entry_json = t_print T (case val of JObj fs \<Rightarrow> JObj (AList.delete ''hash'' fs) | other \<Rightarrow> other);
                     expected = h_blake3 H (v_prev v @ entry_json)
                 in if t_hex T expected = stored
                    then v1\<lparr>v_ok := v_ok v + 1, v_prev := expected\<rparr>
                    else v1\<lparr>v_failed := v_failed v + 1, v_prev := (case unhex_32 T stored of Some b \<Rightarrow> b | None \<Rightarrow> v_prev v)\<rparr>))"

definition run_verify :: "text_lib \<Rightarrow> host \<Rightarrow> bytes \<Rightarrow> nat + verdict" where
  "run_verify T H text =
     (let v = fold (verify_line T H) (split_on NEWLINE text) \<lparr>v_prev = replicate 32 0, v_total = 0, v_ok = 0, v_skipped = 0, v_failed = 0\<rparr>
      in if v_failed v > 0 then Inl (v_failed v) else Inr v)"

text \<open>What the libraries document: hexadecimal text can be read back, printed objects end with a brace and have no line break or space around them, and a
  parsed object is a map in the order of its keys, whatever the order in the text.\<close>

definition text_lib_ok :: "text_lib \<Rightarrow> bool" where
  "text_lib_ok T \<longleftrightarrow> (\<forall>b. t_unhex T (t_hex T b) = Some b) \<and> inj (t_hex T) \<and>
     (\<forall>fs h. let line = t_print T (JObj fs) in
        line \<noteq> [] \<and> last line = 0x7D \<and> trim (with_hash line (t_hex T h)) = with_hash line (t_hex T h) \<and> NEWLINE \<notin> set (with_hash line (t_hex T h)) \<and>
        (distinct (map fst fs) \<longrightarrow> ''hash'' \<notin> fst ` set fs \<longrightarrow>
           t_parse T (with_hash line (t_hex T h)) = Some (JObj (sort_key fst (fs @ [(''hash'', JStr (t_hex T h))])))))"

lemma delete_sorted:
  assumes "distinct (map fst fs)" and "k \<notin> fst ` set fs"
  shows "AList.delete k (sort_key fst (fs @ [(k :: string, v)])) = sort_key fst fs"
proof -
  have "AList.delete k (sort_key fst (fs @ [(k, v)])) = sort_key fst (AList.delete k (fs @ [(k, v)]))"
    by (simp add: AList.delete_eq filter_sort)
  moreover have "AList.delete k (fs @ [(k, v)]) = fs" using assms(2) by (force simp: AList.delete_eq filter_id_conv)
  ultimately show ?thesis by simp
qed

text \<open>A log that the tool wrote itself does not verify: the entry is hashed with its fields in the order of the struct and checked with its fields in the order
  of their names, beginning with \<open>ts\<close> in one case and with \<open>args\<close> in the other. One entry is enough.\<close>

theorem own_log_fails_verification:
  assumes "text_lib_ok T" and "\<forall>c. h_fs_err H c = None" and "distinct (map fst (entry_fields e))"
    and "h_blake3 H (replicate 32 0 @ t_print T (JObj (entry_fields e))) \<noteq> h_blake3 H (replicate 32 0 @ t_print T (JObj (sort_key fst (entry_fields e))))"
  shows "\<exists>text. append_entry T H path e [] = Inr text \<and> run_verify T H text = Inl 1"
proof -
  let ?fs = "entry_fields e" and ?z = "replicate 32 (0 :: u8)"
  let ?json = "t_print T (JObj ?fs)"
  define h where "h = h_blake3 H (?z @ ?json)"
  let ?line = "with_hash ?json (t_hex T h)"
  have "''hash'' \<notin> fst ` set ?fs" by (auto simp: entry_fields_def split: option.splits)
  then have lib: "trim ?line = ?line" "NEWLINE \<notin> set ?line" "?json \<noteq> []" "last ?json = 0x7D"
    and parse: "t_parse T ?line = Some (JObj (sort_key fst (?fs @ [(''hash'', JStr (t_hex T h))])))"
    and del: "AList.delete ''hash'' (sort_key fst (?fs @ [(''hash'', JStr (t_hex T h))])) = sort_key fst ?fs"
    using assms(1,3) delete_sorted [OF assms(3)] by (auto simp: text_lib_ok_def Let_def)
  have "distinct (map fst (?fs @ [(''hash'', JStr (t_hex T h))]))" using assms(3) \<open>''hash'' \<notin> fst ` set ?fs\<close> by simp
  then have "distinct (map fst (sort_key fst (?fs @ [(''hash'', JStr (t_hex T h))])))" unfolding distinct_map by (simp only: distinct_sort set_sort)
  then have "map_of (sort_key fst (?fs @ [(''hash'', JStr (t_hex T h))])) ''hash'' = Some (JStr (t_hex T h))"
    by (rule map_of_is_SomeI) simp
  then have "hash_field (JObj (sort_key fst (?fs @ [(''hash'', JStr (t_hex T h))]))) = Some (t_hex T h)"
    by (simp add: hash_field_def object_field_def)
  moreover have "t_hex T (h_blake3 H (?z @ t_print T (JObj (sort_key fst ?fs)))) \<noteq> t_hex T h"
    using assms(1,4) by (auto simp: text_lib_ok_def h_def dest: injD)
  moreover have "?line \<noteq> []" using lib(3,4) by (simp add: with_hash_def as_bytes_def)
  ultimately have "v_failed (fold (verify_line T H) (split_on NEWLINE (?line @ [NEWLINE])) \<lparr>v_prev = ?z, v_total = 0, v_ok = 0, v_skipped = 0, v_failed = 0\<rparr>) = 1"
    using lib parse del by (simp add: split_on_end verify_line_def Let_def trim_def)
  moreover have "append_entry T H path e [] = Inr (?line @ [NEWLINE])"
    using assms(2) by (simp add: append_entry_def prev_hash_def read_last_line_def h_def Let_def split: option.split)
  ultimately show ?thesis by (simp add: run_verify_def Let_def)
qed

end
