(* ===== verification/Mount_Facts.thy ===== *)
theory Mount_Facts
  imports Remote_Mount
begin

text \<open>
  What a mounted directory guarantees: what is read from an open file is the content of the file on the other side; inodes and paths correspond one to one, and an inode
  never changes its path. And what it does not: a mount panics at its request 1025, the open of a file that cannot be read never returns, and the check of paths lets a sibling of the
  exported directory pass.
\<close>

section \<open>Text\<close>

lemma widths:
  "0xC2 \<le> b \<Longrightarrow> b \<le> 0xDF \<Longrightarrow> utf8_width b = 2" "0xE0 \<le> b \<Longrightarrow> b \<le> 0xEF \<Longrightarrow> utf8_width b = 3" "0xF0 \<le> b \<Longrightarrow> b \<le> 0xF4 \<Longrightarrow> utf8_width b = 4"
  for b :: u8
  by (auto simp: utf8_width_def word_le_nat_alt word_less_nat_alt)

lemma lead_bytes:
  "0xC2 \<le> b \<Longrightarrow> b \<le> 0xDF \<Longrightarrow> \<not> b < 0x80 \<and> b \<noteq> 0xE0 \<and> b \<noteq> 0xED \<and> b \<noteq> 0xF0 \<and> b \<noteq> 0xF4"
  "0xE0 \<le> b \<Longrightarrow> b \<le> 0xEF \<Longrightarrow> \<not> b < 0x80 \<and> \<not> b \<le> 0xDF \<and> b \<noteq> 0xF0 \<and> b \<noteq> 0xF4"
  "0xF0 \<le> b \<Longrightarrow> b \<le> 0xF4 \<Longrightarrow> \<not> b < 0x80 \<and> \<not> b \<le> 0xDF \<and> \<not> b \<le> 0xEF \<and> b \<noteq> 0xE0 \<and> b \<noteq> 0xED"
  for b :: u8
  by (auto simp: word_le_nat_alt word_less_nat_alt)

text \<open>A valid string begins with a whole character.\<close>

lemma valid_head:
  assumes "utf8_valid (b # bs)"
  shows "(utf8_width b = 1 \<or> utf8_width b > 1 \<and> good_tail b bs = utf8_width b - 1) \<and> utf8_valid (drop (utf8_width b - 1) bs)"
proof (cases "b < 0x80")
  case True
  then show ?thesis using assms by (simp add: utf8_width_def)
next
  case False
  then obtain c cs where bs: "bs = c # cs" using assms by (cases bs) auto
  show ?thesis
  proof (cases "0xC2 \<le> b \<and> b \<le> 0xDF")
    case True
    then show ?thesis using assms False bs widths(1) [of b] lead_bytes(1) [of b] by (simp add: good_tail_def second_ok_def)
  next
    case no2: False
    then obtain d ds where cs: "cs = d # ds" using assms False bs by (cases cs) auto
    show ?thesis
    proof (cases "0xE0 \<le> b \<and> b \<le> 0xEF")
      case True
      then show ?thesis using assms False no2 bs cs widths(2) [of b] lead_bytes(2) [of b] by (simp add: good_tail_def second_ok_def)
    next
      case no3: False
      then obtain e es where ds: "ds = e # es" using assms False no2 bs cs by (cases ds) auto
      then have "0xF0 \<le> b" "b \<le> 0xF4" using assms False no2 no3 bs cs by simp_all
      then show ?thesis using assms False no2 no3 bs cs ds widths(3) [of b] lead_bytes(3) [of b] by (simp add: good_tail_def second_ok_def numeral_eq_Suc)
    qed
  qed
qed

lemma lossy_valid: "utf8_valid b \<Longrightarrow> utf8_lossy b = b"
proof (induction "length b" arbitrary: b rule: less_induct)
  case less
  show ?case
  proof (cases b)
    case (Cons x bs)
    note head = valid_head [OF less.prems [unfolded Cons]]
    have "utf8_lossy (drop (utf8_width x - 1) bs) = drop (utf8_width x - 1) bs" using less.hyps head Cons by simp
    with head Cons show ?thesis by auto
  qed simp
qed

section \<open>Requests and answers\<close>

text \<open>A path the server accepts, and a file it can read.\<close>

definition path_ok :: "bytes \<Rightarrow> bytes \<Rightarrow> bool" where
  "path_ok root_dir path \<longleftrightarrow> utf8_valid path \<and> \<not> contains [0x2E, 0x2E] path \<and> starts_with path root_dir"

definition exported :: "export \<Rightarrow> bytes \<Rightarrow> bytes \<Rightarrow> bytes \<Rightarrow> bool" where
  "exported X root_dir path content \<longleftrightarrow> path_ok root_dir path \<and> ex_open X path = Some content \<and> length content < 2 ^ 64 \<and>
     (\<exists>mode. ex_meta X path = Some (of_nat (length content), mode))"

definition answers :: "export \<Rightarrow> bytes \<Rightarrow> remote" where
  "answers X root_dir request = (serve_request X root_dir request, None)"

lemma path_ok_valid: "path_ok root_dir path \<Longrightarrow> validate_path root_dir (utf8_lossy path) = Some path"
  by (simp add: path_ok_def validate_path_def lossy_valid)

lemma parse_built:
  assumes "utf8_valid name" and "length name < 2 ^ 16"
  shows "parse_entry (build_entry_frame name fsize mode) = Inr \<lparr>re_name = name, re_size = fsize, re_mode = mode\<rparr>"
proof -
  let ?fr = "build_entry_frame name fsize mode" and ?n = "length name"
  have fr: "?fr = [ENTRY] @ u16_to_be (of_nat ?n) @ name @ u64_to_be fsize @ u32_to_be mode" by (simp add: build_entry_frame_def)
  have "slice ?fr 1 3 = u16_to_be (of_nat ?n)" "slice ?fr 3 (3 + ?n) = name" by (simp_all add: fr slice_def)
  moreover have "slice ?fr (3 + ?n) (3 + ?n + 8) = u64_to_be fsize"
    using slice_mid [of "[ENTRY] @ u16_to_be (of_nat ?n) @ name" "u64_to_be fsize" "u32_to_be mode"] by (simp add: fr numeral_3_eq_3)
  moreover have "slice ?fr (3 + ?n + 8) (3 + ?n + 12) = u32_to_be mode"
    using slice_mid [of "[ENTRY] @ u16_to_be (of_nat ?n) @ name @ u64_to_be fsize" "u32_to_be mode" "[]"] by (simp add: fr add.assoc numeral_3_eq_3)
  moreover have "unat (of_nat ?n :: u16) = ?n" using assms(2) by (simp add: unat_of_nat_id)
  moreover have "length ?fr = 15 + ?n" by (simp add: fr)
  ultimately show ?thesis using assms(1) by (simp add: parse_entry_def Let_def codec_simps lossy_valid)
qed

text \<open>A directory is listed with all the entries that the server knows the size and mode of, in its order.\<close>

lemma ls_answered:
  assumes "path_ok root_dir path" and "ex_dir X path = Some es" and "\<forall>(name, _) \<in> set es. utf8_valid name \<and> length name < 2 ^ 16"
  shows "ls_path (answers X root_dir) n path = obind (request_stream n) (\<lambda>n'. Return (
    Some (Inr (List.map_filter (\<lambda>(name, meta). map_option (\<lambda>(fsize, mode). \<lparr>re_name = name, re_size = fsize, re_mode = mode\<rparr>) meta) es)), n'))"
proof -
  have "ls_loop (dir_frames es @ [[DONE]]) None =
      Some (Inr (List.map_filter (\<lambda>(name, meta). map_option (\<lambda>(fsize, mode). \<lparr>re_name = name, re_size = fsize, re_mode = mode\<rparr>) meta) es))"
    using assms(3)
  proof (induction es)
    case Nil
    then show ?case by (simp add: dir_frames_def List.map_filter_simps frame_types)
  next
    case (Cons x es)
    obtain name meta where x: "x = (name, meta)" by fastforce
    have ok: "utf8_valid name" "length name < 2 ^ 16" using Cons.prems x by auto
    show ?case
    proof (cases meta)
      case None
      then show ?thesis using Cons x by (simp add: dir_frames_def List.map_filter_simps)
    next
      case (Some m)
      obtain fsize mode where "m = (fsize, mode)" by fastforce
      moreover have "hd (build_entry_frame name fsize mode) = ENTRY" "build_entry_frame name fsize mode \<noteq> []" by (simp_all add: build_entry_frame_def)
      ultimately show ?thesis using Cons x Some parse_built [OF ok] ok by (simp add: dir_frames_def List.map_filter_simps lossy_valid)
    qed
  qed
  then show ?thesis using assms(1,2) by (simp add: ls_path_def answers_def serve_request_def handle_ls_path_def path_ok_valid frame_types)
qed

text \<open>A file arrives whole.\<close>

lemma get_loop_answered:
  assumes "unat sent + length avail = unat fsize" and "length content = unat sent" and "get_loop sent fsize avail = (frs, hashed)"
  shows "hashed = avail \<and> get_data blake3 fsize content (frs @ [c]) e = Some (get_checksum blake3 (content @ avail) c)"
  using assms
proof (induction "length avail" arbitrary: sent avail content frs hashed rule: less_induct)
  case less
  have content: "(of_nat (length content) :: u64) = sent" using less.prems(2) by simp
  show ?case
  proof (cases "avail = []")
    case True
    with less.prems have "sent = fsize" "frs = []" "hashed = []" by (simp_all add: word_unat_eq_iff get_loop.simps)
    with True content show ?thesis by simp
  next
    case False
    let ?c = "take GET_CHUNK avail" and ?n = "length (take GET_CHUNK avail)"
    have pos: "0 < length avail" "0 < GET_CHUNK" using False by (simp_all add: GET_CHUNK_def)
    then have lt: "sent < fsize" using less.prems(1) unfolding word_less_nat_alt by linarith
    have n: "?n \<le> length avail" "length (drop GET_CHUNK avail) < length avail" using pos by auto
    have "unat (of_nat ?n :: u64) = ?n" by (rule unat_of_nat_id) (use n(1) less.prems(1) unsigned_less [of fsize, where 'a = nat] in simp)
    then have sum: "unat (sent + of_nat ?n) = unat sent + ?n"
      using n(1) less.prems(1) unsigned_less [of fsize, where 'a = nat] by (subst unat_add_lem [THEN iffD1]) simp_all
    obtain frs' hashed' where rec: "get_loop (sent + of_nat ?n) fsize (drop GET_CHUNK avail) = (frs', hashed')" by fastforce
    have frs: "frs = (DATA # ?c) # frs'" "hashed = ?c @ hashed'" using less.prems(3) lt False rec by (simp_all add: get_loop.simps [of sent] Let_def)
    have "hashed' = drop GET_CHUNK avail \<and>
        get_data blake3 fsize (content @ ?c) (frs' @ [c]) e = Some (get_checksum blake3 ((content @ ?c) @ drop GET_CHUNK avail) c)"
      by (rule less.hyps [OF n(2) _ _ rec]) (use sum less.prems(1,2) in simp_all)
    with frs lt content show ?thesis by simp
  qed
qed

lemma get_answered:
  assumes "exported X root_dir path content"
  shows "get_answer (ex_blake3 X) (answers X root_dir) path = Some (Inr content)"
proof -
  let ?n = "of_nat (length content) :: u64"
  obtain mode where x: "path_ok root_dir path" "ex_open X path = Some content" "ex_meta X path = Some (?n, mode)" "length content < 2 ^ 64"
    using assms by (auto simp: exported_def)
  obtain frs hashed where loop: "get_loop 0 ?n content = (frs, hashed)" by fastforce
  let ?info = "file_info_frame (base_name path) ?n"
  have "unat ?n = length content" using x(4) by (simp add: unat_of_nat_id)
  from get_loop_answered [OF _ _ loop, of "[]"] this
  have "hashed = content" "get_data b ?n [] (frs @ [c]) e = Some (get_checksum b content c)" for b c e by auto
  moreover have "slice ?info 1 9 = u64_to_be ?n" "hd ?info = FILE_INFO" "?info \<noteq> []" "\<not> length ?info < 11" by (simp_all add: file_info_frame_def slice_def)
  ultimately show ?thesis using x loop
    by (simp add: get_answer_def answers_def serve_request_def handle_get_path_def path_ok_valid frame_types next_frame_def codec_simps get_checksum_def)
qed

text \<open>A request that fails on the server is not answered, and the client waits for the answer.\<close>

theorem failed_get_never_returns:
  assumes "utf8_valid path" and "validate_path root_dir path = None \<or> ex_meta X path = None \<or> ex_open X path = None"
    and "path_for (ms_inodes s) ino = Some path" and "ms_streams s < STREAM_LIMIT"
  shows "fs_open_file blake3 (answers X root_dir) ino s = None"
proof -
  have "validate_path root_dir path = None \<or> validate_path root_dir path = Some path" by (simp add: validate_path_def)
  then have "handle_get_path X root_dir path = [] \<or> (\<exists>name fsize. handle_get_path X root_dir path = [file_info_frame name fsize])"
    using assms(1,2) by (fastforce simp: handle_get_path_def lossy_valid Let_def split: option.split)
  then have "get_answer blake3 (answers X root_dir) path = None"
    by (auto simp: get_answer_def answers_def serve_request_def frame_types next_frame_def file_info_frame_def)
  with assms(3,4) show ?thesis by (simp add: fs_open_file_def with_request_def get_path_def request_stream_def)
qed

text \<open>The check compares text: a sibling of the exported directory whose name begins with its name passes.\<close>

lemma sibling_passes: "\<not> contains [0x2E, 0x2E] (root_dir @ rest) \<Longrightarrow> validate_path root_dir (root_dir @ rest) = Some (root_dir @ rest)"
  by (simp add: validate_path_def starts_with_def)

section \<open>Inodes\<close>

definition table_ok :: "bytes \<Rightarrow> inode_table \<Rightarrow> bool" where
  "table_ok root_dir t \<longleftrightarrow>
     (\<forall>ino p. path_for t ino = Some p \<longleftrightarrow> map_of (it_path_to_ino t) p = Some ino) \<and> path_for t 1 = Some root_dir \<and>
     (\<forall>ino p. path_for t ino = Some p \<longrightarrow> unat ino < unat (it_next_ino t)) \<and> unat (it_next_ino t) = length (it_path_to_ino t) + 1"

text \<open>A later table has the entries of an earlier one.\<close>

definition extends :: "inode_table \<Rightarrow> inode_table \<Rightarrow> bool" where
  "extends t t' \<longleftrightarrow> length (it_path_to_ino t) \<le> length (it_path_to_ino t') \<and> (\<forall>ino p. path_for t ino = Some p \<longrightarrow> path_for t' ino = Some p)"

lemma table_new: "table_ok root_dir (inode_table_new root_dir)"
  by (auto simp: table_ok_def inode_table_new_def path_for_def)

lemma length_update_new: "k \<notin> dom (map_of al) \<Longrightarrow> length (AList.update k v al) = length al + 1"
  by (induction al) auto

text \<open>One allocation; the number of allocated inodes is what keeps the counter from wrapping around.\<close>

lemma ino_for_path_ok:
  assumes "table_ok root_dir t" and "ino_for_path t p = (ino, t')" and "length (it_path_to_ino t') + 1 < 2 ^ 64"
  shows "table_ok root_dir t'" and "path_for t' ino = Some p" and "extends t t'"
proof -
  have "table_ok root_dir t' \<and> path_for t' ino = Some p \<and> extends t t'"
  proof (cases "map_of (it_path_to_ino t) p")
    case None
    let ?n = "it_next_ino t"
    have t': "ino = ?n" "t' = t\<lparr>it_next_ino := ?n + 1, it_ino_to_path := AList.update ?n p (it_ino_to_path t), it_path_to_ino := AList.update p ?n (it_path_to_ino t)\<rparr>"
      using assms(2) None by (auto simp: ino_for_path_def Let_def)
    have len: "length (it_path_to_ino t') = length (it_path_to_ino t) + 1"
      using t'(2) None length_update_new [of p "it_path_to_ino t" ?n] by (simp add: domIff)
    have "unat ?n = length (it_path_to_ino t) + 1" using assms(1) by (simp add: table_ok_def)
    then have succ: "unat (?n + 1) = unat ?n + 1" using assms(3) len by (subst unat_plus_if') simp
    have fresh: "path_for t ?n = None"
    proof (rule ccontr)
      assume "path_for t ?n \<noteq> None"
      then show False using assms(1) unfolding table_ok_def by (metis not_None_eq less_irrefl)
    qed
    have i2p: "path_for t' = (path_for t)(?n \<mapsto> p)" using t'(2) by (simp add: path_for_def [abs_def] update_conv')
    have p2i: "map_of (it_path_to_ino t') = (map_of (it_path_to_ino t))(p \<mapsto> ?n)" using t'(2) by (simp add: update_conv')
    have "table_ok root_dir t'" unfolding table_ok_def i2p p2i
    proof (intro conjI allI impI)
      fix i q show "((path_for t)(?n \<mapsto> p)) i = Some q \<longleftrightarrow> ((map_of (it_path_to_ino t))(p \<mapsto> ?n)) q = Some i"
        using assms(1) fresh None unfolding table_ok_def by (auto split: if_splits)
    next
      show "((path_for t)(?n \<mapsto> p)) 1 = Some root_dir" using assms(1) fresh unfolding table_ok_def by auto
    next
      fix i q assume "((path_for t)(?n \<mapsto> p)) i = Some q"
      then have "i = ?n \<or> unat i < unat ?n" using assms(1) unfolding table_ok_def by (auto split: if_splits)
      then show "unat i < unat (it_next_ino t')" using t'(2) succ by auto
    next
      show "unat (it_next_ino t') = length (it_path_to_ino t') + 1"
        using t'(2) succ len \<open>unat ?n = length (it_path_to_ino t) + 1\<close> by simp
    qed
    moreover have "extends t t'" using len fresh by (auto simp: extends_def i2p)
    ultimately show ?thesis using t'(1) i2p by simp
  next
    case (Some i)
    then have "t' = t" "ino = i" using assms(2) by (simp_all add: ino_for_path_def)
    moreover have "path_for t i = Some p" using assms(1) Some unfolding table_ok_def by blast
    ultimately show ?thesis using assms(1) by (simp add: extends_def)
  qed
  then show "table_ok root_dir t'" "path_for t' ino = Some p" "extends t t'" by blast+
qed

lemma ino_for_path_grows: "ino_for_path t p = (ino, t') \<Longrightarrow> length (it_path_to_ino t) \<le> length (it_path_to_ino t')"
  using length_update_new [of p "it_path_to_ino t" "it_next_ino t"]
  by (auto simp: ino_for_path_def Let_def domIff split: option.splits)

lemma extends_trans: "extends a b \<Longrightarrow> extends b c \<Longrightarrow> extends a c" by (auto simp: extends_def)

lemma extends_refl [simp]: "extends a a" by (simp add: extends_def)

lemma number_entries_grows: "number_entries path es t = (all, t') \<Longrightarrow> length (it_path_to_ino t) \<le> length (it_path_to_ino t')"
proof (induction es arbitrary: t all)
  case (Cons e es)
  then show ?case by (fastforce dest: ino_for_path_grows split: prod.splits)
qed simp

lemma number_entries_ok:
  assumes "table_ok root_dir t" and "number_entries path es t = (all, t')" and "length (it_path_to_ino t') + 1 < 2 ^ 64"
  shows "table_ok root_dir t' \<and> extends t t'"
  using assms
proof (induction es arbitrary: t all)
  case (Cons e es)
  obtain ino t1 rest where one: "ino_for_path t (join_path path (re_name e)) = (ino, t1)" and two: "number_entries path es t1 = (rest, t')"
    using Cons.prems(2) by (auto split: prod.splits)
  have "length (it_path_to_ino t1) + 1 < 2 ^ 64" using number_entries_grows [OF two] Cons.prems(3) by simp
  note first = ino_for_path_ok [OF Cons.prems(1) one this]
  from Cons.IH [OF first(1) two Cons.prems(3)] first(3) show ?case using extends_trans by blast
qed simp

text \<open>What a call that returns has done to the table of inodes, to the open files and to the streams.\<close>

lemma with_request_returns:
  assumes "with_request (obind (request_stream (ms_streams s)) (\<lambda>n. Return (ans, n))) f s = Some (Return (r, s'))"
  obtains res where "ans = Some res" "ms_streams s < STREAM_LIMIT" "f res (s\<lparr>ms_streams := ms_streams s + 1\<rparr>) = (r, s')"
  using assms by (auto simp: with_request_def request_stream_def split: if_splits option.splits)

lemma fuse_step_effect:
  assumes "fuse_step blake3 (remote, call) s = Some (Return (r, s'))"
  shows "(ms_inodes s' = ms_inodes s \<or> (\<exists>p ino. ino_for_path (ms_inodes s) p = (ino, ms_inodes s')) \<or>
      (\<exists>p es all. number_entries p es (ms_inodes s) = (all, ms_inodes s'))) \<and>
    (ms_streams s' = ms_streams s \<and> ms_next_fh s' = ms_next_fh s \<or>
     ms_streams s < STREAM_LIMIT \<and> ms_streams s' = ms_streams s + 1 \<and> ms_next_fh s' \<in> {ms_next_fh s, ms_next_fh s + 1}) \<and>
    (ms_open_files s' = ms_open_files s \<or> (\<exists>content. ms_open_files s' = AList.update (ms_next_fh s) content (ms_open_files s)) \<or>
     (\<exists>fh. call = Release fh \<and> ms_open_files s' = AList.delete fh (ms_open_files s)))"
proof (cases call)
  case (Lookup p name)
  then show ?thesis using assms
    by (auto simp: fuse_step_def fs_lookup_def stat_path_def elim!: with_request_returns split: option.splits if_splits sum.splits prod.splits; blast)
next
  case (Getattr ino)
  then show ?thesis using assms
    by (auto simp: fuse_step_def fs_getattr_def stat_path_def elim!: with_request_returns split: option.splits sum.splits)
next
  case (Readdir ino offset room)
  then show ?thesis using assms
    by (auto simp: fuse_step_def fs_readdir_def ls_path_def Let_def elim!: with_request_returns split: option.splits sum.splits prod.splits)
next
  case (Open ino)
  then show ?thesis using assms
    by (auto simp: fuse_step_def fs_open_file_def get_path_def elim!: with_request_returns split: option.splits sum.splits; blast)
next
  case (Read fh offset n)
  then show ?thesis using assms by (simp add: fuse_step_def)
next
  case (Release fh)
  then show ?thesis using assms by (auto simp: fuse_step_def fs_release_def)
qed

lemma fuse_step_table:
  assumes "fuse_step blake3 c s = Some (Return (r, s'))"
  shows "length (it_path_to_ino (ms_inodes s)) \<le> length (it_path_to_ino (ms_inodes s'))"
    and "table_ok root_dir (ms_inodes s) \<Longrightarrow> length (it_path_to_ino (ms_inodes s')) + 1 < 2 ^ 64 \<Longrightarrow>
      table_ok root_dir (ms_inodes s') \<and> extends (ms_inodes s) (ms_inodes s')"
proof -
  obtain remote call where c: "c = (remote, call)" by fastforce
  from fuse_step_effect [OF assms [unfolded c]]
  have "ms_inodes s' = ms_inodes s \<or> (\<exists>p ino. ino_for_path (ms_inodes s) p = (ino, ms_inodes s')) \<or>
      (\<exists>p es all. number_entries p es (ms_inodes s) = (all, ms_inodes s'))" by blast
  then show "length (it_path_to_ino (ms_inodes s)) \<le> length (it_path_to_ino (ms_inodes s'))"
    and "table_ok root_dir (ms_inodes s) \<Longrightarrow> length (it_path_to_ino (ms_inodes s')) + 1 < 2 ^ 64 \<Longrightarrow>
      table_ok root_dir (ms_inodes s') \<and> extends (ms_inodes s) (ms_inodes s')"
    by (auto dest: ino_for_path_grows number_entries_grows ino_for_path_ok number_entries_ok)
qed

lemma fuse_run_table:
  assumes "fuse_run blake3 cs s = Some (Return s')"
  shows "length (it_path_to_ino (ms_inodes s)) \<le> length (it_path_to_ino (ms_inodes s')) \<and>
    (table_ok root_dir (ms_inodes s) \<longrightarrow> length (it_path_to_ino (ms_inodes s')) + 1 < 2 ^ 64 \<longrightarrow>
      table_ok root_dir (ms_inodes s') \<and> extends (ms_inodes s) (ms_inodes s'))"
  using assms
proof (induction cs arbitrary: s)
  case (Cons c cs)
  obtain r s1 where one: "fuse_step blake3 c s = Some (Return (r, s1))" and two: "fuse_run blake3 cs s1 = Some (Return s')"
    using Cons.prems by (auto split: option.splits outcome.splits)
  from Cons.IH [OF two] fuse_step_table(1) [OF one] fuse_step_table(2) [OF one, of root_dir] show ?case
    by (meson add_le_mono1 extends_trans le_less_trans le_trans)
qed simp

text \<open>Inodes are a one-to-one numbering of paths, for good. After any sequence of calls of the kernel, with whatever the other side answered to each, and as long as fewer
  than \<open>2 ^ 64 - 2\<close> inodes have been handed out: an inode stands for a path exactly if the path has that inode, inode 1 is the mounted directory, and no later call
  changes the path of an inode.\<close>

theorem inodes_number_paths:
  assumes "fuse_run blake3 cs (seam_fs_new root_dir) = Some (Return s)" and "fuse_run blake3 later s = Some (Return s')"
    and "length (it_path_to_ino (ms_inodes s')) + 1 < 2 ^ 64"
  shows "(\<forall>ino p. path_for (ms_inodes s) ino = Some p \<longleftrightarrow> map_of (it_path_to_ino (ms_inodes s)) p = Some ino) \<and>
    path_for (ms_inodes s) 1 = Some root_dir \<and> (\<forall>ino p. path_for (ms_inodes s) ino = Some p \<longrightarrow> path_for (ms_inodes s') ino = Some p)"
proof -
  have "length (it_path_to_ino (ms_inodes s)) + 1 < 2 ^ 64" using fuse_run_table [OF assms(2), THEN conjunct1] assms(3) by linarith
  then have "table_ok root_dir (ms_inodes s)"
    using fuse_run_table [OF assms(1), of root_dir] table_new [of root_dir] by (simp add: seam_fs_new_def)
  moreover from this have "extends (ms_inodes s) (ms_inodes s')" using fuse_run_table [OF assms(2), of root_dir] assms(3) by blast
  ultimately show ?thesis unfolding table_ok_def extends_def by blast
qed

theorem inodes_number_paths_witness:
  "path_for (ms_inodes (seam_fs_new [47])) 1 = Some [47] \<and>
   (\<exists>s'. fuse_run id [(\<lambda>_. ([[DONE]], None), Getattr 1), (\<lambda>_. ([build_entry_frame [97] 5 0x81A4], None), Lookup 1 [97])] (seam_fs_new [47]) = Some (Return s') \<and>
      path_for (ms_inodes s') 1 = Some [47] \<and> path_for (ms_inodes s') 2 = Some [47, 97])"
proof -
  let ?cs = "[(\<lambda>_. ([[DONE]], None), Getattr 1), (\<lambda>_. ([build_entry_frame [97] 5 0x81A4], None), Lookup 1 [97])]"
  let ?t = "\<lparr>it_next_ino = 3, it_ino_to_path = [(1, [47]), (2, [47, 97])], it_path_to_ino = [([47], 1), ([47, 97], 2)]\<rparr> :: inode_table"
  have entry: "hd (build_entry_frame [97] 5 0x81A4) = ENTRY" "build_entry_frame [97] 5 0x81A4 \<noteq> []" by (simp_all add: build_entry_frame_def)
  have run: "fuse_run id ?cs (seam_fs_new [47]) = Some (Return \<lparr>ms_inodes = ?t, ms_open_files = [], ms_next_fh = 1, ms_streams = 2\<rparr>)"
    using parse_built [of "[97]" 5 "0x81A4"] entry
    by (simp add: fuse_step_def fs_getattr_def fs_lookup_def seam_fs_new_def inode_table_new_def path_for_def stat_path_def stat_answer_def with_request_def request_stream_def STREAM_LIMIT_def next_frame_def frame_types
        ino_for_path_def join_path_def)
  from inodes_number_paths [OF _ this, of "[]"] run show ?thesis by (simp add: path_for_def)
qed

section \<open>Reading\<close>

text \<open>A file handle is a number below the count of streams and two, so the handles never wrap around.\<close>

definition handles_ok :: "seam_fs \<Rightarrow> bool" where
  "handles_ok s \<longleftrightarrow> ms_streams s \<le> STREAM_LIMIT \<and> unat (ms_next_fh s) \<le> ms_streams s + 1"

lemma next_handle: "handles_ok s \<Longrightarrow> unat (ms_next_fh s + 1) = unat (ms_next_fh s) + 1"
  by (subst unat_plus_if') (simp add: handles_ok_def STREAM_LIMIT_def)

lemma fuse_step_files:
  assumes "fuse_step blake3 (remote, call) s = Some (Return (r, s'))" and "handles_ok s"
  shows "handles_ok s'" and "unat (ms_next_fh s) \<le> unat (ms_next_fh s')"
    and "fh < ms_next_fh s \<Longrightarrow> call \<noteq> Release fh \<Longrightarrow> map_of (ms_open_files s') fh = map_of (ms_open_files s) fh"
proof -
  note effect = fuse_step_effect [OF assms(1)]
  show "handles_ok s'" "unat (ms_next_fh s) \<le> unat (ms_next_fh s')"
    using effect [THEN conjunct2, THEN conjunct1] assms(2) next_handle [OF assms(2)] by (auto simp: handles_ok_def)
  show "map_of (ms_open_files s') fh = map_of (ms_open_files s) fh" if "fh < ms_next_fh s" "call \<noteq> Release fh"
  proof -
    have other: "fh \<noteq> ms_next_fh s" using that(1) by auto
    from effect [THEN conjunct2, THEN conjunct2] consider "ms_open_files s' = ms_open_files s" | content where "ms_open_files s' = AList.update (ms_next_fh s) content (ms_open_files s)"
      | fh' where "call = Release fh'" "ms_open_files s' = AList.delete fh' (ms_open_files s)" by blast
    then show ?thesis using that(2) other by cases (auto simp: update_conv' delete_conv')
  qed
qed

lemma fuse_run_files:
  assumes "fuse_run blake3 cs s = Some (Return s')" and "handles_ok s"
  shows "handles_ok s' \<and> (fh < ms_next_fh s \<and> Release fh \<notin> snd ` set cs \<longrightarrow> map_of (ms_open_files s') fh = map_of (ms_open_files s) fh)"
  using assms
proof (induction cs arbitrary: s)
  case (Cons c cs)
  obtain remote call where c: "c = (remote, call)" by fastforce
  obtain r s1 where one: "fuse_step blake3 (remote, call) s = Some (Return (r, s1))" and two: "fuse_run blake3 cs s1 = Some (Return s')"
    using Cons.prems(1) c by (auto split: option.splits outcome.splits)
  note step = fuse_step_files [OF one Cons.prems(2)]
  have "ms_next_fh s \<le> ms_next_fh s1" using step(2) by (simp add: word_le_nat_alt)
  with Cons.IH [OF two step(1)] step(3) [of fh] show ?case by (auto simp: c dest: order.strict_trans2)
qed simp

text \<open>C31: What is read is what the file holds. After any sequence of calls that the mount has survived, with fewer than 1024 requests to the other side among them, opening an inode whose path the other
  side exports as a file returns a handle; and after any further calls that the mount survives and that do not release that handle, whatever the other side does meanwhile, a read at any
  offset and of any length returns exactly those bytes of the file as it was when it was opened, cut off at its end. (At request 1025 the mount panics: \<open>mount_panics_at_limit\<close>.)\<close>

theorem mount_reads_file:
  assumes "fuse_run (ex_blake3 X) cs (seam_fs_new root_dir) = Some (Return s)" and "ms_streams s < STREAM_LIMIT"
    and "path_for (ms_inodes s) ino = Some path" and "exported X root_dir path content"
  shows "\<exists>fh s1. fuse_step (ex_blake3 X) (answers X root_dir, Open ino) s = Some (Return (ROpened fh, s1)) \<and>
    (\<forall>s2 offset n. fuse_run (ex_blake3 X) later s1 = Some (Return s2) \<longrightarrow> Release fh \<notin> snd ` set later \<longrightarrow>
       fs_read fh offset n s2 = RData (take (unat n) (drop (unat offset) content)))"
proof -
  let ?fh = "ms_next_fh s"
  let ?s1 = "s\<lparr>ms_streams := ms_streams s + 1, ms_next_fh := ?fh + 1, ms_open_files := AList.update ?fh content (ms_open_files s)\<rparr>"
  have opened: "fuse_step (ex_blake3 X) (answers X root_dir, Open ino) s = Some (Return (ROpened ?fh, ?s1))"
    using assms(2,3) get_answered [OF assms(4)] by (simp add: fuse_step_def fs_open_file_def with_request_def get_path_def request_stream_def)
  have "handles_ok (seam_fs_new root_dir)" by (simp add: handles_ok_def seam_fs_new_def)
  with fuse_run_files [OF assms(1)] have ok: "handles_ok s" by blast
  then have "handles_ok ?s1" "?fh < ?fh + 1"
    using next_handle [OF ok] assms(2) by (simp_all add: handles_ok_def word_less_nat_alt)
  then have "map_of (ms_open_files s2) ?fh = Some content" if "fuse_run (ex_blake3 X) later ?s1 = Some (Return s2)" "Release ?fh \<notin> snd ` set later" for s2
    using fuse_run_files [OF that(1), of ?fh] that(2) by (simp add: update_conv')
  then have "fs_read ?fh offset n s2 = RData (take (unat n) (drop (unat offset) content))"
    if "fuse_run (ex_blake3 X) later ?s1 = Some (Return s2)" "Release ?fh \<notin> snd ` set later" for s2 offset n
    using that by (simp add: fs_read_def slice_def min_def)
  with opened show ?thesis by blast
qed

definition demo_export :: export where
  "demo_export = \<lparr>ex_meta = (\<lambda>p. if p = [47, 97] then Some (3, 0x81A4) else None), ex_dir = (\<lambda>_. None),
     ex_open = (\<lambda>p. if p = [47, 97] then Some [1, 2, 3] else None), ex_blake3 = id\<rparr>"

theorem mount_reads_file_witness:
  "\<exists>s fh s1. fuse_run id [(answers demo_export [47], Lookup 1 [97])] (seam_fs_new [47]) = Some (Return s) \<and>
     fuse_step id (answers demo_export [47], Open 2) s = Some (Return (ROpened fh, s1)) \<and> fs_read fh 1 5 s1 = RData [2, 3]"
proof -
  let ?t = "\<lparr>it_next_ino = 3, it_ino_to_path = [(1, [47]), (2, [47, 97])], it_path_to_ino = [([47], 1), ([47, 97], 2)]\<rparr> :: inode_table"
  let ?s = "\<lparr>ms_inodes = ?t, ms_open_files = [], ms_next_fh = 1, ms_streams = 1\<rparr>"
  have ok: "path_ok [47] [47, 97]" by (simp add: path_ok_def starts_with_def)
  have ent: "hd (build_entry_frame [97] 3 0x81A4) = ENTRY" "build_entry_frame [97] 3 0x81A4 \<noteq> []" by (simp_all add: build_entry_frame_def)
  have "base_name [47, 97] = [97]" by (simp add: base_name_def components_def)
  then have stat: "answers demo_export [47] (STAT_PATH # [47, 97]) = ([build_entry_frame [97] 3 0x81A4, [DONE]], None)"
    using path_ok_valid [OF ok] by (simp add: answers_def serve_request_def handle_stat_path_def demo_export_def)
  have run: "fuse_run id [(answers demo_export [47], Lookup 1 [97])] (seam_fs_new [47]) = Some (Return ?s)"
    using parse_built [of "[97]" 3 "0x81A4"] ent stat
    by (simp add: fuse_step_def fs_lookup_def seam_fs_new_def inode_table_new_def path_for_def stat_path_def stat_answer_def with_request_def
        request_stream_def STREAM_LIMIT_def next_frame_def ino_for_path_def join_path_def)
  have "exported demo_export [47] [47, 97] [1, 2, 3]" using ok by (simp add: exported_def demo_export_def)
  moreover have "path_for (ms_inodes ?s) 2 = Some [47, 97]" "ex_blake3 demo_export = id" "ms_streams ?s < STREAM_LIMIT"
    by (simp_all add: path_for_def demo_export_def STREAM_LIMIT_def)
  ultimately obtain fh s1 where open2: "fuse_step id (answers demo_export [47], Open 2) ?s = Some (Return (ROpened fh, s1))"
      "\<forall>s2 offset n. fuse_run id [] s1 = Some (Return s2) \<longrightarrow> Release fh \<notin> snd ` set [] \<longrightarrow> fs_read fh offset n s2 = RData (take (unat n) (drop (unat offset) [1, 2, 3]))"
    using mount_reads_file [of demo_export "[(answers demo_export [47], Lookup 1 [97])]" "[47]" ?s 2 "[47, 97]" "[1, 2, 3]" "[]"] run by auto
  from open2(2) have "fs_read fh 1 5 s1 = RData [2, 3]" by simp
  with run open2(1) show ?thesis by blast
qed

section \<open>The end of a mount\<close>

text \<open>No stream is ever given back. A mount that has made 1024 requests panics at the next call that needs the other side, for whichever path: already asking 1025 times for the attributes of the mounted
  directory ends it.\<close>

theorem mount_panics_at_limit:
  assumes "STREAM_LIMIT \<le> ms_streams s" and "path_for (ms_inodes s) ino = Some path"
  shows "fuse_step blake3 (remote, Open ino) s = Some Panic \<and> fuse_step blake3 (remote, Getattr ino) s = Some Panic \<and>
    fuse_step blake3 (remote, Readdir ino offset room) s = Some Panic \<and> (utf8_valid name \<longrightarrow> fuse_step blake3 (remote, Lookup ino name) s = Some Panic)"
  using assms
  by (simp add: fuse_step_def fs_open_file_def fs_getattr_def fs_readdir_def fs_lookup_def with_request_def stat_path_def ls_path_def get_path_def request_stream_def)

theorem mount_dies:
  assumes "stat_answer remote root_dir \<noteq> None"
  shows "fuse_run blake3 (replicate 1025 (remote, Getattr 1)) (seam_fs_new root_dir) = Some Panic"
proof -
  have step: "fuse_step blake3 (remote, Getattr 1) (seam_fs_new root_dir\<lparr>ms_streams := n\<rparr>) =
      (if n < 1024 then Some (Return (r n, seam_fs_new root_dir\<lparr>ms_streams := n + 1\<rparr>)) else Some Panic)"
    if "\<And>n. r n = fst (case the (stat_answer remote root_dir) of Inr (Some ent) \<Rightarrow> (RAttr (make_attr 1 ent), ()) | Inr None \<Rightarrow> (RError ENOENT, ()) | Inl _ \<Rightarrow> (RError EIO, ()))" for n r
    using assms that
    by (auto simp: fuse_step_def fs_getattr_def seam_fs_new_def inode_table_new_def path_for_def with_request_def stat_path_def request_stream_def STREAM_LIMIT_def
        split: sum.split option.split)
  have "fuse_run blake3 (replicate k (remote, Getattr 1)) (seam_fs_new root_dir\<lparr>ms_streams := n\<rparr>) = Some Panic" if "n \<le> 1024" "n + k = 1025" for n k
    using that
  proof (induction k arbitrary: n)
    case (Suc k)
    then show ?case using step [OF refl, of n] by (cases "n < 1024") simp_all
  qed simp
  from this [of 0 1025] show ?thesis by (simp add: seam_fs_new_def)
qed

end
