(* ===== verification/Key_Store.thy ===== *)
theory Key_Store
  imports Identity Audit_Log Mount_Facts
begin

text \<open>
  \<^verbatim>\<open>bin/seam/key.rs\<close>: showing and rotating the identity of the tool, with the files of the identity's directory as a map from names to contents, and the time stamp in
  the name of a backup. How far a write gets is an argument; what is printed is left out.
\<close>

section \<open>Time stamps\<close>

definition is_leap :: "nat \<Rightarrow> bool" where
  "is_leap year \<longleftrightarrow> year mod 4 = 0 \<and> year mod 100 \<noteq> 0 \<or> year mod 400 = 0"

definition days_in_year :: "nat \<Rightarrow> nat" where
  "days_in_year year = (if is_leap year then 366 else 365)"

text \<open>The days of a 32-bit number leave the year far below \<open>2 ^ 32\<close>.\<close>

function year_loop :: "nat \<Rightarrow> nat \<Rightarrow> nat \<times> nat" where
  "year_loop days year = (if days < days_in_year year then (days, year) else year_loop (days - days_in_year year) (year + 1))"
  by auto
termination by (relation "measure fst") (auto simp: days_in_year_def)

declare year_loop.simps [simp del]

fun month_loop :: "nat list \<Rightarrow> nat \<Rightarrow> nat \<Rightarrow> nat \<times> nat" where
  "month_loop [] days month = (days, month)"
| "month_loop (md # mds) days month = (if days < md then (days, month) else month_loop mds (days - md) (month + 1))"

definition ymd_of :: "nat \<Rightarrow> nat \<times> nat \<times> nat" where
  "ymd_of days =
     (case year_loop days 1970 of (d, year) \<Rightarrow>
        (case month_loop [31, if is_leap year then 29 else 28, 31, 30, 31, 30, 31, 31, 30, 31, 30, 31] d 1 of (d', month) \<Rightarrow> (year, month, d' + 1)))"

definition fmt_timestamp_utc :: "u64 \<Rightarrow> string" where
  "fmt_timestamp_utc now =
     (let days = unat now div 86400 mod 2 ^ 32;
          time_of_day = unat now mod 86400;
          hh = time_of_day div 3600; mm = time_of_day mod 3600 div 60; ss = time_of_day mod 60
      in case ymd_of days of (year, month, day) \<Rightarrow>
        pad_left 4 (show_nat year) @ pad_left 2 (show_nat month) @ pad_left 2 (show_nat day) @ ''T'' @
        pad_left 2 (show_nat hh) @ pad_left 2 (show_nat mm) @ pad_left 2 (show_nat ss) @ ''Z'')"

section \<open>The identity file\<close>

type_synonym key_dir = "bytes \<rightharpoonup> bytes"

datatype key_error = CreateDir string | ReadKey string | OpenKey string | WriteKey string | CorruptKey

text \<open>A write succeeds, cannot open the file, or stops after some bytes; opening truncates.\<close>

datatype write_outcome = Written | CannotOpen string | StopsAfter nat string

definition write_private_key :: "write_outcome \<Rightarrow> bytes \<Rightarrow> bytes \<Rightarrow> key_dir \<Rightarrow> (key_error + unit) \<times> key_dir" where
  "write_private_key w name content d =
     (case w of
        Written \<Rightarrow> (Inr (), d(name \<mapsto> content))
      | CannotOpen e \<Rightarrow> (Inl (OpenKey e), d)
      | StopsAfter n e \<Rightarrow> (Inl (WriteKey e), d(name \<mapsto> take n content)))"

definition show_key ::
  "prims \<Rightarrow> ('ks, 'kp, 'ds, 'dp) pq_lib \<Rightarrow> bytes \<times> bytes \<times> bytes \<Rightarrow> string option \<Rightarrow> string option \<Rightarrow> write_outcome \<Rightarrow> bytes \<Rightarrow> key_dir \<Rightarrow>
     (key_error + ('ks, 'kp, 'ds, 'dp) identity_keypair) outcome \<times> key_dir" where
  "show_key P L random read_e mkdir_e w name d =
     (case d name of
        Some content \<Rightarrow>
          (case read_e of
             Some e \<Rightarrow> (Return (Inl (ReadKey e)), d)
           | None \<Rightarrow> (case identity_from_bytes P L content of None \<Rightarrow> (Return (Inl CorruptKey), d) | Some i \<Rightarrow> (Return (Inr i), d)))
      | None \<Rightarrow>
          let i = identity_generate P L random
          in case mkdir_e of
               Some e \<Rightarrow> (Return (Inl (CreateDir e)), d)
             | None \<Rightarrow>
                 (case identity_to_bytes L i of
                    Panic \<Rightarrow> (Panic, d)
                  | Return b \<Rightarrow> (case write_private_key w name b d of (Inl e, d') \<Rightarrow> (Return (Inl e), d') | (Inr _, d') \<Rightarrow> (Return (Inr i), d'))))"

definition backup_name :: "bytes \<Rightarrow> u64 \<Rightarrow> bytes" where
  "backup_name name now = utf8_lossy name @ as_bytes ''.backup.'' @ as_bytes (fmt_timestamp_utc now)"

definition write_new_key ::
  "prims \<Rightarrow> ('ks, 'kp, 'ds, 'dp) pq_lib \<Rightarrow> bytes \<times> bytes \<times> bytes \<Rightarrow> write_outcome \<Rightarrow> bytes \<Rightarrow> ('ks, 'kp, 'ds, 'dp) identity_keypair option \<Rightarrow> key_dir \<Rightarrow>
     (key_error + ('ks, 'kp, 'ds, 'dp) identity_keypair option \<times> ('ks, 'kp, 'ds, 'dp) identity_keypair) outcome \<times> key_dir" where
  "write_new_key P L random w name old d =
     (let new_id = identity_generate P L random
      in case identity_to_bytes L new_id of
           Panic \<Rightarrow> (Panic, d)
         | Return b \<Rightarrow> (case write_private_key w name b d of (Inl e, d') \<Rightarrow> (Return (Inl e), d') | (Inr _, d') \<Rightarrow> (Return (Inr (old, new_id)), d')))"

definition rotate_key ::
  "prims \<Rightarrow> ('ks, 'kp, 'ds, 'dp) pq_lib \<Rightarrow> u64 \<Rightarrow> bytes \<times> bytes \<times> bytes \<Rightarrow> string option \<Rightarrow> string option \<Rightarrow> write_outcome \<Rightarrow> write_outcome \<Rightarrow> bytes \<Rightarrow> key_dir \<Rightarrow>
     (key_error + ('ks, 'kp, 'ds, 'dp) identity_keypair option \<times> ('ks, 'kp, 'ds, 'dp) identity_keypair) outcome \<times> key_dir" where
  "rotate_key P L now random mkdir_e read_e wb wn name d =
     (case mkdir_e of
        Some e \<Rightarrow> (Return (Inl (CreateDir e)), d)
      | None \<Rightarrow>
          (case d name of
             None \<Rightarrow> write_new_key P L random wn name None d
           | Some content \<Rightarrow>
               (case read_e of
                  Some e \<Rightarrow> (Return (Inl (ReadKey e)), d)
                | None \<Rightarrow>
                    (case identity_from_bytes P L content of
                       None \<Rightarrow> (Return (Inl CorruptKey), d)
                     | Some i \<Rightarrow>
                         (case write_private_key wb (backup_name name now) content d of
                            (Inl e, d') \<Rightarrow> (Return (Inl e), d')
                          | (Inr _, d') \<Rightarrow> write_new_key P L random wn name (Some i) d')))))"

section \<open>The calendar\<close>

lemma is_leap_iff: "is_leap y \<longleftrightarrow> leap y"
proof -
  have "y mod 4 = 0" if "y mod 400 = 0" using that mod_mod_cancel [of 4 400 y] by simp
  then show ?thesis by (auto simp: is_leap_def leap_def)
qed

lemma days_of_month: "k < month_days y m \<Longrightarrow> (next_day ^^ k) (y, m, 1) = (y, m, k + 1)"
  by (induction k) (simp_all add: next_day_def)

lemma whole_month: "(next_day ^^ month_days y m) (y, m, 1) = (if m < 12 then (y, m + 1, 1) else (y + 1, 1, 1))"
proof -
  have pos: "0 < month_days y m" by (simp add: month_days_def)
  then have "(next_day ^^ month_days y m) (y, m, 1) = next_day ((next_day ^^ (month_days y m - 1)) (y, m, 1))"
    by (metis Suc_diff_1 funpow.simps(2) comp_apply)
  also have "\<dots> = next_day (y, m, month_days y m)" using pos days_of_month [of "month_days y m - 1" y m] by simp
  finally show ?thesis by (simp add: next_day_def)
qed

lemma months:
  assumes "1 \<le> m" and "m \<le> 12" and "days < sum_list (map (month_days y) [m ..< 13])"
  shows "(next_day ^^ days) (y, m, 1) = (case month_loop (map (month_days y) [m ..< 13]) days m of (d, m') \<Rightarrow> (y, m', d + 1))"
  using assms
proof (induction "12 - m" arbitrary: m days)
  case 0
  then have m: "[m ..< 13] = [12]" "m = 12" by (simp_all add: upt_rec)
  then show ?case using "0.prems"(3) by (simp add: days_of_month [of days y 12, simplified])
next
  case (Suc n)
  have up: "[m ..< 13] = m # [m + 1 ..< 13]" using Suc.prems(2) by (simp add: upt_rec)
  show ?case
  proof (cases "days < month_days y m")
    case False
    have "(next_day ^^ days) (y, m, 1) = (next_day ^^ (days - month_days y m)) ((next_day ^^ month_days y m) (y, m, 1))"
      using False by (metis comp_apply funpow_add le_add_diff_inverse2 not_less)
    also have "\<dots> = (next_day ^^ (days - month_days y m)) (y, m + 1, 1)" using Suc.hyps(2) whole_month [of y m] by simp
    also have "\<dots> = (case month_loop (map (month_days y) [m + 1 ..< 13]) (days - month_days y m) (m + 1) of (d, m') \<Rightarrow> (y, m', d + 1))"
      by (rule Suc.hyps(1)) (use Suc.hyps(2) Suc.prems False up in auto)
    finally show ?thesis using False by (simp add: up)
  qed (simp add: days_of_month [simplified] up)
qed

lemma month_lengths: "map (month_days y) [1 ..< 13] = [31, if is_leap y then 29 else 28, 31, 30, 31, 30, 31, 31, 30, 31, 30, 31]"
  by (simp add: month_days_def is_leap_iff upt_rec)

lemma whole_year_from:
  assumes "1 \<le> m" and "m \<le> 12"
  shows "(next_day ^^ sum_list (map (month_days y) [m ..< 13])) (y, m, 1) = (y + 1, 1, 1)"
  using assms
proof (induction "12 - m" arbitrary: m)
  case 0
  then have "[m ..< 13] = [12]" "m = 12" by (simp_all add: upt_rec)
  then show ?case using whole_month [of y 12] by simp
next
  case (Suc n)
  have up: "[m ..< 13] = m # [m + 1 ..< 13]" using Suc.prems(2) by (simp add: upt_rec)
  have "(next_day ^^ sum_list (map (month_days y) [m ..< 13])) (y, m, 1) =
      (next_day ^^ sum_list (map (month_days y) [m + 1 ..< 13])) ((next_day ^^ month_days y m) (y, m, 1))"
    by (simp add: up add.commute [of "month_days y m"] funpow_add)
  then show ?case using Suc.hyps(2) Suc.hyps(1) [of "m + 1"] Suc.prems whole_month [of y m] by simp
qed

lemma year_length: "sum_list (map (month_days y) [1 ..< 13]) = days_in_year y"
  unfolding month_lengths by (simp add: days_in_year_def)

lemma years:
  "(next_day ^^ days) (y, 1, 1) =
     (case year_loop days y of (d, y') \<Rightarrow> (case month_loop (map (month_days y') [1 ..< 13]) d 1 of (d', m) \<Rightarrow> (y', m, d' + 1)))"
proof (induction days y rule: year_loop.induct)
  case (1 days y)
  show ?case
  proof (cases "days < days_in_year y")
    case True
    then show ?thesis using months [of 1 days y] year_length [of y] by (simp add: year_loop.simps)
  next
    case False
    have "(next_day ^^ days) (y, 1, 1) = (next_day ^^ (days - days_in_year y)) ((next_day ^^ days_in_year y) (y, 1, 1))"
      using False by (metis comp_apply funpow_add le_add_diff_inverse2 not_less)
    then show ?thesis using 1 [OF False] False whole_year_from [of 1 y] year_length [of y] by (simp add: year_loop.simps [of days y])
  qed
qed

text \<open>C40: The two computations of a date in the tool, the loops for the name of a key's backup and the closed formula for the audit log, give the same date for every number
  of days since 1 January 1970, and it is the one reached by going on that many days in the Gregorian calendar, one after the other.\<close>

theorem dates_agree: "ymd_of n = days_to_ymd n \<and> ymd_of n = (next_day ^^ n) (1970, 1, 1)"
  unfolding days_to_ymd_is_calendar years ymd_of_def month_lengths by simp

section \<open>Rotation\<close>

lemma generated_ok: "pq_lawful L \<Longrightarrow> length (fst random) = 32 \<Longrightarrow> identity_ok P L (identity_generate P L random)"
  by (auto simp: identity_ok_def identity_generate_def pq_lawful_def split: prod.split)

lemma backup_elsewhere: "utf8_valid name \<Longrightarrow> backup_name name now \<noteq> name"
  by (simp add: backup_name_def lossy_valid as_bytes_def)

text \<open>C39: Rotating the identity never loses the key. If the identity file holds a valid key, then after a rotation, whatever step of it failed, that key is still in the
  identity file or in the backup; if the rotation succeeded, it reports the old identity and the one generated from the fresh random bytes, the backup holds the old key, and the
  identity file the generated one, which can be read back; and when no step fails, the rotation succeeds. The post-quantum library is assumed to read back the keys it writes, and the
  name of the file is valid UTF-8.\<close>

theorem rotation_keeps_key:
  assumes "pq_lawful L" and "utf8_valid name" and "d name = Some b" and "identity_from_bytes P L b = Some i"
    and "length (fst random) = 32" and "rotate_key P L now random mkdir_e read_e wb wn name d = (r, d')"
  shows "(d' name = Some b \<or> d' (backup_name name now) = Some b) \<and>
    (\<forall>old new. r = Return (Inr (old, new)) \<longrightarrow>
       old = Some i \<and> new = identity_generate P L random \<and> d' (backup_name name now) = Some b \<and>
       (\<exists>b'. d' name = Some b' \<and> identity_from_bytes P L b' = Some (identity_generate P L random))) \<and>
    (mkdir_e = None \<and> read_e = None \<and> wb = Written \<and> wn = Written \<longrightarrow> r = Return (Inr (Some i, identity_generate P L random)))"
proof -
  obtain nb where nb: "identity_to_bytes L (identity_generate P L random) = Return nb" "identity_from_bytes P L nb = Some (identity_generate P L random)"
    using identity_bytes_roundtrip [OF assms(1) generated_ok [OF assms(1,5)]] by blast
  note ne = backup_elsewhere [OF assms(2), of now]
  have first: "(d' name = Some b \<or> d' (backup_name name now) = Some b)"
    using assms(3,4,6) ne nb(1)
    by (auto simp: rotate_key_def write_new_key_def write_private_key_def Let_def split: option.splits write_outcome.splits)
  moreover have "old = Some i \<and> new = identity_generate P L random \<and> d' (backup_name name now) = Some b \<and>
      (\<exists>b'. d' name = Some b' \<and> identity_from_bytes P L b' = Some (identity_generate P L random))"
    if "r = Return (Inr (old, new))" for old new
    using that assms(3,4,6) ne nb
    by (auto simp: rotate_key_def write_new_key_def write_private_key_def Let_def split: option.splits write_outcome.splits)
  moreover have "r = Return (Inr (Some i, identity_generate P L random))" if "mkdir_e = None" "read_e = None" "wb = Written" "wn = Written"
    using that assms(3,4,6) nb(1) by (simp add: rotate_key_def write_new_key_def write_private_key_def Let_def)
  ultimately show ?thesis by blast
qed

definition demo_random :: "u8 \<Rightarrow> bytes \<times> bytes \<times> bytes" where
  "demo_random x = (replicate 32 x, replicate 64 x, replicate 32 x)"

definition demo_key :: bytes where
  "demo_key = (case identity_to_bytes demo_pq (identity_generate demo_prims demo_pq (demo_random 1)) of Return b \<Rightarrow> b | Panic \<Rightarrow> [])"

theorem rotation_keeps_key_witness:
  "snd (rotate_key demo_prims demo_pq 0 (demo_random 2) None None Written (StopsAfter 5 ''disk full'') [105] [[105] \<mapsto> demo_key]) [105] = Some demo_key \<or>
   snd (rotate_key demo_prims demo_pq 0 (demo_random 2) None None Written (StopsAfter 5 ''disk full'') [105] [[105] \<mapsto> demo_key]) (backup_name [105] 0) = Some demo_key"
proof -
  have "identity_from_bytes demo_prims demo_pq demo_key = Some (identity_generate demo_prims demo_pq (demo_random 1))"
    using identity_bytes_roundtrip [OF demo_pq_lawful generated_ok [OF demo_pq_lawful, of "demo_random 1" demo_prims]] by (auto simp: demo_key_def demo_random_def)
  then show ?thesis using rotation_keeps_key [OF demo_pq_lawful, of "[105]" "[[105] \<mapsto> demo_key]" demo_key demo_prims _ "demo_random 2" 0 None None Written "StopsAfter 5 ''disk full''"]
    by (cases "rotate_key demo_prims demo_pq 0 (demo_random 2) None None Written (StopsAfter 5 ''disk full'') [105] [[105] \<mapsto> demo_key]") (simp add: demo_random_def)
qed

text \<open>The name of a backup has a resolution of a second and its file is truncated: two rotations in one second lose the first key.\<close>

theorem second_rotation_loses_key:
  assumes "utf8_valid name" and "d name = Some b" and "identity_from_bytes P L b = Some i"
    and "identity_to_bytes L (identity_generate P L r1) = Return b1" and "identity_from_bytes P L b1 \<noteq> None" and "b1 \<noteq> b"
    and "identity_to_bytes L (identity_generate P L r2) = Return b2" and "b2 \<noteq> b" and "dom d = {name}"
  shows "b \<notin> ran (snd (rotate_key P L now r2 None None Written Written name (snd (rotate_key P L now r1 None None Written Written name d))))"
proof -
  note ne = backup_elsewhere [OF assms(1), of now]
  obtain i1 where i1: "identity_from_bytes P L b1 = Some i1" using assms(5) by blast
  have one: "snd (rotate_key P L now r1 None None Written Written name d) = d(backup_name name now \<mapsto> b, name \<mapsto> b1)"
    using assms(2-4) by (simp add: rotate_key_def write_new_key_def write_private_key_def Let_def)
  have two: "snd (rotate_key P L now r2 None None Written Written name (d(backup_name name now \<mapsto> b, name \<mapsto> b1))) =
      d(backup_name name now \<mapsto> b, name \<mapsto> b1, backup_name name now \<mapsto> b1, name \<mapsto> b2)"
    using assms(7) i1 by (simp add: rotate_key_def write_new_key_def write_private_key_def Let_def)
  have "d x = None" if "x \<noteq> name" for x using assms(9) that by (metis domIff singletonD)
  then show ?thesis unfolding one two using assms(6,8) ne by (auto simp: ran_def split: if_splits)
qed

end
