(* ===== verification/Port_Tunnel.thy ===== *)
theory Port_Tunnel
  imports Share_Link
begin

text \<open>
  \<^verbatim>\<open>bin/seam/tunnel.rs\<close>: a local port whose connections become streams to a remote receiver: the status frames of the receiver, the shared counters, the
  reconnection with growing waits, and the handling of one stream. Reads are the chunks they return; the counters are atomic and wrap around.
\<close>

section \<open>Status frames\<close>

definition TUNNEL_STATUS_TAG :: u8 where "TUNNEL_STATUS_TAG = 0x20"
definition TUNNEL_CLOSE_TAG :: u8 where "TUNNEL_CLOSE_TAG = 0x21"
definition TUNNEL_CLOSE_ACK_TAG :: u8 where "TUNNEL_CLOSE_ACK_TAG = 0x22"
definition RECONNECT_BASE_MS :: nat where "RECONNECT_BASE_MS = 100"
definition RECONNECT_CAP_MS :: nat where "RECONNECT_CAP_MS = 30000"

record tunnel_status =
  tf_connections_active :: u32
  tf_bytes_in :: u64
  tf_bytes_out :: u64
  tf_uptime_seconds :: u64

definition status_encode :: "tunnel_status \<Rightarrow> bytes" where
  "status_encode f =
     [TUNNEL_STATUS_TAG] @ le_bytes 4 (tf_connections_active f) @ le_bytes 8 (tf_bytes_in f) @ le_bytes 8 (tf_bytes_out f) @ le_bytes 8 (tf_uptime_seconds f)"

definition status_decode :: "bytes \<Rightarrow> tunnel_status option" where
  "status_decode data =
     (if length data < 29 \<or> data ! 0 \<noteq> TUNNEL_STATUS_TAG then None
      else Some \<lparr>tf_connections_active = of_le (slice data 1 5), tf_bytes_in = of_le (slice data 5 13), tf_bytes_out = of_le (slice data 13 21),
                 tf_uptime_seconds = of_le (slice data 21 29)\<rparr>)"

section \<open>Counters\<close>

record tunnel_stats =
  connections_served :: u64
  connections_active :: u32
  stat_bytes_in :: u64
  stat_bytes_out :: u64

definition no_stats :: tunnel_stats where
  "no_stats = \<lparr>connections_served = 0, connections_active = 0, stat_bytes_in = 0, stat_bytes_out = 0\<rparr>"

text \<open>What the tasks of the client do to the counters: a connection starts, a connection ends, data passes in either direction, a control stream is read.\<close>

datatype stats_event = ConnStart | ConnEnd | DataIn nat | DataOut nat | ControlStream bytes

definition stats_step :: "stats_event \<Rightarrow> tunnel_stats \<Rightarrow> tunnel_stats" where
  "stats_step ev s =
     (case ev of
        ConnStart \<Rightarrow> s\<lparr>connections_active := connections_active s + 1, connections_served := connections_served s + 1\<rparr>
      | ConnEnd \<Rightarrow> s\<lparr>connections_active := connections_active s - 1\<rparr>
      | DataIn n \<Rightarrow> s\<lparr>stat_bytes_in := stat_bytes_in s + of_nat n\<rparr>
      | DataOut n \<Rightarrow> s\<lparr>stat_bytes_out := stat_bytes_out s + of_nat n\<rparr>
      | ControlStream data \<Rightarrow>
          (if length data < 29 then s
           else case status_decode (take 29 data) of
             None \<Rightarrow> s
           | Some f \<Rightarrow> s\<lparr>connections_active := tf_connections_active f, stat_bytes_in := tf_bytes_in f, stat_bytes_out := tf_bytes_out f\<rparr>))"

text \<open>One direction of a bridge: chunks until an empty one, which is the end of the stream; what is written and what is counted.\<close>

fun bridge :: "bytes list \<Rightarrow> u64 \<Rightarrow> bytes \<times> u64" where
  "bridge [] n = ([], n)"
| "bridge (c # cs) n = (if c = [] then ([], n) else (case bridge cs (n + of_nat (length c)) of (out, n') \<Rightarrow> (c @ out, n')))"

section \<open>Reconnection\<close>

text \<open>What happens to an attempt: the connection fails, it is established and drops later, or it is established and the tunnel is shut down; a shutdown also ends a wait.
  The result is the list of waits in milliseconds.\<close>

datatype attempt = ConnectFails bool | Drops bool | ServesUntilShutdown

fun run_port_forward :: "nat \<Rightarrow> attempt list \<Rightarrow> nat list" where
  "run_port_forward backoff_ms [] = []"
| "run_port_forward backoff_ms (ConnectFails stop # as) =
     backoff_ms # (if stop then [] else run_port_forward (min (backoff_ms * 2) RECONNECT_CAP_MS) as)"
| "run_port_forward backoff_ms (Drops stop # as) =
     RECONNECT_BASE_MS # (if stop then [] else run_port_forward (min (RECONNECT_BASE_MS * 2) RECONNECT_CAP_MS) as)"
| "run_port_forward backoff_ms (ServesUntilShutdown # as) = []"

section \<open>The receiver\<close>

text \<open>A stream of the client: nothing came, it asked to close, the target was not reached, or it was connected and got these bytes.\<close>

datatype recv_result = NothingRead | CloseRequested bytes | NotReached bytes | Connected bytes bytes

definition handle_recv_stream :: "(bytes \<Rightarrow> bool) \<Rightarrow> bytes \<Rightarrow> bytes \<Rightarrow> recv_result" where
  "handle_recv_stream dial target inp =
     (case inp of
        [] \<Rightarrow> NothingRead
      | b # rest \<Rightarrow>
          if b = TUNNEL_CLOSE_TAG then CloseRequested [TUNNEL_CLOSE_ACK_TAG]
          else if dial target then Connected target (b # rest)
          else NotReached target)"

text \<open>The command by which the client starts its receiver names port 0 of the local host.\<close>

definition tunnel_recv_command :: "bytes \<Rightarrow> bytes" where
  "tunnel_recv_command session = as_bytes ''_tunnel-recv localhost 0 --port 0 --name '' @ shell_quote session"

section \<open>Inspection of requests\<close>

definition parse_http_request_line :: "bytes \<Rightarrow> (bytes \<times> bytes) option" where
  "parse_http_request_line buf =
     (if \<not> utf8_valid buf then None
      else case text_lines buf of
        [] \<Rightarrow> None
      | first # _ \<Rightarrow> (case split_on 0x20 first of method # path # _ \<Rightarrow> Some (method, path) | _ \<Rightarrow> None))"

definition parse_http_status :: "bytes \<Rightarrow> bytes" where
  "parse_http_status buf =
     (if \<not> utf8_valid buf then as_bytes ''???''
      else case text_lines buf of
        [] \<Rightarrow> as_bytes ''???''
      | first # _ \<Rightarrow> (case split_on 0x20 first of _ # status # _ \<Rightarrow> status | _ \<Rightarrow> as_bytes ''???''))"

section \<open>Facts\<close>

lemma status_back: "status_decode (status_encode f) = Some f"
proof -
  let ?d = "status_encode f"
  have "slice ?d 1 5 = le_bytes 4 (tf_connections_active f)" "slice ?d 5 13 = le_bytes 8 (tf_bytes_in f)" "slice ?d 13 21 = le_bytes 8 (tf_bytes_out f)"
    "slice ?d 21 29 = le_bytes 8 (tf_uptime_seconds f)" "length ?d = 29" "?d ! 0 = TUNNEL_STATUS_TAG"
    by (simp_all add: status_encode_def slice_def)
  then show ?thesis by (simp add: status_decode_def of_le_le_bytes)
qed

text \<open>The receiver counts a connection only after its first byte, so its report can be 0 while the client has one open; when that ends, the client's counter wraps around.\<close>

theorem active_count_wraps:
  "connections_active (fold stats_step
     [ConnStart, ControlStream (status_encode \<lparr>tf_connections_active = 0, tf_bytes_in = i, tf_bytes_out = j, tf_uptime_seconds = t\<rparr>), ConnEnd] no_stats) = 2 ^ 32 - 1"
proof -
  let ?f = "\<lparr>tf_connections_active = 0, tf_bytes_in = i, tf_bytes_out = j, tf_uptime_seconds = t\<rparr>"
  have "length (status_encode ?f) = 29" by (simp add: status_encode_def)
  then show ?thesis using status_back [of ?f] by (simp add: stats_step_def no_stats_def)
qed

lemma bridge_all: "[] \<notin> set cs \<Longrightarrow> bridge (cs @ [[]]) n = (concat cs, n + of_nat (length (concat cs)))"
  by (induction cs arbitrary: n) (auto simp: add.assoc)

lemma doubling: "min (min (a * 2 ^ k) c * 2) c = min (a * 2 ^ Suc k) (c :: nat)"
  by (auto simp: min_def)

lemma waits_grow:
  "run_port_forward (min (RECONNECT_BASE_MS * 2 ^ j) RECONNECT_CAP_MS) (replicate n (ConnectFails False)) =
     map (\<lambda>k. min (RECONNECT_BASE_MS * 2 ^ (j + k)) RECONNECT_CAP_MS) [0 ..< n]"
proof (induction n arbitrary: j)
  case (Suc n)
  have "map (\<lambda>k. min (RECONNECT_BASE_MS * 2 ^ (j + k)) RECONNECT_CAP_MS) [0 ..< Suc n] =
      min (RECONNECT_BASE_MS * 2 ^ j) RECONNECT_CAP_MS # map (\<lambda>k. min (RECONNECT_BASE_MS * 2 ^ (Suc j + k)) RECONNECT_CAP_MS) [0 ..< n]"
    by (simp add: upt_rec [of 0 "Suc n"] map_Suc_upt [symmetric] del: upt_Suc)
  then show ?case using Suc [of "Suc j"] by (simp only: replicate_Suc run_port_forward.simps doubling if_False)
qed simp

text \<open>While a tunnel cannot connect it waits 100 ms after the first failure, twice as long after each further one and never more than 30 seconds; after a connection that
  was established and dropped it starts again at 100 ms. However attempts succeed and fail, every wait lies between 100 ms and 30 seconds.\<close>

theorem reconnect_backoff:
  "run_port_forward RECONNECT_BASE_MS (replicate n (ConnectFails False)) = map (\<lambda>k. min (100 * 2 ^ k) 30000) [0 ..< n] \<and>
   run_port_forward RECONNECT_BASE_MS (replicate n (ConnectFails False) @ [Drops False]) = map (\<lambda>k. min (100 * 2 ^ k) 30000) [0 ..< n] @ [100] \<and>
   set (run_port_forward RECONNECT_BASE_MS as) \<subseteq> {100 .. 30000}"
proof -
  have first: "run_port_forward RECONNECT_BASE_MS (replicate n (ConnectFails False)) = map (\<lambda>k. min (100 * 2 ^ k) 30000) [0 ..< n]"
    using waits_grow [of 0 n] by (simp add: RECONNECT_BASE_MS_def RECONNECT_CAP_MS_def)
  have "run_port_forward b (replicate n (ConnectFails False) @ [Drops False]) = run_port_forward b (replicate n (ConnectFails False)) @ [100]" for b
    by (induction n arbitrary: b) (simp_all add: RECONNECT_BASE_MS_def)
  moreover have "set (run_port_forward b as) \<subseteq> {100 .. 30000}" if "100 \<le> b" "b \<le> 30000" for b
    using that by (induction b as rule: run_port_forward.induct) (auto simp: RECONNECT_BASE_MS_def RECONNECT_CAP_MS_def min_def split: if_splits)
  ultimately show ?thesis using first by (simp add: RECONNECT_BASE_MS_def)
qed

text \<open>A stream reaches its target with all its bytes, unless its first byte happens to be the tag of a close request.\<close>

lemma first_byte_decides:
  assumes "dial target"
  shows "handle_recv_stream dial target (b # rest) =
    (if b = 0x21 then CloseRequested [0x22] else Connected target (b # rest))"
  using assms by (simp add: handle_recv_stream_def TUNNEL_CLOSE_TAG_def TUNNEL_CLOSE_ACK_TAG_def)

end
