(* ===== verification/Scan.thy ===== *)
theory Scan
  imports Share_Facts
begin

text \<open>
  \<^verbatim>\<open>bin/seam/scan.rs\<close>: which ports and addresses a scan probes, the bound on their number, and the results. Reading an address and resolving a name are arguments.
\<close>

definition MAX_TOTAL_PROBES :: nat where "MAX_TOTAL_PROBES = 500000"
definition MAX_CIDR_HOSTS :: nat where "MAX_CIDR_HOSTS = 1048576"

definition split_first :: "nat \<Rightarrow> ustr \<Rightarrow> (ustr \<times> ustr) option" where
  "split_first c s = (if c \<in> set s then Some (takeWhile (\<lambda>x. x \<noteq> c) s, tl (dropWhile (\<lambda>x. x \<noteq> c) s)) else None)"

definition port_part :: "ustr \<Rightarrow> nat list" where
  "port_part p =
     (let part = trim_ws p in
      if part = [] then []
      else case split_first 45 part of
        Some (first, final) \<Rightarrow>
          let lo = (case parse_num (2 ^ 16) (trim_ws first) of Some n \<Rightarrow> n | None \<Rightarrow> 0);
              hi = (case parse_num (2 ^ 16) (trim_ws final) of Some n \<Rightarrow> n | None \<Rightarrow> 0)
          in if lo \<le> hi then [lo ..< Suc hi] else []
      | None \<Rightarrow> (case parse_num (2 ^ 16) part of Some n \<Rightarrow> [n] | None \<Rightarrow> []))"

definition parse_ports :: "ustr \<Rightarrow> u16 list" where
  "parse_ports spec = map of_nat (remdups_adj (sort (concat (map port_part (split_on 44 spec)))))"

definition expand_cidr :: "ip_addr \<Rightarrow> u8 \<Rightarrow> ip_addr list" where
  "expand_cidr base prefix_len =
     (case base of
        V4 v4 \<Rightarrow>
          let base_addr = (ucast v4 :: u64);
              prefix = min (unat prefix_len) 32;
              host_bits = 32 - prefix;
              msk = (if host_bits \<ge> 32 then 0 else (push_bit host_bits (NOT 0)) AND 0xFFFFFFFF :: u64);
              network = base_addr AND msk;
              count = (push_bit host_bits 1 :: u64);
              (first, final) = (if host_bits > 0 then (network + 1, network + count - 1) else (network, network))
          in map (\<lambda>n. V4 (of_nat n)) (take MAX_CIDR_HOSTS [unat first ..< Suc (unat final)])
      | V6 _ \<Rightarrow> [base])"

definition parse_targets :: "(ustr \<Rightarrow> ip_addr option) \<Rightarrow> (ustr \<Rightarrow> ip_addr option) \<Rightarrow> ustr \<Rightarrow> ip_addr list" where
  "parse_targets parse_ip resolve target =
     (let plain = (case parse_ip target of Some ip \<Rightarrow> [ip] | None \<Rightarrow> (case resolve target of Some ip \<Rightarrow> [ip] | None \<Rightarrow> []))
      in case split_first 47 target of
           Some (base, prefix_len) \<Rightarrow>
             (case parse_ip base of
                Some ip \<Rightarrow> expand_cidr ip (case parse_num (2 ^ 8) prefix_len of Some n \<Rightarrow> of_nat n | None \<Rightarrow> 32)
              | None \<Rightarrow> plain)
         | None \<Rightarrow> plain)"

datatype scan_error = CannotResolve | NoPorts | TooManyProbes nat nat

definition scan_plan :: "ip_addr list \<Rightarrow> u16 list \<Rightarrow> scan_error + (ip_addr \<times> u16) list" where
  "scan_plan targets ports =
     (if targets = [] then Inl CannotResolve
      else if ports = [] then Inl NoPorts
      else if length targets * length ports \<le> MAX_TOTAL_PROBES then Inr (List.product targets ports)
      else Inl (TooManyProbes (length targets) (length ports)))"

section \<open>Facts\<close>

lemma port_part_bound: "n \<in> set (port_part p) \<Longrightarrow> n < 2 ^ 16"
  using parse_num_less [of "2 ^ 16"] by (fastforce simp: port_part_def Let_def split: if_splits option.splits)

lemma word_of_nat_mono: "a < b \<Longrightarrow> b < 2 ^ 16 \<Longrightarrow> (of_nat a :: u16) < of_nat b"
  by (simp add: word_less_nat_alt unat_of_nat_id)

lemma distinct_adj_sorted: "sorted xs \<Longrightarrow> distinct (remdups_adj (xs :: nat list))"
proof (induction xs rule: remdups_adj.induct)
  case (3 x y xs)
  then show ?case by (auto simp: order_antisym)
qed simp_all

text \<open>The ports of a scan are distinct and in ascending order, and they are exactly those the parts of the specification name.\<close>

lemma ports_sorted: "sorted_wrt (<) (parse_ports spec)" and ports_exact: "set (parse_ports spec) = of_nat ` (\<Union>p \<in> set (split_on 44 spec). set (port_part p))"
proof -
  let ?ns = "remdups_adj (sort (concat (map port_part (split_on 44 spec))))"
  have "sorted_wrt (<) ?ns" by (simp add: strict_sorted_iff distinct_adj_sorted)
  moreover have "(of_nat a :: u16) < of_nat b" if "a \<in> set ?ns" "b \<in> set ?ns" "a < b" for a b
    using that port_part_bound by (intro word_of_nat_mono) auto
  ultimately have "sorted_wrt (\<lambda>a b. (of_nat a :: u16) < of_nat b) ?ns"
    using sorted_wrt_mono_rel [of ?ns "(<)" "\<lambda>a b. (of_nat a :: u16) < of_nat b"] by blast
  then show "sorted_wrt (<) (parse_ports spec)" by (simp add: parse_ports_def sorted_wrt_map)
  show "set (parse_ports spec) = of_nat ` (\<Union>p \<in> set (split_on 44 spec). set (port_part p))" by (auto simp: parse_ports_def)
qed

lemma network_address:
  assumes "h < 32"
  shows "unat (ucast (v :: u32) AND (push_bit h (NOT 0) AND 0xFFFFFFFF) :: u64) = unat v div 2 ^ h * 2 ^ h"
proof -
  have low: "(0xFFFFFFFF :: u64) = mask 32" by (simp add: mask_eq_exp_minus_1)
  have eq: "ucast v AND (push_bit h (NOT 0) AND 0xFFFFFFFF) = (push_bit h (drop_bit h (ucast v)) :: u64)"
    unfolding low by (rule bit_word_eqI) (auto simp: bit_simps dest: bit_imp_le_length)
  have wide: "unat (ucast v :: u64) = unat v" "unat v < 2 ^ 64"
    using unsigned_less [of v, where 'a = nat] by (simp_all add: unsigned_ucast_eq take_bit_nat_eq_self)
  have "unat v div 2 ^ h * 2 ^ h < 2 ^ 64" by (rule le_less_trans [OF div_times_less_eq_dividend wide(2)])
  then show ?thesis unfolding eq
    unfolding unsigned_push_bit_eq unat_drop_bit_eq wide(1) push_bit_eq_mult [where 'a = nat] drop_bit_eq_div [where 'a = nat]
    by (simp add: take_bit_nat_eq_self)
qed

lemma network_bound: "h \<le> 32 \<Longrightarrow> unat (v :: u32) div 2 ^ h * 2 ^ h + 2 ^ h \<le> 2 ^ 32"
proof -
  assume h: "h \<le> 32"
  have "unat v < 2 ^ (32 - h) * 2 ^ h" using unsigned_less [of v, where 'a = nat] h by (simp flip: power_add)
  then have "unat v div 2 ^ h < 2 ^ (32 - h)" by (rule less_mult_imp_div_less)
  then have "(unat v div 2 ^ h + 1) * 2 ^ h \<le> 2 ^ (32 - h) * 2 ^ h" by (intro mult_right_mono) simp_all
  then show ?thesis using h by (simp add: algebra_simps flip: power_add)
qed

lemma expand_range:
  assumes "h = 32 - min (unat p) 32" and "0 < h" and "h \<le> 20"
  shows "expand_cidr (V4 v) p = map (\<lambda>n. V4 (of_nat n)) [unat v div 2 ^ h * 2 ^ h + 1 ..< unat v div 2 ^ h * 2 ^ h + 2 ^ h]"
proof -
  define n :: u64 where "n = ucast v AND (push_bit h (NOT 0) AND 0xFFFFFFFF)"
  let ?N = "unat v div 2 ^ h * 2 ^ h"
  have n: "unat n = ?N" unfolding n_def by (rule network_address) (use assms in simp)
  have pow: "(1 :: nat) \<le> 2 ^ h" "(2 :: nat) ^ h \<le> 2 ^ 20" using power_increasing [OF assms(3), of "2 :: nat"] by simp_all
  have top: "?N + 2 ^ h \<le> 2 ^ 32" by (rule network_bound) (use assms in simp)
  have "(of_nat (?N + 2 ^ h - 1) :: u64) = of_nat (?N + 2 ^ h) - of_nat 1" by (rule of_nat_diff) (rule trans_le_add2 [OF pow(1)])
  then have "n + 1 = of_nat (?N + 1)" "n + push_bit h 1 - 1 = of_nat (?N + 2 ^ h - 1)" unfolding n [symmetric] by (simp_all add: push_bit_eq_mult)
  then have ends: "unat (n + 1) = ?N + 1" "unat (n + push_bit h 1 - 1) = ?N + 2 ^ h - 1"
    using top pow by (simp_all only:) (rule unat_of_nat_id; simp)+
  have "expand_cidr (V4 v) p = map (\<lambda>k. V4 (of_nat k)) (take MAX_CIDR_HOSTS [unat (n + 1) ..< Suc (unat (n + push_bit h 1 - 1))])"
    using assms(2,3) unfolding expand_cidr_def ip_addr.case Let_def assms(1) [symmetric] n_def by simp
  also have "\<dots> = map (\<lambda>k. V4 (of_nat k)) [?N + 1 ..< ?N + 2 ^ h]"
    unfolding ends using pow by (simp add: MAX_CIDR_HOSTS_def)
  finally show ?thesis .
qed

lemma in_block: "(n :: nat) \<in> {a div b * b + 1 ..< a div b * b + b} \<longleftrightarrow> 0 < b \<and> n div b = a div b \<and> n mod b \<noteq> 0"
proof
  assume n: "n \<in> {a div b * b + 1 ..< a div b * b + b}"
  define r where "r = n - a div b * b"
  have "n = r + a div b * b" "0 < r" "r < b" using n by (auto simp: r_def)
  then show "0 < b \<and> n div b = a div b \<and> n mod b \<noteq> 0" by simp
next
  assume n: "0 < b \<and> n div b = a div b \<and> n mod b \<noteq> 0"
  have "n = a div b * b + n mod b" "n mod b < b" using n div_mult_mod_eq [of n b] by simp_all
  with n show "n \<in> {a div b * b + 1 ..< a div b * b + b}" by (metis atLeastLessThan_iff nat_add_left_cancel_le nat_add_left_cancel_less less_one linorder_not_less)
qed

lemma full_prefix: "32 \<le> unat p \<Longrightarrow> expand_cidr (V4 v) p = [V4 v]"
proof -
  assume "32 \<le> unat p"
  then have "32 - min (unat p) 32 = 0" by simp
  moreover have n: "unat (ucast v AND 0xFFFFFFFF :: u64) = unat v" using network_address [of 0 v] by simp
  moreover have "ucast (ucast v AND 0xFFFFFFFF :: u64) = v" using arg_cong [OF n, of "of_nat :: nat \<Rightarrow> u32"] by simp
  ultimately show ?thesis by (simp add: expand_cidr_def Let_def MAX_CIDR_HOSTS_def)
qed

text \<open>For an IPv4 network of at most \<open>2 ^ 20\<close> addresses a scan probes, each once and in ascending order, exactly the addresses that share the prefix with the
  given one, except the network address itself; a full prefix names the one address.\<close>

theorem cidr_members:
  assumes "h = 32 - min (unat p) 32" and "h \<le> 20"
  shows "distinct (expand_cidr (V4 v) p) \<and>
    (V4 w \<in> set (expand_cidr (V4 v) p) \<longleftrightarrow> drop_bit h w = drop_bit h v \<and> (h = 0 \<or> take_bit h w \<noteq> 0))"
proof (cases "h = 0")
  case True
  then show ?thesis using full_prefix [of p v] assms(1) by auto
next
  case False
  let ?N = "unat v div 2 ^ h * 2 ^ h"
  have range: "expand_cidr (V4 v) p = map (\<lambda>n. V4 (of_nat n)) [?N + 1 ..< ?N + 2 ^ h]" using expand_range assms False by blast
  have small: "unat (of_nat n :: u32) = n" if "n \<in> set [?N + 1 ..< ?N + 2 ^ h]" for n
    using that network_bound [of h v] assms by (intro unat_of_nat_id) auto
  then have "inj_on (\<lambda>n. V4 (of_nat n :: u32)) (set [?N + 1 ..< ?N + 2 ^ h])" 
  proof (intro inj_onI)
    fix a b assume ab: "a \<in> set [?N + 1 ..< ?N + 2 ^ h]" "b \<in> set [?N + 1 ..< ?N + 2 ^ h]" "V4 (of_nat a) = V4 (of_nat b)"
    then have "unat (of_nat a :: u32) = unat (of_nat b :: u32)" by (simp only: ip_addr.inject)
    then show "a = b" using small [OF ab(1)] small [OF ab(2)] by (simp only:)
  qed
  then have "distinct (expand_cidr (V4 v) p)" unfolding range by (simp add: distinct_map)
  moreover have "V4 w \<in> set (expand_cidr (V4 v) p) \<longleftrightarrow> unat w \<in> {?N + 1 ..< ?N + 2 ^ h}"
  proof
    assume "V4 w \<in> set (expand_cidr (V4 v) p)"
    then obtain n where "n \<in> set [?N + 1 ..< ?N + 2 ^ h]" "w = of_nat n" unfolding range by auto
    then show "unat w \<in> {?N + 1 ..< ?N + 2 ^ h}" using small [of n] by simp
  next
    assume "unat w \<in> {?N + 1 ..< ?N + 2 ^ h}"
    then have "V4 (of_nat (unat w)) \<in> set (expand_cidr (V4 v) p)" unfolding range set_map by (intro imageI) simp
    then show "V4 w \<in> set (expand_cidr (V4 v) p)" by simp
  qed
  moreover have "drop_bit h w = drop_bit h v \<longleftrightarrow> unat w div 2 ^ h = unat v div 2 ^ h"
    by (simp only: word_unat_eq_iff unat_drop_bit_eq drop_bit_eq_div [where 'a = nat])
  moreover have "take_bit h w = 0 \<longleftrightarrow> unat w mod 2 ^ h = 0"
    by (simp only: word_unat_eq_iff unsigned_take_bit_eq take_bit_eq_mod [where 'a = nat] unsigned_0)
  ultimately show ?thesis using False in_block [of "unat w" "unat v" "2 ^ h"] by auto
qed

theorem cidr_members_witness:
  "V4 0xC0A80101 \<in> set (expand_cidr (V4 0xC0A801FF) 24) \<and> V4 0xC0A80201 \<notin> set (expand_cidr (V4 0xC0A801FF) 24)"
proof -
  have h: "8 = 32 - min (unat (24 :: u8)) 32" "(8 :: nat) \<le> 20" by simp_all
  have "drop_bit 8 (0xC0A80101 :: u32) = drop_bit 8 0xC0A801FF" "take_bit 8 (0xC0A80101 :: u32) \<noteq> 0" "drop_bit 8 (0xC0A80201 :: u32) \<noteq> drop_bit 8 0xC0A801FF"
    by (simp_all add: drop_bit_eq_div take_bit_eq_mod)
  then show ?thesis using cidr_members [OF h, of "0xC0A801FF" "0xC0A80101"] cidr_members [OF h, of "0xC0A801FF" "0xC0A80201"] by blast
qed

text \<open>A part of a port specification that is not a range of numbers is not refused: what cannot be read counts as 0.\<close>

lemma open_range_starts_at_zero: "port_part (ustr ''-3'') = [0, 1, 2, 3]"
proof -
  have "ustr (show_nat 3) = ustr ''3''" by (simp add: show_nat.simps ustr_def)
  then have "parse_num 65536 (ustr ''3'') = Some 3" using parse_num_back [of 3 65536] by simp
  moreover have "parse_num 65536 [] = None" by (simp add: parse_num_def ascii_bytes_def parse_unsigned_def)
  moreover have "trim_ws (ustr ''-3'') = ustr ''-3''" "trim_ws (ustr ''3'') = ustr ''3''" "trim_ws [] = []" "split_first 45 (ustr ''-3'') = Some ([], ustr ''3'')"
    by (simp_all add: trim_ws_def ustr_def is_whitespace_def split_first_def)
  ultimately show ?thesis by (simp add: port_part_def Let_def ustr_def upt_rec)
qed

text \<open>A scan probes every pair of an address and a port once, and never more than the bound.\<close>

lemma plan_bounded: "scan_plan targets ports = Inr ps \<Longrightarrow> length ps \<le> 500000 \<and> set ps = set targets \<times> set ports"
  by (auto simp: scan_plan_def MAX_TOTAL_PROBES_def split: if_splits)

end
