(* ===== verification/Serve_Admission.thy ===== *)
theory Serve_Admission
  imports Share_Facts
begin

text \<open>
  \<^verbatim>\<open>bin/seam/serve.rs\<close>: which clients a server lets in. The authorised keys come from a file and from the \<^verbatim>\<open>.pub\<close> files of a directory; a connection is
  admitted if its key is among them and the limit on connections is not reached. Also the slots of \<^verbatim>\<open>bin/seam/fwd.rs\<close> for forwarded connections.
\<close>

section \<open>Authorised keys\<close>

definition strip_cr_u :: "ustr \<Rightarrow> ustr" where
  "strip_cr_u line = (if line \<noteq> [] \<and> last line = 13 then butlast line else line)"

definition ustr_lines :: "ustr \<Rightarrow> ustr list" where
  "ustr_lines t = (let parts = split_on LF t in map strip_cr_u (butlast parts) @ (if last parts = [] then [] else [last parts]))"

datatype auth_error = CannotReadKeys ustr | InvalidHex nat | KeyLength nat nat | CannotReadDir

text \<open>The keys as a list without repetitions; the numbers of lines start at 1.\<close>

fun auth_lines :: "text_lib \<Rightarrow> nat \<Rightarrow> ustr list \<Rightarrow> bytes list \<Rightarrow> auth_error + bytes list" where
  "auth_lines T n [] keys = Inr keys"
| "auth_lines T n (l # ls) keys =
     (let line = trim_ws l in
      if line = [] \<or> hd line = HASH_SIGN then auth_lines T (n + 1) ls keys
      else case line_hex T line of
        None \<Rightarrow> Inl (InvalidHex (n + 1))
      | Some b \<Rightarrow> if length b \<noteq> 32 then Inl (KeyLength (n + 1) (length b)) else auth_lines T (n + 1) ls (List.insert b keys))"

definition parse_auth_keys_content :: "text_lib \<Rightarrow> ustr \<Rightarrow> auth_error + bytes list" where
  "parse_auth_keys_content T content = auth_lines T 0 (ustr_lines content) []"

definition load_auth_keys_file :: "text_lib \<Rightarrow> ustr + ustr \<Rightarrow> auth_error + bytes list" where
  "load_auth_keys_file T f = (case f of Inl e \<Rightarrow> Inl (CannotReadKeys e) | Inr content \<Rightarrow> parse_auth_keys_content T content)"

definition is_pub :: "ustr \<Rightarrow> bool" where
  "is_pub name \<longleftrightarrow> 4 < length name \<and> drop (length name - 4) name = ustr ''.pub''"

text \<open>The entries of a directory in the order the operating system gives them, \<open>None\<close> one that cannot be read.\<close>

fun load_auth_keys_dir :: "text_lib \<Rightarrow> (ustr \<times> (ustr + ustr)) option list \<Rightarrow> bytes list \<Rightarrow> auth_error + bytes list" where
  "load_auth_keys_dir T [] keys = Inr keys"
| "load_auth_keys_dir T (None # es) keys = Inl CannotReadDir"
| "load_auth_keys_dir T (Some (name, f) # es) keys =
     (if is_pub name
      then (case load_auth_keys_file T f of Inl e \<Rightarrow> Inl e | Inr ks \<Rightarrow> load_auth_keys_dir T es (List.union keys ks))
      else load_auth_keys_dir T es keys)"

section \<open>Admission\<close>

record admission =
  auth_enabled :: bool
  allowed_keys :: "bytes list"
  max_conn :: nat

definition admission_new :: "text_lib \<Rightarrow> (ustr + ustr) option \<Rightarrow> (ustr \<times> (ustr + ustr)) option list option option \<Rightarrow> nat \<Rightarrow> auth_error + admission" where
  "admission_new T auth_file auth_dir limit =
     (case (case auth_file of None \<Rightarrow> Inr [] | Some f \<Rightarrow> load_auth_keys_file T f) of
        Inl e \<Rightarrow> Inl e
      | Inr file_keys \<Rightarrow>
          (case (case auth_dir of None \<Rightarrow> Inr [] | Some None \<Rightarrow> Inl CannotReadDir | Some (Some es) \<Rightarrow> load_auth_keys_dir T es []) of
             Inl e \<Rightarrow> Inl e
           | Inr dir_keys \<Rightarrow>
               Inr \<lparr>auth_enabled = (auth_file \<noteq> None \<or> auth_dir \<noteq> None), allowed_keys = List.union file_keys dir_keys, max_conn = limit\<rparr>))"

text \<open>A connection arrives with the key its handshake gave, if any, or a served connection ends.\<close>

datatype serve_event = Arrives nat "bytes option" | Disconnects nat

record serve_state =
  sv_active :: "(nat \<times> bytes option) list"
  sv_served :: "(nat \<times> bytes option) list"

definition serve_step :: "admission \<Rightarrow> serve_event \<Rightarrow> serve_state \<Rightarrow> serve_state" where
  "serve_step A ev s =
     (case ev of
        Arrives i pk \<Rightarrow>
          if auth_enabled A \<and> (case pk of None \<Rightarrow> True | Some k \<Rightarrow> k \<notin> set (allowed_keys A)) then s
          else if max_conn A > 0 \<and> length (sv_active s) + 1 > max_conn A then s
          else s\<lparr>sv_active := (i, pk) # sv_active s, sv_served := (i, pk) # sv_served s\<rparr>
      | Disconnects i \<Rightarrow> s\<lparr>sv_active := filter (\<lambda>c. fst c \<noteq> i) (sv_active s)\<rparr>)"

section \<open>Forward slots\<close>

definition MAX_CONCURRENT_FORWARDS :: nat where "MAX_CONCURRENT_FORWARDS = 256"

text \<open>A slot is taken at once when one is free; \<open>None\<close> is a caller that waits.\<close>

definition acquire_forward_slot :: "nat \<Rightarrow> nat option" where
  "acquire_forward_slot free = (if free > 0 then Some (free - 1) else None)"

section \<open>Facts\<close>

text \<open>The lines of a file of authorised keys: a key in hexadecimal digits, a comment, or nothing, with white space before and after.\<close>

datatype key_file_line = KeyLine ustr bytes ustr | CommentLine ustr ustr | BlankLine ustr

fun key_file_text :: "text_lib \<Rightarrow> key_file_line \<Rightarrow> ustr" where
  "key_file_text T (KeyLine a k b) = a @ ustr (t_hex T k) @ b"
| "key_file_text T (CommentLine a c) = a @ HASH_SIGN # c"
| "key_file_text T (BlankLine a) = a"

definition padding :: "ustr \<Rightarrow> bool" where
  "padding a \<longleftrightarrow> list_all is_whitespace a \<and> LF \<notin> set a"

fun key_file_line_ok :: "key_file_line \<Rightarrow> bool" where
  "key_file_line_ok (KeyLine a k b) \<longleftrightarrow> padding a \<and> padding b \<and> length k = 32"
| "key_file_line_ok (CommentLine a c) \<longleftrightarrow> padding a \<and> LF \<notin> set c"
| "key_file_line_ok (BlankLine a) \<longleftrightarrow> padding a"

fun line_keys :: "key_file_line \<Rightarrow> bytes list" where
  "line_keys (KeyLine a k b) = [k]"
| "line_keys _ = []"

definition key_file :: "text_lib \<Rightarrow> key_file_line list \<Rightarrow> ustr" where
  "key_file T ls = concat (map (\<lambda>l. l @ [LF]) (map (key_file_text T) ls))"

lemma hex_line:
  assumes "hex_ok T" and "length k = 32"
  shows "trim_ws (ustr (t_hex T k)) = ustr (t_hex T k)" "ustr (t_hex T k) \<noteq> []" "hd (ustr (t_hex T k)) \<noteq> HASH_SIGN" "LF \<notin> set (ustr (t_hex T k))"
    "strip_cr_u (ustr (t_hex T k)) = ustr (t_hex T k)"
proof -
  let ?w = "ustr (t_hex T k)"
  have chars: "\<forall>c \<in> set ?w. c \<in> {48 .. 57} \<union> {97 .. 102}" using assms(1) by (force simp: hex_ok_def ustr_def)
  have "length ?w = 64" using assms by (simp add: ustr_def hex_ok_def)
  then have ne: "?w \<noteq> []" by auto
  show "?w \<noteq> []" by (rule ne)
  then have ends: "hd ?w \<in> {48 .. 57} \<union> {97 .. 102}" "last ?w \<in> {48 .. 57} \<union> {97 .. 102}" using chars by auto
  show "trim_ws ?w = ?w" by (rule trim_id [OF ne]) (use ends in \<open>auto simp: is_whitespace_def\<close>)
  show "hd ?w \<noteq> HASH_SIGN" "LF \<notin> set ?w" "strip_cr_u ?w = ?w" using ends chars by (auto simp: HASH_SIGN_def LF_def strip_cr_u_def)
qed

lemma trim_padding: "padding a \<Longrightarrow> trim_ws (a @ x) = trim_ws x" "padding b \<Longrightarrow> trim_ws (x @ b) = trim_ws x"
proof -
  have drop: "dropWhile is_whitespace (a @ x) = dropWhile is_whitespace x" if "list_all is_whitespace a" for a x
    using that by (simp add: dropWhile_append list_all_iff)
  show "padding a \<Longrightarrow> trim_ws (a @ x) = trim_ws x" by (simp add: trim_ws_def padding_def drop)
  assume "padding b"
  then have b: "list_all is_whitespace (rev b)" "list_all is_whitespace b" by (simp_all add: padding_def list_all_iff)
  show "trim_ws (x @ b) = trim_ws x"
  proof (cases "list_all is_whitespace x")
    case True
    then have e: "dropWhile is_whitespace (x @ b) = []" "dropWhile is_whitespace x = []" using b by (auto simp: list_all_iff dropWhile_eq_Nil_conv)
    show ?thesis unfolding trim_ws_def e ..
  next
    case False
    then have "dropWhile is_whitespace (x @ b) = dropWhile is_whitespace x @ b" by (auto simp: dropWhile_append list_all_iff)
    then show ?thesis using drop [OF b(1)] by (simp add: trim_ws_def)
  qed
qed

lemma trim_cr: "trim_ws (strip_cr_u l) = trim_ws l"
proof (cases "l \<noteq> [] \<and> last l = 13")
  case True
  then have "l = butlast l @ [13]" by (metis append_butlast_last_id)
  moreover have "padding [13]" by (simp add: padding_def is_whitespace_def LF_def)
  ultimately show ?thesis using True trim_padding(2) [of "[13]" "butlast l"] by (simp add: strip_cr_u_def)
qed (auto simp: strip_cr_u_def)

lemma trim_comment: "padding a \<Longrightarrow> trim_ws (a @ HASH_SIGN # c) \<noteq> [] \<and> hd (trim_ws (a @ HASH_SIGN # c)) = HASH_SIGN"
proof -
  assume "padding a"
  then have trim: "trim_ws (a @ HASH_SIGN # c) = rev (dropWhile is_whitespace (rev c @ [HASH_SIGN]))"
    by (simp add: trim_padding) (simp add: trim_ws_def is_whitespace_def HASH_SIGN_def)
  have "\<not> is_whitespace HASH_SIGN" by (simp add: is_whitespace_def HASH_SIGN_def)
  then have "\<exists>x. dropWhile is_whitespace (rev c @ [HASH_SIGN]) = x @ [HASH_SIGN]" by (auto simp: dropWhile_append)
  then obtain x where "trim_ws (a @ HASH_SIGN # c) = HASH_SIGN # rev x" unfolding trim by auto
  then show ?thesis by simp
qed

lemma auth_lines_keys:
  assumes "hex_ok T" and "\<forall>l \<in> set ls. key_file_line_ok l"
  shows "\<exists>keys'. auth_lines T n (map (\<lambda>l. strip_cr_u (key_file_text T l)) ls) keys = Inr keys' \<and> set keys' = set keys \<union> set (concat (map line_keys ls))"
  using assms(2)
proof (induction ls arbitrary: n keys)
  case (Cons l ls)
  have IH: "\<exists>keys'. auth_lines T (n + 1) (map (\<lambda>l. strip_cr_u (key_file_text T l)) ls) keys = Inr keys' \<and>
      set keys' = set keys \<union> set (concat (map line_keys ls))" for keys by (rule Cons.IH) (use Cons.prems in simp)
  show ?case
  proof (cases l)
    case (KeyLine a k b)
    then have k: "length k = 32" "trim_ws (key_file_text T l) = ustr (t_hex T k)"
      using Cons.prems hex_line(1) [OF assms(1), of k] by (simp_all add: trim_padding flip: append_assoc)
    then show ?thesis using KeyLine IH [of "List.insert k keys"] hex_line(2,3) [OF assms(1) k(1)] hex_back [OF assms(1), of k]
      by (auto simp: Let_def trim_cr)
  next
    case (CommentLine a c)
    then show ?thesis using Cons.prems IH [of keys] trim_comment [of a c] by (auto simp: Let_def trim_cr)
  next
    case (BlankLine a)
    then have "trim_ws (key_file_text T l) = []" using Cons.prems trim_padding(1) [of a "[]"] by (simp add: trim_ws_def)
    then show ?thesis using BlankLine IH [of keys] by (simp add: Let_def trim_cr)
  qed
qed simp

lemma key_lines:
  assumes "hex_ok T" and "\<forall>l \<in> set ls. key_file_line_ok l"
  shows "ustr_lines (key_file T ls) = map (\<lambda>l. strip_cr_u (key_file_text T l)) ls"
proof -
  have "LF \<notin> set (key_file_text T l)" if "key_file_line_ok l" for l
    using that hex_line(4) [OF assms(1)] by (cases l) (auto simp: padding_def HASH_SIGN_def LF_def)
  then have "split_on LF (key_file T ls) = map (key_file_text T) ls @ [[]]" unfolding key_file_def using assms(2) by (intro split_on_lines) auto
  then show ?thesis by (simp add: ustr_lines_def)
qed

definition admission_ok :: "admission \<Rightarrow> serve_state \<Rightarrow> bool" where
  "admission_ok A s \<longleftrightarrow>
     (auth_enabled A \<longrightarrow> snd ` set (sv_served s) \<subseteq> Some ` set (allowed_keys A)) \<and> (0 < max_conn A \<longrightarrow> length (sv_active s) \<le> max_conn A)"

lemma serve_step_ok: "admission_ok A s \<Longrightarrow> admission_ok A (serve_step A ev s)"
  using le_trans [OF length_filter_le] by (cases ev) (auto simp: serve_step_def admission_ok_def split: option.splits)

text \<open>C35: A server started with a file of authorised keys serves exactly the clients that prove one of them. The file may have comments and blank lines anywhere, and white space, carriage returns
  included, around its keys, which are written in lower-case hexadecimal digits. Whatever connections arrive and end, in whatever order, every connection the server ever served came with a key of the file, and with a limit
  above 0 the number of open connections never exceeds it; and a client with a key of the file is served when it arrives while a place is free, which is always so with the limit 0.\<close>

theorem serve_admits_authorised:
  assumes "hex_ok T" and "\<forall>l \<in> set ls. key_file_line_ok l" and "admission_new T (Some (Inr (key_file T ls))) None limit = r"
    and "s = fold (serve_step (projr r)) evs \<lparr>sv_active = [], sv_served = []\<rparr>" and "ks = concat (map line_keys ls)"
  shows "\<not> isl r \<and> snd ` set (sv_served s) \<subseteq> Some ` set ks \<and> (0 < limit \<longrightarrow> length (sv_active s) \<le> limit) \<and>
    (k \<in> set ks \<and> (limit = 0 \<or> length (sv_active s) < limit) \<longrightarrow> (i, Some k) \<in> set (sv_active (serve_step (projr r) (Arrives i (Some k)) s)))"
proof -
  obtain keys where keys: "auth_lines T 0 (map (\<lambda>l. strip_cr_u (key_file_text T l)) ls) [] = Inr keys" "set keys = set ks"
    using auth_lines_keys [OF assms(1,2), of 0 "[]"] assms(5) by auto
  then have r: "r = Inr \<lparr>auth_enabled = True, allowed_keys = List.union keys [], max_conn = limit\<rparr>"
    using assms(3) key_lines [OF assms(1,2)] by (simp add: admission_new_def load_auth_keys_file_def parse_auth_keys_content_def)
  have "admission_ok A s \<Longrightarrow> admission_ok A (fold (serve_step A) evs s)" for A s by (induction evs arbitrary: s) (simp_all add: serve_step_ok)
  then have "admission_ok (projr r) s" unfolding assms(4) by (simp add: admission_ok_def)
  then show ?thesis using keys(2) by (auto simp: r admission_ok_def serve_step_def)
qed

definition demo_key_lines :: "key_file_line list" where
  "demo_key_lines = [CommentLine [] (ustr '' clients''), BlankLine [32], KeyLine [9] (replicate 32 7) [32, 13]]"

theorem serve_admits_authorised_witness:
  "(1, Some (replicate 32 7)) \<in> set (sv_active (serve_step (projr (admission_new small_hex (Some (Inr (key_file small_hex demo_key_lines))) None 0))
     (Arrives 1 (Some (replicate 32 7))) \<lparr>sv_active = [], sv_served = []\<rparr>)) \<and>
   (2, Some (replicate 32 8)) \<notin> set (sv_served (fold (serve_step (projr (admission_new small_hex (Some (Inr (key_file small_hex demo_key_lines))) None 0)))
     [Arrives 2 (Some (replicate 32 8))] \<lparr>sv_active = [], sv_served = []\<rparr>))"
proof -
  have ok: "\<forall>l \<in> set demo_key_lines. key_file_line_ok l"
    by (simp add: demo_key_lines_def padding_def is_whitespace_def LF_def ustr_def)
  have keys: "concat (map line_keys demo_key_lines) = [replicate 32 7]" by (simp add: demo_key_lines_def)
  have other: "replicate 32 (8 :: u8) \<noteq> replicate 32 7" by simp
  let ?r = "admission_new small_hex (Some (Inr (key_file small_hex demo_key_lines))) None 0"
  let ?s = "\<lambda>evs. fold (serve_step (projr ?r)) evs \<lparr>sv_active = [], sv_served = []\<rparr>"
  note run = serve_admits_authorised [OF small_hex_ok ok refl refl refl, of 0, unfolded keys]
  have "snd ` set (sv_served (?s [Arrives 2 (Some (replicate 32 8))])) \<subseteq> Some ` set [replicate 32 7]" using run by blast
  then have "(2, Some (replicate 32 8)) \<notin> set (sv_served (?s [Arrives 2 (Some (replicate 32 8))]))" using other by force
  moreover have "(1, Some (replicate 32 7)) \<in> set (sv_active (serve_step (projr ?r) (Arrives 1 (Some (replicate 32 7))) (?s [])))"
    using run [of "[]" "replicate 32 7" 1] by simp
  ultimately show ?thesis by simp
qed

end
