(* ===== verification/Route_Hop.thy ===== *)
theory Route_Hop
  imports Share_Facts
begin

text \<open>
  \<^verbatim>\<open>bin/seam/route.rs\<close>: a route through relays. The client asks a relay for the next hop and dials the port the relay opens for it; the relay passes datagrams on between
  that port and the next hop. The start of the next relay over SSH, the reading of a socket address and the binding of a socket are arguments.
\<close>

section \<open>A relay answers a request\<close>

definition hop_request :: "bytes \<Rightarrow> bytes" where
  "hop_request hop = u16_to_be (of_nat (length hop)) @ hop @ u16_to_be 0"

definition hop_response :: "u16 \<Rightarrow> bytes \<Rightarrow> bytes \<Rightarrow> bytes" where
  "hop_response proxy_port x25519 kem =
     [1] @ u16_to_be proxy_port @ u16_to_be (of_nat (length x25519)) @ x25519 @ u16_to_be (of_nat (length kem)) @ kem"

datatype hop_error = HopEof | InvalidHostLen nat | HopNotUtf8 | BootstrapFailed | BadSeamLine line_error | BadNextAddr | BindFailed

record 'k relay_env =
  re_text :: text_lib
  re_kem_of :: "bytes \<Rightarrow> 'k option"
  re_kem_to :: "'k \<Rightarrow> bytes"
  re_start :: "bytes option \<times> bytes \<Rightarrow> ustr option"
  re_addr :: "bytes \<Rightarrow> socket_addr option"
  re_bind :: "u16 option"

definition do_handle_hop_stream :: "'k relay_env \<Rightarrow> bytes \<Rightarrow> hop_error + socket_addr \<times> bytes" where
  "do_handle_hop_stream E inp =
     (case read_exact 2 inp of
        None \<Rightarrow> Inl HopEof
      | Some (len_buf, rest) \<Rightarrow>
          let host_len = unat (of_be len_buf :: u16)
          in if host_len = 0 \<or> host_len > 512 then Inl (InvalidHostLen host_len)
             else case read_exact host_len rest of
               None \<Rightarrow> Inl HopEof
             | Some (next_host, rest') \<Rightarrow>
                 if \<not> utf8_valid next_host then Inl HopNotUtf8
                 else case read_exact 2 rest' of
                   None \<Rightarrow> Inl HopEof
                 | Some _ \<Rightarrow>
                     (case re_start E (parse_userhost next_host) of
                        None \<Rightarrow> Inl BootstrapFailed
                      | Some line \<Rightarrow>
                          (case parse_seam_line (re_text E) (re_kem_of E) line of
                             Inl e \<Rightarrow> Inl (BadSeamLine e)
                           | Inr (next_port, x25519, kem_pk) \<Rightarrow>
                               (case re_addr E (target_of (snd (parse_userhost next_host)) next_port) of
                                  None \<Rightarrow> Inl BadNextAddr
                                | Some next_addr \<Rightarrow>
                                    (case re_bind E of
                                       None \<Rightarrow> Inl BindFailed
                                     | Some proxy_port \<Rightarrow> Inr (next_addr, hop_response proxy_port x25519 (re_kem_to E kem_pk)))))))"

definition handle_hop_stream :: "'k relay_env \<Rightarrow> bytes \<Rightarrow> bytes" where
  "handle_hop_stream E inp = (case do_handle_hop_stream E inp of Inl _ \<Rightarrow> [0] | Inr (_, resp) \<Rightarrow> resp)"

section \<open>The datagram proxy of a relay\<close>

datatype udp_event = Datagram bytes socket_addr | RecvError | IdleTimeout

fun udp_proxy :: "socket_addr \<Rightarrow> socket_addr option \<Rightarrow> udp_event list \<Rightarrow> (bytes \<times> socket_addr) list" where
  "udp_proxy next_relay client [] = []"
| "udp_proxy next_relay client (RecvError # evs) = []"
| "udp_proxy next_relay client (IdleTimeout # evs) = []"
| "udp_proxy next_relay client (Datagram data from_addr # evs) =
     (if from_addr = next_relay
      then (case client of Some ca \<Rightarrow> [(data, ca)] | None \<Rightarrow> []) @ udp_proxy next_relay client evs
      else (data, next_relay) # udp_proxy next_relay (Some from_addr) evs)"

section \<open>The client\<close>

datatype route_error = NoRelay | FirstHopFailed | ReplyEof | HopFailed bytes | X25519Invalid nat | KemOversized nat | KemInvalid | DialFailed

text \<open>The reply to a hop is read with bounds on the lengths of the keys, the reply for the destination without.\<close>

definition read_reply :: "bool \<Rightarrow> (bytes \<Rightarrow> 'k option) \<Rightarrow> bytes \<Rightarrow> bytes \<Rightarrow> route_error + u16 \<times> bytes \<times> 'k" where
  "read_reply bounded kem_of hop inp =
     (case read_exact 1 inp of
        None \<Rightarrow> Inl ReplyEof
      | Some (status, r1) \<Rightarrow>
          if hd status \<noteq> 1 then Inl (HopFailed hop)
          else case read_exact 2 r1 of
            None \<Rightarrow> Inl ReplyEof
          | Some (port_buf, r2) \<Rightarrow>
              (case read_exact 2 r2 of
                 None \<Rightarrow> Inl ReplyEof
               | Some (xl, r3) \<Rightarrow>
                   let x25519_len = unat (of_be xl :: u16)
                   in if bounded \<and> x25519_len \<noteq> 32 then Inl (X25519Invalid x25519_len)
                      else case read_exact x25519_len r3 of
                        None \<Rightarrow> Inl ReplyEof
                      | Some (x25519, r4) \<Rightarrow>
                          if length x25519 \<noteq> 32 then Inl (X25519Invalid x25519_len)
                          else case read_exact 2 r4 of
                            None \<Rightarrow> Inl ReplyEof
                          | Some (kl, r5) \<Rightarrow>
                              let kem_len = unat (of_be kl :: u16)
                              in if bounded \<and> kem_len > 2048 then Inl (KemOversized kem_len)
                                 else case read_exact kem_len r5 of
                                   None \<Rightarrow> Inl ReplyEof
                                 | Some (kem_bytes, _) \<Rightarrow>
                                     (case kem_of kem_bytes of None \<Rightarrow> Inl KemInvalid | Some k \<Rightarrow> Inr (of_be port_buf, x25519, k))))"

text \<open>The connections of a route in the order they are made: host, port and the keys the other side has to prove. \<open>ask i\<close> is what the connection number \<open>i\<close> answers to
  a request; \<open>dial\<close> says whether a connection is established.\<close>

type_synonym 'k leg = "bytes \<times> u16 \<times> bytes \<times> 'k"

definition route_leg ::
  "(bytes \<Rightarrow> 'k option) \<Rightarrow> (nat \<Rightarrow> bytes \<Rightarrow> bytes) \<Rightarrow> ('k leg \<Rightarrow> bool) \<Rightarrow> bool \<Rightarrow> nat \<Rightarrow> bytes \<Rightarrow> bytes \<Rightarrow> route_error + 'k leg" where
  "route_leg kem_of ask dial bounded i current_host hop =
     (case read_reply bounded kem_of hop (ask i (hop_request hop)) of
        Inl e \<Rightarrow> Inl e
      | Inr (p, x, k) \<Rightarrow> if dial (current_host, p, x, k) then Inr (current_host, p, x, k) else Inl DialFailed)"

fun route_hops ::
  "(bytes \<Rightarrow> 'k option) \<Rightarrow> (nat \<Rightarrow> bytes \<Rightarrow> bytes) \<Rightarrow> ('k leg \<Rightarrow> bool) \<Rightarrow> nat \<Rightarrow> bytes \<Rightarrow> bytes list \<Rightarrow> route_error + 'k leg list \<times> nat \<times> bytes" where
  "route_hops kem_of ask dial i current_host [] = Inr ([], i, current_host)"
| "route_hops kem_of ask dial i current_host (hop # hops) =
     (case route_leg kem_of ask dial True i current_host hop of
        Inl e \<Rightarrow> Inl e
      | Inr l \<Rightarrow>
          (case route_hops kem_of ask dial (i + 1) (snd (parse_userhost hop)) hops of
             Inl e \<Rightarrow> Inl e
           | Inr (ls, j, h) \<Rightarrow> Inr (l # ls, j, h)))"

definition dest_hop :: "bytes \<Rightarrow> bytes" where
  "dest_hop dest = (case parse_userhost dest of (Some u, h) \<Rightarrow> (u @ [0x40]) @ h | (None, h) \<Rightarrow> h)"

definition route :: "(bytes \<Rightarrow> 'k option) \<Rightarrow> (nat \<Rightarrow> bytes \<Rightarrow> bytes) \<Rightarrow> ('k leg \<Rightarrow> bool) \<Rightarrow> bool \<Rightarrow> bytes list \<Rightarrow> bytes \<Rightarrow> route_error + 'k leg list" where
  "route kem_of ask dial first_ok via dest =
     (case via of
        [] \<Rightarrow> Inl NoRelay
      | first_hop # hops \<Rightarrow>
          if \<not> first_ok then Inl FirstHopFailed
          else case route_hops kem_of ask dial 0 (snd (parse_userhost first_hop)) hops of
            Inl e \<Rightarrow> Inl e
          | Inr (ls, i, current_host) \<Rightarrow>
              (case route_leg kem_of ask dial False i current_host (dest_hop dest) of Inl e \<Rightarrow> Inl e | Inr l \<Rightarrow> Inr (ls @ [l])))"

section \<open>Facts\<close>

lemma dest_hop_id: "dest_hop dest = dest"
proof (cases "0x40 \<in> set dest")
  case True
  then obtain a b where ab: "dest = a @ 0x40 # b" "0x40 \<notin> set a" by (metis split_list_first)
  then have "parse_userhost dest = (Some a, b)" using split_once_first [of "0x40" a b] by (simp add: parse_userhost_def)
  with ab show ?thesis by (simp add: dest_hop_def)
qed (simp add: dest_hop_def parse_userhost_def split_once_def)

lemma unat_u16: "n < 2 ^ 16 \<Longrightarrow> unat (of_nat n :: u16) = n"
  by (rule unat_of_nat_id) simp

lemma reply_back:
  assumes "length x = 32" and "length (kem_to k) \<le> 2048" and "kem_of (kem_to k) = Some k"
  shows "read_reply bounded kem_of hop (hop_response p x (kem_to k)) = Inr (p, x, k)"
proof -
  have "unat (of_nat (length (kem_to k)) :: u16) = length (kem_to k)" using assms(2) by (intro unat_u16) simp
  then show ?thesis using assms by (simp add: read_reply_def hop_response_def read_exact_def Let_def)
qed

text \<open>A relay answers the request for a hop that announced itself with the keys from the announcement.\<close>

lemma hop_answer:
  assumes "hex_ok (re_text E)" and "length x = 32" and "re_kem_of E kem = Some k" and "utf8_valid hop" and "hop \<noteq> []" and "length hop \<le> 512"
    and "re_start E (parse_userhost hop) = Some (announce (re_text E) port x kem None)"
    and "re_addr E (target_of (snd (parse_userhost hop)) port) = Some a" and "re_bind E = Some p"
  shows "do_handle_hop_stream E (hop_request hop) = Inr (a, hop_response p x (re_kem_to E k))"
proof -
  have "parse_seam_line (re_text E) (re_kem_of E) (announce (re_text E) port x kem None) = Inr (port, x, k)"
    using line_read_back [where kem_of = "re_kem_of E", OF assms(1-3), of None] by simp
  moreover have "unat (of_nat (length hop) :: u16) = length hop" using assms(6) by (intro unat_u16) simp
  ultimately show ?thesis using assms(4-9) by (simp add: do_handle_hop_stream_def hop_request_def read_exact_def Let_def)
qed

text \<open>A host name is not a socket address, so a hop that is named and not given as an address is always refused, after it was started.\<close>

definition addr_char :: "u8 \<Rightarrow> bool" where
  "addr_char b \<longleftrightarrow> b \<in> {0x30 .. 0x39} \<union> {0x61 .. 0x66} \<union> {0x41 .. 0x46} \<union> {0x2E, 0x3A, 0x5B, 0x5D, 0x25}"

theorem named_hop_refused:
  assumes "\<And>t a. re_addr E t = Some a \<Longrightarrow> \<forall>b \<in> set t. addr_char b" and "b \<in> set (snd (parse_userhost hop))" and "\<not> addr_char b"
    and "length hop < 2 ^ 16"
  shows "handle_hop_stream E (hop_request hop) = [0]"
proof -
  have "re_addr E (target_of (snd (parse_userhost hop)) port) = None" for port
    using assms(1) [of "target_of (snd (parse_userhost hop)) port"] assms(2,3) by (cases "re_addr E (target_of (snd (parse_userhost hop)) port)") (auto simp: target_of_def)
  then have "\<exists>e. do_handle_hop_stream E (hop_request hop) = Inl e"
    using unat_u16 [OF assms(4)]
    by (auto simp: do_handle_hop_stream_def hop_request_def read_exact_def Let_def split: option.split sum.split)
  then show ?thesis by (auto simp: handle_hop_stream_def)
qed

text \<open>Every connection of a route is made by the client itself to the relay that was asked last: with two relays, the destination is reached through the second alone.\<close>

lemma hops_dialled:
  "route_hops kem_of ask dial i h hops = Inr (ls, j, h') \<Longrightarrow> map fst ls @ [h'] = h # map (\<lambda>r. snd (parse_userhost r)) hops"
  by (induction kem_of ask dial i h hops arbitrary: ls rule: route_hops.induct) (auto simp: route_leg_def split: sum.splits prod.splits if_splits)

theorem route_dials_every_relay:
  assumes "route kem_of ask dial first_ok via dest = Inr legs"
  shows "map fst legs = map (\<lambda>r. snd (parse_userhost r)) via"
proof -
  obtain first_hop hops where via: "via = first_hop # hops" using assms by (cases via) (auto simp: route_def)
  obtain ls i h l where "route_hops kem_of ask dial 0 (snd (parse_userhost first_hop)) hops = Inr (ls, i, h)"
    "route_leg kem_of ask dial False i h (dest_hop dest) = Inr l" "legs = ls @ [l]"
    using assms by (auto simp: route_def via split: sum.splits if_splits)
  then show ?thesis using hops_dialled [of kem_of ask dial 0 _ hops ls i h] by (auto simp: via route_leg_def split: sum.splits prod.splits if_splits)
qed

text \<open>Between one client and the next hop, the proxy passes every datagram on to the other side, in order.\<close>

lemma proxy_between:
  assumes "\<forall>(d, a) \<in> set ds. a = client \<or> a = hop" and "client \<noteq> hop"
  shows "udp_proxy hop (Some client) (map (\<lambda>(d, a). Datagram d a) ds) = map (\<lambda>(d, a). (d, if a = hop then client else hop)) ds"
  using assms by (induction ds) auto

text \<open>Whoever sends a datagram to the proxy becomes its client: the answers of the next hop then go to that sender.\<close>

theorem stranger_takes_over:
  assumes "stranger \<noteq> hop"
  shows "udp_proxy hop (Some client) [Datagram x stranger, Datagram answer hop] = [(x, hop), (answer, stranger)]"
  using assms by simp

end
