(* ===== verification/Dial.thy ===== *)
theory Dial
  imports Route_Hop
begin

text \<open>
  \<^verbatim>\<open>bin/seam/connect.rs\<close> and \<^verbatim>\<open>bin/seam/ssh.rs\<close>: how a command reaches its remote end. The remote worker is started over SSH and announces itself on a line of
  its output; the key of the announcement is checked against the pinned one, and the address is dialled. SSH, the reading of a socket address and the handshake are arguments;
  the file of pins is threaded through.
\<close>

section \<open>The command line of SSH\<close>

definition port_args :: "remote_info \<Rightarrow> bytes list" where
  "port_args r = (case ri_ssh_port r of Some p \<Rightarrow> [as_bytes ''-p'', as_bytes (show_nat (unat p))] | None \<Rightarrow> [])"

definition ssh_base_batch :: "remote_info \<Rightarrow> bytes list" where
  "ssh_base_batch r =
     [as_bytes ''-o'', as_bytes ''BatchMode=yes'', as_bytes ''-o'', as_bytes ''StrictHostKeyChecking=accept-new'', as_bytes ''-o'', as_bytes ''ConnectTimeout=10''] @
     port_args r @ [remote_target r]"

definition ssh_base :: "remote_info \<Rightarrow> bytes list" where
  "ssh_base r =
     [as_bytes ''-o'', as_bytes ''StrictHostKeyChecking=accept-new'', as_bytes ''-o'', as_bytes ''ConnectTimeout=10''] @ port_args r @ [remote_target r]"

text \<open>What running SSH with some arguments gives: the bytes it prints, whether reading them ends in an error, and its exit code; \<open>None\<close> when it cannot be started. The exit code is \<open>None\<close> when a
  signal ended it.\<close>

record ssh_output =
  so_bytes :: bytes
  so_read_err :: bool
  so_code :: "int option"

type_synonym ssh_run = "bytes list \<Rightarrow> ssh_output option"

text \<open>The code points of valid UTF-8.\<close>

definition low6 :: "u8 \<Rightarrow> nat" where
  "low6 b = unat b mod 64"

fun utf8_chars :: "bytes \<Rightarrow> ustr" where
  "utf8_chars [] = []"
| "utf8_chars (b # bs) =
     (if b < 0x80 then unat b # utf8_chars bs
      else case bs of [] \<Rightarrow> [] | c # cs \<Rightarrow>
        if b < 0xE0 then (unat b mod 32 * 64 + low6 c) # utf8_chars cs
        else case cs of [] \<Rightarrow> [] | d # ds \<Rightarrow>
          if b < 0xF0 then (unat b mod 16 * 4096 + low6 c * 64 + low6 d) # utf8_chars ds
          else case ds of [] \<Rightarrow> [] | e # es \<Rightarrow> (unat b mod 8 * 262144 + low6 c * 4096 + low6 d * 64 + low6 e) # utf8_chars es)"

text \<open>The items of \<^verbatim>\<open>BufRead::lines\<close>: \<open>None\<close> is an error, of a line that is not UTF-8 or of a read. A carriage return is taken off a line that has its line end.\<close>

definition output_line :: "bytes \<Rightarrow> ustr option" where
  "output_line l = (if utf8_valid l then Some (utf8_chars (if l \<noteq> [] \<and> last l = 13 then butlast l else l)) else None)"

definition output_lines :: "ssh_output \<Rightarrow> ustr option list" where
  "output_lines out =
     (let parts = split_on 10 (so_bytes out); rest = last parts
      in map output_line (butlast parts) @
         (if so_read_err out then [None] else if rest = [] then [] else [if utf8_valid rest then Some (utf8_chars rest) else None]))"

datatype line_search = Found ustr | Unreadable | NoLine

fun seam_line_of :: "ustr option list \<Rightarrow> line_search" where
  "seam_line_of [] = NoLine"
| "seam_line_of (None # ls) = Unreadable"
| "seam_line_of (Some l # ls) = (if take 5 l = ustr ''SEAM '' then Found l else seam_line_of ls)"

datatype bootstrap_error = SshSpawn | ReadingOutput | NoSeamLine bytes int | CopyFailed | LineError line_error | PinRefused ustr | BadAddress | HandshakeFailed

definition start_remote_seam :: "ssh_run \<Rightarrow> remote_info \<Rightarrow> bytes \<Rightarrow> bytes \<Rightarrow> bootstrap_error + ustr" where
  "start_remote_seam ssh r seam_bin subcmd =
     (case ssh (ssh_base r @ [seam_bin @ 0x20 # subcmd]) of
        None \<Rightarrow> Inl SshSpawn
      | Some out \<Rightarrow>
          (case seam_line_of (output_lines out) of
             Found l \<Rightarrow> Inr l
           | Unreadable \<Rightarrow> Inl ReadingOutput
           | NoLine \<Rightarrow> Inl (NoSeamLine (remote_target r) (case so_code out of Some c \<Rightarrow> c | None \<Rightarrow> -1))))"

section \<open>Dialling\<close>

record 'k dial_env =
  de_text :: text_lib
  de_host :: host
  de_lock :: lock_outcome
  de_save_err :: "string option"
  de_addr :: "ustr \<Rightarrow> socket_addr option"
  de_connect :: "socket_addr \<Rightarrow> bytes \<Rightarrow> 'k \<Rightarrow> bool"

definition addr_text :: "ustr \<Rightarrow> u16 \<Rightarrow> ustr" where
  "addr_text h port = h @ 58 # ustr (show_nat (unat port))"

definition dial :: "'k dial_env \<Rightarrow> pin_policy \<Rightarrow> ustr \<Rightarrow> u16 \<Rightarrow> bytes \<Rightarrow> 'k \<Rightarrow> ustr option \<Rightarrow> (bootstrap_error + socket_addr) \<times> ustr option" where
  "dial E policy h port x25519 kem_pk pins =
     (case verify_or_pin (de_text E) (de_host E) (de_lock E) (de_save_err E) h x25519 policy pins pins of
        (Inl e, pins') \<Rightarrow> (Inl (PinRefused e), pins')
      | (Inr _, pins') \<Rightarrow>
          (case de_addr E (addr_text h port) of
             None \<Rightarrow> (Inl BadAddress, pins')
           | Some a \<Rightarrow> if de_connect E a x25519 kem_pk then (Inr a, pins') else (Inl HandshakeFailed, pins')))"


definition reject_unsupported_multipath :: "ustr option \<Rightarrow> bool \<Rightarrow> bool" where
  "reject_unsupported_multipath multipath multipath_redundant \<longleftrightarrow> multipath \<noteq> None \<or> multipath_redundant"

section \<open>Facts\<close>

lemma split_on_nonempty: "split_on x t \<noteq> []"
  by (induction t) (auto split: list.split)

lemma split_on_word: "x \<notin> set l \<Longrightarrow> split_on x (l @ x # rest) = l # split_on x rest"
  by (induction l) (auto split: list.split)

lemma split_on_before: "\<forall>l \<in> set ls. x \<notin> set l \<Longrightarrow> split_on x (concat (map (\<lambda>l. l @ [x]) ls) @ rest) = ls @ split_on x rest"
  by (induction ls) (simp_all add: split_on_word)














text \<open>A line that is not UTF-8 before the announcement, of a banner in another encoding for instance, ends the command.\<close>

theorem foreign_banner_aborts:
  assumes "ssh (ssh_base r @ [bin @ 0x20 # subcmd]) = Some out" and "so_bytes out = l @ 10 # rest" and "10 \<notin> set l" and "\<not> utf8_valid l"
  shows "start_remote_seam ssh r bin subcmd = Inl ReadingOutput"
proof -
  have "split_on 10 (so_bytes out) = l # split_on 10 rest" using split_on_before [of "[l]" 10 rest] assms(2,3) by simp
  then have "hd (output_lines out) = None" "output_lines out \<noteq> []" using assms(4) by (simp_all add: output_lines_def output_line_def Let_def split_on_nonempty)
  then obtain ls where "output_lines out = None # ls" by (cases "output_lines out") auto
  then show ?thesis using assms(1) by (simp add: start_remote_seam_def)
qed

text \<open>A worker makes new keys every time it is started. Once a host is pinned, the next worker on that host is therefore refused as a changed identity.\<close>

theorem next_worker_refused:
  assumes "map_of (load_pins pins) h = Some (fingerprint (de_text E) (de_host E) x1)" and "fingerprint (de_text E) (de_host E) x2 \<noteq> fingerprint (de_text E) (de_host E) x1"
    and "policy \<noteq> InsecureIgnore" and "\<not> is_LockError (de_lock E)"
  shows "dial E policy h port x2 k pins = (Inl (PinRefused (mismatch_message h)), pins)"
  using assms by (auto simp: dial_def verify_or_pin_def with_pins_lock_def verify_or_pin_locked_def Let_def split: lock_outcome.split)

text \<open>A socket address is made of numbers and a few signs, so a host given by its name is never dialled; its key has been pinned by then.\<close>

definition addr_code :: "nat \<Rightarrow> bool" where
  "addr_code c \<longleftrightarrow> c \<in> {0x30 .. 0x39} \<union> {0x61 .. 0x66} \<union> {0x41 .. 0x46} \<union> {0x2E, 0x3A, 0x5B, 0x5D, 0x25}"

theorem named_host_fails:
  assumes "\<And>t a. de_addr E t = Some a \<Longrightarrow> \<forall>c \<in> set t. addr_code c" and "c \<in> set h" and "\<not> addr_code c"
  shows "isl (fst (dial E policy h port x k pins))"
proof -
  have "de_addr E (addr_text h port) = None"
    using assms(1) [of "addr_text h port"] assms(2,3) by (cases "de_addr E (addr_text h port)") (auto simp: addr_text_def)
  then show ?thesis by (auto simp: dial_def split: prod.split sum.split)
qed

end
