(* ===== verification/Spec2Isabelle.thy ===== *)
theory Spec2Isabelle
  imports Key_Schedule Ratchet Session_Invariants Session_Transfer Resume Multipath Api_Facts Mux_Facts Nat_Traversal Receiver_Facts Dir_Sync_Facts Pools Settings_Facts Key_Store Port_Tunnel Scan Serve_Admission Dial
begin

text \<open>
  Seam is a transport protocol over UDP: a hybrid (classical and post-quantum) Noise handshake behind a stateless
  cookie, encrypted packets with header protection and replay protection, reliable streams and unreliable datagrams in a session,
  forward error correction, congestion control, traffic shaping, path probing and migration, several paths at once, session
  resumption, and a client and server interface with a command line tool on top. This development models the library
  and the protocols, formats and stored files of the tool, and proves what makes its parts and their composition correct. The files named below are relative to \<^verbatim>\<open>src/src\<close>.

  \<^bold>\<open>Conventions.\<close> A Rust struct is a record, an enum a datatype, a method a function from the state to the new state and the
  result. The fixed-width integers are words, with the wrap-around of a release build; \<^verbatim>\<open>usize\<close>, durations and instants
  are natural numbers. A \<^verbatim>\<open>Result\<close> is a sum with the error on the left, a panic is the value \<open>Panic\<close> of \<open>outcome\<close>, a loop that
  may not end returns an option. Clock readings, random bytes and what a socket returns are arguments. A hash map is an association list, a
  B-tree map an ordered one. Shared connections (\<^verbatim>\<open>Arc<Mutex<_>>\<close>) are positions in a list; tasks are cut at their lock
  sections, which are the atomic steps. Cryptographic crates (\<open>prims\<close>, \<open>pq_lib\<close>, \<open>noise_lib\<close>) and the floating-point
  unit (\<open>float_ops\<close>) are records of functions, arguments of the definitions; what the code relies on is a named
  hypothesis, such as \<open>aead_correct\<close>, and every property with such a hypothesis has a witness with concrete functions.

  \<^bold>\<open>Theories.\<close>
  \<^item> \<open>Seam_Prelude\<close>: machine types, byte encodings, ordered maps, slices, outcomes, and the interface \<open>byte_codec\<close> that all wire formats
    of fixed size are interpretations of. \<open>Float_Ops\<close> and \<open>Net_Addr\<close>: floating point and socket addresses.
  \<^item> Packets: \<open>Packet\<close> (\<^verbatim>\<open>packet.rs\<close>), \<open>Crypto_Prims\<close> (\<^verbatim>\<open>crypto/mod.rs\<close>, \<^verbatim>\<open>crypto/keys.rs\<close>), \<open>Replay_Window\<close>
    (\<^verbatim>\<open>crypto/replay.rs\<close>; a refinement of the set of accepted numbers), \<open>Packet_Codec\<close> (\<^verbatim>\<open>crypto/encoder.rs\<close>, \<^verbatim>\<open>decoder.rs\<close>, \<^verbatim>\<open>header.rs\<close>; what is sent is
    decoded, once, over a network that drops, repeats and reorders; a rejected packet changes nothing; nonces are not reused).
  \<^item> Keys: \<open>Key_Schedule\<close> (\<^verbatim>\<open>crypto/rekey.rs\<close>; both peers stay in the same epoch), \<open>Ratchet\<close> (\<^verbatim>\<open>crypto/ratchet.rs\<close>,
    \<^verbatim>\<open>session/ratchet_session.rs\<close>; skipped keys are bounded, where sender and receiver agree and where not).
  \<^item> Error correction: \<open>Gf\<close>, \<open>Gf_Matrix\<close> (\<^verbatim>\<open>fec/gf.rs\<close>; table arithmetic is polynomial arithmetic, inversion is inversion),
    \<open>Fec_Codec\<close> (\<^verbatim>\<open>fec/codec.rs\<close>; any k symbols of a group recover it), \<open>Arbiter\<close> (\<^verbatim>\<open>fec/arbiter.rs\<close>).
  \<^item> Session: \<open>Flow_Window\<close>, \<open>Datagram_Queue\<close>, \<open>Loss_Recovery\<close>, \<open>Ack_Ranges\<close>, \<open>Seam_Stream\<close> (the files of \<^verbatim>\<open>session/\<close>), \<open>Seam_Session\<close>
    (\<^verbatim>\<open>session/mod.rs\<close>), \<open>Session_Invariants\<close> (safety under every sequence of operations), \<open>Session_Transfer\<close> (two sessions over a
    lossy network transfer what was written), \<open>Resume\<close> (\<^verbatim>\<open>session/resume.rs\<close>).
  \<^item> Handshake: \<open>Cookie\<close>, \<open>Identity\<close>, \<open>Handshake\<close> (\<^verbatim>\<open>handshake/\<close>; both sides derive matching keys; identities survive storage).
  \<^item> Transport: \<open>Congestion\<close> (\<^verbatim>\<open>transport/cc.rs\<close>, \<^verbatim>\<open>bbr.rs\<close>, three controllers behind the interface \<open>congestion_control\<close>), \<open>Bbr_Advisory\<close>
    (\<^verbatim>\<open>congestion.rs\<close>, \<^verbatim>\<open>rtt.rs\<close>, \<^verbatim>\<open>pacer.rs\<close>, \<^verbatim>\<open>bandwidth.rs\<close>), \<open>Path_Probe\<close> (\<^verbatim>\<open>probe.rs\<close>), \<open>Traffic_Shaping\<close> (\<^verbatim>\<open>tar.rs\<close>, \<^verbatim>\<open>chaff.rs\<close>),
    \<open>Ticket_Key\<close> (\<^verbatim>\<open>resumption.rs\<close>), \<open>Multipath\<close> (\<^verbatim>\<open>multipath.rs\<close>), \<open>Nat_Traversal\<close> (\<^verbatim>\<open>nat.rs\<close>; a STUN response is read as it was laid out),
    \<open>Connection\<close> with \<open>Connection_Facts\<close> (\<^verbatim>\<open>connection.rs\<close>; the exchange of packets establishes both ends with matching sessions; the
    phases; the congestion window), \<open>Endpoint\<close> with \<open>Endpoint_Facts\<close> (\<^verbatim>\<open>endpoint.rs\<close>; the connection table under the interleaving of its tasks, the
    rate limiter).
  \<^item> Interface: \<open>Seam_Api\<close> with \<open>Api_Facts\<close> (\<^verbatim>\<open>api.rs\<close>; a client reaches a server, a server hands out completed
    connections only), \<open>Seam_Mux\<close> with \<open>Mux_Facts\<close> (\<^verbatim>\<open>tunnel.rs\<close>; the bytes of a stream reach its reader once and in order).
  \<^item> Pools: \<open>Pools\<close> (\<^verbatim>\<open>transport/pool.rs\<close>, \<^verbatim>\<open>bufpool.rs\<close>, \<^verbatim>\<open>transport/stats.rs\<close>; every buffer handed out has the size of its pool).
  \<^item> Files over a connection (\<^verbatim>\<open>bin/seam\<close>): \<open>Frame_Proto\<close> (\<^verbatim>\<open>proto.rs\<close>; frames survive any cutting of the stream), \<open>File_Store\<close> (the file
    system, paths, hashes and text libraries the tool uses), \<open>File_Transfer\<close> with \<open>File_Transfer_Facts\<close> and \<open>Receiver_Facts\<close> (\<^verbatim>\<open>copy.rs\<close>, \<^verbatim>\<open>recv.rs\<close>; a push
    delivers its files, a receiver writes below its directory only), \<open>Duplex\<close> (runs of two ends that exchange frames), \<open>Dir_Sync\<close> with
    \<open>Dir_Sync_Facts\<close> (\<^verbatim>\<open>sync.rs\<close>; a push makes the directories equal; a pull waits for ever), \<open>Remote_Mount\<close> with \<open>Mount_Facts\<close> (\<^verbatim>\<open>mount.rs\<close>; a mounted file reads as it
    is on the server, up to the limit of streams; inode numbers and paths correspond).
  \<^item> Reaching a remote end: \<open>Share_Link\<close> with \<open>Share_Facts\<close> (\<^verbatim>\<open>share.rs\<close> and the text formats of \<^verbatim>\<open>connect.rs\<close> and \<^verbatim>\<open>ssh.rs\<close>; a share admits no more downloads than
    allowed and only behind its token; a quoted argument is one word), \<open>Known_Hosts\<close> (\<^verbatim>\<open>known_hosts.rs\<close>; a pin holds, with and without the lock), \<open>Dial\<close> (\<^verbatim>\<open>connect.rs\<close>, \<^verbatim>\<open>ssh.rs\<close>; a command
    reaches the worker it started, past a readable banner), \<open>Route_Hop\<close> (\<^verbatim>\<open>route.rs\<close>), \<open>Serve_Admission\<close> (\<^verbatim>\<open>serve.rs\<close>, \<^verbatim>\<open>fwd.rs\<close>; exactly the authorised clients are served, within the limit).
  \<^item> Third hosts: \<open>Proxy_Forward\<close> with \<open>Proxy_Facts\<close> (\<^verbatim>\<open>proxy.rs\<close>, \<^verbatim>\<open>forward.rs\<close>, \<^verbatim>\<open>fwd.rs\<close>, \<^verbatim>\<open>serve.rs\<close>; the target that is connected is the requested one),
    \<open>Port_Tunnel\<close> (\<^verbatim>\<open>tunnel.rs\<close> of the tool; waits grow and stay bounded), \<open>Scan\<close> (\<^verbatim>\<open>scan.rs\<close>; which addresses and ports are probed).
  \<^item> The tool's own files: \<open>Settings\<close> with \<open>Settings_Facts\<close> (\<^verbatim>\<open>config.rs\<close>; a change reaches one key and survives, a failed one changes nothing), \<open>Key_Store\<close>
    (\<^verbatim>\<open>key.rs\<close>; a rotation never loses the key; its dates are the calendar's), \<open>Audit_Log\<close> (\<^verbatim>\<open>audit.rs\<close>).

  In the theories of the tool, text that may hold any character is a list of code points and other text a list of bytes; a protocol end is a machine that
  takes a step per frame it reads, or a function of all the bytes it will read; the file system, SSH, the TOML, JSON and hex libraries and the reading of addresses are arguments.


  \<^bold>\<open>Interfaces.\<close> \<open>byte_codec\<close> (wire formats), \<open>replay_filter\<close> (replay window), \<open>credit_window\<close> (flow control), \<open>flight_tracker\<close> (the two
  trackers of packets in flight), \<open>congestion_control\<close> (three controllers), \<open>item_transfer\<close> (items sent one after the other
  between two ends), \<open>buffer_source\<close> (the two buffer pools); each is interpreted on the
  definitions of the model that provide it.

  \<^bold>\<open>Bounds and fuel.\<close> Functions that recurse along their input have termination proofs with a measure. Two loops can run forever
  in the source and return an option here: dropping the oldest datagram, with a depth of zero (\<open>Datagram_Queue\<close>, where exactly that case
  is shown to hang), and the waiting loops, which recurse along the list of what arrives. Lengths are assumed to fit the field that carries them
  where the source casts silently; the hypotheses say so.

  \<^bold>\<open>Flaws.\<close> Some theorems state what the code does where a comment says otherwise or where it is a mistake: a stream read that
  is too short loses data, a forged third message ends a handshake, padding makes packets unreadable, migration never starts, symmetric
  peers never connect, a blocked write truncates a stream, an IPv6 address learned over STUN is wrong, a share cuts off its last download, the second worker
  on a host is refused for its new key, a route does not run through all its relays, two rotations in a second lose a key, a pull of a
  directory never starts, two first uses race where the pin file cannot be locked, a mount dies at its 1025th request, among others.

  \<^bold>\<open>Not modelled.\<close> Tracing, the operating
  system's sockets, processes and terminals, percentile statistics, and the commands of \<^verbatim>\<open>bin/seam\<close> that only arrange such calls
  or print: benchmarks, the dashboard, the doctor, the interactive shell and its pseudo-terminals, listing, updating and completion.
\<close>

end
